(* ===== verification/Prelude.thy ===== *)
theory Prelude
  imports Main "HOL-Library.Word" "HOL-Library.AList"
begin

text \<open>
  Vocabulary shared by every component: the machine types and the result type of the Rust sources, the
  string operations of the Rust standard library that the compiler relies on (\<open>str::split\<close>,
  \<open>str::contains\<close>, \<open>ToString\<close> on integers, \<open>slice::join\<close>), and
  the generic lemmas on lists, association lists and words that several components use.
\<close>

unbundle bit_operations_syntax

section \<open>Machine types and results\<close>

type_synonym usize = "64 word"
type_synonym u64 = "64 word"
type_synonym i64 = "64 word"
type_synonym u32 = "32 word"

text \<open>Rust's \<open>Result<'a, 'e>\<close>: \<^term>\<open>Inl\<close> is \<open>Err\<close>, \<^term>\<open>Inr\<close> is \<open>Ok\<close>.\<close>

type_synonym ('e, 'a) result = "'e + 'a"

abbreviation is_Ok :: "('e, 'a) result \<Rightarrow> bool" where
  "is_Ok r \<equiv> \<not> isl r"

named_theorems str_simps \<open>evaluation of the string operations\<close>

section \<open>Strings\<close>

fun starts_with :: "string \<Rightarrow> string \<Rightarrow> bool" where
  "starts_with [] s = True"
| "starts_with (p # ps) [] = False"
| "starts_with (p # ps) (c # cs) = (p = c \<and> starts_with ps cs)"

fun str_contains :: "string \<Rightarrow> string \<Rightarrow> bool" where
  "str_contains p [] = (p = [])"
| "str_contains p (c # cs) = (starts_with p (c # cs) \<or> str_contains p cs)"

definition ends_with :: "string \<Rightarrow> string \<Rightarrow> bool" where
  "ends_with p s = starts_with (rev p) (rev s)"

text \<open>
  \<open>s.split("__")\<close>: the pieces between the leftmost, non-overlapping occurrences of the
  separator. The accumulator holds the current piece, reversed.
\<close>

fun split_dunder :: "string \<Rightarrow> string \<Rightarrow> string list" where
  "split_dunder acc [] = [rev acc]"
| "split_dunder acc [c] = [rev (c # acc)]"
| "split_dunder acc (c # d # cs) =
     (if c = CHR ''_'' \<and> d = CHR ''_'' then rev acc # split_dunder [] cs
      else split_dunder (c # acc) (d # cs))"

definition split_last :: "string \<Rightarrow> string" where
  "split_last s = last (split_dunder [] s)"

text \<open>\<open>s.rsplit("__").next()\<close>: the piece after the rightmost separator.\<close>

definition rsplit_first :: "string \<Rightarrow> string" where
  "rsplit_first s = rev (hd (split_dunder [] (rev s)))"

fun join_with :: "string \<Rightarrow> string list \<Rightarrow> string" where
  "join_with sep [] = []"
| "join_with sep [s] = s"
| "join_with sep (s # t # ts) = s @ sep @ join_with sep (t # ts)"

text \<open>\<open>ToString\<close> on an unsigned integer, and the signed variant.\<close>

definition digit_char :: "nat \<Rightarrow> char" where
  "digit_char d = char_of (48 + d)"

fun show_nat :: "nat \<Rightarrow> string" where
  "show_nat n = (if n < 10 then [digit_char n] else show_nat (n div 10) @ [digit_char (n mod 10)])"

declare show_nat.simps [simp del]

lemmas [str_simps] = show_nat.simps digit_char_def split_last_def rsplit_first_def ends_with_def

lemma split_dunder_not_Nil [simp]: "split_dunder acc s \<noteq> []"
  by (induction acc s rule: split_dunder.induct) auto

lemma split_dunder_no_sep:
  "\<not> str_contains ''__'' s \<Longrightarrow> split_dunder acc s = [rev acc @ s]"
  by (induction acc s rule: split_dunder.induct) auto

lemma starts_with_append [simp]: "starts_with p (p @ s)"
  by (induction p) auto

lemma starts_with_iff: "starts_with p s \<longleftrightarrow> (\<exists>t. s = p @ t)"
  by (induction p s rule: starts_with.induct) auto

lemma ends_with_iff: "ends_with p s \<longleftrightarrow> (\<exists>t. s = t @ p)"
proof -
  have "(\<exists>t. rev s = rev p @ t) \<longleftrightarrow> (\<exists>t. s = t @ p)"
    by (metis rev_append rev_rev_ident)
  then show ?thesis by (simp add: ends_with_def starts_with_iff)
qed

lemma str_contains_iff: "str_contains p s \<longleftrightarrow> (\<exists>u v. s = u @ p @ v)"
proof (induction s)
  case Nil
  then show ?case by auto
next
  case (Cons c cs)
  have "(\<exists>u v. c # cs = u @ p @ v) \<longleftrightarrow> (\<exists>v. c # cs = p @ v) \<or> (\<exists>u v. cs = u @ p @ v)"
    by (metis append_Cons append_Nil list.sel(3) neq_Nil_conv)
  with Cons show ?case by (simp add: starts_with_iff)
qed

lemma show_nat_neq_Nil [simp]: "show_nat n \<noteq> []"
  by (subst show_nat.simps) simp

lemma digit_char_inj: "a < 10 \<Longrightarrow> b < 10 \<Longrightarrow> digit_char a = digit_char b \<longleftrightarrow> a = b"
  by (auto simp: digit_char_def char_of_eq_iff of_char_of take_bit_eq_mod)

lemma show_nat_inj: "show_nat a = show_nat b \<Longrightarrow> a = b"
proof (induction a arbitrary: b rule: less_induct)
  case (less a)
  have len: "n < 10 \<longleftrightarrow> length (show_nat n) = 1" for n
    using show_nat.simps [of n] by (cases "n < 10") simp_all
  show ?case
  proof (cases "a < 10")
    case True
    then have "b < 10" using len less.prems by metis
    then show ?thesis using True less.prems
      by (subst (asm) (1 2) show_nat.simps) (simp add: digit_char_inj)
  next
    case False
    then have b: "\<not> b < 10" using len less.prems by metis
    have "show_nat (a div 10) @ [digit_char (a mod 10)] = show_nat (b div 10) @ [digit_char (b mod 10)]"
      using less.prems False b show_nat.simps [of a] show_nat.simps [of b] by simp
    then have "show_nat (a div 10) = show_nat (b div 10)" "a mod 10 = b mod 10"
      by (simp_all add: digit_char_inj)
    moreover from this(1) have "a div 10 = b div 10"
      using False by (intro less.IH) simp_all
    ultimately show ?thesis by (metis mod_div_mult_eq)
  qed
qed

section \<open>Sizes of list elements, for termination proofs\<close>

lemma elem_size: "x \<in> set xs \<Longrightarrow> f x \<le> size_list f xs"
  by (rule size_list_estimation' [OF _ order_refl])

lemma zip_size_left: "(x, y) \<in> set (zip xs ys) \<Longrightarrow> f x \<le> size_list f xs"
  by (auto dest: set_zip_leftD intro: elem_size)

section \<open>Association lists that stand for a HashMap in its iteration order\<close>

lemma map_of_update [simp]: "map_of (AList.update k v xs) = (map_of xs)(k \<mapsto> v)"
  by (simp add: update_conv')

lemma map_of_map_snd: "map_of (map (\<lambda>(k, v). (k, f v)) xs) k = map_option f (map_of xs k)"
  by (induction xs) auto

lemma map_of_rev_distinct:
  "distinct (map fst kvs) \<Longrightarrow> map_of (rev kvs) = map_of kvs"
  by (induction kvs) (auto simp: map_add_upd_left dom_map_of_conv_image_fst)

end
