(* ===== verification/Salt_Ast.thy ===== *)
theory Salt_Ast
  imports Prelude
begin

text \<open>
  The surface syntax tree that the analysis passes of the code generator walk
  (\<open>salt-front/src/grammar.rs\<close>, \<open>grammar/pattern.rs\<close>,
  \<open>grammar/attr.rs\<close>). Expressions are those of the \<open>syn\<close> crate: a constructor
  for every kind that some pass inspects, with the parts it inspects (\<open>SynArray\<close> for arrays
  and repetitions; a range says whether it is closed), and \<open>SynOther\<close> for the kinds that
  every pass ignores. Identifiers are strings.
\<close>

section \<open>Types as they are written\<close>

text \<open>
  Types of \<open>syn\<close> and the compiler's own \<open>SynType\<close>. A path segment carries its
  type arguments; the length of an array is \<open>Some n\<close> when it is an integer literal, which
  is all that is looked at.
\<close>

datatype std_type =
    StdPath "(string \<times> std_type list) list"
  | StdArray std_type "nat option"
  | StdTuple "std_type list"
  | StdPtr std_type
  | StdReference std_type bool
  | StdBareFn "std_type list" "std_type option"
  | StdOther string

datatype tensor_dim = DimStatic usize | DimDynamic | DimSymbolic string

datatype syn_type =
    TyPointer syn_type
  | TyReference syn_type bool
  | TyShapedTensor syn_type usize "tensor_dim list"
  | TyPath "(string \<times> syn_type list) list"
  | TyArray syn_type "nat option"
  | TyTuple "syn_type list"
  | TyFnPtr "syn_type list" "syn_type option"
  | TyOther string

section \<open>Expressions of \<open>syn\<close>\<close>

text \<open>An integer literal is the number its digits stand for: one the compiler makes may be negative. A
  float literal is the bit pattern of its parsed value.\<close>

datatype syn_lit = SynInt int | SynFloat "64 word" | SynStr string | SynBool bool | SynOtherLit

datatype syn_pat = SynPatIdent string bool | SynPatType syn_pat std_type | SynPatOther

datatype syn_bin_op =
    OpAdd | OpSub | OpMul | OpDiv | OpRem | OpAnd | OpOr | OpBitXor | OpBitAnd | OpBitOr | OpShl | OpShr
  | OpEq | OpLt | OpLe | OpNe | OpGe | OpGt
  | OpAddAssign | OpSubAssign | OpMulAssign | OpDivAssign | OpRemAssign
  | OpBitXorAssign | OpBitAndAssign | OpBitOrAssign | OpShlAssign | OpShrAssign

datatype syn_un_op = OpDeref | OpNot | OpNeg

text \<open>A path: a leading \<open>::\<close>, and the segments with a mark for generic arguments.\<close>

type_synonym syn_path = "bool \<times> (string \<times> bool) list"

datatype syn_expr =
    SynLit syn_lit
  | SynPath syn_path
  | SynCall syn_expr "syn_expr list"
  | SynMethodCall syn_expr string "syn_expr list"
  | SynBinary syn_expr syn_bin_op syn_expr
  | SynUnary syn_un_op syn_expr
  | SynBlock "syn_stmt list"
  | SynIf syn_expr "syn_stmt list" "syn_expr option"
  | SynField syn_expr string
  | SynIndex syn_expr syn_expr
  | SynParen syn_expr
  | SynReference syn_expr
  | SynAssign syn_expr syn_expr
  | SynCast syn_expr std_type
  | SynReturn "syn_expr option"
  | SynTuple "syn_expr list"
  | SynRange "syn_expr option" "syn_expr option" bool
  | SynStruct syn_path "(string \<times> syn_expr) list"
  | SynArray
  | SynOther
and syn_stmt =
    SynLocal syn_pat "syn_expr option"
  | SynStmtExpr syn_expr bool
  | SynStmtOther

definition get_ident :: "syn_path \<Rightarrow> string option" where
  "get_ident p = (case p of (False, [(i, False)]) \<Rightarrow> Some i | _ \<Rightarrow> None)"

definition path_name :: "syn_path \<Rightarrow> string" where
  "path_name p = join_with ''::'' (map fst (snd p))"

definition base10_parse_u64 :: "int \<Rightarrow> u64 option" where
  "base10_parse_u64 n = (if 0 \<le> n \<and> n < 2 ^ 64 then Some (of_int n) else None)"

definition base10_parse_i64 :: "int \<Rightarrow> i64 option" where
  "base10_parse_i64 n = (if - (2 ^ 63) \<le> n \<and> n < 2 ^ 63 then Some (of_int n) else None)"

section \<open>Patterns\<close>

datatype pat =
    PatWildcard
  | PatLiteral syn_lit
  | PatIdent string bool
  | PatVariant "string list" "pat list option"
  | PatTuple "pat list"
  | PatStruct string "(string \<times> pat option) list"
  | PatOr "pat list"
  | PatRest

fun is_irrefutable :: "pat \<Rightarrow> bool" where
  "is_irrefutable PatWildcard = True"
| "is_irrefutable (PatIdent _ _) = True"
| "is_irrefutable PatRest = True"
| "is_irrefutable (PatTuple ps) = list_all is_irrefutable ps"
| "is_irrefutable (PatStruct _ fs) =
     list_all (\<lambda>(_, p). case p of None \<Rightarrow> True | Some p \<Rightarrow> is_irrefutable p) fs"
| "is_irrefutable (PatVariant _ _) = False"
| "is_irrefutable (PatLiteral _) = False"
| "is_irrefutable (PatOr _) = False"

fun bound_names :: "pat \<Rightarrow> (string \<times> bool) list" where
  "bound_names PatWildcard = []"
| "bound_names PatRest = []"
| "bound_names (PatLiteral _) = []"
| "bound_names (PatIdent name mutable) = [(name, mutable)]"
| "bound_names (PatVariant _ None) = []"
| "bound_names (PatVariant _ (Some ps)) = concat (map bound_names ps)"
| "bound_names (PatTuple ps) = concat (map bound_names ps)"
| "bound_names (PatStruct _ fs) =
     concat (map (\<lambda>(name, p). case p of None \<Rightarrow> [(name, False)] | Some p \<Rightarrow> bound_names p) fs)"
| "bound_names (PatOr []) = []"
| "bound_names (PatOr (p # ps)) = bound_names p"

section \<open>Statements\<close>

datatype stmt_ast =
    StSyn syn_stmt
  | StInvariant syn_expr
  | StExpr syn_expr bool
  | StWhile syn_expr "stmt_ast list"
  | StFor syn_pat syn_expr "stmt_ast list"
  | StIf salt_if
  | StMatch syn_expr "match_arm list"
  | StLetElse pat syn_expr "stmt_ast list"
  | StMove syn_expr
  | StMapWindow syn_expr syn_expr string "stmt_ast list"
  | StWithRegion string "stmt_ast list"
  | StUnsafe "stmt_ast list"
  | StReturn "syn_expr option"
  | StBreak
  | StContinue
  | StLoop "stmt_ast list"
and salt_if = SaltIf (if_cond: syn_expr) (then_branch: "stmt_ast list") (else_branch: "salt_else option")
and salt_else = ElseBlock "stmt_ast list" | ElseIf salt_if
and match_arm = MatchArm (arm_pattern: pat) (arm_guard: "syn_expr option") (arm_body: "stmt_ast list")

section \<open>Attributes and functions\<close>

record attribute =
  attr_name :: string
  attr_args :: "string list"
  int_arg :: "u32 option"
  string_arg :: "string option"

definition has_attribute :: "attribute list \<Rightarrow> string \<Rightarrow> bool" where
  "has_attribute attrs name = list_ex (\<lambda>a. attr_name a = name) attrs"

definition find_attribute :: "attribute list \<Rightarrow> string \<Rightarrow> attribute option" where
  "find_attribute attrs name = find (\<lambda>a. attr_name a = name) attrs"

definition extract_yielding_pulse :: "attribute list \<Rightarrow> u32 option" where
  "extract_yielding_pulse attrs =
     map_option (\<lambda>a. case int_arg a of Some n \<Rightarrow> n | None \<Rightarrow> 1024) (find_attribute attrs ''yielding'')"

definition extract_pulse_hz :: "attribute list \<Rightarrow> u32 option" where
  "extract_pulse_hz attrs =
     map_option (\<lambda>a. case int_arg a of Some n \<Rightarrow> n | None \<Rightarrow> 60) (find_attribute attrs ''pulse'')"

definition extract_pulse_budget :: "attribute list \<Rightarrow> u32 option" where
  "extract_pulse_budget attrs = Option.bind (find_attribute attrs ''pulse_budget'') int_arg"

definition pulse_to_tier :: "u32 \<Rightarrow> nat" where
  "pulse_to_tier hz = (if 500 \<le> hz then 0 else if 30 \<le> hz then 1 else 2)"

datatype generic_ast = GenTypeParam string "string option" | GenConstParam string syn_type

record salt_fn =
  sf_attributes :: "attribute list"
  sf_pub :: bool
  sf_name :: string
  sf_generics :: "generic_ast list option"
  sf_args :: "(string \<times> syn_type option) list"
  sf_ret :: "syn_type option"
  sf_body :: "stmt_ast list"

section \<open>Items\<close>

record struct_ast =
  sa_name :: string
  sa_generics :: "generic_ast list option"
  sa_fields :: "(string \<times> syn_type) list"

record enum_ast =
  ea_name :: string
  ea_generics :: "generic_ast list option"
  ea_variants :: "(string \<times> syn_type option) list"

record method_sig =
  ms_name :: string
  ms_generics :: "generic_ast list option"
  ms_args :: "(string \<times> syn_type option) list"
  ms_ret :: "syn_type option"

record trait_ast =
  ta_name :: string
  ta_generics :: "generic_ast list option"
  ta_methods :: "method_sig list"

datatype impl_ast =
    ImplConcept string syn_type
  | ImplMethods syn_type "salt_fn list" "generic_ast list option"
  | ImplTrait string syn_type "salt_fn list" "generic_ast list option"

record extern_ast =
  xa_pub :: bool
  xa_name :: string
  xa_args :: "(string \<times> syn_type option) list"
  xa_ret :: "syn_type option"

datatype item_ast =
    FnItem salt_fn
  | StructItem struct_ast
  | EnumItem enum_ast
  | TraitItem trait_ast
  | ImplItem impl_ast
  | ExternFnItem extern_ast
  | GlobalItem string syn_type
  | ConstItem string syn_type
  | ConceptItem string

end
