(* ===== verification/Salt_Types.thy ===== *)
theory Salt_Types
  imports Prelude
begin

text \<open>
  The shared type representation of the Salt compiler (\<open>salt-front/src/types.rs\<close>) and its
  symbol mangler (\<open>salt-front/src/common/mangling.rs\<close>): the \<open>Type\<close> enum, mangling, the
  context-free MLIR names, substitution of generics, the classification predicates,
  structural equality, and the size and alignment computation over the struct registry.
  A \<open>HashMap\<close> the code iterates over (the struct registry) is an association list in its
  iteration order; the theorems hold for every such order.
\<close>

section \<open>The Type enum\<close>

datatype provenance = Static | Stack | Heap string | Naked

datatype ty =
    I8 | I16 | I32 | I64
  | U8 | U16 | U32 | U64 | Usize
  | F32 | F64
  | Bool | Unit
  | Struct string
  | Generic string
  | Concrete string "ty list"
  | Owned ty
  | Tensor ty "usize list"
  | Array ty usize bool
  | Tuple "ty list"
  | Fn "ty list" ty
  | Enum string
  | Atomic ty
  | Window ty string
  | Pointer ty provenance bool
  | Reference ty bool
  | Never
  | SelfType

record type_key =
  tk_path :: "string list"
  tk_name :: string
  tk_spec :: "ty list option"

record struct_info =
  si_name :: string
  si_fields :: "string \<rightharpoonup> usize \<times> ty"
  si_field_order :: "ty list"
  si_field_alignments :: "u32 option list"
  si_template_name :: "string option"
  si_specialization_args :: "ty list"

type_synonym struct_registry = "(type_key \<times> struct_info) list"

section \<open>Mangling\<close>

definition mangle :: "string list \<Rightarrow> string" where
  "mangle parts = join_with ''__'' parts"

fun demangle :: "string \<Rightarrow> string" where
  "demangle [] = []"
| "demangle [c] = [c]"
| "demangle (c # d # cs) =
     (if c = CHR ''_'' \<and> d = CHR ''_'' then CHR ''.'' # demangle cs else c # demangle (d # cs))"

fun mangle_suffix :: "ty \<Rightarrow> string" where
  "mangle_suffix I8 = ''i8''"
| "mangle_suffix I16 = ''i16''"
| "mangle_suffix I32 = ''i32''"
| "mangle_suffix I64 = ''i64''"
| "mangle_suffix U8 = ''u8''"
| "mangle_suffix U16 = ''u16''"
| "mangle_suffix U32 = ''u32''"
| "mangle_suffix U64 = ''u64''"
| "mangle_suffix Usize = ''usize''"
| "mangle_suffix F32 = ''f32''"
| "mangle_suffix F64 = ''f64''"
| "mangle_suffix Bool = ''bool''"
| "mangle_suffix Unit = ''unit''"
| "mangle_suffix (Struct name) = name"
| "mangle_suffix (Enum name) = name"
| "mangle_suffix (Generic name) = name"
| "mangle_suffix (Pointer element _ _) = ''Ptr_'' @ mangle_suffix element"
| "mangle_suffix (Reference inner is_mut) =
     ''Ref'' @ (if is_mut then ''Mut'' else '''') @ ''_'' @ mangle_suffix inner"
| "mangle_suffix (Array inner len p) =
     ''Array_'' @ mangle_suffix inner @ ''_'' @ show_nat (unat len) @ (if p then ''_pk'' else '''')"
| "mangle_suffix (Concrete name params) = name @ concat (map (\<lambda>p. ''_'' @ mangle_suffix p) params)"
| "mangle_suffix (Owned inner) = ''Owned_'' @ mangle_suffix inner"
| "mangle_suffix (Tensor inner dims) =
     ''Tensor_'' @ mangle_suffix inner @ concat (map (\<lambda>d. ''_'' @ show_nat (unat d)) dims)"
| "mangle_suffix (Tuple elems) = ''Tuple'' @ concat (map (\<lambda>e. ''_'' @ mangle_suffix e) elems)"
| "mangle_suffix (Fn args ret) =
     ''Fn'' @ concat (map (\<lambda>a. ''_'' @ mangle_suffix a) args) @ ''_'' @ mangle_suffix ret"
| "mangle_suffix (Atomic inner) = ''Atomic_'' @ mangle_suffix inner"
| "mangle_suffix (Window inner win) = ''Window_'' @ mangle_suffix inner @ ''_'' @ win"
| "mangle_suffix Never = ''Never''"
| "mangle_suffix SelfType = ''Self''"

definition to_canonical_name :: "ty \<Rightarrow> string" where
  "to_canonical_name t = mangle_suffix t"

definition canonical_eq :: "ty \<Rightarrow> ty \<Rightarrow> bool" where
  "canonical_eq a b = (to_canonical_name a = to_canonical_name b)"

definition to_template :: "type_key \<Rightarrow> type_key" where
  "to_template k = \<lparr>tk_path = tk_path k, tk_name = tk_name k, tk_spec = None\<rparr>"

definition type_key_mangle :: "type_key \<Rightarrow> string" where
  "type_key_mangle k =
     mangle (tk_path k @ [tk_name k]) @
     (case tk_spec k of None \<Rightarrow> ''''
      | Some args \<Rightarrow> concat (map (\<lambda>a. ''_'' @ mangle_suffix a) args))"

definition mangle_type_key :: "type_key \<Rightarrow> string" where
  "mangle_type_key k = join_with ''__'' (tk_path k @ [tk_name k])"

definition strip_package_prefix :: "string \<Rightarrow> string" where
  "strip_package_prefix s = split_last s"

definition base_names_equal :: "string \<Rightarrow> string \<Rightarrow> bool" where
  "base_names_equal n1 n2 = (split_last n1 = split_last n2)"

section \<open>Classification\<close>

definition is_numeric :: "ty \<Rightarrow> bool" where
  "is_numeric t = (t \<in> {I8, I16, I32, I64, U8, U16, U32, U64, Usize, F32, F64})"

definition is_float :: "ty \<Rightarrow> bool" where
  "is_float t = (t \<in> {F32, F64})"

definition is_integer :: "ty \<Rightarrow> bool" where
  "is_integer t = (t \<in> {I8, I16, I32, I64, U8, U16, U32, U64, Usize})"

definition is_unsigned :: "ty \<Rightarrow> bool" where
  "is_unsigned t = (t \<in> {U8, U16, U32, U64, Usize})"

definition is_protected_name :: "string \<Rightarrow> bool" where
  "is_protected_name n =
     (n \<in> {''get_unchecked'', ''set_unchecked'', ''len'', ''iter'', ''as_ptr''})"

definition get_ptr_element :: "ty \<Rightarrow> ty option" where
  "get_ptr_element t =
     (case t of Pointer element _ _ \<Rightarrow> Some element | Reference inner _ \<Rightarrow> Some inner | _ \<Rightarrow> None)"

definition k_is_ptr_type :: "ty \<Rightarrow> bool" where
  "k_is_ptr_type t =
     (case t of
        Pointer _ _ _ \<Rightarrow> True
      | Owned _ \<Rightarrow> True
      | Fn _ _ \<Rightarrow> True
      | Struct n \<Rightarrow> str_contains ''Ptr'' n \<or> str_contains ''LlvmPtr'' n
      | Concrete n _ \<Rightarrow> str_contains ''Ptr'' n \<or> str_contains ''LlvmPtr'' n
      | _ \<Rightarrow> False)"

fun has_generics :: "ty \<Rightarrow> bool" where
  "has_generics (Generic _) = True"
| "has_generics (Struct _) = False"
| "has_generics (Concrete _ args) = (\<exists>a \<in> set args. has_generics a)"
| "has_generics (Reference inner _) = has_generics inner"
| "has_generics (Atomic inner) = has_generics inner"
| "has_generics (Owned inner) = has_generics inner"
| "has_generics (Pointer element _ _) = has_generics element"
| "has_generics (Array inner _ _) = has_generics inner"
| "has_generics (Tuple elems) = (\<exists>e \<in> set elems. has_generics e)"
| "has_generics (Fn args ret) = ((\<exists>a \<in> set args. has_generics a) \<or> has_generics ret)"
| "has_generics _ = False"

text \<open>
  \<open>is_fully_concrete\<close>: a name counts as resolved when it is package-qualified (contains
  \<open>__\<close>) or is registered as a struct or an enum.
\<close>

definition known_struct :: "struct_registry \<Rightarrow> string \<Rightarrow> bool" where
  "known_struct reg n = (\<exists>(k, info) \<in> set reg. si_name info = n)"

fun is_fully_concrete :: "struct_registry \<Rightarrow> string set \<Rightarrow> ty \<Rightarrow> bool" where
  "is_fully_concrete reg enums (Generic _) = False"
| "is_fully_concrete reg enums (Fn _ _) = True"
| "is_fully_concrete reg enums (Struct name) =
     (str_contains ''__'' name \<or> known_struct reg name \<or> name \<in> enums)"
| "is_fully_concrete reg enums (Concrete name args) =
     (if args = [] \<and> str_contains ''__'' name then True
      else if args = [] \<and> \<not> (known_struct reg name \<or> name \<in> enums) then False
      else \<forall>a \<in> set args. is_fully_concrete reg enums a)"
| "is_fully_concrete reg enums (Enum name) = (str_contains ''__'' name \<or> name \<in> enums)"
| "is_fully_concrete reg enums (Pointer element _ _) = is_fully_concrete reg enums element"
| "is_fully_concrete reg enums (Reference inner _) = is_fully_concrete reg enums inner"
| "is_fully_concrete reg enums (Owned inner) = is_fully_concrete reg enums inner"
| "is_fully_concrete reg enums (Atomic inner) = is_fully_concrete reg enums inner"
| "is_fully_concrete reg enums (Array inner _ _) = is_fully_concrete reg enums inner"
| "is_fully_concrete reg enums (Tensor inner _) = is_fully_concrete reg enums inner"
| "is_fully_concrete reg enums (Tuple elems) = (\<forall>e \<in> set elems. is_fully_concrete reg enums e)"
| "is_fully_concrete reg enums (Window inner _) = is_fully_concrete reg enums inner"
| "is_fully_concrete reg enums SelfType = False"
| "is_fully_concrete reg enums _ = True"

section \<open>Substitution of generics\<close>

fun substitute :: "(string \<rightharpoonup> ty) \<Rightarrow> ty \<Rightarrow> ty" where
  "substitute m (Generic name) = (case m name of Some t \<Rightarrow> t | None \<Rightarrow> Generic name)"
| "substitute m SelfType = (case m ''Self'' of Some t \<Rightarrow> t | None \<Rightarrow> SelfType)"
| "substitute m (Struct name) =
     (if name = ''Self'' then (case m ''Self'' of Some t \<Rightarrow> t | None \<Rightarrow> Struct name)
      else case m name of
        Some t \<Rightarrow> t
      | None \<Rightarrow>
          (if str_contains ''__'' name
           then (case m (rsplit_first name) of Some t \<Rightarrow> t | None \<Rightarrow> Struct name)
           else Struct name))"
| "substitute m (Pointer element p is_mut) = Pointer (substitute m element) p is_mut"
| "substitute m (Reference inner is_mut) = Reference (substitute m inner) is_mut"
| "substitute m (Concrete name params) =
     (case (if params = [] then m name else None) of
        Some t \<Rightarrow> t
      | None \<Rightarrow> Concrete name (map (substitute m) params))"
| "substitute m (Array inner len p) = Array (substitute m inner) len p"
| "substitute m (Fn args ret) = Fn (map (substitute m) args) (substitute m ret)"
| "substitute m t = t"

fun to_key :: "ty \<Rightarrow> type_key option" where
  "to_key (Struct name) = Some \<lparr>tk_path = [], tk_name = name, tk_spec = None\<rparr>"
| "to_key (Enum name) = Some \<lparr>tk_path = [], tk_name = name, tk_spec = None\<rparr>"
| "to_key (Concrete name args) = Some \<lparr>tk_path = [], tk_name = name, tk_spec = Some args\<rparr>"
| "to_key (Pointer element _ _) = Some \<lparr>tk_path = [], tk_name = ''Ptr'', tk_spec = Some [element]\<rparr>"
| "to_key (Reference inner _) = to_key inner"
| "to_key t =
     (if t \<in> {I8, I16, I32, I64, U8, U16, U32, U64, Usize, F32, F64, Bool}
      then Some \<lparr>tk_path = [], tk_name = mangle_suffix t, tk_spec = None\<rparr> else None)"

section \<open>Structural equality\<close>

function (sequential) structural_eq :: "ty \<Rightarrow> ty \<Rightarrow> bool" where
  "structural_eq SelfType b =
     (case b of SelfType \<Rightarrow> True | Struct n \<Rightarrow> n = ''Self'' | _ \<Rightarrow> False)"
| "structural_eq (Struct n1) b =
     (case b of
        SelfType \<Rightarrow> n1 = ''Self''
      | Struct n2 \<Rightarrow> base_names_equal n1 n2
      | Concrete name params \<Rightarrow> base_names_equal n1 (mangle_suffix (Concrete name params))
      | _ \<Rightarrow> False)"
| "structural_eq (Enum n1) b = (case b of Enum n2 \<Rightarrow> base_names_equal n1 n2 | _ \<Rightarrow> False)"
| "structural_eq (Generic n1) b = (case b of Generic n2 \<Rightarrow> base_names_equal n1 n2 | _ \<Rightarrow> False)"
| "structural_eq (Concrete n1 p1) b =
     (case b of
        Concrete n2 p2 \<Rightarrow>
          base_names_equal n1 n2 \<and> length p1 = length p2 \<and>
          (\<forall>(x, y) \<in> set (zip p1 p2). structural_eq x y)
      | Struct n \<Rightarrow> base_names_equal n (mangle_suffix (Concrete n1 p1))
      | _ \<Rightarrow> False)"
| "structural_eq (Pointer e1 _ _) b =
     (case b of Pointer e2 _ _ \<Rightarrow> structural_eq e1 e2 | _ \<Rightarrow> False)"
| "structural_eq (Reference e1 m1) b =
     (case b of Reference e2 m2 \<Rightarrow> m1 = m2 \<and> structural_eq e1 e2 | _ \<Rightarrow> False)"
| "structural_eq (Array e1 l1 p1) b =
     (case b of Array e2 l2 p2 \<Rightarrow> l1 = l2 \<and> p1 = p2 \<and> structural_eq e1 e2 | _ \<Rightarrow> False)"
| "structural_eq (Tuple v1) b =
     (case b of
        Tuple v2 \<Rightarrow> length v1 = length v2 \<and> (\<forall>(x, y) \<in> set (zip v1 v2). structural_eq x y)
      | _ \<Rightarrow> False)"
| "structural_eq (Fn a1 r1) b =
     (case b of
        Fn a2 r2 \<Rightarrow>
          length a1 = length a2 \<and> (\<forall>(x, y) \<in> set (zip a1 a2). structural_eq x y) \<and>
          structural_eq r1 r2
      | _ \<Rightarrow> False)"
| "structural_eq a b = (a = b)"
  by pat_completeness auto
termination
  by (relation "measure (\<lambda>(a, b). size a)") (auto dest!: zip_size_left [where f = size])

section \<open>Context-free MLIR names\<close>

text \<open>The SIMD vector aliases that bypass the struct path.\<close>

definition simd_alias :: "string \<Rightarrow> string option" where
  "simd_alias name =
     (if name = ''Vector4f32'' then Some ''vector<4xf32>''
      else if name = ''Vector8f32'' then Some ''vector<8xf32>''
      else if name = ''Vector4f64'' then Some ''vector<4xf64>''
      else if name = ''Vector16f32'' then Some ''vector<16xf32>''
      else None)"

text \<open>
  The first test of the function (a pointer type or a reference is \<open>!llvm.ptr\<close>) decides the
  pointer constructors outright; for \<open>Struct\<close> and \<open>Concrete\<close> it depends on the name.
\<close>

fun to_mlir_type_simple :: "ty \<Rightarrow> string" where
  "to_mlir_type_simple I8 = ''i8''"
| "to_mlir_type_simple U8 = ''i8''"
| "to_mlir_type_simple I16 = ''i16''"
| "to_mlir_type_simple U16 = ''i16''"
| "to_mlir_type_simple I32 = ''i32''"
| "to_mlir_type_simple U32 = ''i32''"
| "to_mlir_type_simple I64 = ''i64''"
| "to_mlir_type_simple U64 = ''i64''"
| "to_mlir_type_simple F32 = ''f32''"
| "to_mlir_type_simple F64 = ''f64''"
| "to_mlir_type_simple Bool = ''i1''"
| "to_mlir_type_simple Usize = ''index''"
| "to_mlir_type_simple Unit = ''!llvm.void''"
| "to_mlir_type_simple (Struct name) =
     (if k_is_ptr_type (Struct name) then ''!llvm.ptr''
      else case simd_alias name of Some v \<Rightarrow> v | None \<Rightarrow> ''!struct_'' @ name)"
| "to_mlir_type_simple (Enum name) = ''!enum_'' @ name"
| "to_mlir_type_simple (Concrete name params) =
     (if k_is_ptr_type (Concrete name params) then ''!llvm.ptr''
      else case simd_alias name of
        Some v \<Rightarrow> v
      | None \<Rightarrow> ''!struct_'' @ mangle_suffix (Concrete name params))"
| "to_mlir_type_simple (Array inner len _) =
     ''!llvm.array<'' @ show_nat (unat len) @ '' x '' @ to_mlir_type_simple inner @ ''>''"
| "to_mlir_type_simple (Tuple elems) =
     (if elems = [] then ''!llvm.void''
      else ''!llvm.struct<('' @ join_with '', '' (map to_mlir_type_simple elems) @ '')>'')"
| "to_mlir_type_simple (Atomic inner) = to_mlir_type_simple inner"
| "to_mlir_type_simple _ = ''!llvm.ptr''"

definition is_reference :: "ty \<Rightarrow> bool" where
  "is_reference t = (case t of Reference _ _ \<Rightarrow> True | _ \<Rightarrow> False)"

definition to_mlir_storage_type_simple :: "ty \<Rightarrow> string" where
  "to_mlir_storage_type_simple t =
     (if t = Bool then ''i8''
      else if k_is_ptr_type t \<or> is_reference t then ''!llvm.ptr''
      else case (case t of Struct name \<Rightarrow> simd_alias name
                 | Concrete name _ \<Rightarrow> simd_alias name | _ \<Rightarrow> None) of
        Some v \<Rightarrow> v
      | None \<Rightarrow> to_mlir_type_simple t)"

section \<open>The derived Debug format\<close>

text \<open>
  \<open>#[derive(Debug)]\<close> on the enum, which the HIR type checker uses to name monomorphized
  structs. A string prints quoted, with quotes and backslashes escaped; the other characters
  of the identifiers and package paths that reach it print as themselves.
\<close>

definition debug_string :: "string \<Rightarrow> string" where
  "debug_string s =
     CHR 0x22 # concat (map (\<lambda>c. if c = CHR 0x22 \<or> c = CHR 0x5C then [CHR 0x5C, c] else [c]) s)
     @ [CHR 0x22]"

definition debug_bool :: "bool \<Rightarrow> string" where
  "debug_bool b = (if b then ''true'' else ''false'')"

definition debug_list :: "string list \<Rightarrow> string" where
  "debug_list xs = ''['' @ join_with '', '' xs @ '']''"

fun debug_provenance :: "provenance \<Rightarrow> string" where
  "debug_provenance Static = ''Static''"
| "debug_provenance Stack = ''Stack''"
| "debug_provenance (Heap s) = ''Heap('' @ debug_string s @ '')''"
| "debug_provenance Naked = ''Naked''"

fun debug_ty :: "ty \<Rightarrow> string" where
  "debug_ty I8 = ''I8''"
| "debug_ty I16 = ''I16''"
| "debug_ty I32 = ''I32''"
| "debug_ty I64 = ''I64''"
| "debug_ty U8 = ''U8''"
| "debug_ty U16 = ''U16''"
| "debug_ty U32 = ''U32''"
| "debug_ty U64 = ''U64''"
| "debug_ty Usize = ''Usize''"
| "debug_ty F32 = ''F32''"
| "debug_ty F64 = ''F64''"
| "debug_ty Bool = ''Bool''"
| "debug_ty Unit = ''Unit''"
| "debug_ty (Struct n) = ''Struct('' @ debug_string n @ '')''"
| "debug_ty (Generic n) = ''Generic('' @ debug_string n @ '')''"
| "debug_ty (Concrete n ts) =
     ''Concrete('' @ debug_string n @ '', '' @ debug_list (map debug_ty ts) @ '')''"
| "debug_ty (Owned t) = ''Owned('' @ debug_ty t @ '')''"
| "debug_ty (Tensor t ds) =
     ''Tensor('' @ debug_ty t @ '', '' @ debug_list (map (\<lambda>d. show_nat (unat d)) ds) @ '')''"
| "debug_ty (Array t n p) =
     ''Array('' @ debug_ty t @ '', '' @ show_nat (unat n) @ '', '' @ debug_bool p @ '')''"
| "debug_ty (Tuple ts) = ''Tuple('' @ debug_list (map debug_ty ts) @ '')''"
| "debug_ty (Fn ts r) = ''Fn('' @ debug_list (map debug_ty ts) @ '', '' @ debug_ty r @ '')''"
| "debug_ty (Enum n) = ''Enum('' @ debug_string n @ '')''"
| "debug_ty (Atomic t) = ''Atomic('' @ debug_ty t @ '')''"
| "debug_ty (Window t w) = ''Window('' @ debug_ty t @ '', '' @ debug_string w @ '')''"
| "debug_ty (Pointer t p m) =
     ''Pointer { element: '' @ debug_ty t @ '', provenance: '' @ debug_provenance p @
     '', is_mutable: '' @ debug_bool m @ '' }''"
| "debug_ty (Reference t m) = ''Reference('' @ debug_ty t @ '', '' @ debug_bool m @ '')''"
| "debug_ty Never = ''Never''"
| "debug_ty SelfType = ''SelfType''"

section \<open>Mangled paths can be taken apart again\<close>

text \<open>A path segment the mangler can separate: no \<open>__\<close> inside and no trailing underscore.\<close>

definition clean_segment :: "string \<Rightarrow> bool" where
  "clean_segment s = (\<not> str_contains ''__'' s \<and> (s = [] \<or> last s \<noteq> CHR ''_''))"

lemma clean_segment_Cons:
  "clean_segment (c # d # cs) \<Longrightarrow> clean_segment (d # cs) \<and> \<not> (c = CHR ''_'' \<and> d = CHR ''_'')"
  by (auto simp: clean_segment_def)

lemma demangle_segment:
  "clean_segment s \<Longrightarrow> demangle (s @ CHR ''_'' # CHR ''_'' # r) = s @ CHR ''.'' # demangle r"
  by (induction s rule: demangle.induct) (auto dest: clean_segment_Cons simp: clean_segment_def)

lemma demangle_last_segment: "clean_segment s \<Longrightarrow> demangle s = s"
  by (induction s rule: demangle.induct) (auto dest: clean_segment_Cons)

lemma split_segment:
  "clean_segment s \<Longrightarrow>
    split_dunder acc (s @ CHR ''_'' # CHR ''_'' # r) = (rev acc @ s) # split_dunder [] r"
  by (induction acc s rule: split_dunder.induct)
    (auto dest: clean_segment_Cons simp: clean_segment_def)

lemma split_last_segment: "clean_segment s \<Longrightarrow> split_dunder acc s = [rev acc @ s]"
  by (rule split_dunder_no_sep) (simp add: clean_segment_def)

lemma demangle_join:
  "list_all clean_segment ps \<Longrightarrow> demangle (join_with ''__'' ps) = join_with ''.'' ps"
  by (induction ps rule: induct_list012) (auto simp: demangle_segment demangle_last_segment)

lemma split_join:
  "ps \<noteq> [] \<Longrightarrow> list_all clean_segment ps \<Longrightarrow> split_dunder [] (join_with ''__'' ps) = ps"
  by (induction ps rule: induct_list012) (auto simp: split_segment split_last_segment)

text \<open>
  Mangling a module path is reversible. For segments without \<open>__\<close> and without a
  trailing underscore, \<open>demangle\<close> gives back the dotted path, and the name the code recovers
  with \<open>strip_package_prefix\<close> is the last segment.
\<close>

theorem mangle_roundtrip:
  assumes "list_all clean_segment (path @ [name])"
  shows "demangle (mangle (path @ [name])) = join_with ''.'' (path @ [name]) \<and>
    strip_package_prefix (mangle (path @ [name])) = name"
  using assms demangle_join [OF assms] split_join [OF _ assms]
  by (simp add: mangle_def strip_package_prefix_def split_last_def)

theorem mangle_roundtrip_witness:
  "demangle (mangle [''std'', ''_io'', ''File'']) = ''std._io.File'' \<and>
   strip_package_prefix (mangle [''std'', ''_io'', ''File'']) = ''File''"
  using mangle_roundtrip [of "[''std'', ''_io'']" "''File''"]
  by (simp add: clean_segment_def)

section \<open>Structural equality is an equivalence up to transitivity\<close>

lemma base_names_equal_refl [simp]: "base_names_equal n n"
  by (simp add: base_names_equal_def)

lemma base_names_equal_sym: "base_names_equal a b \<longleftrightarrow> base_names_equal b a"
  by (auto simp: base_names_equal_def)

lemma structural_eq_refl: "structural_eq t t"
proof (induction t)
  case (Concrete n ts)
  then show ?case by (auto simp: zip_same_conv_map)
qed (auto simp: zip_same_conv_map)

lemma structural_eq_symD: "structural_eq a b \<Longrightarrow> structural_eq b a"
proof (induction a b rule: structural_eq.induct)
  case (5 n1 p1 b)
  then show ?case
    by (fastforce split: ty.splits simp: base_names_equal_sym in_set_zip)
next
  case (9 v1 b)
  then show ?case
    by (fastforce split: ty.splits simp: in_set_zip)
next
  case (10 a1 r1 b)
  then show ?case
    by (fastforce split: ty.splits simp: in_set_zip)
qed (auto split: ty.splits simp: base_names_equal_sym)

text \<open>
  \<open>structural_eq\<close>, the type comparison of the code generator, is reflexive and
  symmetric on all types. The asymmetric looking arms of the match (a struct against a
  specialisation, \<open>Self\<close> against its spelling as a struct) cover both orders.
\<close>

theorem structural_eq_refl_sym:
  "structural_eq a a \<and> structural_eq a b = structural_eq b a"
  using structural_eq_refl structural_eq_symD by blast

text \<open>
  It is not transitive: \<open>SelfType\<close> matches the struct named exactly \<open>Self\<close>,
  which matches every package-qualified \<open>p__Self\<close> by base name, while
  \<open>SelfType\<close> does not match \<open>p__Self\<close>.
\<close>

theorem structural_eq_not_transitive:
  "structural_eq SelfType (Struct ''Self'') \<and> structural_eq (Struct ''Self'') (Struct ''p__Self'') \<and>
   \<not> structural_eq SelfType (Struct ''p__Self'')"
  by (simp add: base_names_equal_def split_last_def)

text \<open>
  The canonical name is not injective: the mangled name does not separate the arguments of a
  specialisation from underscores inside their names, so \<open>canonical_eq\<close> identifies types that
  \<open>structural_eq\<close> distinguishes.
\<close>

theorem canonical_eq_collision:
  "canonical_eq (Concrete ''H'' [Struct ''K_V'']) (Concrete ''H'' [Struct ''K'', Struct ''V'']) \<and>
   \<not> structural_eq (Concrete ''H'' [Struct ''K_V'']) (Concrete ''H'' [Struct ''K'', Struct ''V''])"
  by (simp add: canonical_eq_def to_canonical_name_def)

section \<open>What substitution eliminates\<close>

lemma substitute_empty: "substitute Map.empty t = t"
  by (induction t) (auto simp: map_idI)

text \<open>
  The type constructors \<open>substitute\<close> does not descend into (\<open>Tuple\<close>,
  \<open>Owned\<close>, \<open>Atomic\<close>) must not hide a generic.
\<close>

fun substitutable :: "ty \<Rightarrow> bool" where
  "substitutable (Tuple ts) = (\<forall>t \<in> set ts. \<not> has_generics t)"
| "substitutable (Owned t) = (\<not> has_generics t)"
| "substitutable (Atomic t) = (\<not> has_generics t)"
| "substitutable (Pointer t _ _) = substitutable t"
| "substitutable (Reference t _) = substitutable t"
| "substitutable (Array t _ _) = substitutable t"
| "substitutable (Concrete _ ts) = (\<forall>t \<in> set ts. substitutable t)"
| "substitutable (Fn ts t) = ((\<forall>t \<in> set ts. substitutable t) \<and> substitutable t)"
| "substitutable _ = True"

fun generic_names :: "ty \<Rightarrow> string set" where
  "generic_names (Generic n) = {n}"
| "generic_names (Concrete _ args) = (\<Union>a \<in> set args. generic_names a)"
| "generic_names (Reference inner _) = generic_names inner"
| "generic_names (Pointer element _ _) = generic_names element"
| "generic_names (Array inner _ _) = generic_names inner"
| "generic_names (Fn args ret) = (\<Union>a \<in> set args. generic_names a) \<union> generic_names ret"
| "generic_names _ = {}"

lemma substitute_no_generics:
  assumes "substitutable t" "generic_names t \<subseteq> dom m" "\<forall>u \<in> ran m. \<not> has_generics u"
  shows "\<not> has_generics (substitute m t)"
proof -
  have r: "m n = Some u \<Longrightarrow> \<not> has_generics u" for n u
    using assms(3) by (auto simp: ran_def)
  show ?thesis
    using assms(1,2) by (induction t) (auto split: option.splits simp: UN_subset_iff dest: r)
qed

text \<open>
  Substituting every generic of a type by a generic-free type leaves no generic,
  provided no generic sits under a constructor the function does not descend into; and the
  empty substitution is the identity.
\<close>

theorem substitute_eliminates_generics:
  assumes "substitutable t" "generic_names t \<subseteq> dom m" "\<forall>u \<in> ran m. \<not> has_generics u"
  shows "\<not> has_generics (substitute m t) \<and> substitute Map.empty t = t"
  using substitute_no_generics [OF assms] substitute_empty by blast

theorem substitute_eliminates_generics_witness:
  "\<not> has_generics (substitute [''T'' \<mapsto> I64]
      (Fn [Reference (Generic ''T'') False] (Concrete ''Vec'' [Generic ''T''])))"
  using substitute_eliminates_generics
    [of "Fn [Reference (Generic ''T'') False] (Concrete ''Vec'' [Generic ''T''])" "[''T'' \<mapsto> I64]"]
  by simp

text \<open>
  Under a tuple (and likewise \<open>Owned\<close> and \<open>Atomic\<close>) a generic survives its own
  substitution.
\<close>

theorem substitute_keeps_tuple_generic:
  "has_generics (substitute [''T'' \<mapsto> I64] (Tuple [Generic ''T''])) \<and>
   has_generics (substitute [''T'' \<mapsto> I64] (Owned (Generic ''T''))) \<and>
   has_generics (substitute [''T'' \<mapsto> I64] (Atomic (Generic ''T'')))"
  by simp

fun fn_free :: "ty \<Rightarrow> bool" where
  "fn_free (Fn _ _) = False"
| "fn_free (Concrete _ ts) = (\<forall>t \<in> set ts. fn_free t)"
| "fn_free (Tuple ts) = (\<forall>t \<in> set ts. fn_free t)"
| "fn_free (Owned t) = fn_free t"
| "fn_free (Atomic t) = fn_free t"
| "fn_free (Pointer t _ _) = fn_free t"
| "fn_free (Reference t _) = fn_free t"
| "fn_free (Array t _ _) = fn_free t"
| "fn_free _ = True"

text \<open>
  a type the monomorphizer accepts as fully concrete has no generic left, when it
  mentions no function type (which the predicate accepts without looking inside).
\<close>

theorem fully_concrete_no_generics:
  assumes "is_fully_concrete reg enums t" "fn_free t"
  shows "\<not> has_generics t"
  using assms by (induction t) (auto split: if_splits)

theorem fully_concrete_no_generics_witness:
  "\<not> has_generics (Concrete ''Vec'' [Reference (Struct ''std__Point'') False])"
  using fully_concrete_no_generics
    [of "[]" "{''Colour''}" "Concrete ''Vec'' [Reference (Struct ''std__Point'') False]"]
  by simp

theorem fully_concrete_fn_generic:
  "is_fully_concrete reg enums (Fn [Generic ''T''] I64) \<and> has_generics (Fn [Generic ''T''] I64)"
  by simp

end
