(* ===== verification/Comptime.thy ===== *)
theory Comptime
  imports Salt_Ast Salt_Types "HOL-Library.Signed_Division"
begin

text \<open>
  Compile-time evaluation: the evaluator of constant expressions
  (\<open>salt-front/src/evaluator.rs\<close>) and the pass that replaces the initialisers it can
  evaluate by literals (\<open>salt-front/src/passes/comptime.rs\<close>), run on every file before any
  other pass. A panic of the compiler is \<^term>\<open>None\<close>. Integer arithmetic is that of a
  release build: it wraps around, and a shift uses the low six bits of its amount. The arithmetic of
  floats on bit patterns is the parameter \<open>fop\<close>.
\<close>

section \<open>The evaluator\<close>

datatype const_value = CInteger i64 | CFloat "64 word" | CBool bool | CString string | Complex

datatype eval_error =
    NonConstExpression string
  | TypeMismatch
  | MathError
  | RecursionLimitExceeded
  | UnsupportedExpr

record evaluator =
  depth_limit :: nat
  constant_table :: "string \<rightharpoonup> const_value"

definition evaluator_new :: evaluator where
  "evaluator_new = \<lparr>depth_limit = 100, constant_table = Map.empty\<rparr>"

type_synonym float_ops = "syn_bin_op \<Rightarrow> 64 word \<Rightarrow> 64 word \<Rightarrow> 64 word"

definition eval_literal :: "syn_lit \<Rightarrow> (eval_error, const_value) result" where
  "eval_literal l = (case l of
       SynInt n \<Rightarrow> (case base10_parse_u64 n of Some w \<Rightarrow> Inr (CInteger w) | None \<Rightarrow> Inl UnsupportedExpr)
     | SynFloat f \<Rightarrow> Inr (CFloat f)
     | SynBool b \<Rightarrow> Inr (CBool b)
     | SynStr s \<Rightarrow> Inr (CString s)
     | SynOtherLit \<Rightarrow> Inl UnsupportedExpr)"

text \<open>Negation of a float flips its sign bit.\<close>

definition float_neg :: "64 word \<Rightarrow> 64 word" where
  "float_neg f = f XOR push_bit 63 1"

definition compute_unary :: "syn_un_op \<Rightarrow> const_value \<Rightarrow> (eval_error, const_value) result" where
  "compute_unary op val = (case (op, val) of
       (OpNeg, CInteger i) \<Rightarrow> Inr (CInteger (- i))
     | (OpNeg, CFloat f) \<Rightarrow> Inr (CFloat (float_neg f))
     | (OpNot, CBool b) \<Rightarrow> Inr (CBool (\<not> b))
     | (OpNot, CInteger i) \<Rightarrow> Inr (CInteger (NOT i))
     | _ \<Rightarrow> Inl TypeMismatch)"

definition i64_min :: i64 where "i64_min = push_bit 63 1"

text \<open>The quotient of the least integer by -1 panics in every build.\<close>

definition checked_div :: "(int \<Rightarrow> int \<Rightarrow> int) \<Rightarrow> i64 \<Rightarrow> i64 \<Rightarrow> (eval_error, const_value) result option" where
  "checked_div f l r =
     (if r = 0 then Some (Inl MathError)
      else if l = i64_min \<and> r = - 1 then None
      else Some (Inr (CInteger (word_of_int (f (sint l) (sint r))))))"

definition compute_int :: "syn_bin_op \<Rightarrow> i64 \<Rightarrow> i64 \<Rightarrow> (eval_error, const_value) result option" where
  "compute_int op l r = (case op of
       OpAdd \<Rightarrow> Some (Inr (CInteger (l + r)))
     | OpSub \<Rightarrow> Some (Inr (CInteger (l - r)))
     | OpMul \<Rightarrow> Some (Inr (CInteger (l * r)))
     | OpDiv \<Rightarrow> checked_div (\<lambda>a b. a sdiv b) l r
     | OpRem \<Rightarrow> checked_div (\<lambda>a b. a smod b) l r
     | OpEq \<Rightarrow> Some (Inr (CBool (l = r)))
     | OpNe \<Rightarrow> Some (Inr (CBool (l \<noteq> r)))
     | OpLt \<Rightarrow> Some (Inr (CBool (sint l < sint r)))
     | OpLe \<Rightarrow> Some (Inr (CBool (sint l \<le> sint r)))
     | OpGt \<Rightarrow> Some (Inr (CBool (sint r < sint l)))
     | OpGe \<Rightarrow> Some (Inr (CBool (sint r \<le> sint l)))
     | OpBitAnd \<Rightarrow> Some (Inr (CInteger (l AND r)))
     | OpBitOr \<Rightarrow> Some (Inr (CInteger (l OR r)))
     | OpBitXor \<Rightarrow> Some (Inr (CInteger (l XOR r)))
     | OpShl \<Rightarrow> Some (Inr (CInteger (push_bit (unat (take_bit 6 r)) l)))
     | OpShr \<Rightarrow> Some (Inr (CInteger (signed_drop_bit (unat (take_bit 6 r)) l)))
     | _ \<Rightarrow> Some (Inl UnsupportedExpr))"

definition compute_binary ::
  "float_ops \<Rightarrow> syn_bin_op \<Rightarrow> const_value \<Rightarrow> const_value \<Rightarrow> (eval_error, const_value) result option" where
  "compute_binary fop op left right = (case (left, right) of
       (CInteger l, CInteger r) \<Rightarrow> compute_int op l r
     | (CFloat l, CFloat r) \<Rightarrow>
         Some (if op \<in> {OpAdd, OpSub, OpMul, OpDiv} then Inr (CFloat (fop op l r)) else Inl UnsupportedExpr)
     | (CBool l, CBool r) \<Rightarrow> Some (case op of
           OpAnd \<Rightarrow> Inr (CBool (l \<and> r))
         | OpOr \<Rightarrow> Inr (CBool (l \<or> r))
         | OpEq \<Rightarrow> Inr (CBool (l = r))
         | OpNe \<Rightarrow> Inr (CBool (l \<noteq> r))
         | _ \<Rightarrow> Inl UnsupportedExpr)
     | _ \<Rightarrow> Some (Inl TypeMismatch))"

definition eval_path :: "evaluator \<Rightarrow> syn_path \<Rightarrow> (eval_error, const_value) result" where
  "eval_path ev p =
     (let segments = map fst (snd p); name = mangle segments
      in case constant_table ev name of
           Some v \<Rightarrow> Inr v
         | None \<Rightarrow> Inl (NonConstExpression (if length segments = 1 then name else join_with ''.'' segments)))"

text \<open>The result of a subexpression is passed on if it is a value.\<close>

definition and_then ::
  "('e, 'a) result option \<Rightarrow> ('a \<Rightarrow> ('e, 'b) result option) \<Rightarrow> ('e, 'b) result option" where
  "and_then r f = (case r of None \<Rightarrow> None | Some (Inl e) \<Rightarrow> Some (Inl e) | Some (Inr a) \<Rightarrow> f a)"

lemma and_then_cong [fundef_cong]:
  "r = r' \<Longrightarrow> (\<And>a. r' = Some (Inr a) \<Longrightarrow> f a = g a) \<Longrightarrow> and_then r f = and_then r' g"
  by (auto simp: and_then_def split: option.splits sum.splits)

lemma and_then_Ok [simp]:
  "and_then r f = Some (Inr b) \<longleftrightarrow> (\<exists>a. r = Some (Inr a) \<and> f a = Some (Inr b))"
  "and_then (Some (Inr a)) f = f a"
  "and_then (Some (Inl e)) f = Some (Inl e)"
  "and_then None f = None"
  by (auto simp: and_then_def split: option.splits sum.splits)

function eval_expr_depth ::
  "float_ops \<Rightarrow> evaluator \<Rightarrow> syn_expr \<Rightarrow> nat \<Rightarrow> (eval_error, const_value) result option" where
  "eval_expr_depth fop ev expr depth =
     (if depth_limit ev < depth then Some (Inl RecursionLimitExceeded)
      else case expr of
         SynStruct _ _ \<Rightarrow> Some (Inr Complex)
       | SynArray \<Rightarrow> Some (Inr Complex)
       | SynLit l \<Rightarrow> Some (eval_literal l)
       | SynBinary l op r \<Rightarrow>
           and_then (eval_expr_depth fop ev l (depth + 1))
             (\<lambda>left. and_then (eval_expr_depth fop ev r (depth + 1)) (compute_binary fop op left))
       | SynUnary op e \<Rightarrow>
           and_then (eval_expr_depth fop ev e (depth + 1)) (\<lambda>val. Some (compute_unary op val))
       | SynParen e \<Rightarrow> eval_expr_depth fop ev e (depth + 1)
       | SynPath p \<Rightarrow> Some (eval_path ev p)
       | _ \<Rightarrow> Some (Inl UnsupportedExpr))"
  by pat_completeness auto

termination
  by (relation "measure (\<lambda>(_, _, e, _). size e)") auto

declare eval_expr_depth.simps [simp del]

definition eval_expr :: "float_ops \<Rightarrow> evaluator \<Rightarrow> syn_expr \<Rightarrow> (eval_error, const_value) result option" where
  "eval_expr fop ev expr = eval_expr_depth fop ev expr 0"

section \<open>The pass\<close>

text \<open>
  The printed form of an infinity or of a NaN is no literal, and the constructor of literals panics.
\<close>

definition is_finite_float :: "64 word \<Rightarrow> bool" where
  "is_finite_float f \<longleftrightarrow> take_bit 11 (drop_bit 52 f) \<noteq> mask 11"

definition value_to_expr :: "const_value \<Rightarrow> syn_expr option" where
  "value_to_expr val = (case val of
       CInteger i \<Rightarrow> Some (SynLit (SynInt (sint i)))
     | CFloat f \<Rightarrow> if is_finite_float f then Some (SynLit (SynFloat f)) else None
     | CBool b \<Rightarrow> Some (SynLit (SynBool b))
     | CString s \<Rightarrow> Some (SynLit (SynStr s))
     | Complex \<Rightarrow> None)"

definition note_constant :: "syn_pat \<Rightarrow> const_value \<Rightarrow> evaluator \<Rightarrow> evaluator" where
  "note_constant p val ev = (case p of
       SynPatIdent x _ \<Rightarrow> ev\<lparr>constant_table := (constant_table ev)(x \<mapsto> val)\<rparr>
     | _ \<Rightarrow> ev)"

fun process_syn_stmt :: "float_ops \<Rightarrow> syn_stmt \<Rightarrow> evaluator \<Rightarrow> (syn_stmt \<times> evaluator) option" where
  "process_syn_stmt fop (SynLocal p (Some e)) ev =
     (case eval_expr fop ev e of
        None \<Rightarrow> None
      | Some (Inl _) \<Rightarrow> Some (SynLocal p (Some e), ev)
      | Some (Inr val) \<Rightarrow>
          if val = Complex then Some (SynLocal p (Some e), ev)
          else map_option (\<lambda>e'. (SynLocal p (Some e'), note_constant p val ev)) (value_to_expr val))"
| "process_syn_stmt fop (SynStmtExpr e semi) ev =
     (case eval_expr fop ev e of
        None \<Rightarrow> None
      | Some (Inl _) \<Rightarrow> Some (SynStmtExpr e semi, ev)
      | Some (Inr val) \<Rightarrow> map_option (\<lambda>e'. (SynStmtExpr e' semi, ev)) (value_to_expr val))"
| "process_syn_stmt fop st ev = Some (st, ev)"

text \<open>The statements of a block in order, each with the table its predecessors left.\<close>

fun process_block :: "float_ops \<Rightarrow> stmt_ast list \<Rightarrow> evaluator \<Rightarrow> (stmt_ast list \<times> evaluator) option"
and process_stmt :: "float_ops \<Rightarrow> stmt_ast \<Rightarrow> evaluator \<Rightarrow> (stmt_ast \<times> evaluator) option"
where
  "process_block fop [] ev = Some ([], ev)"
| "process_block fop (s # ss) ev =
     (case process_stmt fop s ev of
        None \<Rightarrow> None
      | Some (s', ev) \<Rightarrow> map_option (\<lambda>(ss', ev). (s' # ss', ev)) (process_block fop ss ev))"
| "process_stmt fop (StSyn st) ev = map_option (\<lambda>(st', ev). (StSyn st', ev)) (process_syn_stmt fop st ev)"
| "process_stmt fop (StWhile c body) ev = map_option (\<lambda>(b, ev). (StWhile c b, ev)) (process_block fop body ev)"
| "process_stmt fop (StFor p iter body) ev = map_option (\<lambda>(b, ev). (StFor p iter b, ev)) (process_block fop body ev)"
| "process_stmt fop s ev = Some (s, ev)"

fun process_items :: "float_ops \<Rightarrow> item_ast list \<Rightarrow> evaluator \<Rightarrow> (item_ast list \<times> evaluator) option" where
  "process_items fop [] ev = Some ([], ev)"
| "process_items fop (FnItem f # is) ev =
     (case process_block fop (sf_body f) ev of
        None \<Rightarrow> None
      | Some (b, ev) \<Rightarrow>
          map_option (\<lambda>(is', ev). (FnItem (f\<lparr>sf_body := b\<rparr>) # is', ev)) (process_items fop is ev))"
| "process_items fop (it # is) ev = map_option (\<lambda>(is', ev). (it # is', ev)) (process_items fop is ev)"

definition comptime_run :: "float_ops \<Rightarrow> item_ast list \<Rightarrow> item_ast list option" where
  "comptime_run fop items = map_option fst (process_items fop items evaluator_new)"

section \<open>What constants mean at run time\<close>

text \<open>
  The reference: arithmetic on integers, wrapped to 64 bits, with no value where the emitted code has
  none (division by zero or with overflow, a shift by 64 bits or more).
\<close>

definition run_int :: "syn_bin_op \<Rightarrow> int \<Rightarrow> int \<Rightarrow> const_value option" where
  "run_int op a b =
     (let int_value = \<lambda>n :: int. Some (CInteger (word_of_int n)); small = (0 \<le> b \<and> b < 64)
      in case op of
           OpAdd \<Rightarrow> int_value (a + b)
         | OpSub \<Rightarrow> int_value (a - b)
         | OpMul \<Rightarrow> int_value (a * b)
         | OpDiv \<Rightarrow> if b = 0 \<or> a = - (2 ^ 63) \<and> b = - 1 then None else int_value (a sdiv b)
         | OpRem \<Rightarrow> if b = 0 \<or> a = - (2 ^ 63) \<and> b = - 1 then None else int_value (a smod b)
         | OpEq \<Rightarrow> Some (CBool (a = b))
         | OpNe \<Rightarrow> Some (CBool (a \<noteq> b))
         | OpLt \<Rightarrow> Some (CBool (a < b))
         | OpLe \<Rightarrow> Some (CBool (a \<le> b))
         | OpGt \<Rightarrow> Some (CBool (a > b))
         | OpGe \<Rightarrow> Some (CBool (a \<ge> b))
         | OpBitAnd \<Rightarrow> int_value (a AND b)
         | OpBitOr \<Rightarrow> int_value (a OR b)
         | OpBitXor \<Rightarrow> int_value (a XOR b)
         | OpShl \<Rightarrow> if small then int_value (a * 2 ^ nat b) else None
         | OpShr \<Rightarrow> if small then int_value (a div 2 ^ nat b) else None
         | _ \<Rightarrow> None)"

definition run_binary :: "float_ops \<Rightarrow> syn_bin_op \<Rightarrow> const_value \<Rightarrow> const_value \<Rightarrow> const_value option" where
  "run_binary fop op a b = (case (a, b) of
       (CInteger l, CInteger r) \<Rightarrow> run_int op (sint l) (sint r)
     | (CFloat l, CFloat r) \<Rightarrow> if op \<in> {OpAdd, OpSub, OpMul, OpDiv} then Some (CFloat (fop op l r)) else None
     | (CBool l, CBool r) \<Rightarrow>
         if op = OpEq then Some (CBool (l = r)) else if op = OpNe then Some (CBool (l \<noteq> r)) else None
     | _ \<Rightarrow> None)"

definition run_unary :: "syn_un_op \<Rightarrow> const_value \<Rightarrow> const_value option" where
  "run_unary op v = (case (op, v) of
       (OpNeg, CInteger i) \<Rightarrow> Some (CInteger (word_of_int (- sint i)))
     | (OpNeg, CFloat f) \<Rightarrow> Some (CFloat (float_neg f))
     | (OpNot, CBool b) \<Rightarrow> Some (CBool (\<not> b))
     | (OpNot, CInteger i) \<Rightarrow> Some (CInteger (word_of_int (NOT (sint i))))
     | _ \<Rightarrow> None)"

definition run_literal :: "syn_lit \<Rightarrow> const_value option" where
  "run_literal l = (case l of
       SynInt n \<Rightarrow> Some (CInteger (word_of_int n))
     | SynFloat f \<Rightarrow> Some (CFloat f)
     | SynBool b \<Rightarrow> Some (CBool b)
     | SynStr s \<Rightarrow> Some (CString s)
     | SynOtherLit \<Rightarrow> None)"

text \<open>
  The value of an expression in a store. The second operand of \<open>&&\<close> and \<open>||\<close>
  is only evaluated when the first does not decide. Everything but arithmetic on variables is the
  parameter \<open>rt\<close>.
\<close>

type_synonym store = "string \<rightharpoonup> const_value"

fun value_of :: "float_ops \<Rightarrow> (store \<Rightarrow> syn_expr \<Rightarrow> const_value option) \<Rightarrow> store \<Rightarrow> syn_expr \<Rightarrow> const_value option" where
  "value_of fop rt \<sigma> (SynLit l) = run_literal l"
| "value_of fop rt \<sigma> (SynPath p) = (case snd p of [(x, _)] \<Rightarrow> \<sigma> x | _ \<Rightarrow> rt \<sigma> (SynPath p))"
| "value_of fop rt \<sigma> (SynParen e) = value_of fop rt \<sigma> e"
| "value_of fop rt \<sigma> (SynUnary op e) =
     (if op = OpDeref then rt \<sigma> (SynUnary op e) else Option.bind (value_of fop rt \<sigma> e) (run_unary op))"
| "value_of fop rt \<sigma> (SynBinary l op r) =
     (case (op, value_of fop rt \<sigma> l) of
        (OpAnd, Some (CBool False)) \<Rightarrow> Some (CBool False)
      | (OpOr, Some (CBool True)) \<Rightarrow> Some (CBool True)
      | (OpAnd, Some (CBool True)) \<Rightarrow> value_of fop rt \<sigma> r
      | (OpOr, Some (CBool False)) \<Rightarrow> value_of fop rt \<sigma> r
      | (_, Some a) \<Rightarrow> Option.bind (value_of fop rt \<sigma> r) (run_binary fop op a)
      | (_, None) \<Rightarrow> None)"
| "value_of fop rt \<sigma> e = rt \<sigma> e"

section \<open>The evaluator computes run-time values\<close>

lemma sint_nonneg_uint: "0 \<le> sint (r :: i64) \<Longrightarrow> uint r = sint r"
  by transfer
    (simp add: signed_take_bit_nonnegative_iff signed_take_bit_eq_if_positive take_bit_Suc_from_most [of 63, simplified])

lemma sint_eq_iff: "sint l = sint r \<longleftrightarrow> l = r" for l r :: i64
  by (auto intro: signed_word_eqI)

lemma shift_amount:
  assumes "0 \<le> sint (r :: i64)" "sint r < 64"
  shows "unat (take_bit 6 r) = nat (sint r)"
proof -
  have "take_bit 6 (sint r) = sint r" using assms by (simp add: take_bit_int_eq_self_iff)
  then show ?thesis
    using sint_nonneg_uint [OF assms(1)] by (simp add: unsigned_take_bit_eq unat_eq_nat_uint)
qed

lemma shift_left: "0 \<le> sint r \<Longrightarrow> sint r < 64 \<Longrightarrow> push_bit (unat (take_bit 6 r)) l = l * 2 ^ nat (sint r)"
  for l r :: i64
  by (simp add: shift_amount push_bit_eq_mult)

lemma signed_drop_bit_div: "signed_drop_bit n l = word_of_int (sint l div 2 ^ n)" for l :: i64
  by transfer (simp add: drop_bit_eq_div)

lemma shift_right:
  "0 \<le> sint r \<Longrightarrow> sint r < 64 \<Longrightarrow>
     signed_drop_bit (unat (take_bit 6 r)) l = word_of_int (sint l div 2 ^ nat (sint r))"
  for l r :: i64
  by (simp add: shift_amount signed_drop_bit_div)

lemmas wrap_simps = shift_left shift_right of_int_and_eq of_int_or_eq of_int_xor_eq of_int_not_eq sint_eq_iff

lemma compute_int_runs:
  assumes "compute_int op l r = Some (Inr v)" "run_int op (sint l) (sint r) = Some w"
  shows "v = w"
  using assms
  by (cases op) (auto simp: compute_int_def run_int_def checked_div_def Let_def wrap_simps split: if_splits)

lemma compute_binary_runs:
  assumes "compute_binary fop op a b = Some (Inr v)" "run_binary fop op a b = Some w"
  shows "v = w"
  using assms compute_int_runs
  by (cases a; cases b; cases op) (auto simp: compute_binary_def run_binary_def)

lemma compute_unary_runs:
  assumes "compute_unary op a = Inr v" "run_unary op a = Some w"
  shows "v = w"
  using assms by (cases op; cases a) (auto simp: compute_unary_def run_unary_def wrap_simps)

text \<open>The names a table may hold: identifiers, which a path with several segments is never taken for.\<close>

definition plain_name :: "string \<Rightarrow> bool" where
  "plain_name x \<longleftrightarrow> x \<noteq> [] \<and> \<not> str_contains ''__'' x"

definition plain_table :: "evaluator \<Rightarrow> bool" where
  "plain_table ev \<longleftrightarrow> (\<forall>x \<in> dom (constant_table ev). plain_name x)"

text \<open>A store has the values of the table where it has values.\<close>

definition agrees :: "(string \<rightharpoonup> const_value) \<Rightarrow> store \<Rightarrow> bool" where
  "agrees T \<sigma> \<longleftrightarrow> (\<forall>x v w. T x = Some v \<longrightarrow> \<sigma> x = Some w \<longrightarrow> v = w)"

lemma mangle_plain: "plain_name (mangle segs) \<Longrightarrow> \<exists>x. segs = [x] \<and> mangle segs = x"
proof (induction segs)
  case (Cons s segs)
  then show ?case
    by (cases segs) (auto simp: plain_name_def mangle_def str_contains_iff)
qed (simp add: plain_name_def mangle_def)

lemma eval_path_runs:
  assumes "eval_path ev p = Inr v" "value_of fop rt \<sigma> (SynPath p) = Some w"
    "plain_table ev" "agrees (constant_table ev) \<sigma>"
  shows "v = w"
proof -
  have v: "constant_table ev (mangle (map fst (snd p))) = Some v"
    using assms(1) by (auto simp: eval_path_def Let_def split: option.splits)
  then have "plain_name (mangle (map fst (snd p)))" using assms(3) by (auto simp: plain_table_def)
  then obtain x where x: "map fst (snd p) = [x]" "mangle (map fst (snd p)) = x"
    by (elim mangle_plain [THEN exE]) simp
  then obtain g where "snd p = [(x, g)]" by (auto simp: map_eq_Cons_conv)
  then show ?thesis using v x(2) assms(2,4) by (auto simp: agrees_def)
qed

lemma eval_depth_runs:
  assumes "eval_expr_depth fop ev e d = Some (Inr v)" "v \<noteq> Complex" "value_of fop rt \<sigma> e = Some w"
    "plain_table ev" "agrees (constant_table ev) \<sigma>"
  shows "v = w"
  using assms
proof (induction e arbitrary: d v w)
  case (SynLit l)
  then show ?case
    by (auto simp: eval_expr_depth.simps eval_literal_def run_literal_def base10_parse_u64_def
        split: if_splits syn_lit.splits)
next
  case (SynPath p)
  then show ?case by (auto simp: eval_expr_depth.simps simp del: value_of.simps split: if_splits intro: eval_path_runs)
next
  case (SynBinary l op r)
  from SynBinary.prems(1) obtain a b where ab:
    "eval_expr_depth fop ev l (d + 1) = Some (Inr a)" "eval_expr_depth fop ev r (d + 1) = Some (Inr b)"
    "compute_binary fop op a b = Some (Inr v)"
    by (auto simp: eval_expr_depth.simps [of _ _ "SynBinary l op r"] split: if_splits)
  then have nc: "a \<noteq> Complex" "b \<noteq> Complex" by (auto simp: compute_binary_def split: const_value.splits)
  from SynBinary.prems(3) obtain a' where a': "value_of fop rt \<sigma> l = Some a'"
    by (cases "value_of fop rt \<sigma> l") (auto split: syn_bin_op.splits)
  have a: "a' = a" using SynBinary.IH(1) [OF ab(1) nc(1) a'] SynBinary.prems(4,5) by simp
  have b: "value_of fop rt \<sigma> r = Some b' \<Longrightarrow> b' = b" for b'
    using SynBinary.IH(2) [OF ab(2) nc(2)] SynBinary.prems(4,5) by blast
  show ?case
    using SynBinary.prems(3) a' a b ab(3) compute_binary_runs [OF ab(3)]
    by (cases op; cases a; cases b)
      (auto simp: compute_binary_def run_binary_def bind_eq_Some_conv split: bool.splits if_splits)
next
  case (SynUnary op e)
  from SynUnary.prems(1) obtain a where a:
    "eval_expr_depth fop ev e (d + 1) = Some (Inr a)" "compute_unary op a = Inr v"
    by (auto simp: eval_expr_depth.simps [of _ _ "SynUnary op e"] split: if_splits)
  then have "a \<noteq> Complex" "op \<noteq> OpDeref" by (auto simp: compute_unary_def split: syn_un_op.splits)
  then show ?case
    using SynUnary.IH [OF a(1)] SynUnary.prems a(2) compute_unary_runs by (auto simp: bind_eq_Some_conv)
next
  case (SynParen e)
  then show ?case by (auto simp: eval_expr_depth.simps [of _ _ "SynParen e"] split: if_splits)
qed (auto simp: eval_expr_depth.simps split: if_splits)

section \<open>Runs of a function body\<close>

text \<open>
  Blocks run with the statements the pass looks into spelt out; all other statements, destructuring
  patterns, iterators and the effects of expressions that are no arithmetic are parameters.
\<close>

datatype flow = Normal | Breaks | Continues | Returns

record machine =
  fops :: float_ops
  rt_value :: "store \<Rightarrow> syn_expr \<Rightarrow> const_value option"
  rt_effect :: "syn_expr \<Rightarrow> store \<Rightarrow> store"
  rt_exec :: "stmt_ast \<Rightarrow> store \<Rightarrow> (flow \<times> store) option"
  rt_bind :: "const_value \<Rightarrow> store \<Rightarrow> store"
  rt_iter :: "syn_expr \<Rightarrow> store \<Rightarrow> const_value list option"

fun arithmetic :: "syn_expr \<Rightarrow> bool" where
  "arithmetic (SynLit _) = True"
| "arithmetic (SynPath _) = True"
| "arithmetic (SynParen e) = arithmetic e"
| "arithmetic (SynUnary op e) = (op \<noteq> OpDeref \<and> arithmetic e)"
| "arithmetic (SynBinary l op r) =
     (op \<notin> {OpAddAssign, OpSubAssign, OpMulAssign, OpDivAssign, OpRemAssign, OpBitXorAssign,
       OpBitAndAssign, OpBitOrAssign, OpShlAssign, OpShrAssign} \<and> arithmetic l \<and> arithmetic r)"
| "arithmetic _ = False"

abbreviation value_in :: "machine \<Rightarrow> store \<Rightarrow> syn_expr \<Rightarrow> const_value option" where
  "value_in m \<equiv> value_of (fops m) (rt_value m)"

definition store_after :: "machine \<Rightarrow> syn_expr \<Rightarrow> store \<Rightarrow> store" where
  "store_after m e \<sigma> = (if arithmetic e then \<sigma> else rt_effect m e \<sigma>)"

fun bound_name :: "syn_pat \<Rightarrow> string option" where
  "bound_name (SynPatIdent x _) = Some x"
| "bound_name (SynPatType p _) = bound_name p"
| "bound_name SynPatOther = None"

definition bind_pat :: "machine \<Rightarrow> syn_pat \<Rightarrow> const_value \<Rightarrow> store \<Rightarrow> store" where
  "bind_pat m p v \<sigma> = (case bound_name p of Some x \<Rightarrow> \<sigma>(x \<mapsto> v) | None \<Rightarrow> rt_bind m v \<sigma>)"

fun other_stmt :: "stmt_ast \<Rightarrow> bool" where
  "other_stmt (StSyn (SynLocal _ (Some _))) = False"
| "other_stmt (StSyn (SynStmtExpr e _)) = (\<not> arithmetic e)"
| "other_stmt (StWhile _ _) = False"
| "other_stmt (StFor _ _ _) = False"
| "other_stmt _ = True"

inductive runs :: "machine \<Rightarrow> stmt_ast list \<Rightarrow> store \<Rightarrow> flow \<Rightarrow> store \<Rightarrow> bool"
and rounds :: "machine \<Rightarrow> syn_pat \<Rightarrow> stmt_ast list \<Rightarrow> const_value list \<Rightarrow> store \<Rightarrow> flow \<Rightarrow> store \<Rightarrow> bool"
for m :: machine
where
  run_end: "runs m [] \<sigma> Normal \<sigma>"
| run_let:
    "\<lbrakk>value_in m \<sigma> e = Some v; runs m ss (bind_pat m p v (store_after m e \<sigma>)) fl \<sigma>'\<rbrakk> \<Longrightarrow>
     runs m (StSyn (SynLocal p (Some e)) # ss) \<sigma> fl \<sigma>'"
| run_arithmetic:
    "\<lbrakk>arithmetic e; value_in m \<sigma> e = Some v; runs m ss \<sigma> fl \<sigma>'\<rbrakk> \<Longrightarrow>
     runs m (StSyn (SynStmtExpr e semi) # ss) \<sigma> fl \<sigma>'"
| run_other:
    "\<lbrakk>other_stmt s; rt_exec m s \<sigma> = Some (Normal, \<sigma>1); runs m ss \<sigma>1 fl \<sigma>'\<rbrakk> \<Longrightarrow> runs m (s # ss) \<sigma> fl \<sigma>'"
| run_leave: "\<lbrakk>other_stmt s; rt_exec m s \<sigma> = Some (fl, \<sigma>'); fl \<noteq> Normal\<rbrakk> \<Longrightarrow> runs m (s # ss) \<sigma> fl \<sigma>'"
| run_while_end:
    "\<lbrakk>value_in m \<sigma> c = Some (CBool False); runs m ss (store_after m c \<sigma>) fl \<sigma>'\<rbrakk> \<Longrightarrow>
     runs m (StWhile c body # ss) \<sigma> fl \<sigma>'"
| run_while_round:
    "\<lbrakk>value_in m \<sigma> c = Some (CBool True); runs m body (store_after m c \<sigma>) g \<sigma>1; g \<in> {Normal, Continues};
      runs m (StWhile c body # ss) \<sigma>1 fl \<sigma>'\<rbrakk> \<Longrightarrow> runs m (StWhile c body # ss) \<sigma> fl \<sigma>'"
| run_while_break:
    "\<lbrakk>value_in m \<sigma> c = Some (CBool True); runs m body (store_after m c \<sigma>) Breaks \<sigma>1; runs m ss \<sigma>1 fl \<sigma>'\<rbrakk> \<Longrightarrow>
     runs m (StWhile c body # ss) \<sigma> fl \<sigma>'"
| run_while_return:
    "\<lbrakk>value_in m \<sigma> c = Some (CBool True); runs m body (store_after m c \<sigma>) Returns \<sigma>'\<rbrakk> \<Longrightarrow>
     runs m (StWhile c body # ss) \<sigma> Returns \<sigma>'"
| run_for:
    "\<lbrakk>rt_iter m e \<sigma> = Some vs; rounds m p body vs (store_after m e \<sigma>) Normal \<sigma>1; runs m ss \<sigma>1 fl \<sigma>'\<rbrakk> \<Longrightarrow>
     runs m (StFor p e body # ss) \<sigma> fl \<sigma>'"
| run_for_return:
    "\<lbrakk>rt_iter m e \<sigma> = Some vs; rounds m p body vs (store_after m e \<sigma>) Returns \<sigma>'\<rbrakk> \<Longrightarrow>
     runs m (StFor p e body # ss) \<sigma> Returns \<sigma>'"
| rounds_end: "rounds m p body [] \<sigma> Normal \<sigma>"
| rounds_next:
    "\<lbrakk>runs m body (bind_pat m p v \<sigma>) g \<sigma>1; g \<in> {Normal, Continues}; rounds m p body vs \<sigma>1 fl \<sigma>'\<rbrakk> \<Longrightarrow>
     rounds m p body (v # vs) \<sigma> fl \<sigma>'"
| rounds_break: "runs m body (bind_pat m p v \<sigma>) Breaks \<sigma>' \<Longrightarrow> rounds m p body (v # vs) \<sigma> Normal \<sigma>'"
| rounds_return: "runs m body (bind_pat m p v \<sigma>) Returns \<sigma>' \<Longrightarrow> rounds m p body (v # vs) \<sigma> Returns \<sigma>'"

section \<open>Names\<close>

text \<open>The names bound by the \<open>let\<close>s and by the loops the pass visits.\<close>

fun let_names :: "stmt_ast list \<Rightarrow> string list"
and let_names_of :: "stmt_ast \<Rightarrow> string list"
where
  "let_names [] = []"
| "let_names (s # ss) = let_names_of s @ let_names ss"
| "let_names_of (StSyn (SynLocal p _)) = (case bound_name p of Some x \<Rightarrow> [x] | None \<Rightarrow> [])"
| "let_names_of (StWhile _ body) = let_names body"
| "let_names_of (StFor _ _ body) = let_names body"
| "let_names_of _ = []"

fun loop_names :: "stmt_ast list \<Rightarrow> string set"
and loop_names_of :: "stmt_ast \<Rightarrow> string set"
where
  "loop_names [] = {}"
| "loop_names (s # ss) = loop_names_of s \<union> loop_names ss"
| "loop_names_of (StWhile _ body) = loop_names body"
| "loop_names_of (StFor p _ body) = set_option (bound_name p) \<union> loop_names body"
| "loop_names_of _ = {}"

lemma value_to_expr_runs:
  assumes "value_to_expr v = Some e"
  shows "value_of fop rt \<sigma> e = Some v" "arithmetic e"
  using assms by (auto simp: value_to_expr_def run_literal_def split: const_value.splits if_splits)

lemma eval_arithmetic: "eval_expr_depth fop ev e d = Some (Inr v) \<Longrightarrow> v \<noteq> Complex \<Longrightarrow> arithmetic e"
proof (induction e arbitrary: d v)
  case (SynBinary l op r)
  from SynBinary.prems(1) obtain a b where ab:
    "eval_expr_depth fop ev l (d + 1) = Some (Inr a)" "eval_expr_depth fop ev r (d + 1) = Some (Inr b)"
    "compute_binary fop op a b = Some (Inr v)"
    by (auto simp: eval_expr_depth.simps [of _ _ "SynBinary l op r"] split: if_splits)
  then have "a \<noteq> Complex" "b \<noteq> Complex" by (auto simp: compute_binary_def split: const_value.splits)
  then have "arithmetic l" "arithmetic r" using SynBinary.IH ab(1,2) by blast+
  then show ?case
    using ab(3) by (cases op) (auto simp: compute_binary_def compute_int_def split: const_value.splits)
next
  case (SynUnary op e)
  from SynUnary.prems(1) obtain a where a:
    "eval_expr_depth fop ev e (d + 1) = Some (Inr a)" "compute_unary op a = Inr v"
    by (auto simp: eval_expr_depth.simps [of _ _ "SynUnary op e"] split: if_splits)
  then have "a \<noteq> Complex" "op \<noteq> OpDeref" by (auto simp: compute_unary_def split: syn_un_op.splits)
  then show ?case using SynUnary.IH [OF a(1)] by simp
next
  case (SynParen e)
  then show ?case by (auto simp: eval_expr_depth.simps [of _ _ "SynParen e"] split: if_splits)
qed (auto simp: eval_expr_depth.simps split: if_splits)

lemma note_constant_table:
  "x \<notin> set_option (bound_name p) \<Longrightarrow> constant_table (note_constant p v ev) x = constant_table ev x"
  by (cases p) (auto simp: note_constant_def)

lemma process_table:
  "process_block fop ss ev = Some (ss', ev') \<Longrightarrow> x \<notin> set (let_names ss) \<Longrightarrow> constant_table ev' x = constant_table ev x"
  "process_stmt fop s ev = Some (s', ev') \<Longrightarrow> x \<notin> set (let_names_of s) \<Longrightarrow> constant_table ev' x = constant_table ev x"
proof (induction fop ss ev and fop s ev arbitrary: ss' ev' and s' ev' rule: process_block_process_stmt.induct)
  case (3 fop st ev)
  then show ?case
    by (cases "(fop, st, ev)" rule: process_syn_stmt.cases)
      (auto simp: note_constant_table split: option.splits sum.splits if_splits)
qed (fastforce split: option.splits)+

section \<open>Folding preserves runs\<close>

text \<open>
  The statements of a block leave the variables of a table alone, except for those the block's
  own \<open>let\<close>s and loops bind.
\<close>

definition keeps :: "(string \<rightharpoonup> const_value) \<Rightarrow> store \<Rightarrow> store \<Rightarrow> bool" where
  "keeps T \<sigma> \<sigma>' \<longleftrightarrow> (\<forall>x \<in> dom T. \<sigma>' x = \<sigma> x)"

definition effect_keeps :: "machine \<Rightarrow> (string \<rightharpoonup> const_value) \<Rightarrow> syn_expr \<Rightarrow> bool" where
  "effect_keeps m T e \<longleftrightarrow> (\<forall>\<sigma>. keeps T \<sigma> (store_after m e \<sigma>))"

definition pattern_keeps :: "machine \<Rightarrow> (string \<rightharpoonup> const_value) \<Rightarrow> syn_pat \<Rightarrow> bool" where
  "pattern_keeps m T p \<longleftrightarrow> (bound_name p = None \<longrightarrow> (\<forall>v \<sigma>. keeps T \<sigma> (rt_bind m v \<sigma>)))"

definition exec_keeps :: "machine \<Rightarrow> (string \<rightharpoonup> const_value) \<Rightarrow> stmt_ast \<Rightarrow> bool" where
  "exec_keeps m T s \<longleftrightarrow> (\<forall>\<sigma> fl \<sigma>'. rt_exec m s \<sigma> = Some (fl, \<sigma>') \<longrightarrow> keeps T \<sigma> \<sigma>')"

fun framed :: "machine \<Rightarrow> (string \<rightharpoonup> const_value) \<Rightarrow> stmt_ast list \<Rightarrow> bool"
and framed_stmt :: "machine \<Rightarrow> (string \<rightharpoonup> const_value) \<Rightarrow> stmt_ast \<Rightarrow> bool"
where
  "framed m T [] = True"
| "framed m T (s # ss) = (framed_stmt m T s \<and> framed m T ss)"
| "framed_stmt m T (StSyn (SynLocal p (Some e))) = (effect_keeps m T e \<and> pattern_keeps m T p)"
| "framed_stmt m T (StWhile c body) = (effect_keeps m T c \<and> framed m T body)"
| "framed_stmt m T (StFor p e body) = (effect_keeps m T e \<and> pattern_keeps m T p \<and> framed m T body)"
| "framed_stmt m T s = (other_stmt s \<longrightarrow> exec_keeps m T s)"

text \<open>A block and its folded form, inside a file whose final table is \<open>T\<close>.\<close>

definition folds ::
  "machine \<Rightarrow> (string \<rightharpoonup> const_value) \<Rightarrow> stmt_ast list \<Rightarrow> evaluator \<Rightarrow> stmt_ast list \<Rightarrow> evaluator \<Rightarrow> bool" where
  "folds m T ss ev ss' ev' \<longleftrightarrow>
     process_block (fops m) ss ev = Some (ss', ev') \<and>
     distinct (let_names ss) \<and> set (let_names ss) \<inter> dom (constant_table ev) = {} \<and>
     constant_table ev \<subseteq>\<^sub>m T \<and> (\<forall>x \<in> set (let_names ss). T x = constant_table ev' x) \<and>
     loop_names ss \<inter> dom T = {} \<and> framed m T ss"

lemma folds_Nil: "folds m T [] ev ss' ev' \<Longrightarrow> ss' = []"
  by (simp add: folds_def)

text \<open>Two consecutive pieces of a file, binding the names \<open>A\<close> and then \<open>B\<close>.\<close>

lemma table_split:
  assumes "distinct (A @ B)" "set (A @ B) \<inter> dom t = {}" "t \<subseteq>\<^sub>m T" "\<forall>x \<in> set (A @ B). T x = t' x"
    and first: "\<And>x. x \<notin> set A \<Longrightarrow> t1 x = t x" and "\<And>x. x \<notin> set B \<Longrightarrow> t' x = t1 x"
  shows "\<forall>x \<in> set A. T x = t1 x" "t1 \<subseteq>\<^sub>m T" "set B \<inter> dom t1 = {}"
proof -
  show own: "\<forall>x \<in> set A. T x = t1 x" using assms(1,4,6) by fastforce
  show "t1 \<subseteq>\<^sub>m T"
    unfolding map_le_def
  proof
    fix x assume "x \<in> dom t1"
    then show "t1 x = T x" using own assms(3) first by (cases "x \<in> set A") (auto simp: map_le_def dom_def)
  qed
  show "set B \<inter> dom t1 = {}"
  proof -
    have "t1 x = None" if "x \<in> set B" for x
      using that assms(1,2) first [of x] by (auto simp: disjoint_iff dom_def)
    then show ?thesis by auto
  qed
qed

lemma folds_Cons:
  assumes "folds m T (s # ss) ev out ev'"
  obtains s' ss' ev1 where "out = s' # ss'" "folds m T [s] ev [s'] ev1" "folds m T ss ev1 ss' ev'"
proof -
  from assms obtain s' ss' ev1 where p: "out = s' # ss'" "process_stmt (fops m) s ev = Some (s', ev1)"
    "process_block (fops m) ss ev1 = Some (ss', ev')"
    by (auto simp: folds_def split: option.splits)
  have "folds m T [s] ev [s'] ev1 \<and> folds m T ss ev1 ss' ev'"
    using assms p(2,3) process_table(2) [OF p(2)] process_table(1) [OF p(3)]
      table_split [of "let_names_of s" "let_names ss" "constant_table ev" T "constant_table ev'" "constant_table ev1"]
    by (simp add: folds_def Int_Un_distrib2)
  then show ?thesis using that p(1) by blast
qed

lemma folds_While: "folds m T [StWhile c body] ev [s'] ev' \<Longrightarrow> \<exists>b. s' = StWhile c b \<and> folds m T body ev b ev'"
  by (auto simp: folds_def split: option.splits)

lemma folds_For:
  "folds m T [StFor p e body] ev [s'] ev' \<Longrightarrow>
     \<exists>b. s' = StFor p e b \<and> folds m T body ev b ev' \<and> set_option (bound_name p) \<inter> dom T = {}"
  by (auto simp: folds_def Int_Un_distrib2 split: option.splits)

lemma process_other:
  assumes "process_stmt fop s ev = Some (s', ev')" "other_stmt s"
  shows "s' = s"
proof (cases s rule: other_stmt.cases)
  case (2 e semi)
  have "eval_expr fop ev e = Some (Inr v) \<Longrightarrow> v = Complex" for v
    using 2 assms(2) eval_arithmetic unfolding eval_expr_def by fastforce
  then show ?thesis
    using 2 assms(1) by (auto simp: value_to_expr_def split: option.splits sum.splits)
qed (use assms in auto)

lemma folds_other: "folds m T [s] ev [s'] ev' \<Longrightarrow> other_stmt s \<Longrightarrow> s' = s"
  by (auto simp: folds_def process_other split: option.splits)

lemma agrees_le: "agrees T \<sigma> \<Longrightarrow> T' \<subseteq>\<^sub>m T \<Longrightarrow> agrees T' \<sigma>"
  unfolding agrees_def map_le_def dom_def by (metis mem_Collect_eq option.distinct(1))

lemma agrees_frame: "agrees T \<sigma> \<Longrightarrow> (\<And>x. x \<in> dom T \<Longrightarrow> \<sigma>' x = \<sigma> x) \<Longrightarrow> agrees T \<sigma>'"
  unfolding agrees_def dom_def by fastforce

lemma agrees_keeps: "agrees T \<sigma> \<Longrightarrow> keeps T \<sigma> \<sigma>' \<Longrightarrow> agrees T \<sigma>'"
  unfolding keeps_def by (blast intro: agrees_frame)

lemma folds_framed: "folds m T [s] ev [s'] ev' \<Longrightarrow> framed_stmt m T s"
  by (simp add: folds_def)

lemma agrees_after: "effect_keeps m T e \<Longrightarrow> agrees T \<sigma> \<Longrightarrow> agrees T (store_after m e \<sigma>)"
  by (auto simp: effect_keeps_def intro: agrees_keeps)

lemma framed_other: "framed_stmt m T s \<Longrightarrow> other_stmt s \<Longrightarrow> exec_keeps m T s"
  by (cases "(m, T, s)" rule: framed_stmt.cases) auto

lemma agrees_exec:
  "folds m T [s] ev [s'] ev' \<Longrightarrow> other_stmt s \<Longrightarrow> agrees T \<sigma> \<Longrightarrow> rt_exec m s \<sigma> = Some (fl, \<sigma>') \<Longrightarrow> agrees T \<sigma>'"
  using framed_other [OF folds_framed] unfolding exec_keeps_def by (blast intro: agrees_keeps)

lemma agrees_bind:
  assumes "pattern_keeps m T p" "agrees T \<sigma>" "\<And>x. bound_name p = Some x \<Longrightarrow> T x = None \<or> T x = Some v"
  shows "agrees T (bind_pat m p v \<sigma>)"
proof (cases "bound_name p")
  case None
  with assms(1,2) show ?thesis by (auto simp: bind_pat_def pattern_keeps_def intro: agrees_keeps)
qed (use assms(2,3) in \<open>auto simp: bind_pat_def agrees_def\<close>)

lemma folds_plain:
  assumes "folds m T ss ev ss' ev'" "\<forall>x \<in> dom T. plain_name x" "agrees T \<sigma>"
  shows "plain_table ev \<and> agrees (constant_table ev) \<sigma>"
proof -
  have le: "constant_table ev \<subseteq>\<^sub>m T" using assms(1) by (simp add: folds_def)
  then have "dom (constant_table ev) \<subseteq> dom T" by (rule map_le_implies_dom_le)
  then show ?thesis using le assms(2,3) agrees_le unfolding plain_table_def by blast
qed

lemma eval_runs:
  assumes "eval_expr (fops m) ev e = Some (Inr v)" "v \<noteq> Complex" "value_in m \<sigma> e = Some w"
    "folds m T ss ev ss' ev'" "\<forall>x \<in> dom T. plain_name x" "agrees T \<sigma>"
  shows "v = w \<and> arithmetic e"
  using assms(1-3) folds_plain [OF assms(4-6)] eval_depth_runs eval_arithmetic unfolding eval_expr_def by blast

text \<open>A visited \<open>let\<close> and a visited expression keep their value.\<close>

lemma folds_let:
  assumes f: "folds m T [StSyn (SynLocal p (Some e))] ev [s'] ev'"
    and pl: "\<forall>x \<in> dom T. plain_name x" and a: "agrees T \<sigma>"
    and v: "value_in m \<sigma> e = Some v"
  shows "\<exists>e'. s' = StSyn (SynLocal p (Some e')) \<and> value_in m \<sigma> e' = Some v \<and>
    store_after m e' \<sigma> = store_after m e \<sigma> \<and> agrees T (bind_pat m p v (store_after m e \<sigma>))"
proof -
  have unbound: "T x = constant_table ev' x \<and> constant_table ev x = None" if "bound_name p = Some x" for x
    using f that by (auto simp: folds_def)
  have fr: "effect_keeps m T e" "pattern_keeps m T p" using folds_framed [OF f] by simp_all
  note bind = agrees_bind [OF fr(2) agrees_after [OF fr(1) a]]
  consider (kept) "s' = StSyn (SynLocal p (Some e))" "ev' = ev"
    | (folded) w e' where "eval_expr (fops m) ev e = Some (Inr w)" "w \<noteq> Complex" "value_to_expr w = Some e'"
      "s' = StSyn (SynLocal p (Some e'))" "ev' = note_constant p w ev"
    using f by (auto simp: folds_def split: option.splits sum.splits if_splits)
  then show ?thesis
  proof cases
    case kept
    with unbound v show ?thesis by (auto intro: bind)
  next
    case folded
    have w: "w = v" "arithmetic e" using eval_runs [OF folded(1,2) v f pl a] by auto
    have "T x = None \<or> T x = Some v" if "bound_name p = Some x" for x
      using unbound [OF that] that folded(5) w(1) by (cases p) (auto simp: note_constant_def)
    then show ?thesis
      using folded(4) value_to_expr_runs [OF folded(3)] w agrees_bind [OF fr(2) a, of v]
      by (auto simp: store_after_def)
  qed
qed

lemma folds_arithmetic:
  assumes "folds m T [StSyn (SynStmtExpr e semi)] ev [s'] ev'" "\<forall>x \<in> dom T. plain_name x" "agrees T \<sigma>"
    "value_in m \<sigma> e = Some v" "arithmetic e"
  shows "\<exists>e'. s' = StSyn (SynStmtExpr e' semi) \<and> value_in m \<sigma> e' = Some v \<and> arithmetic e'"
proof -
  consider "s' = StSyn (SynStmtExpr e semi)"
    | w e' where "eval_expr (fops m) ev e = Some (Inr w)" "value_to_expr w = Some e'" "s' = StSyn (SynStmtExpr e' semi)"
    using assms(1) by (auto simp: folds_def split: option.splits sum.splits)
  then show ?thesis
  proof cases
    case 2
    then have "w \<noteq> Complex" by (auto simp: value_to_expr_def)
    then have "w = v" using eval_runs [OF 2(1) _ assms(4,1,2,3)] by blast
    then show ?thesis using 2(3) value_to_expr_runs [OF 2(2)] by blast
  qed (use assms(4,5) in blast)
qed

lemma runs_folded:
  assumes "\<forall>x \<in> dom T. plain_name x"
  shows "runs m ss \<sigma> fl \<sigma>' \<Longrightarrow> folds m T ss ev ss' ev' \<Longrightarrow> agrees T \<sigma> \<Longrightarrow> runs m ss' \<sigma> fl \<sigma>' \<and> agrees T \<sigma>'"
    and "rounds m p body vs \<sigma> fl \<sigma>' \<Longrightarrow> folds m T body ev body' ev' \<Longrightarrow> set_option (bound_name p) \<inter> dom T = {} \<Longrightarrow>
      pattern_keeps m T p \<Longrightarrow> agrees T \<sigma> \<Longrightarrow> rounds m p body' vs \<sigma> fl \<sigma>' \<and> agrees T \<sigma>'"
proof (induction arbitrary: ev ss' ev' and ev body' ev' rule: runs_rounds.inducts)
  case (run_end \<sigma>)
  then show ?case by (auto dest: folds_Nil intro: runs_rounds.run_end)
next
  case (run_let \<sigma> e v ss p fl \<sigma>')
  from run_let.prems(1) obtain s' t ev1 where f: "ss' = s' # t"
    "folds m T [StSyn (SynLocal p (Some e))] ev [s'] ev1" "folds m T ss ev1 t ev'" by (rule folds_Cons)
  from folds_let [OF f(2) assms run_let.prems(2) run_let(1)] run_let(3) [OF f(3)]
  show ?case by (auto simp: f(1) intro: runs_rounds.run_let)
next
  case (run_arithmetic e \<sigma> v ss fl \<sigma>' semi)
  from run_arithmetic.prems(1) obtain s' t ev1 where f: "ss' = s' # t"
    "folds m T [StSyn (SynStmtExpr e semi)] ev [s'] ev1" "folds m T ss ev1 t ev'" by (rule folds_Cons)
  from folds_arithmetic [OF f(2) assms run_arithmetic.prems(2) run_arithmetic(2,1)]
    run_arithmetic(4) [OF f(3) run_arithmetic.prems(2)]
  show ?case by (auto simp: f(1) intro: runs_rounds.run_arithmetic)
next
  case (run_other s \<sigma> \<sigma>1 ss fl \<sigma>')
  from run_other.prems(1) obtain s' t ev1 where f: "ss' = s' # t"
    "folds m T [s] ev [s'] ev1" "folds m T ss ev1 t ev'" by (rule folds_Cons)
  from folds_other [OF f(2) run_other(1)]
    run_other(4) [OF f(3) agrees_exec [OF f(2) run_other(1) run_other.prems(2) run_other(2)]] run_other(1,2)
  show ?case by (auto simp: f(1) intro: runs_rounds.run_other)
next
  case (run_leave s \<sigma> fl \<sigma>' ss)
  from run_leave.prems(1) obtain s' t ev1 where f: "ss' = s' # t"
    "folds m T [s] ev [s'] ev1" by (rule folds_Cons)
  have "other_stmt s" "rt_exec m s \<sigma> = Some (fl, \<sigma>')" "fl \<noteq> Normal" by fact+
  with folds_other [OF f(2)] agrees_exec [OF f(2) _ run_leave.prems(2)]
  show ?case by (auto simp: f(1) intro: runs_rounds.run_leave)
next
  case (run_while_end \<sigma> c ss fl \<sigma>' body)
  from run_while_end.prems(1) obtain s' t ev1 where f: "ss' = s' # t"
    "folds m T [StWhile c body] ev [s'] ev1" "folds m T ss ev1 t ev'" by (rule folds_Cons)
  have fr: "effect_keeps m T c" using folds_framed [OF f(2)] by simp
  from folds_While [OF f(2)] run_while_end(3) [OF f(3) agrees_after [OF fr run_while_end.prems(2)]]
    run_while_end(1)
  show ?case by (auto simp: f(1) intro: runs_rounds.run_while_end)
next
  case (run_while_round \<sigma> c body g \<sigma>1 ss fl \<sigma>')
  from run_while_round.prems(1) obtain s' t ev1 where f: "ss' = s' # t"
    "folds m T [StWhile c body] ev [s'] ev1" "folds m T ss ev1 t ev'" by (rule folds_Cons)
  have fr: "effect_keeps m T c" using folds_framed [OF f(2)] by simp
  obtain b where b: "s' = StWhile c b" "folds m T body ev b ev1" using folds_While [OF f(2)] by blast
  have "runs m b (store_after m c \<sigma>) g \<sigma>1 \<and> agrees T \<sigma>1"
    using run_while_round(3) [OF b(2) agrees_after [OF fr run_while_round.prems(2)]] .
  with run_while_round(5) [OF run_while_round.prems(1)] run_while_round(1,6)
  show ?case unfolding f(1) b(1) by (blast intro: runs_rounds.run_while_round)
next
  case (run_while_break \<sigma> c body \<sigma>1 ss fl \<sigma>')
  from run_while_break.prems(1) obtain s' t ev1 where f: "ss' = s' # t"
    "folds m T [StWhile c body] ev [s'] ev1" "folds m T ss ev1 t ev'" by (rule folds_Cons)
  have fr: "effect_keeps m T c" using folds_framed [OF f(2)] by simp
  obtain b where b: "s' = StWhile c b" "folds m T body ev b ev1" using folds_While [OF f(2)] by blast
  from run_while_break(3) [OF b(2) agrees_after [OF fr run_while_break.prems(2)]]
    run_while_break(5) [OF f(3)] run_while_break(1)
  show ?case unfolding f(1) b(1) by (blast intro: runs_rounds.run_while_break)
next
  case (run_while_return \<sigma> c body \<sigma>' ss)
  from run_while_return.prems(1) obtain s' t ev1 where f: "ss' = s' # t"
    "folds m T [StWhile c body] ev [s'] ev1" by (rule folds_Cons)
  have fr: "effect_keeps m T c" using folds_framed [OF f(2)] by simp
  obtain b where b: "s' = StWhile c b" "folds m T body ev b ev1" using folds_While [OF f(2)] by blast
  from run_while_return(3) [OF b(2) agrees_after [OF fr run_while_return.prems(2)]] run_while_return(1)
  show ?case unfolding f(1) b(1) by (blast intro: runs_rounds.run_while_return)
next
  case (run_for e \<sigma> vs p body \<sigma>1 ss fl \<sigma>')
  from run_for.prems(1) obtain s' t ev1 where f: "ss' = s' # t"
    "folds m T [StFor p e body] ev [s'] ev1" "folds m T ss ev1 t ev'" by (rule folds_Cons)
  have fr: "effect_keeps m T e" and pk: "pattern_keeps m T p" using folds_framed [OF f(2)] by simp_all
  obtain b where b: "s' = StFor p e b" "folds m T body ev b ev1" "set_option (bound_name p) \<inter> dom T = {}"
    using folds_For [OF f(2)] by blast
  from run_for(3) [OF b(2,3) pk agrees_after [OF fr run_for.prems(2)]] run_for(5) [OF f(3)] run_for(1)
  show ?case unfolding f(1) b(1) by (blast intro: runs_rounds.run_for)
next
  case (run_for_return e \<sigma> vs p body \<sigma>' ss)
  from run_for_return.prems(1) obtain s' t ev1 where f: "ss' = s' # t"
    "folds m T [StFor p e body] ev [s'] ev1" by (rule folds_Cons)
  have fr: "effect_keeps m T e" and pk: "pattern_keeps m T p" using folds_framed [OF f(2)] by simp_all
  obtain b where b: "s' = StFor p e b" "folds m T body ev b ev1" "set_option (bound_name p) \<inter> dom T = {}"
    using folds_For [OF f(2)] by blast
  from run_for_return(3) [OF b(2,3) pk agrees_after [OF fr run_for_return.prems(2)]] run_for_return(1)
  show ?case unfolding f(1) b(1) by (blast intro: runs_rounds.run_for_return)
next
  case (rounds_end p body \<sigma>)
  then show ?case by (blast intro: runs_rounds.rounds_end)
next
  case (rounds_next body p v \<sigma> g \<sigma>1 vs fl \<sigma>')
  then have "agrees T (bind_pat m p v \<sigma>)" by (intro agrees_bind) auto
  from rounds_next(2) [OF rounds_next.prems(1) this] rounds_next(4) [OF rounds_next.prems(1-3)] rounds_next(5)
  show ?case by (blast intro: runs_rounds.rounds_next)
next
  case (rounds_break body p v \<sigma> \<sigma>' vs)
  then have "agrees T (bind_pat m p v \<sigma>)" by (intro agrees_bind) auto
  from rounds_break(2) [OF rounds_break.prems(1) this] show ?case by (blast intro: runs_rounds.rounds_break)
next
  case (rounds_return body p v \<sigma> \<sigma>' vs)
  then have "agrees T (bind_pat m p v \<sigma>)" by (intro agrees_bind) auto
  from rounds_return(2) [OF rounds_return.prems(1) this] show ?case by (blast intro: runs_rounds.rounds_return)
qed

fun file_lets :: "item_ast list \<Rightarrow> string list" where
  "file_lets [] = []"
| "file_lets (FnItem f # is) = let_names (sf_body f) @ file_lets is"
| "file_lets (it # is) = file_lets is"

fun file_loops :: "item_ast list \<Rightarrow> string set" where
  "file_loops [] = {}"
| "file_loops (FnItem f # is) = loop_names (sf_body f) \<union> file_loops is"
| "file_loops (it # is) = file_loops is"

lemma items_table:
  "process_items fop is ev = Some (is', ev') \<Longrightarrow> x \<notin> set (file_lets is) \<Longrightarrow> constant_table ev' x = constant_table ev x"
  by (induction fop "is" ev arbitrary: is' ev' rule: process_items.induct)
    (auto split: option.splits dest: process_table(1))

lemma items_fold:
  assumes "process_items (fops m) is ev = Some (is', ev')" "distinct (file_lets is)"
    "set (file_lets is) \<inter> dom (constant_table ev) = {}" "constant_table ev \<subseteq>\<^sub>m T"
    "\<forall>x \<in> set (file_lets is). T x = constant_table ev' x" "file_loops is \<inter> dom T = {}"
    "i < length is" "is ! i = FnItem f" "framed m T (sf_body f)"
  shows "\<exists>b ev1 ev2. is' ! i = FnItem (f\<lparr>sf_body := b\<rparr>) \<and> folds m T (sf_body f) ev1 b ev2"
  using assms(1-8)
proof (induction "fops m" "is" ev arbitrary: is' ev' i rule: process_items.induct)
  case (2 g "is" ev)
  from "2.prems"(1) obtain b ev1 js where p: "process_block (fops m) (sf_body g) ev = Some (b, ev1)"
    "process_items (fops m) is ev1 = Some (js, ev')" "is' = FnItem (g\<lparr>sf_body := b\<rparr>) # js"
    by (auto split: option.splits)
  note split = table_split [of "let_names (sf_body g)" "file_lets is" "constant_table ev" T "constant_table ev'"
      "constant_table ev1", OF _ _ _ _ process_table(1) [OF p(1)] items_table [OF p(2)]]
  have "folds m T (sf_body g) ev b ev1"
    if "framed m T (sf_body g)"
    using "2.prems"(2-6) p(1) split that by (simp add: folds_def Int_Un_distrib2)
  moreover have "constant_table ev1 \<subseteq>\<^sub>m T" "set (file_lets is) \<inter> dom (constant_table ev1) = {}"
    using "2.prems"(2-5) split by simp_all
  note rest = "2.hyps" [OF p(1) refl p(2) _ this(2,1)]
  show ?case
  proof (cases i)
    case 0
    then show ?thesis using calculation assms(9) "2.prems"(8) p(3) by auto
  next
    case (Suc j)
    then show ?thesis using rest [of j] "2.prems"(2,5-8) p(3) by (auto simp: Int_Un_distrib2)
  qed
qed (simp, (auto simp: nth_Cons split: option.splits nat.splits; fail)+)

text \<open>
  Property C9: compile-time folding preserves the behaviour of every function of a file whose integers
  are all of type \<open>i64\<close> (the reference computes in \<open>i64\<close>; what the pass does
  to other types is shown below), on three conditions. The names that the visited \<open>let\<close>s of
  the whole file bind are distinct identifiers without \<open>__\<close>. No loop variable has the name
  of a constant. And the statements of the function that the pass does not look into, its calls and its
  destructuring patterns do not change a variable that has the name of a constant. Then every run of the
  function, to its end or to its \<open>return\<close>, that starts with no value for the names of
  constants (no parameter has such a name) is a run of the folded function with the same outcome and the
  same final values.
\<close>

theorem comptime_preserves_runs:
  assumes run: "process_items (fops m) items evaluator_new = Some (items', ev')"
    and lets: "distinct (file_lets items)" "list_all plain_name (file_lets items)"
    and cst: "file_loops items \<inter> dom (constant_table ev') = {}"
    and f: "i < length items" "items ! i = FnItem f" "framed m (constant_table ev') (sf_body f)"
    and r: "runs m (sf_body f) \<sigma> fl \<sigma>'" "\<forall>x \<in> dom (constant_table ev'). \<sigma> x = None"
  shows "\<exists>b. items' ! i = FnItem (f\<lparr>sf_body := b\<rparr>) \<and> runs m b \<sigma> fl \<sigma>'"
proof -
  have "constant_table ev' x = None" if "x \<notin> set (file_lets items)" for x
    using items_table [OF run that] by (simp add: evaluator_new_def)
  then have plain: "\<forall>x \<in> dom (constant_table ev'). plain_name x"
    using lets(2) by (fastforce simp: list_all_iff)
  have "\<exists>b ev1 ev2. items' ! i = FnItem (f\<lparr>sf_body := b\<rparr>) \<and> folds m (constant_table ev') (sf_body f) ev1 b ev2"
    by (rule items_fold [OF run lets(1) _ _ _ cst f]) (auto simp: evaluator_new_def map_le_def)
  then obtain b ev1 ev2 where b: "items' ! i = FnItem (f\<lparr>sf_body := b\<rparr>)"
    "folds m (constant_table ev') (sf_body f) ev1 b ev2" by blast
  have "agrees (constant_table ev') \<sigma>" using r(2) unfolding agrees_def by (metis domI option.distinct(1))
  with runs_folded(1) [OF plain r(1) b(2)] b(1) show ?thesis by blast
qed

abbreviation let_s :: "string \<Rightarrow> syn_expr \<Rightarrow> stmt_ast" where
  "let_s x e \<equiv> StSyn (SynLocal (SynPatIdent x False) (Some e))"

abbreviation read_e :: "string \<Rightarrow> syn_expr" where
  "read_e x \<equiv> SynPath (False, [(x, False)])"

abbreviation int_e :: "int \<Rightarrow> syn_expr" where
  "int_e n \<equiv> SynLit (SynInt n)"

definition fn_of :: "string \<Rightarrow> stmt_ast list \<Rightarrow> salt_fn" where
  "fn_of name body = \<lparr>sf_attributes = [], sf_pub = False, sf_name = name, sf_generics = None, sf_args = [],
     sf_ret = None, sf_body = body\<rparr>"

text \<open>A machine with assignments, in which every call returns 0.\<close>

fun demo_exec :: "stmt_ast \<Rightarrow> store \<Rightarrow> (flow \<times> store) option" where
  "demo_exec (StSyn (SynStmtExpr (SynAssign (SynPath (False, [(x, False)])) e) True)) \<sigma> =
     map_option (\<lambda>v. (Normal, \<sigma>(x \<mapsto> v))) (value_of (\<lambda>_ a _. a) (\<lambda>_ _. None) \<sigma> e)"
| "demo_exec _ _ = None"

definition demo_machine :: machine where
  "demo_machine = \<lparr>fops = (\<lambda>_ a _. a), rt_value = (\<lambda>_ e. case e of SynCall _ _ \<Rightarrow> Some (CInteger 0) | _ \<Rightarrow> None),
     rt_effect = (\<lambda>_ \<sigma>. \<sigma>), rt_exec = demo_exec, rt_bind = (\<lambda>_ \<sigma>. \<sigma>), rt_iter = (\<lambda>_ _. None)\<rparr>"

text \<open>\<open>let x = 2 + 3; let i = g(); while i < x { let y = x * 2; i = i + x; }\<close>\<close>

abbreviation demo_loop :: "syn_expr \<Rightarrow> stmt_ast list" where
  "demo_loop y \<equiv> [let_s ''y'' y, StSyn (SynStmtExpr (SynAssign (read_e ''i'') (SynBinary (read_e ''i'') OpAdd (read_e ''x''))) True)]"

abbreviation demo_body :: "syn_expr \<Rightarrow> syn_expr \<Rightarrow> stmt_ast list" where
  "demo_body x y \<equiv> [let_s ''x'' x, let_s ''i'' (SynCall (read_e ''g'') []),
     StWhile (SynBinary (read_e ''i'') OpLt (read_e ''x'')) (demo_loop y)]"

definition demo_fold :: salt_fn where
  "demo_fold = fn_of ''f'' (demo_body (SynBinary (int_e 2) OpAdd (int_e 3)) (SynBinary (read_e ''x'') OpMul (int_e 2)))"

lemmas fold_eval = eval_expr_def eval_expr_depth.simps eval_literal_def base10_parse_u64_def eval_path_def mangle_def
  compute_binary_def compute_int_def compute_unary_def value_to_expr_def note_constant_def evaluator_new_def
  checked_div_def i64_min_def

lemmas run_eval = run_literal_def run_binary_def run_int_def bind_pat_def store_after_def Let_def

lemma demo_folded:
  "process_items (fops demo_machine) [FnItem demo_fold] evaluator_new =
     Some ([FnItem (fn_of ''f'' (demo_body (int_e 5) (int_e 10)))],
       \<lparr>depth_limit = 100, constant_table = [''x'' \<mapsto> CInteger 5, ''y'' \<mapsto> CInteger 10]\<rparr>)"
  by (simp add: demo_fold_def fn_of_def demo_machine_def fold_eval Let_def)

lemma demo_runs:
  assumes "value_in demo_machine Map.empty x = Some (CInteger 5)" "arithmetic x" "arithmetic y"
    and "\<And>\<sigma>. \<sigma> ''x'' = Some (CInteger 5) \<Longrightarrow> value_in demo_machine \<sigma> y = Some (CInteger 10)"
  shows "runs demo_machine (demo_body x y) Map.empty Normal
    [''x'' \<mapsto> CInteger 5, ''i'' \<mapsto> CInteger 5, ''y'' \<mapsto> CInteger 10]"
proof -
  let ?\<sigma>1 = "[''x'' \<mapsto> CInteger 5, ''i'' \<mapsto> CInteger 0] :: store"
  let ?\<sigma>2 = "[''x'' \<mapsto> CInteger 5, ''i'' \<mapsto> CInteger 0, ''y'' \<mapsto> CInteger 10] :: store"
  let ?\<sigma>3 = "[''x'' \<mapsto> CInteger 5, ''i'' \<mapsto> CInteger 5, ''y'' \<mapsto> CInteger 10] :: store"
  have store: "?\<sigma>2(''i'' \<mapsto> CInteger 5) = ?\<sigma>3" by (rule ext) simp
  have "runs demo_machine (demo_loop y) ?\<sigma>1 Normal ?\<sigma>3"
    by (rule run_let [where v = "CInteger 10"], rule assms(4), simp, rule run_other [where ?\<sigma>1.0 = ?\<sigma>3])
      (auto simp: bind_pat_def store_after_def assms(3) demo_machine_def run_eval store intro: run_end)
  moreover have "runs demo_machine [StWhile (SynBinary (read_e ''i'') OpLt (read_e ''x'')) (demo_loop y)] ?\<sigma>3 Normal ?\<sigma>3"
    by (rule run_while_end) (auto simp: run_eval intro: run_end)
  ultimately have "runs demo_machine [StWhile (SynBinary (read_e ''i'') OpLt (read_e ''x'')) (demo_loop y)] ?\<sigma>1 Normal ?\<sigma>3"
    using run_while_round [of demo_machine ?\<sigma>1 "SynBinary (read_e ''i'') OpLt (read_e ''x'')" "demo_loop y" Normal ?\<sigma>3 "[]" Normal ?\<sigma>3]
    by (simp add: run_eval)
  then have "runs demo_machine (tl (demo_body x y)) [''x'' \<mapsto> CInteger 5] Normal ?\<sigma>3"
    unfolding list.sel
    by (intro run_let [where v = "CInteger 0"]) (simp_all add: bind_pat_def store_after_def demo_machine_def)
  then show ?thesis
    using run_let [OF assms(1), of "tl (demo_body x y)" "SynPatIdent ''x'' False"] assms(2)
    by (simp add: bind_pat_def store_after_def)
qed

lemma demo_framed: "framed demo_machine [''x'' \<mapsto> CInteger 5, ''y'' \<mapsto> CInteger 10] (sf_body demo_fold)"
proof -
  have "exec_keeps demo_machine [''x'' \<mapsto> CInteger 5, ''y'' \<mapsto> CInteger 10]
      (StSyn (SynStmtExpr (SynAssign (read_e ''i'') e) True))" for e
    by (auto simp: exec_keeps_def keeps_def demo_machine_def)
  then show ?thesis
    by (simp add: demo_fold_def fn_of_def pattern_keeps_def effect_keeps_def store_after_def keeps_def demo_machine_def)
qed

theorem comptime_preserves_runs_witness:
  "runs demo_machine (demo_body (int_e 5) (int_e 10)) Map.empty Normal
    [''x'' \<mapsto> CInteger 5, ''i'' \<mapsto> CInteger 5, ''y'' \<mapsto> CInteger 10]"
proof -
  have "runs demo_machine (sf_body demo_fold) Map.empty Normal
      [''x'' \<mapsto> CInteger 5, ''i'' \<mapsto> CInteger 5, ''y'' \<mapsto> CInteger 10]"
    unfolding demo_fold_def fn_of_def by (simp, rule demo_runs) (simp_all add: run_eval)
  from comptime_preserves_runs [OF demo_folded _ _ _ _ _ _ this, of 0] demo_framed
  show ?thesis
    by (simp add: demo_fold_def fn_of_def plain_name_def)
qed

section \<open>Programs the pass changes\<close>

text \<open>
  The table is shared by all functions of the file: a parameter with the name of a constant of
  another function is replaced by that constant.
\<close>

lemma constant_leaks_between_functions:
  "comptime_run fop [FnItem (fn_of ''f'' [let_s ''n'' (int_e 5)]),
       FnItem (fn_of ''g'' [let_s ''m'' (SynBinary (read_e ''n'') OpAdd (int_e 1))])] =
     Some [FnItem (fn_of ''f'' [let_s ''n'' (int_e 5)]), FnItem (fn_of ''g'' [let_s ''m'' (int_e 6)])]"
  by (simp add: comptime_run_def fn_of_def fold_eval Let_def)

text \<open>An assigned variable keeps its initial value in the table: after the loop \<open>i\<close> is taken for 0.\<close>

lemma assigned_variable_folded:
  "comptime_run fop [FnItem (fn_of ''f'' [let_s ''i'' (int_e 0),
       StWhile (SynBinary (read_e ''i'') OpLt (int_e 9))
         [StSyn (SynStmtExpr (SynAssign (read_e ''i'') (SynBinary (read_e ''i'') OpAdd (int_e 1))) True)],
       let_s ''y'' (read_e ''i'')])] =
     Some [FnItem (fn_of ''f'' [let_s ''i'' (int_e 0),
       StWhile (SynBinary (read_e ''i'') OpLt (int_e 9))
         [StSyn (SynStmtExpr (SynAssign (read_e ''i'') (SynBinary (read_e ''i'') OpAdd (int_e 1))) True)],
       let_s ''y'' (int_e 0)])]"
  by (simp add: comptime_run_def fn_of_def fold_eval Let_def)

text \<open>A new variable that is not constant does not remove the constant of the same name.\<close>

lemma shadowed_constant_folded:
  "comptime_run fop [FnItem (fn_of ''f'' [let_s ''x'' (int_e 1), let_s ''x'' (SynCall (read_e ''g'') []),
       let_s ''y'' (read_e ''x'')])] =
     Some [FnItem (fn_of ''f'' [let_s ''x'' (int_e 1), let_s ''x'' (SynCall (read_e ''g'') []), let_s ''y'' (int_e 1)])]"
  by (simp add: comptime_run_def fn_of_def fold_eval Let_def)

text \<open>Values of \<open>u64\<close> are divided as signed numbers: the quotient of the greatest one by 2 is folded to 0.\<close>

lemma unsigned_division_folded_signed:
  "comptime_run fop [FnItem (fn_of ''f'' [let_s ''x'' (SynBinary (int_e (2 ^ 64 - 1)) OpDiv (int_e 2))])] =
     Some [FnItem (fn_of ''f'' [let_s ''x'' (int_e 0)])]"
  by (simp add: comptime_run_def fn_of_def fold_eval Let_def signed_divide_int_def)

text \<open>Sources that make the compiler panic.\<close>

lemma compiler_panics:
  "comptime_run fop [FnItem (fn_of ''f'' [let_s ''x'' (SynBinary (int_e (2 ^ 63)) OpDiv (SynUnary OpNeg (int_e 1)))])] = None"
  "comptime_run fop [FnItem (fn_of ''f'' [StSyn (SynStmtExpr SynArray True)])] = None"
  by (simp_all add: comptime_run_def fn_of_def fold_eval Let_def)

end
