(* ===== verification/Syn_Types.thy ===== *)
theory Syn_Types
  imports Salt_Ast Salt_Types
begin

text \<open>
  From written types to types: \<open>SynType::from_std\<close>
  (\<open>salt-front/src/grammar.rs\<close>), which turns a type of \<open>syn\<close> into the
  compiler's \<open>SynType\<close>, and \<open>Type::from_syn_with_generics\<close>
  (\<open>salt-front/src/types.rs\<close>), which resolves names to types. The first fails with an error
  (\<open>Inl\<close> the banned name); the second answers \<open>Some None\<close> for a type it cannot
  express and panics, which is \<^term>\<open>None\<close>, on a slice out of range.
\<close>

section \<open>Reading a \<open>syn\<close> type\<close>

definition is_ptr_of :: "(string \<times> syn_type list) list \<Rightarrow> syn_type option" where
  "is_ptr_of segs = (case segs of [(name, [inner])] \<Rightarrow> if name = ''Ptr'' then Some inner else None | _ \<Rightarrow> None)"

definition banned_name :: "string \<Rightarrow> bool" where
  "banned_name name = (name = ''NativePtr'' \<or> name = ''NodePtr'')"

function from_std :: "std_type \<Rightarrow> (string, syn_type) result"
and from_std_list :: "std_type list \<Rightarrow> (string, syn_type list) result"
and from_std_segments :: "(string \<times> std_type list) list \<Rightarrow> (string, (string \<times> syn_type list) list) result"
where
  "from_std (StdPath segs) =
     (case from_std_segments segs of
        Inl err \<Rightarrow> Inl err
      | Inr segs \<Rightarrow> Inr (case is_ptr_of segs of Some inner \<Rightarrow> TyPointer inner | None \<Rightarrow> TyPath segs))"
| "from_std (StdArray t len) =
     (case from_std t of Inl err \<Rightarrow> Inl err | Inr inner \<Rightarrow> Inr (TyArray inner len))"
| "from_std (StdTuple ts) =
     (case from_std_list ts of Inl err \<Rightarrow> Inl err | Inr elems \<Rightarrow> Inr (TyTuple elems))"
| "from_std (StdPtr t) =
     (case from_std t of Inl err \<Rightarrow> Inl err | Inr inner \<Rightarrow> Inr (TyPointer inner))"
| "from_std (StdReference t mutable) =
     (case from_std t of Inl err \<Rightarrow> Inl err | Inr inner \<Rightarrow> Inr (TyReference inner mutable))"
| "from_std (StdBareFn ts ret) =
     (case from_std_list ts of
        Inl err \<Rightarrow> Inl err
      | Inr args \<Rightarrow>
          (case ret of
             None \<Rightarrow> Inr (TyFnPtr args None)
           | Some t \<Rightarrow> (case from_std t of Inl err \<Rightarrow> Inl err | Inr r \<Rightarrow> Inr (TyFnPtr args (Some r)))))"
| "from_std (StdOther tokens) = Inr (TyOther tokens)"
| "from_std_list [] = Inr []"
| "from_std_list (t # ts) =
     (case from_std t of
        Inl err \<Rightarrow> Inl err
      | Inr u \<Rightarrow> (case from_std_list ts of Inl err \<Rightarrow> Inl err | Inr us \<Rightarrow> Inr (u # us)))"
| "from_std_segments [] = Inr []"
| "from_std_segments ((name, args) # segs) =
     (if banned_name name then Inl name
      else case from_std_list args of
             Inl err \<Rightarrow> Inl err
           | Inr args \<Rightarrow>
               (case from_std_segments segs of Inl err \<Rightarrow> Inl err | Inr segs \<Rightarrow> Inr ((name, args) # segs)))"
  by pat_completeness auto

termination
  by (relation "measure (\<lambda>x. case x of
        Inl t \<Rightarrow> size t
      | Inr (Inl ts) \<Rightarrow> size_list size ts
      | Inr (Inr segs) \<Rightarrow> size_list (size_prod (\<lambda>x. 0) (size_list size)) segs)") auto

section \<open>Shape markers of tensors\<close>

text \<open>\<open>str::parse::<usize>\<close> and \<open>str::split\<close> on one character.\<close>

definition digit_value :: "char \<Rightarrow> nat option" where
  "digit_value c = (let n = of_char c in if 48 \<le> n \<and> n \<le> 57 then Some (n - 48) else None)"

fun digits_value :: "nat \<Rightarrow> string \<Rightarrow> nat option" where
  "digits_value acc [] = Some acc"
| "digits_value acc (c # cs) =
     (case digit_value c of None \<Rightarrow> None | Some d \<Rightarrow> digits_value (10 * acc + d) cs)"

definition parse_usize :: "string \<Rightarrow> usize option" where
  "parse_usize s =
     (let body = (case s of CHR ''+'' # cs \<Rightarrow> cs | _ \<Rightarrow> s)
      in if body = [] then None
         else case digits_value 0 body of
                Some n \<Rightarrow> if n < 2 ^ 64 then Some (of_nat n) else None
              | None \<Rightarrow> None)"

fun split_char :: "char \<Rightarrow> string \<Rightarrow> string \<Rightarrow> string list" where
  "split_char sep acc [] = [rev acc]"
| "split_char sep acc (c # cs) =
     (if c = sep then rev acc # split_char sep [] cs else split_char sep (c # acc) cs)"

text \<open>\<open>&s[8 .. s.len() - 2]\<close> panics when the range is empty the wrong way round.\<close>

definition shape_dims :: "string \<Rightarrow> usize list option" where
  "shape_dims name =
     (if length name - 2 < 8 then None
      else let vals = List.map_filter parse_usize (split_char CHR ''_'' [] (take (length name - 2 - 8) (drop 8 name)))
           in Some (if 1 < length vals then tl vals else vals))"

datatype shape_marker = NoMarker | Unnamed | Marked string

definition shape_marker :: "syn_type list \<Rightarrow> shape_marker" where
  "shape_marker args =
     (case args of
        _ # TyPath [] # _ \<Rightarrow> Unnamed
      | _ # TyPath segs # _ \<Rightarrow>
          (let name = fst (last segs)
           in if starts_with ''__Shape_'' name \<and> ends_with ''__'' name then Marked name else NoMarker)
      | _ \<Rightarrow> NoMarker)"

definition tensor_type :: "ty list \<Rightarrow> syn_type list \<Rightarrow> ty option option" where
  "tensor_type params args =
     (case params of
        [] \<Rightarrow> Some None
      | elem # _ \<Rightarrow>
          (case shape_marker args of
             NoMarker \<Rightarrow> Some (Some (Tensor elem []))
           | Unnamed \<Rightarrow> Some None
           | Marked name \<Rightarrow> map_option (\<lambda>dims. Some (Tensor elem dims)) (shape_dims name)))"

section \<open>Resolving names\<close>

definition naked_ptr :: "ty \<Rightarrow> ty" where
  "naked_ptr t = Pointer t Naked True"

definition primitive_type :: "string \<rightharpoonup> ty" where
  "primitive_type =
     map_of [(''i8'', I8), (''i16'', I16), (''i32'', I32), (''i64'', I64), (''u8'', U8), (''u16'', U16),
       (''u32'', U32), (''u64'', U64), (''f32'', F32), (''f64'', F64), (''bool'', Bool), (''usize'', Usize),
       (''Self'', SelfType), (''LlvmPtr'', naked_ptr I8)]"

definition is_upper :: "char \<Rightarrow> bool" where
  "is_upper c = (let n = (of_char c :: nat) in 65 \<le> n \<and> n \<le> 90)"

definition named_type :: "string set \<Rightarrow> string \<Rightarrow> ty list \<Rightarrow> ty" where
  "named_type gens name params =
     (if name \<in> gens then Generic name
      else if gens = {} \<and> length name = 1 \<and> list_all is_upper name then Generic name
      else Concrete name params)"

definition path_type :: "string set \<Rightarrow> string \<Rightarrow> ty list \<Rightarrow> syn_type list \<Rightarrow> ty option option" where
  "path_type gens name params args =
     (case primitive_type name of
        Some t \<Rightarrow> Some (Some t)
      | None \<Rightarrow>
          if name = ''Tensor'' then tensor_type params args
          else Some (Some (named_type gens name params)))"

definition static_dims :: "tensor_dim list \<Rightarrow> usize list" where
  "static_dims dims = List.map_filter (\<lambda>d. case d of DimStatic n \<Rightarrow> Some n | _ \<Rightarrow> None) dims"

lemma last_segment_size: "segs \<noteq> [] \<Longrightarrow> size_list size (snd (last segs)) < Suc (size_list (size_prod (\<lambda>x. 0) (size_list size)) segs)"
  by (induction segs) (auto split: if_splits)

text \<open>The list version is the \<open>filter_map\<close> that drops what cannot be expressed.\<close>

function from_syn_with_generics :: "string set \<Rightarrow> syn_type \<Rightarrow> ty option option"
and from_syn_list :: "string set \<Rightarrow> syn_type list \<Rightarrow> ty list option"
where
  "from_syn_with_generics gens (TyPointer inner) =
     map_option (map_option naked_ptr) (from_syn_with_generics gens inner)"
| "from_syn_with_generics gens (TyReference inner mutable) =
     map_option (map_option (\<lambda>t. Reference t mutable)) (from_syn_with_generics gens inner)"
| "from_syn_with_generics gens (TyPath segs) =
     (if segs = [] then Some None
      else let args = snd (last segs);
               name = (if 1 < length segs then join_with ''::'' (map fst segs) else fst (last segs))
           in case from_syn_list gens args of
                None \<Rightarrow> None
              | Some params \<Rightarrow> path_type gens name params args)"
| "from_syn_with_generics gens (TyArray inner len) =
     map_option (\<lambda>r. case r of
         None \<Rightarrow> None
       | Some t \<Rightarrow> (case len of
           Some n \<Rightarrow> if n < 2 ^ 64 then Some (Array t (of_nat n) False) else None
         | None \<Rightarrow> None)) (from_syn_with_generics gens inner)"
| "from_syn_with_generics gens (TyTuple ts) =
     (if ts = [] then Some (Some Unit) else map_option (\<lambda>us. Some (Tuple us)) (from_syn_list gens ts))"
| "from_syn_with_generics gens (TyShapedTensor elem rank dims) =
     map_option (map_option (\<lambda>t.
         if of_nat (length (static_dims dims)) = rank then Tensor t (static_dims dims) else naked_ptr t))
       (from_syn_with_generics gens elem)"
| "from_syn_with_generics gens (TyFnPtr ts ret) =
     (case from_syn_list gens ts of
        None \<Rightarrow> None
      | Some args \<Rightarrow>
          (case ret of
             None \<Rightarrow> Some (Some (Fn args Unit))
           | Some r \<Rightarrow>
               map_option (\<lambda>u. Some (Fn args (case u of Some t \<Rightarrow> t | None \<Rightarrow> Unit)))
                 (from_syn_with_generics gens r)))"
| "from_syn_with_generics gens (TyOther tokens) =
     Some (if str_contains ''llvm'' tokens \<and> str_contains ''ptr'' tokens then Some (naked_ptr I8) else None)"
| "from_syn_list gens [] = Some []"
| "from_syn_list gens (t # ts) =
     (case from_syn_with_generics gens t of
        None \<Rightarrow> None
      | Some r \<Rightarrow>
          map_option (\<lambda>us. case r of Some u \<Rightarrow> u # us | None \<Rightarrow> us) (from_syn_list gens ts))"
  by pat_completeness auto

termination
  by (relation "measure (\<lambda>x. case x of
        Inl (_, t) \<Rightarrow> size t
      | Inr (_, ts) \<Rightarrow> size_list size ts)")
    (auto simp: last_segment_size)

definition from_syn :: "syn_type \<Rightarrow> ty option option" where
  "from_syn t = from_syn_with_generics {} t"

section \<open>Writing a type and reading it back\<close>

text \<open>How a programmer writes a type, and which types can be written.\<close>

fun write_type :: "ty \<Rightarrow> std_type" where
  "write_type I8 = StdPath [(''i8'', [])]"
| "write_type I16 = StdPath [(''i16'', [])]"
| "write_type I32 = StdPath [(''i32'', [])]"
| "write_type I64 = StdPath [(''i64'', [])]"
| "write_type U8 = StdPath [(''u8'', [])]"
| "write_type U16 = StdPath [(''u16'', [])]"
| "write_type U32 = StdPath [(''u32'', [])]"
| "write_type U64 = StdPath [(''u64'', [])]"
| "write_type Usize = StdPath [(''usize'', [])]"
| "write_type F32 = StdPath [(''f32'', [])]"
| "write_type F64 = StdPath [(''f64'', [])]"
| "write_type ty.Bool = StdPath [(''bool'', [])]"
| "write_type Unit = StdTuple []"
| "write_type SelfType = StdPath [(''Self'', [])]"
| "write_type (Generic name) = StdPath [(name, [])]"
| "write_type (Concrete name ts) = StdPath [(name, map write_type ts)]"
| "write_type (Pointer t _ _) = StdPath [(''Ptr'', [write_type t])]"
| "write_type (Reference t mutable) = StdReference (write_type t) mutable"
| "write_type (Array t n _) = StdArray (write_type t) (Some (unat n))"
| "write_type (Tuple ts) = StdTuple (map write_type ts)"
| "write_type (Fn ts r) = StdBareFn (map write_type ts) (if r = Unit then None else Some (write_type r))"
| "write_type (Tensor t dims) = StdPath [(''Tensor'', [write_type t])]"
| "write_type _ = StdTuple []"

definition plain_name :: "string \<Rightarrow> bool" where
  "plain_name name = (primitive_type name = None \<and> name \<noteq> ''Tensor'' \<and> name \<noteq> ''Ptr'' \<and> \<not> banned_name name)"

fun writable :: "string set \<Rightarrow> ty \<Rightarrow> bool" where
  "writable gens (Generic name) = (plain_name name \<and> named_type gens name [] = Generic name)"
| "writable gens (Concrete name ts) =
     (plain_name name \<and> named_type gens name [] = Concrete name [] \<and> list_all (writable gens) ts)"
| "writable gens (Pointer t p mutable) = (p = Naked \<and> mutable \<and> writable gens t)"
| "writable gens (Reference t _) = writable gens t"
| "writable gens (Array t _ packed) = (\<not> packed \<and> writable gens t)"
| "writable gens (Tuple ts) = (ts \<noteq> [] \<and> list_all (writable gens) ts)"
| "writable gens (Fn ts r) = (list_all (writable gens) ts \<and> writable gens r)"
| "writable gens (Tensor t dims) = (dims = [] \<and> writable gens t)"
| "writable gens t = (t \<in> {I8, I16, I32, I64, U8, U16, U32, U64, Usize, F32, F64, ty.Bool, Unit, SelfType})"

lemma named_type_params:
  "named_type gens name [] = Concrete name [] \<Longrightarrow> named_type gens name ts = Concrete name ts"
  by (auto simp: named_type_def split: if_splits)

lemma plain_name_path:
  "plain_name name \<Longrightarrow> path_type gens name ts args = Some (Some (named_type gens name ts))"
  by (simp add: plain_name_def path_type_def)

definition reads_as :: "string set \<Rightarrow> std_type \<Rightarrow> ty \<Rightarrow> bool" where
  "reads_as gens w t \<longleftrightarrow>
     (\<exists>u. from_std w = Inr u \<and> from_syn_with_generics gens u = Some (Some t))"

lemma reads_as_list:
  "list_all2 (reads_as gens) ws ts \<Longrightarrow>
     \<exists>us. from_std_list ws = Inr us \<and> length us = length ws \<and> from_syn_list gens us = Some ts"
  by (induction rule: list_all2_induct) (auto simp: reads_as_def)

lemma reads_as_map:
  "(\<And>t. t \<in> set ts \<Longrightarrow> writable gens t \<Longrightarrow> reads_as gens (write_type t) t) \<Longrightarrow>
     list_all (writable gens) ts \<Longrightarrow> list_all2 (reads_as gens) (map write_type ts) ts"
  by (simp add: list_all2_map1 list_all_iff list.rel_refl_strong)

lemma reads_path:
  "\<not> banned_name name \<Longrightarrow> name \<noteq> ''Ptr'' \<Longrightarrow> from_std_list ws = Inr us \<Longrightarrow> from_syn_list gens us = Some ts \<Longrightarrow>
     path_type gens name ts us = Some (Some t) \<Longrightarrow> reads_as gens (StdPath [(name, ws)]) t"
  by (auto simp: reads_as_def is_ptr_of_def split: list.splits)

text \<open>
  Property C38: a written type is read back as the type meant. For every type a programmer can write
  with the given generic names in scope (numbers, \<open>bool\<close>, \<open>Self\<close>, the unit
  type, generics, named types with arguments, \<open>Ptr<T>\<close>, references, arrays, tuples,
  function pointers and unshaped tensors, nested in any way), \<open>from_std\<close> accepts its
  written form and \<open>from_syn_with_generics\<close> gives the type itself, with no part dropped and
  no panic.
\<close>

theorem written_type_roundtrip:
  assumes "writable gens t"
  shows "\<exists>u. from_std (write_type t) = Inr u \<and> from_syn_with_generics gens u = Some (Some t)"
proof -
  have "reads_as gens (write_type t) t"
    using assms
  proof (induction t)
    case (Generic name)
    then show ?case
      by (auto intro!: reads_path [of name "[]" "[]"] simp: plain_name_path) (auto simp: plain_name_def)
  next
    case (Concrete name ts)
    from reads_as_list [OF reads_as_map [OF Concrete.IH]] Concrete.prems obtain us
      where "from_std_list (map write_type ts) = Inr us" "from_syn_list gens us = Some ts"
      by auto
    with Concrete.prems show ?case
      by (auto intro!: reads_path simp: plain_name_path named_type_params) (auto simp: plain_name_def)
  next
    case (Pointer t p mutable)
    then show ?case by (auto simp: reads_as_def is_ptr_of_def naked_ptr_def banned_name_def)
  next
    case (Array t n packed)
    then show ?case by (auto simp: reads_as_def unsigned_less [of n, where ?'a = nat, simplified])
  next
    case (Tensor t dims)
    then show ?case
      by (auto simp: reads_as_def is_ptr_of_def banned_name_def path_type_def primitive_type_def tensor_type_def shape_marker_def)
  next
    case (Tuple ts)
    from reads_as_list [OF reads_as_map [OF Tuple.IH]] Tuple.prems obtain us
      where "from_std_list (map write_type ts) = Inr us" "length us = length ts" "from_syn_list gens us = Some ts"
      by auto
    with Tuple.prems show ?case by (auto simp: reads_as_def)
  next
    case (Fn ts r)
    from reads_as_list [OF reads_as_map [OF Fn.IH(1)]] Fn.prems obtain us
      where "from_std_list (map write_type ts) = Inr us" "from_syn_list gens us = Some ts"
      by auto
    with Fn show ?case by (auto simp: reads_as_def)
  qed (auto simp: reads_as_def is_ptr_of_def banned_name_def path_type_def primitive_type_def)
  then show ?thesis by (simp add: reads_as_def)
qed

theorem written_type_roundtrip_witness:
  "writable {''K''} (Concrete ''Map'' [Generic ''K'', Tuple [Pointer U8 Naked True, Array I32 4 False]]) \<and>
   (\<exists>u. from_std (write_type (Concrete ''Map'' [Generic ''K'', Tuple [Pointer U8 Naked True, Array I32 4 False]])) = Inr u \<and>
      from_syn_with_generics {''K''} u =
        Some (Some (Concrete ''Map'' [Generic ''K'', Tuple [Pointer U8 Naked True, Array I32 4 False]])))"
proof -
  have "writable {''K''} (Concrete ''Map'' [Generic ''K'', Tuple [Pointer U8 Naked True, Array I32 4 False]])"
    by (simp add: plain_name_def primitive_type_def banned_name_def named_type_def)
  then show ?thesis using written_type_roundtrip by blast
qed

section \<open>What is lost\<close>

text \<open>
  A component that cannot be expressed is dropped from a tuple or an argument list instead of
  making the whole type fail: \<open>(i32, [u8; N])\<close> is read as the 1-tuple of \<open>i32\<close>.
\<close>

lemma tuple_component_dropped:
  "from_syn_with_generics {} (TyTuple [TyPath [(''i32'', [])], TyArray (TyPath [(''u8'', [])]) None]) =
     Some (Some (Tuple [I32]))"
  by (simp add: path_type_def primitive_type_def)

text \<open>The marker \<open>__Shape__\<close> passes the test of prefix and suffix, which overlap; slicing it panics.\<close>

lemma short_shape_marker_panics:
  "from_syn_with_generics {} (TyPath [(''Tensor'', [TyPath [(''f32'', [])], TyPath [(''__Shape__'', [])]])]) = None"
  by (simp add: path_type_def primitive_type_def tensor_type_def shape_marker_def shape_dims_def
      named_type_def ends_with_def)

text \<open>A shape marker whose rank digit is followed by the dimensions.\<close>

lemma shape_marker_example:
  "from_syn_with_generics {} (TyPath [(''Tensor'', [TyPath [(''f32'', [])], TyPath [(''__Shape_2_128_784__'', [])]])]) =
     Some (Some (Tensor F32 [128, 784]))"
  by (simp add: path_type_def primitive_type_def tensor_type_def shape_marker_def shape_dims_def
      named_type_def ends_with_def parse_usize_def digit_value_def List.map_filter_simps)

end
