(* ===== verification/Generics.thy ===== *)
theory Generics
  imports Syn_Types
begin

text \<open>
  Inference of the generic parameters of a call
  (\<open>salt-front/src/codegen/generic_resolver.rs\<close>): structural unification of a parameter
  type with an argument type, and the phases that fill the map from generic names to types. What the
  emitter knows is passed in: the type of an argument expression (\<open>trace\<close>,
  \<open>None\<close> when neither the tracer nor the function fallback finds one) and the resolution of
  a written return type (\<open>resolve_type\<close>). A panic of \<open>from_syn\<close> is
  \<^term>\<open>None\<close>.
\<close>

section \<open>Unification\<close>

type_synonym type_map = "string \<rightharpoonup> ty"

definition bind_new :: "string \<Rightarrow> ty \<Rightarrow> type_map \<Rightarrow> type_map" where
  "bind_new name t m = (if m name = None then m(name \<mapsto> t) else m)"

definition names_match :: "string \<Rightarrow> string \<Rightarrow> bool" where
  "names_match n1 n2 \<longleftrightarrow> n1 = n2 \<or> ends_with (''__'' @ n2) n1 \<or> ends_with (''__'' @ n1) n2"

lemma zip_sizes:
  "(x, y) \<in> set (zip xs ys) \<Longrightarrow> size x + size y \<le> size_list size xs + size_list size ys"
  by (metis add_mono set_zip_leftD set_zip_rightD elem_size)

function unify_types :: "ty \<Rightarrow> ty \<Rightarrow> type_map \<Rightarrow> type_map" where
  "unify_types template concrete m =
     (case template of
        Generic name \<Rightarrow> bind_new name concrete m
      | Pointer e1 _ _ \<Rightarrow>
          (case concrete of
             Pointer e2 _ _ \<Rightarrow> unify_types e1 e2 m
           | Concrete c_name [c_arg] \<Rightarrow> if str_contains ''Ptr'' c_name then unify_types e1 c_arg m else m
           | Reference c _ \<Rightarrow> unify_types template c m
           | _ \<Rightarrow> m)
      | Concrete n1 args1 \<Rightarrow>
          (case concrete of
             Pointer e2 _ _ \<Rightarrow>
               (case args1 of
                  [p_arg] \<Rightarrow> if str_contains ''Ptr'' n1 then unify_types p_arg e2 m else m
                | _ \<Rightarrow> m)
           | Concrete n2 args2 \<Rightarrow>
               if length args1 = length args2 \<and> names_match n1 n2
               then fold (\<lambda>(a1, a2). unify_types a1 a2) (zip args1 args2) m else m
           | Reference c _ \<Rightarrow> unify_types template c m
           | _ \<Rightarrow> m)
      | Reference p _ \<Rightarrow>
          (case concrete of
             Reference c _ \<Rightarrow> unify_types p c m
           | _ \<Rightarrow> unify_types p concrete m)
      | Array e1 _ _ \<Rightarrow>
          (case concrete of
             Reference c _ \<Rightarrow> unify_types template c m
           | Array e2 _ _ \<Rightarrow> unify_types e1 e2 m
           | _ \<Rightarrow> m)
      | Fn p_args p_ret \<Rightarrow>
          (case concrete of
             Reference c _ \<Rightarrow> unify_types template c m
           | Fn c_args c_ret \<Rightarrow>
               fold (\<lambda>(a1, a2). unify_types a1 a2) (zip p_args c_args) (unify_types p_ret c_ret m)
           | _ \<Rightarrow> m)
      | Owned p \<Rightarrow>
          (case concrete of
             Reference c _ \<Rightarrow> unify_types template c m
           | Owned c \<Rightarrow> unify_types p c m
           | _ \<Rightarrow> m)
      | Atomic p \<Rightarrow>
          (case concrete of
             Reference c _ \<Rightarrow> unify_types template c m
           | Atomic c \<Rightarrow> unify_types p c m
           | _ \<Rightarrow> m)
      | _ \<Rightarrow>
          (case concrete of
             Reference c _ \<Rightarrow> unify_types template c m
           | _ \<Rightarrow> m))"
  by pat_completeness auto

termination
  by (relation "measure (\<lambda>(t, c, _). size t + size c)") (auto dest!: zip_sizes [of _ _ _ _ ])

declare unify_types.simps [simp del]

fun normalize_generics :: "string list \<Rightarrow> ty \<Rightarrow> ty" where
  "normalize_generics declared (Struct name) = (if name \<in> set declared then Generic name else Struct name)"
| "normalize_generics declared (Concrete name args) =
     (if name \<in> set declared then Generic name else Concrete name (map (normalize_generics declared) args))"
| "normalize_generics declared (Reference inner mutable) = Reference (normalize_generics declared inner) mutable"
| "normalize_generics declared (Pointer element prov mutable) = Pointer (normalize_generics declared element) prov mutable"
| "normalize_generics declared (Fn args ret) = Fn (map (normalize_generics declared) args) (normalize_generics declared ret)"
| "normalize_generics declared (Array inner len rank) = Array (normalize_generics declared inner) len rank"
| "normalize_generics declared (Owned inner) = Owned (normalize_generics declared inner)"
| "normalize_generics declared (Atomic inner) = Atomic (normalize_generics declared inner)"
| "normalize_generics declared t = t"

definition generic_param_name :: "generic_ast \<Rightarrow> string" where
  "generic_param_name p = (case p of GenTypeParam name _ \<Rightarrow> name | GenConstParam name _ \<Rightarrow> name)"

definition declared_names :: "salt_fn \<Rightarrow> string list" where
  "declared_names f = (case sf_generics f of Some ps \<Rightarrow> map generic_param_name ps | None \<Rightarrow> [])"

definition infer_phantom_generics :: "string list \<Rightarrow> type_map \<Rightarrow> type_map" where
  "infer_phantom_generics declared m =
     (let unresolved = filter (\<lambda>g. m g = None) declared;
          rets = List.map_filter (\<lambda>g. case m g of Some (Fn _ ret) \<Rightarrow> Some ret | _ \<Rightarrow> None) declared
      in case (unresolved, rets) of ([g], [ret]) \<Rightarrow> m(g \<mapsto> ret) | _ \<Rightarrow> m)"

section \<open>The phases\<close>

text \<open>Parameters paired with the types at their positions.\<close>

definition apply_turbofish :: "generic_ast list \<Rightarrow> ty list \<Rightarrow> type_map \<Rightarrow> type_map" where
  "apply_turbofish ps args m = fold (\<lambda>(p, t) m. m(generic_param_name p \<mapsto> t)) (zip ps args) m"

definition apply_struct_generics :: "generic_ast list \<Rightarrow> ty list \<Rightarrow> type_map \<Rightarrow> type_map" where
  "apply_struct_generics ps args m =
     fold (\<lambda>(p, t) m. if has_generics t then m else bind_new (generic_param_name p) t m) (zip ps args) m"

definition is_method :: "salt_fn \<Rightarrow> bool" where
  "is_method f = (case sf_args f of (name, _) # _ \<Rightarrow> name = ''self'' | [] \<Rightarrow> False)"

definition infer_argument ::
  "(syn_expr \<Rightarrow> ty option) \<Rightarrow> string list \<Rightarrow> syn_type option \<Rightarrow> syn_expr \<Rightarrow> type_map \<Rightarrow> type_map option" where
  "infer_argument trace declared pat e m =
     (case pat of
        None \<Rightarrow> Some m
      | Some p \<Rightarrow>
          map_option (\<lambda>r. case r of
              None \<Rightarrow> m
            | Some raw \<Rightarrow>
                (case trace e of Some t \<Rightarrow> unify_types (normalize_generics declared raw) t m | None \<Rightarrow> m))
            (from_syn p))"

fun infer_arguments ::
  "(syn_expr \<Rightarrow> ty option) \<Rightarrow> string list \<Rightarrow> (string \<times> syn_type option) list \<Rightarrow> syn_expr list \<Rightarrow> type_map \<Rightarrow> type_map option"
where
  "infer_arguments trace declared ((_, pat) # ps) (e # es) m =
     Option.bind (infer_argument trace declared pat e m) (infer_arguments trace declared ps es)"
| "infer_arguments trace declared _ _ m = Some m"

definition infer_from_arguments ::
  "(syn_expr \<Rightarrow> ty option) \<Rightarrow> salt_fn \<Rightarrow> syn_expr list \<Rightarrow> type_map \<Rightarrow> type_map option" where
  "infer_from_arguments trace f es m =
     infer_arguments trace (declared_names f) (drop (if is_method f then 1 else 0) (sf_args f)) es m"

definition infer_from_self_type ::
  "(syn_expr \<Rightarrow> ty option) \<Rightarrow> salt_fn \<Rightarrow> ty \<Rightarrow> syn_expr list \<Rightarrow> type_map \<Rightarrow> type_map" where
  "infer_from_self_type trace f self es m =
     (case (is_method f, es) of
        (True, e # _) \<Rightarrow> (case trace e of Some t \<Rightarrow> unify_types self t m | None \<Rightarrow> m)
      | _ \<Rightarrow> m)"

definition infer_from_return_type ::
  "(syn_type \<Rightarrow> ty) \<Rightarrow> salt_fn \<Rightarrow> ty option \<Rightarrow> type_map \<Rightarrow> type_map" where
  "infer_from_return_type resolve_type f expected m =
     (let unmapped = filter (\<lambda>g. m g = None) (declared_names f)
      in case (expected, sf_ret f) of
           (Some t, Some rt) \<Rightarrow>
             if unmapped = [] then m
             else let inferred = unify_types (resolve_type rt) t Map.empty
                  in fold (\<lambda>g m. case inferred g of Some u \<Rightarrow> bind_new g u m | None \<Rightarrow> m) unmapped m
         | _ \<Rightarrow> m)"

definition infer_single_from_return ::
  "(syn_type \<Rightarrow> ty) \<Rightarrow> salt_fn \<Rightarrow> ty option \<Rightarrow> string \<Rightarrow> ty option" where
  "infer_single_from_return resolve_type f expected g =
     (case (expected, sf_ret f) of
        (Some t, Some rt) \<Rightarrow> unify_types (normalize_generics (declared_names f) (resolve_type rt)) t Map.empty g
      | _ \<Rightarrow> None)"

datatype generics_error = UnresolvedGeneric string string

fun verify_completeness ::
  "(syn_type \<Rightarrow> ty) \<Rightarrow> salt_fn \<Rightarrow> ty option \<Rightarrow> string list \<Rightarrow> type_map \<Rightarrow> (generics_error, type_map) result"
where
  "verify_completeness resolve_type f expected [] m = Inr m"
| "verify_completeness resolve_type f expected (g # gs) m =
     (if m g \<noteq> None then verify_completeness resolve_type f expected gs m
      else case infer_single_from_return resolve_type f expected g of
             Some t \<Rightarrow> verify_completeness resolve_type f expected gs (m(g \<mapsto> t))
           | None \<Rightarrow> Inl (UnresolvedGeneric g (sf_name f)))"

text \<open>After the first phase the map is empty exactly if there was nothing to pair.\<close>

definition resolve_generics ::
  "(syn_expr \<Rightarrow> ty option) \<Rightarrow> (syn_type \<Rightarrow> ty) \<Rightarrow> salt_fn \<Rightarrow> ty list \<Rightarrow> syn_expr list \<Rightarrow> ty option \<Rightarrow> ty option \<Rightarrow>
     generic_ast list option \<Rightarrow> ty list \<Rightarrow> (generics_error, type_map) result option" where
  "resolve_generics trace resolve_type f turbofish es expected self struct_generics struct_args =
     (let struct_params = (case struct_generics of Some ps \<Rightarrow> ps | None \<Rightarrow> []);
          method_names = filter (\<lambda>g. g \<notin> set (map generic_param_name struct_params)) (declared_names f);
          own = (case sf_generics f of Some ps \<Rightarrow> ps | None \<Rightarrow> []);
          m = apply_turbofish own turbofish Map.empty;
          m = (if own = [] \<and> turbofish \<noteq> [] then apply_turbofish struct_params turbofish m else m);
          m = apply_struct_generics struct_params struct_args m
      in map_option
           (\<lambda>m. let m = (case self of Some t \<Rightarrow> infer_from_self_type trace f t es m | None \<Rightarrow> m);
                    m = infer_from_return_type resolve_type f expected m;
                    m = infer_phantom_generics method_names m
                in verify_completeness resolve_type f expected method_names m)
           (infer_from_arguments trace f es m))"

section \<open>What unification binds\<close>

fun unify_names :: "ty \<Rightarrow> string set" where
  "unify_names (Generic name) = {name}"
| "unify_names (Pointer element _ _) = unify_names element"
| "unify_names (Concrete _ args) = (\<Union>a \<in> set args. unify_names a)"
| "unify_names (Reference inner _) = unify_names inner"
| "unify_names (Array inner _ _) = unify_names inner"
| "unify_names (Fn args ret) = (\<Union>a \<in> set args. unify_names a) \<union> unify_names ret"
| "unify_names (Owned inner) = unify_names inner"
| "unify_names (Atomic inner) = unify_names inner"
| "unify_names _ = {}"

definition grows :: "string set \<Rightarrow> type_map \<Rightarrow> type_map \<Rightarrow> bool" where
  "grows N m m' \<longleftrightarrow> m \<subseteq>\<^sub>m m' \<and> dom m' \<subseteq> dom m \<union> N"

lemma grows_refl [simp, intro]: "grows N m m"
  by (auto simp: grows_def)

lemma grows_trans [trans]: "grows N m m' \<Longrightarrow> grows N m' m'' \<Longrightarrow> grows N m m''"
  unfolding grows_def by (blast intro: map_le_trans)

lemma grows_mono: "grows N m m' \<Longrightarrow> N \<subseteq> N' \<Longrightarrow> grows N' m m'"
  by (auto simp: grows_def)

lemma grows_bind_new [intro]: "name \<in> N \<Longrightarrow> grows N m (bind_new name t m)"
  by (auto simp: grows_def bind_new_def map_le_def)

lemma grows_none: "grows {} m m' \<Longrightarrow> m' = m"
  unfolding grows_def by (metis Un_empty_right map_le_antisym map_le_def subset_iff)

lemma grows_fold:
  assumes "\<And>x m. x \<in> set xs \<Longrightarrow> grows N m (f x m)"
  shows "grows N m (fold f xs m)"
  using assms by (induction xs arbitrary: m) (auto intro: grows_trans)

lemma unify_grows: "grows (unify_names t) m (unify_types t c m)"
proof (induction "size t + size c" arbitrary: t c m rule: less_induct)
  case less
  have IH: "grows N m (unify_types a b m)"
    if "size a + size b < size t + size c" "unify_names a \<subseteq> N" for a b m N
    using less [OF that(1)] that(2) by (rule grows_mono)
  have fold: "grows N m (fold (\<lambda>(a, b). unify_types a b) (zip xs ys) m)"
    if "size_list size xs + size_list size ys < size t + size c" "(\<Union>a \<in> set xs. unify_names a) \<subseteq> N" for xs ys m N
  proof (rule grows_fold)
    fix p m assume p: "p \<in> set (zip xs ys)"
    obtain a b where "p = (a, b)" by (cases p)
    with p show "grows N m ((case p of (a, b) \<Rightarrow> unify_types a b) m)"
      using that zip_sizes [of a b xs ys] by (fastforce intro!: IH dest: set_zip_leftD)
  qed
  have fn: "grows N m (fold (\<lambda>(a, b). unify_types a b) (zip xs ys) (unify_types r u m))"
    if "size_list size xs + size_list size ys < size t + size c" "(\<Union>a \<in> set xs. unify_names a) \<subseteq> N"
      "size r + size u < size t + size c" "unify_names r \<subseteq> N" for xs ys r u m N
    by (rule grows_trans [OF IH fold]) (use that in auto)
  show ?case
    by (subst unify_types.simps) (cases t; auto split: ty.split list.split intro!: IH fold fn)
qed

lemma unify_none: "unify_names t = {} \<Longrightarrow> unify_types t c m = m"
  using unify_grows [of t m c] grows_none by metis

text \<open>
  The types that \<open>m\<close> turns into a concrete type by replacing their generics only: no struct
  of the type has the name of an entry of \<open>m\<close>, and nothing that \<open>substitute\<close>
  passes over hides a generic.
\<close>

fun replaced_by :: "type_map \<Rightarrow> ty \<Rightarrow> bool" where
  "replaced_by m (Generic name) = (m name \<noteq> None)"
| "replaced_by m (Struct name) =
     (m name = None \<and> (str_contains ''__'' name \<longrightarrow> m (rsplit_first name) = None))"
| "replaced_by m SelfType = (m ''Self'' = None)"
| "replaced_by m (Concrete name args) = ((args = [] \<longrightarrow> m name = None) \<and> list_all (replaced_by m) args)"
| "replaced_by m (Pointer element _ _) = replaced_by m element"
| "replaced_by m (Reference inner _) = replaced_by m inner"
| "replaced_by m (Array inner _ _) = replaced_by m inner"
| "replaced_by m (Fn args ret) = (list_all (replaced_by m) args \<and> replaced_by m ret)"
| "replaced_by m (Owned inner) = (unify_names inner = {})"
| "replaced_by m (Atomic inner) = (unify_names inner = {})"
| "replaced_by m _ = True"

lemma restrict_Un: "(f |` A) ++ (f |` B) = f |` (A \<union> B)"
  by (rule ext) (auto simp: map_add_def restrict_map_def split: option.splits)

lemma names_match_refl [simp]: "names_match n n"
  by (simp add: names_match_def)

lemma bind_new_add: "\<sigma> name = Some t \<Longrightarrow> bind_new name t m = (\<sigma> |` {name}) ++ m"
  by (rule ext) (auto simp: bind_new_def map_add_def restrict_map_def split: option.splits)

lemma unify_list_instance:
  assumes "\<And>a m. a \<in> set xs \<Longrightarrow> unify_types a (f a) m = (\<sigma> |` unify_names a) ++ m"
  shows "fold (\<lambda>(a, b). unify_types a b) (zip xs (map f xs)) m = (\<sigma> |` (\<Union>a \<in> set xs. unify_names a)) ++ m"
  using assms
proof (induction xs arbitrary: m)
  case Nil
  then show ?case by (simp add: restrict_map_def map_add_def fun_eq_iff)
next
  case (Cons a xs)
  then show ?case by (simp add: restrict_Un Un_commute)
qed

lemma unify_instance: "replaced_by \<sigma> t \<Longrightarrow> unify_types t (substitute \<sigma> t) m = (\<sigma> |` unify_names t) ++ m"
proof (induction t arbitrary: m)
  case (Generic n)
  then obtain u where "\<sigma> n = Some u" by auto
  then show ?case using bind_new_add [of \<sigma> n u m] by (simp add: unify_types.simps [of "Generic n"])
next
  case (Concrete n args)
  then have "substitute \<sigma> (Concrete n args) = Concrete n (map (substitute \<sigma>) args)" by auto
  then show ?case
    using Concrete unify_list_instance [of args "substitute \<sigma>" \<sigma> m]
    by (simp add: unify_types.simps [of "Concrete n args"] list_all_iff)
next
  case (Fn args ret)
  then show ?case
    using unify_list_instance [of args "substitute \<sigma>" \<sigma>]
    by (simp add: unify_types.simps [of "Fn args ret"] list_all_iff restrict_Un)
next
  case (Struct n)
  then show ?case by (simp add: unify_none del: substitute.simps)
next
  case (Owned t)
  then show ?case by (simp add: unify_none)
next
  case (Atomic t)
  then show ?case by (simp add: unify_none)
qed (simp_all add: unify_none unify_types.simps [of "Pointer _ _ _"] unify_types.simps [of "Reference _ _"]
    unify_types.simps [of "Array _ _ _"])

lemma substitute_restrict:
  "replaced_by \<sigma> t \<Longrightarrow> unify_names t \<subseteq> N \<Longrightarrow> substitute (\<sigma> |` N) t = substitute \<sigma> t"
  by (induction t) (auto simp: restrict_map_def list_all_iff split: option.splits)

text \<open>
  Property C28: unification finds the instantiation: against a type that a map makes of a template,
  it binds exactly the generics of the template, to what the map says, and substituting the result
  gives the type back.
\<close>

theorem unify_finds_instance:
  assumes "replaced_by \<sigma> t"
  shows "unify_types t (substitute \<sigma> t) Map.empty = \<sigma> |` unify_names t \<and>
    substitute (unify_types t (substitute \<sigma> t) Map.empty) t = substitute \<sigma> t"
  using unify_instance [OF assms, of Map.empty] substitute_restrict [OF assms order_refl] by simp

theorem unify_finds_instance_witness:
  "unify_types (Fn [Reference (Generic ''T'') False] (Concrete ''Vec'' [Generic ''U'']))
     (Fn [Reference I64 False] (Concrete ''Vec'' [F64])) Map.empty = [''T'' \<mapsto> I64, ''U'' \<mapsto> F64]"
proof -
  let ?t = "Fn [Reference (Generic ''T'') False] (Concrete ''Vec'' [Generic ''U''])"
  let ?\<sigma> = "[''T'' \<mapsto> I64, ''U'' \<mapsto> F64, ''V'' \<mapsto> Unit] :: type_map"
  have "unify_types ?t (substitute ?\<sigma> ?t) Map.empty = ?\<sigma> |` unify_names ?t"
    using unify_finds_instance [of ?\<sigma> ?t] by simp
  moreover have "?\<sigma> |` unify_names ?t = [''T'' \<mapsto> I64, ''U'' \<mapsto> F64]"
    by (rule ext) (simp add: restrict_map_def)
  ultimately show ?thesis by simp
qed

section \<open>Resolution of a call\<close>

lemma map_le_Some: "m \<subseteq>\<^sub>m m' \<Longrightarrow> m x = Some v \<Longrightarrow> m' x = Some v"
  unfolding map_le_def dom_def by force

lemma map_le_bind_new [intro]: "m \<subseteq>\<^sub>m bind_new g t m"
  by (auto simp: bind_new_def map_le_def)

lemma map_le_fold:
  assumes "\<And>x m. x \<in> set xs \<Longrightarrow> m \<subseteq>\<^sub>m f x m"
  shows "m \<subseteq>\<^sub>m fold f xs m"
  using assms by (induction xs arbitrary: m) (auto intro: map_le_trans)

lemma unify_le [intro]: "m \<subseteq>\<^sub>m unify_types t c m"
  using unify_grows [of t m c] by (simp add: grows_def)

lemma struct_generics_le: "m \<subseteq>\<^sub>m apply_struct_generics ps ts m"
  unfolding apply_struct_generics_def by (rule map_le_fold) auto

lemma infer_argument_le:
  assumes "infer_argument trace declared pat e m = Some m'"
  shows "m \<subseteq>\<^sub>m m'"
proof (cases pat)
  case (Some p)
  with assms obtain r where "from_syn p = Some r" "m' = (case r of
      None \<Rightarrow> m
    | Some raw \<Rightarrow> (case trace e of Some t \<Rightarrow> unify_types (normalize_generics declared raw) t m | None \<Rightarrow> m))"
    by (auto simp: infer_argument_def)
  then show ?thesis by (cases r; cases "trace e") auto
qed (use assms in \<open>simp add: infer_argument_def\<close>)

lemma infer_arguments_le: "infer_arguments trace declared ps es m = Some m' \<Longrightarrow> m \<subseteq>\<^sub>m m'"
proof (induction trace declared ps es m rule: infer_arguments.induct)
  case (1 trace declared n pat ps e es m)
  then obtain m1 where m1: "infer_argument trace declared pat e m = Some m1"
    "infer_arguments trace declared ps es m1 = Some m'" by (auto simp: bind_eq_Some_conv)
  from infer_argument_le [OF m1(1)] "1.IH" [OF m1] show ?case by (blast intro: map_le_trans)
qed auto

lemma self_type_le: "m \<subseteq>\<^sub>m infer_from_self_type trace f self es m"
  by (auto simp: infer_from_self_type_def split: bool.splits list.splits option.splits)

lemma return_type_le: "m \<subseteq>\<^sub>m infer_from_return_type resolve_type f expected m"
proof -
  have "m \<subseteq>\<^sub>m fold (\<lambda>g m. case inferred g of Some u \<Rightarrow> bind_new g u m | None \<Rightarrow> m) gs m" for inferred gs
    by (rule map_le_fold) (auto split: option.split)
  then show ?thesis by (simp add: infer_from_return_type_def Let_def split: option.split)
qed

lemma phantom_le: "m \<subseteq>\<^sub>m infer_phantom_generics declared m"
proof -
  have aux: "m \<subseteq>\<^sub>m (case (u, r) of ([g], [ret]) \<Rightarrow> m(g \<mapsto> ret) | _ \<Rightarrow> m)" if "\<And>g. g \<in> set u \<Longrightarrow> m g = None" for u r
    using that by (auto simp: map_le_def split: list.split)
  show ?thesis unfolding infer_phantom_generics_def Let_def by (rule aux) simp
qed

lemma completeness:
  "verify_completeness resolve_type f expected gs m = Inr m' \<Longrightarrow> m \<subseteq>\<^sub>m m' \<and> set gs \<subseteq> dom m'"
proof (induction gs arbitrary: m)
  case (Cons g gs)
  show ?case
  proof (cases "m g")
    case None
    with Cons.prems obtain t where "verify_completeness resolve_type f expected gs (m(g \<mapsto> t)) = Inr m'"
      by (auto split: option.splits)
    from Cons.IH [OF this] None show ?thesis by (fastforce simp: map_le_def dom_def)
  next
    case (Some t)
    with Cons show ?thesis by (fastforce simp: map_le_def dom_def)
  qed
qed simp

lemma turbofish_lookup:
  assumes "distinct (map generic_param_name ps)" "i < length ps" "i < length ts"
  shows "apply_turbofish ps ts m (generic_param_name (ps ! i)) = Some (ts ! i)"
  using assms
proof (induction ps arbitrary: ts m i)
  case (Cons p ps)
  have other: "fold (\<lambda>(p, t) m. m(generic_param_name p \<mapsto> t)) (zip ps us) m g = m g"
    if "g \<notin> generic_param_name ` set ps" for us m g
    using that by (induction ps us arbitrary: m rule: list_induct2') auto
  obtain t us where ts: "ts = t # us" using Cons.prems(3) by (cases ts) auto
  show ?case
  proof (cases i)
    case 0
    then show ?thesis
      using Cons.prems(1) ts other [of "generic_param_name p" us "m(generic_param_name p \<mapsto> t)"]
      by (simp add: apply_turbofish_def)
  next
    case (Suc j)
    then show ?thesis
      using Cons.IH [of j us "m(generic_param_name p \<mapsto> t)"] Cons.prems ts
      by (simp add: apply_turbofish_def del: fun_upd_apply)
  qed
qed simp

text \<open>
  Property C34: a call that is resolved has a type for every generic of the function that is not one
  of the receiver's struct, and the types written with a turbofish are the ones it gets.
\<close>

theorem resolved_call_complete:
  assumes "resolve_generics trace resolve_type f turbofish es expected self struct_generics struct_args = Some (Inr m)"
    and "distinct (declared_names f)"
  shows "(\<forall>g. g \<in> set (declared_names f) \<and> m g = None \<longrightarrow>
      (\<exists>ps. struct_generics = Some ps \<and> g \<in> set (map generic_param_name ps))) \<and>
    (\<forall>i t. i < length (declared_names f) \<and> i < length turbofish \<longrightarrow> m (declared_names f ! i) = Some (turbofish ! i))"
proof -
  let ?sp = "case struct_generics of Some ps \<Rightarrow> ps | None \<Rightarrow> []"
  let ?own = "case sf_generics f of Some ps \<Rightarrow> ps | None \<Rightarrow> []"
  let ?names = "filter (\<lambda>g. g \<notin> set (map generic_param_name ?sp)) (declared_names f)"
  let ?m0 = "apply_turbofish ?own turbofish Map.empty"
  let ?m1 = "if ?own = [] \<and> turbofish \<noteq> [] then apply_turbofish ?sp turbofish ?m0 else ?m0"
  let ?self = "\<lambda>m. case self of Some t \<Rightarrow> infer_from_self_type trace f t es m | None \<Rightarrow> m"
  obtain m2 where m2: "infer_from_arguments trace f es (apply_struct_generics ?sp struct_args ?m1) = Some m2"
    "verify_completeness resolve_type f expected ?names (infer_phantom_generics ?names
       (infer_from_return_type resolve_type f expected (?self m2))) = Inr m"
    using assms(1) unfolding resolve_generics_def Let_def map_option_eq_Some by (elim exE conjE) (rule that)
  note final = completeness [OF m2(2)]
  have "?m1 \<subseteq>\<^sub>m m2"
    by (rule map_le_trans [OF struct_generics_le infer_arguments_le [OF m2(1) [unfolded infer_from_arguments_def]]])
  moreover have "m2 \<subseteq>\<^sub>m ?self m2" by (simp add: self_type_le split: option.split)
  ultimately have le: "?m1 \<subseteq>\<^sub>m m"
    using return_type_le phantom_le final by (meson map_le_trans)
  have own: "declared_names f = map generic_param_name ?own"
    by (simp add: declared_names_def split: option.split)
  have "m (declared_names f ! i) = Some (turbofish ! i)"
    if "i < length (declared_names f)" "i < length turbofish" for i
  proof -
    have "?m1 (declared_names f ! i) = Some (turbofish ! i)"
      using that assms(2) turbofish_lookup [of ?own i turbofish Map.empty] unfolding own by auto
    then show ?thesis by (rule map_le_Some [OF le])
  qed
  moreover have "\<exists>ps. struct_generics = Some ps \<and> g \<in> set (map generic_param_name ps)"
    if "g \<in> set (declared_names f)" "m g = None" for g
  proof -
    have "g \<notin> set ?names" using final that(2) by auto
    with that(1) show ?thesis by (cases struct_generics) auto
  qed
  ultimately show ?thesis by blast
qed

lemma replaced_names: "replaced_by \<sigma> t \<Longrightarrow> unify_names t \<subseteq> dom \<sigma>"
  by (induction t) (auto simp: list_all_iff)

lemma arguments_instance:
  assumes "map snd args = map Some ps" "map from_syn ps = map (\<lambda>r. Some (Some r)) raws"
    "map trace es = map (\<lambda>r. Some (substitute \<sigma> (normalize_generics declared r))) raws"
    "\<forall>r \<in> set raws. replaced_by \<sigma> (normalize_generics declared r)"
  shows "infer_arguments trace declared args es m =
    Some ((\<sigma> |` (\<Union>r \<in> set raws. unify_names (normalize_generics declared r))) ++ m)"
  using assms
proof (induction raws arbitrary: args ps es m)
  case Nil
  then show ?case by (auto simp: restrict_map_def map_add_def fun_eq_iff)
next
  case (Cons r raws)
  from Cons.prems(1-3) obtain n p args' ps' e es' where
    "args = (n, Some p) # args'" "ps = p # ps'" "es = e # es'" "from_syn p = Some (Some r)"
    "trace e = Some (substitute \<sigma> (normalize_generics declared r))"
    "map snd args' = map Some ps'" "map from_syn ps' = map (\<lambda>r. Some (Some r)) raws"
    "map trace es' = map (\<lambda>r. Some (substitute \<sigma> (normalize_generics declared r))) raws"
    by (auto simp: Cons_eq_map_conv map_eq_Cons_conv)
  with Cons.IH [of args' ps' es'] Cons.prems(4) show ?case
    by (simp add: infer_argument_def unify_instance restrict_Un Un_commute)
qed

lemma verify_bound: "set gs \<subseteq> dom m \<Longrightarrow> verify_completeness resolve_type f expected gs m = Inr m"
  by (induction gs) auto

text \<open>
  Property C13: a call of a free function whose argument types instantiate its parameter types is
  resolved, without a turbofish, to that instantiation, when every generic occurs in a parameter.
\<close>

theorem call_resolves_instance:
  assumes "\<not> is_method f" "map snd (sf_args f) = map Some ps" "map from_syn ps = map (\<lambda>r. Some (Some r)) raws"
    and ts: "ts = map (normalize_generics (declared_names f)) raws"
    and inst: "map trace es = map (\<lambda>t. Some (substitute \<sigma> t)) ts" "\<forall>t \<in> set ts. replaced_by \<sigma> t"
    and cover: "set (declared_names f) \<subseteq> (\<Union>t \<in> set ts. unify_names t)"
  shows "resolve_generics trace resolve_type f [] es expected None None [] =
    Some (Inr (\<sigma> |` (\<Union>t \<in> set ts. unify_names t)))"
proof -
  let ?m = "\<sigma> |` (\<Union>t \<in> set ts. unify_names t)"
  have args: "infer_from_arguments trace f es Map.empty = Some ?m"
    using arguments_instance [OF assms(2,3), of trace es \<sigma> "declared_names f" Map.empty] assms(1) inst ts
    by (simp add: infer_from_arguments_def comp_def)
  have "(\<Union>t \<in> set ts. unify_names t) \<subseteq> dom \<sigma>" using replaced_names inst(2) by (intro UN_least) blast
  with cover have bound: "set (declared_names f) \<subseteq> dom ?m" by auto
  then have "filter (\<lambda>g. ?m g = None) (declared_names f) = []"
    unfolding filter_empty_conv by blast
  then have "infer_from_return_type resolve_type f expected ?m = ?m" "infer_phantom_generics (declared_names f) ?m = ?m"
    by (simp_all add: infer_from_return_type_def infer_phantom_generics_def split: option.split)
  moreover have "apply_turbofish own [] Map.empty = Map.empty" "apply_struct_generics [] [] Map.empty = Map.empty" for own
    by (simp_all add: apply_turbofish_def apply_struct_generics_def)
  ultimately show ?thesis
    using args verify_bound [OF bound] by (simp add: resolve_generics_def)
qed

definition demo_generic :: salt_fn where
  "demo_generic = \<lparr>sf_attributes = [], sf_pub = True, sf_name = ''pair'',
     sf_generics = Some [GenTypeParam ''Key'' None, GenTypeParam ''V'' None],
     sf_args = [(''k'', Some (TyReference (TyPath [(''Key'', [])]) False)), (''v'', Some (TyPath [(''Vec'', [TyPath [(''V'', [])]])]))],
     sf_ret = None, sf_body = []\<rparr>"

definition demo_trace :: "syn_expr \<Rightarrow> ty option" where
  "demo_trace e = Some (if e = SynArray then Reference I64 False else Concrete ''Vec'' [F64])"

lemma demo_reads:
  "map from_syn [TyReference (TyPath [(''Key'', [])]) False, TyPath [(''Vec'', [TyPath [(''V'', [])]])]] =
     map (\<lambda>r. Some (Some r)) [Reference (Concrete ''Key'' []) False, Concrete ''Vec'' [Generic ''V'']]"
  by (simp add: from_syn_def path_type_def primitive_type_def named_type_def is_upper_def)

theorem call_resolves_instance_witness:
  "\<exists>m. resolve_generics demo_trace (\<lambda>_. Unit) demo_generic [] [SynArray, SynOther] None None None [] = Some (Inr m) \<and>
     m ''Key'' = Some I64 \<and> m ''V'' = Some F64"
proof -
  let ?\<sigma> = "[''Key'' \<mapsto> I64, ''V'' \<mapsto> F64] :: type_map"
  let ?raws = "[Reference (Concrete ''Key'' []) False, Concrete ''Vec'' [Generic ''V'']]"
  have names: "declared_names demo_generic = [''Key'', ''V'']"
    by (simp add: demo_generic_def declared_names_def generic_param_name_def)
  have "map (normalize_generics (declared_names demo_generic)) ?raws =
      [Reference (Generic ''Key'') False, Concrete ''Vec'' [Generic ''V'']]"
    by (simp add: names)
  from call_resolves_instance [OF _ _ demo_reads this [symmetric], of demo_trace "[SynArray, SynOther]" ?\<sigma>]
  show ?thesis
    by (simp add: names demo_trace_def) (simp add: is_method_def demo_generic_def)
qed

lemmas resolve_eval = resolve_generics_def apply_turbofish_def apply_struct_generics_def infer_from_arguments_def
  infer_argument_def infer_from_return_type_def infer_phantom_generics_def infer_single_from_return_def
  declared_names_def generic_param_name_def is_method_def unify_types.simps bind_new_def map_filter_simps

lemma demo_turbofish:
  "\<exists>m. resolve_generics demo_trace (\<lambda>_. Unit) demo_generic [U8] [SynArray, SynOther] None None None [] = Some (Inr m)"
  by (simp add: resolve_eval demo_generic_def demo_trace_def from_syn_def path_type_def primitive_type_def
      named_type_def is_upper_def Let_def)

theorem resolved_call_complete_witness:
  "\<exists>m. resolve_generics demo_trace (\<lambda>_. Unit) demo_generic [U8] [SynArray, SynOther] None None None [] = Some (Inr m) \<and>
     m ''Key'' = Some U8 \<and> m ''V'' \<noteq> None"
proof -
  obtain m where m: "resolve_generics demo_trace (\<lambda>_. Unit) demo_generic [U8] [SynArray, SynOther] None None None [] = Some (Inr m)"
    using demo_turbofish by blast
  have names: "declared_names demo_generic = [''Key'', ''V'']"
    by (simp add: demo_generic_def declared_names_def generic_param_name_def)
  from resolved_call_complete [OF m] show ?thesis using m by (auto simp: names)
qed

section \<open>What inference accepts and misses\<close>

text \<open>
  Arguments that disagree about a generic are accepted: the first one decides, and a result type
  that contradicts it is not seen.
\<close>

lemma conflicting_arguments_accepted:
  "unify_types (Fn [Generic ''T'', Generic ''T''] Unit) (Fn [I32, F64] Unit) Map.empty = [''T'' \<mapsto> I32]"
  by (simp add: unify_types.simps bind_new_def)

text \<open>A generic that only occurs in a tuple is not inferred: neither function looks into tuples.\<close>

lemma tuple_generics_not_inferred:
  "normalize_generics [''Key''] (Tuple [Struct ''Key'', I32]) = Tuple [Struct ''Key'', I32]"
  "unify_types (Tuple [Generic ''T'']) (Tuple [I64]) Map.empty = Map.empty"
  by (simp_all add: unify_types.simps)

text \<open>
  The type of the receiver is unified with the type of the first argument after the receiver, so
  that the element type of another vector becomes the element type of the receiver.
\<close>

lemma self_type_unified_with_argument:
  "infer_from_self_type (\<lambda>_. Some (Concrete ''Vec'' [F64]))
     \<lparr>sf_attributes = [], sf_pub = True, sf_name = ''zip'', sf_generics = None,
      sf_args = [(''self'', None), (''other'', None)], sf_ret = None, sf_body = []\<rparr>
     (Concrete ''Vec'' [Generic ''T'']) [SynOther] Map.empty = [''T'' \<mapsto> F64]"
  by (simp add: infer_from_self_type_def is_method_def unify_types.simps bind_new_def names_match_def)

end
