(* ===== verification/Specialize.thy ===== *)
theory Specialize
  imports Generics
begin

text \<open>
  Requests for specialized functions (\<open>codegen/type_bridge.rs\<close>:
  \<open>request_specialization\<close> and \<open>request_explicit_specialization\<close>), made by the
  emitter whenever it emits a call of a generic function or a method. A request fixes the name of the
  specialization, remembers it in a table, finds the function, binds its generics and puts a task in the
  queue that \<open>Demand\<close> drains. The registries of types and templates are the argument
  \<open>registries\<close>; a panic is \<^term>\<open>None\<close>. Warnings printed by the compiler
  are left out, and so is the scan of the types a function mentions, which registers structs but puts no
  function in the queue. Constants bound for const generics are taken back before the request returns,
  so they are left out too.
\<close>

section \<open>State\<close>

record import_decl =
  imp_name :: "string list"
  imp_alias :: "string option"
  imp_group :: "string list option"

record salt_file =
  file_package :: "string list option"
  file_imports :: "import_decl list"
  file_items :: "item_ast list"

record mono_task =
  task_identity :: type_key
  task_name :: string
  task_fn :: salt_fn
  task_tys :: "ty list"
  task_self :: "ty option"
  task_imports :: "import_decl list"
  task_map :: "(string \<times> ty) list"

record emit_context =
  ec_map :: "(string \<times> ty) list"
  ec_args :: "ty list"
  ec_self :: "ty option"
  ec_imports :: "import_decl list"
  ec_ret :: "ty option"
  ec_ensures :: "syn_expr list"
  ec_package :: "string list option"

record codegen =
  cg_context :: emit_context
  defined_functions :: "string set"
  external_decls :: "string set"
  pending_func_decls :: "(string \<times> string) list"
  identity_map :: "string set"
  pending_generations :: "mono_task list"
  specializations :: "string \<times> ty list \<rightharpoonup> string"
  definitions_buffer :: string

record registries =
  reg_structs :: struct_registry
  reg_enums :: "(string \<times> string option) list"
  struct_templates :: "(string \<times> generic_ast list option) list"
  enum_templates :: "(string \<times> generic_ast list option) list"
  method_index :: "((type_key \<times> string) \<times> salt_fn \<times> import_decl list) list"
  generic_impls :: "(string \<times> salt_fn \<times> import_decl list) list"

section \<open>Canonical arguments\<close>

fun strip_references :: "ty \<Rightarrow> ty" where
  "strip_references (Reference inner _) = strip_references inner"
| "strip_references t = t"

fun after_last_ptr :: "string \<Rightarrow> string option" where
  "after_last_ptr [] = None"
| "after_last_ptr (c # cs) =
     (case after_last_ptr cs of
        Some r \<Rightarrow> Some r
      | None \<Rightarrow> if starts_with ''Ptr'' (c # cs) then Some (drop 3 (c # cs)) else None)"

definition extract_ptr_inner :: "string \<Rightarrow> string option" where
  "extract_ptr_inner name =
     (case after_last_ptr name of
        Some after \<Rightarrow> let inner = dropWhile (\<lambda>c. c = CHR ''_'') after in if inner = [] then None else Some inner
      | None \<Rightarrow> None)"

function flatten_inception :: "nat \<Rightarrow> ty \<Rightarrow> ty" where
  "flatten_inception depth t =
     (if 10 < depth then t
      else case t of
        Concrete template (arg # args) \<Rightarrow>
          if str_contains ''Ptr'' template
          then if k_is_ptr_type arg then flatten_inception (Suc depth) arg else if 0 < depth then arg else t
          else t
      | Struct name \<Rightarrow>
          if str_contains ''Ptr'' name
          then case extract_ptr_inner name of
                 Some inner \<Rightarrow> flatten_inception (Suc depth) (Struct inner)
               | None \<Rightarrow> t
          else t
      | _ \<Rightarrow> t)"
  by pat_completeness auto

termination
  by (relation "measure (\<lambda>(depth, _). 11 - depth)") auto

declare flatten_inception.simps [simp del]

definition known_name :: "registries \<Rightarrow> string \<Rightarrow> bool" where
  "known_name r name \<longleftrightarrow> list_ex (\<lambda>(k, _). ends_with name (tk_name k)) (reg_structs r) \<or>
     map_of (enum_templates r) name \<noteq> None"

fun has_unresolved_type_params :: "registries \<Rightarrow> (string \<times> ty) list \<Rightarrow> ty \<Rightarrow> bool" where
  "has_unresolved_type_params r m (Generic _) = True"
| "has_unresolved_type_params r m (Struct name) =
     (map_of m name = Some (Struct name) \<or> \<not> known_name r name \<and> \<not> str_contains ''__'' name)"
| "has_unresolved_type_params r m (Concrete name args) =
     ((args = [] \<and> \<not> known_name r name \<and> \<not> str_contains ''__'' name) \<or>
      (\<exists>a \<in> set args. has_unresolved_type_params r m a))"
| "has_unresolved_type_params r m (Pointer element _ _) = has_unresolved_type_params r m element"
| "has_unresolved_type_params r m (Reference inner _) = has_unresolved_type_params r m inner"
| "has_unresolved_type_params r m (Owned inner) = has_unresolved_type_params r m inner"
| "has_unresolved_type_params r m (Atomic inner) = has_unresolved_type_params r m inner"
| "has_unresolved_type_params r m (Array inner _ _) = has_unresolved_type_params r m inner"
| "has_unresolved_type_params r m (Fn args ret) =
     ((\<exists>a \<in> set args. has_unresolved_type_params r m a) \<or> has_unresolved_type_params r m ret)"
| "has_unresolved_type_params r m (Tuple elems) = (\<exists>e \<in> set elems. has_unresolved_type_params r m e)"
| "has_unresolved_type_params r m _ = False"

section \<open>Names\<close>

definition specialization_suffix :: "ty list \<Rightarrow> ty option \<Rightarrow> string" where
  "specialization_suffix tys self =
     (if tys \<noteq> [] then join_with ''_'' (map mangle_suffix tys)
      else case self of Some (Concrete _ args) \<Rightarrow> join_with ''_'' (map mangle_suffix args) | _ \<Rightarrow> '''')"

definition specialized_name :: "string \<Rightarrow> ty list \<Rightarrow> ty option \<Rightarrow> string" where
  "specialized_name func tys self =
     (let suffix = specialization_suffix tys self
      in if suffix = '''' then func else func @ ''_'' @ suffix)"

text \<open>\<open>str::rsplit_once("__")\<close>.\<close>

fun rsplit_once_dunder :: "string \<Rightarrow> (string \<times> string) option" where
  "rsplit_once_dunder (c # d # cs) =
     (case rsplit_once_dunder (d # cs) of
        Some (base, rest) \<Rightarrow> Some (c # base, rest)
      | None \<Rightarrow> if c = CHR ''_'' \<and> d = CHR ''_'' then Some ([], cs) else None)"
| "rsplit_once_dunder _ = None"

section \<open>Finding the function\<close>

definition find_method_by_name ::
  "registries \<Rightarrow> string \<Rightarrow> string \<Rightarrow> ty \<Rightarrow> (salt_fn \<times> ty option \<times> import_decl list) option" where
  "find_method_by_name r type_name method_name self =
     map_option (\<lambda>(_, f, imports). (f, Some self, imports))
       (find (\<lambda>((receiver, name), _). (type_key_mangle receiver = type_name \<or> tk_name receiver = type_name) \<and>
          name = method_name) (method_index r))"

definition file_functions :: "salt_file \<Rightarrow> salt_fn list" where
  "file_functions file = List.map_filter (\<lambda>i. case i of FnItem f \<Rightarrow> Some f | _ \<Rightarrow> None) (file_items file)"

definition find_function :: "salt_file \<Rightarrow> string \<Rightarrow> salt_fn option" where
  "find_function file name =
     find (\<lambda>f. sf_name f = name) (file_functions file)"

text \<open>The template a registered struct or enum was made from, or the name itself.\<close>

definition struct_template_of :: "registries \<Rightarrow> string \<Rightarrow> string" where
  "struct_template_of r name =
     (case find (\<lambda>(_, i). si_name i = name) (reg_structs r) of
        Some (_, i) \<Rightarrow> (case si_template_name i of Some t \<Rightarrow> t | None \<Rightarrow> name)
      | None \<Rightarrow> name)"

definition enum_template_of :: "registries \<Rightarrow> string \<Rightarrow> string" where
  "enum_template_of r name = (case map_of (reg_enums r) name of Some (Some t) \<Rightarrow> t | _ \<Rightarrow> name)"

definition split_method :: "string \<Rightarrow> string \<times> string" where
  "split_method func = (case rsplit_once_dunder func of Some p \<Rightarrow> p | None \<Rightarrow> ('''', func))"

definition method_template :: "registries \<Rightarrow> bool \<Rightarrow> string \<Rightarrow> ty \<Rightarrow> string" where
  "method_template r explicit base self =
     (case self of
        Struct name \<Rightarrow> struct_template_of r name
      | Enum name \<Rightarrow> enum_template_of r name
      | Pointer _ _ _ \<Rightarrow> if explicit then ''std__core__ptr__Ptr'' else base
      | _ \<Rightarrow> base)"

definition find_callee ::
  "registries \<Rightarrow> salt_file \<Rightarrow> bool \<Rightarrow> string \<Rightarrow> ty option \<Rightarrow> codegen \<Rightarrow> (salt_fn \<times> ty option \<times> import_decl list) option"
where
  "find_callee r file explicit func self s =
     (case self of
        Some st \<Rightarrow>
          (case split_method func of
             (base, name) \<Rightarrow> find_method_by_name r (method_template r explicit base st) name st)
      | None \<Rightarrow> map_option (\<lambda>f. (f, None, ec_imports (cg_context s))) (find_function file func))"

section \<open>Binding the generics\<close>

fun map_generics :: "(generic_ast \<times> ty) list \<Rightarrow> (string \<times> ty) list \<Rightarrow> (string \<times> ty) list option" where
  "map_generics [] m = Some m"
| "map_generics ((p, t) # ps) m =
     (if is_protected_name (generic_param_name p) then None
      else map_generics ps (AList.update (generic_param_name p) t m))"

definition map_opt_generics ::
  "generic_ast list option \<Rightarrow> ty list \<Rightarrow> (string \<times> ty) list \<Rightarrow> (string \<times> ty) list option" where
  "map_opt_generics generics tys m = (case generics of Some ps \<Rightarrow> map_generics (zip ps tys) m | None \<Rightarrow> Some m)"

text \<open>The generics of a template: those of the struct if there is one, else those of the enum.\<close>

definition template_generics :: "registries \<Rightarrow> string \<Rightarrow> generic_ast list option" where
  "template_generics r name =
     (case map_of (struct_templates r) name of
        Some g \<Rightarrow> g
      | None \<Rightarrow> (case map_of (enum_templates r) name of Some g \<Rightarrow> g | None \<Rightarrow> None))"

definition counted_generics :: "registries \<Rightarrow> string \<Rightarrow> generic_ast list" where
  "counted_generics r name =
     (case map_of (struct_templates r) name of
        Some (Some ps) \<Rightarrow> ps
      | _ \<Rightarrow> (case map_of (enum_templates r) name of Some (Some ps) \<Rightarrow> ps | _ \<Rightarrow> []))"

definition struct_generic_count :: "registries \<Rightarrow> ty option \<Rightarrow> nat" where
  "struct_generic_count r self =
     (case self of
        Some (Struct name) \<Rightarrow> length (counted_generics r name)
      | Some (Concrete name _) \<Rightarrow> length (counted_generics r name)
      | Some (Pointer _ _ _) \<Rightarrow> 1
      | _ \<Rightarrow> 0)"

definition self_template :: "registries \<Rightarrow> ty \<Rightarrow> string \<times> ty list" where
  "self_template r st =
     (case st of
        Struct name \<Rightarrow> (struct_template_of r name, [])
      | Enum name \<Rightarrow> (enum_template_of r name, [])
      | Concrete name args \<Rightarrow> (name, args)
      | _ \<Rightarrow> ('''', []))"

definition bind_struct_generics ::
  "registries \<Rightarrow> salt_fn \<Rightarrow> ty list \<Rightarrow> ty option \<Rightarrow> (string \<times> ty) list \<Rightarrow> (string \<times> ty) list option" where
  "bind_struct_generics r f tys self m =
     (case self of
        Some st \<Rightarrow>
          (case self_template r st of
             (name, args) \<Rightarrow>
               if name = '''' then Some m
               else map_opt_generics (template_generics r name) (if args = [] then tys else args) m)
      | None \<Rightarrow> if tys = [] then Some m else map_opt_generics (sf_generics f) tys m)"

definition bind_method_generics ::
  "registries \<Rightarrow> salt_fn \<Rightarrow> ty list \<Rightarrow> ty option \<Rightarrow> (string \<times> ty) list \<Rightarrow> (string \<times> ty) list option" where
  "bind_method_generics r f tys self m =
     (case sf_generics f of
        Some ps \<Rightarrow>
          (let n = struct_generic_count r self
           in if drop n tys = [] then Some m else map_generics (zip (drop n ps) (drop n tys)) m)
      | None \<Rightarrow> Some m)"

definition make_task ::
  "string \<Rightarrow> string \<Rightarrow> ty list \<Rightarrow> salt_fn \<times> ty option \<times> import_decl list \<Rightarrow> (string \<times> ty) list \<Rightarrow> mono_task" where
  "make_task func mangled tys callee m =
     (case callee of
        (f, self, imports) \<Rightarrow>
          \<lparr>task_identity = \<lparr>tk_path = butlast (split_dunder [] func), tk_name = sf_name f, tk_spec = None\<rparr>,
           task_name = mangled, task_fn = f, task_tys = tys, task_self = self, task_imports = imports,
           task_map = m\<rparr>)"

definition queue_task :: "mono_task \<Rightarrow> codegen \<Rightarrow> codegen" where
  "queue_task t s = s\<lparr>pending_generations := pending_generations s @ [t]\<rparr>"

definition remember :: "string \<Rightarrow> ty list \<Rightarrow> string \<Rightarrow> codegen \<Rightarrow> codegen" where
  "remember func tys mangled s = s\<lparr>specializations := (specializations s)((func, tys) \<mapsto> mangled)\<rparr>"

section \<open>The requests\<close>

definition request_specialization ::
  "registries \<Rightarrow> salt_file \<Rightarrow> string \<Rightarrow> ty list \<Rightarrow> ty option \<Rightarrow> codegen \<Rightarrow> (string \<times> codegen) option" where
  "request_specialization r file func tys self s =
     (let self = map_option strip_references self;
          tys = map (flatten_inception 0) tys;
          m = ec_map (cg_context s)
      in if list_ex (has_unresolved_type_params r m) tys \<or>
            (case self of Some st \<Rightarrow> has_unresolved_type_params r m st | None \<Rightarrow> False)
         then Some (func, s)
         else case specializations s (func, tys) of
                Some existing \<Rightarrow> Some (existing, s)
              | None \<Rightarrow>
                  (let mangled = specialized_name func tys self;
                       s = remember func tys mangled s
                   in case find_callee r file False func self s of
                        None \<Rightarrow> Some (mangled, s)
                      | Some callee \<Rightarrow>
                          map_option (\<lambda>m. (mangled, queue_task (make_task func mangled tys callee m) s))
                            (Option.bind (bind_struct_generics r (fst callee) tys (fst (snd callee)) m)
                               (bind_method_generics r (fst callee) tys self))))"

text \<open>
  The explicit request names the specialization itself. A remembered name is queued again if it is
  neither defined nor in the queue. The generics of the receiver are bound without the check of their
  names, position by position.
\<close>

definition explicit_template :: "registries \<Rightarrow> ty \<Rightarrow> string" where
  "explicit_template r st =
     (case st of
        Struct name \<Rightarrow> struct_template_of r name
      | Enum name \<Rightarrow> enum_template_of r name
      | Concrete name _ \<Rightarrow> name
      | Pointer _ _ _ \<Rightarrow> ''std__core__ptr__Ptr''
      | _ \<Rightarrow> '''')"

definition explicit_args :: "ty \<Rightarrow> ty list \<Rightarrow> ty list" where
  "explicit_args st tys =
     (case st of Concrete _ args \<Rightarrow> args | Pointer element _ _ \<Rightarrow> [element] | _ \<Rightarrow> tys)"

definition bind_receiver :: "registries \<Rightarrow> ty list \<Rightarrow> ty option \<Rightarrow> (string \<times> ty) list \<Rightarrow> (string \<times> ty) list" where
  "bind_receiver r tys self m =
     (case self of
        Some st \<Rightarrow>
          if explicit_template r st = '''' then m
          else (case template_generics r (explicit_template r st) of
                  Some ps \<Rightarrow> fold (\<lambda>(p, t). AList.update (generic_param_name p) t) (zip ps (explicit_args st tys)) m
                | None \<Rightarrow> m)
      | None \<Rightarrow> m)"

definition receiver_generics :: "registries \<Rightarrow> ty option \<Rightarrow> string list" where
  "receiver_generics r self =
     (let names = (\<lambda>name. case template_generics r name of
            Some ps \<Rightarrow> remdups (map generic_param_name ps)
          | None \<Rightarrow> [])
      in case self of Some (Struct name) \<Rightarrow> names name | Some (Concrete name _) \<Rightarrow> names name | _ \<Rightarrow> [])"

definition bind_method_only ::
  "registries \<Rightarrow> salt_fn \<Rightarrow> ty list \<Rightarrow> ty option \<Rightarrow> (string \<times> ty) list \<Rightarrow> (string \<times> ty) list option" where
  "bind_method_only r f tys self m =
     (case sf_generics f of
        Some ps \<Rightarrow>
          (let names = receiver_generics r self; args = drop (length names) tys
           in if args = [] then Some m
              else map_generics (zip (filter (\<lambda>p. generic_param_name p \<notin> set names) ps) args) m)
      | None \<Rightarrow> Some m)"

definition request_explicit_specialization ::
  "registries \<Rightarrow> salt_file \<Rightarrow> string \<Rightarrow> string \<Rightarrow> ty list \<Rightarrow> ty option \<Rightarrow> codegen \<Rightarrow> (string \<times> codegen) option" where
  "request_explicit_specialization r file func mangled tys self s =
     (let self = map_option strip_references self;
          reused = (case specializations s (func, tys) of
              Some existing \<Rightarrow>
                if existing \<in> defined_functions s \<or> list_ex (\<lambda>t. task_name t = existing) (pending_generations s)
                then Some existing else None
            | None \<Rightarrow> None)
      in case reused of
           Some existing \<Rightarrow> Some (existing, s)
         | None \<Rightarrow>
             (let s = remember func tys mangled s
              in case find_callee r file True func self s of
                   None \<Rightarrow> Some (mangled, s)
                 | Some callee \<Rightarrow>
                     map_option (\<lambda>m. (mangled, queue_task (make_task func mangled tys callee m) s))
                       (bind_method_only r (fst callee) tys self
                          (bind_receiver r tys (fst (snd callee)) (ec_map (cg_context s))))))"

section \<open>What a request binds\<close>

lemma map_generics_bound:
  assumes "distinct (map (generic_param_name \<circ> fst) ps)" "\<forall>p \<in> set ps. \<not> is_protected_name (generic_param_name (fst p))"
  shows "\<exists>m'. map_generics ps m = Some m' \<and>
    map_of m' = map_of m ++ map_of (map (\<lambda>(p, t). (generic_param_name p, t)) ps)"
  using assms
proof (induction ps arbitrary: m)
  case (Cons q ps)
  obtain p t where q: "q = (p, t)" by (cases q)
  have "generic_param_name p \<notin> dom (map_of (map (\<lambda>(p, t). (generic_param_name p, t)) ps))"
    using Cons.prems(1) by (auto simp: q dom_map_of_conv_image_fst split_beta image_image)
  then have "(map_of m)(generic_param_name p \<mapsto> t) ++ map_of (map (\<lambda>(p, t). (generic_param_name p, t)) ps) =
      map_of m ++ map_of (map (\<lambda>(p, t). (generic_param_name p, t)) (q # ps))"
    by (simp add: q map_add_upd_left)
  moreover obtain m' where "map_generics ps (AList.update (generic_param_name p) t m) = Some m'"
    "map_of m' = (map_of m)(generic_param_name p \<mapsto> t) ++ map_of (map (\<lambda>(p, t). (generic_param_name p, t)) ps)"
    using Cons.IH [of "AList.update (generic_param_name p) t m"] Cons.prems by (auto simp: q simp del: fun_upd_apply)
  ultimately show ?case using Cons.prems(2) by (simp add: q del: fun_upd_apply)
qed simp

lemma zip_names: "map (\<lambda>(p, t). (generic_param_name p, t)) (zip ps tys) = zip (map generic_param_name ps) tys"
  by (simp add: zip_map1)

text \<open>
  Property C30: a request for a generic function of the file, with resolved types for its generics and
  not made before, puts one task in the queue, for that function, under the name made of the function
  and the types; its map binds every generic to the (canonical) type at its position. The same request
  made again returns the same name and queues nothing.
\<close>

theorem request_binds_generics:
  assumes f: "find_function src (sf_name f) = Some f" "sf_generics f = Some ps"
    and ps: "distinct (map generic_param_name ps)" "\<forall>p \<in> set ps. \<not> is_protected_name (generic_param_name p)"
      "length tys = length ps" "ps \<noteq> []"
    and resolved: "\<forall>t \<in> set tys. \<not> has_unresolved_type_params r (ec_map (cg_context s)) (flatten_inception 0 t)"
    and fresh: "specializations s (sf_name f, map (flatten_inception 0) tys) = None"
  shows "\<exists>s' t. request_specialization r src (sf_name f) tys None s =
      Some (specialized_name (sf_name f) (map (flatten_inception 0) tys) None, s') \<and>
    pending_generations s' = pending_generations s @ [t] \<and> task_fn t = f \<and>
    task_name t = specialized_name (sf_name f) (map (flatten_inception 0) tys) None \<and>
    (\<forall>i < length ps. map_of (task_map t) (generic_param_name (ps ! i)) = Some (flatten_inception 0 (tys ! i))) \<and>
    request_specialization r src (sf_name f) tys None s' = Some (task_name t, s')"
proof -
  let ?tys = "map (flatten_inception 0) tys" and ?m = "ec_map (cg_context s)"
  have ps': "distinct (map (generic_param_name \<circ> fst) (zip ps ?tys))"
    "\<forall>p \<in> set (zip ps ?tys). \<not> is_protected_name (generic_param_name (fst p))"
    using ps by (auto simp flip: map_map dest: set_zip_leftD)
  obtain m1 where m1: "map_generics (zip ps ?tys) ?m = Some m1"
    using map_generics_bound [OF ps'] by blast
  obtain m2 where m2: "map_generics (zip ps ?tys) m1 = Some m2"
    "map_of m2 = map_of m1 ++ map_of (zip (map generic_param_name ps) ?tys)"
    using map_generics_bound [OF ps', of m1] by (auto simp: zip_names)
  have bound: "map_of m2 (generic_param_name (ps ! i)) = Some (flatten_inception 0 (tys ! i))" if "i < length ps" for i
  proof -
    have "map_of (zip (map generic_param_name ps) ?tys) (map generic_param_name ps ! i) = Some (?tys ! i)"
      using that ps(1,3) by (intro map_of_zip_nth) simp_all
    then show ?thesis using that ps(3) by (simp add: m2(2) map_add_Some_iff)
  qed
  have ok: "\<not> list_ex (has_unresolved_type_params r ?m) ?tys" using resolved by (auto simp: list_ex_iff)
  have tys: "tys \<noteq> []" using ps(3,4) by auto
  show ?thesis
    using ok fresh f bound m1 m2(1) tys
    by (simp add: request_specialization_def Let_def find_callee_def bind_struct_generics_def map_opt_generics_def
        bind_method_generics_def struct_generic_count_def make_task_def queue_task_def remember_def)
qed

section \<open>Where requests go wrong\<close>

definition empty_codegen :: codegen where
  "empty_codegen = \<lparr>cg_context = \<lparr>ec_map = [], ec_args = [], ec_self = None, ec_imports = [], ec_ret = None,
     ec_ensures = [], ec_package = None\<rparr>, defined_functions = {}, external_decls = {}, pending_func_decls = [],
     identity_map = {}, pending_generations = [], specializations = Map.empty, definitions_buffer = []\<rparr>"

definition identity_fn :: salt_fn where
  "identity_fn = \<lparr>sf_attributes = [], sf_pub = False, sf_name = ''keep'', sf_generics = Some [GenTypeParam ''T'' None],
     sf_args = [], sf_ret = None, sf_body = []\<rparr>"

definition struct_named :: "string \<Rightarrow> type_key \<times> struct_info" where
  "struct_named n = (\<lparr>tk_path = [], tk_name = n, tk_spec = None\<rparr>,
     \<lparr>si_name = n, si_fields = Map.empty, si_field_order = [], si_field_alignments = [], si_template_name = None,
      si_specialization_args = []\<rparr>)"

definition demo_types :: "string list \<Rightarrow> (string \<times> generic_ast list option) list \<Rightarrow> registries" where
  "demo_types structs templates = \<lparr>reg_structs = map struct_named structs, reg_enums = [], struct_templates = templates,
     enum_templates = [], method_index =
       [((\<lparr>tk_path = [], tk_name = ''Vec'', tk_spec = None\<rparr>, ''len''), identity_fn\<lparr>sf_name := ''len'', sf_generics := None\<rparr>, [])],
     generic_impls = []\<rparr>"

definition keep_file :: "string list option \<Rightarrow> salt_file" where
  "keep_file pkg = \<lparr>file_package = pkg, file_imports = [], file_items = [FnItem identity_fn]\<rparr>"

lemmas request_eval = request_specialization_def Let_def find_callee_def bind_struct_generics_def map_opt_generics_def
  bind_method_generics_def struct_generic_count_def make_task_def queue_task_def remember_def flatten_inception.simps
  extract_ptr_inner_def specialized_name_def specialization_suffix_def find_function_def file_functions_def
  keep_file_def identity_fn_def known_name_def demo_types_def struct_named_def empty_codegen_def map_filter_simps
  ends_with_def is_protected_name_def generic_param_name_def find_method_by_name_def split_method_def method_template_def
  self_template_def template_generics_def counted_generics_def type_key_mangle_def mangle_def k_is_ptr_type_def

theorem request_binds_generics_witness:
  "\<exists>s t. request_specialization (demo_types [''Point''] []) (keep_file None) ''keep'' [Struct ''Point''] None empty_codegen =
      Some (''keep_Point'', s) \<and> pending_generations s = [t] \<and> map_of (task_map t) ''T'' = Some (Struct ''Point'')"
  using request_binds_generics [of "keep_file None" identity_fn "[GenTypeParam ''T'' None]" "[Struct ''Point'']"
      "demo_types [''Point''] []" empty_codegen]
  by (simp add: request_eval)

text \<open>
  A struct is taken for a pointer when its name contains \<open>Ptr\<close>, and stripped to the rest of
  its name: the call of \<open>keep\<close> with a \<open>PtrTable\<close> is specialized for
  \<open>Table\<close>, which is no type, and a \<open>PtrPoint\<close> is taken for a
  \<open>Point\<close>.
\<close>

lemma struct_name_taken_for_pointer:
  "\<exists>s t. request_specialization (demo_types [''PtrTable''] []) (keep_file None) ''keep'' [Struct ''PtrTable''] None empty_codegen =
     Some (''keep_Table'', s) \<and> pending_generations s = [t] \<and> map_of (task_map t) ''T'' = Some (Struct ''Table'')"
  "map_option fst (request_specialization (demo_types [''PtrPoint'', ''Point''] []) (keep_file None) ''keep''
     [Struct ''PtrPoint''] None empty_codegen) = Some ''keep_Point''"
  by (simp_all add: request_eval)

text \<open>
  The table of requests is keyed by the function and its types but not by the receiver, although the
  name depends on the receiver when there are no types: after \<open>Vec<i64>\<close>, the request for
  the method of \<open>Vec<u8>\<close> returns the one of \<open>Vec<i64>\<close> and queues nothing.
\<close>

lemma receiver_not_in_key:
  "\<exists>s. request_specialization (demo_types [] []) (keep_file None) ''Vec__len'' [] (Some (Concrete ''Vec'' [I64])) empty_codegen =
      Some (''Vec__len_i64'', s) \<and>
    request_specialization (demo_types [] []) (keep_file None) ''Vec__len'' [] (Some (Concrete ''Vec'' [U8])) s =
      Some (''Vec__len_i64'', s)"
  by (simp add: request_eval)

text \<open>
  A function is looked up by its bare name, so a request by its symbol finds it only in a file without
  a package. The request is remembered all the same, and the name returned is never emitted.
\<close>

lemma packaged_function_not_found:
  "\<exists>s. request_specialization (demo_types [] []) (keep_file (Some [''app''])) ''app__keep'' [I64] None empty_codegen =
      Some (''app__keep_i64'', s) \<and> pending_generations s = [] \<and>
    specializations s (''app__keep'', [I64]) = Some ''app__keep_i64''"
  by (simp add: request_eval)

end
