(* ===== verification/Demand.thy ===== *)
theory Demand
  imports Specialize
begin

text \<open>
  The driver of code generation (\<open>drive_codegen\<close> in \<open>codegen/mod.rs\<close>,
  \<open>require_local_function\<close> and \<open>hydrate_specialization\<close> in
  \<open>codegen/context.rs\<close>): it emits the entry points, and then the functions whose emission
  was asked for while others were emitted, until the queue is empty. What the emission of one function
  asks for, and its text, is the argument \<open>fn_emitter\<close>; the tests that
  \<open>emit_fn\<close> makes before it emits a body are modelled.

  The section "Closure" shows that a run that ends has emitted the seeds and what they ask for, nothing
  else, and everything once; that what it declared and did not emit is declared in the output; and that
  it ends if only finitely many names are asked for.
\<close>

section \<open>Functions of the file\<close>

definition is_no_mangle :: "salt_fn \<Rightarrow> bool" where
  "is_no_mangle f = has_attribute (sf_attributes f) ''no_mangle''"

definition symbol_prefix :: "string list option \<Rightarrow> string" where
  "symbol_prefix pkg = (case pkg of Some p \<Rightarrow> mangle p @ ''__'' | None \<Rightarrow> '''')"

definition local_symbol :: "salt_file \<Rightarrow> salt_fn \<Rightarrow> string" where
  "local_symbol file f = (if is_no_mangle f then sf_name f else symbol_prefix (file_package file) @ sf_name f)"

definition plain_task :: "salt_file \<Rightarrow> salt_fn \<Rightarrow> string \<Rightarrow> mono_task" where
  "plain_task file f mangled =
     \<lparr>task_identity = \<lparr>tk_path = (case file_package file of Some p \<Rightarrow> p | None \<Rightarrow> []), tk_name = sf_name f, tk_spec = None\<rparr>,
      task_name = mangled, task_fn = f, task_tys = [], task_self = None, task_imports = file_imports file, task_map = []\<rparr>"

definition local_task :: "salt_file \<Rightarrow> string \<Rightarrow> mono_task option" where
  "local_task file name =
     map_option (\<lambda>f. plain_task file f name) (find (\<lambda>f. local_symbol file f = name) (file_functions file))"

definition create_main_task :: "salt_file \<Rightarrow> string \<Rightarrow> mono_task option" where
  "create_main_task file name =
     map_option (\<lambda>f. plain_task file f
         (if name = ''main'' \<or> name = ''main_salt'' then name
          else case file_package file of
                 Some (p # ps) \<Rightarrow> if is_no_mangle f then name else mangle (p # ps) @ ''__'' @ name
               | _ \<Rightarrow> name))
       (find (\<lambda>f. sf_name f = name) (file_functions file))"

section \<open>Asking for functions\<close>

definition require_local_function :: "salt_file \<Rightarrow> string \<Rightarrow> codegen \<Rightarrow> bool \<times> codegen" where
  "require_local_function file name s =
     (if name \<in> identity_map s then (True, s)
      else case local_task file name of
             Some t \<Rightarrow> (True, (queue_task t s)\<lparr>identity_map := insert name (identity_map s)\<rparr>)
           | None \<Rightarrow> (False, s))"

definition task_has_generics :: "mono_task \<Rightarrow> bool" where
  "task_has_generics t = list_ex (\<lambda>(_, ty). has_generics ty) (task_map t)"

text \<open>\<open>LoweringContext::hydrate_specialization\<close>, which only queues the task.\<close>

definition queue_specialization :: "mono_task \<Rightarrow> codegen \<Rightarrow> codegen" where
  "queue_specialization t s =
     (if task_has_generics t then s
      else if task_name t \<in> defined_functions s then s
      else if task_name t \<in> identity_map s then s
      else queue_task t (s\<lparr>identity_map := insert (task_name t) (identity_map s)\<rparr>))"

text \<open>
  Methods called without being written (\<open>drop\<close> at the end of a scope, \<open>fmt\<close> in
  a print) are noted in the entity registry and queued whether they were noted before or not.
\<close>

definition registry_request :: "mono_task \<Rightarrow> codegen \<Rightarrow> codegen" where
  "registry_request t s = s\<lparr>identity_map := insert (task_name t) (identity_map s)\<rparr>"

definition method_task :: "string \<Rightarrow> salt_fn \<Rightarrow> import_decl list \<Rightarrow> ty \<Rightarrow> mono_task" where
  "method_task mangled f imports self =
     \<lparr>task_identity = \<lparr>tk_path = [], tk_name = mangled, tk_spec = None\<rparr>, task_name = mangled, task_fn = f,
      task_tys = [], task_self = Some self, task_imports = imports, task_map = []\<rparr>"

definition queue_method :: "registries \<Rightarrow> string \<Rightarrow> ty \<Rightarrow> codegen \<Rightarrow> codegen" where
  "queue_method r mangled self s =
     (case map_of (generic_impls r) mangled of
        Some (f, imports) \<Rightarrow>
          (let t = method_task mangled f imports self in queue_task t (registry_request t s))
      | None \<Rightarrow> s)"

definition ensure_func_declared :: "string \<Rightarrow> string \<Rightarrow> codegen \<Rightarrow> codegen" where
  "ensure_func_declared name decl s =
     (if map_of (pending_func_decls s) name \<noteq> None \<or> name \<in> defined_functions s then s
      else s\<lparr>external_decls := insert name (external_decls s),
             pending_func_decls := AList.update name decl (pending_func_decls s)\<rparr>)"

text \<open>
  Two declarations are written to the definitions at once.
  \<open>CodegenContext::ensure_external_declaration\<close> leaves out what is defined or declared
  anywhere; the tensor product tests \<open>LoweringContext::is_function_defined\<close>, which knows
  the definitions only.
\<close>

definition write_declaration :: "string \<Rightarrow> string \<Rightarrow> codegen \<Rightarrow> codegen" where
  "write_declaration name decl s =
     s\<lparr>definitions_buffer := definitions_buffer s @ decl, external_decls := insert name (external_decls s)\<rparr>"

definition ensure_external_declaration :: "string \<Rightarrow> string \<Rightarrow> codegen \<Rightarrow> codegen" where
  "ensure_external_declaration name decl s =
     (if name \<in> defined_functions s \<or> name \<in> external_decls s then s
      else if starts_with ''llvm.'' name then s
      else write_declaration name decl s)"

definition declare_tensor_op :: "string \<Rightarrow> string \<Rightarrow> codegen \<Rightarrow> codegen" where
  "declare_tensor_op name decl s = (if name \<in> defined_functions s then s else write_declaration name decl s)"

datatype demand =
    Require string
  | Hydrate mono_task
  | Specialize string "ty list" "ty option"
  | SpecializeAs string string "ty list" "ty option"
  | QueueMethod string ty
  | Declare string string
  | DeclareExternal string string
  | DeclareTensor string string
  | SetContext emit_context

fun perform :: "registries \<Rightarrow> salt_file \<Rightarrow> demand \<Rightarrow> codegen \<Rightarrow> codegen option" where
  "perform r file (Require name) s = Some (snd (require_local_function file name s))"
| "perform r file (Hydrate t) s = Some (queue_specialization t s)"
| "perform r file (Specialize func tys self) s = map_option snd (request_specialization r file func tys self s)"
| "perform r file (SpecializeAs func name tys self) s =
     map_option snd (request_explicit_specialization r file func name tys self s)"
| "perform r file (QueueMethod name self) s = Some (queue_method r name self s)"
| "perform r file (Declare name decl) s = Some (ensure_func_declared name decl s)"
| "perform r file (DeclareExternal name decl) s = Some (ensure_external_declaration name decl s)"
| "perform r file (DeclareTensor name decl) s = Some (declare_tensor_op name decl s)"
| "perform r file (SetContext c) s = Some (s\<lparr>cg_context := c\<rparr>)"

fun perform_all :: "registries \<Rightarrow> salt_file \<Rightarrow> demand list \<Rightarrow> codegen \<Rightarrow> codegen option" where
  "perform_all r file [] s = Some s"
| "perform_all r file (d # ds) s = Option.bind (perform r file d s) (perform_all r file ds)"

section \<open>Emitting one function\<close>

text \<open>
  The emitter may read the whole state. \<open>async_fns\<close> are the functions for which a state machine was
  prepared: they are emitted before the tests, and so are shaders.
\<close>

record fn_emitter =
  async_fns :: "string set"
  emit_body :: "codegen \<Rightarrow> salt_fn \<Rightarrow> string \<Rightarrow> demand list \<times> (string, string) result"

definition placeholder_name :: "string \<Rightarrow> bool" where
  "placeholder_name name \<longleftrightarrow>
     ends_with ''_T_E'' name \<or> ends_with ''_T'' name \<or>
     (str_contains ''_T_'' name \<and> \<not> str_contains ''_Tensor_'' name) \<or>
     str_contains ''_Ptr_T'' name \<or> (str_contains ''_E_'' name \<and> str_contains ''Result'' name)"

definition emit_fn :: "fn_emitter \<Rightarrow> salt_fn \<Rightarrow> string \<Rightarrow> codegen \<Rightarrow> demand list \<times> (string, string) result" where
  "emit_fn em f name s =
     (if sf_name f \<in> async_fns em \<or> has_attribute (sf_attributes f) ''shader'' then emit_body em s f name
      else if sf_name f \<in> external_decls s \<and> sf_body f = [] then ([], Inr '''')
      else if placeholder_name name then ([], Inr '''')
      else if (case sf_generics f of Some ps \<Rightarrow> ps \<noteq> [] \<and> ec_map (cg_context s) = [] | None \<Rightarrow> False)
      then ([], Inr '''')
      else emit_body em s f name)"

definition canonical_arg :: "registries \<Rightarrow> ty \<Rightarrow> ty" where
  "canonical_arg r t =
     (case t of
        Struct name \<Rightarrow>
          if str_contains ''__'' name then t
          else (case find (\<lambda>(k, _). ends_with (''__'' @ name) k) (struct_templates r) of
                  Some (canonical, _) \<Rightarrow> Struct canonical
                | None \<Rightarrow> t)
      | _ \<Rightarrow> t)"

definition item_symbol :: "string \<Rightarrow> item_ast \<Rightarrow> (string \<times> string) option" where
  "item_symbol prefix i =
     (case i of
        StructItem d \<Rightarrow> Some (sa_name d, prefix @ sa_name d)
      | EnumItem d \<Rightarrow> Some (ea_name d, prefix @ ea_name d)
      | FnItem f \<Rightarrow> Some (sf_name f, if is_no_mangle f then sf_name f else prefix @ sf_name f)
      | ExternFnItem d \<Rightarrow> Some (xa_name d, xa_name d)
      | GlobalItem name _ \<Rightarrow> Some (name, prefix @ name)
      | ConstItem name _ \<Rightarrow> Some (name, prefix @ name)
      | _ \<Rightarrow> None)"

definition self_imports :: "salt_file \<Rightarrow> string list option \<Rightarrow> import_decl list" where
  "self_imports file pkg =
     (if symbol_prefix pkg = '''' then []
      else map (\<lambda>(name, mangled). \<lparr>imp_name = [mangled], imp_alias = Some name, imp_group = None\<rparr>)
             (List.map_filter (item_symbol (symbol_prefix pkg)) (file_items file)))"

definition task_package :: "mono_task \<Rightarrow> string list option" where
  "task_package t = (let path = tk_path (task_identity t) in if path = [] then None else Some path)"

definition load_context :: "registries \<Rightarrow> salt_file \<Rightarrow> mono_task \<Rightarrow> emit_context \<Rightarrow> emit_context" where
  "load_context r file t c =
     c\<lparr>ec_map := map (\<lambda>(k, ty). (k, canonical_arg r ty)) (task_map t),
       ec_args := task_tys t, ec_self := task_self t,
       ec_imports := task_imports t @ self_imports file (task_package t),
       ec_package := task_package t\<rparr>"

definition extern_guard :: "registries \<Rightarrow> string \<Rightarrow> codegen \<Rightarrow> bool" where
  "extern_guard r name s \<longleftrightarrow> name \<in> external_decls s \<and>
     (case map_of (generic_impls r) name of Some (wrapper, _) \<Rightarrow> sf_body wrapper = [] | None \<Rightarrow> False)"

datatype drive_outcome = Done codegen | Failed string | Panicked

definition enter_task :: "registries \<Rightarrow> salt_file \<Rightarrow> mono_task \<Rightarrow> codegen \<Rightarrow> codegen" where
  "enter_task r file t s =
     s\<lparr>defined_functions := insert (task_name t) (defined_functions s),
       cg_context := load_context r file t (cg_context s)\<rparr>"

text \<open>\<open>CodegenContext::hydrate_specialization\<close>, which emits the task.\<close>

definition hydrate_specialization ::
  "registries \<Rightarrow> salt_file \<Rightarrow> fn_emitter \<Rightarrow> mono_task \<Rightarrow> codegen \<Rightarrow> drive_outcome" where
  "hydrate_specialization r file em t s =
     (if task_has_generics t \<or> task_name t \<in> defined_functions s \<or> extern_guard r (task_name t) s then Done s
      else let s1 = enter_task r file t s
           in case emit_fn em (task_fn t) (task_name t) s1 of
                (ds, res) \<Rightarrow>
                  (case perform_all r file ds s1 of
                     None \<Rightarrow> Panicked
                   | Some s2 \<Rightarrow>
                       (case res of
                          Inr code \<Rightarrow> Done (s2\<lparr>cg_context := cg_context s, definitions_buffer := definitions_buffer s2 @ code\<rparr>)
                        | Inl e \<Rightarrow> Failed e)))"

section \<open>The driver\<close>

partial_function (option) drive_loop ::
  "registries \<Rightarrow> salt_file \<Rightarrow> fn_emitter \<Rightarrow> codegen \<Rightarrow> drive_outcome option" where
  "drive_loop r file em s =
     (case pending_generations s of
        [] \<Rightarrow> Some (Done s)
      | t # ts \<Rightarrow>
          (case hydrate_specialization r file em t (s\<lparr>pending_generations := ts\<rparr>) of
             Done s' \<Rightarrow> drive_loop r file em s'
           | Failed e \<Rightarrow> Some (Failed e)
           | Panicked \<Rightarrow> Some Panicked))"

fun hydrate_all :: "registries \<Rightarrow> salt_file \<Rightarrow> fn_emitter \<Rightarrow> mono_task list \<Rightarrow> codegen \<Rightarrow> drive_outcome" where
  "hydrate_all r file em [] s = Done s"
| "hydrate_all r file em (t # ts) s =
     (case hydrate_specialization r file em t s of
        Done s' \<Rightarrow> hydrate_all r file em ts s'
      | Failed e \<Rightarrow> Failed e
      | Panicked \<Rightarrow> Panicked)"

definition seed_tasks :: "salt_file \<Rightarrow> bool \<Rightarrow> (string, mono_task list) result" where
  "seed_tasks file lib_mode =
     (if lib_mode
      then Inr (List.map_filter (\<lambda>f. if is_no_mangle f \<or> sf_pub f then create_main_task file (sf_name f) else None)
             (file_functions file))
      else case List.map_filter (create_main_task file) [''main'', ''main_salt'', ''kmain''] of
             t # _ \<Rightarrow> Inr [t]
           | [] \<Rightarrow> Inl ''Entry point 'main', 'main_salt', or 'kmain' not found in root file.'')"

text \<open>A library without a function to seed from returns an empty module and drains nothing.\<close>

definition drive_codegen :: "registries \<Rightarrow> salt_file \<Rightarrow> fn_emitter \<Rightarrow> bool \<Rightarrow> codegen \<Rightarrow> drive_outcome option" where
  "drive_codegen r file em lib_mode s =
     (case seed_tasks file lib_mode of
        Inl e \<Rightarrow> Some (Failed e)
      | Inr [] \<Rightarrow> Some (Done s)
      | Inr ts \<Rightarrow>
          (case hydrate_all r file em ts s of
             Done s' \<Rightarrow> drive_loop r file em s'
           | Failed e \<Rightarrow> Some (Failed e)
           | Panicked \<Rightarrow> Some Panicked))"

text \<open>The forward declarations of the assembled module.\<close>

definition forward_decls :: "codegen \<Rightarrow> (string \<times> string) list" where
  "forward_decls s = filter (\<lambda>(name, _). name \<notin> defined_functions s) (pending_func_decls s)"

section \<open>What the steps keep\<close>

text \<open>A task is covered when nothing is left to do for it.\<close>

definition task_covered :: "registries \<Rightarrow> codegen \<Rightarrow> mono_task \<Rightarrow> bool" where
  "task_covered r s t \<longleftrightarrow> task_has_generics t \<or> task_name t \<in> defined_functions s \<or> extern_guard r (task_name t) s"

text \<open>Every name noted as asked for is defined, provided from outside, or has a task in \<open>T\<close>.\<close>

definition noted_ok :: "registries \<Rightarrow> mono_task set \<Rightarrow> codegen \<Rightarrow> bool" where
  "noted_ok r T s \<longleftrightarrow>
     (\<forall>n \<in> identity_map s. n \<in> defined_functions s \<or> extern_guard r n s \<or>
        (\<exists>t \<in> T. task_name t = n \<and> \<not> task_has_generics t))"

definition enlarges :: "codegen \<Rightarrow> codegen \<Rightarrow> bool" where
  "enlarges s s' \<longleftrightarrow> defined_functions s \<subseteq> defined_functions s' \<and> identity_map s \<subseteq> identity_map s' \<and>
     external_decls s \<subseteq> external_decls s' \<and>
     dom (map_of (pending_func_decls s)) \<subseteq> dom (map_of (pending_func_decls s'))"

lemma enlarges_refl [simp]: "enlarges s s"
  by (simp add: enlarges_def)

lemma enlarges_trans: "enlarges s s1 \<Longrightarrow> enlarges s1 s2 \<Longrightarrow> enlarges s s2"
  unfolding enlarges_def by (elim conjE, intro conjI) (erule (1) subset_trans)+

lemma guard_enlarges: "extern_guard r n s \<Longrightarrow> enlarges s s' \<Longrightarrow> extern_guard r n s'"
  unfolding extern_guard_def enlarges_def by blast

lemma task_covered_enlarges: "task_covered r s t \<Longrightarrow> enlarges s s' \<Longrightarrow> task_covered r s' t"
  unfolding task_covered_def by (auto intro: guard_enlarges) (auto simp: enlarges_def)

text \<open>What one demand does to the state.\<close>

definition asked :: "codegen \<Rightarrow> codegen \<Rightarrow> mono_task list" where
  "asked s s' = drop (length (pending_generations s)) (pending_generations s')"

definition written :: "codegen \<Rightarrow> codegen \<Rightarrow> string" where
  "written s s' = drop (length (definitions_buffer s)) (definitions_buffer s')"

definition adds :: "registries \<Rightarrow> codegen \<Rightarrow> codegen \<Rightarrow> bool" where
  "adds r s s' \<longleftrightarrow> enlarges s s' \<and> defined_functions s' = defined_functions s \<and>
     definitions_buffer s' = definitions_buffer s @ written s s' \<and>
     pending_generations s' = pending_generations s @ asked s s' \<and>
     (\<forall>n \<in> identity_map s' - identity_map s. \<exists>t \<in> set (asked s s'). task_name t = n \<and> \<not> task_has_generics t)"

lemma adds_trans: "adds r s s1 \<Longrightarrow> adds r s1 s2 \<Longrightarrow> adds r s s2"
proof -
  assume a: "adds r s s1" "adds r s1 s2"
  then have p: "pending_generations s2 = pending_generations s @ asked s s1 @ asked s1 s2"
    unfolding adds_def by (metis append.assoc)
  then have "asked s s2 = asked s s1 @ asked s1 s2" unfolding asked_def [of s s2] by simp
  moreover have w: "definitions_buffer s2 = definitions_buffer s @ written s s1 @ written s1 s2"
    using a unfolding adds_def by (metis append.assoc)
  then have "written s s2 = written s s1 @ written s1 s2" unfolding written_def [of s s2] by simp
  ultimately show ?thesis using a p w unfolding adds_def by (simp add: enlarges_trans [of s s1 s2]) blast
qed

lemma adds_refl [simp]: "adds r s s"
  by (simp add: adds_def asked_def written_def)

lemma adds_queue:
  "adds r s (queue_task t s)"
  "\<not> task_has_generics t \<Longrightarrow> adds r s (queue_task t (s\<lparr>identity_map := insert (task_name t) (identity_map s)\<rparr>))"
  "adds r s (remember func tys n s)" "adds r s (remember func tys n s) \<Longrightarrow> adds r s (queue_task t (remember func tys n s))"
  by (auto simp: adds_def asked_def written_def queue_task_def remember_def enlarges_def)

lemma request_cases:
  assumes "(case reused of Some n \<Rightarrow> Some (n, s) | None \<Rightarrow>
      (case callee of None \<Rightarrow> Some (name, remember func tys name s)
       | Some c \<Rightarrow> map_option (\<lambda>m. (name, queue_task (t c m) (remember func tys name s))) (b c))) = Some (n', s')"
  shows "adds r s s'"
  using assms by (auto simp: adds_queue split: option.splits)

lemma adds_request:
  assumes "request_specialization r file func tys self s = Some (n, s')"
  shows "adds r s s'"
  using assms unfolding request_specialization_def Let_def
  by (simp split: if_splits) (erule request_cases)

lemma adds_explicit:
  assumes "request_explicit_specialization r file func n tys self s = Some (n', s')"
  shows "adds r s s'"
  using assms unfolding request_explicit_specialization_def Let_def by (rule request_cases)

definition raised :: "salt_file \<Rightarrow> codegen \<Rightarrow> demand \<Rightarrow> bool" where
  "raised file s d =
     (case d of
        Require name \<Rightarrow> local_task file name = None \<or> name \<in> identity_map s
      | Hydrate t \<Rightarrow> task_has_generics t \<or> task_name t \<in> defined_functions s \<or> task_name t \<in> identity_map s
      | Declare name _ \<Rightarrow> name \<in> defined_functions s \<or> name \<in> dom (map_of (pending_func_decls s))
      | DeclareExternal name _ \<Rightarrow> name \<in> defined_functions s \<or> name \<in> external_decls s \<or> starts_with ''llvm.'' name
      | DeclareTensor name _ \<Rightarrow> name \<in> defined_functions s \<or> name \<in> external_decls s
      | _ \<Rightarrow> True)"

lemma raised_enlarges: "raised file s d \<Longrightarrow> enlarges s s' \<Longrightarrow> raised file s' d"
  by (cases d) (auto simp: raised_def enlarges_def)

lemma plain_task_no_generics [simp]:
  "\<not> task_has_generics (plain_task file f name)" "task_name (plain_task file f name) = name"
  "\<not> task_has_generics (method_task name f imports self)" "task_name (method_task name f imports self) = name"
  by (simp_all add: task_has_generics_def plain_task_def method_task_def)

lemma adds_queue_plain:
  "task_name t = name \<Longrightarrow> \<not> task_has_generics t \<Longrightarrow>
     adds r s ((queue_task t s)\<lparr>identity_map := insert name (identity_map s)\<rparr>)"
  by (auto simp: adds_def asked_def written_def queue_task_def enlarges_def)

lemma perform_adds:
  assumes "perform r file d s = Some s'"
  shows "adds r s s' \<and> raised file s' d"
proof (cases d)
  case (Require name)
  then show ?thesis using assms
    by (cases "name \<in> identity_map s")
      (auto simp: require_local_function_def raised_def local_task_def intro!: adds_queue_plain split: option.splits)
next
  case (Hydrate t)
  then show ?thesis using assms adds_queue(2) [of t r s]
    by (cases "task_has_generics t \<or> task_name t \<in> defined_functions s \<or> task_name t \<in> identity_map s")
      (auto simp: queue_specialization_def raised_def queue_task_def split: if_splits)
next
  case (Specialize func tys self)
  then show ?thesis using assms by (auto simp: raised_def intro: adds_request)
next
  case (SpecializeAs func name tys self)
  then show ?thesis using assms by (auto simp: raised_def intro: adds_explicit)
next
  case (QueueMethod name self)
  have "adds r s (queue_task t (registry_request t s))" if "\<not> task_has_generics t" for t
    using adds_queue(2) [OF that] by (simp add: registry_request_def)
  then show ?thesis using QueueMethod assms by (auto simp: raised_def queue_method_def Let_def split: option.splits)
next
  case (Declare name decl)
  then show ?thesis using assms
    by (cases "map_of (pending_func_decls s) name \<noteq> None \<or> name \<in> defined_functions s")
      (auto simp: raised_def ensure_func_declared_def adds_def asked_def written_def enlarges_def)
next
  case (DeclareExternal name decl)
  then show ?thesis using assms
    by (auto simp: raised_def ensure_external_declaration_def write_declaration_def adds_def asked_def written_def
        enlarges_def split: if_splits)
next
  case (DeclareTensor name decl)
  then show ?thesis using assms
    by (auto simp: raised_def declare_tensor_op_def write_declaration_def adds_def asked_def written_def enlarges_def
        split: if_splits)
next
  case (SetContext c)
  then show ?thesis using assms by (auto simp: raised_def adds_def asked_def written_def enlarges_def)
qed

lemma perform_all_adds:
  "perform_all r file ds s = Some s' \<Longrightarrow> adds r s s' \<and> (\<forall>d \<in> set ds. raised file s' d)"
proof (induction ds arbitrary: s)
  case (Cons d ds)
  then obtain s1 where s1: "perform r file d s = Some s1" "perform_all r file ds s1 = Some s'"
    by (auto split: bind_splits)
  then have "adds r s s1" "raised file s1 d" "adds r s1 s'" "\<forall>d \<in> set ds. raised file s' d"
    using perform_adds Cons.IH by blast+
  moreover from this(3) have "enlarges s1 s'" by (simp add: adds_def)
  ultimately show ?case using raised_enlarges adds_trans by auto
qed simp

section \<open>Closure\<close>

text \<open>
  The log of a run lists the emitted tasks with the states in which their emission began.
\<close>

type_synonym log_entry = "mono_task \<times> codegen"

definition entry_name :: "log_entry \<Rightarrow> string" where
  "entry_name e = task_name (fst e)"

definition entry_state :: "registries \<Rightarrow> salt_file \<Rightarrow> log_entry \<Rightarrow> codegen" where
  "entry_state r file e = enter_task r file (fst e) (snd e)"

definition demands_of :: "registries \<Rightarrow> salt_file \<Rightarrow> fn_emitter \<Rightarrow> log_entry \<Rightarrow> demand list" where
  "demands_of r file em e = fst (emit_fn em (task_fn (fst e)) (entry_name e) (entry_state r file e))"

text \<open>The text of an entry: what its emission writes to the definitions itself, and then its code.\<close>

definition written_by :: "registries \<Rightarrow> salt_file \<Rightarrow> fn_emitter \<Rightarrow> log_entry \<Rightarrow> string" where
  "written_by r file em e =
     (case perform_all r file (demands_of r file em e) (entry_state r file e) of
        Some s \<Rightarrow> written (entry_state r file e) s
      | None \<Rightarrow> [])"

definition code_of :: "registries \<Rightarrow> salt_file \<Rightarrow> fn_emitter \<Rightarrow> log_entry \<Rightarrow> string" where
  "code_of r file em e =
     (case snd (emit_fn em (task_fn (fst e)) (entry_name e) (entry_state r file e)) of Inr code \<Rightarrow> code | Inl _ \<Rightarrow> [])"

definition text_of :: "registries \<Rightarrow> salt_file \<Rightarrow> fn_emitter \<Rightarrow> log_entry \<Rightarrow> string" where
  "text_of r file em e = written_by r file em e @ code_of r file em e"

text \<open>
  The functions that count as emitted without a body: extern functions, those whose name looks like
  that of a template, and generic ones without types.
\<close>

definition passed_over :: "fn_emitter \<Rightarrow> mono_task \<Rightarrow> codegen \<Rightarrow> bool" where
  "passed_over em t s \<longleftrightarrow>
     sf_name (task_fn t) \<notin> async_fns em \<and> \<not> has_attribute (sf_attributes (task_fn t)) ''shader'' \<and>
     (sf_name (task_fn t) \<in> external_decls s \<and> sf_body (task_fn t) = [] \<or>
      placeholder_name (task_name t) \<or>
      (\<exists>p ps. sf_generics (task_fn t) = Some (p # ps) \<and> ec_map (cg_context s) = []))"

definition body_emitted :: "registries \<Rightarrow> salt_file \<Rightarrow> fn_emitter \<Rightarrow> log_entry \<Rightarrow> bool" where
  "body_emitted r file em e \<longleftrightarrow>
     emit_body em (entry_state r file e) (task_fn (fst e)) (entry_name e) =
       (demands_of r file em e, Inr (code_of r file em e))"

definition asked_by :: "registries \<Rightarrow> salt_file \<Rightarrow> fn_emitter \<Rightarrow> log_entry \<Rightarrow> mono_task list" where
  "asked_by r file em e =
     (case perform_all r file (demands_of r file em e) (entry_state r file e) of
        Some s \<Rightarrow> asked (entry_state r file e) s
      | None \<Rightarrow> [])"

definition all_asked :: "registries \<Rightarrow> salt_file \<Rightarrow> fn_emitter \<Rightarrow> log_entry list \<Rightarrow> mono_task set" where
  "all_asked r file em log = (\<Union>e \<in> set log. set (asked_by r file em e))"

text \<open>Each task was asked for at the start, or while an earlier one was emitted.\<close>

fun justified :: "registries \<Rightarrow> salt_file \<Rightarrow> fn_emitter \<Rightarrow> mono_task set \<Rightarrow> log_entry list \<Rightarrow> bool" where
  "justified r file em T [] = True"
| "justified r file em T (e # log) =
     (fst e \<in> T \<and> justified r file em (T \<union> set (asked_by r file em e)) log)"

lemma justified_append [simp]:
  "justified r file em T (l1 @ l2) \<longleftrightarrow> justified r file em T l1 \<and> justified r file em (T \<union> all_asked r file em l1) l2"
  by (induction l1 arbitrary: T) (auto simp: all_asked_def Un_assoc)

definition handled :: "registries \<Rightarrow> codegen \<Rightarrow> mono_task \<Rightarrow> bool" where
  "handled r s t \<longleftrightarrow> task_covered r s t \<or> t \<in> set (pending_generations s)"

definition partial_log ::
  "registries \<Rightarrow> salt_file \<Rightarrow> fn_emitter \<Rightarrow> mono_task set \<Rightarrow> codegen \<Rightarrow> log_entry list \<Rightarrow> codegen \<Rightarrow> bool" where
  "partial_log r file em T s log s' \<longleftrightarrow>
     distinct (map entry_name log) \<and> entry_name ` set log \<inter> defined_functions s = {} \<and>
     defined_functions s' = defined_functions s \<union> entry_name ` set log \<and>
     definitions_buffer s' = definitions_buffer s @ concat (map (text_of r file em) log) \<and>
     (\<forall>e \<in> set log. if passed_over em (fst e) (entry_state r file e) then text_of r file em e = []
        else body_emitted r file em e) \<and>
     justified r file em T log \<and> enlarges s s' \<and>
     (\<forall>t. handled r s t \<longrightarrow> handled r s' t) \<and> (\<forall>t \<in> all_asked r file em log. handled r s' t) \<and>
     (\<forall>e \<in> set log. \<forall>d \<in> set (demands_of r file em e). raised file s' d)"

lemma partial_log_append:
  assumes l1: "partial_log r file em T s l1 s1"
    and l2: "partial_log r file em (T \<union> all_asked r file em l1) s1 l2 s2"
  shows "partial_log r file em T s (l1 @ l2) s2"
proof -
  have ext: "enlarges s s1" "enlarges s1 s2" using assms by (simp_all add: partial_log_def)
  have asked: "all_asked r file em (l1 @ l2) = all_asked r file em l1 \<union> all_asked r file em l2"
    by (auto simp: all_asked_def)
  have "\<forall>e \<in> set l1. \<forall>d \<in> set (demands_of r file em e). raised file s2 d"
    using l1 raised_enlarges [OF _ ext(2)] by (simp add: partial_log_def)
  moreover have h: "\<And>t. handled r s t \<Longrightarrow> handled r s1 t" "\<And>t. handled r s1 t \<Longrightarrow> handled r s2 t"
    using assms by (simp_all add: partial_log_def)
  moreover have "\<forall>t \<in> all_asked r file em (l1 @ l2). handled r s2 t"
    using l1 l2 h(2) by (auto simp: asked partial_log_def)
  moreover have "distinct (map entry_name (l1 @ l2))" "entry_name ` set (l1 @ l2) \<inter> defined_functions s = {}"
    "defined_functions s2 = defined_functions s \<union> entry_name ` set (l1 @ l2)"
    using l1 l2 by (auto simp: partial_log_def)
  ultimately show ?thesis
    using assms enlarges_trans [OF ext] by (simp add: partial_log_def ball_Un)
qed

lemma emitted_or_passed_over:
  assumes "emit_fn em (task_fn t) (task_name t) s = (ds, res)"
  shows "if passed_over em t s then ds = [] \<and> res = Inr [] else emit_body em s (task_fn t) (task_name t) = (ds, res)"
proof -
  have g: "(\<exists>p ps. sf_generics (task_fn t) = Some (p # ps) \<and> ec_map (cg_context s) = []) \<longleftrightarrow>
      (case sf_generics (task_fn t) of Some ps \<Rightarrow> ps \<noteq> [] \<and> ec_map (cg_context s) = [] | None \<Rightarrow> False)"
    by (auto simp: neq_Nil_conv split: option.split)
  show ?thesis
    using assms unfolding passed_over_def emit_fn_def g by (auto split: if_splits)
qed

text \<open>One call of the emitting \<open>hydrate_specialization\<close>.\<close>

lemma hydrate_step:
  assumes h: "hydrate_specialization r file em t s = Done s1"
    and noted: "noted_ok r (insert t (set (pending_generations s))) s"
    and T: "t \<in> T"
  shows "\<exists>log. partial_log r file em T s log s1 \<and> noted_ok r (set (pending_generations s1)) s1 \<and>
    set (pending_generations s1) \<subseteq> set (pending_generations s) \<union> all_asked r file em log \<and> task_covered r s1 t"
proof (cases "task_has_generics t \<or> task_name t \<in> defined_functions s \<or> extern_guard r (task_name t) s")
  case True
  with h have s1: "s1 = s" by (auto simp: hydrate_specialization_def)
  have "task_covered r s t" using True by (simp add: task_covered_def)
  then have "partial_log r file em T s [] s" using T by (auto simp: partial_log_def all_asked_def)
  moreover have "noted_ok r (set (pending_generations s)) s" using noted True unfolding noted_ok_def by auto
  ultimately show ?thesis using \<open>task_covered r s t\<close> unfolding s1 by (intro exI [of _ "[]"]) (simp add: all_asked_def)
next
  case False
  let ?s = "enter_task r file t s" and ?e = "(t, s)"
  obtain ds res where em: "emit_fn em (task_fn t) (task_name t) ?s = (ds, res)" by fastforce
  from h False em obtain s2 code where s2: "perform_all r file ds ?s = Some s2" "res = Inr code"
    and s1: "s1 = s2\<lparr>cg_context := cg_context s, definitions_buffer := definitions_buffer s2 @ code\<rparr>"
    by (auto simp: hydrate_specialization_def Let_def split: option.splits sum.splits)
  have add: "adds r ?s s2" and raised: "\<forall>d \<in> set ds. raised file s2 d" using perform_all_adds [OF s2(1)] by blast+
  have e: "demands_of r file em ?e = ds" "text_of r file em ?e = written ?s s2 @ code"
    "code_of r file em ?e = code" "entry_name ?e = task_name t"
    "asked_by r file em ?e = asked ?s s2" "entry_state r file ?e = ?s"
    using em s2 by (simp_all add: demands_of_def text_of_def code_of_def written_by_def entry_name_def asked_by_def entry_state_def)
  have p: "pending_generations s1 = pending_generations s @ asked ?s s2"
    using add by (simp add: s1 adds_def enter_task_def)
  have d: "defined_functions s1 = insert (task_name t) (defined_functions s)"
    using add by (simp add: s1 adds_def enter_task_def)
  have ext: "enlarges s s1" using add by (auto simp: s1 adds_def enter_task_def enlarges_def)
  have cov: "task_covered r s1 t" by (simp add: task_covered_def d)
  have "\<forall>d \<in> set ds. raised file s1 d"
    using raised raised_enlarges by (auto simp: s1 enlarges_def)
  moreover have "\<forall>u. handled r s u \<longrightarrow> handled r s1 u" "\<forall>u \<in> set (asked ?s s2). handled r s1 u"
    using task_covered_enlarges [OF _ ext] by (auto simp: handled_def p)
  moreover have "definitions_buffer s1 = definitions_buffer s @ written ?s s2 @ code"
    using add by (simp add: s1 adds_def enter_task_def)
  moreover have "if passed_over em t ?s then text_of r file em ?e = [] else body_emitted r file em ?e"
    using emitted_or_passed_over [OF em] s2 by (auto simp: e body_emitted_def written_def)
  ultimately have log: "partial_log r file em T s [?e] s1"
    using False T d ext by (auto simp: partial_log_def all_asked_def e)
  have "noted_ok r (set (pending_generations s1)) s1"
    unfolding noted_ok_def
  proof
    fix n assume n: "n \<in> identity_map s1"
    show "n \<in> defined_functions s1 \<or> extern_guard r n s1 \<or>
        (\<exists>u \<in> set (pending_generations s1). task_name u = n \<and> \<not> task_has_generics u)"
    proof (cases "n \<in> identity_map s")
      case True
      then show ?thesis using noted guard_enlarges [OF _ ext] unfolding noted_ok_def by (auto simp: d p)
    next
      case False
      then show ?thesis using n add unfolding adds_def by (auto simp: s1 enter_task_def p)
    qed
  qed
  then show ?thesis using log cov by (intro exI [of _ "[?e]"]) (simp add: all_asked_def e p)
qed

lemma all_asked_append: "T \<union> all_asked r file em (l1 @ l2) = T \<union> all_asked r file em l1 \<union> all_asked r file em l2"
  by (auto simp: all_asked_def)

declare drive_loop.simps [code]

lemma drive_loop_log:
  assumes "drive_loop r src em s = Some y" "y = Done s'" "noted_ok r (set (pending_generations s)) s"
    "set (pending_generations s) \<subseteq> T"
  shows "\<exists>log. partial_log r src em T s log s' \<and> noted_ok r {} s' \<and> pending_generations s' = []"
  using assms
proof (induction r src em s y arbitrary: T rule: drive_loop.raw_induct [rotated 1, consumes 1])
  case (1 loop r src em s y)
  show ?case
  proof (cases "pending_generations s")
    case Nil
    then show ?thesis using 1 by (intro exI [of _ "[]"]) (auto simp: partial_log_def all_asked_def)
  next
    case (Cons t ts)
    let ?s = "s\<lparr>pending_generations := ts\<rparr>"
    have "\<exists>s1. hydrate_specialization r src em t ?s = Done s1 \<and> loop r src em s1 = Some (Done s')"
      using 1(2,3) Cons by (auto split: drive_outcome.splits)
    then obtain s1 where s1: "hydrate_specialization r src em t ?s = Done s1" "loop r src em s1 = Some (Done s')"
      by blast
    have same: "task_covered r ?s u = task_covered r s u" "extern_guard r n ?s = extern_guard r n s" for u n
      by (simp_all add: task_covered_def extern_guard_def)
    have "noted_ok r (insert t (set ts)) ?s" using 1(4) Cons by (simp add: noted_ok_def same)
    then obtain l1 where l1: "partial_log r src em T ?s l1 s1" "noted_ok r (set (pending_generations s1)) s1"
      "set (pending_generations s1) \<subseteq> set ts \<union> all_asked r src em l1" "task_covered r s1 t"
      using hydrate_step [OF s1(1), of T] 1(5) Cons by auto
    have "\<exists>l2. partial_log r src em (T \<union> all_asked r src em l1) s1 l2 s' \<and> noted_ok r {} s' \<and> pending_generations s' = []"
      using l1(3) 1(5) Cons by (intro 1(1) [OF s1(2) refl l1(2)]) auto
    moreover have "partial_log r src em T s l1 s1"
      using l1(1,4) Cons by (auto simp: partial_log_def enlarges_def handled_def same)
    ultimately show ?thesis using partial_log_append by blast
  qed
qed

lemma hydrate_all_log:
  assumes "hydrate_all r src em ts s = Done s'" "noted_ok r (set (pending_generations s)) s"
    "set ts \<union> set (pending_generations s) \<subseteq> T"
  shows "\<exists>log. partial_log r src em T s log s' \<and> noted_ok r (set (pending_generations s')) s' \<and>
    set (pending_generations s') \<subseteq> T \<union> all_asked r src em log \<and> (\<forall>t \<in> set ts. handled r s' t)"
  using assms
proof (induction ts arbitrary: s T)
  case Nil
  then show ?case by (intro exI [of _ "[]"]) (auto simp: partial_log_def all_asked_def)
next
  case (Cons t ts)
  then obtain s1 where s1: "hydrate_specialization r src em t s = Done s1" "hydrate_all r src em ts s1 = Done s'"
    by (auto split: drive_outcome.splits)
  have "noted_ok r (insert t (set (pending_generations s))) s" using Cons.prems(2) by (auto simp: noted_ok_def)
  then obtain l1 where l1: "partial_log r src em T s l1 s1" "noted_ok r (set (pending_generations s1)) s1"
    "set (pending_generations s1) \<subseteq> set (pending_generations s) \<union> all_asked r src em l1" "task_covered r s1 t"
    using hydrate_step [OF s1(1), of T] Cons.prems(3) by auto
  obtain l2 where l2: "partial_log r src em (T \<union> all_asked r src em l1) s1 l2 s'"
    "noted_ok r (set (pending_generations s')) s'"
    "set (pending_generations s') \<subseteq> T \<union> all_asked r src em l1 \<union> all_asked r src em l2" "\<forall>u \<in> set ts. handled r s' u"
    using Cons.IH [OF s1(2) l1(2), of "T \<union> all_asked r src em l1"] l1(3) Cons.prems(3) by auto
  have "all_asked r src em (l1 @ l2) = all_asked r src em l1 \<union> all_asked r src em l2" by (auto simp: all_asked_def)
  moreover have "handled r s' t" using l1(4) l2(1) by (simp add: partial_log_def handled_def)
  ultimately show ?case using partial_log_append [OF l1(1) l2(1)] l2(2-4) by (intro exI [of _ "l1 @ l2"]) auto
qed

text \<open>What a finished run has done about a demand.\<close>

definition settled :: "registries \<Rightarrow> salt_file \<Rightarrow> codegen \<Rightarrow> demand \<Rightarrow> bool" where
  "settled r file s d =
     (case d of
        Require name \<Rightarrow> local_task file name = None \<or> name \<in> defined_functions s \<or> extern_guard r name s
      | Hydrate t \<Rightarrow> task_covered r s t
      | Declare name _ \<Rightarrow> name \<in> defined_functions s \<or> name \<in> set (map fst (forward_decls s))
      | DeclareExternal name _ \<Rightarrow> name \<in> defined_functions s \<or> name \<in> external_decls s \<or> starts_with ''llvm.'' name
      | DeclareTensor name _ \<Rightarrow> name \<in> defined_functions s \<or> name \<in> external_decls s
      | _ \<Rightarrow> True)"

lemma raised_settled:
  assumes "raised file s d" "noted_ok r {} s"
  shows "settled r file s d"
  using assms by (cases d) (fastforce simp: raised_def settled_def noted_ok_def task_covered_def forward_decls_def dom_map_of_conv_image_fst)+

definition complete_log ::
  "registries \<Rightarrow> salt_file \<Rightarrow> fn_emitter \<Rightarrow> mono_task list \<Rightarrow> codegen \<Rightarrow> log_entry list \<Rightarrow> codegen \<Rightarrow> bool" where
  "complete_log r file em seeds s log s' \<longleftrightarrow>
     distinct (map entry_name log) \<and> entry_name ` set log \<inter> defined_functions s = {} \<and>
     defined_functions s' = defined_functions s \<union> entry_name ` set log \<and>
     definitions_buffer s' = definitions_buffer s @ concat (map (text_of r file em) log) \<and>
     (\<forall>e \<in> set log. if passed_over em (fst e) (entry_state r file e) then text_of r file em e = []
        else body_emitted r file em e) \<and>
     justified r file em (set seeds \<union> set (pending_generations s)) log \<and>
     (\<forall>t \<in> set seeds \<union> set (pending_generations s) \<union> all_asked r file em log. task_covered r s' t) \<and>
     (\<forall>e \<in> set log. \<forall>d \<in> set (demands_of r file em e). settled r file s' d)"

text \<open>
  Property C7: demand-driven expansion is exact about the functions it enters. When the driver has seeds
  and ends, there is a log of the functions it entered such that each name occurs once; the definitions
  of the module are the texts of the entries in order, where the text of an entry is what its emission
  writes to the definitions itself (the declarations of \<open>ensure_external_declaration\<close> and
  of the tensor products), and then its code; an entry has the code of its body unless it is passed
  over, and then it has no text at all: extern functions without a body, generic functions without
  types, and every function whose name looks like that of a template (such a function is lost,
  \<open>placeholder_function_lost\<close>); every entry is a seed or queued, or was asked for while an
  earlier one was emitted; and nothing asked for is missing: every task asked for has an entry or needs
  none (unresolved generics, extern functions), every local function asked for by name too, and every
  function declared to be called has an entry or keeps its forward declaration. What the emission of a
  body asks for, writes and returns is the parameter \<open>em\<close>; the queue and the identity map
  agree at the start.
\<close>

theorem drive_emits_closure:
  assumes run: "drive_codegen r src em lib_mode s = Some (Done s')"
    and seeds: "seed_tasks src lib_mode = Inr seeds" "seeds \<noteq> []"
    and noted: "noted_ok r (set (pending_generations s)) s"
  shows "\<exists>log. complete_log r src em seeds s log s' \<and> pending_generations s' = []"
proof -
  let ?T = "set seeds \<union> set (pending_generations s)"
  obtain s1 where s1: "hydrate_all r src em seeds s = Done s1" "drive_loop r src em s1 = Some (Done s')"
    using run seeds by (auto simp: drive_codegen_def split: list.splits drive_outcome.splits)
  obtain l1 where l1: "partial_log r src em ?T s l1 s1" "noted_ok r (set (pending_generations s1)) s1"
    "set (pending_generations s1) \<subseteq> ?T \<union> all_asked r src em l1" "\<forall>t \<in> set seeds. handled r s1 t"
    using hydrate_all_log [OF s1(1) noted order_refl] by blast
  obtain l2 where l2: "partial_log r src em (?T \<union> all_asked r src em l1) s1 l2 s'" "noted_ok r {} s'"
    "pending_generations s' = []"
    using drive_loop_log [OF s1(2) refl l1(2,3)] by blast
  note log = partial_log_append [OF l1(1) l2(1)]
  have handled: "handled r s' t = task_covered r s' t" for t using l2(3) by (simp add: handled_def)
  have "\<forall>t \<in> ?T. task_covered r s' t"
    using l1(1,4) l2(1) unfolding handled [symmetric] by (auto simp: partial_log_def) (auto simp: handled_def)
  moreover have "\<forall>e \<in> set (l1 @ l2). \<forall>d \<in> set (demands_of r src em e). settled r src s' d"
    using log raised_settled [OF _ l2(2)] unfolding partial_log_def by blast
  ultimately have "complete_log r src em seeds s (l1 @ l2) s'"
    using log unfolding complete_log_def partial_log_def handled by blast
  with l2(3) show ?thesis by blast
qed

section \<open>Termination\<close>

definition asks_within :: "registries \<Rightarrow> salt_file \<Rightarrow> fn_emitter \<Rightarrow> string set \<Rightarrow> bool" where
  "asks_within r file em U \<longleftrightarrow>
     (\<forall>s f n s'. perform_all r file (fst (emit_fn em f n s)) s = Some s' \<longrightarrow> task_name ` set (asked s s') \<subseteq> U)"

lemma hydrate_progress:
  assumes "hydrate_specialization r src em t s = Done s1" "asks_within r src em U"
  shows "s1 = s \<or> task_name t \<notin> defined_functions s \<and>
    defined_functions s1 = insert (task_name t) (defined_functions s) \<and>
    (task_name ` set (pending_generations s) \<subseteq> U \<longrightarrow> task_name ` set (pending_generations s1) \<subseteq> U)"
proof (cases "task_has_generics t \<or> task_name t \<in> defined_functions s \<or> extern_guard r (task_name t) s")
  case True
  then show ?thesis using assms(1) by (auto simp: hydrate_specialization_def)
next
  case False
  let ?s = "enter_task r src t s"
  obtain ds res where em: "emit_fn em (task_fn t) (task_name t) ?s = (ds, res)" by fastforce
  from assms(1) False em obtain s2 code where s2: "perform_all r src ds ?s = Some s2"
    and s1: "s1 = s2\<lparr>cg_context := cg_context s, definitions_buffer := definitions_buffer s2 @ code\<rparr>"
    by (auto simp: hydrate_specialization_def Let_def split: option.splits sum.splits)
  have "adds r ?s s2" using perform_all_adds [OF s2] by blast
  moreover have "task_name ` set (asked ?s s2) \<subseteq> U"
    using assms(2) s2 em unfolding asks_within_def by (metis fst_conv)
  ultimately show ?thesis using False by (auto simp: adds_def s1 enter_task_def)
qed

lemma hydrate_all_progress:
  assumes "hydrate_all r src em ts s = Done s1" "asks_within r src em U"
    "task_name ` set (pending_generations s) \<subseteq> U"
  shows "task_name ` set (pending_generations s1) \<subseteq> U"
  using assms
proof (induction ts arbitrary: s)
  case (Cons t ts)
  then obtain s2 where s2: "hydrate_specialization r src em t s = Done s2" "hydrate_all r src em ts s2 = Done s1"
    by (auto split: drive_outcome.splits)
  then have "task_name ` set (pending_generations s2) \<subseteq> U"
    using hydrate_progress [OF s2(1) Cons.prems(2)] Cons.prems(3) by blast
  then show ?case using Cons.IH [OF s2(2)] Cons.prems(2) by blast
qed simp

lemma drive_loop_ends:
  assumes U: "finite U" "asks_within r src em U" and names: "task_name ` set (pending_generations s) \<subseteq> U"
  shows "\<exists>result. drive_loop r src em s = Some result"
  using names
proof (induction s rule: wf_induct_rule
    [OF wf_inv_image [OF wf_lex_prod [OF wf_less_than wf_less_than],
        of "\<lambda>s. (card (U - defined_functions s), length (pending_generations s))"]])
  case (1 s)
  show ?case
  proof (cases "pending_generations s")
    case Nil
    then show ?thesis by (subst drive_loop.simps) simp
  next
    case (Cons t ts)
    let ?s = "s\<lparr>pending_generations := ts\<rparr>"
    show ?thesis
    proof (cases "hydrate_specialization r src em t ?s")
      case (Done s1)
      have t: "task_name t \<in> U" using 1(2) Cons by simp
      consider "s1 = ?s" | "task_name t \<notin> defined_functions s"
        "defined_functions s1 = insert (task_name t) (defined_functions s)"
        "task_name ` set (pending_generations s1) \<subseteq> U"
        using hydrate_progress [OF Done U(2)] 1(2) Cons by auto
      then have "\<exists>result. drive_loop r src em s1 = Some result"
      proof cases
        case 1
        then show ?thesis using "1.IH" [of s1] "1.prems" Cons by simp
      next
        case 2
        have "U - defined_functions s1 = (U - defined_functions s) - {task_name t}" using 2(2) by auto
        then have "card (U - defined_functions s1) < card (U - defined_functions s)"
          using U(1) t 2(1) by (metis DiffI card_Diff1_less finite_Diff)
        then show ?thesis using "1.IH" [of s1] 2(3) by simp
      qed
      then show ?thesis using Cons Done by (subst drive_loop.simps) simp
    qed (use Cons in \<open>subst drive_loop.simps, simp\<close>)+
  qed
qed

text \<open>The name of the function a demand may put in the queue.\<close>

definition demand_name :: "demand \<Rightarrow> string option" where
  "demand_name d =
     (case d of
        Require name \<Rightarrow> Some name
      | Hydrate t \<Rightarrow> Some (task_name t)
      | Specialize func tys self \<Rightarrow>
          Some (specialized_name func (map (flatten_inception 0) tys) (map_option strip_references self))
      | SpecializeAs func name tys self \<Rightarrow> Some name
      | QueueMethod name self \<Rightarrow> Some name
      | _ \<Rightarrow> None)"

lemma asked_simps [simp]:
  "asked s s = []" "asked s (queue_task t s1) = asked s s1 @ drop (length (pending_generations s) - length (pending_generations s1)) [t]"
  "asked s (remember func tys n s) = []" "asked s (s\<lparr>identity_map := I\<rparr>) = []" "asked s (s1\<lparr>identity_map := I\<rparr>) = asked s s1"
  by (simp_all add: asked_def queue_task_def remember_def)

lemma remember_pending [simp]: "pending_generations (remember func tys name s) = pending_generations s"
  by (simp add: remember_def)

lemma make_task_name [simp]: "task_name (make_task func name tys c m) = name"
  by (cases c) (simp add: make_task_def)

lemma request_asked:
  assumes "(case reused of Some n \<Rightarrow> Some (n, s) | None \<Rightarrow>
      (case callee of None \<Rightarrow> Some (name, remember func tys name s)
       | Some c \<Rightarrow> map_option (\<lambda>m. (name, queue_task (make_task func name tys c m) (remember func tys name s))) (b c))) =
      Some (n', s')"
  shows "task_name ` set (asked s s') \<subseteq> {name}"
  using assms by (auto split: option.splits)

lemma perform_asked:
  assumes "perform r src d s = Some s'"
  shows "task_name ` set (asked s s') \<subseteq> set_option (demand_name d)"
proof (cases d)
  case (Require name)
  then show ?thesis using assms
    by (cases "name \<in> identity_map s")
      (auto simp: demand_name_def require_local_function_def local_task_def split: option.splits)
next
  case (Hydrate t)
  then show ?thesis using assms
    by (auto simp: demand_name_def queue_specialization_def split: if_splits)
next
  case (Specialize func tys self)
  with assms obtain n where n: "request_specialization r src func tys self s = Some (n, s')" by auto
  from this [unfolded request_specialization_def Let_def]
  have "task_name ` set (asked s s') \<subseteq>
      {specialized_name func (map (flatten_inception 0) tys) (map_option strip_references self)}"
    by (simp split: if_splits) (erule request_asked)
  then show ?thesis by (simp add: demand_name_def Specialize)
next
  case (SpecializeAs func name tys self)
  with assms obtain n where "request_explicit_specialization r src func name tys self s = Some (n, s')" by auto
  from this [unfolded request_explicit_specialization_def Let_def]
  have "task_name ` set (asked s s') \<subseteq> {name}" by (rule request_asked)
  then show ?thesis by (simp add: demand_name_def SpecializeAs)
next
  case (QueueMethod name self)
  then show ?thesis using assms
    by (auto simp: demand_name_def queue_method_def registry_request_def Let_def split: option.splits)
next
  case (Declare name decl)
  then show ?thesis using assms
    by (auto simp: demand_name_def ensure_func_declared_def asked_def)
next
  case (DeclareExternal name decl)
  then show ?thesis using assms
    by (auto simp: demand_name_def ensure_external_declaration_def write_declaration_def asked_def)
next
  case (DeclareTensor name decl)
  then show ?thesis using assms
    by (auto simp: demand_name_def declare_tensor_op_def write_declaration_def asked_def)
next
  case (SetContext c)
  then show ?thesis using assms by (auto simp: asked_def)
qed

lemma perform_all_asked:
  assumes "perform_all r src ds s = Some s'" "\<forall>d \<in> set ds. set_option (demand_name d) \<subseteq> U"
  shows "task_name ` set (asked s s') \<subseteq> U"
  using assms
proof (induction ds arbitrary: s)
  case (Cons d ds)
  then obtain s1 where s1: "perform r src d s = Some s1" "perform_all r src ds s1 = Some s'"
    by (auto split: bind_splits)
  have "adds r s s1" "adds r s1 s'" using perform_adds [OF s1(1)] perform_all_adds [OF s1(2)] by blast+
  then have "asked s s' = asked s s1 @ asked s1 s'" by (simp add: adds_def) (metis append.assoc asked_def append_eq_conv_conj)
  then show ?case using perform_asked [OF s1(1)] Cons.IH [OF s1(2)] Cons.prems(2) by auto
qed simp

lemma asks_withinI:
  assumes "\<And>s f n. \<forall>d \<in> set (fst (emit_body em s f n)). set_option (demand_name d) \<subseteq> U"
  shows "asks_within r src em U"
proof -
  have "\<forall>d \<in> set (fst (emit_fn em f n s)). set_option (demand_name d) \<subseteq> U" for s f n
    using assms [of s f n] by (simp add: emit_fn_def)
  then show ?thesis unfolding asks_within_def by (intro allI impI) (erule perform_all_asked)
qed

text \<open>
  Property C33: expansion ends whenever the emission of functions asks for finitely many names.
\<close>

theorem drive_terminates:
  assumes "finite U" "\<forall>s f n. \<forall>d \<in> set (fst (emit_body em s f n)). set_option (demand_name d) \<subseteq> U"
    and "task_name ` set (pending_generations s) \<subseteq> U"
  shows "\<exists>result. drive_codegen r src em lib_mode s = Some result"
proof -
  have asks: "asks_within r src em U" by (rule asks_withinI) (use assms(2) in blast)
  have "\<exists>result. drive_loop r src em s1 = Some result" if "hydrate_all r src em ts s = Done s1" for ts s1
    using drive_loop_ends [OF assms(1) asks] hydrate_all_progress [OF that asks assms(3)] by blast
  then show ?thesis
    by (auto simp: drive_codegen_def simp del: hydrate_all.simps split: sum.splits list.splits drive_outcome.splits)
qed

section \<open>Examples\<close>

abbreviation expand_fn :: "string \<Rightarrow> stmt_ast list \<Rightarrow> salt_fn" where
  "expand_fn name body \<equiv> \<lparr>sf_attributes = [], sf_pub = False, sf_name = name, sf_generics = None, sf_args = [],
     sf_ret = None, sf_body = body\<rparr>"

definition expand_file :: "salt_fn list \<Rightarrow> salt_file" where
  "expand_file fs = \<lparr>file_package = None, file_imports = [], file_items = map FnItem fs\<rparr>"

definition demo_registries :: "salt_fn list \<Rightarrow> registries" where
  "demo_registries fs = \<lparr>reg_structs = [], reg_enums = [], struct_templates = [], enum_templates = [],
     method_index = [], generic_impls = map (\<lambda>f. (sf_name f, f, [])) fs\<rparr>"

definition demo_start :: codegen where
  "demo_start = \<lparr>cg_context = \<lparr>ec_map = [], ec_args = [], ec_self = None, ec_imports = [], ec_ret = None,
     ec_ensures = [], ec_package = None\<rparr>, defined_functions = {}, external_decls = {}, pending_func_decls = [],
     identity_map = {}, pending_generations = [], specializations = Map.empty, definitions_buffer = []\<rparr>"

text \<open>Every function takes the functions listed for its name as values, and its text is its name.\<close>

definition demo_emitter :: "(string \<Rightarrow> demand list) \<Rightarrow> fn_emitter" where
  "demo_emitter calls = \<lparr>async_fns = {}, emit_body = (\<lambda>_ _ name. (calls name, Inr (name @ '';'')))\<rparr>"

lemmas demand_eval = drive_codegen_def seed_tasks_def file_functions_def expand_file_def create_main_task_def
  plain_task_def hydrate_specialization_def task_has_generics_def extern_guard_def demo_start_def demo_registries_def
  enter_task_def load_context_def self_imports_def task_package_def symbol_prefix_def emit_fn_def demo_emitter_def
  has_attribute_def placeholder_name_def ends_with_def require_local_function_def local_task_def local_symbol_def
  is_no_mangle_def queue_task_def ensure_func_declared_def forward_decls_def map_filter_simps

abbreviation demo_three :: "salt_fn list" where
  "demo_three \<equiv> [expand_fn ''main'' [StBreak], expand_fn ''a'' [StBreak], expand_fn ''b'' [StBreak]]"

definition demo_calls :: "string \<Rightarrow> demand list" where
  "demo_calls name =
     (if name = ''main'' then [Require ''a'', Declare ''puts'' ''decl'', Require ''b'']
      else if name = ''a'' then [Require ''b''] else [Require ''a''])"

lemma expansion_run:
  "\<exists>s. drive_codegen (demo_registries demo_three) (expand_file demo_three) (demo_emitter demo_calls) False demo_start =
      Some (Done s) \<and> definitions_buffer s = ''main;a;b;'' \<and> forward_decls s = [(''puts'', ''decl'')]"
  by (simp add: demand_eval demo_calls_def drive_loop.simps)

theorem drive_emits_closure_witness:
  "\<exists>s seeds log. complete_log (demo_registries demo_three) (expand_file demo_three) (demo_emitter demo_calls) seeds demo_start log s \<and>
     map task_name seeds = [''main''] \<and> definitions_buffer s = ''main;a;b;''"
proof -
  obtain s where s: "drive_codegen (demo_registries demo_three) (expand_file demo_three) (demo_emitter demo_calls) False
      demo_start = Some (Done s)" "definitions_buffer s = ''main;a;b;''"
    using expansion_run by blast
  define seeds where "seeds = [plain_task (expand_file demo_three) (expand_fn ''main'' [StBreak]) ''main'']"
  have seeds: "seed_tasks (expand_file demo_three) False = Inr seeds" by (simp add: demand_eval seeds_def)
  from drive_emits_closure [OF s(1) this]
  obtain log where "complete_log (demo_registries demo_three) (expand_file demo_three) (demo_emitter demo_calls) seeds demo_start log s"
    by (auto simp: seeds_def noted_ok_def demo_start_def)
  then show ?thesis using s(2) by (intro exI [of _ s] exI [of _ seeds] exI [of _ log]) (simp add: seeds_def plain_task_def)
qed

theorem drive_terminates_witness:
  "\<exists>result. drive_codegen (demo_registries demo_three) (expand_file demo_three) (demo_emitter demo_calls) True demo_start = Some result"
  using drive_terminates [of "{''main'', ''a'', ''b''}" "demo_emitter demo_calls" demo_start]
  by (simp add: demo_emitter_def demo_calls_def demo_start_def demand_name_def)

section \<open>What the driver loses\<close>

text \<open>
  A function whose name ends in \<open>_T\<close> is taken for a generic template: its text is empty, it
  counts as defined, and so it loses its forward declaration too.
\<close>

lemma placeholder_function_lost:
  "\<exists>s. drive_codegen (demo_registries [expand_fn ''main'' [StBreak], expand_fn ''reset_T'' [StBreak]])
       (expand_file [expand_fn ''main'' [StBreak], expand_fn ''reset_T'' [StBreak]])
       (demo_emitter (\<lambda>name. [Declare ''reset_T'' ''decl'', Require ''reset_T''])) False demo_start = Some (Done s) \<and>
     definitions_buffer s = ''main;'' \<and> ''reset_T'' \<in> defined_functions s \<and> forward_decls s = []"
  by (simp add: demand_eval drive_loop.simps)

text \<open>
  The tensor product writes its declaration for every product, although it tests whether the
  function is there: that test does not know declarations. And a contract that is checked at the entry
  of a function declares the handler of violations in the definitions, so that a loop invariant
  emitted later declares it a second time, among the forward declarations.
\<close>

lemma tensor_op_declared_twice:
  "''salt_matmul'' \<notin> defined_functions s \<Longrightarrow>
   map_option definitions_buffer (perform_all r file [DeclareTensor ''salt_matmul'' d, DeclareTensor ''salt_matmul'' d] s) =
     Some (definitions_buffer s @ d @ d)"
  by (simp add: declare_tensor_op_def write_declaration_def)

lemma violation_handler_declared_twice:
  assumes "n = ''__salt_contract_violation''" "n \<notin> defined_functions s" "n \<notin> external_decls s"
    "map_of (pending_func_decls s) n = None"
  shows "\<exists>s'. perform_all r file [DeclareExternal n d, Declare n d'] s = Some s' \<and>
    definitions_buffer s' = definitions_buffer s @ d \<and> (n, d') \<in> set (forward_decls s')"
proof -
  have "map_of (AList.update n d' (pending_func_decls s)) n = Some d'" by (simp add: update_conv')
  then have "(n, d') \<in> set (AList.update n d' (pending_func_decls s))" by (rule map_of_SomeD)
  then show ?thesis
    using assms(2-4)
    by (auto simp: assms(1) ensure_external_declaration_def ensure_func_declared_def write_declaration_def forward_decls_def)
qed

text \<open>
  A local function with an empty body that was declared before its definition is taken for an extern
  function: it is never emitted.
\<close>

lemma empty_function_lost:
  "\<exists>s. drive_codegen (demo_registries [expand_fn ''main'' [StBreak], expand_fn ''idle'' []])
       (expand_file [expand_fn ''main'' [StBreak], expand_fn ''idle'' []])
       (demo_emitter (\<lambda>name. [Declare ''idle'' ''decl'', Require ''idle''])) False demo_start = Some (Done s) \<and>
     definitions_buffer s = ''main;'' \<and> forward_decls s = [(''idle'', ''decl'')]"
  by (simp add: demand_eval drive_loop.simps)

text \<open>
  The aliases for the items of a module are made from the root file, with the package of the function
  being emitted: a function of another package sees names that exist in no module.
\<close>

lemma aliases_of_wrong_module:
  "self_imports (expand_file [expand_fn ''main'' []]) (Some [''std'', ''io'']) =
     [\<lparr>imp_name = [''std__io__main''], imp_alias = Some ''main'', imp_group = None\<rparr>]"
  by (simp add: self_imports_def symbol_prefix_def mangle_def expand_file_def item_symbol_def is_no_mangle_def
      has_attribute_def map_filter_simps)

text \<open>
  Nothing bounds the expansion of a function that calls itself at a larger type: the driver never
  returns.
\<close>

definition nested_fn :: salt_fn where
  "nested_fn = (expand_fn ''nest'' [StBreak])\<lparr>sf_generics := Some [GenTypeParam ''T'' None]\<rparr>"

definition nesting_emitter :: fn_emitter where
  "nesting_emitter = \<lparr>async_fns = {},
     emit_body = (\<lambda>s _ name. ([Specialize ''nest'' [Concrete ''Box'' [case map_of (ec_map (cg_context s)) ''T'' of
        Some t \<Rightarrow> t | None \<Rightarrow> I64]] None], Inr name))\<rparr>"

fun boxed :: "nat \<Rightarrow> ty" where
  "boxed 0 = I64"
| "boxed (Suc n) = Concrete ''Box'' [boxed n]"

lemma nested_fn_simps [simp]:
  "sf_attributes nested_fn = []" "sf_name nested_fn = ''nest''" "sf_body nested_fn = [StBreak]"
  "sf_generics nested_fn = Some [GenTypeParam ''T'' None]"
  by (simp_all add: nested_fn_def)

abbreviation nested_file :: salt_file where
  "nested_file \<equiv> expand_file [expand_fn ''main'' [StBreak], nested_fn]"

definition nest_name :: "nat \<Rightarrow> string" where
  "nest_name n = ''nest_'' @ mangle_suffix (boxed n)"

definition nesting :: "nat \<Rightarrow> codegen \<Rightarrow> bool" where
  "nesting n s \<longleftrightarrow>
     (\<exists>t. pending_generations s = [t] \<and> task_fn t = nested_fn \<and> task_map t = [(''T'', boxed n)] \<and>
        task_name t = nest_name n) \<and>
     external_decls s = {} \<and> (\<forall>m \<ge> n. nest_name m \<notin> defined_functions s) \<and>
     (\<forall>m > n. specializations s (''nest'', [boxed m]) = None)"

lemma boxed_simps [simp]:
  "flatten_inception 0 (boxed n) = boxed n" "has_unresolved_type_params r m (boxed n) = False"
  "has_generics (boxed n) = False" "canonical_arg r (boxed n) = boxed n"
proof -
  show "flatten_inception 0 (boxed n) = boxed n" by (cases n) (simp_all add: flatten_inception.simps)
  show "has_unresolved_type_params r m (boxed n) = False" by (induction n) simp_all
  show "has_generics (boxed n) = False" by (induction n) simp_all
  show "canonical_arg r (boxed n) = boxed n" by (cases n) (simp_all add: canonical_arg_def)
qed

lemma nest_name_length: "length (mangle_suffix (boxed n)) = 3 + 4 * n"
  by (induction n) simp_all

lemma nest_name_inj [simp]: "nest_name n = nest_name m \<longleftrightarrow> n = m"
proof
  assume "nest_name n = nest_name m"
  then have "length (mangle_suffix (boxed n)) = length (mangle_suffix (boxed m))" by (simp add: nest_name_def)
  then show "n = m" by (simp add: nest_name_length)
qed simp

lemma boxed_inj [simp]: "boxed n = boxed m \<longleftrightarrow> n = m"
  using nest_name_inj [of n m] unfolding nest_name_def by metis

lemma nest_name_real: "\<not> placeholder_name (nest_name n)"
proof -
  have "set (mangle_suffix (boxed n)) \<subseteq> set ''Box_i64''" for n by (induction n) auto
  then have "set (nest_name n) \<subseteq> set ''nest_Box_i64''" unfolding nest_name_def by force
  then have no: "CHR ''T'' \<notin> set (nest_name n)" "CHR ''R'' \<notin> set (nest_name n)" by auto
  have "\<not> str_contains p (nest_name n)" "\<not> ends_with p (nest_name n)" if "CHR ''T'' \<in> set p \<or> CHR ''R'' \<in> set p" for p
    using that no unfolding str_contains_iff ends_with_iff by (metis Un_iff set_append)+
  then show ?thesis by (simp add: placeholder_name_def)
qed

lemma nesting_step:
  assumes "nesting n s" "pending_generations s = t # ts"
  shows "ts = [] \<and> (\<exists>s'. nesting (Suc n) s' \<and>
    hydrate_specialization (demo_registries fs) nested_file nesting_emitter t (s\<lparr>pending_generations := []\<rparr>) = Done s')"
proof -
  have t: "ts = []" "task_fn t = nested_fn" "task_map t = [(''T'', boxed n)]" "task_name t = nest_name n"
    using assms by (auto simp: nesting_def)
  let ?s = "enter_task (demo_registries fs) nested_file t (s\<lparr>pending_generations := []\<rparr>)"
  have map: "ec_map (cg_context ?s) = [(''T'', boxed n)]" by (simp add: enter_task_def load_context_def t)
  have s: "external_decls s = {}" "nest_name n \<notin> defined_functions s"
    "specializations s (''nest'', [boxed (Suc n)]) = None"
    using assms by (simp_all add: nesting_def del: boxed.simps)
  have em: "emit_fn nesting_emitter nested_fn (nest_name n) ?s =
      ([Specialize ''nest'' [boxed (Suc n)] None], Inr (nest_name n))"
    using nest_name_real map by (simp add: emit_fn_def nesting_emitter_def has_attribute_def s enter_task_def)
  have f: "find_function nested_file ''nest'' = Some nested_fn"
    by (simp add: find_function_def file_functions_def expand_file_def map_filter_simps)
  define u where "u = make_task ''nest'' (nest_name (Suc n)) [boxed (Suc n)] (nested_fn, None, ec_imports (cg_context ?s))
      [(''T'', boxed (Suc n))]"
  have name: "specialized_name ''nest'' [boxed (Suc n)] None = nest_name (Suc n)"
    by (simp add: specialized_name_def specialization_suffix_def nest_name_def)
  have ask: "request_specialization (demo_registries fs) nested_file ''nest'' [boxed (Suc n)] None ?s =
      Some (nest_name (Suc n), queue_task u (remember ''nest'' [boxed (Suc n)] (nest_name (Suc n)) ?s))"
    using s(3) name f map
    by (simp add: request_specialization_def Let_def find_callee_def u_def bind_struct_generics_def bind_method_generics_def
        map_opt_generics_def struct_generic_count_def generic_param_name_def is_protected_name_def remember_def
        enter_task_def del: boxed.simps)
  let ?s' = "(queue_task u (remember ''nest'' [boxed (Suc n)] (nest_name (Suc n)) ?s))
      \<lparr>cg_context := cg_context s, definitions_buffer := definitions_buffer s @ nest_name n\<rparr>"
  have "hydrate_specialization (demo_registries fs) nested_file nesting_emitter t (s\<lparr>pending_generations := []\<rparr>) = Done ?s'"
    using em ask s(1,2) by (simp add: hydrate_specialization_def t task_has_generics_def extern_guard_def
        queue_task_def remember_def enter_task_def del: boxed.simps)
  moreover have "nesting (Suc n) ?s'"
    using assms(1) by (auto simp: nesting_def queue_task_def remember_def enter_task_def t u_def make_task_def
        simp del: boxed.simps)
  ultimately show ?thesis using t(1) by blast
qed

lemma nesting_never_ends:
  assumes "drive_loop r src em s = Some result" "r = demo_registries fs" "src = nested_file" "em = nesting_emitter"
  shows "\<not> nesting n s"
  using assms
proof (induction r src em s result arbitrary: n rule: drive_loop.raw_induct [rotated 1, consumes 1])
  case (1 loop r src em s result)
  show ?case
  proof
    assume n: "nesting n s"
    then obtain t where t: "pending_generations s = [t]" by (auto simp: nesting_def)
    obtain s' where s': "nesting (Suc n) s'"
      "hydrate_specialization r src em t (s\<lparr>pending_generations := []\<rparr>) = Done s'"
      using nesting_step [OF n t, of fs] 1(3-5) by auto
    have "loop r src em s' = Some result" using 1(2) t s'(2) by simp
    then show False using 1(1) 1(3-5) s'(1) by blast
  qed
qed

lemma endless_expansion:
  "drive_codegen (demo_registries fs) nested_file nesting_emitter False demo_start = None"
proof -
  let ?main = "plain_task nested_file (expand_fn ''main'' [StBreak]) ''main''"
  have seeds: "seed_tasks nested_file False = Inr [?main]"
    by (simp add: demand_eval)
  have "\<exists>s. hydrate_specialization (demo_registries fs) nested_file nesting_emitter ?main demo_start = Done s \<and> nesting 1 s"
    using boxed_inj [of _ 1] by (simp add: demand_eval nesting_emitter_def request_specialization_def Let_def find_callee_def find_function_def
        bind_struct_generics_def map_opt_generics_def bind_method_generics_def struct_generic_count_def make_task_def
        remember_def specialized_name_def specialization_suffix_def generic_param_name_def is_protected_name_def
        flatten_inception.simps nesting_def nest_name_def)
  then obtain s where s: "hydrate_specialization (demo_registries fs) nested_file nesting_emitter ?main demo_start = Done s"
    "nesting 1 s" by blast
  have "drive_loop (demo_registries fs) nested_file nesting_emitter s = None"
    using nesting_never_ends [OF _ refl refl refl] s(2) by (cases "drive_loop (demo_registries fs) nested_file nesting_emitter s") blast+
  then show ?thesis by (simp add: drive_codegen_def seeds s(1))
qed

end
