(* ===== verification/Hir.thy ===== *)
theory Hir
  imports Salt_Types
begin

text \<open>
  The high-level intermediate representation of the Salt compiler
  (\<open>salt-front/src/hir/ids.rs\<close>, \<open>expr.rs\<close>, \<open>stmt.rs\<close>,
  \<open>items.rs\<close>). Enum constructors carry a prefix where the Rust path does
  (\<open>ExprKind::Call\<close> is \<open>ECall\<close>, \<open>StmtKind::While\<close> is
  \<open>SWhile\<close>). Source positions (\<open>proc_macro2::Span\<close>) are not represented: the
  passes modelled here only copy them. A 64-bit float literal is its bit pattern, which no pass
  inspects.
\<close>

section \<open>Identifiers\<close>

type_synonym def_id = u32
type_synonym var_id = u32
type_synonym block_id = u32

section \<open>Expressions, statements and blocks\<close>

datatype literal = LitInt i64 | LitFloat "64 word" | LitBool bool | LitString string

datatype bin_op =
    BinAdd | BinSub | BinMul | BinDiv | BinRem
  | BinEq | BinNe | BinLt | BinLe | BinGt | BinGe
  | BinAnd | BinOr
  | BinBitAnd | BinBitOr | BinBitXor
  | BinShl | BinShr
  | BinAddAssign | BinSubAssign | BinMulAssign | BinDivAssign | BinRemAssign

definition is_relational :: "bin_op \<Rightarrow> bool" where
  "is_relational op = (op \<in> {BinEq, BinNe, BinLt, BinLe, BinGt, BinGe})"

datatype un_op = UnNot | UnNeg | UnDeref

datatype pattern =
    PBind string var_id bool
  | PTuple "pattern list"
  | PWildcard

datatype expr = Expr (ekind: expr_kind) (ety: ty)
and expr_kind =
    ELiteral literal
  | EPath def_id
  | EVar var_id
  | EUnresolvedIdent string
  | ECall expr "expr list"
  | EBinary bin_op expr expr
  | EUnary un_op expr
  | EBlock block
  | EIf expr block "expr option"
  | EWhile expr block
  | ELoop block
  | EReturn "expr option"
  | EBreak
  | EContinue
  | EField expr string
  | ECast expr ty
  | EStructLit string "ty list" "(string \<times> expr) list"
  | EAssign expr expr
  | EIndex expr expr
  | ERef expr
  | EMethodCall expr string "expr list"
  | ERequires expr
  | EEnsures expr
  | EYield "expr option"
and block = Block (block_stmts: "stmt list") (block_value: "expr option") (block_ty: ty)
and stmt =
    SLocal pattern "ty option" "expr option"
  | SExpr expr
  | SSemi expr
  | SWhile expr block
  | SFor var_id string expr block
  | SLoop block
  | SReturn "expr option"
  | SBreak
  | SContinue
  | SAssume expr

section \<open>Items\<close>

datatype visibility = Public | Private

datatype generic_param = GenericType string | GenericConst string ty

record param =
  param_name :: string
  param_ty :: ty

record fn_item =
  fn_inputs :: "param list"
  fn_output :: ty
  fn_body :: "block option"
  fn_generics :: "generic_param list"
  fn_is_async :: bool

record field =
  field_name :: string
  field_ty :: ty
  field_vis :: visibility

record struct_item =
  st_fields :: "field list"
  st_generics :: "generic_param list"
  st_invariants :: "expr list"

datatype variant_data = VariantUnit | VariantTuple "ty list" | VariantStruct "field list"

record variant =
  variant_name :: string
  variant_data_of :: variant_data

record enum_item =
  en_variants :: "variant list"
  en_generics :: "generic_param list"

datatype trait_member = TraitFn string fn_item

record trait_item =
  tr_generics :: "generic_param list"
  tr_items :: "trait_member list"

datatype impl_member = ImplFn string fn_item

record impl_item =
  im_generics :: "generic_param list"
  im_trait_ref :: "ty option"
  im_self_ty :: ty
  im_items :: "impl_member list"

record global_item =
  gl_ty :: ty
  gl_init :: "expr option"

datatype item_kind =
    ItemFn fn_item
  | ItemStruct struct_item
  | ItemEnum enum_item
  | ItemTrait trait_item
  | ItemImpl impl_item
  | ItemGlobal global_item

record item =
  item_id :: def_id
  item_name :: string
  item_vis :: visibility
  item_kind_of :: item_kind

section \<open>The binders of a tree\<close>

text \<open>
  The variables a tree binds with a \<open>let\<close> of a plain name or a \<open>for\<close>, in the
  order a traversal meets them. The HIR promises that a \<open>VarId\<close> is bound once within a
  function.
\<close>

fun pattern_binders :: "pattern \<Rightarrow> var_id list" where
  "pattern_binders (PBind _ v _) = [v]"
| "pattern_binders _ = []"

fun expr_binders :: "expr \<Rightarrow> var_id list"
and kind_binders :: "expr_kind \<Rightarrow> var_id list"
and block_binders :: "block \<Rightarrow> var_id list"
and stmt_binders :: "stmt \<Rightarrow> var_id list" where
  "expr_binders (Expr k t) = kind_binders k"
| "kind_binders (ECall f args) = expr_binders f @ concat (map expr_binders args)"
| "kind_binders (EBinary _ a b) = expr_binders a @ expr_binders b"
| "kind_binders (EUnary _ a) = expr_binders a"
| "kind_binders (EBlock b) = block_binders b"
| "kind_binders (EIf c b None) = expr_binders c @ block_binders b"
| "kind_binders (EIf c b (Some e)) = expr_binders c @ block_binders b @ expr_binders e"
| "kind_binders (EWhile c b) = expr_binders c @ block_binders b"
| "kind_binders (ELoop b) = block_binders b"
| "kind_binders (EReturn (Some e)) = expr_binders e"
| "kind_binders (EField e _) = expr_binders e"
| "kind_binders (ECast e _) = expr_binders e"
| "kind_binders (EStructLit _ _ fs) = concat (map (\<lambda>(_, e). expr_binders e) fs)"
| "kind_binders (EAssign a b) = expr_binders a @ expr_binders b"
| "kind_binders (EIndex a b) = expr_binders a @ expr_binders b"
| "kind_binders (ERef e) = expr_binders e"
| "kind_binders (EMethodCall r _ args) = expr_binders r @ concat (map expr_binders args)"
| "kind_binders (ERequires e) = expr_binders e"
| "kind_binders (EEnsures e) = expr_binders e"
| "kind_binders (EYield (Some e)) = expr_binders e"
| "kind_binders _ = []"
| "block_binders (Block ss None _) = concat (map stmt_binders ss)"
| "block_binders (Block ss (Some e) _) = concat (map stmt_binders ss) @ expr_binders e"
| "stmt_binders (SLocal p _ None) = pattern_binders p"
| "stmt_binders (SLocal p _ (Some e)) = expr_binders e @ pattern_binders p"
| "stmt_binders (SExpr e) = expr_binders e"
| "stmt_binders (SSemi e) = expr_binders e"
| "stmt_binders (SWhile c b) = expr_binders c @ block_binders b"
| "stmt_binders (SFor v _ i b) = expr_binders i @ v # block_binders b"
| "stmt_binders (SLoop b) = block_binders b"
| "stmt_binders (SReturn (Some e)) = expr_binders e"
| "stmt_binders (SAssume e) = expr_binders e"
| "stmt_binders _ = []"

section \<open>Erasure of type annotations\<close>

text \<open>
  The tree without the types a checker fills in: every expression and block is annotated with
  \<open>Unit\<close>. The types a programmer writes (casts, \<open>let\<close> annotations, type
  arguments) stay.
\<close>

fun erase_expr :: "expr \<Rightarrow> expr"
and erase_kind :: "expr_kind \<Rightarrow> expr_kind"
and erase_block :: "block \<Rightarrow> block"
and erase_stmt :: "stmt \<Rightarrow> stmt" where
  "erase_expr (Expr k t) = Expr (erase_kind k) Unit"
| "erase_kind (ECall f args) = ECall (erase_expr f) (map erase_expr args)"
| "erase_kind (EBinary op a b) = EBinary op (erase_expr a) (erase_expr b)"
| "erase_kind (EUnary op a) = EUnary op (erase_expr a)"
| "erase_kind (EBlock b) = EBlock (erase_block b)"
| "erase_kind (EIf c b e) = EIf (erase_expr c) (erase_block b) (map_option erase_expr e)"
| "erase_kind (EWhile c b) = EWhile (erase_expr c) (erase_block b)"
| "erase_kind (ELoop b) = ELoop (erase_block b)"
| "erase_kind (EReturn e) = EReturn (map_option erase_expr e)"
| "erase_kind (EField e f) = EField (erase_expr e) f"
| "erase_kind (ECast e t) = ECast (erase_expr e) t"
| "erase_kind (EStructLit n ts fs) = EStructLit n ts (map (\<lambda>(f, e). (f, erase_expr e)) fs)"
| "erase_kind (EAssign a b) = EAssign (erase_expr a) (erase_expr b)"
| "erase_kind (EIndex a b) = EIndex (erase_expr a) (erase_expr b)"
| "erase_kind (ERef e) = ERef (erase_expr e)"
| "erase_kind (EMethodCall r m args) = EMethodCall (erase_expr r) m (map erase_expr args)"
| "erase_kind (ERequires e) = ERequires (erase_expr e)"
| "erase_kind (EEnsures e) = EEnsures (erase_expr e)"
| "erase_kind (EYield e) = EYield (map_option erase_expr e)"
| "erase_kind k = k"
| "erase_block (Block ss v _) = Block (map erase_stmt ss) (map_option erase_expr v) Unit"
| "erase_stmt (SLocal p t e) = SLocal p t (map_option erase_expr e)"
| "erase_stmt (SExpr e) = SExpr (erase_expr e)"
| "erase_stmt (SSemi e) = SSemi (erase_expr e)"
| "erase_stmt (SWhile c b) = SWhile (erase_expr c) (erase_block b)"
| "erase_stmt (SFor v n i b) = SFor v n (erase_expr i) (erase_block b)"
| "erase_stmt (SLoop b) = SLoop (erase_block b)"
| "erase_stmt (SReturn e) = SReturn (map_option erase_expr e)"
| "erase_stmt (SAssume e) = SAssume (erase_expr e)"
| "erase_stmt s = s"

end
