(* ===== verification/Solver_Terms.thy ===== *)
theory Solver_Terms
  imports Prelude
begin

text \<open>
  What the compiler uses of the Z3 solver, which is not under \<open>src/\<close>: the terms it builds,
  with their meaning as formulas over the integers, and the stack of assertions of a solver. The answer
  to a check is an argument of the definitions that ask for it; what is relied on is that
  \<open>Unsat\<close> and \<open>Sat\<close> are right (\<open>sound_check\<close>), while a solver
  that always knows the answer (\<open>deciding_check\<close>) is only used to state what the code
  cannot blame on the solver.
\<close>

section \<open>Terms\<close>

text \<open>
  A constant is a symbol without arguments. Symbols of equal name, arity and sort are the same; symbols
  of integer and of Boolean sort are kept apart.
\<close>

datatype z3_int =
    ZConst string
  | ZNum int
  | ZAdd z3_int z3_int
  | ZSub z3_int z3_int
  | ZMul z3_int z3_int
  | ZDiv z3_int z3_int
  | ZMod z3_int z3_int
  | ZNeg z3_int
  | ZApp string "z3_int list"

datatype z3_bool =
    ZLt z3_int z3_int
  | ZLe z3_int z3_int
  | ZGt z3_int z3_int
  | ZGe z3_int z3_int
  | ZEq z3_int z3_int
  | ZNot z3_bool
  | ZBool bool
  | ZAnd "z3_bool list"
  | ZOr "z3_bool list"
  | ZPred string "z3_int list"

text \<open>
  Integer division of SMT-LIB: the remainder is not negative. By zero the quotient and the remainder are
  fixed by the valuation alone.
\<close>

record valuation =
  int_symbol :: "string \<Rightarrow> int list \<Rightarrow> int"
  bool_symbol :: "string \<Rightarrow> int list \<Rightarrow> bool"
  div_by_zero :: "int \<Rightarrow> int"
  mod_by_zero :: "int \<Rightarrow> int"

definition euclid_div :: "int \<Rightarrow> int \<Rightarrow> int" where
  "euclid_div a b = (if 0 < b then a div b else - (a div (- b)))"

definition euclid_mod :: "int \<Rightarrow> int \<Rightarrow> int" where
  "euclid_mod a b = a mod \<bar>b\<bar>"

fun int_value :: "valuation \<Rightarrow> z3_int \<Rightarrow> int" where
  "int_value \<nu> (ZConst name) = int_symbol \<nu> name []"
| "int_value \<nu> (ZNum n) = n"
| "int_value \<nu> (ZAdd a b) = int_value \<nu> a + int_value \<nu> b"
| "int_value \<nu> (ZSub a b) = int_value \<nu> a - int_value \<nu> b"
| "int_value \<nu> (ZMul a b) = int_value \<nu> a * int_value \<nu> b"
| "int_value \<nu> (ZDiv a b) =
     (if int_value \<nu> b = 0 then div_by_zero \<nu> (int_value \<nu> a) else euclid_div (int_value \<nu> a) (int_value \<nu> b))"
| "int_value \<nu> (ZMod a b) =
     (if int_value \<nu> b = 0 then mod_by_zero \<nu> (int_value \<nu> a) else euclid_mod (int_value \<nu> a) (int_value \<nu> b))"
| "int_value \<nu> (ZNeg a) = - int_value \<nu> a"
| "int_value \<nu> (ZApp f as) = int_symbol \<nu> f (map (int_value \<nu>) as)"

fun holds :: "valuation \<Rightarrow> z3_bool \<Rightarrow> bool" where
  "holds \<nu> (ZLt a b) \<longleftrightarrow> int_value \<nu> a < int_value \<nu> b"
| "holds \<nu> (ZLe a b) \<longleftrightarrow> int_value \<nu> a \<le> int_value \<nu> b"
| "holds \<nu> (ZGt a b) \<longleftrightarrow> int_value \<nu> b < int_value \<nu> a"
| "holds \<nu> (ZGe a b) \<longleftrightarrow> int_value \<nu> b \<le> int_value \<nu> a"
| "holds \<nu> (ZEq a b) \<longleftrightarrow> int_value \<nu> a = int_value \<nu> b"
| "holds \<nu> (ZNot c) \<longleftrightarrow> \<not> holds \<nu> c"
| "holds \<nu> (ZBool b) \<longleftrightarrow> b"
| "holds \<nu> (ZAnd cs) \<longleftrightarrow> (\<forall>c \<in> set cs. holds \<nu> c)"
| "holds \<nu> (ZOr cs) \<longleftrightarrow> (\<exists>c \<in> set cs. holds \<nu> c)"
| "holds \<nu> (ZPred p as) \<longleftrightarrow> bool_symbol \<nu> p (map (int_value \<nu>) as)"

text \<open>Simultaneous substitution of terms for constants.\<close>

fun subst_int :: "(string \<rightharpoonup> z3_int) \<Rightarrow> z3_int \<Rightarrow> z3_int" where
  "subst_int m (ZConst name) = (case m name of Some z \<Rightarrow> z | None \<Rightarrow> ZConst name)"
| "subst_int m (ZNum n) = ZNum n"
| "subst_int m (ZAdd a b) = ZAdd (subst_int m a) (subst_int m b)"
| "subst_int m (ZSub a b) = ZSub (subst_int m a) (subst_int m b)"
| "subst_int m (ZMul a b) = ZMul (subst_int m a) (subst_int m b)"
| "subst_int m (ZDiv a b) = ZDiv (subst_int m a) (subst_int m b)"
| "subst_int m (ZMod a b) = ZMod (subst_int m a) (subst_int m b)"
| "subst_int m (ZNeg a) = ZNeg (subst_int m a)"
| "subst_int m (ZApp f as) =
     (case (as, m f) of ([], Some z) \<Rightarrow> z | _ \<Rightarrow> ZApp f (map (subst_int m) as))"

fun subst_bool :: "(string \<rightharpoonup> z3_int) \<Rightarrow> z3_bool \<Rightarrow> z3_bool" where
  "subst_bool m (ZLt a b) = ZLt (subst_int m a) (subst_int m b)"
| "subst_bool m (ZLe a b) = ZLe (subst_int m a) (subst_int m b)"
| "subst_bool m (ZGt a b) = ZGt (subst_int m a) (subst_int m b)"
| "subst_bool m (ZGe a b) = ZGe (subst_int m a) (subst_int m b)"
| "subst_bool m (ZEq a b) = ZEq (subst_int m a) (subst_int m b)"
| "subst_bool m (ZNot c) = ZNot (subst_bool m c)"
| "subst_bool m (ZBool b) = ZBool b"
| "subst_bool m (ZAnd cs) = ZAnd (map (subst_bool m) cs)"
| "subst_bool m (ZOr cs) = ZOr (map (subst_bool m) cs)"
| "subst_bool m (ZPred p as) = ZPred p (map (subst_int m) as)"

text \<open>The valuation in which the substituted constants have the values of their terms.\<close>

definition assign_terms :: "(string \<rightharpoonup> z3_int) \<Rightarrow> valuation \<Rightarrow> valuation" where
  "assign_terms m \<nu> =
     \<nu>\<lparr>int_symbol := \<lambda>f as. case (as, m f) of ([], Some z) \<Rightarrow> int_value \<nu> z | _ \<Rightarrow> int_symbol \<nu> f as\<rparr>"

lemma assign_terms_simps [simp]:
  "int_symbol (assign_terms m \<nu>) f [] = (case m f of Some z \<Rightarrow> int_value \<nu> z | None \<Rightarrow> int_symbol \<nu> f [])"
  "int_symbol (assign_terms m \<nu>) f (a # as) = int_symbol \<nu> f (a # as)"
  "bool_symbol (assign_terms m \<nu>) = bool_symbol \<nu>" "div_by_zero (assign_terms m \<nu>) = div_by_zero \<nu>"
  "mod_by_zero (assign_terms m \<nu>) = mod_by_zero \<nu>"
  by (simp_all add: assign_terms_def split: option.splits)

lemma subst_int_value: "int_value \<nu> (subst_int m t) = int_value (assign_terms m \<nu>) t"
proof (induction t)
  case (ZApp f as)
  then have args: "map (int_value \<nu>) (map (subst_int m) as) = map (int_value (assign_terms m \<nu>)) as" by simp
  show ?case
  proof (cases as)
    case Nil
    then show ?thesis by (simp split: option.splits)
  next
    case (Cons a as')
    have "int_value \<nu> (subst_int m (ZApp f as)) = int_symbol \<nu> f (map (int_value \<nu>) (map (subst_int m) as))"
      using Cons by simp
    also have "\<dots> = int_value (assign_terms m \<nu>) (ZApp f as)"
      unfolding args using Cons by simp
    finally show ?thesis .
  qed
qed (simp_all split: option.splits)

lemma subst_bool_holds: "holds \<nu> (subst_bool m c) = holds (assign_terms m \<nu>) c"
proof (induction c)
  case (ZPred p as)
  have "map (int_value \<nu>) (map (subst_int m) as) = map (int_value (assign_terms m \<nu>)) as"
    by (simp add: subst_int_value)
  then show ?case by (simp only: subst_bool.simps holds.simps assign_terms_simps)
qed (simp_all add: subst_int_value)

text \<open>The terms that stand for the values the compiler tracks, by name.\<close>

type_synonym tracker = "string \<rightharpoonup> z3_int"

section \<open>Answers\<close>

definition all_hold :: "valuation \<Rightarrow> z3_bool list \<Rightarrow> bool" where
  "all_hold \<nu> cs \<longleftrightarrow> (\<forall>c \<in> set cs. holds \<nu> c)"

datatype sat_result = Unsat | Sat | Unknown

type_synonym checker = "z3_bool list \<Rightarrow> sat_result"

definition sound_check :: "checker \<Rightarrow> bool" where
  "sound_check check \<longleftrightarrow>
     (\<forall>cs. (check cs = Unsat \<longrightarrow> (\<forall>\<nu>. \<not> all_hold \<nu> cs)) \<and> (check cs = Sat \<longrightarrow> (\<exists>\<nu>. all_hold \<nu> cs)))"

definition deciding_check :: "checker \<Rightarrow> bool" where
  "deciding_check check \<longleftrightarrow> sound_check check \<and> (\<forall>cs. check cs \<noteq> Unknown)"

lemma all_hold_simps [simp]:
  "all_hold \<nu> []" "all_hold \<nu> (c # cs) \<longleftrightarrow> holds \<nu> c \<and> all_hold \<nu> cs"
  "all_hold \<nu> (cs @ ds) \<longleftrightarrow> all_hold \<nu> cs \<and> all_hold \<nu> ds"
  by (auto simp: all_hold_def)

lemma unsat_answer: "sound_check check \<Longrightarrow> check cs = Unsat \<Longrightarrow> \<not> all_hold \<nu> cs"
  by (simp add: sound_check_def)

lemma deciding_answer:
  assumes "deciding_check check"
  shows "check cs = (if \<exists>\<nu>. all_hold \<nu> cs then Sat else Unsat)"
  using assms unfolding deciding_check_def sound_check_def by (metis sat_result.exhaust)

section \<open>The assertions of a solver\<close>

text \<open>In frames: \<open>push\<close> opens one and \<open>pop\<close> drops the newest.\<close>

type_synonym solver = "z3_bool list list"

definition assert_term :: "z3_bool \<Rightarrow> solver \<Rightarrow> solver" where
  "assert_term c s = (case s of f # fs \<Rightarrow> (f @ [c]) # fs | [] \<Rightarrow> [[c]])"

definition push_frame :: "solver \<Rightarrow> solver" where
  "push_frame s = [] # s"

definition pop_frame :: "solver \<Rightarrow> solver" where
  "pop_frame s = tl s"

definition assertions :: "solver \<Rightarrow> z3_bool list" where
  "assertions s = concat (rev s)"

lemma assertions_assert [simp]: "assertions (assert_term c s) = assertions s @ [c]"
  by (cases s) (simp_all add: assertions_def assert_term_def)

lemma assertions_push [simp]: "assertions (push_frame s) = assertions s"
  by (simp add: assertions_def push_frame_def)

lemma assert_not_Nil [simp]: "assert_term c s \<noteq> []"
  by (simp add: assert_term_def split: list.splits)

lemma pop_assert_push [simp]: "pop_frame (assert_term c (push_frame s)) = s"
  by (simp add: pop_frame_def push_frame_def assert_term_def)

lemma pop_push [simp]: "pop_frame (push_frame s) = s"
  by (simp add: pop_frame_def push_frame_def)

lemma pop_assert: "s \<noteq> [] \<Longrightarrow> pop_frame (assert_term c s) = pop_frame s"
  by (cases s) (simp_all add: pop_frame_def assert_term_def)

end
