(* ===== verification/Verify_Conditions.thy ===== *)
theory Verify_Conditions
  imports Hir Solver_Terms
begin

text \<open>
  The verification context of the HIR (\<open>salt-front/src/hir/vc.rs\<close>): facts about integer
  variables are asserted in a Z3 solver, and a condition is proved by asserting its negation and asking
  whether the assertions can hold together. The terms and the solver are those of
  \<open>Solver_Terms\<close>. The theorems relate a proved condition to the machine states of the
  program: words of 64 bits, compared as signed numbers.
\<close>

section \<open>The verification context\<close>

record vc =
  vc_solver :: solver
  symbolic_vars :: "var_id \<rightharpoonup> z3_int"

definition vc_new :: vc where
  "vc_new = \<lparr>vc_solver = [[]], symbolic_vars = Map.empty\<rparr>"

definition symbol_name :: "var_id \<Rightarrow> string" where
  "symbol_name v = ''v'' @ show_nat (unat v)"

definition declare_symbolic :: "var_id \<Rightarrow> vc \<Rightarrow> z3_int \<times> vc" where
  "declare_symbolic v s =
     (let z = ZConst (symbol_name v) in (z, s\<lparr>symbolic_vars := (symbolic_vars s)(v \<mapsto> z)\<rparr>))"

definition assume_condition :: "z3_bool \<Rightarrow> vc \<Rightarrow> vc" where
  "assume_condition c s = s\<lparr>vc_solver := assert_term c (vc_solver s)\<rparr>"

definition assert_binding :: "var_id \<Rightarrow> i64 \<Rightarrow> vc \<Rightarrow> vc" where
  "assert_binding v n s =
     (case declare_symbolic v s of (z, s) \<Rightarrow> assume_condition (ZEq z (ZNum (sint n))) s)"

datatype proof_error = ViolationPossible | SolverTimeout

definition prove_requires ::
  "checker \<Rightarrow> z3_bool \<Rightarrow> vc \<Rightarrow> (proof_error, unit) result \<times> vc" where
  "prove_requires check c s =
     (let solver = assert_term (ZNot c) (push_frame (vc_solver s));
          answer = check (assertions solver);
          s = s\<lparr>vc_solver := pop_frame solver\<rparr>
      in (case answer of Unsat \<Rightarrow> Inr () | Sat \<Rightarrow> Inl ViolationPossible | Unknown \<Rightarrow> Inl SolverTimeout, s))"

definition lower_int_expr :: "vc \<Rightarrow> expr \<Rightarrow> z3_int option" where
  "lower_int_expr s e =
     (case ekind e of
        EVar v \<Rightarrow> symbolic_vars s v
      | ELiteral (LitInt n) \<Rightarrow> Some (ZNum (sint n))
      | _ \<Rightarrow> None)"

definition lower_relation :: "bin_op \<Rightarrow> z3_int \<Rightarrow> z3_int \<Rightarrow> z3_bool option" where
  "lower_relation op a b =
     (case op of
        BinLt \<Rightarrow> Some (ZLt a b)
      | BinLe \<Rightarrow> Some (ZLe a b)
      | BinGt \<Rightarrow> Some (ZGt a b)
      | BinGe \<Rightarrow> Some (ZGe a b)
      | BinEq \<Rightarrow> Some (ZEq a b)
      | BinNe \<Rightarrow> Some (ZNot (ZEq a b))
      | _ \<Rightarrow> None)"

fun lower_assume_expr :: "vc \<Rightarrow> expr \<Rightarrow> z3_bool option" where
  "lower_assume_expr s (Expr k t) =
     (case k of
        EBinary op l r \<Rightarrow>
          (case (lower_int_expr s l, lower_int_expr s r) of
             (Some a, Some b) \<Rightarrow> lower_relation op a b
           | _ \<Rightarrow> None)
      | EUnary UnNot e \<Rightarrow> map_option ZNot (lower_assume_expr s e)
      | ELiteral (LitBool b) \<Rightarrow> Some (ZBool b)
      | _ \<Rightarrow> None)"

section \<open>The meaning of conditions in machine states\<close>

type_synonym machine_state = "var_id \<Rightarrow> i64"

datatype machine_value = MInt i64 | MBool bool

definition machine_compare :: "bin_op \<Rightarrow> i64 \<Rightarrow> i64 \<Rightarrow> bool option" where
  "machine_compare op a b =
     (case op of
        BinLt \<Rightarrow> Some (a <s b) | BinLe \<Rightarrow> Some (a \<le>s b) | BinGt \<Rightarrow> Some (b <s a) | BinGe \<Rightarrow> Some (b \<le>s a)
      | BinEq \<Rightarrow> Some (a = b) | BinNe \<Rightarrow> Some (a \<noteq> b) | _ \<Rightarrow> None)"

definition machine_arith :: "bin_op \<Rightarrow> i64 \<Rightarrow> i64 \<Rightarrow> i64 option" where
  "machine_arith op a b =
     (case op of
        BinAdd \<Rightarrow> Some (a + b) | BinSub \<Rightarrow> Some (a - b) | BinMul \<Rightarrow> Some (a * b)
      | BinBitAnd \<Rightarrow> Some (a AND b) | BinBitOr \<Rightarrow> Some (a OR b) | BinBitXor \<Rightarrow> Some (a XOR b)
      | _ \<Rightarrow> None)"

definition machine_binary :: "bin_op \<Rightarrow> machine_value \<Rightarrow> machine_value \<Rightarrow> machine_value option" where
  "machine_binary op a b =
     (case (a, b) of
        (MInt a, MInt b) \<Rightarrow>
          (case machine_compare op a b of Some c \<Rightarrow> Some (MBool c) | None \<Rightarrow> map_option MInt (machine_arith op a b))
      | (MBool a, MBool b) \<Rightarrow>
          (case op of BinAnd \<Rightarrow> Some (MBool (a \<and> b)) | BinOr \<Rightarrow> Some (MBool (a \<or> b)) | _ \<Rightarrow> None)
      | _ \<Rightarrow> None)"

fun evaluate :: "machine_state \<Rightarrow> expr \<Rightarrow> machine_value option" where
  "evaluate \<sigma> (Expr k t) =
     (case k of
        EVar v \<Rightarrow> Some (MInt (\<sigma> v))
      | ELiteral (LitInt n) \<Rightarrow> Some (MInt n)
      | ELiteral (LitBool b) \<Rightarrow> Some (MBool b)
      | EBinary op l r \<Rightarrow>
          (case (evaluate \<sigma> l, evaluate \<sigma> r) of (Some a, Some b) \<Rightarrow> machine_binary op a b | _ \<Rightarrow> None)
      | EUnary UnNot e \<Rightarrow> (case evaluate \<sigma> e of Some (MBool b) \<Rightarrow> Some (MBool (\<not> b)) | _ \<Rightarrow> None)
      | EUnary UnNeg e \<Rightarrow> (case evaluate \<sigma> e of Some (MInt n) \<Rightarrow> Some (MInt (- n)) | _ \<Rightarrow> None)
      | _ \<Rightarrow> None)"

definition true_in :: "machine_state \<Rightarrow> expr \<Rightarrow> bool" where
  "true_in \<sigma> e \<longleftrightarrow> evaluate \<sigma> e = Some (MBool True)"

text \<open>A state seen as a valuation of the symbols.\<close>

definition state_of_symbols :: "machine_state \<Rightarrow> valuation \<Rightarrow> bool" where
  "state_of_symbols \<sigma> \<nu> \<longleftrightarrow> (\<forall>v. int_symbol \<nu> (symbol_name v) [] = sint (\<sigma> v))"

definition symbols_ok :: "vc \<Rightarrow> bool" where
  "symbols_ok s \<longleftrightarrow> (\<forall>v z. symbolic_vars s v = Some z \<longrightarrow> z = ZConst (symbol_name v))"

lemma symbol_name_inj: "symbol_name v = symbol_name w \<longleftrightarrow> v = w"
  unfolding symbol_name_def by (metis append_same_eq same_append_eq show_nat_inj word_unat_eq_iff)

lemma state_has_valuation: "\<exists>\<nu>. state_of_symbols \<sigma> \<nu>"
proof -
  have "(SOME v. symbol_name v = symbol_name w) = w" for w
    by (rule some_equality) (simp_all add: symbol_name_inj)
  then show ?thesis
    by (intro exI [of _ "\<lparr>int_symbol = \<lambda>n _. sint (\<sigma> (SOME v. symbol_name v = n)), bool_symbol = \<lambda>_ _. False,
        div_by_zero = id, mod_by_zero = id\<rparr>"]) (simp add: state_of_symbols_def)
qed

lemma lower_int_expr_sound:
  assumes "lower_int_expr s e = Some z" "symbols_ok s" "state_of_symbols \<sigma> \<nu>"
  shows "\<exists>n. evaluate \<sigma> e = Some (MInt n) \<and> int_value \<nu> z = sint n"
  using assms by (cases e) (fastforce simp: lower_int_expr_def symbols_ok_def state_of_symbols_def
      split: expr_kind.splits literal.splits)

lemma lower_relation_sound:
  assumes "lower_relation op a b = Some c" "int_value \<nu> a = sint m" "int_value \<nu> b = sint n"
  shows "\<exists>r. machine_compare op m n = Some r \<and> (holds \<nu> c \<longleftrightarrow> r)"
  using assms by (cases op)
    (auto simp: lower_relation_def machine_compare_def word_sless_alt word_sle_eq signed_word_eqI)

lemma lower_assume_expr_sound:
  assumes "lower_assume_expr s e = Some c" "symbols_ok s" "state_of_symbols \<sigma> \<nu>"
  shows "\<exists>b. evaluate \<sigma> e = Some (MBool b) \<and> (holds \<nu> c \<longleftrightarrow> b)"
  using assms
proof (induction s e arbitrary: c rule: lower_assume_expr.induct)
  case (1 s k t)
  show ?case
  proof (cases k)
    case (EBinary op l r)
    then obtain a b where ab: "lower_int_expr s l = Some a" "lower_int_expr s r = Some b" "lower_relation op a b = Some c"
      using "1.prems"(1) by (auto split: option.splits)
    obtain m n where mn: "evaluate \<sigma> l = Some (MInt m)" "int_value \<nu> a = sint m"
      "evaluate \<sigma> r = Some (MInt n)" "int_value \<nu> b = sint n"
      using lower_int_expr_sound [OF ab(1) "1.prems"(2,3)] lower_int_expr_sound [OF ab(2) "1.prems"(2,3)] by blast
    from lower_relation_sound [OF ab(3) mn(2,4)] mn(1,3) EBinary show ?thesis by (auto simp: machine_binary_def)
  next
    case (EUnary op e)
    then have op: "op = UnNot" using "1.prems"(1) by (cases op) auto
    then obtain d where d: "lower_assume_expr s e = Some d" "c = ZNot d" using "1.prems"(1) EUnary by auto
    from "1.IH" [OF EUnary op d(1) "1.prems"(2,3)] show ?thesis using EUnary op d(2) by auto
  next
    case (ELiteral l)
    then show ?thesis using "1.prems"(1) by (cases l) auto
  qed (use "1.prems"(1) in auto)
qed

section \<open>Soundness of a proof\<close>

text \<open>
  The code before a condition: declarations, bindings to constants, and \<open>assume\<close>
  statements, of which those that cannot be lowered are skipped.
\<close>

datatype vc_fact = Declared var_id | Bound var_id i64 | Assumed expr

fun note_fact :: "vc_fact \<Rightarrow> vc \<Rightarrow> vc" where
  "note_fact (Declared v) s = snd (declare_symbolic v s)"
| "note_fact (Bound v n) s = assert_binding v n s"
| "note_fact (Assumed e) s = (case lower_assume_expr s e of Some c \<Rightarrow> assume_condition c s | None \<Rightarrow> s)"

fun satisfies :: "machine_state \<Rightarrow> vc_fact \<Rightarrow> bool" where
  "satisfies \<sigma> (Declared v) = True"
| "satisfies \<sigma> (Bound v n) = (\<sigma> v = n)"
| "satisfies \<sigma> (Assumed e) = true_in \<sigma> e"

definition facts_noted :: "vc_fact list \<Rightarrow> vc" where
  "facts_noted fs = fold note_fact fs vc_new"

lemma prove_requires_restores: "snd (prove_requires check c s) = s"
  by (simp add: prove_requires_def Let_def push_frame_def pop_frame_def assert_term_def)

lemma prove_requires_answer:
  "fst (prove_requires check c s) =
     (case check (assertions (vc_solver s) @ [ZNot c]) of
        Unsat \<Rightarrow> Inr () | Sat \<Rightarrow> Inl ViolationPossible | Unknown \<Rightarrow> Inl SolverTimeout)"
  by (simp add: prove_requires_def Let_def push_frame_def assert_term_def assertions_def)

text \<open>The invariant: the assertions hold in the states that satisfy the facts, and only there.\<close>

definition noted_facts :: "vc \<Rightarrow> vc_fact list \<Rightarrow> bool" where
  "noted_facts s fs \<longleftrightarrow> vc_solver s \<noteq> [] \<and> symbols_ok s \<and>
     (\<forall>\<sigma> \<nu>. state_of_symbols \<sigma> \<nu> \<longrightarrow> (\<forall>f \<in> set fs. satisfies \<sigma> f) \<longrightarrow> all_hold \<nu> (assertions (vc_solver s)))"

lemma symbols_declared: "symbols_ok s \<Longrightarrow> symbols_ok (snd (declare_symbolic v s))"
  by (simp add: symbols_ok_def declare_symbolic_def Let_def)

lemma noted_facts_extend:
  assumes "noted_facts s fs" "symbols_ok s'"
    and "assertions (vc_solver s') = assertions (vc_solver s) @ cs" "vc_solver s' \<noteq> []"
    and "\<And>\<sigma> \<nu>. state_of_symbols \<sigma> \<nu> \<Longrightarrow> satisfies \<sigma> f \<Longrightarrow> all_hold \<nu> cs"
  shows "noted_facts s' (fs @ [f])"
  unfolding noted_facts_def
proof (intro conjI allI impI)
  fix \<sigma> \<nu> assume \<sigma>: "state_of_symbols \<sigma> \<nu>" "\<forall>f' \<in> set (fs @ [f]). satisfies \<sigma> f'"
  then have "all_hold \<nu> (assertions (vc_solver s))" using assms(1) by (simp add: noted_facts_def)
  moreover have "all_hold \<nu> cs" using assms(5) \<sigma> by simp
  ultimately show "all_hold \<nu> (assertions (vc_solver s'))" by (auto simp: assms(3) all_hold_def)
qed (use assms in simp_all)

lemma note_fact_noted:
  assumes "noted_facts s fs"
  shows "noted_facts (note_fact f s) (fs @ [f])"
proof -
  have s: "vc_solver s \<noteq> []" "symbols_ok s" using assms by (simp_all add: noted_facts_def)
  show ?thesis
  proof (cases f)
    case (Declared v)
    have same: "vc_solver (snd (declare_symbolic v s)) = vc_solver s" by (simp add: declare_symbolic_def Let_def)
    show ?thesis unfolding Declared note_fact.simps
    proof (rule noted_facts_extend [where cs = "[]", OF assms])
      show "symbols_ok (snd (declare_symbolic v s))" by (rule symbols_declared [OF s(2)])
      show "vc_solver (snd (declare_symbolic v s)) \<noteq> []" using s(1) by (simp add: same)
      show "assertions (vc_solver (snd (declare_symbolic v s))) = assertions (vc_solver s) @ []" by (simp only: same append_Nil2)
    qed (simp add: all_hold_def)
  next
    case (Bound v n)
    let ?c = "ZEq (ZConst (symbol_name v)) (ZNum (sint n))"
    have bind: "assert_binding v n s = assume_condition ?c (snd (declare_symbolic v s))"
      by (simp add: assert_binding_def declare_symbolic_def Let_def)
    have same: "vc_solver (snd (declare_symbolic v s)) = vc_solver s" by (simp add: declare_symbolic_def Let_def)
    show ?thesis unfolding Bound note_fact.simps bind
    proof (rule noted_facts_extend [where cs = "[?c]", OF assms])
      show "symbols_ok (assume_condition ?c (snd (declare_symbolic v s)))"
        using symbols_declared [OF s(2), of v] by (simp add: assume_condition_def symbols_ok_def)
      show "vc_solver (assume_condition ?c (snd (declare_symbolic v s))) \<noteq> []" by (simp add: assume_condition_def)
      show "assertions (vc_solver (assume_condition ?c (snd (declare_symbolic v s)))) = assertions (vc_solver s) @ [?c]"
        using s(1) by (simp add: assume_condition_def same assertions_assert)
      show "all_hold \<nu> [?c]" if "state_of_symbols \<sigma> \<nu>" "satisfies \<sigma> (Bound v n)" for \<sigma> \<nu>
        using that by (simp add: all_hold_def state_of_symbols_def)
    qed
  next
    case (Assumed e)
    show ?thesis
    proof (cases "lower_assume_expr s e")
      case None
      then show ?thesis unfolding Assumed
        by (intro noted_facts_extend [where cs = "[]", OF assms]) (simp_all add: s all_hold_def)
    next
      case (Some c)
      have c: "holds \<nu> c" if "state_of_symbols \<sigma> \<nu>" "true_in \<sigma> e" for \<sigma> \<nu>
        using lower_assume_expr_sound [OF Some s(2) that(1)] that(2) by (auto simp: true_in_def)
      show ?thesis unfolding Assumed using Some
        by (intro noted_facts_extend [where cs = "[c]", OF assms])
          (use s in \<open>simp_all add: assume_condition_def assertions_assert all_hold_def symbols_ok_def c\<close>)
    qed
  qed
qed

lemma facts_noted_ok: "noted_facts (facts_noted fs) fs"
proof (induction fs rule: rev_induct)
  case Nil
  then show ?case by (simp add: facts_noted_def noted_facts_def vc_new_def symbols_ok_def assertions_def all_hold_def)
next
  case (snoc f fs)
  then show ?case using note_fact_noted by (simp add: facts_noted_def)
qed

text \<open>
  Property C26: a contract that the solver proves holds in the program: if \<open>prove_requires\<close>
  succeeds on the lowered condition after any sequence of declarations, bindings and assumptions, then
  the condition evaluates to true in every machine state in which the bindings and the assumptions are
  true, and the context is left as it was.
\<close>

theorem proved_contract_holds:
  assumes "sound_check check" "lower_assume_expr (facts_noted fs) e = Some c"
    and "prove_requires check c (facts_noted fs) = (Inr (), s')"
  shows "s' = facts_noted fs \<and> (\<forall>\<sigma>. (\<forall>f \<in> set fs. satisfies \<sigma> f) \<longrightarrow> true_in \<sigma> e)"
proof (intro conjI allI impI)
  show "s' = facts_noted fs" using prove_requires_restores [of check c "facts_noted fs"] assms(3) by simp
  fix \<sigma> assume facts: "\<forall>f \<in> set fs. satisfies \<sigma> f"
  obtain \<nu> where \<nu>: "state_of_symbols \<sigma> \<nu>" using state_has_valuation by blast
  have "check (assertions (vc_solver (facts_noted fs)) @ [ZNot c]) = Unsat"
    using prove_requires_answer [of check c "facts_noted fs"] assms(3) by (simp split: sat_result.splits)
  then have "\<not> all_hold \<nu> (assertions (vc_solver (facts_noted fs)) @ [ZNot c])"
    by (rule unsat_answer [OF assms(1)])
  moreover have "all_hold \<nu> (assertions (vc_solver (facts_noted fs)))"
    using facts_noted_ok [of fs] facts \<nu> unfolding noted_facts_def by blast
  ultimately have "holds \<nu> c" by (auto simp: all_hold_def)
  then show "true_in \<sigma> e"
    using lower_assume_expr_sound [OF assms(2) _ \<nu>] facts_noted_ok [of fs] by (auto simp: noted_facts_def true_in_def)
qed

abbreviation var_e :: "var_id \<Rightarrow> expr" where
  "var_e v \<equiv> Expr (EVar v) I64"

abbreviation lit_e :: "i64 \<Rightarrow> expr" where
  "lit_e n \<equiv> Expr (ELiteral (LitInt n)) I64"

abbreviation rel_e :: "bin_op \<Rightarrow> expr \<Rightarrow> expr \<Rightarrow> expr" where
  "rel_e op a b \<equiv> Expr (EBinary op a b) Bool"

definition demo_check :: checker where
  "demo_check cs =
     (if cs = [ZEq (ZConst ''v0'') (ZNum 5), ZNot (ZLt (ZConst ''v0'') (ZNum 10))] then Unsat else Unknown)"

lemma char_0 [simp]: "char_of (48::nat) = CHR ''0''"
  by code_simp

lemmas vc_eval = facts_noted_def vc_new_def assert_binding_def assume_condition_def declare_symbolic_def Let_def
  lower_int_expr_def lower_relation_def prove_requires_def push_frame_def pop_frame_def assert_term_def assertions_def
  symbol_name_def show_nat.simps digit_char_def

lemma demo_check_sound: "sound_check demo_check"
  by (simp add: sound_check_def demo_check_def all_hold_def)

theorem proved_contract_holds_witness:
  "true_in (\<lambda>v. if v = 0 then 5 else 77) (rel_e BinLt (var_e 0) (lit_e 10))"
proof -
  let ?e = "rel_e BinLt (var_e 0) (lit_e 10)" and ?c = "ZLt (ZConst ''v0'') (ZNum 10)"
  have c: "lower_assume_expr (facts_noted [Bound 0 5]) ?e = Some ?c" by (simp add: vc_eval)
  have "fst (prove_requires demo_check ?c (facts_noted [Bound 0 5])) = Inr ()"
    by (simp add: vc_eval demo_check_def)
  then have "prove_requires demo_check ?c (facts_noted [Bound 0 5]) = (Inr (), facts_noted [Bound 0 5])"
    using prove_requires_restores [of demo_check ?c "facts_noted [Bound 0 5]"] by (metis prod.collapse)
  from proved_contract_holds [OF demo_check_sound c this] show ?thesis by simp
qed

section \<open>What the context gets wrong\<close>

text \<open>
  A variable has one symbol, whatever is assigned to it: after the values 1 and 2 of a variable are
  bound, the assertions contradict each other and every contract is proved.
\<close>

lemma rebound_variable_proves_anything:
  assumes "deciding_check check"
  shows "fst (prove_requires check (ZBool False) (facts_noted [Bound 0 1, Bound 0 2])) = Inr ()"
  unfolding prove_requires_answer deciding_answer [OF assms] by (auto simp: vc_eval all_hold_def)

text \<open>
  The symbols are unbounded integers: a bound that every machine integer meets is reported as a possible
  violation.
\<close>

lemma machine_range_unknown:
  assumes "deciding_check check"
  shows "\<exists>c. lower_assume_expr (facts_noted [Declared 0]) (rel_e BinLe (var_e 0) (lit_e (2 ^ 63 - 1))) = Some c \<and>
      fst (prove_requires check c (facts_noted [Declared 0])) = Inl ViolationPossible"
    and "true_in \<sigma> (rel_e BinLe (var_e 0) (lit_e (2 ^ 63 - 1)))"
proof -
  have max: "sint (2 ^ 63 - 1 :: i64) = 2 ^ 63 - 1" by simp
  have "\<exists>\<nu>. all_hold \<nu> [ZNot (ZLe (ZConst ''v0'') (ZNum (2 ^ 63 - 1)))]"
    by (rule exI [of _ "\<lparr>int_symbol = \<lambda>_ _. 2 ^ 63, bool_symbol = \<lambda>_ _. False, div_by_zero = id, mod_by_zero = id\<rparr>"])
      simp
  then show "\<exists>c. lower_assume_expr (facts_noted [Declared 0]) (rel_e BinLe (var_e 0) (lit_e (2 ^ 63 - 1))) = Some c \<and>
      fst (prove_requires check c (facts_noted [Declared 0])) = Inl ViolationPossible"
    unfolding prove_requires_answer deciding_answer [OF assms] by (simp add: vc_eval)
  have "sint (\<sigma> 0) < 2 ^ 63" using sint_lt [of "\<sigma> 0"] by simp
  then have "\<sigma> 0 \<le>s 2 ^ 63 - 1" by (simp add: word_sle_eq)
  then show "true_in \<sigma> (rel_e BinLe (var_e 0) (lit_e (2 ^ 63 - 1)))"
    by (simp add: true_in_def machine_binary_def machine_compare_def)
qed

text \<open>Conjunctions are not lowered: an assumption that is one adds nothing.\<close>

lemma conjunction_not_lowered:
  "lower_assume_expr s (rel_e BinAnd (rel_e BinLt (var_e 0) (lit_e 10)) (rel_e BinLt (lit_e 0) (var_e 0))) = None"
  by (simp add: lower_int_expr_def)

end
