(* ===== verification/Loop_Invariants.thy ===== *)
theory Loop_Invariants
  imports Verify_Conditions Salt_Ast
begin

text \<open>
  Inference of loop invariants (\<open>salt-front/src/codegen/passes/loop_invariant.rs\<close>): the
  bounds of every \<open>for i in a..b\<close> of a function are collected and asserted in the solver. A
  name is an integer symbol; the tracker maps the names seen so far to their terms.
\<close>

section \<open>The analysis\<close>

datatype range_bound = BoundLiteral i64 | BoundVariable string

record loop_invariant =
  inv_var :: string
  inv_start :: range_bound
  inv_end :: range_bound
  inv_inclusive :: bool

definition extract_bound :: "syn_expr \<Rightarrow> range_bound option" where
  "extract_bound e =
     (case e of
        SynLit (SynInt n) \<Rightarrow> map_option BoundLiteral (base10_parse_i64 n)
      | SynPath (_, [(name, _)]) \<Rightarrow> Some (BoundVariable name)
      | _ \<Rightarrow> None)"

definition extract_pat_ident :: "syn_pat \<Rightarrow> string option" where
  "extract_pat_ident p = (case p of SynPatIdent name _ \<Rightarrow> Some name | _ \<Rightarrow> None)"

definition extract_range_invariant :: "syn_pat \<Rightarrow> syn_expr \<Rightarrow> loop_invariant option" where
  "extract_range_invariant p iter =
     (case (extract_pat_ident p, iter) of
        (Some name, SynRange start end_ closed) \<Rightarrow>
          (let lo = (case Option.bind start extract_bound of Some b \<Rightarrow> b | None \<Rightarrow> BoundLiteral 0)
           in map_option (\<lambda>hi. \<lparr>inv_var = name, inv_start = lo, inv_end = hi, inv_inclusive = closed\<rparr>)
                (Option.bind end_ extract_bound))
      | _ \<Rightarrow> None)"

fun analyze_stmt :: "stmt_ast \<Rightarrow> loop_invariant list" where
  "analyze_stmt (StFor p iter body) =
     (case extract_range_invariant p iter of Some i \<Rightarrow> [i] | None \<Rightarrow> []) @ concat (map analyze_stmt body)"
| "analyze_stmt (StIf (SaltIf c t e)) =
     concat (map analyze_stmt t) @
     (case e of
        Some (ElseBlock b) \<Rightarrow> concat (map analyze_stmt b)
      | Some (ElseIf (SaltIf c' t' e')) \<Rightarrow> concat (map analyze_stmt t')
      | None \<Rightarrow> [])"
| "analyze_stmt (StWhile c body) = concat (map analyze_stmt body)"
| "analyze_stmt (StLoop body) = concat (map analyze_stmt body)"
| "analyze_stmt (StUnsafe body) = concat (map analyze_stmt body)"
| "analyze_stmt _ = []"

definition analyze_block :: "stmt_ast list \<Rightarrow> loop_invariant list" where
  "analyze_block body = concat (map analyze_stmt body)"

definition analyze_loops :: "salt_fn \<Rightarrow> loop_invariant list" where
  "analyze_loops f = analyze_block (sf_body f)"

section \<open>Assertion in the solver\<close>

definition track :: "string \<Rightarrow> tracker \<Rightarrow> z3_int \<times> tracker" where
  "track name tr = (case tr name of Some z \<Rightarrow> (z, tr) | None \<Rightarrow> (ZConst name, tr(name \<mapsto> ZConst name)))"

definition bound_term :: "range_bound \<Rightarrow> tracker \<Rightarrow> z3_int \<times> tracker" where
  "bound_term b tr = (case b of BoundLiteral n \<Rightarrow> (ZNum (sint n), tr) | BoundVariable name \<Rightarrow> track name tr)"

definition inject_one :: "loop_invariant \<Rightarrow> nat \<times> solver \<times> tracker \<Rightarrow> nat \<times> solver \<times> tracker" where
  "inject_one li st =
     (case st of (n, s, tr) \<Rightarrow>
        (case track (inv_var li) tr of (v, tr) \<Rightarrow>
           (case bound_term (inv_start li) tr of (lo, tr) \<Rightarrow>
              (case bound_term (inv_end li) tr of (hi, tr) \<Rightarrow>
                 (Suc n,
                  assert_term (if inv_inclusive li then ZLe v hi else ZLt v hi) (assert_term (ZGe v lo) s),
                  tr)))))"

definition inject_invariants :: "loop_invariant list \<Rightarrow> solver \<times> tracker \<Rightarrow> nat \<times> solver \<times> tracker" where
  "inject_invariants invs st = fold inject_one invs (0, st)"

section \<open>What is asserted\<close>

definition constants :: "valuation \<Rightarrow> string \<Rightarrow> int" where
  "constants \<nu> name = int_symbol \<nu> name []"

definition bound_value :: "(string \<Rightarrow> int) \<Rightarrow> range_bound \<Rightarrow> int" where
  "bound_value \<sigma> b = (case b of BoundLiteral n \<Rightarrow> sint n | BoundVariable name \<Rightarrow> \<sigma> name)"

definition in_range :: "(string \<Rightarrow> int) \<Rightarrow> loop_invariant \<Rightarrow> bool" where
  "in_range \<sigma> li \<longleftrightarrow> bound_value \<sigma> (inv_start li) \<le> \<sigma> (inv_var li) \<and>
     (if inv_inclusive li then \<sigma> (inv_var li) \<le> bound_value \<sigma> (inv_end li)
      else \<sigma> (inv_var li) < bound_value \<sigma> (inv_end li))"

text \<open>The value of a name: that of its term, if it is tracked.\<close>

definition tracked_value :: "tracker \<Rightarrow> valuation \<Rightarrow> string \<Rightarrow> int" where
  "tracked_value tr \<nu> name = int_value \<nu> (case tr name of Some z \<Rightarrow> z | None \<Rightarrow> ZConst name)"

lemma track_value:
  assumes "track name tr = (z, tr')"
  shows "int_value \<nu> z = tracked_value tr \<nu> name" "tracked_value tr' = tracked_value tr"
proof -
  have "int_value \<nu> z = tracked_value tr \<nu> name \<and> tracked_value tr' \<mu> x = tracked_value tr \<mu> x" for \<mu> x
  proof (cases "tr name")
    case None
    then have "z = ZConst name" "tr' = tr(name \<mapsto> ZConst name)" using assms by (auto simp: track_def)
    then show ?thesis using None by (simp add: tracked_value_def)
  next
    case (Some y)
    then show ?thesis using assms by (simp add: track_def tracked_value_def)
  qed
  then show "int_value \<nu> z = tracked_value tr \<nu> name" "tracked_value tr' = tracked_value tr" by (simp_all add: fun_eq_iff)
qed

lemma bound_term_value:
  assumes "bound_term b tr = (z, tr')"
  shows "int_value \<nu> z = bound_value (tracked_value tr \<nu>) b" "tracked_value tr' = tracked_value tr"
  using assms track_value by (auto simp: bound_term_def bound_value_def split: range_bound.splits)

lemma inject_one_exact:
  assumes "inject_one li (n, s, tr) = (n', s', tr')" "s \<noteq> []"
  shows "n' = Suc n" "s' \<noteq> []" "tracked_value tr' = tracked_value tr"
    "all_hold \<nu> (assertions s') \<longleftrightarrow> all_hold \<nu> (assertions s) \<and> in_range (tracked_value tr \<nu>) li"
proof -
  obtain v tr1 lo tr2 hi where p: "track (inv_var li) tr = (v, tr1)" "bound_term (inv_start li) tr1 = (lo, tr2)"
    "bound_term (inv_end li) tr2 = (hi, tr')"
    and s': "s' = assert_term (if inv_inclusive li then ZLe v hi else ZLt v hi) (assert_term (ZGe v lo) s)" "n' = Suc n"
    using assms(1) by (auto simp: inject_one_def split: prod.splits)
  show "n' = Suc n" "s' \<noteq> []" using s' by simp_all
  show "tracked_value tr' = tracked_value tr"
    using track_value(2) [OF p(1)] bound_term_value(2) [OF p(2)] bound_term_value(2) [OF p(3)] by simp
  have "int_value \<nu> v = tracked_value tr \<nu> (inv_var li)" "int_value \<nu> lo = bound_value (tracked_value tr \<nu>) (inv_start li)"
    "int_value \<nu> hi = bound_value (tracked_value tr \<nu>) (inv_end li)"
    using track_value [OF p(1)] bound_term_value [OF p(2)] bound_term_value [OF p(3)] by simp_all
  then show "all_hold \<nu> (assertions s') \<longleftrightarrow> all_hold \<nu> (assertions s) \<and> in_range (tracked_value tr \<nu>) li"
    using assms(2) by (auto simp: s' assertions_assert all_hold_def in_range_def)
qed

lemma inject_fold_exact:
  assumes "fold inject_one invs (n, s, tr) = (n', s', tr')" "s \<noteq> []"
  shows "n' = n + length invs \<and> s' \<noteq> [] \<and> tracked_value tr' = tracked_value tr \<and>
    (all_hold \<nu> (assertions s') \<longleftrightarrow> all_hold \<nu> (assertions s) \<and> (\<forall>li \<in> set invs. in_range (tracked_value tr \<nu>) li))"
  using assms
proof (induction invs arbitrary: n s tr)
  case (Cons li invs)
  obtain n1 s1 tr1 where 1: "inject_one li (n, s, tr) = (n1, s1, tr1)" by (cases "inject_one li (n, s, tr)") auto
  note one = inject_one_exact [OF 1 Cons.prems(2)]
  have "fold inject_one invs (n1, s1, tr1) = (n', s', tr')" using Cons.prems(1) 1 by simp
  from Cons.IH [OF this one(2)] one show ?case by auto
qed simp

section \<open>Loops around a point\<close>

text \<open>
  A path of \<open>for\<close> loops leads from a body to a point inside; \<open>\<sigma>\<close> is in
  an iteration of a loop when the loop variable lies in the range its iterator denotes, where
  \<open>ev\<close> gives the values of expressions.
\<close>

type_synonym for_loop = "syn_pat \<times> syn_expr"

inductive encloses :: "stmt_ast list \<Rightarrow> for_loop list \<Rightarrow> bool" where
  at_point: "encloses body []"
| in_for: "StFor p iter inner \<in> set body \<Longrightarrow> encloses inner path \<Longrightarrow> encloses body ((p, iter) # path)"
| in_while: "StWhile c inner \<in> set body \<Longrightarrow> encloses inner path \<Longrightarrow> encloses body path"
| in_loop: "StLoop inner \<in> set body \<Longrightarrow> encloses inner path \<Longrightarrow> encloses body path"
| in_unsafe: "StUnsafe inner \<in> set body \<Longrightarrow> encloses inner path \<Longrightarrow> encloses body path"
| in_then: "StIf (SaltIf c inner e) \<in> set body \<Longrightarrow> encloses inner path \<Longrightarrow> encloses body path"
| in_else: "StIf (SaltIf c t (Some (ElseBlock inner))) \<in> set body \<Longrightarrow> encloses inner path \<Longrightarrow> encloses body path"

definition loop_fact :: "for_loop \<Rightarrow> loop_invariant option" where
  "loop_fact l = extract_range_invariant (fst l) (snd l)"

lemma stmt_of_block: "s \<in> set body \<Longrightarrow> set (analyze_stmt s) \<subseteq> set (analyze_block body)"
  by (auto simp: analyze_block_def)

lemma enclosing_found:
  assumes "encloses body path" "l \<in> set path" "loop_fact l = Some li"
  shows "li \<in> set (analyze_block body)"
  using assms
proof (induction arbitrary: l li)
  case (in_for p iter inner body path)
  have "li \<in> set (analyze_stmt (StFor p iter inner))"
  proof (cases "l = (p, iter)")
    case True
    then show ?thesis using in_for.prems by (simp add: loop_fact_def)
  next
    case False
    then show ?thesis using in_for.prems in_for.IH [of l li] by (simp add: analyze_block_def)
  qed
  then show ?case using stmt_of_block [OF in_for.hyps(1)] by blast
qed (use stmt_of_block in \<open>fastforce simp: analyze_block_def\<close>)+

definition reads_state :: "((string \<Rightarrow> int) \<Rightarrow> syn_expr \<Rightarrow> int) \<Rightarrow> bool" where
  "reads_state ev \<longleftrightarrow> (\<forall>\<sigma> n l name g. ev \<sigma> (SynLit (SynInt n)) = n \<and> ev \<sigma> (SynPath (l, [(name, g)])) = \<sigma> name)"

definition in_iteration :: "((string \<Rightarrow> int) \<Rightarrow> syn_expr \<Rightarrow> int) \<Rightarrow> (string \<Rightarrow> int) \<Rightarrow> for_loop \<Rightarrow> bool" where
  "in_iteration ev \<sigma> l =
     (case l of
        (SynPatIdent x _, SynRange start end_ closed) \<Rightarrow>
          (case start of Some e \<Rightarrow> ev \<sigma> e \<le> \<sigma> x | None \<Rightarrow> 0 \<le> \<sigma> x) \<and>
          (case end_ of Some e \<Rightarrow> if closed then \<sigma> x \<le> ev \<sigma> e else \<sigma> x < ev \<sigma> e | None \<Rightarrow> True)
      | _ \<Rightarrow> True)"

definition plain_start :: "for_loop \<Rightarrow> bool" where
  "plain_start l = (case snd l of SynRange (Some e) _ _ \<Rightarrow> extract_bound e \<noteq> None | _ \<Rightarrow> True)"

lemma bound_read:
  assumes "reads_state ev" "extract_bound e = Some b"
  shows "bound_value \<sigma> b = ev \<sigma> e"
proof -
  have "sint (word_of_int n :: i64) = n" if "- (2 ^ 63) \<le> n" "n < 2 ^ 63" for n :: int
    using that by (simp add: sint_sbintrunc' signed_take_bit_int_eq_self)
  then show ?thesis using assms unfolding reads_state_def extract_bound_def bound_value_def base10_parse_i64_def
    by (auto split: syn_expr.splits syn_lit.splits list.splits prod.splits if_splits)
qed

lemma iteration_in_range:
  assumes "reads_state ev" "in_iteration ev \<sigma> l" "plain_start l" "loop_fact l = Some li"
  shows "in_range \<sigma> li"
proof -
  obtain p iter where l: "l = (p, iter)" by (cases l)
  from assms(4) obtain x m start e closed b where shape: "p = SynPatIdent x m" "iter = SynRange start (Some e) closed"
    "extract_bound e = Some b" "li = \<lparr>inv_var = x, inv_start = (case Option.bind start extract_bound of
       Some b \<Rightarrow> b | None \<Rightarrow> BoundLiteral 0), inv_end = b, inv_inclusive = closed\<rparr>"
    unfolding loop_fact_def extract_range_invariant_def extract_pat_ident_def l
    by (auto simp: Let_def split: syn_pat.splits syn_expr.splits option.splits bind_splits)
  have "bound_value \<sigma> (inv_start li) \<le> \<sigma> x"
  proof (cases start)
    case None
    then show ?thesis using assms(2) by (simp add: shape l in_iteration_def bound_value_def)
  next
    case (Some s)
    then obtain c where "extract_bound s = Some c" using assms(3) by (auto simp: plain_start_def l shape)
    with Some bound_read [OF assms(1) this] assms(2) show ?thesis by (simp add: shape l in_iteration_def)
  qed
  then show ?thesis using bound_read [OF assms(1) shape(3)] assms(2) by (auto simp: shape l in_iteration_def in_range_def)
qed

text \<open>
  Property C29: the inferred invariants prove only what holds: the injection asserts one lower and one upper
  bound for every invariant found and nothing else; if, after it, the solver proves a condition in a
  function whose range loops all enclose a point, with starts that are literals or names, then the
  condition holds whenever execution is at that point, in any iteration.
\<close>

theorem loop_proof_sound:
  assumes "sound_check check"
    and inj: "inject_invariants (analyze_loops f) ([[]], Map.empty) = (n, s, tr)"
    and proved: "fst (prove_requires check c \<lparr>vc_solver = s, symbolic_vars = vars\<rparr>) = Inr ()"
    and path: "encloses (sf_body f) path" "\<forall>li \<in> set (analyze_loops f). \<exists>l \<in> set path. loop_fact l = Some li"
    and point: "reads_state ev" "\<forall>l \<in> set path. plain_start l \<and> in_iteration ev \<sigma> l"
  shows "(\<forall>\<nu>. constants \<nu> = \<sigma> \<longrightarrow> holds \<nu> c) \<and> n = length (analyze_loops f) \<and>
    (\<forall>l \<in> set path. \<forall>li. loop_fact l = Some li \<longrightarrow> li \<in> set (analyze_loops f)) \<and>
    (\<forall>\<nu>. all_hold \<nu> (assertions s) \<longleftrightarrow> (\<forall>li \<in> set (analyze_loops f). in_range (constants \<nu>) li))"
proof -
  have exact: "n = length (analyze_loops f)"
    "all_hold \<nu> (assertions s) \<longleftrightarrow> (\<forall>li \<in> set (analyze_loops f). in_range (constants \<nu>) li)" for \<nu>
  proof -
    have "tracked_value Map.empty \<nu> = constants \<nu>" by (simp add: tracked_value_def constants_def fun_eq_iff)
    then show "n = length (analyze_loops f)"
      "all_hold \<nu> (assertions s) \<longleftrightarrow> (\<forall>li \<in> set (analyze_loops f). in_range (constants \<nu>) li)"
      using inject_fold_exact [OF inj [unfolded inject_invariants_def], of \<nu>]
      by (simp_all add: all_hold_def assertions_def)
  qed
  have "in_range \<sigma> li" if li: "li \<in> set (analyze_loops f)" for li
  proof -
    from path(2) li obtain l where "l \<in> set path" "loop_fact l = Some li" by blast
    with point show ?thesis using iteration_in_range by blast
  qed
  then have "all_hold \<nu> (assertions s)" if "constants \<nu> = \<sigma>" for \<nu> using exact(2) that by blast
  moreover have "check (assertions s @ [ZNot c]) = Unsat"
    using proved by (simp add: prove_requires_answer split: sat_result.splits)
  then have "\<not> all_hold \<nu> (assertions s @ [ZNot c])" for \<nu> by (rule unsat_answer [OF assms(1)])
  ultimately have "holds \<nu> c" if "constants \<nu> = \<sigma>" for \<nu> using that by auto
  with exact enclosing_found [OF path(1)] show ?thesis unfolding analyze_loops_def by blast
qed

abbreviation int_lit :: "int \<Rightarrow> syn_expr" where
  "int_lit n \<equiv> SynLit (SynInt n)"

abbreviation name_e :: "string \<Rightarrow> syn_expr" where
  "name_e x \<equiv> SynPath (False, [(x, False)])"

abbreviation for_s :: "string \<Rightarrow> syn_expr \<Rightarrow> stmt_ast list \<Rightarrow> stmt_ast" where
  "for_s x iter body \<equiv> StFor (SynPatIdent x False) iter body"

definition loops_fn :: "stmt_ast list \<Rightarrow> salt_fn" where
  "loops_fn body = \<lparr>sf_attributes = [], sf_pub = False, sf_name = ''f'', sf_generics = None, sf_args = [], sf_ret = None,
     sf_body = body\<rparr>"

abbreviation outer_range :: syn_expr where
  "outer_range \<equiv> SynRange (Some (int_lit 0)) (Some (name_e ''n'')) False"

abbreviation inner_range :: syn_expr where
  "inner_range \<equiv> SynRange (Some (name_e ''i'')) (Some (int_lit 9)) True"

definition nested_loops :: salt_fn where
  "nested_loops = loops_fn [for_s ''i'' outer_range [StLoop [for_s ''j'' inner_range []]]]"

definition loop_check :: checker where
  "loop_check cs =
     (if cs = [ZGe (ZConst ''i'') (ZNum 0), ZLt (ZConst ''i'') (ZConst ''n''), ZGe (ZConst ''j'') (ZConst ''i''),
               ZLe (ZConst ''j'') (ZNum 9), ZNot (ZGe (ZConst ''j'') (ZNum 0))]
      then Unsat else Unknown)"

definition example_ev :: "(string \<Rightarrow> int) \<Rightarrow> syn_expr \<Rightarrow> int" where
  "example_ev \<sigma> e = (case e of SynLit (SynInt n) \<Rightarrow> n | SynPath (_, [(name, _)]) \<Rightarrow> \<sigma> name | _ \<Rightarrow> 0)"

lemmas loop_eval = loops_fn_def analyze_loops_def analyze_block_def extract_range_invariant_def extract_pat_ident_def
  extract_bound_def base10_parse_i64_def Let_def inject_invariants_def inject_one_def track_def bound_term_def
  assert_term_def assertions_def

definition example_point :: "string \<Rightarrow> int" where
  "example_point name = (if name = ''i'' then 3 else if name = ''j'' then 7 else 20)"

theorem loop_proof_sound_witness:
  "holds \<lparr>int_symbol = \<lambda>f _. example_point f, bool_symbol = \<lambda>_ _. False, div_by_zero = \<lambda>n. n, mod_by_zero = \<lambda>n. n\<rparr>
     (ZGe (ZConst ''j'') (ZNum 0))"
proof -
  let ?\<nu> = "\<lparr>int_symbol = \<lambda>f _. example_point f, bool_symbol = \<lambda>_ _. False, div_by_zero = \<lambda>n. n, mod_by_zero = \<lambda>n. n\<rparr>"
  let ?path = "[(SynPatIdent ''i'' False, outer_range), (SynPatIdent ''j'' False, inner_range)]"
  obtain n s tr where inj: "inject_invariants (analyze_loops nested_loops) ([[]], Map.empty) = (n, s, tr)"
    "s = [[ZGe (ZConst ''i'') (ZNum 0), ZLt (ZConst ''i'') (ZConst ''n''), ZGe (ZConst ''j'') (ZConst ''i''),
      ZLe (ZConst ''j'') (ZNum 9)]]"
    by (simp add: nested_loops_def loop_eval)
  have sound: "sound_check loop_check" by (auto simp: sound_check_def loop_check_def)
  have proved: "fst (prove_requires loop_check (ZGe (ZConst ''j'') (ZNum 0)) \<lparr>vc_solver = s, symbolic_vars = Map.empty\<rparr>) = Inr ()"
    by (simp add: prove_requires_answer inj(2) assertions_def loop_check_def)
  have path: "encloses (sf_body nested_loops) ?path"
    unfolding nested_loops_def loops_fn_def
    by simp (rule in_for, simp, rule in_loop, simp, rule in_for, simp, rule at_point)
  have "constants ?\<nu> = example_point" by (simp add: constants_def fun_eq_iff)
  moreover have "\<forall>\<nu>. constants \<nu> = example_point \<longrightarrow> holds \<nu> (ZGe (ZConst ''j'') (ZNum 0))"
    using loop_proof_sound [OF sound inj(1) proved path, of example_ev example_point]
    by (simp add: nested_loops_def loop_eval loop_fact_def reads_state_def example_ev_def example_point_def plain_start_def in_iteration_def)
  ultimately show ?thesis by blast
qed

section \<open>What the injection assumes too much\<close>

text \<open>
  The assertions of all loops stand together: two loops that use one variable after each other, with
  disjoint ranges, contradict each other, and every condition is proved.
\<close>

lemma sequential_loops_prove_anything:
  assumes "deciding_check check"
  shows "\<exists>n s tr. inject_invariants (analyze_loops (loops_fn
      [for_s ''i'' (SynRange (Some (int_lit 0)) (Some (int_lit 5)) False) [],
       for_s ''i'' (SynRange (Some (int_lit 5)) (Some (int_lit 10)) False) []])) ([[]], Map.empty) = (n, s, tr) \<and>
    fst (prove_requires check (ZBool False) \<lparr>vc_solver = s, symbolic_vars = Map.empty\<rparr>) = Inr ()"
  unfolding prove_requires_answer deciding_answer [OF assms] by (auto simp: loop_eval all_hold_def)

text \<open>A loop is assumed to run: \<open>for i in 0..n\<close> proves that \<open>n\<close> is positive, also outside of the loop.\<close>

lemma empty_loop_assumed_to_run:
  assumes "deciding_check check"
  shows "\<exists>n s tr. inject_invariants (analyze_loops (loops_fn [for_s ''i'' outer_range []])) ([[]], Map.empty) = (n, s, tr) \<and>
    fst (prove_requires check (ZGt (ZConst ''n'') (ZNum 0)) \<lparr>vc_solver = s, symbolic_vars = Map.empty\<rparr>) = Inr ()"
  unfolding prove_requires_answer deciding_answer [OF assms] by (auto simp: loop_eval all_hold_def)

text \<open>A start that is neither a literal nor a name, such as \<open>-3\<close>, counts as 0.\<close>

lemma negative_start_counts_as_zero:
  "extract_range_invariant (SynPatIdent ''i'' False) (SynRange (Some (SynUnary OpNeg (int_lit 3))) (Some (int_lit 3)) False) =
     Some \<lparr>inv_var = ''i'', inv_start = BoundLiteral 0, inv_end = BoundLiteral 3, inv_inclusive = False\<rparr>"
  by (simp add: loop_eval)

text \<open>Of an \<open>else if\<close> only the first branch is searched for loops.\<close>

lemma else_of_else_if_not_searched:
  "analyze_stmt (StIf (SaltIf c [] (Some (ElseIf (SaltIf c' [] (Some (ElseBlock [for_s ''i'' outer_range []]))))))) = []"
  by simp

end
