(* ===== verification/Contracts.thy ===== *)
theory Contracts
  imports Solver_Terms Salt_Ast Salt_Types "HOL-Library.Signed_Division"
begin

text \<open>
  The contracts of functions: how conditions become terms of the solver (\<open>translate_to_z3\<close>
  and \<open>translate_bool_to_z3\<close> of \<open>salt-front/src/codegen/expr/memory.rs\<close>), the
  check of the \<open>requires\<close> clauses at a call and of the \<open>ensures\<close> clauses at a
  return (\<open>codegen/verification/mod.rs\<close>), and the run-time checks at the entry of a
  function (\<open>emit_fn\<close> in \<open>codegen/mod.rs\<close>). The theorems compare the integers
  of the solver with the 64-bit words of the machine: they agree where nothing overflows.
\<close>

section \<open>Translation to terms\<close>

text \<open>A local is known by the address of its slot or by the name of its value.\<close>

datatype local_kind = LocalPtr string | LocalSSA string

type_synonym locals = "string \<rightharpoonup> ty \<times> local_kind"

datatype translate_error =
    LiteralOutOfRange
  | UnsupportedOperator syn_bin_op
  | UnsupportedUnary syn_un_op
  | UnnamedField
  | UnsupportedBoolOperator syn_bin_op
  | ArithmeticInBool
  | UnsupportedBool

definition arith_term :: "syn_bin_op \<Rightarrow> z3_int \<Rightarrow> z3_int \<Rightarrow> (translate_error, z3_int) result" where
  "arith_term op a b =
     (case op of
        OpAdd \<Rightarrow> Inr (ZAdd a b)
      | OpSub \<Rightarrow> Inr (ZSub a b)
      | OpMul \<Rightarrow> Inr (ZMul a b)
      | OpDiv \<Rightarrow> Inr (ZDiv a b)
      | _ \<Rightarrow> Inl (UnsupportedOperator op))"

definition variable_term :: "locals \<Rightarrow> tracker \<Rightarrow> string \<Rightarrow> z3_int" where
  "variable_term locals tr name =
     (case locals name of
        Some (_, LocalSSA ssa) \<Rightarrow> (case tr ssa of Some z \<Rightarrow> z | None \<Rightarrow> ZConst name)
      | _ \<Rightarrow> ZConst name)"

definition last_segment :: "syn_path \<Rightarrow> string" where
  "last_segment p = fst (last (snd p))"

definition function_symbol :: "string \<Rightarrow> syn_expr \<Rightarrow> string" where
  "function_symbol unnamed f =
     (case f of SynPath p \<Rightarrow> join_with ''_'' (map fst (snd p)) | _ \<Rightarrow> unnamed)"

text \<open>A member is a name or, for a tuple, a number.\<close>

definition named_member :: "string \<Rightarrow> bool" where
  "named_member m = (case m of c # _ \<Rightarrow> \<not> (48 \<le> (of_char c :: nat) \<and> of_char c < (58 :: nat)) | [] \<Rightarrow> False)"

definition field_symbol :: "string \<Rightarrow> string" where
  "field_symbol m = ''field_'' @ m"

definition method_symbol :: "string \<Rightarrow> string" where
  "method_symbol m = ''method_'' @ m"

text \<open>Every expression of another kind is the one symbol \<open>unknown\<close>.\<close>

fun translate_int :: "locals \<Rightarrow> tracker \<Rightarrow> syn_expr \<Rightarrow> (translate_error, z3_int) result"
and translate_ints :: "locals \<Rightarrow> tracker \<Rightarrow> syn_expr list \<Rightarrow> (translate_error, z3_int list) result" where
  "translate_int ls tr (SynLit l) =
     (case l of
        SynInt n \<Rightarrow> (case base10_parse_i64 n of Some w \<Rightarrow> Inr (ZNum (sint w)) | None \<Rightarrow> Inl LiteralOutOfRange)
      | _ \<Rightarrow> Inr (ZConst ''unknown''))"
| "translate_int ls tr (SynPath p) = Inr (variable_term ls tr (last_segment p))"
| "translate_int ls tr (SynBinary l op r) =
     (case translate_int ls tr l of
        Inl e \<Rightarrow> Inl e
      | Inr a \<Rightarrow> (case translate_int ls tr r of Inl e \<Rightarrow> Inl e | Inr b \<Rightarrow> arith_term op a b))"
| "translate_int ls tr (SynParen e) = translate_int ls tr e"
| "translate_int ls tr (SynField e m) =
     (case translate_int ls tr e of
        Inl err \<Rightarrow> Inl err
      | Inr a \<Rightarrow> if named_member m then Inr (ZApp (field_symbol m) [a]) else Inl UnnamedField)"
| "translate_int ls tr (SynCast e t) = translate_int ls tr e"
| "translate_int ls tr (SynUnary op e) =
     (case translate_int ls tr e of
        Inl err \<Rightarrow> Inl err
      | Inr a \<Rightarrow> if op = OpNeg then Inr (ZNeg a) else Inl (UnsupportedUnary op))"
| "translate_int ls tr (SynCall f as) =
     (case translate_ints ls tr as of
        Inl err \<Rightarrow> Inl err
      | Inr zs \<Rightarrow> Inr (ZApp (function_symbol ''unknown_fn'' f) zs))"
| "translate_int ls tr (SynMethodCall e m as) =
     (case translate_int ls tr e of
        Inl err \<Rightarrow> Inl err
      | Inr z \<Rightarrow>
          (case translate_ints ls tr as of
             Inl err \<Rightarrow> Inl err
           | Inr zs \<Rightarrow> Inr (ZApp (method_symbol m) (z # zs))))"
| "translate_int ls tr _ = Inr (ZConst ''unknown'')"
| "translate_ints ls tr [] = Inr []"
| "translate_ints ls tr (e # es) =
     (case translate_int ls tr e of
        Inl err \<Rightarrow> Inl err
      | Inr z \<Rightarrow> (case translate_ints ls tr es of Inl err \<Rightarrow> Inl err | Inr zs \<Rightarrow> Inr (z # zs)))"

definition comparison_term :: "syn_bin_op \<Rightarrow> z3_int \<Rightarrow> z3_int \<Rightarrow> z3_bool option" where
  "comparison_term op a b =
     (case op of
        OpEq \<Rightarrow> Some (ZEq a b)
      | OpNe \<Rightarrow> Some (ZNot (ZEq a b))
      | OpLt \<Rightarrow> Some (ZLt a b)
      | OpLe \<Rightarrow> Some (ZLe a b)
      | OpGt \<Rightarrow> Some (ZGt a b)
      | OpGe \<Rightarrow> Some (ZGe a b)
      | _ \<Rightarrow> None)"

definition is_comparison :: "syn_bin_op \<Rightarrow> bool" where
  "is_comparison op \<longleftrightarrow> op \<in> {OpEq, OpNe, OpLt, OpLe, OpGt, OpGe}"

fun translate_bool :: "locals \<Rightarrow> tracker \<Rightarrow> syn_expr \<Rightarrow> (translate_error, z3_bool) result" where
  "translate_bool ls tr (SynBinary l op r) =
     (if is_comparison op then
        (case translate_int ls tr l of
           Inl e \<Rightarrow> Inl e
         | Inr a \<Rightarrow>
             (case translate_int ls tr r of
                Inl e \<Rightarrow> Inl e
              | Inr b \<Rightarrow> (case comparison_term op a b of Some c \<Rightarrow> Inr c | None \<Rightarrow> Inl (UnsupportedBoolOperator op))))
      else if op = OpAnd \<or> op = OpOr then
        (case translate_bool ls tr l of
           Inl e \<Rightarrow> Inl e
         | Inr a \<Rightarrow>
             (case translate_bool ls tr r of
                Inl e \<Rightarrow> Inl e
              | Inr b \<Rightarrow> Inr (if op = OpAnd then ZAnd [a, b] else ZOr [a, b])))
      else Inl (UnsupportedBoolOperator op))"
| "translate_bool ls tr (SynUnary op e) =
     (if op = OpNot then
        (case translate_bool ls tr e of Inl err \<Rightarrow> Inl err | Inr c \<Rightarrow> Inr (ZNot c))
      else Inl ArithmeticInBool)"
| "translate_bool ls tr (SynParen e) = translate_bool ls tr e"
| "translate_bool ls tr (SynLit l) = (case l of SynBool b \<Rightarrow> Inr (ZBool b) | _ \<Rightarrow> Inl UnsupportedBool)"
| "translate_bool ls tr (SynCall f as) =
     (case translate_ints ls tr as of
        Inl err \<Rightarrow> Inl err
      | Inr zs \<Rightarrow> Inr (ZPred (function_symbol ''unknown_bool_fn'' f) zs))"
| "translate_bool ls tr (SynMethodCall e m as) =
     (case translate_int ls tr e of
        Inl err \<Rightarrow> Inl err
      | Inr z \<Rightarrow>
          (case translate_ints ls tr as of
             Inl err \<Rightarrow> Inl err
           | Inr zs \<Rightarrow> Inr (ZPred (method_symbol m) (z # zs))))"
| "translate_bool ls tr _ = Inl UnsupportedBool"

section \<open>The meaning of expressions in the machine\<close>

text \<open>
  A state gives the variables their values, and an interpretation to the functions that a condition
  calls. As in the solver, functions are told apart by their symbol and the number of arguments, which
  are words; a call without arguments has no meaning here, since its symbol is that of a variable.
\<close>

record machine =
  var_value :: "string \<Rightarrow> i64"
  int_function :: "string \<Rightarrow> i64 list \<Rightarrow> i64"
  bool_function :: "string \<Rightarrow> i64 list \<Rightarrow> bool"

definition in_i64 :: "int \<Rightarrow> bool" where
  "in_i64 n \<longleftrightarrow> - (2 ^ 63) \<le> n \<and> n < 2 ^ 63"

text \<open>Division rounds to zero; by zero, and where the quotient is no word, it has no result.\<close>

definition machine_arith :: "syn_bin_op \<Rightarrow> i64 \<Rightarrow> i64 \<Rightarrow> i64 option" where
  "machine_arith op a b =
     (case op of
        OpAdd \<Rightarrow> Some (a + b)
      | OpSub \<Rightarrow> Some (a - b)
      | OpMul \<Rightarrow> Some (a * b)
      | OpDiv \<Rightarrow> let q = sint a sdiv sint b in if b = 0 \<or> \<not> in_i64 q then None else Some (word_of_int q)
      | _ \<Rightarrow> None)"

fun word_of :: "machine \<Rightarrow> syn_expr \<Rightarrow> i64 option"
and words_of :: "machine \<Rightarrow> syn_expr list \<Rightarrow> i64 list option" where
  "word_of M (SynLit l) = (case l of SynInt n \<Rightarrow> base10_parse_i64 n | _ \<Rightarrow> None)"
| "word_of M (SynPath p) = Some (var_value M (last_segment p))"
| "word_of M (SynBinary l op r) =
     (case (word_of M l, word_of M r) of (Some a, Some b) \<Rightarrow> machine_arith op a b | _ \<Rightarrow> None)"
| "word_of M (SynParen e) = word_of M e"
| "word_of M (SynField e m) =
     (case word_of M e of
        Some a \<Rightarrow> if named_member m then Some (int_function M (field_symbol m) [a]) else None
      | None \<Rightarrow> None)"
| "word_of M (SynUnary op e) =
     (case word_of M e of Some a \<Rightarrow> if op = OpNeg then Some (- a) else None | None \<Rightarrow> None)"
| "word_of M (SynCall f as) =
     (case words_of M as of
        Some (w # ws) \<Rightarrow> Some (int_function M (function_symbol ''unknown_fn'' f) (w # ws))
      | _ \<Rightarrow> None)"
| "word_of M (SynMethodCall e m as) =
     (case (word_of M e, words_of M as) of
        (Some w, Some ws) \<Rightarrow> Some (int_function M (method_symbol m) (w # ws))
      | _ \<Rightarrow> None)"
| "word_of M _ = None"
| "words_of M [] = Some []"
| "words_of M (e # es) =
     (case (word_of M e, words_of M es) of (Some w, Some ws) \<Rightarrow> Some (w # ws) | _ \<Rightarrow> None)"

definition machine_compare :: "syn_bin_op \<Rightarrow> i64 \<Rightarrow> i64 \<Rightarrow> bool" where
  "machine_compare op a b =
     (case op of
        OpEq \<Rightarrow> a = b | OpNe \<Rightarrow> a \<noteq> b | OpLt \<Rightarrow> a <s b | OpLe \<Rightarrow> a \<le>s b | OpGt \<Rightarrow> b <s a | OpGe \<Rightarrow> b \<le>s a
      | _ \<Rightarrow> False)"

fun truth_of :: "machine \<Rightarrow> syn_expr \<Rightarrow> bool option" where
  "truth_of M (SynBinary l op r) =
     (if is_comparison op then
        (case (word_of M l, word_of M r) of (Some a, Some b) \<Rightarrow> Some (machine_compare op a b) | _ \<Rightarrow> None)
      else if op = OpAnd \<or> op = OpOr then
        (case (truth_of M l, truth_of M r) of
           (Some a, Some b) \<Rightarrow> Some (if op = OpAnd then a \<and> b else a \<or> b)
         | _ \<Rightarrow> None)
      else None)"
| "truth_of M (SynUnary op e) = (if op = OpNot then map_option Not (truth_of M e) else None)"
| "truth_of M (SynParen e) = truth_of M e"
| "truth_of M (SynLit l) = (case l of SynBool b \<Rightarrow> Some b | _ \<Rightarrow> None)"
| "truth_of M (SynCall f as) =
     (case words_of M as of
        Some ws \<Rightarrow> Some (bool_function M (function_symbol ''unknown_bool_fn'' f) ws)
      | None \<Rightarrow> None)"
| "truth_of M (SynMethodCall e m as) =
     (case (word_of M e, words_of M as) of
        (Some w, Some ws) \<Rightarrow> Some (bool_function M (method_symbol m) (w # ws))
      | _ \<Rightarrow> None)"
| "truth_of M (SynBlock [SynStmtExpr e _]) = truth_of M e"
| "truth_of M _ = None"

text \<open>
  No operation of an expression leaves the 64-bit range, and the dividends are not negative: there the
  quotients of the machine, rounded to zero, and of the solver are the same.
\<close>

definition arith_fits :: "syn_bin_op \<Rightarrow> i64 \<Rightarrow> i64 \<Rightarrow> bool" where
  "arith_fits op a b =
     (case op of
        OpAdd \<Rightarrow> in_i64 (sint a + sint b)
      | OpSub \<Rightarrow> in_i64 (sint a - sint b)
      | OpMul \<Rightarrow> in_i64 (sint a * sint b)
      | OpDiv \<Rightarrow> 0 \<le> sint a \<and> b \<noteq> 0
      | _ \<Rightarrow> False)"

fun no_overflow :: "machine \<Rightarrow> syn_expr \<Rightarrow> bool" where
  "no_overflow M (SynLit l) \<longleftrightarrow> (case l of SynInt n \<Rightarrow> in_i64 n | SynBool b \<Rightarrow> True | _ \<Rightarrow> False)"
| "no_overflow M (SynPath p) \<longleftrightarrow> True"
| "no_overflow M (SynBinary l op r) \<longleftrightarrow> no_overflow M l \<and> no_overflow M r \<and>
     (is_comparison op \<or> op = OpAnd \<or> op = OpOr \<or>
      (case (word_of M l, word_of M r) of (Some a, Some b) \<Rightarrow> arith_fits op a b | _ \<Rightarrow> False))"
| "no_overflow M (SynParen e) \<longleftrightarrow> no_overflow M e"
| "no_overflow M (SynField e m) \<longleftrightarrow> no_overflow M e"
| "no_overflow M (SynUnary op e) \<longleftrightarrow> no_overflow M e \<and>
     (op = OpNeg \<longrightarrow> (case word_of M e of Some a \<Rightarrow> in_i64 (- sint a) | None \<Rightarrow> False))"
| "no_overflow M (SynCall f as) \<longleftrightarrow> as \<noteq> [] \<and> list_all (no_overflow M) as"
| "no_overflow M (SynMethodCall e m as) \<longleftrightarrow> no_overflow M e \<and> list_all (no_overflow M) as"
| "no_overflow M (SynBlock [SynStmtExpr e _]) \<longleftrightarrow> no_overflow M e"
| "no_overflow M _ \<longleftrightarrow> False"

text \<open>A valuation of the symbols that stands for a state.\<close>

definition stands_for :: "valuation \<Rightarrow> machine \<Rightarrow> locals \<Rightarrow> tracker \<Rightarrow> bool" where
  "stands_for \<nu> M ls tr \<longleftrightarrow>
     (\<forall>x. int_value \<nu> (variable_term ls tr x) = sint (var_value M x)) \<and>
     (\<forall>f w ws. int_symbol \<nu> f (map sint (w # ws)) = sint (int_function M f (w # ws))) \<and>
     (\<forall>f ws. bool_symbol \<nu> f (map sint ws) = bool_function M f ws)"

lemma sint_of_int: "in_i64 n \<Longrightarrow> sint (word_of_int n :: i64) = n"
  by (simp add: in_i64_def sint_sbintrunc' signed_take_bit_int_eq_self)

lemma parse_fits: "base10_parse_i64 n = Some w \<Longrightarrow> sint w = n"
  by (auto simp: base10_parse_i64_def sint_of_int in_i64_def split: if_splits)

lemma in_i64_sint: "in_i64 (sint (w :: i64))"
  using sint_range_size [of w] by (simp add: in_i64_def word_size)

lemma sint_zero [simp]: "sint (b :: i64) = 0 \<longleftrightarrow> b = 0"
  by (metis signed_0 signed_word_eqI)

lemma sdiv_nonneg:
  assumes "0 \<le> sint (a :: i64)" "(b :: i64) \<noteq> 0"
  shows "sint a sdiv sint b = euclid_div (sint a) (sint b)" "in_i64 (sint a sdiv sint b)"
proof -
  show "sint a sdiv sint b = euclid_div (sint a) (sint b)"
    using assms by (auto simp: signed_divide_int_def euclid_div_def sgn_if abs_if)
  have b: "0 < \<bar>sint b\<bar>" using assms(2) sint_zero [of b] by linarith
  have "sint a div \<bar>sint b\<bar> \<le> sint a" using zdiv_mono2 [of "sint a" 1 "\<bar>sint b\<bar>"] assms(1) b by simp
  moreover have "0 \<le> sint a div \<bar>sint b\<bar>" using assms(1) b by (simp add: pos_imp_zdiv_nonneg_iff)
  ultimately have "\<bar>sint a sdiv sint b\<bar> \<le> sint a"
    using assms(1) by (auto simp: signed_divide_int_def abs_mult sgn_if)
  then show "in_i64 (sint a sdiv sint b)" using in_i64_sint [of a] assms(1) by (auto simp: in_i64_def)
qed

lemma arith_exact:
  assumes "arith_fits op a b" "int_value \<nu> y = sint a" "int_value \<nu> z = sint b"
  shows "\<exists>w t. machine_arith op a b = Some w \<and> arith_term op y z = Inr t \<and> int_value \<nu> t = sint w"
proof -
  have "word_of_int (sint a + sint b) = a + b" "word_of_int (sint a - sint b) = a - b"
    "word_of_int (sint a * sint b) = a * b"
    by (simp_all add: wi_hom_syms)
  then show ?thesis
    using assms sint_of_int [of "sint a + sint b"] sint_of_int [of "sint a - sint b"] sint_of_int [of "sint a * sint b"]
      sdiv_nonneg [of a b] sint_of_int [of "sint a sdiv sint b"]
    by (cases op) (simp_all add: arith_fits_def machine_arith_def arith_term_def Let_def)
qed

section \<open>Terms and values agree\<close>

lemma stands_for_int:
  "stands_for \<nu> M ls tr \<Longrightarrow> ws \<noteq> [] \<Longrightarrow> int_symbol \<nu> f (map sint ws) = sint (int_function M f ws)"
  by (cases ws) (simp_all add: stands_for_def)

lemma stands_for_bool: "stands_for \<nu> M ls tr \<Longrightarrow> bool_symbol \<nu> f (map sint ws) = bool_function M f ws"
  by (simp add: stands_for_def)

lemma translation_exact:
  shows "stands_for \<nu> M ls tr \<Longrightarrow> no_overflow M e \<Longrightarrow> translate_int ls tr e = Inr z \<Longrightarrow> word_of M e = Some w \<Longrightarrow>
      int_value \<nu> z = sint w"
    and "stands_for \<nu> M ls tr \<Longrightarrow> list_all (no_overflow M) es \<Longrightarrow> translate_ints ls tr es = Inr zs \<Longrightarrow>
      words_of M es = Some ws \<Longrightarrow> map (int_value \<nu>) zs = map sint ws"
proof (induction ls tr e and ls tr es arbitrary: z w and zs ws rule: translate_int_translate_ints.induct)
  case (1 ls tr l)
  then show ?case by (auto simp: parse_fits split: syn_lit.splits option.splits)
next
  case (2 ls tr p)
  then show ?case by (auto simp: stands_for_def)
next
  case (3 ls tr l op r)
  obtain y x where t: "translate_int ls tr l = Inr y" "translate_int ls tr r = Inr x" "arith_term op y x = Inr z"
    using "3.prems"(3) by (auto split: sum.splits)
  obtain a b where w: "word_of M l = Some a" "word_of M r = Some b" "machine_arith op a b = Some w"
    using "3.prems"(4) by (auto split: option.splits)
  have "int_value \<nu> y = sint a" "int_value \<nu> x = sint b"
    using "3.IH" "3.prems"(1,2) t w by auto
  moreover have "arith_fits op a b"
    using "3.prems"(2) w by (auto simp: is_comparison_def machine_arith_def)
  ultimately show ?case using arith_exact [of op a b \<nu> y x] t(3) w(3) by auto
next
  case (5 ls tr e m)
  obtain y where y: "translate_int ls tr e = Inr y" "named_member m" "z = ZApp (field_symbol m) [y]"
    using "5.prems"(3) by (auto split: sum.splits if_splits)
  obtain a where a: "word_of M e = Some a" "w = int_function M (field_symbol m) [a]"
    using "5.prems"(4) y by (auto split: option.splits)
  have "int_value \<nu> y = sint a" using "5.IH" "5.prems"(1,2) y a by auto
  then show ?case using stands_for_int [OF "5.prems"(1), of "[a]"] y a by simp
next
  case (7 ls tr op e)
  obtain y where y: "translate_int ls tr e = Inr y" "op = OpNeg" "z = ZNeg y"
    using "7.prems"(3) by (auto split: sum.splits if_splits)
  obtain a where a: "word_of M e = Some a" "w = - a" using "7.prems"(4) y by (auto split: option.splits)
  have "int_value \<nu> y = sint a" using "7.IH" "7.prems"(1,2) y a by auto
  moreover have "sint (- a) = - sint a" using "7.prems"(2) a y sint_of_int [of "- sint a"] by (simp add: wi_hom_syms)
  ultimately show ?case using y a by simp
next
  case (8 ls tr f as)
  obtain zs where zs: "translate_ints ls tr as = Inr zs" "z = ZApp (function_symbol ''unknown_fn'' f) zs"
    using "8.prems"(3) by (auto split: sum.splits)
  obtain ws where ws: "words_of M as = Some ws" "ws \<noteq> []" "w = int_function M (function_symbol ''unknown_fn'' f) ws"
    using "8.prems"(4) by (auto split: option.splits list.splits)
  have "map (int_value \<nu>) zs = map sint ws" using "8.IH" "8.prems"(1,2) zs ws by auto
  then show ?case using stands_for_int [OF "8.prems"(1) ws(2)] zs ws by simp
next
  case (9 ls tr e m as)
  obtain y zs where t: "translate_int ls tr e = Inr y" "translate_ints ls tr as = Inr zs" "z = ZApp (method_symbol m) (y # zs)"
    using "9.prems"(3) by (auto split: sum.splits)
  obtain a ws where v: "word_of M e = Some a" "words_of M as = Some ws" "w = int_function M (method_symbol m) (a # ws)"
    using "9.prems"(4) by (auto split: option.splits)
  have "int_value \<nu> y = sint a" "map (int_value \<nu>) zs = map sint ws" using "9.IH" "9.prems"(1,2) t v by auto
  then show ?case using stands_for_int [OF "9.prems"(1), of "a # ws"] t v by simp
qed (auto split: sum.splits option.splits)

lemma comparison_exact:
  assumes "comparison_term op y z = Some c" "int_value \<nu> y = sint a" "int_value \<nu> z = sint (b :: i64)"
  shows "holds \<nu> c = machine_compare op a b"
  using assms by (cases op)
    (auto simp: comparison_term_def machine_compare_def word_sless_alt word_sle_eq intro: signed_word_eqI)

text \<open>A condition that the machine evaluates, and the solver's formula for it.\<close>

lemma clause_exact:
  assumes "stands_for \<nu> M ls tr" "no_overflow M e" "translate_bool ls tr e = Inr c" "truth_of M e = Some b"
  shows "holds \<nu> c = b"
  using assms
proof (induction ls tr e arbitrary: c b rule: translate_bool.induct)
  case (1 ls tr l op r)
  have lr: "no_overflow M l" "no_overflow M r" using "1.prems"(2) by simp_all
  show ?case
  proof (cases "is_comparison op")
    case True
    then obtain y z where t: "translate_int ls tr l = Inr y" "translate_int ls tr r = Inr z" "comparison_term op y z = Some c"
      using "1.prems"(3) by (auto split: sum.splits option.splits)
    obtain v w where w: "word_of M l = Some v" "word_of M r = Some w" "b = machine_compare op v w"
      using "1.prems"(4) True by (auto split: option.splits)
    show ?thesis
      using comparison_exact [OF t(3)] translation_exact(1) [OF "1.prems"(1) lr(1) t(1) w(1)]
        translation_exact(1) [OF "1.prems"(1) lr(2) t(2) w(2)] w(3) by simp
  next
    case False
    then have op: "op = OpAnd \<or> op = OpOr" using "1.prems"(3) by (auto split: if_splits)
    obtain y z where t: "translate_bool ls tr l = Inr y" "translate_bool ls tr r = Inr z"
      "c = (if op = OpAnd then ZAnd [y, z] else ZOr [y, z])"
      using "1.prems"(3) False op by (auto split: sum.splits)
    obtain p q where v: "truth_of M l = Some p" "truth_of M r = Some q" "b = (if op = OpAnd then p \<and> q else p \<or> q)"
      using "1.prems"(4) False op by (auto split: option.splits)
    have "holds \<nu> y = p" "holds \<nu> z = q"
      using "1.IH"(1) [OF False op "1.prems"(1) lr(1) t(1) v(1)] "1.IH"(2) [OF False op t(1) "1.prems"(1) lr(2) t(2) v(2)] by simp_all
    then show ?thesis using t(3) v(3) by simp
  qed
next
  case (2 ls tr op e)
  have op: "op = OpNot" using "2.prems"(3) by (simp split: if_splits)
  obtain d where d: "translate_bool ls tr e = Inr d" "c = ZNot d" using "2.prems"(3) op by (simp split: sum.splits)
  obtain a where a: "truth_of M e = Some a" "b = (\<not> a)" using "2.prems"(4) op by auto
  have "holds \<nu> d = a" using "2.IH" [OF op "2.prems"(1) _ d(1) a(1)] "2.prems"(2) by simp
  then show ?case using d a by simp
next
  case (5 ls tr f as)
  obtain zs where zs: "translate_ints ls tr as = Inr zs" "c = ZPred (function_symbol ''unknown_bool_fn'' f) zs"
    using "5.prems"(3) by (auto split: sum.splits)
  obtain ws where ws: "words_of M as = Some ws" "b = bool_function M (function_symbol ''unknown_bool_fn'' f) ws"
    using "5.prems"(4) by (auto split: option.splits)
  have "map (int_value \<nu>) zs = map sint ws"
    using translation_exact(2) [OF "5.prems"(1) _ zs(1) ws(1)] "5.prems"(2) by simp
  then show ?case using stands_for_bool [OF "5.prems"(1)] zs ws by simp
next
  case (6 ls tr e m as)
  obtain y zs where t: "translate_int ls tr e = Inr y" "translate_ints ls tr as = Inr zs" "c = ZPred (method_symbol m) (y # zs)"
    using "6.prems"(3) by (auto split: sum.splits)
  obtain a ws where v: "word_of M e = Some a" "words_of M as = Some ws" "b = bool_function M (method_symbol m) (a # ws)"
    using "6.prems"(4) by (auto split: option.splits)
  have "map (int_value \<nu>) (y # zs) = map sint (a # ws)"
    using translation_exact(1) [OF "6.prems"(1) _ t(1) v(1)] translation_exact(2) [OF "6.prems"(1) _ t(2) v(2)] "6.prems"(2) by simp
  then show ?case using stands_for_bool [OF "6.prems"(1), of "method_symbol m" "a # ws"] t v by simp
qed (auto split: syn_lit.splits)

text \<open>Before anything is tracked under another term, a name is its own symbol.\<close>

definition plain_symbols :: "locals \<Rightarrow> tracker \<Rightarrow> bool" where
  "plain_symbols ls tr \<longleftrightarrow> (\<forall>x. variable_term ls tr x = ZConst x)"

definition valuation_of :: "machine \<Rightarrow> valuation" where
  "valuation_of M =
     \<lparr>int_symbol = \<lambda>f as. sint (case as of [] \<Rightarrow> var_value M f | _ \<Rightarrow> int_function M f (map word_of_int as)),
      bool_symbol = \<lambda>f as. bool_function M f (map word_of_int as),
      div_by_zero = \<lambda>a. a, mod_by_zero = \<lambda>a. a\<rparr>"

lemma valuation_of_stands: "plain_symbols ls tr \<Longrightarrow> stands_for (valuation_of M) M ls tr"
  by (simp add: stands_for_def plain_symbols_def valuation_of_def comp_def)

section \<open>Run-time checks at the entry of a function\<close>

text \<open>
  Every \<open>requires\<close> clause that the solver proves from the clauses before it is dropped; the
  others are checked when the function is entered. Either way the clause is asserted for the proofs in
  the body.
\<close>

definition check_entry ::
  "checker \<Rightarrow> bool \<Rightarrow> locals \<Rightarrow> tracker \<Rightarrow> syn_expr \<Rightarrow> solver \<times> syn_expr list \<Rightarrow> solver \<times> syn_expr list" where
  "check_entry check no_verify ls tr req st =
     (case st of (s, emitted) \<Rightarrow>
        (case translate_bool ls tr req of
           Inr c \<Rightarrow>
             (let inner = assert_term (ZNot c) (push_frame s);
                  proven = check (assertions inner) = Unsat
              in (assert_term c (pop_frame inner), if proven \<or> no_verify then emitted else emitted @ [req]))
         | Inl _ \<Rightarrow> (s, if no_verify then emitted else emitted @ [req])))"

definition entry_checks ::
  "checker \<Rightarrow> bool \<Rightarrow> bool \<Rightarrow> locals \<Rightarrow> tracker \<Rightarrow> syn_expr list \<Rightarrow> solver \<Rightarrow> solver \<times> syn_expr list" where
  "entry_checks check no_verify trusted ls tr requires s =
     (if trusted then (push_frame s, [])
      else fold (check_entry check no_verify ls tr) requires (push_frame s, []))"

definition meets :: "machine \<Rightarrow> syn_expr \<Rightarrow> bool" where
  "meets M e \<longleftrightarrow> truth_of M e = Some True"

text \<open>The assertions hold in the states that pass the emitted checks, and the clauses so far are true there.\<close>

definition entry_ok :: "machine \<Rightarrow> syn_expr list \<Rightarrow> solver \<times> syn_expr list \<Rightarrow> bool" where
  "entry_ok M seen st \<longleftrightarrow>
     ((\<forall>e \<in> set (snd st). meets M e) \<longrightarrow>
        all_hold (valuation_of M) (assertions (fst st)) \<and> (\<forall>r \<in> set seen. meets M r))"

lemma check_entry_ok:
  assumes "sound_check check" "plain_symbols ls tr" "entry_ok M seen st"
    and fits: "no_overflow M req" "truth_of M req \<noteq> None"
  shows "entry_ok M (seen @ [req]) (check_entry check False ls tr req st)"
proof -
  obtain s emitted where st: "st = (s, emitted)" by (cases st)
  obtain b where b: "truth_of M req = Some b" using fits(2) by blast
  show ?thesis
  proof (cases "translate_bool ls tr req")
    case (Inl e)
    then show ?thesis using assms(3) by (auto simp: check_entry_def st entry_ok_def)
  next
    case (Inr c)
    have c: "holds (valuation_of M) c = b"
      by (rule clause_exact [OF valuation_of_stands [OF assms(2)] fits(1) Inr b])
    have "b" if "check (assertions s @ [ZNot c]) = Unsat" "all_hold (valuation_of M) (assertions s)"
      using unsat_answer [OF assms(1) that(1), of "valuation_of M"] that(2) c by simp
    then show ?thesis using assms(3) c b by (auto simp: check_entry_def st entry_ok_def Let_def Inr meets_def)
  qed
qed

lemma entry_fold_ok:
  assumes "sound_check check" "plain_symbols ls tr" "entry_ok M seen st"
    and "\<forall>r \<in> set reqs. no_overflow M r \<and> truth_of M r \<noteq> None"
  shows "entry_ok M (seen @ reqs) (fold (check_entry check False ls tr) reqs st)"
  using assms
proof (induction reqs arbitrary: seen st)
  case (Cons r reqs)
  then have "entry_ok M (seen @ [r]) (check_entry check False ls tr r st)" by (intro check_entry_ok) auto
  from Cons.IH [OF Cons.prems(1,2) this] Cons.prems(4) show ?case by simp
qed simp

lemma entry_emits_clauses: "set (snd (fold (check_entry check nv ls tr) reqs st)) \<subseteq> set (snd st) \<union> set reqs"
proof (induction reqs arbitrary: st)
  case (Cons r reqs)
  have "set (snd (check_entry check nv ls tr r st)) \<subseteq> set (snd st) \<union> {r}"
    by (auto simp: check_entry_def Let_def split: prod.splits sum.splits)
  then show ?case using Cons [of "check_entry check nv ls tr r st"] by auto
qed simp

lemma entry_pops: "pop_frame (fst (fold (check_entry check nv ls tr) reqs (push_frame s, em))) = s"
proof -
  have "fst st \<noteq> [] \<Longrightarrow> fst (fold (check_entry check nv ls tr) reqs st) \<noteq> [] \<and>
      pop_frame (fst (fold (check_entry check nv ls tr) reqs st)) = pop_frame (fst st)" for st
  proof (induction reqs arbitrary: st)
    case (Cons r reqs)
    have "fst (check_entry check nv ls tr r st) \<noteq> [] \<and> pop_frame (fst (check_entry check nv ls tr r st)) = pop_frame (fst st)"
      using Cons.prems by (auto simp: check_entry_def Let_def pop_assert split: prod.splits sum.splits)
    with Cons.IH show ?case by simp
  qed simp
  from this [of "(push_frame s, em)"] show ?thesis by (simp add: push_frame_def pop_frame_def)
qed

text \<open>
  Property C14: a contract is enforced at the entry of a function: where the clauses do not overflow,
  the checks that are left pass in a state exactly if all \<open>requires\<close> clauses are true in
  it, and then what the solver assumes in the body is true in that state; the frame opened for the
  function can be closed again.
\<close>

theorem entry_contract_enforced:
  assumes "sound_check check" "plain_symbols ls tr" "assertions s = []"
    and "entry_checks check False False ls tr requires s = (s', emitted)"
    and "\<forall>r \<in> set requires. no_overflow M r \<and> truth_of M r \<noteq> None"
  shows "((\<forall>e \<in> set emitted. meets M e) \<longleftrightarrow> (\<forall>r \<in> set requires. meets M r)) \<and>
    ((\<forall>e \<in> set emitted. meets M e) \<longrightarrow> all_hold (valuation_of M) (assertions s')) \<and> pop_frame s' = s"
proof -
  have f: "fold (check_entry check False ls tr) requires (push_frame s, []) = (s', emitted)"
    using assms(4) by (simp add: entry_checks_def)
  have "entry_ok M [] (push_frame s, [])" using assms(3) by (simp add: entry_ok_def)
  from entry_fold_ok [OF assms(1,2) this assms(5)] f
  have "entry_ok M requires (s', emitted)" by simp
  moreover have "set emitted \<subseteq> set requires"
    using entry_emits_clauses [of check False ls tr requires "(push_frame s, [])"] f by simp
  moreover have "pop_frame s' = s" using entry_pops [of check False ls tr requires s "[]"] f by simp
  ultimately show ?thesis by (auto simp: entry_ok_def)
qed

section \<open>The check of a call\<close>

datatype verify_error =
    ArgumentUntranslatable
  | EmptyRequires
  | RequirementUntranslatable syn_expr
  | RequirementViolated z3_bool "(string \<times> int) list"

record check_counts =
  total_checks :: nat
  elided_checks :: nat

text \<open>\<open>requires { e }\<close> is a block with the condition.\<close>

definition unwrap_block :: "syn_expr \<Rightarrow> syn_expr option" where
  "unwrap_block e =
     (case e of
        SynBlock (SynStmtExpr inner _ # _) \<Rightarrow> Some inner
      | SynBlock _ \<Rightarrow> None
      | _ \<Rightarrow> Some e)"

text \<open>Of the arguments those are reported whose term prints as a number.\<close>

definition concrete_arg :: "z3_int \<Rightarrow> int option" where
  "concrete_arg z = (case z of ZNum n \<Rightarrow> if 0 \<le> n then Some n else None | _ \<Rightarrow> None)"

definition counterexample :: "string list \<Rightarrow> z3_int list \<Rightarrow> (string \<times> int) list" where
  "counterexample params vals =
     concat (map (\<lambda>(p, z). case concrete_arg z of Some n \<Rightarrow> [(p, n)] | None \<Rightarrow> []) (zip params vals))"

definition parameter_locals :: "string list \<Rightarrow> z3_int list \<Rightarrow> locals" where
  "parameter_locals params vals = map_of (map (\<lambda>p. (p, (Unit, LocalSSA p))) (take (length vals) params))"

text \<open>A requirement is violated if no values of the remaining symbols satisfy it.\<close>

fun check_requires ::
  "checker \<Rightarrow> tracker \<Rightarrow> string list \<Rightarrow> z3_int list \<Rightarrow> syn_expr list \<Rightarrow> check_counts \<Rightarrow>
     (verify_error, unit) result \<times> check_counts" where
  "check_requires check tr params vals [] k = (Inr (), k)"
| "check_requires check tr params vals (r # rs) k =
     (case unwrap_block r of
        None \<Rightarrow> (Inl EmptyRequires, k)
      | Some e \<Rightarrow>
          (case translate_bool (parameter_locals params vals) tr e of
             Inl _ \<Rightarrow> (Inl (RequirementUntranslatable r), k)
           | Inr c \<Rightarrow>
               (let d = subst_bool (map_of (zip params vals)) c;
                    k = k\<lparr>total_checks := Suc (total_checks k)\<rparr>
                in if check [d] = Unsat then (Inl (RequirementViolated d (counterexample params vals)), k)
                   else check_requires check tr params vals rs (k\<lparr>elided_checks := Suc (elided_checks k)\<rparr>))))"

definition verify_call ::
  "checker \<Rightarrow> locals \<Rightarrow> tracker \<Rightarrow> syn_expr list \<Rightarrow> string list \<Rightarrow> syn_expr list \<Rightarrow> check_counts \<Rightarrow>
     (verify_error, unit) result \<times> check_counts" where
  "verify_call check ls tr requires params args k =
     (if requires = [] then (Inr (), k)
      else
        (case translate_ints ls tr args of
           Inl _ \<Rightarrow> (Inl ArgumentUntranslatable, k)
         | Inr vals \<Rightarrow> check_requires check tr params vals requires k))"

text \<open>The state at the entry of the callee.\<close>

definition enter_call :: "string list \<Rightarrow> i64 list \<Rightarrow> machine \<Rightarrow> machine" where
  "enter_call params ws M = M\<lparr>var_value := \<lambda>x. case map_of (zip params ws) x of Some w \<Rightarrow> w | None \<Rightarrow> var_value M x\<rparr>"

lemma zip_values:
  assumes "map (int_value \<nu>) vals = map sint ws"
  shows "map_option (int_value \<nu>) (map_of (zip params vals) x) = map_option sint (map_of (zip params ws) x)"
  using assms
proof (induction params arbitrary: vals ws)
  case (Cons p ps)
  then show ?case by (cases vals; cases ws) auto
qed simp

lemma parameters_plain:
  assumes "\<forall>p \<in> set params. tr p = None"
  shows "variable_term (parameter_locals params vals) tr x = ZConst x"
proof (cases "parameter_locals params vals x")
  case None
  then show ?thesis by (simp add: variable_term_def)
next
  case (Some l)
  then have "l = (Unit, LocalSSA x)" "x \<in> set params"
    unfolding parameter_locals_def by (auto dest!: map_of_SomeD in_set_takeD)
  then show ?thesis using Some assms by (simp add: variable_term_def)
qed

text \<open>With the arguments for the parameters, the solver's symbols stand for the state of the callee.\<close>

lemma call_stands:
  assumes "stands_for \<nu> M ls tr" "plain_symbols ls tr" "map (int_value \<nu>) vals = map sint ws" "\<forall>p \<in> set params. tr p = None"
  shows "stands_for (assign_terms (map_of (zip params vals)) \<nu>) (enter_call params ws M) (parameter_locals params vals) tr"
proof -
  have "int_symbol (assign_terms (map_of (zip params vals)) \<nu>) x [] = sint (var_value (enter_call params ws M) x)" for x
  proof -
    have "int_symbol \<nu> x [] = sint (var_value M x)"
      using assms(1,2) by (auto simp: stands_for_def plain_symbols_def dest: spec [of _ x])
    then show ?thesis using zip_values [OF assms(3), of params x]
      by (cases "map_of (zip params vals) x"; cases "map_of (zip params ws) x") (simp_all add: enter_call_def)
  qed
  then show ?thesis
    using assms(1) by (simp add: stands_for_def parameters_plain [OF assms(4)] enter_call_def)
qed

lemma check_requires_violated:
  assumes "check_requires check tr params vals reqs k = (Inl (RequirementViolated d cs), k')"
  shows "\<exists>r e c. r \<in> set reqs \<and> unwrap_block r = Some e \<and> translate_bool (parameter_locals params vals) tr e = Inr c \<and>
      d = subst_bool (map_of (zip params vals)) c \<and> check [d] = Unsat"
  using assms
proof (induction reqs arbitrary: k)
  case (Cons r reqs)
  then show ?case by (fastforce simp: Let_def split: option.splits sum.splits if_splits)
qed simp

text \<open>
  A call is rejected with a violated requirement only if it would violate one: some clause is
  false at the entry of the callee in every state of the caller in which the arguments and the clause can
  be evaluated without overflow.
\<close>

theorem rejected_call_violates:
  assumes "sound_check check" "plain_symbols ls tr" "\<forall>p \<in> set params. tr p = None"
    and "verify_call check ls tr requires params args k = (Inl (RequirementViolated d cs), k')"
  shows "\<exists>r \<in> set requires. \<exists>e. unwrap_block r = Some e \<and>
    (\<forall>M ws b. words_of M args = Some ws \<longrightarrow> list_all (no_overflow M) args \<longrightarrow>
       no_overflow (enter_call params ws M) e \<longrightarrow> truth_of (enter_call params ws M) e = Some b \<longrightarrow> \<not> b)"
proof -
  obtain vals where vals: "translate_ints ls tr args = Inr vals"
    "check_requires check tr params vals requires k = (Inl (RequirementViolated d cs), k')"
    using assms(4) by (auto simp: verify_call_def split: if_splits sum.splits)
  obtain r e c where r: "r \<in> set requires" "unwrap_block r = Some e"
    "translate_bool (parameter_locals params vals) tr e = Inr c" "d = subst_bool (map_of (zip params vals)) c" "check [d] = Unsat"
    using check_requires_violated [OF vals(2)] by blast
  have "\<not> b" if st: "words_of M args = Some ws" "list_all (no_overflow M) args"
    "no_overflow (enter_call params ws M) e" "truth_of (enter_call params ws M) e = Some b" for M ws b
  proof -
    have caller: "stands_for (valuation_of M) M ls tr" by (rule valuation_of_stands [OF assms(2)])
    have "map (int_value (valuation_of M)) vals = map sint ws"
      by (rule translation_exact(2) [OF caller st(2) vals(1) st(1)])
    from clause_exact [OF call_stands [OF caller assms(2) this assms(3)] st(3) r(3) st(4)]
    have "holds (valuation_of M) d = b" by (simp add: r(4) subst_bool_holds)
    then show "\<not> b" using unsat_answer [OF assms(1) r(5), of "valuation_of M"] by simp
  qed
  with r(1,2) show ?thesis by blast
qed

text \<open>Conditions on the parameters alone, without calls and divisions.\<close>

fun parameter_term :: "string list \<Rightarrow> syn_expr \<Rightarrow> bool" where
  "parameter_term ps (SynLit l) \<longleftrightarrow> (case l of SynInt n \<Rightarrow> in_i64 n | _ \<Rightarrow> False)"
| "parameter_term ps (SynPath p) \<longleftrightarrow> last_segment p \<in> set ps"
| "parameter_term ps (SynBinary l op r) \<longleftrightarrow> op \<in> {OpAdd, OpSub, OpMul} \<and> parameter_term ps l \<and> parameter_term ps r"
| "parameter_term ps (SynParen e) \<longleftrightarrow> parameter_term ps e"
| "parameter_term ps (SynUnary op e) \<longleftrightarrow> op = OpNeg \<and> parameter_term ps e"
| "parameter_term ps _ \<longleftrightarrow> False"

fun parameter_condition :: "string list \<Rightarrow> syn_expr \<Rightarrow> bool" where
  "parameter_condition ps (SynBinary l op r) \<longleftrightarrow>
     is_comparison op \<and> parameter_term ps l \<and> parameter_term ps r \<or>
     op \<in> {OpAnd, OpOr} \<and> parameter_condition ps l \<and> parameter_condition ps r"
| "parameter_condition ps (SynUnary op e) \<longleftrightarrow> op = OpNot \<and> parameter_condition ps e"
| "parameter_condition ps (SynParen e) \<longleftrightarrow> parameter_condition ps e"
| "parameter_condition ps (SynLit l) \<longleftrightarrow> (\<exists>b. l = SynBool b)"
| "parameter_condition ps _ \<longleftrightarrow> False"

text \<open>Formulas without symbols have one truth value, which a solver is expected to find.\<close>

fun ground_int :: "z3_int \<Rightarrow> bool" where
  "ground_int (ZNum n) \<longleftrightarrow> True"
| "ground_int (ZAdd a b) \<longleftrightarrow> ground_int a \<and> ground_int b"
| "ground_int (ZSub a b) \<longleftrightarrow> ground_int a \<and> ground_int b"
| "ground_int (ZMul a b) \<longleftrightarrow> ground_int a \<and> ground_int b"
| "ground_int (ZNeg a) \<longleftrightarrow> ground_int a"
| "ground_int _ \<longleftrightarrow> False"

fun ground_bool :: "z3_bool \<Rightarrow> bool" where
  "ground_bool (ZLt a b) \<longleftrightarrow> ground_int a \<and> ground_int b"
| "ground_bool (ZLe a b) \<longleftrightarrow> ground_int a \<and> ground_int b"
| "ground_bool (ZGt a b) \<longleftrightarrow> ground_int a \<and> ground_int b"
| "ground_bool (ZGe a b) \<longleftrightarrow> ground_int a \<and> ground_int b"
| "ground_bool (ZEq a b) \<longleftrightarrow> ground_int a \<and> ground_int b"
| "ground_bool (ZNot c) \<longleftrightarrow> ground_bool c"
| "ground_bool (ZBool b) \<longleftrightarrow> True"
| "ground_bool (ZAnd cs) \<longleftrightarrow> list_all ground_bool cs"
| "ground_bool (ZOr cs) \<longleftrightarrow> list_all ground_bool cs"
| "ground_bool (ZPred p as) \<longleftrightarrow> False"

definition decides_ground :: "checker \<Rightarrow> bool" where
  "decides_ground check \<longleftrightarrow> sound_check check \<and> (\<forall>d. ground_bool d \<longrightarrow> check [d] \<noteq> Unknown)"

lemma ground_int_value: "ground_int z \<Longrightarrow> int_value \<mu> z = int_value \<nu> z"
  by (induction z) auto

lemma ground_bool_value: "ground_bool c \<Longrightarrow> holds \<mu> c = holds \<nu> c"
proof (induction c)
  case (ZAnd cs)
  then show ?case by (auto simp: list_all_iff)
next
  case (ZOr cs)
  then show ?case by (auto simp: list_all_iff)
qed (simp_all, (metis ground_int_value)+)

lemma ground_answer:
  assumes "decides_ground check" "ground_bool d"
  shows "check [d] = Unsat \<longleftrightarrow> \<not> holds \<nu> d"
proof -
  have "check [d] \<noteq> Unknown" "sound_check check" using assms by (simp_all add: decides_ground_def)
  then show ?thesis using ground_bool_value [OF assms(2)]
    by (cases "check [d]") (simp_all add: sound_check_def, metis all_hold_simps(1,2), metis all_hold_simps(1,2))
qed

definition numbers_for :: "string list \<Rightarrow> (string \<rightharpoonup> z3_int) \<Rightarrow> bool" where
  "numbers_for ps m \<longleftrightarrow> (\<forall>p \<in> set ps. \<exists>z. m p = Some z \<and> ground_int z)"

lemma parameter_term_ground:
  assumes "plain_symbols ls tr" "numbers_for ps m"
  shows "parameter_term ps e \<Longrightarrow> \<exists>z. translate_int ls tr e = Inr z \<and> ground_int (subst_int m z)"
proof (induction e)
  case (SynLit l)
  then show ?case by (auto simp: base10_parse_i64_def in_i64_def split: syn_lit.splits)
next
  case (SynPath p)
  then show ?case using assms by (force simp: plain_symbols_def numbers_for_def)
next
  case (SynBinary l op r)
  then show ?case by (auto simp: arith_term_def)
qed auto

lemma parameter_condition_ground:
  assumes "plain_symbols ls tr" "numbers_for ps m"
  shows "parameter_condition ps e \<Longrightarrow> \<exists>c. translate_bool ls tr e = Inr c \<and> ground_bool (subst_bool m c)"
proof (induction e)
  case (SynBinary l op r)
  show ?case
  proof (cases "is_comparison op")
    case True
    then have "parameter_term ps l" "parameter_term ps r" using SynBinary.prems by (auto simp: is_comparison_def)
    then obtain y z where "translate_int ls tr l = Inr y" "ground_int (subst_int m y)"
      "translate_int ls tr r = Inr z" "ground_int (subst_int m z)"
      using parameter_term_ground [OF assms] by meson
    then show ?thesis using True by (auto simp: is_comparison_def comparison_term_def)
  next
    case False
    then show ?thesis using SynBinary by auto
  qed
qed auto

lemma parameter_term_evaluates:
  "parameter_term ps e \<Longrightarrow> no_overflow M e \<Longrightarrow> \<exists>w. word_of M e = Some w"
proof (induction e)
  case (SynLit l)
  then show ?case by (auto simp: base10_parse_i64_def in_i64_def split: syn_lit.splits)
next
  case (SynBinary l op r)
  then show ?case by (auto simp: machine_arith_def)
qed auto

lemma parameter_condition_evaluates:
  "parameter_condition ps e \<Longrightarrow> no_overflow M e \<Longrightarrow> \<exists>b. truth_of M e = Some b"
proof (induction e)
  case (SynBinary l op r)
  show ?case
  proof (cases "is_comparison op")
    case True
    then have "parameter_term ps l" "parameter_term ps r" using SynBinary.prems by (auto simp: is_comparison_def)
    moreover have "no_overflow M l" "no_overflow M r" using SynBinary.prems(2) by simp_all
    ultimately obtain v w where "word_of M l = Some v" "word_of M r = Some w"
      using parameter_term_evaluates by blast
    then show ?thesis using True by simp
  next
    case False
    then show ?thesis using SynBinary by auto
  qed
qed auto

lemma parameter_condition_plain: "parameter_condition ps e \<Longrightarrow> unwrap_block e = Some e"
  by (cases e) (simp_all add: unwrap_block_def)

text \<open>An integer constant as the parser gives it: a negative one is the negation of a literal.\<close>

definition literal_int :: "int \<Rightarrow> syn_expr" where
  "literal_int n = (if n < 0 then SynUnary OpNeg (SynLit (SynInt (- n))) else SynLit (SynInt n))"

definition literal_args :: "int list \<Rightarrow> syn_expr list" where
  "literal_args ns = map literal_int ns"

definition number_term :: "int \<Rightarrow> z3_int" where
  "number_term n = (if n < 0 then ZNeg (ZNum (- n)) else ZNum n)"

text \<open>The literal \<open>9223372036854775808\<close> is out of range, so the least integer cannot be written.\<close>

definition writable :: "int \<Rightarrow> bool" where
  "writable n \<longleftrightarrow> - (2 ^ 63) < n \<and> n < 2 ^ 63"

lemma writable_in_i64: "writable n \<Longrightarrow> in_i64 n"
  by (simp add: writable_def in_i64_def)

lemma number_term_ground [simp]: "ground_int (number_term n)" "int_value \<nu> (number_term n) = n"
  by (simp_all add: number_term_def)

lemma literal_int_translated:
  assumes "writable n"
  shows "translate_int ls tr (literal_int n) = Inr (number_term n)"
proof -
  have "in_i64 \<bar>n\<bar>" using assms by (auto simp: writable_def in_i64_def)
  then have "base10_parse_i64 \<bar>n\<bar> = Some (word_of_int \<bar>n\<bar>)" "sint (word_of_int \<bar>n\<bar> :: i64) = \<bar>n\<bar>"
    by (simp_all add: base10_parse_i64_def in_i64_def sint_of_int [unfolded in_i64_def])
  then show ?thesis by (cases "n < 0") (simp_all add: literal_int_def number_term_def)
qed

lemma literal_args_translated:
  "list_all writable ns \<Longrightarrow> translate_ints ls tr (literal_args ns) = Inr (map number_term ns)"
  by (induction ns) (simp_all add: literal_args_def literal_int_translated)

text \<open>The solver's formula for a clause, with the arguments put in, is decided.\<close>

lemma literal_map:
  assumes "length ns = length params" "list_all writable ns"
  shows "numbers_for params (map_of (zip params (map number_term ns)))"
    and "map (int_value \<nu>) (map number_term ns) = map sint (map word_of_int ns :: i64 list)"
  using assms by (induction ns params rule: list_induct2) (auto simp: numbers_for_def sint_of_int writable_in_i64)

lemma constant_clause:
  assumes "decides_ground check" "\<forall>p \<in> set params. tr p = None" "list_all writable ns" "length ns = length params"
    and "parameter_condition params r" "no_overflow (enter_call params (map word_of_int ns) M) r"
  shows "\<exists>c. translate_bool (parameter_locals params (map number_term ns)) tr r = Inr c \<and>
    (check [subst_bool (map_of (zip params (map number_term ns))) c] = Unsat \<longleftrightarrow> \<not> meets (enter_call params (map word_of_int ns) M) r)"
proof -
  let ?m = "map_of (zip params (map number_term ns))" and ?ls = "parameter_locals params (map number_term ns)"
  have plain: "plain_symbols ?ls tr" "plain_symbols Map.empty tr"
    by (simp add: plain_symbols_def parameters_plain [OF assms(2)], simp add: plain_symbols_def variable_term_def)
  obtain c where c: "translate_bool ?ls tr r = Inr c" "ground_bool (subst_bool ?m c)"
    using parameter_condition_ground [OF plain(1) literal_map(1) [OF assms(4,3)] assms(5)] by blast
  obtain b where b: "truth_of (enter_call params (map word_of_int ns) M) r = Some b"
    using parameter_condition_evaluates [OF assms(5,6)] by blast
  have "stands_for (assign_terms ?m (valuation_of M)) (enter_call params (map word_of_int ns) M) ?ls tr"
    by (rule call_stands [OF valuation_of_stands [OF plain(2)] plain(2) literal_map(2) [OF assms(4,3)] assms(2)])
  from clause_exact [OF this assms(6) c(1) b] have "holds (valuation_of M) (subst_bool ?m c) = b"
    by (simp add: subst_bool_holds)
  then show ?thesis using ground_answer [OF assms(1) c(2)] c(1) b by (auto simp: meets_def)
qed

text \<open>
  Property C23: on constant arguments the check of a call is exact. The arguments are integer literals
  or their negations, as many as the callee has parameters; the clauses are conditions on the parameters
  alone: comparisons, connected by \<open>&&\<close>, \<open>||\<close> and \<open>!\<close>, of sums,
  differences, products and negations of parameters and literals, without quotients, remainders, calls
  and fields, that overflow nowhere on these arguments; no parameter has the name of a tracked value;
  and the solver decides formulas without symbols. Then the call is accepted if all clauses are true at
  the entry of the callee, and otherwise rejected as a violated requirement. (A remainder rejects every
  call, and a tracked value hides the parameter: see the end of the theory.)
\<close>

theorem constant_call_exact:
  assumes "decides_ground check" "list_all writable ns" "length ns = length params" "\<forall>p \<in> set params. tr p = None"
    and "\<forall>r \<in> set requires. parameter_condition params r \<and> no_overflow (enter_call params (map word_of_int ns) M) r"
  shows "case fst (verify_call check ls tr requires params (literal_args ns) k) of
      Inr _ \<Rightarrow> \<forall>r \<in> set requires. meets (enter_call params (map word_of_int ns) M) r
    | Inl err \<Rightarrow> (\<exists>d cs. err = RequirementViolated d cs) \<and>
        (\<exists>r \<in> set requires. \<not> meets (enter_call params (map word_of_int ns) M) r)"
proof -
  have "case fst (check_requires check tr params (map number_term ns) reqs k) of
      Inr _ \<Rightarrow> \<forall>r \<in> set reqs. meets (enter_call params (map word_of_int ns) M) r
    | Inl err \<Rightarrow> (\<exists>d cs. err = RequirementViolated d cs) \<and>
        (\<exists>r \<in> set reqs. \<not> meets (enter_call params (map word_of_int ns) M) r)"
    if "set reqs \<subseteq> set requires" for reqs
    using that
  proof (induction reqs arbitrary: k)
    case (Cons r reqs)
    have r: "parameter_condition params r" "no_overflow (enter_call params (map word_of_int ns) M) r"
      using assms(5) Cons.prems by auto
    obtain c where c: "translate_bool (parameter_locals params (map number_term ns)) tr r = Inr c"
      "check [subst_bool (map_of (zip params (map number_term ns))) c] = Unsat \<longleftrightarrow> \<not> meets (enter_call params (map word_of_int ns) M) r"
      using constant_clause [OF assms(1,4,2,3) r] by blast
    note Cons.IH [of "k\<lparr>total_checks := Suc (total_checks k), elided_checks := Suc (elided_checks k)\<rparr>"]
    then show ?case using Cons.prems c
      by (auto simp: parameter_condition_plain [OF r(1)] Let_def split: sum.splits)
  qed simp
  then show ?thesis by (simp add: verify_call_def literal_args_translated [OF assms(2)])
qed

section \<open>Examples\<close>

abbreviation num_e :: "int \<Rightarrow> syn_expr" where
  "num_e n \<equiv> SynLit (SynInt n)"

abbreviation name_of :: "string \<Rightarrow> syn_expr" where
  "name_of x \<equiv> SynPath (False, [(x, False)])"

abbreviation compare_e :: "syn_expr \<Rightarrow> syn_bin_op \<Rightarrow> syn_expr \<Rightarrow> syn_expr" where
  "compare_e a op b \<equiv> SynBinary a op b"

definition all_vars :: "i64 \<Rightarrow> machine" where
  "all_vars w = \<lparr>var_value = \<lambda>_. w, int_function = \<lambda>_ _. 0, bool_function = \<lambda>_ _. False\<rparr>"

definition no_counts :: check_counts where
  "no_counts = \<lparr>total_checks = 0, elided_checks = 0\<rparr>"

text \<open>A solver that decides formulas without symbols, and knows one more answer.\<close>

definition some_valuation :: valuation where
  "some_valuation = valuation_of (all_vars 0)"

definition known_unsat :: "z3_bool list" where
  "known_unsat = [ZGt (ZConst ''x'') (ZNum 0), ZNot (ZGe (ZConst ''x'') (ZNum 0))]"

definition ground_check :: checker where
  "ground_check cs =
     (case cs of
        [d] \<Rightarrow> if \<not> ground_bool d then Unknown else if holds some_valuation d then Sat else Unsat
      | _ \<Rightarrow> if cs = known_unsat then Unsat else Unknown)"

lemma ground_check_decides: "decides_ground ground_check"
proof -
  have "(ground_check cs = Unsat \<longrightarrow> (\<forall>\<nu>. \<not> all_hold \<nu> cs)) \<and> (ground_check cs = Sat \<longrightarrow> (\<exists>\<nu>. all_hold \<nu> cs))" for cs
  proof (cases "\<exists>d. cs = [d]")
    case True
    then obtain d where "cs = [d]" by blast
    then show ?thesis using ground_bool_value [of d] by (auto simp: ground_check_def)
  next
    case False
    then have "ground_check cs = (if cs = known_unsat then Unsat else Unknown)"
      by (auto simp: ground_check_def split: list.splits)
    then show ?thesis by (auto simp: known_unsat_def)
  qed
  then show ?thesis by (simp add: decides_ground_def sound_check_def, simp add: ground_check_def)
qed

lemma ground_check_sound: "sound_check ground_check"
  using ground_check_decides by (simp add: decides_ground_def)

lemma nothing_tracked: "plain_symbols Map.empty Map.empty"
  by (simp add: plain_symbols_def variable_term_def)

text \<open>Of \<open>requires(x > 0)\<close> and \<open>requires(x >= 0)\<close> the second is not checked at run time.\<close>

abbreviation positive_x :: syn_expr where
  "positive_x \<equiv> compare_e (name_of ''x'') OpGt (num_e 0)"

abbreviation nonneg_x :: syn_expr where
  "nonneg_x \<equiv> compare_e (name_of ''x'') OpGe (num_e 0)"

lemmas contract_eval = is_comparison_def comparison_term_def variable_term_def last_segment_def base10_parse_i64_def
  machine_compare_def in_i64_def Let_def

lemma second_clause_proved:
  "snd (entry_checks ground_check False False Map.empty Map.empty [positive_x, nonneg_x] [[]]) = [positive_x]"
  by (simp add: entry_checks_def check_entry_def contract_eval ground_check_def known_unsat_def assertions_def
      assert_term_def push_frame_def pop_frame_def)

theorem entry_contract_enforced_witness:
  "\<exists>s. entry_checks ground_check False False Map.empty Map.empty [positive_x, nonneg_x] [[]] = (s, [positive_x]) \<and>
     all_hold (valuation_of (all_vars 5)) (assertions s) \<and> meets (all_vars 5) nonneg_x"
proof -
  obtain s where s: "entry_checks ground_check False False Map.empty Map.empty [positive_x, nonneg_x] [[]] = (s, [positive_x])"
    using second_clause_proved by (metis prod.collapse)
  have "meets (all_vars 5) positive_x" by (simp add: meets_def contract_eval all_vars_def word_sless_alt)
  moreover have "\<forall>r \<in> set [positive_x, nonneg_x]. no_overflow (all_vars 5) r \<and> truth_of (all_vars 5) r \<noteq> None"
    by (simp add: contract_eval)
  ultimately show ?thesis
    using entry_contract_enforced [OF ground_check_sound nothing_tracked _ s, of "all_vars 5"] s by (simp add: assertions_def)
qed

text \<open>A call with the argument \<open>-5\<close> for a positive parameter is rejected, one with 7 is accepted.\<close>

lemma negative_call:
  "fst (verify_call ground_check Map.empty Map.empty [positive_x] [''x''] (literal_args [- 5]) no_counts) =
     Inl (RequirementViolated (ZGt (ZNeg (ZNum 5)) (ZNum 0)) [])"
  by (simp add: verify_call_def literal_args_def literal_int_def contract_eval unwrap_block_def parameter_locals_def ground_check_def
      counterexample_def concrete_arg_def)

theorem rejected_call_violates_witness:
  "\<not> meets (enter_call [''x''] [- 5] (all_vars 0)) positive_x"
proof -
  obtain k where "verify_call ground_check Map.empty Map.empty [positive_x] [''x''] (literal_args [- 5]) no_counts =
     (Inl (RequirementViolated (ZGt (ZNeg (ZNum 5)) (ZNum 0)) []), k)"
    using negative_call by (metis prod.collapse)
  from rejected_call_violates [OF ground_check_sound nothing_tracked _ this]
  have "\<forall>b. truth_of (enter_call [''x''] [- 5] (all_vars 0)) positive_x = Some b \<longrightarrow> \<not> b"
    by (simp add: unwrap_block_def literal_args_def literal_int_def contract_eval)
  then have "truth_of (enter_call [''x''] [- 5] (all_vars 0)) positive_x \<noteq> Some True" by blast
  then show ?thesis unfolding meets_def .
qed

theorem constant_call_exact_witness:
  "fst (verify_call ground_check Map.empty Map.empty [positive_x] [''x''] (literal_args [7]) no_counts) = Inr () \<and>
   fst (verify_call ground_check Map.empty Map.empty [positive_x] [''x''] (literal_args [- 5]) no_counts) \<noteq> Inr ()"
proof -
  have "meets (enter_call [''x''] (map word_of_int [7]) (all_vars 0)) positive_x"
    "\<not> meets (enter_call [''x''] (map word_of_int [- 5]) (all_vars 0)) positive_x"
    by (simp_all add: meets_def contract_eval enter_call_def word_sless_alt)
  then show ?thesis
    using constant_call_exact [OF ground_check_decides, of "[7]" "[''x'']" Map.empty "[positive_x]" "all_vars 0" Map.empty no_counts]
      constant_call_exact [OF ground_check_decides, of "[- 5]" "[''x'']" Map.empty "[positive_x]" "all_vars 0" Map.empty no_counts]
    by (auto simp: contract_eval writable_def split: sum.splits)
qed

section \<open>What the checks get wrong\<close>

text \<open>
  A requirement that is neither proved nor refuted counts as an elided check, although the callee still
  checks it at run time.
\<close>

lemma unproved_check_counted_elided:
  assumes "check [ZGt (ZConst ''y'') (ZNum 0)] \<noteq> Unsat"
  shows "verify_call check Map.empty Map.empty [positive_x] [''x''] [name_of ''y''] no_counts =
    (Inr (), \<lparr>total_checks = 1, elided_checks = 1\<rparr>)"
  using assms by (simp add: verify_call_def contract_eval unwrap_block_def parameter_locals_def no_counts_def)

text \<open>
  All expressions that are not understood are one symbol: \<open>f(a[0], a[1])\<close> is rejected for
  \<open>requires(x != y)\<close>.
\<close>

lemma different_elements_taken_for_equal:
  assumes "deciding_check check"
  shows "\<exists>d cs. fst (verify_call check Map.empty Map.empty [compare_e (name_of ''x'') OpNe (name_of ''y'')] [''x'', ''y'']
      [SynIndex (name_of ''a'') (num_e 0), SynIndex (name_of ''a'') (num_e 1)] no_counts) = Inl (RequirementViolated d cs)"
  by (simp add: verify_call_def contract_eval unwrap_block_def parameter_locals_def deciding_answer [OF assms])

text \<open>A remainder is not translated: a call of a function with \<open>requires(n % 2 == 0)\<close> is always an error.\<close>

lemma remainder_rejects_every_call:
  assumes "translate_ints ls tr [a] = Inr vals"
  shows "\<exists>r. fst (verify_call check ls tr [compare_e (SynBinary (name_of ''n'') OpRem (num_e 2)) OpEq (num_e 0)] [''n''] [a] k) =
      Inl (RequirementUntranslatable r)"
  using assms by (simp add: verify_call_def contract_eval unwrap_block_def arith_term_def parameter_locals_def
      split: sum.splits)

text \<open>
  The solver's integers do not wrap and its division rounds down for a positive divisor: the checks for
  \<open>x + 1 > x\<close> and \<open>x / 2 * 2 <= x\<close> are dropped, though they fail for the
  greatest word and for \<open>-1\<close>.
\<close>

abbreviation wrapping_clause :: syn_expr where
  "wrapping_clause \<equiv> compare_e (SynBinary (name_of ''x'') OpAdd (num_e 1)) OpGt (name_of ''x'')"

abbreviation rounding_clause :: syn_expr where
  "rounding_clause \<equiv> compare_e (SynBinary (SynBinary (name_of ''x'') OpDiv (num_e 2)) OpMul (num_e 2)) OpLe (name_of ''x'')"

lemmas entry_eval = entry_checks_def check_entry_def contract_eval arith_term_def assertions_def assert_term_def push_frame_def pop_frame_def

lemma wrapping_clause_dropped:
  assumes "deciding_check check"
  shows "snd (entry_checks check False False Map.empty Map.empty [wrapping_clause] [[]]) = []"
    and "\<not> meets (all_vars (2 ^ 63 - 1)) wrapping_clause"
  by (simp add: entry_eval deciding_answer [OF assms])
    (simp add: meets_def contract_eval machine_arith_def all_vars_def word_sless_alt)

lemma rounding_clause_dropped:
  assumes "deciding_check check"
  shows "snd (entry_checks check False False Map.empty Map.empty [rounding_clause] [[]]) = []"
    and "\<not> meets (all_vars (- 1)) rounding_clause"
proof -
  have "n div 2 * 2 \<le> n" for n :: int by presburger
  then show "snd (entry_checks check False False Map.empty Map.empty [rounding_clause] [[]]) = []"
    by (simp add: entry_eval deciding_answer [OF assms] euclid_div_def)
  show "\<not> meets (all_vars (- 1)) rounding_clause"
    by (simp add: meets_def contract_eval machine_arith_def all_vars_def word_sle_eq signed_divide_int_def)
qed

text \<open>
  A value that is tracked under the name of a parameter, as the analysis of \<open>while\<close> loops
  leaves it, hides the parameter: the argument \<open>-5\<close> is accepted.
\<close>

lemma tracked_name_hides_parameter:
  assumes "deciding_check check" "tr ''x'' = Some (ZConst ''x_havoc_3'')"
  shows "fst (verify_call check Map.empty tr [positive_x] [''x''] (literal_args [- 5]) no_counts) = Inr ()"
proof -
  have "\<exists>\<nu>. holds \<nu> (ZGt (ZConst ''x_havoc_3'') (ZNum 0))"
    by (rule exI [of _ "\<lparr>int_symbol = \<lambda>_ _. 1, bool_symbol = \<lambda>_ _. False, div_by_zero = id, mod_by_zero = id\<rparr>"]) simp
  then show ?thesis
    by (simp add: verify_call_def literal_args_def literal_int_def contract_eval unwrap_block_def parameter_locals_def assms(2)
        deciding_answer [OF assms(1)])
qed

end
