(* ===== verification/Postconditions.thy ===== *)
theory Postconditions
  imports Contracts
begin

text \<open>
  The \<open>ensures\<close> clauses of a function, checked at every return:
  \<open>verify_postcondition\<close> in \<open>salt-front/src/codegen/verification/mod.rs\<close>, with
  the path conditions that the emission of blocks and branches keeps (\<open>emit_block\<close>,
  \<open>emit_salt_if\<close> and \<open>salt_block_always_returns\<close> in
  \<open>codegen/stmt.rs\<close>). The theorem is that of the whole method: if the check succeeds at all
  returns of a function of branches and returns, then what a run returns meets the postcondition.
\<close>

section \<open>The check at a return\<close>

text \<open>A return of a local variable that is not a parameter is not held against the function.\<close>

fun uses_untracked :: "string list \<Rightarrow> syn_expr \<Rightarrow> bool" where
  "uses_untracked params (SynPath p) =
     (case get_ident p of Some name \<Rightarrow> name \<notin> set params \<and> name \<noteq> ''result'' | None \<Rightarrow> False)"
| "uses_untracked params (SynBinary l op r) = (uses_untracked params l \<or> uses_untracked params r)"
| "uses_untracked params (SynUnary op e) = uses_untracked params e"
| "uses_untracked params (SynParen e) = uses_untracked params e"
| "uses_untracked params _ = False"

definition post_locals :: "string list \<Rightarrow> locals \<Rightarrow> locals" where
  "post_locals params ls = fold (\<lambda>p ls. if ls p = None then ls(p \<mapsto> (I32, LocalSSA p)) else ls) params ls"

definition result_locals :: "locals \<Rightarrow> locals" where
  "result_locals ls = ls(''result'' \<mapsto> (I32, LocalSSA ''result''))"

definition assume_clause :: "locals \<Rightarrow> tracker \<Rightarrow> syn_expr \<Rightarrow> solver \<Rightarrow> solver" where
  "assume_clause ls tr e s = (case translate_bool ls tr e of Inr c \<Rightarrow> assert_term c s | Inl _ \<Rightarrow> s)"

definition assume_requires :: "locals \<Rightarrow> tracker \<Rightarrow> syn_expr list \<Rightarrow> solver \<Rightarrow> solver" where
  "assume_requires ls tr requires s =
     fold (\<lambda>r s. case unwrap_block r of Some e \<Rightarrow> assume_clause ls tr e s | None \<Rightarrow> s) requires s"

definition assume_path :: "locals \<Rightarrow> tracker \<Rightarrow> syn_expr list \<Rightarrow> solver \<Rightarrow> solver" where
  "assume_path ls tr pcs s = fold (assume_clause ls tr) pcs s"

datatype post_error = PostconditionViolated syn_expr

fun check_ensures ::
  "checker \<Rightarrow> string list \<Rightarrow> locals \<Rightarrow> tracker \<Rightarrow> syn_expr \<Rightarrow> solver \<Rightarrow> syn_expr list \<Rightarrow> bool \<Rightarrow> check_counts \<Rightarrow>
     (post_error, bool) result \<times> check_counts" where
  "check_ensures check params ls tr ret s [] verified k = (Inr verified, k)"
| "check_ensures check params ls tr ret s (ens # rest) verified k =
     (case unwrap_block ens of
        None \<Rightarrow> check_ensures check params ls tr ret s rest verified k
      | Some e \<Rightarrow>
          (case (translate_bool (result_locals ls) tr e, translate_int ls tr ret) of
             (Inr c, Inr v) \<Rightarrow>
               (let inner = assert_term (ZNot c) (assert_term (ZEq (ZConst ''result'') v) (push_frame s));
                    k = k\<lparr>total_checks := Suc (total_checks k)\<rparr>
                in (case check (assertions inner) of
                      Unsat \<Rightarrow>
                        check_ensures check params ls tr ret s rest True (k\<lparr>elided_checks := Suc (elided_checks k)\<rparr>)
                    | Sat \<Rightarrow>
                        if uses_untracked params ret then check_ensures check params ls tr ret s rest verified k
                        else (Inl (PostconditionViolated e), k)
                    | Unknown \<Rightarrow> check_ensures check params ls tr ret s rest verified k))
           | _ \<Rightarrow> check_ensures check params ls tr ret s rest verified k))"

definition verify_postcondition ::
  "checker \<Rightarrow> bool \<Rightarrow> syn_expr list \<Rightarrow> syn_expr list \<Rightarrow> syn_expr list \<Rightarrow> syn_expr \<Rightarrow> string list \<Rightarrow> locals \<Rightarrow> tracker \<Rightarrow>
     check_counts \<Rightarrow> (post_error, bool) result \<times> check_counts" where
  "verify_postcondition check no_verify ensures requires pcs ret params ls tr k =
     (if ensures = [] \<or> no_verify then (Inr False, k)
      else
        (let ls = post_locals params ls;
             s = assume_path ls tr pcs (assume_requires ls tr requires [[]])
         in check_ensures check params ls tr ret s ensures False k))"

text \<open>
  The function whose contract is used at a return: the first of the file whose name ends the name of the
  function being emitted.
\<close>

definition contract_source :: "salt_fn list \<Rightarrow> string \<Rightarrow> salt_fn option" where
  "contract_source fs name = find (\<lambda>f. sf_name f = name \<or> ends_with (sf_name f) name) fs"

section \<open>Path conditions\<close>

definition negated :: "syn_expr \<Rightarrow> syn_expr" where
  "negated c = SynUnary OpNot c"

fun always_returns :: "stmt_ast list \<Rightarrow> bool"
and stmt_returns :: "stmt_ast \<Rightarrow> bool" where
  "always_returns [] = False"
| "always_returns (s # ss) = (stmt_returns s \<or> always_returns ss)"
| "stmt_returns (StReturn _) = True"
| "stmt_returns (StExpr (SynReturn _) _) = True"
| "stmt_returns (StSyn (SynStmtExpr (SynReturn _) _)) = True"
| "stmt_returns (StIf (SaltIf c t (Some (ElseBlock b)))) = (always_returns t \<and> always_returns b)"
| "stmt_returns (StIf (SaltIf c t (Some (ElseIf (SaltIf c' t' e'))))) = (always_returns t \<and> always_returns t')"
| "stmt_returns _ = False"

text \<open>
  What is known of the emission of statements: the returns with the path conditions they are checked
  under, whether it ends in a terminator, and whether it leaves the enclosing loop. A return inside of an
  expression is not among them, and the exit label of a loop is taken to be used by its own breaks only. After
  a branch that always returns, its negated condition holds up to the end of the block.
\<close>

record sites =
  found :: "(syn_expr list \<times> syn_expr) list"
  terminated :: bool
  breaks :: bool

abbreviation no_site :: "bool \<Rightarrow> bool \<Rightarrow> sites" where
  "no_site t b \<equiv> \<lparr>found = [], terminated = t, breaks = b\<rparr>"

definition return_site :: "syn_expr list \<Rightarrow> syn_expr option \<Rightarrow> sites" where
  "return_site pcs r = \<lparr>found = (case r of Some e \<Rightarrow> [(pcs, e)] | None \<Rightarrow> []), terminated = True, breaks = False\<rparr>"

definition guard_after :: "syn_expr list \<Rightarrow> stmt_ast \<Rightarrow> syn_expr list" where
  "guard_after pcs s =
     (case s of StIf (SaltIf c t None) \<Rightarrow> if always_returns t then pcs @ [negated c] else pcs | _ \<Rightarrow> pcs)"

function (sequential) block_sites :: "syn_expr list \<Rightarrow> stmt_ast list \<Rightarrow> sites"
and stmt_sites :: "syn_expr list \<Rightarrow> stmt_ast \<Rightarrow> sites"
and if_sites :: "syn_expr list \<Rightarrow> salt_if \<Rightarrow> sites"
and arm_sites :: "syn_expr list \<Rightarrow> match_arm list \<Rightarrow> sites" where
  "block_sites pcs [] = no_site False False"
| "block_sites pcs (s # ss) =
     (let a = stmt_sites pcs s
      in if terminated a then a
         else
           (let b = block_sites (guard_after pcs s) ss
            in \<lparr>found = found a @ found b, terminated = terminated b, breaks = breaks a \<or> breaks b\<rparr>))"
| "stmt_sites pcs (StReturn r) = return_site pcs r"
| "stmt_sites pcs (StExpr (SynReturn r) _) = return_site pcs r"
| "stmt_sites pcs (StSyn (SynStmtExpr (SynReturn r) _)) = return_site pcs r"
| "stmt_sites pcs (StIf i) = if_sites pcs i"
| "stmt_sites pcs (StWhile _ b) = (block_sites pcs b)\<lparr>terminated := False, breaks := False\<rparr>"
| "stmt_sites pcs (StFor _ _ b) = (block_sites pcs b)\<lparr>terminated := False, breaks := False\<rparr>"
| "stmt_sites pcs (StLoop b) = (let a = block_sites pcs b in a\<lparr>terminated := \<not> breaks a, breaks := False\<rparr>)"
| "stmt_sites pcs (StUnsafe b) = block_sites pcs b"
| "stmt_sites pcs (StWithRegion _ b) = block_sites pcs b"
| "stmt_sites pcs (StMapWindow _ _ _ b) = (block_sites pcs b)\<lparr>terminated := False\<rparr>"
| "stmt_sites pcs (StMatch _ arms) = arm_sites pcs arms"
| "stmt_sites pcs (StLetElse p _ b) =
     (if is_irrefutable p then no_site False False else (block_sites pcs b)\<lparr>terminated := False\<rparr>)"
| "stmt_sites pcs StBreak = no_site True True"
| "stmt_sites pcs StContinue = no_site True False"
| "stmt_sites pcs _ = no_site False False"
| "if_sites pcs (SaltIf c t None) = (block_sites (pcs @ [c]) t)\<lparr>terminated := False\<rparr>"
| "if_sites pcs (SaltIf c t (Some (ElseBlock b))) =
     (let x = block_sites (pcs @ [c]) t; y = block_sites (pcs @ [negated c]) b
      in \<lparr>found = found x @ found y, terminated = terminated x \<and> terminated y, breaks = breaks x \<or> breaks y\<rparr>)"
| "if_sites pcs (SaltIf c t (Some (ElseIf i))) =
     (let x = block_sites (pcs @ [c]) t; y = if_sites (pcs @ [negated c]) i
      in \<lparr>found = found x @ found y, terminated = terminated x \<and> terminated y, breaks = breaks x \<or> breaks y\<rparr>)"
| "arm_sites pcs [] = no_site True False"
| "arm_sites pcs (MatchArm p g body # as) =
     (let x = block_sites pcs body; y = arm_sites pcs as
      in \<lparr>found = found x @ found y, terminated = terminated x \<and> terminated y, breaks = breaks x \<or> breaks y\<rparr>)"
  by pat_completeness auto
termination
  by (relation "measure (\<lambda>x. case x of
      Inl (Inl (_, ss)) \<Rightarrow> size_list size ss | Inl (Inr (_, s)) \<Rightarrow> size s
    | Inr (Inl (_, i)) \<Rightarrow> size i | Inr (Inr (_, as)) \<Rightarrow> size_list size as)") simp_all

section \<open>A proved postcondition\<close>

lemma post_locals_plain:
  assumes "plain_symbols ls tr" "\<forall>p \<in> set params. tr p = None"
  shows "plain_symbols (post_locals params ls) tr"
  using assms
proof (induction params arbitrary: ls)
  case (Cons p ps)
  have "plain_symbols (if ls p = None then ls(p \<mapsto> (I32, LocalSSA p)) else ls) tr"
    using Cons.prems by (auto simp: plain_symbols_def variable_term_def)
  then show ?case using Cons by (simp add: post_locals_def)
qed (simp add: post_locals_def)

lemma result_locals_plain: "plain_symbols ls tr \<Longrightarrow> tr ''result'' = None \<Longrightarrow> plain_symbols (result_locals ls) tr"
  by (auto simp: plain_symbols_def variable_term_def result_locals_def)

lemma unwrapped_clause:
  assumes "unwrap_block r = Some e" "truth_of M r = Some b" "no_overflow M r"
  shows "truth_of M e = Some b \<and> no_overflow M e"
proof (cases r)
  case (SynBlock ss)
  then obtain i x rest where "ss = SynStmtExpr i x # rest" "e = i"
    using assms(1) by (auto simp: unwrap_block_def split: list.splits syn_stmt.splits)
  then show ?thesis using assms(2,3) SynBlock by (cases rest) auto
qed (use assms in \<open>simp_all add: unwrap_block_def\<close>)

definition holds_here :: "machine \<Rightarrow> syn_expr \<Rightarrow> bool" where
  "holds_here M e \<longleftrightarrow> no_overflow M e \<and> meets M e"

lemma assume_clause_ok:
  assumes "plain_symbols ls tr" "holds_here M e" "all_hold (valuation_of M) (assertions s)"
  shows "all_hold (valuation_of M) (assertions (assume_clause ls tr e s))"
proof (cases "translate_bool ls tr e")
  case (Inr c)
  have "holds (valuation_of M) c"
    using clause_exact [OF valuation_of_stands [OF assms(1)] _ Inr] assms(2) by (auto simp: holds_here_def meets_def)
  then show ?thesis using assms(3) Inr by (simp add: assume_clause_def)
qed (use assms in \<open>simp add: assume_clause_def\<close>)

lemma assume_path_ok:
  assumes "plain_symbols ls tr"
  shows "\<forall>e \<in> set pcs. holds_here M e \<Longrightarrow> all_hold (valuation_of M) (assertions s) \<Longrightarrow>
    all_hold (valuation_of M) (assertions (assume_path ls tr pcs s))"
  unfolding assume_path_def
  by (induction pcs arbitrary: s) (auto simp: assume_clause_ok [OF assms])

lemma assume_requires_ok:
  assumes "plain_symbols ls tr"
  shows "\<forall>r \<in> set rs. holds_here M r \<Longrightarrow> all_hold (valuation_of M) (assertions s) \<Longrightarrow>
    all_hold (valuation_of M) (assertions (assume_requires ls tr rs s))"
  unfolding assume_requires_def
proof (induction rs arbitrary: s)
  case (Cons r rs)
  have "all_hold (valuation_of M) (assertions (case unwrap_block r of Some e \<Rightarrow> assume_clause ls tr e s | None \<Rightarrow> s))"
  proof (cases "unwrap_block r")
    case (Some e)
    then have "holds_here M e" using unwrapped_clause [OF Some] Cons.prems(1) by (auto simp: holds_here_def meets_def)
    then show ?thesis using assume_clause_ok [OF assms] Cons.prems(2) Some by simp
  qed (use Cons.prems in simp)
  then show ?case using Cons by simp
qed simp

lemma proved_clause_holds:
  assumes "sound_check check" "plain_symbols ls tr" "\<forall>x \<in> insert ''result'' (set params). tr x = None"
    and "fst (verify_postcondition check False [ens] requires pcs ret params ls tr k) = Inr True"
    and "\<forall>e \<in> set requires \<union> set pcs. holds_here M e"
    and "word_of M ret = Some (var_value M ''result'')" "no_overflow M ret" "no_overflow M ens" "truth_of M ens \<noteq> None"
  shows "meets M ens"
proof -
  let ?ls = "post_locals params ls"
  let ?s = "assume_path ?ls tr pcs (assume_requires ?ls tr requires [[]])"
  have plain: "plain_symbols ?ls tr" "plain_symbols (result_locals ?ls) tr"
    using post_locals_plain [OF assms(2)] result_locals_plain assms(3) by simp_all
  obtain e c v where t: "unwrap_block ens = Some e" "translate_bool (result_locals ?ls) tr e = Inr c" "translate_int ?ls tr ret = Inr v"
    and unsat: "check (assertions (assert_term (ZNot c) (assert_term (ZEq (ZConst ''result'') v) (push_frame ?s)))) = Unsat"
    using assms(4) by (auto simp: verify_postcondition_def Let_def split: option.splits sum.splits sat_result.splits if_splits)
  obtain b where b: "truth_of M ens = Some b" using assms(9) by blast
  have e: "truth_of M e = Some b" "no_overflow M e" using unwrapped_clause [OF t(1) b assms(8)] by simp_all
  have "all_hold (valuation_of M) (assertions ?s)"
    using assms(5) by (intro assume_path_ok assume_requires_ok plain) (simp_all add: assertions_def)
  moreover have "int_value (valuation_of M) v = sint (var_value M ''result'')"
    by (rule translation_exact(1) [OF valuation_of_stands [OF plain(1)] assms(7) t(3) assms(6)])
  then have "holds (valuation_of M) (ZEq (ZConst ''result'') v)" by (simp add: valuation_of_def)
  moreover have "\<not> all_hold (valuation_of M) (assertions ?s @ [ZEq (ZConst ''result'') v, ZNot c])"
    using unsat_answer [OF assms(1) unsat, of "valuation_of M"] by simp
  moreover have "holds (valuation_of M) c = b"
    by (rule clause_exact [OF valuation_of_stands [OF plain(2)] e(2) t(2) e(1)])
  ultimately show ?thesis using b by (simp add: meets_def)
qed

section \<open>Runs of branches and returns\<close>

datatype outcome = Falls | Returns syn_expr

function (sequential) run_block :: "machine \<Rightarrow> stmt_ast list \<Rightarrow> outcome option"
and run_stmt :: "machine \<Rightarrow> stmt_ast \<Rightarrow> outcome option"
and run_if :: "machine \<Rightarrow> salt_if \<Rightarrow> outcome option" where
  "run_block M [] = Some Falls"
| "run_block M (s # ss) = (case run_stmt M s of Some Falls \<Rightarrow> run_block M ss | r \<Rightarrow> r)"
| "run_stmt M (StReturn (Some e)) = Some (Returns e)"
| "run_stmt M (StExpr (SynReturn (Some e)) _) = Some (Returns e)"
| "run_stmt M (StIf i) = run_if M i"
| "run_stmt M (StUnsafe b) = run_block M b"
| "run_stmt M (StWithRegion _ b) = run_block M b"
| "run_stmt M _ = None"
| "run_if M (SaltIf c t e) =
     (case truth_of M c of
        Some True \<Rightarrow> run_block M t
      | Some False \<Rightarrow>
          (case e of
             None \<Rightarrow> Some Falls
           | Some (ElseBlock b) \<Rightarrow> run_block M b
           | Some (ElseIf i) \<Rightarrow> run_if M i)
      | None \<Rightarrow> None)"
  by pat_completeness auto
termination
  by (relation "measure (\<lambda>x. case x of
      Inl (_, ss) \<Rightarrow> size_list size ss | Inr (Inl (_, s)) \<Rightarrow> size s | Inr (Inr (_, i)) \<Rightarrow> size i)") simp_all

text \<open>Code without \<open>else if\<close>.\<close>

fun no_else_if :: "stmt_ast \<Rightarrow> bool" where
  "no_else_if (StIf (SaltIf c t None)) \<longleftrightarrow> list_all no_else_if t"
| "no_else_if (StIf (SaltIf c t (Some (ElseBlock b)))) \<longleftrightarrow> list_all no_else_if t \<and> list_all no_else_if b"
| "no_else_if (StIf (SaltIf c t (Some (ElseIf i)))) \<longleftrightarrow> False"
| "no_else_if (StUnsafe b) \<longleftrightarrow> list_all no_else_if b"
| "no_else_if (StWithRegion _ b) \<longleftrightarrow> list_all no_else_if b"
| "no_else_if _ \<longleftrightarrow> True"

lemma if_unfold:
  "no_else_if (StIf (SaltIf c t e)) \<longleftrightarrow> list_all no_else_if t \<and>
     (case e of None \<Rightarrow> True | Some (ElseBlock b) \<Rightarrow> list_all no_else_if b | Some (ElseIf i) \<Rightarrow> False)"
  "stmt_returns (StIf (SaltIf c t e)) \<longleftrightarrow> always_returns t \<and>
     (case e of None \<Rightarrow> False | Some (ElseBlock b) \<Rightarrow> always_returns b | Some (ElseIf i) \<Rightarrow> always_returns (then_branch i))"
proof -
  show "no_else_if (StIf (SaltIf c t e)) \<longleftrightarrow> list_all no_else_if t \<and>
     (case e of None \<Rightarrow> True | Some (ElseBlock b) \<Rightarrow> list_all no_else_if b | Some (ElseIf i) \<Rightarrow> False)"
    by (simp split: option.split salt_else.split)
  show "stmt_returns (StIf (SaltIf c t e)) \<longleftrightarrow> always_returns t \<and>
     (case e of None \<Rightarrow> False | Some (ElseBlock b) \<Rightarrow> always_returns b | Some (ElseIf i) \<Rightarrow> always_returns (then_branch i))"
  proof (cases e)
    case (Some l)
    then show ?thesis
    proof (cases l)
      case (ElseIf i)
      then show ?thesis using Some by (cases i) simp
    qed simp
  qed simp
qed

lemma returning_block_returns:
  "list_all no_else_if ss \<Longrightarrow> always_returns ss \<Longrightarrow> run_block M ss \<noteq> Some Falls"
  "no_else_if s \<Longrightarrow> stmt_returns s \<Longrightarrow> run_stmt M s \<noteq> Some Falls"
  "no_else_if (StIf i) \<Longrightarrow> stmt_returns (StIf i) \<Longrightarrow> run_if M i \<noteq> Some Falls"
proof (induction M ss and M s and M i rule: run_block_run_stmt_run_if.induct)
  case (2 M s ss)
  then show ?case by (auto split: option.splits outcome.splits)
qed (auto simp: if_unfold split: option.splits bool.splits salt_else.splits)

lemma if_sites_unfold:
  "if_sites pcs (SaltIf c t e) =
     (let x = block_sites (pcs @ [c]) t;
          y = (case e of
                 None \<Rightarrow> no_site False False
               | Some (ElseBlock b) \<Rightarrow> block_sites (pcs @ [negated c]) b
               | Some (ElseIf i) \<Rightarrow> if_sites (pcs @ [negated c]) i)
      in \<lparr>found = found x @ found y, terminated = terminated x \<and> terminated y, breaks = breaks x \<or> breaks y\<rparr>)"
  by (cases e) (auto simp: Let_def split: salt_else.split)

text \<open>Code that the emission takes for terminated does not fall through.\<close>

lemma terminated_returns:
  "terminated (block_sites pcs ss) \<Longrightarrow> run_block M ss \<noteq> Some Falls"
  "terminated (stmt_sites pcs s) \<Longrightarrow> run_stmt M s \<noteq> Some Falls"
  "terminated (if_sites pcs i) \<Longrightarrow> run_if M i \<noteq> Some Falls"
proof (induction M ss and M s and M i arbitrary: pcs and pcs and pcs rule: run_block_run_stmt_run_if.induct)
  case (2 M s ss)
  then show ?case by (auto simp: Let_def split: option.splits outcome.splits if_splits)
qed (auto simp: if_sites_unfold Let_def split: option.splits bool.splits salt_else.splits)

definition site_reached :: "machine \<Rightarrow> syn_expr \<Rightarrow> sites \<Rightarrow> bool" where
  "site_reached M e st \<longleftrightarrow> (\<exists>pcs. (pcs, e) \<in> set (found st) \<and> (\<forall>c \<in> set pcs. meets M c))"

lemma negated_meets: "truth_of M c = Some False \<Longrightarrow> meets M (negated c)"
  by (simp add: meets_def negated_def)

lemma guard_meets:
  assumes "no_else_if s" "run_stmt M s = Some Falls" "\<forall>c \<in> set pcs. meets M c"
  shows "\<forall>c \<in> set (guard_after pcs s). meets M c"
proof (cases "\<exists>c t. s = StIf (SaltIf c t None) \<and> always_returns t")
  case True
  then obtain c t where s: "s = StIf (SaltIf c t None)" "always_returns t" by blast
  have "truth_of M c = Some False"
    using assms(1,2) returning_block_returns(1) [OF _ s(2), of M] by (auto simp: s(1) split: option.splits bool.splits)
  then show ?thesis using assms(3) negated_meets by (auto simp: guard_after_def s)
next
  case False
  then have "guard_after pcs s = pcs"
    by (auto simp: guard_after_def split: stmt_ast.splits salt_if.splits option.splits)
  then show ?thesis using assms(3) by simp
qed

lemma return_site_reached:
  "\<forall>c \<in> set pcs. meets M c \<Longrightarrow> site_reached M e (return_site pcs (Some e))"
  by (auto simp: site_reached_def return_site_def)

text \<open>A run that returns reaches a site whose path conditions hold.\<close>

lemma run_reaches_site:
  "run_block M ss = Some (Returns e) \<Longrightarrow> list_all no_else_if ss \<Longrightarrow> \<forall>c \<in> set pcs. meets M c \<Longrightarrow>
     site_reached M e (block_sites pcs ss)"
  "run_stmt M s = Some (Returns e) \<Longrightarrow> no_else_if s \<Longrightarrow> \<forall>c \<in> set pcs. meets M c \<Longrightarrow> site_reached M e (stmt_sites pcs s)"
  "run_if M i = Some (Returns e) \<Longrightarrow> no_else_if (StIf i) \<Longrightarrow> \<forall>c \<in> set pcs. meets M c \<Longrightarrow> site_reached M e (if_sites pcs i)"
proof (induction M ss and M s and M i arbitrary: pcs and pcs and pcs rule: run_block_run_stmt_run_if.induct)
  case (2 M s ss)
  show ?case
  proof (cases "run_stmt M s = Some Falls")
    case True
    have "\<not> terminated (stmt_sites pcs s)" using terminated_returns(2) True by blast
    moreover have "site_reached M e (block_sites (guard_after pcs s) ss)"
      using 2 True guard_meets [OF _ True] by auto
    ultimately show ?thesis by (auto simp: Let_def site_reached_def)
  next
    case False
    then have "run_stmt M s = Some (Returns e)" using "2.prems"(1) by (auto split: option.splits outcome.splits)
    then have "site_reached M e (stmt_sites pcs s)" using 2 by simp
    then show ?thesis by (auto simp: Let_def site_reached_def)
  qed
next
  case (3 M e')
  then show ?case using return_site_reached by simp
next
  case (4 M e' x)
  then show ?case using return_site_reached by simp
next
  case (9 M c t el)
  have t: "list_all no_else_if t" using "9.prems"(2) by (simp add: if_unfold)
  show ?case
  proof (cases "truth_of M c = Some True")
    case True
    then have "site_reached M e (block_sites (pcs @ [c]) t)"
      using "9.prems" t by (intro "9.IH"(1) [of True]) (auto simp: meets_def)
    then show ?thesis by (auto simp: if_sites_unfold Let_def site_reached_def)
  next
    case False
    then have c: "truth_of M c = Some False" using "9.prems"(1) by (auto split: option.splits bool.splits)
    then obtain b where b: "el = Some (ElseBlock b)" "run_block M b = Some (Returns e)"
      using "9.prems"(1,2) by (auto simp: if_unfold split: option.splits salt_else.splits)
    have "site_reached M e (block_sites (pcs @ [negated c]) b)"
      using c b "9.prems"(2,3) by (intro "9.IH"(2) [of False]) (auto simp: if_unfold negated_meets)
    then show ?thesis by (auto simp: if_sites_unfold b(1) Let_def site_reached_def)
  qed
qed simp_all

section \<open>The method\<close>

fun mentions :: "string \<Rightarrow> syn_expr \<Rightarrow> bool" where
  "mentions x (SynPath p) \<longleftrightarrow> last_segment p = x"
| "mentions x (SynBinary l op r) \<longleftrightarrow> mentions x l \<or> mentions x r"
| "mentions x (SynParen e) \<longleftrightarrow> mentions x e"
| "mentions x (SynField e m) \<longleftrightarrow> mentions x e"
| "mentions x (SynUnary op e) \<longleftrightarrow> mentions x e"
| "mentions x (SynCall f as) \<longleftrightarrow> list_ex (mentions x) as"
| "mentions x (SynMethodCall e m as) \<longleftrightarrow> mentions x e \<or> list_ex (mentions x) as"
| "mentions x (SynBlock [SynStmtExpr e _]) \<longleftrightarrow> mentions x e"
| "mentions x _ \<longleftrightarrow> False"

definition set_var :: "string \<Rightarrow> i64 \<Rightarrow> machine \<Rightarrow> machine" where
  "set_var x w M = M\<lparr>var_value := (var_value M)(x := w)\<rparr>"

lemma set_var_sel [simp]:
  "var_value (set_var x w M) = (var_value M)(x := w)" "int_function (set_var x w M) = int_function M"
  "bool_function (set_var x w M) = bool_function M"
  by (simp_all add: set_var_def)

lemma word_of_set_var:
  "\<not> mentions x e \<Longrightarrow> word_of (set_var x w M) e = word_of M e"
  "\<not> list_ex (mentions x) es \<Longrightarrow> words_of (set_var x w M) es = words_of M es"
  by (induction M e and M es rule: word_of_words_of.induct) (simp_all split: syn_lit.split option.split list.split)

lemma truth_of_set_var: "\<not> mentions x e \<Longrightarrow> truth_of (set_var x w M) e = truth_of M e"
  by (induction M e rule: truth_of.induct) (simp_all add: word_of_set_var split: syn_lit.split option.split list.split)

lemma no_overflow_set_var: "\<not> mentions x e \<Longrightarrow> no_overflow (set_var x w M) e = no_overflow M e"
proof (induction M e rule: no_overflow.induct)
  case (7 M f as)
  then show ?case by (auto simp: list_all_iff list_ex_iff)
next
  case (8 M e m as)
  then show ?case by (auto simp: list_all_iff list_ex_iff)
qed (simp_all add: word_of_set_var)

text \<open>Expressions without overflow that do not use the name of the result.\<close>

definition regular :: "machine \<Rightarrow> syn_expr \<Rightarrow> bool" where
  "regular M e \<longleftrightarrow> no_overflow M e \<and> \<not> mentions ''result'' e"

text \<open>
  Property C10: if the check of the \<open>ensures\<close> clause succeeds at every return of a body of
  branches and returns (without \<open>else if\<close>), then every run from a state that meets the
  \<open>requires\<close> clauses returns a value that meets the \<open>ensures\<close> clause, where
  nothing overflows and the name \<open>result\<close> is not used for anything else.
\<close>

theorem returns_meet_contract:
  assumes "sound_check check" "plain_symbols ls tr" "\<forall>x \<in> insert ''result'' (set params). tr x = None"
    and "list_all no_else_if body"
    and verified: "\<forall>(pcs, e) \<in> set (found (block_sites [] body)).
      \<exists>k. fst (verify_postcondition check False [ens] requires pcs e params ls tr k) = Inr True"
    and run: "run_block M body = Some (Returns e)" "word_of M e = Some w"
    and requires: "\<forall>r \<in> set requires. meets M r"
    and fits: "regular M e" "\<forall>r \<in> set requires. regular M r" "\<forall>(pcs, e) \<in> set (found (block_sites [] body)). \<forall>c \<in> set pcs. regular M c"
    and ens: "no_overflow (set_var ''result'' w M) ens" "truth_of (set_var ''result'' w M) ens \<noteq> None"
  shows "meets (set_var ''result'' w M) ens"
proof -
  let ?N = "set_var ''result'' w M"
  obtain pcs where site: "(pcs, e) \<in> set (found (block_sites [] body))" "\<forall>c \<in> set pcs. meets M c"
    using run_reaches_site(1) [OF run(1) assms(4), of "[]"] by (auto simp: site_reached_def)
  obtain k where k: "fst (verify_postcondition check False [ens] requires pcs e params ls tr k) = Inr True"
    using verified site(1) by blast
  have keep: "holds_here ?N c" if "regular M c" "meets M c" for c
    using that by (simp add: holds_here_def regular_def meets_def truth_of_set_var no_overflow_set_var)
  have "\<forall>c \<in> set requires \<union> set pcs. holds_here ?N c"
    using keep requires fits(2,3) site by fastforce
  moreover have "word_of ?N e = Some (var_value ?N ''result'')" "no_overflow ?N e"
    using fits(1) run(2) by (simp_all add: regular_def word_of_set_var no_overflow_set_var)
  ultimately show ?thesis using proved_clause_holds [OF assms(1-3) k] ens by blast
qed


text \<open>
  A solver that knows a table of answers. The function \<open>if x <= 0 { return 1 } return x\<close> meets
  \<open>ensures(result > 0)\<close>, by the condition that holds after the guard.
\<close>

definition table_check :: "z3_bool list list \<Rightarrow> checker" where
  "table_check table cs = (if cs \<in> set table then Unsat else Unknown)"

lemma table_check_sound: "(\<forall>cs \<in> set table. \<forall>\<nu>. \<not> all_hold \<nu> cs) \<Longrightarrow> sound_check (table_check table)"
  by (simp add: sound_check_def table_check_def)

abbreviation positive_result :: syn_expr where
  "positive_result \<equiv> compare_e (name_of ''result'') OpGt (num_e 0)"

abbreviation not_positive :: syn_expr where
  "not_positive \<equiv> compare_e (name_of ''x'') OpLe (num_e 0)"

definition clamp_body :: "stmt_ast list" where
  "clamp_body = [StIf (SaltIf not_positive [StReturn (Some (num_e 1))] None), StReturn (Some (name_of ''x''))]"

definition clamp_answers :: "z3_bool list list" where
  "clamp_answers =
     [[ZLe (ZConst ''x'') (ZNum 0), ZEq (ZConst ''result'') (ZNum 1), ZNot (ZGt (ZConst ''result'') (ZNum 0))],
      [ZNot (ZLe (ZConst ''x'') (ZNum 0)), ZEq (ZConst ''result'') (ZConst ''x''), ZNot (ZGt (ZConst ''result'') (ZNum 0))]]"

lemma clamp_sites:
  "found (block_sites [] clamp_body) = [([not_positive], num_e 1), ([negated not_positive], name_of ''x'')]"
  by (simp add: clamp_body_def return_site_def guard_after_def)

lemmas post_eval = verify_postcondition_def post_locals_def result_locals_def assume_requires_def assume_path_def
  assume_clause_def unwrap_block_def negated_def contract_eval get_ident_def assertions_def assert_term_def push_frame_def pop_frame_def

lemma clamp_verified:
  "\<forall>(pcs, e) \<in> set (found (block_sites [] clamp_body)).
     \<exists>k. fst (verify_postcondition (table_check clamp_answers) False [positive_result] [] pcs e [''x''] Map.empty Map.empty k) = Inr True"
  by (simp add: clamp_sites post_eval table_check_def clamp_answers_def)

theorem returns_meet_contract_witness:
  "meets (set_var ''result'' 5 (all_vars 5)) positive_result"
proof (rule returns_meet_contract [OF table_check_sound nothing_tracked _ _ clamp_verified])
  show "\<forall>cs \<in> set clamp_answers. \<forall>\<nu>. \<not> all_hold \<nu> cs" by (auto simp: clamp_answers_def)
  show "list_all no_else_if clamp_body" by (simp add: clamp_body_def)
  show "run_block (all_vars 5) clamp_body = Some (Returns (name_of ''x''))"
    by (simp add: clamp_body_def contract_eval all_vars_def word_sle_eq)
  show "\<forall>(pcs, e) \<in> set (found (block_sites [] clamp_body)). \<forall>c \<in> set pcs. regular (all_vars 5) c"
    by (simp add: clamp_sites regular_def negated_def contract_eval)
qed (simp_all add: regular_def contract_eval all_vars_def)

section \<open>What the check gets wrong\<close>

abbreviation negative :: "string \<Rightarrow> syn_expr" where
  "negative x \<equiv> compare_e (name_of x) OpLt (num_e 0)"

text \<open>
  One proved clause counts for all: for \<open>return y\<close> of a local variable, \<open>result >
  0\<close> is put off, and the trivial clause after it makes the function verified.
\<close>

lemma one_clause_verifies:
  assumes "deciding_check check"
  shows "fst (verify_postcondition check False [positive_result, compare_e (name_of ''result'') OpEq (name_of ''result'')] []
      [] (name_of ''y'') [] Map.empty Map.empty k) = Inr True"
proof -
  have "\<exists>\<nu>. holds \<nu> (ZEq (ZConst ''result'') (ZConst ''y'')) \<and> \<not> holds \<nu> (ZGt (ZConst ''result'') (ZNum 0))"
    by (rule exI [of _ "valuation_of (all_vars 0)"]) (simp add: valuation_of_def all_vars_def)
  then show ?thesis by (simp add: post_eval deciding_answer [OF assms])
qed

text \<open>
  The return value \<open>result + 1\<close> of a local variable \<open>result\<close> is equated with
  \<open>result\<close> itself, so every clause is proved; the value \<open>result\<close> of such a
  variable is held against the function.
\<close>

lemma local_named_result:
  assumes "deciding_check check"
  shows "fst (verify_postcondition check False [negative ''result''] [] []
      (SynBinary (name_of ''result'') OpAdd (num_e 1)) [] Map.empty Map.empty k) = Inr True"
    and "fst (verify_postcondition check False [negative ''result''] [] []
      (name_of ''result'') [] Map.empty Map.empty k) = Inl (PostconditionViolated (negative ''result''))"
proof -
  show "fst (verify_postcondition check False [negative ''result''] [] []
      (SynBinary (name_of ''result'') OpAdd (num_e 1)) [] Map.empty Map.empty k) = Inr True"
    by (simp add: post_eval arith_term_def deciding_answer [OF assms])
  have "\<exists>\<nu>. \<not> holds \<nu> (ZLt (ZConst ''result'') (ZNum 0))"
    by (rule exI [of _ "valuation_of (all_vars 0)"]) (simp add: valuation_of_def all_vars_def)
  then show "fst (verify_postcondition check False [negative ''result''] [] []
      (name_of ''result'') [] Map.empty Map.empty k) = Inl (PostconditionViolated (negative ''result''))"
    by (simp add: post_eval deciding_answer [OF assms])
qed

text \<open>
  An assignment does not end a path condition: in \<open>if y < 0 { y = 5; return y }\<close> the
  condition is assumed of the value that is returned, and \<open>ensures(result < 0)\<close> is proved
  of 5.
\<close>

lemma stale_condition_kept:
  assumes "deciding_check check"
  shows "([negative ''y''], name_of ''y'') \<in> set (found (block_sites [] [StIf (SaltIf (negative ''y'')
      [StExpr (SynAssign (name_of ''y'') (num_e 5)) True, StReturn (Some (name_of ''y''))] None)]))"
    and "fst (verify_postcondition check False [negative ''result''] [] [negative ''y''] (name_of ''y'') [''y'']
      Map.empty Map.empty k) = Inr True"
    and "\<not> meets (set_var ''result'' 5 (all_vars 5)) (negative ''result'')"
  by (simp add: return_site_def guard_after_def)
    (simp add: post_eval deciding_answer [OF assms], simp add: meets_def contract_eval word_sless_alt)

text \<open>
  A chain \<open>if a { return 1 } else if b { return 2 }\<close> without a last \<open>else\<close>
  counts as code that always returns: in \<open>if c { <chain> } return x\<close> the negation of
  \<open>c\<close> is assumed of the last return, which a run with \<open>c\<close> reaches.
\<close>

definition chain :: "stmt_ast list" where
  "chain = [StIf (SaltIf (negative ''a'') [StReturn (Some (num_e 1))]
     (Some (ElseIf (SaltIf (negative ''b'') [StReturn (Some (num_e 2))] None))))]"

lemma chain_counts_as_returning:
  "always_returns chain"
  "run_block (all_vars 0) chain = Some Falls"
  "([negated nonneg_x], name_of ''x'') \<in> set (found (block_sites [] [StIf (SaltIf nonneg_x chain None), StReturn (Some (name_of ''x''))]))"
  "run_block (all_vars 0) [StIf (SaltIf nonneg_x chain None), StReturn (Some (name_of ''x''))] = Some (Returns (name_of ''x''))"
  "\<not> meets (all_vars 0) (negated nonneg_x)"
  by (simp_all add: chain_def return_site_def guard_after_def contract_eval all_vars_def meets_def negated_def word_sle_eq)

lemma chain_proves_wrong_clause:
  assumes "deciding_check check"
  shows "fst (verify_postcondition check False [negative ''result''] [] [negated nonneg_x] (name_of ''x'') [''x'']
      Map.empty Map.empty k) = Inr True"
  by (simp add: post_eval deciding_answer [OF assms]) auto

text \<open>The requirements of \<open>add\<close> are assumed in \<open>checked_add\<close>, if \<open>add\<close> is declared before it.\<close>

lemma contract_of_another_function:
  assumes "sf_name f = ''add''" "sf_name g = ''checked_add''"
  shows "contract_source [f, g] ''checked_add'' = Some f"
  using assms by (simp add: contract_source_def ends_with_def)

text \<open>What the translation does not know is one symbol: \<open>return a[0]\<close> is proved to meet \<open>ensures(result == a[1])\<close>.\<close>

lemma different_elements_returned:
  assumes "deciding_check check"
  shows "fst (verify_postcondition check False
      [compare_e (name_of ''result'') OpEq (SynIndex (name_of ''a'') (num_e 1))] [] []
      (SynIndex (name_of ''a'') (num_e 0)) [''a''] Map.empty Map.empty k) = Inr True"
  by (simp add: post_eval deciding_answer [OF assms])

end
