(* ===== verification/Salt_Layout.thy ===== *)
theory Salt_Layout
  imports Salt_Types
begin

text \<open>
  \<open>Type::size_of\<close> and \<open>Type::align_of\<close>
  (\<open>salt-front/src/types.rs\<close>): the byte size and the alignment of a type over the struct
  registry, in \<open>usize\<close> arithmetic as a release build computes it (additions and products
  wrap at 64 bits). The recursion through the registry is cut at depth 32, so both functions are total
  even on a struct that contains itself.
\<close>

section \<open>Offsets and padding\<close>

text \<open>\<open>(offset + align - 1) & !(align - 1)\<close>\<close>

definition align_up :: "usize \<Rightarrow> usize \<Rightarrow> usize" where
  "align_up offset align = (offset + align - 1) AND NOT (align - 1)"

text \<open>The loop over the (alignment, size) of the fields, then the padding at the end.\<close>

definition layout_step :: "usize \<times> usize \<Rightarrow> usize \<times> usize \<Rightarrow> usize \<times> usize" where
  "layout_step field acc =
     (case field of (align, sz) \<Rightarrow> case acc of (offset, max_align) \<Rightarrow>
        (align_up offset align + sz, max max_align align))"

definition layout_size :: "(usize \<times> usize) list \<Rightarrow> usize" where
  "layout_size fs =
     (case fold layout_step fs (0, 1) of (offset, max_align) \<Rightarrow> align_up offset max_align)"

text \<open>\<open>.max().unwrap_or(1)\<close>\<close>

definition max_or_one :: "usize list \<Rightarrow> usize" where
  "max_or_one aligns = (case aligns of [] \<Rightarrow> 1 | a # as \<Rightarrow> fold max as a)"

text \<open>The explicit \<open>@align\<close> of field \<open>i\<close>, when it has one, can only raise the alignment.\<close>

definition field_align :: "struct_info \<Rightarrow> nat \<Rightarrow> usize \<Rightarrow> usize" where
  "field_align info i align =
     (if i < length (si_field_alignments info)
      then case si_field_alignments info ! i of
             Some explicit \<Rightarrow> max align (ucast explicit)
           | None \<Rightarrow> align
      else align)"

definition find_struct :: "struct_registry \<Rightarrow> string \<Rightarrow> struct_info option" where
  "find_struct reg name = map_option snd (List.find (\<lambda>(k, info). si_name info = name) reg)"

definition lookup_name :: "ty \<Rightarrow> string" where
  "lookup_name t =
     (case t of Concrete _ _ \<Rightarrow> mangle_suffix t | Struct n \<Rightarrow> n | Enum n \<Rightarrow> n | _ \<Rightarrow> [])"

definition is_nominal :: "ty \<Rightarrow> bool" where
  "is_nominal t = (case t of Struct _ \<Rightarrow> True | Enum _ \<Rightarrow> True | Concrete _ _ \<Rightarrow> True | _ \<Rightarrow> False)"

definition base_name :: "ty \<Rightarrow> string" where
  "base_name t = (case t of Struct n \<Rightarrow> n | Enum n \<Rightarrow> n | Concrete n _ \<Rightarrow> n | _ \<Rightarrow> [])"

section \<open>Alignment and size\<close>

function internal_align_of :: "struct_registry \<Rightarrow> ty \<Rightarrow> nat \<Rightarrow> usize" where
  "internal_align_of reg t depth =
     (if 32 < depth then 8
      else if is_nominal t then
        (case find_struct reg (lookup_name t) of
           Some info \<Rightarrow>
             max_or_one (map (\<lambda>(i, ty). field_align info i (internal_align_of reg ty (Suc depth)))
               (List.enumerate 0 (si_field_order info)))
         | None \<Rightarrow> 8)
      else case t of
        I8 \<Rightarrow> 1 | U8 \<Rightarrow> 1 | Bool \<Rightarrow> 1 | Never \<Rightarrow> 1 | Unit \<Rightarrow> 1
      | I16 \<Rightarrow> 2 | U16 \<Rightarrow> 2
      | I32 \<Rightarrow> 4 | U32 \<Rightarrow> 4 | F32 \<Rightarrow> 4
      | Atomic inner \<Rightarrow> internal_align_of reg inner (Suc depth)
      | Array inner _ _ \<Rightarrow> internal_align_of reg inner (Suc depth)
      | Tensor inner _ \<Rightarrow> internal_align_of reg inner (Suc depth)
      | Tuple elems \<Rightarrow> max_or_one (map (\<lambda>e. internal_align_of reg e (Suc depth)) elems)
      | _ \<Rightarrow> 8)"
  by pat_completeness auto
termination
  by (relation "measure (\<lambda>(_, _, depth). 33 - depth)") auto

declare internal_align_of.simps [simp del]

function internal_size_of :: "struct_registry \<Rightarrow> ty \<Rightarrow> nat \<Rightarrow> usize" where
  "internal_size_of reg t depth =
     (if 32 < depth then 8
      else if is_nominal t then
        (if base_name t = ''Option'' then 16
         else case find_struct reg (lookup_name t) of
           Some info \<Rightarrow>
             layout_size (map (\<lambda>(i, ty).
                 (field_align info i (internal_align_of reg ty (Suc depth)),
                  internal_size_of reg ty (Suc depth)))
               (List.enumerate 0 (si_field_order info)))
         | None \<Rightarrow> 8)
      else case t of
        I8 \<Rightarrow> 1 | U8 \<Rightarrow> 1 | Bool \<Rightarrow> 1
      | Never \<Rightarrow> 0
      | I16 \<Rightarrow> 2 | U16 \<Rightarrow> 2
      | I32 \<Rightarrow> 4 | U32 \<Rightarrow> 4 | F32 \<Rightarrow> 4
      | Atomic inner \<Rightarrow> internal_size_of reg inner (Suc depth)
      | Array inner len _ \<Rightarrow> internal_size_of reg inner (Suc depth) * len
      | Tensor inner dims \<Rightarrow> internal_size_of reg inner (Suc depth) * prod_list dims
      | Tuple elems \<Rightarrow>
          (if elems = [] then 0
           else layout_size (map (\<lambda>e.
                  (internal_align_of reg e (Suc depth), internal_size_of reg e (Suc depth))) elems))
      | Window _ _ \<Rightarrow> 16
      | _ \<Rightarrow> 8)"
  by pat_completeness auto
termination
  by (relation "measure (\<lambda>(_, _, depth). 33 - depth)") auto

declare internal_size_of.simps [simp del]

definition align_of :: "struct_registry \<Rightarrow> ty \<Rightarrow> usize" where
  "align_of reg t = internal_align_of reg t 0"

definition size_of :: "struct_registry \<Rightarrow> ty \<Rightarrow> usize" where
  "size_of reg t = internal_size_of reg t 0"

section \<open>Powers of two\<close>

definition pow2 :: "usize \<Rightarrow> bool" where
  "pow2 a = (\<exists>k < 64. a = 2 ^ k)"

text \<open>The alignments a user can write: every \<open>@align(N)\<close> in the registry has \<open>N\<close> a power of two.\<close>

definition aligns_pow2 :: "struct_registry \<Rightarrow> bool" where
  "aligns_pow2 reg =
     (\<forall>(k, info) \<in> set reg. \<forall>a. Some a \<in> set (si_field_alignments info) \<longrightarrow> pow2 (ucast a))"

lemma pow2_small [simp]: "pow2 1" "pow2 2" "pow2 4" "pow2 8"
proof -
  show "pow2 1" unfolding pow2_def by (rule exI [of _ 0]) simp
  show "pow2 2" unfolding pow2_def by (rule exI [of _ 1]) simp
  show "pow2 4" unfolding pow2_def by (rule exI [of _ 2]) simp
  show "pow2 8" unfolding pow2_def by (rule exI [of _ 3]) simp
qed

lemma pow2_max [intro]: "pow2 a \<Longrightarrow> pow2 b \<Longrightarrow> pow2 (max a b)"
  by (simp add: max_def)

lemma pow2_fold_max: "pow2 a \<Longrightarrow> (\<And>x. x \<in> set xs \<Longrightarrow> pow2 x) \<Longrightarrow> pow2 (fold max xs a)"
  by (induction xs arbitrary: a) auto

lemma pow2_max_or_one: "(\<And>x. x \<in> set xs \<Longrightarrow> pow2 x) \<Longrightarrow> pow2 (max_or_one xs)"
  by (auto simp: max_or_one_def pow2_fold_max split: list.split)

lemma unat_pow2: "k < 64 \<Longrightarrow> unat (2 ^ k :: usize) = 2 ^ k"
proof -
  assume "k < 64"
  then have "(2 :: nat) ^ k < 2 ^ 64" by (rule power_strict_increasing) simp
  then have "unat (of_nat (2 ^ k) :: usize) = 2 ^ k"
    by (subst unat_of_nat) simp
  then show ?thesis by simp
qed

lemma pow2_dvd_iff:
  assumes "a = 2 ^ k" "k < 64"
  shows "unat (a :: usize) dvd unat x \<longleftrightarrow> x AND mask k = 0"
proof -
  have "unat a = 2 ^ k" using assms by (simp add: unat_pow2)
  then show ?thesis by (simp add: and_mask_dvd_nat)
qed

lemma pow2_dvd_align_up:
  assumes "pow2 a"
  shows "unat a dvd unat (align_up x a)"
proof -
  obtain k where k: "a = 2 ^ k" "k < 64" using assms by (auto simp: pow2_def)
  have "a - 1 = mask k" using k by (simp add: mask_eq_exp_minus_1)
  then have "align_up x a AND mask k = 0"
    by (simp add: align_up_def and.assoc)
  then show ?thesis by (simp only: pow2_dvd_iff [OF k])
qed

lemma pow2_dvd_mult:
  assumes "pow2 a" "unat a dvd unat (x :: usize)"
  shows "unat a dvd unat (x * y)"
proof -
  obtain k where k: "a = 2 ^ k" "k < 64" using assms(1) by (auto simp: pow2_def)
  have "unat a = 2 ^ k" using k by (simp add: unat_pow2)
  moreover have "(2 :: nat) ^ k dvd 2 ^ LENGTH(64)"
    by (rule le_imp_power_dvd) (use k(2) in simp)
  ultimately show ?thesis using assms(2)
    by (simp add: unat_word_ariths dvd_mod)
qed

section \<open>Sizes are multiples of alignments\<close>

text \<open>
  \<open>size_of\<close> answers 16 for every \<open>Option\<close>, \<open>align_of\<close> looks it
  up: the two agree as long as no struct of that name is registered.
\<close>

definition option_unregistered :: "struct_registry \<Rightarrow> bool" where
  "option_unregistered reg = (\<forall>(k, info) \<in> set reg. \<not> starts_with ''Option'' (si_name info))"

lemma pow2_ge_1: "pow2 a \<Longrightarrow> 1 \<le> a"
  by (auto simp: pow2_def word_le_nat_alt unat_pow2)

lemma max_or_one_fold:
  assumes "\<And>x. x \<in> set xs \<Longrightarrow> 1 \<le> x"
  shows "max_or_one xs = fold max xs 1"
  using assms by (cases xs) (auto simp: max_or_one_def max.absorb1 max.absorb2)

lemma fold_layout_step_align:
  "snd (fold layout_step fs (offset, a)) = fold max (map fst fs) a"
  by (induction fs arbitrary: offset a) (auto simp: layout_step_def max.commute)

lemma layout_size_dvd:
  assumes "\<And>f. f \<in> set fs \<Longrightarrow> pow2 (fst f)"
  shows "unat (max_or_one (map fst fs)) dvd unat (layout_size fs)"
proof -
  obtain offset a where r: "fold layout_step fs (0, 1) = (offset, a)" by fastforce
  have "\<And>x. x \<in> set (map fst fs) \<Longrightarrow> 1 \<le> x" using assms pow2_ge_1 by auto
  then have a: "a = max_or_one (map fst fs)"
    using fold_layout_step_align [of fs 0 1] r max_or_one_fold [of "map fst fs"] by simp
  have "pow2 a" unfolding a by (rule pow2_max_or_one) (use assms in auto)
  then show ?thesis by (simp add: layout_size_def r pow2_dvd_align_up flip: a)
qed

lemma find_struct_SomeD:
  "find_struct reg n = Some info \<Longrightarrow> \<exists>k. (k, info) \<in> set reg \<and> si_name info = n"
  by (auto simp: find_struct_def find_Some_iff in_set_conv_nth) (metis nth_mem prod.collapse)

lemma pow2_field_align:
  assumes "aligns_pow2 reg" "find_struct reg n = Some info" "pow2 a"
  shows "pow2 (field_align info i a)"
proof -
  obtain k where "(k, info) \<in> set reg" using find_struct_SomeD [OF assms(2)] by auto
  then have "pow2 (ucast e)" if "i < length (si_field_alignments info)"
    "si_field_alignments info ! i = Some e" for e
    using assms(1) that nth_mem [OF that(1)] by (auto simp: aligns_pow2_def)
  then show ?thesis using assms(3) by (auto simp: field_align_def split: option.split)
qed

lemma pow2_internal_align_of:
  "aligns_pow2 reg \<Longrightarrow> pow2 (internal_align_of reg t depth)"
proof (induction reg t depth rule: internal_align_of.induct)
  case (1 reg t depth)
  show ?case
  proof (cases "32 < depth \<or> is_nominal t")
    case True
    then show ?thesis
      by (subst internal_align_of.simps)
        (auto simp: 1 split: option.split intro!: pow2_max_or_one pow2_field_align [OF 1(6)])
  next
    case False
    then show ?thesis
      by (subst internal_align_of.simps) (auto simp: 1 split: ty.split intro!: pow2_max_or_one)
  qed
qed

lemma option_lookup_None:
  assumes "option_unregistered reg" "is_nominal t" "base_name t = ''Option''"
  shows "find_struct reg (lookup_name t) = None"
proof -
  have "starts_with ''Option'' (lookup_name t)"
    using assms(2,3) by (auto simp: is_nominal_def base_name_def lookup_name_def starts_with_iff
        split: ty.splits)
  then show ?thesis
    using assms(1) find_struct_SomeD [of reg "lookup_name t"]
    by (cases "find_struct reg (lookup_name t)") (auto simp: option_unregistered_def)
qed

lemma layout_dvd_map:
  assumes "\<And>x. x \<in> set xs \<Longrightarrow> pow2 (f x)"
  shows "unat (max_or_one (map f xs)) dvd unat (layout_size (map (\<lambda>x. (f x, g x)) xs))"
  by (rule layout_size_dvd [of "map (\<lambda>x. (f x, g x)) xs", simplified map_map o_def fst_conv])
    (use assms in auto)

lemma layout_dvd_fields:
  assumes "\<And>i t. (i, t) \<in> set xs \<Longrightarrow> pow2 (f i t)"
  shows "unat (max_or_one (map (\<lambda>(i, t). f i t) xs)) dvd
    unat (layout_size (map (\<lambda>(i, t). (f i t, g t)) xs))"
  unfolding case_prod_beta' by (rule layout_dvd_map) (use assms in auto)

lemma internal_align_dvd_size:
  "aligns_pow2 reg \<Longrightarrow> option_unregistered reg \<Longrightarrow>
    unat (internal_align_of reg t depth) dvd unat (internal_size_of reg t depth)"
proof (induction reg t depth rule: internal_size_of.induct)
  case (1 reg t depth)
  note reg = 1(6,7)
  note a = pow2_internal_align_of [OF reg(1)]
  show ?case
  proof (cases "32 < depth \<or> is_nominal t")
    case True
    then show ?thesis
      using option_lookup_None [OF reg(2), of t]
      by (subst internal_align_of.simps, subst internal_size_of.simps)
        (auto split: option.split
          intro!: layout_dvd_fields pow2_field_align [OF reg(1)] a)
  next
    case False
    then show ?thesis
      by (subst internal_align_of.simps, subst internal_size_of.simps)
        (auto simp: 1 a split: ty.split intro!: layout_dvd_map pow2_dvd_mult)
  qed
qed

text \<open>
  For a registry whose explicit alignments are powers of two and in which no struct
  is called \<open>Option\<close>, the alignment of every type is a power of two (so the padding mask of the
  code is sound) and divides its size, so consecutive elements of an array stay aligned. The
  products and sums may wrap around at 64 bits; the statement holds all the same.
\<close>

theorem size_multiple_of_align:
  assumes "aligns_pow2 reg" "option_unregistered reg"
  shows "pow2 (align_of reg t) \<and> unat (align_of reg t) dvd unat (size_of reg t)"
  using pow2_internal_align_of [OF assms(1)] internal_align_dvd_size [OF assms]
  by (simp add: align_of_def size_of_def)

text \<open>A registry with a padded struct, one over-aligned field, and a struct that contains itself.\<close>

definition example_registry :: struct_registry where
  "example_registry =
     [(\<lparr>tk_path = [], tk_name = ''Pair'', tk_spec = None\<rparr>,
       \<lparr>si_name = ''Pair'', si_fields = Map.empty, si_field_order = [I8, I32],
        si_field_alignments = [None, Some 16], si_template_name = None,
        si_specialization_args = []\<rparr>),
      (\<lparr>tk_path = [], tk_name = ''Loop'', tk_spec = None\<rparr>,
       \<lparr>si_name = ''Loop'', si_fields = Map.empty, si_field_order = [Struct ''Loop''],
        si_field_alignments = [], si_template_name = None, si_specialization_args = []\<rparr>)]"

theorem size_multiple_of_align_witness:
  "unat (align_of example_registry (Array (Struct ''Pair'') 3 False)) dvd
   unat (size_of example_registry (Array (Struct ''Pair'') 3 False))"
proof -
  have "pow2 16" unfolding pow2_def by (rule exI [of _ 4]) simp
  then show ?thesis
    using size_multiple_of_align [of example_registry "Array (Struct ''Pair'') 3 False"]
    by (simp add: aligns_pow2_def option_unregistered_def example_registry_def)
qed

text \<open>
  The layout of that array: \<open>i8\<close> at 0, the over-aligned \<open>i32\<close> at 16, padded to
  32 bytes.
\<close>

lemma example_layout:
  "align_of example_registry (Array (Struct ''Pair'') 3 False) = 16 \<and>
   size_of example_registry (Array (Struct ''Pair'') 3 False) = 96 \<and>
   size_of example_registry (Tuple [I8, I32, I16]) = 12"
  by code_simp

text \<open>
  Once a struct called \<open>Option\<close> is registered with a larger alignment,
  \<open>size_of\<close> still answers 16 while \<open>align_of\<close> reads the registry.
\<close>

theorem option_size_below_align:
  "let reg = [(\<lparr>tk_path = [], tk_name = ''Option'', tk_spec = None\<rparr>,
       \<lparr>si_name = ''Option'', si_fields = Map.empty, si_field_order = [I64],
        si_field_alignments = [Some 64], si_template_name = None,
        si_specialization_args = []\<rparr>)]
   in size_of reg (Struct ''Option'') = 16 \<and> align_of reg (Struct ''Option'') = 64"
  by code_simp

end
