(* ===== verification/Snapshots.thy ===== *)
theory Snapshots
  imports Prelude
begin

text \<open>
  The contract of the compiler's scoped stores: \<open>ScopeStack\<close> (names of the HIR lowering),
  \<open>PointerStateTracker\<close> (states of pointer variables) and \<open>GlobalLVN\<close> (cached
  global loads) are all entered before a block or a branch, edited inside, and left afterwards. The
  contract is the locale below; each component interprets it on its own operations and inherits that a
  well-bracketed block leaves no trace.
\<close>

section \<open>Bracketed sequences of operations\<close>

datatype 'e scope_op = Enter | Leave | Edit 'e

inductive balanced :: "'e scope_op list \<Rightarrow> bool" where
  balanced_Nil: "balanced []"
| balanced_Edit: "balanced ops \<Longrightarrow> balanced (Edit e # ops)"
| balanced_Block: "balanced body \<Longrightarrow> balanced ops \<Longrightarrow> balanced (Enter # body @ Leave # ops)"

lemma balanced_append: "balanced xs \<Longrightarrow> balanced ys \<Longrightarrow> balanced (xs @ ys)"
  by (induction rule: balanced.induct) (auto intro: balanced.intros)

lemma balanced_edits: "balanced (map Edit es)"
  by (induction es) (auto intro: balanced.intros)

section \<open>The contract\<close>

locale snapshots =
  fixes enter :: "'s \<Rightarrow> 's"
    and leave :: "'s \<Rightarrow> 's option"
    and edit :: "'e \<Rightarrow> 's \<Rightarrow> 's"
    and nesting :: "'s \<Rightarrow> nat"
    and ok :: "'s \<Rightarrow> bool"
  assumes ok_enter: "ok s \<Longrightarrow> ok (enter s)"
    and ok_edit: "ok s \<Longrightarrow> ok (edit e s)"
    and nesting_enter: "ok s \<Longrightarrow> nesting (enter s) = Suc (nesting s)"
    and nesting_edit: "ok s \<Longrightarrow> nesting (edit e s) = nesting s"
    and leave_enter: "ok s \<Longrightarrow> leave (enter s) = Some s"
    and leave_edit: "ok s \<Longrightarrow> 0 < nesting s \<Longrightarrow> leave (edit e s) = leave s"
begin

fun run :: "'e scope_op list \<Rightarrow> 's \<Rightarrow> 's option" where
  "run [] s = Some s"
| "run (Enter # ops) s = run ops (enter s)"
| "run (Leave # ops) s = (case leave s of None \<Rightarrow> None | Some s' \<Rightarrow> run ops s')"
| "run (Edit e # ops) s = run ops (edit e s)"

lemma run_append: "run (xs @ ys) s = Option.bind (run xs s) (run ys)"
  by (induction xs s rule: run.induct) (auto split: option.splits)

text \<open>A balanced block never fails and leaves the enclosing scopes as they were.\<close>

lemma run_balanced:
  "balanced ops \<Longrightarrow> ok s \<Longrightarrow> 0 < nesting s \<Longrightarrow>
    \<exists>s'. run ops s = Some s' \<and> ok s' \<and> nesting s' = nesting s \<and> leave s' = leave s"
proof (induction arbitrary: s rule: balanced.induct)
  case (balanced_Edit ops e)
  then show ?case
    using balanced_Edit.IH [of "edit e s"] by (simp add: ok_edit nesting_edit leave_edit)
next
  case (balanced_Block body ops)
  obtain s1 where "run body (enter s) = Some s1" "leave s1 = leave (enter s)"
    using balanced_Block.IH(1) [of "enter s"] balanced_Block.prems
    by (auto simp: ok_enter nesting_enter)
  with balanced_Block show ?case by (simp add: run_append leave_enter)
qed simp

lemma block_restores:
  assumes "balanced body" "ok s"
  shows "run (Enter # body @ [Leave]) s = Some s"
  using run_balanced [OF assms(1), of "enter s"] assms(2)
  by (auto simp: run_append ok_enter nesting_enter leave_enter)

text \<open>The same for a plain sequence of edits, which is what the branches of an \<open>if\<close> do.\<close>

lemma edits_restore: "ok s \<Longrightarrow> leave (fold edit es (enter s)) = Some s"
proof -
  assume s: "ok s"
  have r: "run (map Edit es) t = Some (fold edit es t)" for t
    by (induction es arbitrary: t) auto
  show ?thesis
    using block_restores [OF balanced_edits s, of es]
    by (auto simp: run_append r split: option.splits)
qed

end

end
