(* ===== verification/Scope.thy ===== *)
theory Scope
  imports Hir Snapshots
begin

text \<open>
  The lexical scope stack of the HIR lowering (\<open>salt-front/src/hir/scope.rs\<close>): a vector of
  maps from names to variables, the innermost scope last. \<open>pop_scope\<close> panics on the root scope,
  which is the result \<^term>\<open>None\<close>.
\<close>

section \<open>State and operations\<close>

type_synonym scope = "string \<rightharpoonup> var_id"
type_synonym scope_stack = "scope list"

definition scope_new :: scope_stack where
  "scope_new = [Map.empty]"

definition push_scope :: "scope_stack \<Rightarrow> scope_stack" where
  "push_scope ss = ss @ [Map.empty]"

definition pop_scope :: "scope_stack \<Rightarrow> scope_stack option" where
  "pop_scope ss = (if 1 < length ss then Some (butlast ss) else None)"

definition scope_insert :: "string \<Rightarrow> var_id \<Rightarrow> scope_stack \<Rightarrow> scope_stack" where
  "scope_insert name v ss = (if ss = [] then ss else butlast ss @ [(last ss)(name \<mapsto> v)])"

fun resolve_in :: "scope list \<Rightarrow> string \<Rightarrow> var_id option" where
  "resolve_in [] name = None"
| "resolve_in (sc # scs) name = (case sc name of Some v \<Rightarrow> Some v | None \<Rightarrow> resolve_in scs name)"

definition resolve :: "scope_stack \<Rightarrow> string \<Rightarrow> var_id option" where
  "resolve ss name = resolve_in (rev ss) name"

definition depth :: "scope_stack \<Rightarrow> nat" where
  "depth ss = length ss"

section \<open>The stack keeps the contract of a scoped store\<close>

abbreviation rooted :: "scope_stack \<Rightarrow> bool" where
  "rooted ss \<equiv> ss \<noteq> []"

interpretation scopes: snapshots push_scope pop_scope "\<lambda>(name, v). scope_insert name v"
    "\<lambda>ss. depth ss - 1" rooted
  by unfold_locales
    (auto simp: push_scope_def pop_scope_def scope_insert_def depth_def)

lemma resolve_insert:
  "rooted ss \<Longrightarrow> resolve (scope_insert n v ss) m = (if m = n then Some v else resolve ss m)"
  by (cases ss rule: rev_cases) (auto simp: resolve_def scope_insert_def)

lemma resolve_push [simp]: "resolve (push_scope ss) m = resolve ss m"
  by (simp add: resolve_def push_scope_def)

text \<open>
  Lexical scoping. A declaration is what its own name resolves to afterwards and
  leaves every other name alone; entering a block hides nothing; and after any well-nested
  sequence of blocks and declarations inside a block, leaving it succeeds and gives back exactly
  the stack before the block, so outer variables reappear.
\<close>

theorem lexical_scoping:
  assumes "rooted ss" "balanced body"
  shows "resolve (scope_insert n v ss) m = (if m = n then Some v else resolve ss m) \<and>
    resolve (push_scope ss) m = resolve ss m \<and>
    scopes.run (Enter # body @ [Leave]) ss = Some ss"
  using assms by (simp add: resolve_insert scopes.block_restores del: scopes.run.simps)

theorem lexical_scoping_witness:
  "scopes.run [Enter, Edit (''x'', 1), Enter, Edit (''x'', 2), Leave, Leave]
     (scope_insert ''x'' 0 scope_new) = Some (scope_insert ''x'' 0 scope_new)"
proof -
  have "balanced [Edit (''x'', 1 :: var_id), Enter, Edit (''x'', 2), Leave]"
    using balanced_Block [OF balanced_edits [of "[(''x'', 2)]"] balanced_Nil]
    by (auto intro: balanced.intros)
  moreover have "rooted (scope_insert ''x'' 0 scope_new)"
    by (simp add: scope_insert_def scope_new_def)
  ultimately show ?thesis
    using lexical_scoping [of "scope_insert ''x'' 0 scope_new"] by fastforce
qed

text \<open>The shadowing of a nested block, and the panic on the root scope.\<close>

lemma shadowing_example:
  "resolve (scope_insert ''x'' 1 (push_scope (scope_insert ''x'' 0 scope_new))) ''x'' = Some 1 \<and>
   pop_scope scope_new = None"
  by (simp add: resolve_insert scope_new_def pop_scope_def push_scope_def)

end
