(* ===== verification/Typeck_Ctx.thy ===== *)
theory Typeck_Ctx
  imports Hir
begin

text \<open>
  The context of the HIR type checker (\<open>salt-front/src/hir/typeck.rs\<close>): its errors, the
  registration of the items of a module with the trait compliance check (\<open>with_items\<close>), and
  the monomorphization of generic structs. Messages are the constructors of \<open>type_error\<close>, with
  the data they print. The maps the code only looks up are functions to \<open>option\<close>; the method
  tables, which it iterates over, are association lists in their iteration order.
\<close>

section \<open>The context\<close>

record fn_sig =
  sig_params :: "ty list"
  sig_return :: ty

record struct_def =
  sd_name :: string
  sd_fields :: "(string \<times> ty) list"
  sd_methods :: "(string \<times> fn_sig) list"
  sd_type_params :: "string list"

record trait_def =
  td_name :: string
  td_required :: "(string \<times> fn_sig) list"

datatype type_error =
    InvalidTraitRef ty
  | NonStructImpl ty
  | UnknownTrait string
  | MissingMethod string string string
  | SignatureMismatch string string string fn_sig fn_sig
  | UnknownStruct string
  | GenericArity string nat nat
  | UnknownVar var_id
  | BinaryMismatch bin_op ty ty
  | NotOnNonBool ty
  | DerefNonPointer ty
  | MethodOnNonStruct string ty
  | StructNotInRegistry string
  | NoMethod string string
  | NoSelfParam string string
  | SelfMismatch string ty ty
  | MethodArity string nat nat
  | MethodArgMismatch string nat ty ty
  | PathCallUnsupported
  | CallNonFunction expr_kind
  | UnknownFunction string
  | CallArity string nat nat
  | CallArgMismatch string nat ty ty
  | AssignMismatch ty ty
  | IfConditionNotBool ty
  | IfBranchMismatch ty ty
  | StructFieldCount string nat nat
  | NoField string string
  | FieldMismatch string string ty ty
  | FieldOnNonStruct string ty
  | ContractNotBool ty
  | UnresolvedIdentError string
  | NotImplemented expr_kind
  | LetMismatch ty ty
  | WhileConditionNotBool ty
  | AssumeNotBool ty

record typeck_ctx =
  local_env :: "var_id \<rightharpoonup> ty"
  fn_table :: "string \<rightharpoonup> fn_sig"
  structs :: "string \<rightharpoonup> struct_def"
  traits :: "string \<rightharpoonup> trait_def"
  errors :: "type_error list"

definition typeck_new :: typeck_ctx where
  "typeck_new = \<lparr>local_env = Map.empty, fn_table = Map.empty, structs = Map.empty,
     traits = Map.empty, errors = []\<rparr>"

section \<open>Registering definitions\<close>

definition register_fn :: "typeck_ctx \<Rightarrow> string \<Rightarrow> ty list \<Rightarrow> ty \<Rightarrow> typeck_ctx" where
  "register_fn \<Gamma> name params ret =
     \<Gamma>\<lparr>fn_table := (fn_table \<Gamma>)(name \<mapsto> \<lparr>sig_params = params, sig_return = ret\<rparr>)\<rparr>"

definition register_generic_struct ::
  "typeck_ctx \<Rightarrow> string \<Rightarrow> string list \<Rightarrow> (string \<times> ty) list \<Rightarrow> typeck_ctx" where
  "register_generic_struct \<Gamma> name type_params fs =
     \<Gamma>\<lparr>structs := (structs \<Gamma>)(name \<mapsto>
        \<lparr>sd_name = name, sd_fields = fs, sd_methods = [], sd_type_params = type_params\<rparr>)\<rparr>"

definition register_struct :: "typeck_ctx \<Rightarrow> string \<Rightarrow> (string \<times> ty) list \<Rightarrow> typeck_ctx" where
  "register_struct \<Gamma> name fs =
     \<Gamma>\<lparr>structs := (structs \<Gamma>)(name \<mapsto>
        \<lparr>sd_name = name, sd_fields = fs, sd_methods = [], sd_type_params = []\<rparr>)\<rparr>"

definition register_method ::
  "typeck_ctx \<Rightarrow> string \<Rightarrow> string \<Rightarrow> ty list \<Rightarrow> ty \<Rightarrow> typeck_ctx" where
  "register_method \<Gamma> struct_name method_name params ret =
     (case structs \<Gamma> struct_name of
        None \<Rightarrow> \<Gamma>
      | Some def \<Rightarrow>
          \<Gamma>\<lparr>structs := (structs \<Gamma>)(struct_name \<mapsto>
             def\<lparr>sd_methods := AList.update method_name
               \<lparr>sig_params = params, sig_return = ret\<rparr> (sd_methods def)\<rparr>)\<rparr>)"

subsection \<open>\<open>with_items\<close>: the two passes over the items of a module\<close>

definition fn_sig_of :: "fn_item \<Rightarrow> fn_sig" where
  "fn_sig_of f = \<lparr>sig_params = map param_ty (fn_inputs f), sig_return = fn_output f\<rparr>"

fun generic_type_names :: "generic_param list \<Rightarrow> string list" where
  "generic_type_names [] = []"
| "generic_type_names (GenericType name # ps) = name # generic_type_names ps"
| "generic_type_names (GenericConst _ _ # ps) = generic_type_names ps"

fun required_of :: "trait_member list \<Rightarrow> (string \<times> fn_sig) list \<Rightarrow> (string \<times> fn_sig) list" where
  "required_of [] acc = acc"
| "required_of (TraitFn name f # ms) acc = required_of ms (AList.update name (fn_sig_of f) acc)"

definition register_item :: "item \<Rightarrow> typeck_ctx \<Rightarrow> typeck_ctx" where
  "register_item it \<Gamma> =
     (case item_kind_of it of
        ItemFn f \<Rightarrow> \<Gamma>\<lparr>fn_table := (fn_table \<Gamma>)(item_name it \<mapsto> fn_sig_of f)\<rparr>
      | ItemStruct s \<Rightarrow>
          \<Gamma>\<lparr>structs := (structs \<Gamma>)(item_name it \<mapsto>
             \<lparr>sd_name = item_name it,
              sd_fields = map (\<lambda>f. (field_name f, field_ty f)) (st_fields s),
              sd_methods = [], sd_type_params = generic_type_names (st_generics s)\<rparr>)\<rparr>
      | ItemTrait t \<Rightarrow>
          \<Gamma>\<lparr>traits := (traits \<Gamma>)(item_name it \<mapsto>
             \<lparr>td_name = item_name it, td_required = required_of (tr_items t) []\<rparr>)\<rparr>
      | _ \<Rightarrow> \<Gamma>)"

definition extract_struct_name :: "ty \<Rightarrow> (type_error, string) result" where
  "extract_struct_name t = (case t of Struct name \<Rightarrow> Inr name | _ \<Rightarrow> Inl (NonStructImpl t))"

fun provided_of :: "impl_member list \<Rightarrow> (string \<times> fn_sig) list \<Rightarrow> (string \<times> fn_sig) list" where
  "provided_of [] acc = acc"
| "provided_of (ImplFn name f # ms) acc = provided_of ms (AList.update name (fn_sig_of f) acc)"

definition sig_matches :: "fn_sig \<Rightarrow> fn_sig \<Rightarrow> bool" where
  "sig_matches req prov =
     (length (sig_params req) = length (sig_params prov) \<and>
      (\<forall>(r, p) \<in> set (zip (sig_params req) (sig_params prov)).
         r = p \<or> r = SelfType \<and> p = SelfType) \<and>
      sig_return req = sig_return prov)"

text \<open>The errors of one trait impl, in the order of the required methods.\<close>

definition compliance_error ::
  "string \<Rightarrow> string \<Rightarrow> (string \<times> fn_sig) list \<Rightarrow> string \<times> fn_sig \<Rightarrow> type_error list" where
  "compliance_error trait_name struct_name provided required =
     (case required of (req_name, req_sig) \<Rightarrow>
       (case map_of provided req_name of
          None \<Rightarrow> [MissingMethod req_name trait_name struct_name]
        | Some prov_sig \<Rightarrow>
            if sig_matches req_sig prov_sig then []
            else [SignatureMismatch req_name trait_name struct_name req_sig prov_sig]))"

definition compliance_errors ::
  "string \<Rightarrow> string \<Rightarrow> (string \<times> fn_sig) list \<Rightarrow> (string \<times> fn_sig) list \<Rightarrow> type_error list" where
  "compliance_errors trait_name struct_name provided required =
     concat (map (compliance_error trait_name struct_name provided) required)"

definition inject_methods ::
  "string \<Rightarrow> (string \<times> fn_sig) list \<Rightarrow> typeck_ctx \<Rightarrow> typeck_ctx" where
  "inject_methods struct_name methods \<Gamma> =
     (case structs \<Gamma> struct_name of
        None \<Rightarrow> \<Gamma>
      | Some def \<Rightarrow>
          \<Gamma>\<lparr>structs := (structs \<Gamma>)(struct_name \<mapsto>
             def\<lparr>sd_methods :=
               fold (\<lambda>(m, s) ms. AList.update m s ms) methods (sd_methods def)\<rparr>)\<rparr>)"

definition push_errors :: "type_error list \<Rightarrow> typeck_ctx \<Rightarrow> typeck_ctx" where
  "push_errors es \<Gamma> = \<Gamma>\<lparr>errors := errors \<Gamma> @ es\<rparr>"

definition register_trait_impl :: "impl_item \<Rightarrow> ty \<Rightarrow> typeck_ctx \<Rightarrow> typeck_ctx" where
  "register_trait_impl imp trait_ref \<Gamma> =
     (case trait_ref of
        Struct trait_name \<Rightarrow>
          (case extract_struct_name (im_self_ty imp) of
             Inl e \<Rightarrow> push_errors [e] \<Gamma>
           | Inr struct_name \<Rightarrow>
               (case traits \<Gamma> trait_name of
                  None \<Rightarrow> push_errors [UnknownTrait trait_name] \<Gamma>
                | Some td \<Rightarrow>
                    let provided = provided_of (im_items imp) [];
                        es = compliance_errors trait_name struct_name provided (td_required td)
                    in if es = [] then inject_methods struct_name provided \<Gamma>
                       else push_errors es \<Gamma>))
      | _ \<Rightarrow> push_errors [InvalidTraitRef trait_ref] \<Gamma>)"

definition register_impl :: "item \<Rightarrow> typeck_ctx \<Rightarrow> typeck_ctx" where
  "register_impl it \<Gamma> =
     (case item_kind_of it of
        ItemImpl imp \<Rightarrow>
          (case im_trait_ref imp of
             Some trait_ref \<Rightarrow> register_trait_impl imp trait_ref \<Gamma>
           | None \<Rightarrow>
               (case extract_struct_name (im_self_ty imp) of
                  Inl _ \<Rightarrow> \<Gamma>
                | Inr struct_name \<Rightarrow>
                    inject_methods struct_name
                      (map (\<lambda>m. case m of ImplFn name f \<Rightarrow> (name, fn_sig_of f)) (im_items imp)) \<Gamma>))
      | _ \<Rightarrow> \<Gamma>)"

definition with_items :: "item list \<Rightarrow> typeck_ctx" where
  "with_items items = fold register_impl items (fold register_item items typeck_new)"

section \<open>Monomorphization\<close>

definition mangle_name :: "string \<Rightarrow> ty list \<Rightarrow> string" where
  "mangle_name base type_args = base @ concat (map (\<lambda>a. ''_'' @ debug_ty a) type_args)"

text \<open>Zipping into a \<open>BTreeMap\<close>: a repeated parameter keeps its last argument.\<close>

definition type_mapping :: "string list \<Rightarrow> ty list \<Rightarrow> string \<rightharpoonup> ty" where
  "type_mapping params args = map_of (rev (zip params args))"

definition mono_sig :: "(string \<rightharpoonup> ty) \<Rightarrow> fn_sig \<Rightarrow> fn_sig" where
  "mono_sig m s = \<lparr>sig_params = map (substitute m) (sig_params s),
     sig_return = substitute m (sig_return s)\<rparr>"

definition instantiate_struct :: "string \<Rightarrow> struct_def \<Rightarrow> ty list \<Rightarrow> struct_def" where
  "instantiate_struct mangled template type_args =
     (let m = type_mapping (sd_type_params template) type_args in
      \<lparr>sd_name = mangled,
       sd_fields = map (\<lambda>(f, t). (f, substitute m t)) (sd_fields template),
       sd_methods = map (\<lambda>(f, s). (f, mono_sig m s)) (sd_methods template),
       sd_type_params = []\<rparr>)"

definition monomorphize_struct ::
  "typeck_ctx \<Rightarrow> string \<Rightarrow> ty list \<Rightarrow> typeck_ctx \<times> (type_error, string) result" where
  "monomorphize_struct \<Gamma> base type_args =
     (let mangled = mangle_name base type_args in
      if structs \<Gamma> mangled \<noteq> None then (\<Gamma>, Inr mangled)
      else case structs \<Gamma> base of
        None \<Rightarrow> (\<Gamma>, Inl (UnknownStruct base))
      | Some template \<Rightarrow>
          if length type_args \<noteq> length (sd_type_params template)
          then (\<Gamma>, Inl (GenericArity base (length (sd_type_params template)) (length type_args)))
          else (\<Gamma>\<lparr>structs := (structs \<Gamma>)(mangled \<mapsto>
                  instantiate_struct mangled template type_args)\<rparr>, Inr mangled))"

end
