(* ===== verification/Typeck.thy ===== *)
theory Typeck
  imports Typeck_Ctx
begin

text \<open>
  The expression, statement and block checker of \<open>salt-front/src/hir/typeck.rs\<close>. The context
  and the tree are threaded explicitly: a checker returns the context, the tree as far as it
  was annotated, and the \<open>Result\<close>, on the error paths too, because a failing check leaves its
  side effects (new variables, monomorphized structs, annotated subtrees) behind.
\<close>

section \<open>The local rules\<close>

definition literal_ty :: "literal \<Rightarrow> ty" where
  "literal_ty lit =
     (case lit of LitInt _ \<Rightarrow> I64 | LitFloat _ \<Rightarrow> F64 | LitBool _ \<Rightarrow> Bool
      | LitString _ \<Rightarrow> Struct ''String'')"

definition check_binary :: "bin_op \<Rightarrow> ty \<Rightarrow> ty \<Rightarrow> (type_error, ty) result" where
  "check_binary op lhs_ty rhs_ty =
     (if lhs_ty \<noteq> rhs_ty then Inl (BinaryMismatch op lhs_ty rhs_ty)
      else if is_relational op then Inr Bool else Inr lhs_ty)"

definition check_unary :: "un_op \<Rightarrow> ty \<Rightarrow> (type_error, ty) result" where
  "check_unary op inner_ty =
     (case op of
        UnNot \<Rightarrow> if inner_ty \<noteq> Bool then Inl (NotOnNonBool inner_ty) else Inr Bool
      | UnNeg \<Rightarrow> Inr inner_ty
      | UnDeref \<Rightarrow>
          (case inner_ty of
             Reference inner _ \<Rightarrow> Inr inner
           | Pointer element _ _ \<Rightarrow> Inr element
           | other \<Rightarrow> Inl (DerefNonPointer other)))"

text \<open>Steps 2 to 5 of a method call: the signature, once receiver and arity are checked.\<close>

definition resolve_method ::
  "typeck_ctx \<Rightarrow> ty \<Rightarrow> string \<Rightarrow> nat \<Rightarrow> (type_error, fn_sig) result" where
  "resolve_method \<Gamma> receiver_ty m n_args =
     (case receiver_ty of
        Struct struct_name \<Rightarrow>
          (case structs \<Gamma> struct_name of
             None \<Rightarrow> Inl (StructNotInRegistry struct_name)
           | Some def \<Rightarrow>
               (case map_of (sd_methods def) m of
                  None \<Rightarrow> Inl (NoMethod struct_name m)
                | Some sig \<Rightarrow>
                    (case sig_params sig of
                       [] \<Rightarrow> Inl (NoSelfParam m struct_name)
                     | self_ty # explicit \<Rightarrow>
                         if receiver_ty \<noteq> self_ty \<and> self_ty \<noteq> SelfType
                         then Inl (SelfMismatch m self_ty receiver_ty)
                         else if n_args \<noteq> length explicit
                         then Inl (MethodArity m (length explicit) n_args)
                         else Inr sig)))
      | _ \<Rightarrow> Inl (MethodOnNonStruct m receiver_ty))"

text \<open>Steps 1 to 3 of a function call.\<close>

definition resolve_call ::
  "typeck_ctx \<Rightarrow> expr \<Rightarrow> nat \<Rightarrow> (type_error, string \<times> fn_sig) result" where
  "resolve_call \<Gamma> callee n_args =
     (case ekind callee of
        EUnresolvedIdent fn_name \<Rightarrow>
          (case fn_table \<Gamma> fn_name of
             None \<Rightarrow> Inl (UnknownFunction fn_name)
           | Some sig \<Rightarrow>
               if n_args \<noteq> length (sig_params sig)
               then Inl (CallArity fn_name (length (sig_params sig)) n_args)
               else Inr (fn_name, sig))
      | EPath _ \<Rightarrow> Inl PathCallUnsupported
      | other \<Rightarrow> Inl (CallNonFunction other))"

text \<open>Steps 1 to 3 of a struct literal: the effective name and its fields.\<close>

definition resolve_struct_lit ::
  "typeck_ctx \<Rightarrow> string \<Rightarrow> ty list \<Rightarrow> nat \<Rightarrow>
     typeck_ctx \<times> (type_error, string \<times> (string \<rightharpoonup> ty)) result" where
  "resolve_struct_lit \<Gamma> name type_args n_fields =
     (case (if type_args \<noteq> [] then monomorphize_struct \<Gamma> name type_args else (\<Gamma>, Inr name)) of
        (\<Gamma>1, Inl e) \<Rightarrow> (\<Gamma>1, Inl e)
      | (\<Gamma>1, Inr effective) \<Rightarrow>
          (case structs \<Gamma>1 effective of
             None \<Rightarrow> (\<Gamma>1, Inl (UnknownStruct effective))
           | Some def \<Rightarrow>
               if n_fields \<noteq> length (sd_fields def)
               then (\<Gamma>1, Inl (StructFieldCount effective (length (sd_fields def)) n_fields))
               else (\<Gamma>1, Inr (effective, map_of (rev (sd_fields def))))))"

definition field_access :: "typeck_ctx \<Rightarrow> ty \<Rightarrow> string \<Rightarrow> (type_error, ty) result" where
  "field_access \<Gamma> base_ty f =
     (case base_ty of
        Struct struct_name \<Rightarrow>
          (case structs \<Gamma> struct_name of
             None \<Rightarrow> Inl (StructNotInRegistry struct_name)
           | Some def \<Rightarrow>
               (case map_of (sd_fields def) f of
                  None \<Rightarrow> Inl (NoField struct_name f)
                | Some t \<Rightarrow> Inr t))
      | _ \<Rightarrow> Inl (FieldOnNonStruct f base_ty))"

text \<open>The binding of a \<open>let\<close>: an annotation must equal the type of the initialiser.\<close>

definition let_type :: "ty option \<Rightarrow> ty option \<Rightarrow> (type_error, ty) result" where
  "let_type ann init_ty =
     (case (ann, init_ty) of
        (Some a, Some i) \<Rightarrow> if a \<noteq> i then Inl (LetMismatch a i) else Inr a
      | (Some a, None) \<Rightarrow> Inr a
      | (None, Some i) \<Rightarrow> Inr i
      | (None, None) \<Rightarrow> Inr Unit)"

definition bind_pattern :: "pattern \<Rightarrow> ty \<Rightarrow> typeck_ctx \<Rightarrow> typeck_ctx" where
  "bind_pattern p t \<Gamma> =
     (case p of PBind _ v _ \<Rightarrow> \<Gamma>\<lparr>local_env := (local_env \<Gamma>)(v \<mapsto> t)\<rparr> | _ \<Rightarrow> \<Gamma>)"

section \<open>The checker\<close>

text \<open>
  Rust's \<open>?\<close> on a check of a subtree: an error is returned at once, with the partly annotated
  tree \<open>wrap a\<close> around the subtree, otherwise the check goes on in the new context.
\<close>

definition try_check ::
  "typeck_ctx \<times> 'a \<times> ('e, 'b) result \<Rightarrow> ('a \<Rightarrow> 'c) \<Rightarrow>
   (typeck_ctx \<Rightarrow> 'a \<Rightarrow> 'b \<Rightarrow> typeck_ctx \<times> 'c \<times> ('e, 'd) result) \<Rightarrow>
   typeck_ctx \<times> 'c \<times> ('e, 'd) result" where
  "try_check res wrap go =
     (case res of
        (\<Gamma>, a, Inl e) \<Rightarrow> (\<Gamma>, wrap a, Inl e)
      | (\<Gamma>, a, Inr t) \<Rightarrow> go \<Gamma> a t)"

definition with_tree :: "'a \<Rightarrow> typeck_ctx \<times> 'r \<Rightarrow> typeck_ctx \<times> 'a \<times> 'r" where
  "with_tree a res = (fst res, a, snd res)"

definition reject_if :: "bool \<Rightarrow> 'e \<Rightarrow> 'b \<Rightarrow> ('e, 'b) result" where
  "reject_if bad e t = (if bad then Inl e else Inr t)"

lemma try_check_cong [fundef_cong]:
  assumes "res = res'" "\<And>a. wrap a = wrap' a"
    "\<And>\<Gamma> a t. res' = (\<Gamma>, a, Inr t) \<Longrightarrow> go \<Gamma> a t = go' \<Gamma> a t"
  shows "try_check res wrap go = try_check res' wrap' go'"
  using assms by (auto simp: try_check_def split: prod.split sum.split)

text \<open>
  \<open>typeck_args\<close> is the loop over the arguments of a call, whose expected types have the same
  number by the arity check before it; \<open>mk\<close> builds the error of the call at hand.
\<close>

fun typeck_expr ::
  "typeck_ctx \<Rightarrow> expr \<Rightarrow> typeck_ctx \<times> expr \<times> (type_error, ty) result"
and typeck_kind ::
  "typeck_ctx \<Rightarrow> expr_kind \<Rightarrow> typeck_ctx \<times> expr_kind \<times> (type_error, ty) result"
and typeck_args ::
  "(nat \<Rightarrow> ty \<Rightarrow> ty \<Rightarrow> type_error) \<Rightarrow> nat \<Rightarrow> typeck_ctx \<Rightarrow> expr list \<Rightarrow> ty list \<Rightarrow>
     typeck_ctx \<times> expr list \<times> (type_error, unit) result"
and typeck_fields ::
  "string \<Rightarrow> (string \<rightharpoonup> ty) \<Rightarrow> typeck_ctx \<Rightarrow> (string \<times> expr) list \<Rightarrow>
     typeck_ctx \<times> (string \<times> expr) list \<times> (type_error, unit) result"
and typeck_stmt ::
  "typeck_ctx \<Rightarrow> stmt \<Rightarrow> typeck_ctx \<times> stmt \<times> (type_error, unit) result"
and typeck_stmts ::
  "typeck_ctx \<Rightarrow> stmt list \<Rightarrow> typeck_ctx \<times> stmt list \<times> (type_error, unit) result"
and typeck_block ::
  "typeck_ctx \<Rightarrow> block \<Rightarrow> typeck_ctx \<times> block \<times> (type_error, ty) result" where
  "typeck_expr \<Gamma> (Expr k t) =
     try_check (typeck_kind \<Gamma> k) (\<lambda>k'. Expr k' t)
       (\<lambda>\<Gamma>1 k' resolved. (\<Gamma>1, Expr k' resolved, Inr resolved))"
| "typeck_kind \<Gamma> (ELiteral lit) = (\<Gamma>, ELiteral lit, Inr (literal_ty lit))"
| "typeck_kind \<Gamma> (EVar v) =
     (\<Gamma>, EVar v, case local_env \<Gamma> v of None \<Rightarrow> Inl (UnknownVar v) | Some t \<Rightarrow> Inr t)"
| "typeck_kind \<Gamma> (EBinary op a b) =
     try_check (typeck_expr \<Gamma> a) (\<lambda>a'. EBinary op a' b) (\<lambda>\<Gamma>1 a' ta.
     try_check (typeck_expr \<Gamma>1 b) (\<lambda>b'. EBinary op a' b') (\<lambda>\<Gamma>2 b' tb.
       (\<Gamma>2, EBinary op a' b', check_binary op ta tb)))"
| "typeck_kind \<Gamma> (EUnary op a) =
     try_check (typeck_expr \<Gamma> a) (EUnary op) (\<lambda>\<Gamma>1 a' ta.
       (\<Gamma>1, EUnary op a', check_unary op ta))"
| "typeck_kind \<Gamma> (ERef a) =
     try_check (typeck_expr \<Gamma> a) ERef (\<lambda>\<Gamma>1 a' ta. (\<Gamma>1, ERef a', Inr (Reference ta False)))"
| "typeck_kind \<Gamma> (EMethodCall r m args) =
     try_check (typeck_expr \<Gamma> r) (\<lambda>r'. EMethodCall r' m args) (\<lambda>\<Gamma>1 r' tr.
     try_check (\<Gamma>1, args, resolve_method \<Gamma>1 tr m (length args)) (EMethodCall r' m)
       (\<lambda>\<Gamma>1 _ sig.
     try_check (typeck_args (MethodArgMismatch m) 0 \<Gamma>1 args (tl (sig_params sig)))
       (EMethodCall r' m) (\<lambda>\<Gamma>2 args' _.
       (\<Gamma>2, EMethodCall r' m args', Inr (sig_return sig)))))"
| "typeck_kind \<Gamma> (ECall callee args) =
     try_check (\<Gamma>, args, resolve_call \<Gamma> callee (length args)) (ECall callee) (\<lambda>\<Gamma> _ call.
     try_check (typeck_args (CallArgMismatch (fst call)) 0 \<Gamma> args (sig_params (snd call)))
       (ECall callee) (\<lambda>\<Gamma>1 args' _.
       (\<Gamma>1, ECall callee args', Inr (sig_return (snd call)))))"
| "typeck_kind \<Gamma> (EAssign a b) =
     try_check (typeck_expr \<Gamma> a) (\<lambda>a'. EAssign a' b) (\<lambda>\<Gamma>1 a' ta.
     try_check (typeck_expr \<Gamma>1 b) (\<lambda>b'. EAssign a' b') (\<lambda>\<Gamma>2 b' tb.
       (\<Gamma>2, EAssign a' b', reject_if (ta \<noteq> tb) (AssignMismatch ta tb) Unit)))"
| "typeck_kind \<Gamma> (EReturn (Some a)) =
     try_check (typeck_expr \<Gamma> a) (\<lambda>a'. EReturn (Some a')) (\<lambda>\<Gamma>1 a' _.
       (\<Gamma>1, EReturn (Some a'), Inr Never))"
| "typeck_kind \<Gamma> (EReturn None) = (\<Gamma>, EReturn None, Inr Never)"
| "typeck_kind \<Gamma> (EBlock b) =
     try_check (typeck_block \<Gamma> b) EBlock (\<lambda>\<Gamma>1 b' tb. (\<Gamma>1, EBlock b', Inr tb))"
| "typeck_kind \<Gamma> (EIf c b els) =
     try_check (typeck_expr \<Gamma> c) (\<lambda>c'. EIf c' b els) (\<lambda>\<Gamma>1 c' tc.
       if tc \<noteq> Bool then (\<Gamma>1, EIf c' b els, Inl (IfConditionNotBool tc))
       else
     try_check (typeck_block \<Gamma>1 b) (\<lambda>b'. EIf c' b' els) (\<lambda>\<Gamma>2 b' then_ty.
       case els of
         None \<Rightarrow> (\<Gamma>2, EIf c' b' None, Inr Unit)
       | Some el \<Rightarrow>
     try_check (typeck_expr \<Gamma>2 el) (\<lambda>el'. EIf c' b' (Some el')) (\<lambda>\<Gamma>3 el' else_ty.
       (\<Gamma>3, EIf c' b' (Some el'),
        reject_if (then_ty \<noteq> else_ty) (IfBranchMismatch then_ty else_ty) then_ty))))"
| "typeck_kind \<Gamma> (EStructLit name type_args fs) =
     try_check (with_tree fs (resolve_struct_lit \<Gamma> name type_args (length fs)))
       (EStructLit name type_args) (\<lambda>\<Gamma>1 _ lit.
     try_check (typeck_fields (fst lit) (snd lit) \<Gamma>1 fs)
       (EStructLit name type_args) (\<lambda>\<Gamma>2 fs' _.
       (\<Gamma>2, EStructLit name type_args fs', Inr (Struct (fst lit)))))"
| "typeck_kind \<Gamma> (EField a f) =
     try_check (typeck_expr \<Gamma> a) (\<lambda>a'. EField a' f) (\<lambda>\<Gamma>1 a' ta.
       (\<Gamma>1, EField a' f, field_access \<Gamma>1 ta f))"
| "typeck_kind \<Gamma> (ERequires c) =
     try_check (typeck_expr \<Gamma> c) ERequires (\<lambda>\<Gamma>1 c' tc.
       (\<Gamma>1, ERequires c', reject_if (tc \<noteq> Bool) (ContractNotBool tc) Unit))"
| "typeck_kind \<Gamma> (EEnsures c) =
     try_check (typeck_expr \<Gamma> c) EEnsures (\<lambda>\<Gamma>1 c' tc.
       (\<Gamma>1, EEnsures c', reject_if (tc \<noteq> Bool) (ContractNotBool tc) Unit))"
| "typeck_kind \<Gamma> (EYield (Some a)) =
     try_check (typeck_expr \<Gamma> a) (\<lambda>a'. EYield (Some a')) (\<lambda>\<Gamma>1 a' _.
       (\<Gamma>1, EYield (Some a'), Inr Unit))"
| "typeck_kind \<Gamma> (EYield None) = (\<Gamma>, EYield None, Inr Unit)"
| "typeck_kind \<Gamma> (EUnresolvedIdent name) =
     (\<Gamma>, EUnresolvedIdent name, Inl (UnresolvedIdentError name))"
| "typeck_kind \<Gamma> k = (\<Gamma>, k, Inl (NotImplemented k))"
| "typeck_args mk i \<Gamma> (a # as) (p # ps) =
     try_check (typeck_expr \<Gamma> a) (\<lambda>a'. a' # as) (\<lambda>\<Gamma>1 a' ta.
       if ta \<noteq> p then (\<Gamma>1, a' # as, Inl (mk i p ta))
       else
     try_check (typeck_args mk (Suc i) \<Gamma>1 as ps) (\<lambda>as'. a' # as') (\<lambda>\<Gamma>2 as' u.
       (\<Gamma>2, a' # as', Inr u)))"
| "typeck_args mk i \<Gamma> as ps = (\<Gamma>, as, Inr ())"
| "typeck_fields struct_name field_types \<Gamma> [] = (\<Gamma>, [], Inr ())"
| "typeck_fields struct_name field_types \<Gamma> ((f, a) # fs) =
     try_check (typeck_expr \<Gamma> a) (\<lambda>a'. (f, a') # fs) (\<lambda>\<Gamma>1 a' ta.
       case field_types f of
         None \<Rightarrow> (\<Gamma>1, (f, a') # fs, Inl (NoField struct_name f))
       | Some expected \<Rightarrow>
           if ta \<noteq> expected
           then (\<Gamma>1, (f, a') # fs, Inl (FieldMismatch f struct_name expected ta))
           else
     try_check (typeck_fields struct_name field_types \<Gamma>1 fs) (\<lambda>fs'. (f, a') # fs') (\<lambda>\<Gamma>2 fs' u.
       (\<Gamma>2, (f, a') # fs', Inr u)))"
| "typeck_stmt \<Gamma> (SLocal p ann None) =
     try_check (\<Gamma>, (), let_type ann None) (\<lambda>_. SLocal p ann None) (\<lambda>\<Gamma> _ t.
       (bind_pattern p t \<Gamma>, SLocal p ann None, Inr ()))"
| "typeck_stmt \<Gamma> (SLocal p ann (Some a)) =
     try_check (typeck_expr \<Gamma> a) (\<lambda>a'. SLocal p ann (Some a')) (\<lambda>\<Gamma>1 a' ta.
     try_check (\<Gamma>1, a', let_type ann (Some ta)) (\<lambda>a'. SLocal p ann (Some a')) (\<lambda>\<Gamma>1 _ t.
       (bind_pattern p t \<Gamma>1, SLocal p ann (Some a'), Inr ())))"
| "typeck_stmt \<Gamma> (SExpr a) =
     try_check (typeck_expr \<Gamma> a) SExpr (\<lambda>\<Gamma>1 a' _. (\<Gamma>1, SExpr a', Inr ()))"
| "typeck_stmt \<Gamma> (SSemi a) =
     try_check (typeck_expr \<Gamma> a) SSemi (\<lambda>\<Gamma>1 a' _. (\<Gamma>1, SSemi a', Inr ()))"
| "typeck_stmt \<Gamma> (SReturn (Some a)) =
     try_check (typeck_expr \<Gamma> a) (\<lambda>a'. SReturn (Some a')) (\<lambda>\<Gamma>1 a' _.
       (\<Gamma>1, SReturn (Some a'), Inr ()))"
| "typeck_stmt \<Gamma> (SReturn None) = (\<Gamma>, SReturn None, Inr ())"
| "typeck_stmt \<Gamma> (SWhile c b) =
     try_check (typeck_expr \<Gamma> c) (\<lambda>c'. SWhile c' b) (\<lambda>\<Gamma>1 c' tc.
       if tc \<noteq> Bool then (\<Gamma>1, SWhile c' b, Inl (WhileConditionNotBool tc))
       else
     try_check (typeck_block \<Gamma>1 b) (SWhile c') (\<lambda>\<Gamma>2 b' _. (\<Gamma>2, SWhile c' b', Inr ())))"
| "typeck_stmt \<Gamma> (SLoop b) =
     try_check (typeck_block \<Gamma> b) SLoop (\<lambda>\<Gamma>1 b' _. (\<Gamma>1, SLoop b', Inr ()))"
| "typeck_stmt \<Gamma> SBreak = (\<Gamma>, SBreak, Inr ())"
| "typeck_stmt \<Gamma> SContinue = (\<Gamma>, SContinue, Inr ())"
| "typeck_stmt \<Gamma> (SFor v n it b) =
     try_check (typeck_expr \<Gamma> it) (\<lambda>it'. SFor v n it' b) (\<lambda>\<Gamma>1 it' _.
     try_check (typeck_block (\<Gamma>1\<lparr>local_env := (local_env \<Gamma>1)(v \<mapsto> Unit)\<rparr>) b) (SFor v n it')
       (\<lambda>\<Gamma>2 b' _. (\<Gamma>2, SFor v n it' b', Inr ())))"
| "typeck_stmt \<Gamma> (SAssume c) =
     try_check (typeck_expr \<Gamma> c) SAssume (\<lambda>\<Gamma>1 c' tc.
       (\<Gamma>1, SAssume c', reject_if (tc \<noteq> Bool) (AssumeNotBool tc) ()))"
| "typeck_stmts \<Gamma> [] = (\<Gamma>, [], Inr ())"
| "typeck_stmts \<Gamma> (s # ss) =
     try_check (typeck_stmt \<Gamma> s) (\<lambda>s'. s' # ss) (\<lambda>\<Gamma>1 s' _.
     try_check (typeck_stmts \<Gamma>1 ss) (\<lambda>ss'. s' # ss') (\<lambda>\<Gamma>2 ss' u. (\<Gamma>2, s' # ss', Inr u)))"
| "typeck_block \<Gamma> (Block ss None t) =
     try_check (typeck_stmts \<Gamma> ss) (\<lambda>ss'. Block ss' None t) (\<lambda>\<Gamma>1 ss' _.
       (\<Gamma>1, Block ss' None Unit, Inr Unit))"
| "typeck_block \<Gamma> (Block ss (Some a) t) =
     try_check (typeck_stmts \<Gamma> ss) (\<lambda>ss'. Block ss' (Some a) t) (\<lambda>\<Gamma>1 ss' _.
     try_check (typeck_expr \<Gamma>1 a) (\<lambda>a'. Block ss' (Some a') t) (\<lambda>\<Gamma>2 a' ta.
       (\<Gamma>2, Block ss' (Some a') ta, Inr ta)))"

end
