(* ===== verification/Typeck_Sound.thy ===== *)
theory Typeck_Sound
  imports Typeck
begin

text \<open>
  What the HIR type checker guarantees. The specification is a declarative type system on
  annotated trees (an inductive relation with one rule per construct); the checker is sound and
  complete for it, it changes nothing but annotations in the tree, and it only extends the
  registries of its context.
\<close>

section \<open>Every check only extends the context\<close>

text \<open>
  \<open>B\<close> bounds the variables a check may bind; every other entry of the context stays, structs
  may be added, and no struct is ever replaced.
\<close>

definition extends :: "var_id set \<Rightarrow> typeck_ctx \<Rightarrow> typeck_ctx \<Rightarrow> bool" where
  "extends B \<Gamma> \<Gamma>' =
     (fn_table \<Gamma>' = fn_table \<Gamma> \<and> traits \<Gamma>' = traits \<Gamma> \<and> errors \<Gamma>' = errors \<Gamma> \<and>
      structs \<Gamma> \<subseteq>\<^sub>m structs \<Gamma>' \<and> (\<forall>v. v \<notin> B \<longrightarrow> local_env \<Gamma>' v = local_env \<Gamma> v))"

lemmas typeck_induct =
  typeck_expr_typeck_kind_typeck_args_typeck_fields_typeck_stmt_typeck_stmts_typeck_block.induct

lemma extends_refl [simp]: "extends B \<Gamma> \<Gamma>"
  by (simp add: extends_def)

lemma extends_trans: "extends B \<Gamma> \<Gamma>1 \<Longrightarrow> extends B \<Gamma>1 \<Gamma>2 \<Longrightarrow> extends B \<Gamma> \<Gamma>2"
  by (auto simp: extends_def intro: map_le_trans)

lemma extends_bind: "v \<in> B \<Longrightarrow> extends B \<Gamma> (\<Gamma>\<lparr>local_env := (local_env \<Gamma>)(v \<mapsto> t)\<rparr>)"
  by (simp add: extends_def)

lemma extends_bind_pattern: "set (pattern_binders p) \<subseteq> B \<Longrightarrow> extends B \<Gamma> (bind_pattern p t \<Gamma>)"
  by (auto simp: extends_def bind_pattern_def split: pattern.split)

lemma extends_monomorphize: "extends B \<Gamma> (fst (monomorphize_struct \<Gamma> n ts))"
  by (auto simp: monomorphize_struct_def Let_def extends_def map_le_def split: option.split)

lemma extends_struct_lit: "extends B \<Gamma> (fst (with_tree fs (resolve_struct_lit \<Gamma> n ts k)))"
  using extends_monomorphize [of B \<Gamma> n ts]
  by (auto simp: with_tree_def resolve_struct_lit_def split: prod.split sum.split option.split)

lemma extends_try:
  assumes "extends B \<Gamma> (fst res)"
    "\<And>\<Gamma>1 a t. res = (\<Gamma>1, a, Inr t) \<Longrightarrow> extends B \<Gamma>1 (fst (go \<Gamma>1 a t))"
  shows "extends B \<Gamma> (fst (try_check res wrap go))"
  using assms extends_trans by (fastforce simp: try_check_def split: prod.split sum.split)

lemma extends_via_bind:
  "v \<in> B \<Longrightarrow> extends B (\<Gamma>\<lparr>local_env := (local_env \<Gamma>)(v \<mapsto> t)\<rparr>) \<Gamma>' \<Longrightarrow> extends B \<Gamma> \<Gamma>'"
  using extends_bind extends_trans by blast

lemma kind_binders_EIf:
  "kind_binders (EIf c b els) =
     expr_binders c @ block_binders b @ (case els of None \<Rightarrow> [] | Some e \<Rightarrow> expr_binders e)"
  by (cases els) auto

lemma typeck_extends:
  "set (expr_binders e) \<subseteq> B \<Longrightarrow> extends B \<Gamma> (fst (typeck_expr \<Gamma> e))"
  "set (kind_binders k) \<subseteq> B \<Longrightarrow> extends B \<Gamma> (fst (typeck_kind \<Gamma> k))"
  "set (concat (map expr_binders as)) \<subseteq> B \<Longrightarrow> extends B \<Gamma> (fst (typeck_args mk i \<Gamma> as ps))"
  "set (concat (map (\<lambda>(_, e). expr_binders e) fs)) \<subseteq> B \<Longrightarrow>
     extends B \<Gamma> (fst (typeck_fields n m \<Gamma> fs))"
  "set (stmt_binders s) \<subseteq> B \<Longrightarrow> extends B \<Gamma> (fst (typeck_stmt \<Gamma> s))"
  "set (concat (map stmt_binders ss)) \<subseteq> B \<Longrightarrow> extends B \<Gamma> (fst (typeck_stmts \<Gamma> ss))"
  "set (block_binders b) \<subseteq> B \<Longrightarrow> extends B \<Gamma> (fst (typeck_block \<Gamma> b))"
  apply (induction \<Gamma> e and \<Gamma> k and mk i \<Gamma> as ps and n m \<Gamma> fs and \<Gamma> s and \<Gamma> ss and \<Gamma> b
      rule: typeck_induct)
  apply (auto simp: kind_binders_EIf
      intro!: extends_try extends_bind_pattern extends_struct_lit split: option.split)
  apply (erule (1) extends_via_bind)
  done

section \<open>Only annotations change\<close>

lemma typeck_erase:
  "erase_expr (fst (snd (typeck_expr \<Gamma> e))) = erase_expr e"
  "erase_kind (fst (snd (typeck_kind \<Gamma> k))) = erase_kind k"
  "map erase_expr (fst (snd (typeck_args mk i \<Gamma> as ps))) = map erase_expr as"
  "map (\<lambda>(f, e). (f, erase_expr e)) (fst (snd (typeck_fields n m \<Gamma> fs)))
     = map (\<lambda>(f, e). (f, erase_expr e)) fs"
  "erase_stmt (fst (snd (typeck_stmt \<Gamma> s))) = erase_stmt s"
  "map erase_stmt (fst (snd (typeck_stmts \<Gamma> ss))) = map erase_stmt ss"
  "erase_block (fst (snd (typeck_block \<Gamma> b))) = erase_block b"
  apply (induction \<Gamma> e and \<Gamma> k and mk i \<Gamma> as ps and n m \<Gamma> fs and \<Gamma> s and \<Gamma> ss and \<Gamma> b
      rule: typeck_induct)
  apply (simp_all add: try_check_def with_tree_def split: prod.split sum.split option.split)
  apply (force split: prod.splits sum.splits option.splits if_splits)+
  done

section \<open>The declarative type system\<close>

inductive wt_expr :: "typeck_ctx \<Rightarrow> expr \<Rightarrow> bool"
  and wt_block :: "typeck_ctx \<Rightarrow> block \<Rightarrow> bool"
  and wt_stmt :: "typeck_ctx \<Rightarrow> stmt \<Rightarrow> bool"
  for \<Gamma> :: typeck_ctx where
  wt_literal: "wt_expr \<Gamma> (Expr (ELiteral lit) (literal_ty lit))"
| wt_var: "local_env \<Gamma> v = Some t \<Longrightarrow> wt_expr \<Gamma> (Expr (EVar v) t)"
| wt_relational:
    "wt_expr \<Gamma> a \<Longrightarrow> wt_expr \<Gamma> b \<Longrightarrow> ety a = ety b \<Longrightarrow> is_relational op \<Longrightarrow>
     wt_expr \<Gamma> (Expr (EBinary op a b) Bool)"
| wt_arithmetic:
    "wt_expr \<Gamma> a \<Longrightarrow> wt_expr \<Gamma> b \<Longrightarrow> ety a = ety b \<Longrightarrow> \<not> is_relational op \<Longrightarrow> t = ety a \<Longrightarrow>
     wt_expr \<Gamma> (Expr (EBinary op a b) t)"
| wt_not: "wt_expr \<Gamma> a \<Longrightarrow> ety a = Bool \<Longrightarrow> wt_expr \<Gamma> (Expr (EUnary UnNot a) Bool)"
| wt_neg: "wt_expr \<Gamma> a \<Longrightarrow> t = ety a \<Longrightarrow> wt_expr \<Gamma> (Expr (EUnary UnNeg a) t)"
| wt_deref_ref:
    "wt_expr \<Gamma> a \<Longrightarrow> ety a = Reference t m \<Longrightarrow> wt_expr \<Gamma> (Expr (EUnary UnDeref a) t)"
| wt_deref_ptr:
    "wt_expr \<Gamma> a \<Longrightarrow> ety a = Pointer t p m \<Longrightarrow> wt_expr \<Gamma> (Expr (EUnary UnDeref a) t)"
| wt_ref: "wt_expr \<Gamma> a \<Longrightarrow> t = ety a \<Longrightarrow> wt_expr \<Gamma> (Expr (ERef a) (Reference t False))"
| wt_method:
    "wt_expr \<Gamma> r \<Longrightarrow> \<forall>a \<in> set args. wt_expr \<Gamma> a \<Longrightarrow>
     ety r = Struct s \<Longrightarrow> structs \<Gamma> s = Some def \<Longrightarrow> map_of (sd_methods def) m = Some sig \<Longrightarrow>
     sig_params sig = self # map ety args \<Longrightarrow> self = Struct s \<or> self = SelfType \<Longrightarrow>
     t = sig_return sig \<Longrightarrow> wt_expr \<Gamma> (Expr (EMethodCall r m args) t)"
| wt_call:
    "ekind callee = EUnresolvedIdent f \<Longrightarrow> \<forall>a \<in> set args. wt_expr \<Gamma> a \<Longrightarrow>
     fn_table \<Gamma> f = Some sig \<Longrightarrow> sig_params sig = map ety args \<Longrightarrow>
     t = sig_return sig \<Longrightarrow> wt_expr \<Gamma> (Expr (ECall callee args) t)"
| wt_assign:
    "wt_expr \<Gamma> a \<Longrightarrow> wt_expr \<Gamma> b \<Longrightarrow> ety a = ety b \<Longrightarrow> wt_expr \<Gamma> (Expr (EAssign a b) Unit)"
| wt_return: "wt_expr \<Gamma> a \<Longrightarrow> wt_expr \<Gamma> (Expr (EReturn (Some a)) Never)"
| wt_return_none: "wt_expr \<Gamma> (Expr (EReturn None) Never)"
| wt_block_expr: "wt_block \<Gamma> b \<Longrightarrow> t = block_ty b \<Longrightarrow> wt_expr \<Gamma> (Expr (EBlock b) t)"
| wt_if:
    "wt_expr \<Gamma> c \<Longrightarrow> ety c = Bool \<Longrightarrow> wt_block \<Gamma> b \<Longrightarrow> wt_expr \<Gamma> (Expr (EIf c b None) Unit)"
| wt_if_else:
    "wt_expr \<Gamma> c \<Longrightarrow> ety c = Bool \<Longrightarrow> wt_block \<Gamma> b \<Longrightarrow> wt_expr \<Gamma> el \<Longrightarrow>
     t = block_ty b \<Longrightarrow> ety el = t \<Longrightarrow> wt_expr \<Gamma> (Expr (EIf c b (Some el)) t)"
| wt_struct_lit:
    "structs \<Gamma> n = Some def \<Longrightarrow> length fs = length (sd_fields def) \<Longrightarrow>
     \<forall>f \<in> set fs. wt_expr \<Gamma> (snd f) \<and> map_of (rev (sd_fields def)) (fst f) = Some (ety (snd f)) \<Longrightarrow>
     wt_expr \<Gamma> (Expr (EStructLit n [] fs) (Struct n))"
| wt_struct_lit_generic:
    "type_args \<noteq> [] \<Longrightarrow> n' = mangle_name n type_args \<Longrightarrow>
     structs \<Gamma> n' = Some def \<Longrightarrow> length fs = length (sd_fields def) \<Longrightarrow>
     \<forall>f \<in> set fs. wt_expr \<Gamma> (snd f) \<and> map_of (rev (sd_fields def)) (fst f) = Some (ety (snd f)) \<Longrightarrow>
     wt_expr \<Gamma> (Expr (EStructLit n type_args fs) (Struct n'))"
| wt_field:
    "wt_expr \<Gamma> a \<Longrightarrow> ety a = Struct s \<Longrightarrow> structs \<Gamma> s = Some def \<Longrightarrow>
     map_of (sd_fields def) f = Some t \<Longrightarrow> wt_expr \<Gamma> (Expr (EField a f) t)"
| wt_requires: "wt_expr \<Gamma> c \<Longrightarrow> ety c = Bool \<Longrightarrow> wt_expr \<Gamma> (Expr (ERequires c) Unit)"
| wt_ensures: "wt_expr \<Gamma> c \<Longrightarrow> ety c = Bool \<Longrightarrow> wt_expr \<Gamma> (Expr (EEnsures c) Unit)"
| wt_yield: "wt_expr \<Gamma> a \<Longrightarrow> wt_expr \<Gamma> (Expr (EYield (Some a)) Unit)"
| wt_yield_none: "wt_expr \<Gamma> (Expr (EYield None) Unit)"
| wt_block_unit: "\<forall>s \<in> set ss. wt_stmt \<Gamma> s \<Longrightarrow> wt_block \<Gamma> (Block ss None Unit)"
| wt_block_value:
    "\<forall>s \<in> set ss. wt_stmt \<Gamma> s \<Longrightarrow> wt_expr \<Gamma> a \<Longrightarrow> t = ety a \<Longrightarrow>
     wt_block \<Gamma> (Block ss (Some a) t)"
| wt_let:
    "wt_expr \<Gamma> a \<Longrightarrow> ann = None \<or> ann = Some (ety a) \<Longrightarrow>
     \<forall>v \<in> set (pattern_binders p). local_env \<Gamma> v = Some (ety a) \<Longrightarrow>
     wt_stmt \<Gamma> (SLocal p ann (Some a))"
| wt_let_uninit:
    "t = (case ann of None \<Rightarrow> Unit | Some t \<Rightarrow> t) \<Longrightarrow>
     \<forall>v \<in> set (pattern_binders p). local_env \<Gamma> v = Some t \<Longrightarrow> wt_stmt \<Gamma> (SLocal p ann None)"
| wt_sexpr: "wt_expr \<Gamma> a \<Longrightarrow> wt_stmt \<Gamma> (SExpr a)"
| wt_ssemi: "wt_expr \<Gamma> a \<Longrightarrow> wt_stmt \<Gamma> (SSemi a)"
| wt_sreturn: "wt_expr \<Gamma> a \<Longrightarrow> wt_stmt \<Gamma> (SReturn (Some a))"
| wt_sreturn_none: "wt_stmt \<Gamma> (SReturn None)"
| wt_swhile: "wt_expr \<Gamma> c \<Longrightarrow> ety c = Bool \<Longrightarrow> wt_block \<Gamma> b \<Longrightarrow> wt_stmt \<Gamma> (SWhile c b)"
| wt_sloop: "wt_block \<Gamma> b \<Longrightarrow> wt_stmt \<Gamma> (SLoop b)"
| wt_sbreak: "wt_stmt \<Gamma> SBreak"
| wt_scontinue: "wt_stmt \<Gamma> SContinue"
| wt_sfor:
    "wt_expr \<Gamma> it \<Longrightarrow> local_env \<Gamma> v = Some Unit \<Longrightarrow> wt_block \<Gamma> b \<Longrightarrow> wt_stmt \<Gamma> (SFor v n it b)"
| wt_sassume: "wt_expr \<Gamma> c \<Longrightarrow> ety c = Bool \<Longrightarrow> wt_stmt \<Gamma> (SAssume c)"

lemmas wt_intros = wt_expr_wt_block_wt_stmt.intros

text \<open>The context order under which typing is stable.\<close>

definition ctx_le :: "typeck_ctx \<Rightarrow> typeck_ctx \<Rightarrow> bool" where
  "ctx_le \<Gamma> \<Gamma>' =
     (fn_table \<Gamma>' = fn_table \<Gamma> \<and> structs \<Gamma> \<subseteq>\<^sub>m structs \<Gamma>' \<and> local_env \<Gamma> \<subseteq>\<^sub>m local_env \<Gamma>')"

lemma ctx_le_refl [simp]: "ctx_le \<Gamma> \<Gamma>"
  by (simp add: ctx_le_def)

lemma ctx_le_trans: "ctx_le \<Gamma> \<Gamma>1 \<Longrightarrow> ctx_le \<Gamma>1 \<Gamma>2 \<Longrightarrow> ctx_le \<Gamma> \<Gamma>2"
  by (auto simp: ctx_le_def intro: map_le_trans)

lemma ctx_le_lookup:
  assumes "ctx_le \<Gamma> \<Gamma>'"
  shows "structs \<Gamma> s = Some d \<Longrightarrow> structs \<Gamma>' s = Some d"
    and "local_env \<Gamma> v = Some t \<Longrightarrow> local_env \<Gamma>' v = Some t"
    and "fn_table \<Gamma> f = Some g \<Longrightarrow> fn_table \<Gamma>' f = Some g"
  using assms by (auto simp: ctx_le_def map_le_def dom_def)

lemma wt_mono:
  assumes "ctx_le \<Gamma> \<Gamma>'"
  shows "wt_expr \<Gamma> e \<Longrightarrow> wt_expr \<Gamma>' e"
    and "wt_block \<Gamma> b \<Longrightarrow> wt_block \<Gamma>' b"
    and "wt_stmt \<Gamma> s \<Longrightarrow> wt_stmt \<Gamma>' s"
  by (induction rule: wt_expr_wt_block_wt_stmt.inducts)
    (simp_all add: wt_intros ctx_le_lookup [OF assms])

section \<open>Completeness: an annotated tree is a fixed point of the checker\<close>

lemma try_check_Inr [simp]: "try_check (\<Gamma>, a, Inr t) wrap go = go \<Gamma> a t"
  by (simp add: try_check_def)

lemma try_check_Inl [simp]: "try_check (\<Gamma>, a, Inl e) wrap go = (\<Gamma>, wrap a, Inl e)"
  by (simp add: try_check_def)

lemma reject_if_False [simp]: "reject_if False e t = Inr t"
  by (simp add: reject_if_def)

lemma typeck_args_fixed:
  "\<forall>a \<in> set as. typeck_expr \<Gamma> a = (\<Gamma>, a, Inr (ety a)) \<Longrightarrow>
    typeck_args mk i \<Gamma> as (map ety as) = (\<Gamma>, as, Inr ())"
  by (induction as arbitrary: i) auto

lemma typeck_fields_fixed:
  "\<forall>f \<in> set fs. typeck_expr \<Gamma> (snd f) = (\<Gamma>, snd f, Inr (ety (snd f))) \<and>
      m (fst f) = Some (ety (snd f)) \<Longrightarrow>
    typeck_fields n m \<Gamma> fs = (\<Gamma>, fs, Inr ())"
  by (induction fs) auto

lemma typeck_stmts_fixed:
  "\<forall>s \<in> set ss. typeck_stmt \<Gamma> s = (\<Gamma>, s, Inr ()) \<Longrightarrow> typeck_stmts \<Gamma> ss = (\<Gamma>, ss, Inr ())"
  by (induction ss) auto

lemma bind_pattern_fixed:
  "\<forall>v \<in> set (pattern_binders p). local_env \<Gamma> v = Some t \<Longrightarrow> bind_pattern p t \<Gamma> = \<Gamma>"
  by (auto simp: bind_pattern_def fun_upd_idem split: pattern.split)

lemma let_type_simps [simp]:
  "let_type ann None = Inr (case ann of None \<Rightarrow> Unit | Some t \<Rightarrow> t)"
  "let_type None (Some t) = Inr t"
  "let_type (Some t) (Some t) = Inr t"
  by (auto simp: let_type_def split: option.split)

lemma typeck_complete:
  "wt_expr \<Gamma> e \<Longrightarrow> typeck_expr \<Gamma> e = (\<Gamma>, e, Inr (ety e))"
  "wt_block \<Gamma> b \<Longrightarrow> typeck_block \<Gamma> b = (\<Gamma>, b, Inr (block_ty b))"
  "wt_stmt \<Gamma> s \<Longrightarrow> typeck_stmt \<Gamma> s = (\<Gamma>, s, Inr ())"
  by (induction rule: wt_expr_wt_block_wt_stmt.inducts)
    (auto simp: check_binary_def check_unary_def resolve_method_def resolve_call_def
      typeck_args_fixed typeck_fields_fixed typeck_stmts_fixed bind_pattern_fixed
      resolve_struct_lit_def with_tree_def monomorphize_struct_def field_access_def
      fun_upd_idem split: expr_kind.splits)

section \<open>Soundness: what the checker accepts is well typed\<close>

text \<open>The variables of \<open>xs\<close> are bound once, and not yet bound in the context.\<close>

definition fresh :: "var_id list \<Rightarrow> typeck_ctx \<Rightarrow> bool" where
  "fresh xs \<Gamma> = (distinct xs \<and> set xs \<inter> dom (local_env \<Gamma>) = {})"

text \<open>
  A check that binds the variables \<open>xs\<close> and accepts delivers \<open>P\<close>, keeps
  everything the context had, and leaves every other fresh variable fresh.
\<close>

definition checked ::
  "var_id list \<Rightarrow> (typeck_ctx \<Rightarrow> 'a \<Rightarrow> 'b \<Rightarrow> bool) \<Rightarrow> typeck_ctx \<Rightarrow>
   typeck_ctx \<times> 'a \<times> ('e, 'b) result \<Rightarrow> bool" where
  "checked xs P \<Gamma> res =
     (\<forall>ys \<Gamma>' a t. fresh (xs @ ys) \<Gamma> \<longrightarrow> res = (\<Gamma>', a, Inr t) \<longrightarrow>
        P \<Gamma>' a t \<and> ctx_le \<Gamma> \<Gamma>' \<and> fresh ys \<Gamma>')"

lemma checked_ret: "(\<And>t. r = Inr t \<Longrightarrow> P \<Gamma> a t) \<Longrightarrow> checked [] P \<Gamma> (\<Gamma>, a, r)"
  by (auto simp: checked_def)

lemma checked_err [simp]: "checked xs P \<Gamma> (\<Gamma>', a, Inl e)"
  by (simp add: checked_def)

lemma checked_seq:
  assumes "checked xs P \<Gamma> res"
    "\<And>\<Gamma>1 a t. res = (\<Gamma>1, a, Inr t) \<Longrightarrow> P \<Gamma>1 a t \<Longrightarrow> ctx_le \<Gamma> \<Gamma>1 \<Longrightarrow> checked ys Q \<Gamma>1 (go \<Gamma>1 a t)"
  shows "checked (xs @ ys) Q \<Gamma> (try_check res wrap go)"
proof (cases "\<exists>\<Gamma>1 a t. res = (\<Gamma>1, a, Inr t)")
  case True
  then obtain \<Gamma>1 a t where res: "res = (\<Gamma>1, a, Inr t)" by auto
  show ?thesis
    unfolding checked_def
  proof (intro allI impI)
    fix zs \<Gamma>' b u
    assume f: "fresh ((xs @ ys) @ zs) \<Gamma>" and r: "try_check res wrap go = (\<Gamma>', b, Inr u)"
    have 1: "P \<Gamma>1 a t" "ctx_le \<Gamma> \<Gamma>1" "fresh (ys @ zs) \<Gamma>1"
      using assms(1) f res unfolding checked_def by (metis append.assoc)+
    have "checked ys Q \<Gamma>1 (go \<Gamma>1 a t)" "go \<Gamma>1 a t = (\<Gamma>', b, Inr u)"
      using assms(2) [OF res 1(1,2)] r res by simp_all
    then show "Q \<Gamma>' b u \<and> ctx_le \<Gamma> \<Gamma>' \<and> fresh zs \<Gamma>'"
      using 1 ctx_le_trans unfolding checked_def by blast
  qed
next
  case False
  then show ?thesis
    by (cases res) (auto simp: checked_def try_check_def split: sum.split)
qed

lemmas checked_last = checked_seq [where ys = "[]", simplified]

lemma checked_pure:
  assumes "\<And>t. r = Inr t \<Longrightarrow> checked xs Q \<Gamma> (go \<Gamma> a t)"
  shows "checked xs Q \<Gamma> (try_check (\<Gamma>, a, r) wrap go)"
  using assms by (cases r) simp_all

lemma fresh_bind:
  assumes "fresh (v # ys) \<Gamma>"
  shows "ctx_le \<Gamma> (\<Gamma>\<lparr>local_env := (local_env \<Gamma>)(v \<mapsto> t)\<rparr>)"
    and "fresh ys (\<Gamma>\<lparr>local_env := (local_env \<Gamma>)(v \<mapsto> t)\<rparr>)"
  using assms by (auto simp: fresh_def ctx_le_def map_le_def)

lemma checked_bind:
  assumes "ctx_le \<Gamma> (bind_pattern p t \<Gamma>) \<Longrightarrow> Q (bind_pattern p t \<Gamma>) a u"
  shows "checked (pattern_binders p) Q \<Gamma> (bind_pattern p t \<Gamma>, a, Inr u)"
  using assms by (cases p) (auto simp: checked_def bind_pattern_def fresh_bind)

lemma local_env_bind_pattern [simp]:
  "v \<in> set (pattern_binders p) \<Longrightarrow> local_env (bind_pattern p t \<Gamma>) v = Some t"
  by (cases p) (auto simp: bind_pattern_def)

lemma checked_for:
  assumes "checked xs Q (\<Gamma>\<lparr>local_env := (local_env \<Gamma>)(v \<mapsto> t)\<rparr>) res"
  shows "checked (v # xs) (\<lambda>\<Gamma>' a u. Q \<Gamma>' a u \<and> local_env \<Gamma>' v = Some t) \<Gamma> res"
  unfolding checked_def
proof (intro allI impI)
  fix ys \<Gamma>' a u
  assume f: "fresh ((v # xs) @ ys) \<Gamma>" and r: "res = (\<Gamma>', a, Inr u)"
  let ?\<Gamma> = "\<Gamma>\<lparr>local_env := (local_env \<Gamma>)(v \<mapsto> t)\<rparr>"
  have "ctx_le \<Gamma> ?\<Gamma>" "fresh (xs @ ys) ?\<Gamma>" using fresh_bind f by auto
  then have "Q \<Gamma>' a u" "ctx_le ?\<Gamma> \<Gamma>'" "fresh ys \<Gamma>'" using assms r by (auto simp: checked_def)
  moreover from this(2) have "local_env \<Gamma>' v = Some t" by (rule ctx_le_lookup) simp
  ultimately show "(Q \<Gamma>' a u \<and> local_env \<Gamma>' v = Some t) \<and> ctx_le \<Gamma> \<Gamma>' \<and> fresh ys \<Gamma>'"
    using ctx_le_trans \<open>ctx_le \<Gamma> ?\<Gamma>\<close> by blast
qed

text \<open>The postconditions of the checkers.\<close>

abbreviation (input) expr_ok :: "typeck_ctx \<Rightarrow> expr \<Rightarrow> ty \<Rightarrow> bool" where
  "expr_ok \<Gamma> e t \<equiv> wt_expr \<Gamma> e \<and> ety e = t"

abbreviation (input) block_ok :: "typeck_ctx \<Rightarrow> block \<Rightarrow> ty \<Rightarrow> bool" where
  "block_ok \<Gamma> b t \<equiv> wt_block \<Gamma> b \<and> block_ty b = t"

abbreviation (input) args_ok :: "ty list \<Rightarrow> typeck_ctx \<Rightarrow> expr list \<Rightarrow> unit \<Rightarrow> bool" where
  "args_ok ps \<Gamma> as u \<equiv> (\<forall>a \<in> set as. wt_expr \<Gamma> a) \<and> map ety as = ps"

abbreviation (input) fields_ok ::
  "(string \<rightharpoonup> ty) \<Rightarrow> nat \<Rightarrow> typeck_ctx \<Rightarrow> (string \<times> expr) list \<Rightarrow> unit \<Rightarrow> bool" where
  "fields_ok m n \<Gamma> fs u \<equiv>
     length fs = n \<and> (\<forall>f \<in> set fs. wt_expr \<Gamma> (snd f) \<and> m (fst f) = Some (ety (snd f)))"

abbreviation (input) stmts_ok :: "typeck_ctx \<Rightarrow> stmt list \<Rightarrow> unit \<Rightarrow> bool" where
  "stmts_ok \<Gamma> ss u \<equiv> \<forall>s \<in> set ss. wt_stmt \<Gamma> s"

lemma checked_struct_lit:
  "checked [] (\<lambda>\<Gamma>1 fs' lit. \<exists>def. structs \<Gamma>1 (fst lit) = Some def \<and> k = length (sd_fields def) \<and>
      snd lit = map_of (rev (sd_fields def)) \<and>
      fst lit = (if ts = [] then n else mangle_name n ts))
    \<Gamma> (with_tree fs (resolve_struct_lit \<Gamma> n ts k))"
proof -
  have e: "extends {} \<Gamma> (fst (resolve_struct_lit \<Gamma> n ts k))"
    using extends_struct_lit [of "{}" \<Gamma> fs n ts k] by (simp add: with_tree_def)
  then have "local_env (fst (resolve_struct_lit \<Gamma> n ts k)) = local_env \<Gamma>"
    by (intro ext) (simp add: extends_def)
  moreover from this e have "ctx_le \<Gamma> (fst (resolve_struct_lit \<Gamma> n ts k))"
    by (simp add: extends_def ctx_le_def)
  ultimately show ?thesis
    by (auto simp: checked_def with_tree_def fresh_def resolve_struct_lit_def
        monomorphize_struct_def Let_def split: option.splits if_splits prod.splits sum.splits)
qed

lemma wt_if_later:
  "wt_expr \<Gamma>1 c \<Longrightarrow> ety c = Bool \<Longrightarrow> ctx_le \<Gamma>1 \<Gamma>2 \<Longrightarrow> wt_block \<Gamma>2 b \<Longrightarrow>
    wt_expr \<Gamma>2 (Expr (EIf c b None) Unit)"
  by (rule wt_if) (auto dest: wt_mono(1))

lemma wt_if_else_later:
  assumes "wt_expr \<Gamma>1 c" "ety c = Bool" "ctx_le \<Gamma>1 \<Gamma>2" "wt_block \<Gamma>2 b" "ctx_le \<Gamma>2 \<Gamma>3"
    "wt_expr \<Gamma>3 el" "t = block_ty b" "ety el = t"
  shows "wt_expr \<Gamma>3 (Expr (EIf c b (Some el)) t)"
  using assms wt_mono(1) [of \<Gamma>1 \<Gamma>3 c] wt_mono(2) [of \<Gamma>2 \<Gamma>3 b] ctx_le_trans [of \<Gamma>1 \<Gamma>2 \<Gamma>3]
  by (intro wt_if_else) auto

text \<open>The induction over the checker: one line per construct.\<close>

lemma typeck_checked:
  "checked (expr_binders e) expr_ok \<Gamma> (typeck_expr \<Gamma> e)"
  "checked (kind_binders k) (\<lambda>\<Gamma>' k' t. wt_expr \<Gamma>' (Expr k' t)) \<Gamma> (typeck_kind \<Gamma> k)"
  "length as = length ps \<Longrightarrow>
     checked (concat (map expr_binders as)) (args_ok ps) \<Gamma> (typeck_args mk i \<Gamma> as ps)"
  "checked (concat (map (\<lambda>(_, e). expr_binders e) fs)) (fields_ok m (length fs)) \<Gamma>
     (typeck_fields n m \<Gamma> fs)"
  "checked (stmt_binders s) (\<lambda>\<Gamma>' s' _. wt_stmt \<Gamma>' s') \<Gamma> (typeck_stmt \<Gamma> s)"
  "checked (concat (map stmt_binders ss)) stmts_ok \<Gamma> (typeck_stmts \<Gamma> ss)"
  "checked (block_binders b) block_ok \<Gamma> (typeck_block \<Gamma> b)"
proof (induction \<Gamma> e and \<Gamma> k and mk i \<Gamma> as ps and n m \<Gamma> fs and \<Gamma> s and \<Gamma> ss and \<Gamma> b
    rule: typeck_induct)
  case (1 \<Gamma> k t)
  show ?case by (auto intro!: checked_last [OF 1] checked_ret)
next
  case (4 \<Gamma> op a b)
  show ?case
    by (auto simp: check_binary_def split: if_splits
        intro!: checked_seq [OF 4(1)] checked_last [OF 4(2)] checked_ret)
      (metis wt_relational wt_arithmetic wt_mono(1))+
next
  case (5 \<Gamma> op a)
  show ?case
    by (auto simp: check_unary_def split: un_op.splits ty.splits if_splits
        intro!: checked_last [OF 5] checked_ret intro: wt_intros)
next
  case (6 \<Gamma> a)
  show ?case by (auto intro!: checked_last [OF 6] checked_ret intro: wt_intros)
next
  case (7 \<Gamma> r m args)
  show ?case
    by (auto simp: resolve_method_def split: ty.splits option.splits list.splits if_splits
        intro!: checked_seq [OF 7(1)] checked_pure checked_last [OF 7(2)] checked_ret)
      (blast intro: wt_method wt_mono(1) ctx_le_lookup)+
next
  case (8 \<Gamma> callee args)
  show ?case
  proof (cases "resolve_call \<Gamma> callee (length args)")
    case (Inr call)
    then obtain f t0 sig where r: "callee = Expr (EUnresolvedIdent f) t0" "call = (f, sig)"
        "fn_table \<Gamma> f = Some sig" "length args = length (sig_params sig)"
      by (cases callee)
        (auto simp: resolve_call_def split: expr_kind.splits option.splits if_splits)
    have c: "checked (concat (map expr_binders args)) (args_ok (sig_params sig)) \<Gamma>
        (typeck_args (CallArgMismatch f) 0 \<Gamma> args (sig_params sig))"
      using 8 [of \<Gamma> args call] r Inr by simp
    show ?thesis using r Inr
      by (auto intro!: checked_last [OF c] checked_ret)
        (rule wt_call [where sig = sig and f = f], auto dest: ctx_le_lookup(3))
  qed simp
next
  case (9 \<Gamma> a b)
  show ?case
    by (auto simp: reject_if_def split: if_splits
        intro!: checked_seq [OF 9(1)] checked_last [OF 9(2)] checked_ret)
      (blast intro: wt_assign wt_mono(1))+
next
  case (10 \<Gamma> a)
  show ?case by (auto intro!: checked_last [OF 10] checked_ret wt_return)
next
  case (12 \<Gamma> b)
  show ?case by (auto intro!: checked_last [OF 12] checked_ret wt_block_expr)
next
  case (13 \<Gamma> c b els)
  have b: "checked (block_binders b) block_ok \<Gamma>1 (typeck_block \<Gamma>1 b)"
    if "fst (typeck_expr \<Gamma> c) = \<Gamma>1" "snd (snd (typeck_expr \<Gamma> c)) = Inr Bool" for \<Gamma>1
    using 13(2) [of \<Gamma>1 "fst (snd (typeck_expr \<Gamma> c))" Bool] that by (metis prod.collapse)
  show ?case
  proof (cases els)
    case None
    then show ?thesis
      by (auto intro!: checked_seq [OF 13(1)] checked_last [OF b] checked_ret)
        (rule wt_if_later; assumption)
  next
    case (Some el)
    have e: "checked (expr_binders el) expr_ok \<Gamma>2 (typeck_expr \<Gamma>2 el)"
      if "snd (snd (typeck_expr \<Gamma> c)) = Inr Bool"
        "fst (typeck_block (fst (typeck_expr \<Gamma> c)) b) = \<Gamma>2"
        "\<not> isl (snd (snd (typeck_block (fst (typeck_expr \<Gamma> c)) b)))" for \<Gamma>2
      using 13(3) [of "fst (typeck_expr \<Gamma> c)" "fst (snd (typeck_expr \<Gamma> c))" Bool \<Gamma>2
          "fst (snd (typeck_block (fst (typeck_expr \<Gamma> c)) b))"
          "projr (snd (snd (typeck_block (fst (typeck_expr \<Gamma> c)) b)))" el] that Some
      by (cases "typeck_expr \<Gamma> c", cases "typeck_block (fst (typeck_expr \<Gamma> c)) b") auto
    then show ?thesis using Some
      by (auto simp: reject_if_def split: if_splits
          intro!: checked_seq [OF 13(1)] checked_seq [OF b] checked_last [OF e] checked_ret)
        (rule wt_if_else_later; (assumption | simp))
  qed
next
  case (14 \<Gamma> n ts fs)
  show ?case
    by (auto intro!: checked_seq [OF checked_struct_lit, where ys = "concat ys" for ys, simplified]
        checked_last [OF 14] checked_ret)
      (metis wt_struct_lit wt_struct_lit_generic ctx_le_lookup(1))+
next
  case (15 \<Gamma> a f)
  show ?case
    by (auto simp: field_access_def split: ty.splits option.splits
        intro!: checked_last [OF 15] checked_ret intro: wt_field)
next
  case (16 \<Gamma> c)
  show ?case
    by (auto simp: reject_if_def split: if_splits
        intro!: checked_last [OF 16] checked_ret wt_requires)
next
  case (17 \<Gamma> c)
  show ?case
    by (auto simp: reject_if_def split: if_splits
        intro!: checked_last [OF 17] checked_ret wt_ensures)
next
  case (18 \<Gamma> a)
  show ?case by (auto intro!: checked_last [OF 18] checked_ret wt_yield)
next
  case (22 mk i \<Gamma> a as p ps)
  have r: "checked (concat (map expr_binders as)) (args_ok ps) \<Gamma>1 (typeck_args mk (Suc i) \<Gamma>1 as ps)"
    if "fst (typeck_expr \<Gamma> a) = \<Gamma>1" "snd (snd (typeck_expr \<Gamma> a)) = Inr p" for \<Gamma>1
    using 22(2) [of \<Gamma>1 "fst (snd (typeck_expr \<Gamma> a))" p] 22(3) that
    by (cases "typeck_expr \<Gamma> a") auto
  show ?case
    by (auto intro!: checked_seq [OF 22(1)] checked_last [OF r] checked_ret)
      (blast intro: wt_mono(1))
next
  case (25 n m \<Gamma> f a fs)
  have r: "checked (concat (map (\<lambda>(_, e). expr_binders e) fs)) (fields_ok m (length fs)) \<Gamma>1
      (typeck_fields n m \<Gamma>1 fs)"
    if "fst (typeck_expr \<Gamma> a) = \<Gamma>1" "\<exists>t. snd (snd (typeck_expr \<Gamma> a)) = Inr t \<and> m f = Some t"
    for \<Gamma>1
    using 25(2) [of \<Gamma>1 "fst (snd (typeck_expr \<Gamma> a))"] that
    by (cases "typeck_expr \<Gamma> a") auto
  show ?case
    by (auto split: option.splits
        intro!: checked_seq [OF 25(1)] checked_last [OF r] checked_ret)
      (fastforce dest: wt_mono(1))+
next
  case (26 \<Gamma> p ann)
  show ?case by (auto intro!: checked_pure checked_bind wt_let_uninit)
next
  case (27 \<Gamma> p ann a)
  show ?case
    by (auto simp: let_type_def split: option.splits if_splits
        intro!: checked_seq [OF 27] checked_pure checked_bind wt_let intro: wt_mono(1))
next
  case (28 \<Gamma> a)
  show ?case by (auto intro!: checked_last [OF 28] checked_ret wt_sexpr)
next
  case (29 \<Gamma> a)
  show ?case by (auto intro!: checked_last [OF 29] checked_ret wt_ssemi)
next
  case (30 \<Gamma> a)
  show ?case by (auto intro!: checked_last [OF 30] checked_ret wt_sreturn)
next
  case (32 \<Gamma> c b)
  show ?case
    by (auto intro!: checked_seq [OF 32(1)] checked_last [OF 32(2)] checked_ret)
      (blast intro: wt_swhile wt_mono(1))+
next
  case (33 \<Gamma> b)
  show ?case by (auto intro!: checked_last [OF 33] checked_ret wt_sloop)
next
  case (36 \<Gamma> v n it b)
  show ?case
    by (auto intro!: checked_seq [OF 36(1)] checked_last [OF checked_for [OF 36(2)]] checked_ret)
      (blast intro: wt_sfor wt_mono(1))+
next
  case (37 \<Gamma> c)
  show ?case
    by (auto simp: reject_if_def split: if_splits
        intro!: checked_last [OF 37] checked_ret wt_sassume)
next
  case (39 \<Gamma> s ss)
  show ?case
    by (auto intro!: checked_seq [OF 39(1)] checked_last [OF 39(2)] checked_ret)
      (blast intro: wt_mono(3))+
next
  case (40 \<Gamma> ss t)
  show ?case by (auto intro!: checked_last [OF 40] checked_ret wt_block_unit)
next
  case (41 \<Gamma> ss a t)
  show ?case
    by (auto intro!: checked_seq [OF 41(1)] checked_last [OF 41(2)] checked_ret)
      (blast intro: wt_block_value wt_mono(3))+
qed (auto intro!: checked_ret intro: wt_intros split: option.splits)

section \<open>Properties of the checker\<close>

lemma typeck_expr_sound:
  assumes "typeck_expr \<Gamma> e = (\<Gamma>', e', Inr t)" "fresh (expr_binders e) \<Gamma>"
  shows "wt_expr \<Gamma>' e' \<and> ety e' = t \<and> ctx_le \<Gamma> \<Gamma>'"
  using typeck_checked(1) [of e \<Gamma>] assms unfolding checked_def by (metis append_Nil2)

text \<open>
  Property C1: the type checker is sound. When it accepts an expression whose variables are
  bound once (which the HIR promises), the tree it leaves behind is well typed in the declarative
  system, in the context it leaves behind: every node carries the type its rule gives it,
  arguments agree with signatures, and struct literals with their definitions; the reported type
  is the annotation of the root.
\<close>

theorem typeck_sound:
  assumes "typeck_expr \<Gamma> e = (\<Gamma>', e', Inr t)" "fresh (expr_binders e) \<Gamma>"
  shows "wt_expr \<Gamma>' e' \<and> ety e' = t"
  using typeck_expr_sound [OF assms] by blast

text \<open>
  Property C5: the type checker is complete for the declarative system and stable on its own
  output. A well-typed annotated tree is accepted, with its annotation as the type, and neither
  the tree nor the context changes; in particular, checking the output of a successful run again,
  in the context that run left, accepts it with the same type and changes nothing.
\<close>

theorem typeck_complete_idempotent:
  assumes "typeck_expr \<Gamma> e = (\<Gamma>', e', Inr t)" "fresh (expr_binders e) \<Gamma>"
  shows "typeck_expr \<Gamma>' e' = (\<Gamma>', e', Inr t) \<and>
    (\<forall>d. wt_expr \<Gamma>' d \<longrightarrow> typeck_expr \<Gamma>' d = (\<Gamma>', d, Inr (ety d)))"
  using typeck_expr_sound [OF assms] typeck_complete(1) by metis

text \<open>
  Property C17: on every path, errors included, the checker only fills in annotations and only
  extends its context. The erased tree is the one it was given; functions, traits and the
  accumulated errors are untouched; no struct is removed or redefined (monomorphization only adds
  some); and only variables the tree itself binds can change their type.
\<close>

theorem typeck_preserves:
  "erase_expr (fst (snd (typeck_expr \<Gamma> e))) = erase_expr e \<and>
   extends (set (expr_binders e)) \<Gamma> (fst (typeck_expr \<Gamma> e))"
  using typeck_erase(1) typeck_extends(1) [OF order_refl] by blast

section \<open>An example program\<close>

text \<open>
  \<open>struct Wrapper<T> { v: T }\<close> and \<open>fn id(x: i64) -> i64\<close>, checked on
  \<open>{ let w = Wrapper<i64> { v: id(1) }; w.v }\<close>.
\<close>

definition demo_ctx :: typeck_ctx where
  "demo_ctx = register_generic_struct (register_fn typeck_new ''id'' [I64] I64)
     ''Wrapper'' [''T''] [(''v'', Generic ''T'')]"

definition demo_expr :: expr where
  "demo_expr =
     Expr (EBlock (Block
       [SLocal (PBind ''w'' 0 False) None
          (Some (Expr (EStructLit ''Wrapper'' [I64]
             [(''v'', Expr (ECall (Expr (EUnresolvedIdent ''id'') Unit)
                [Expr (ELiteral (LitInt 1)) Unit]) Unit)]) Unit))]
       (Some (Expr (EField (Expr (EVar 0) Unit) ''v'') Unit)) Unit)) Unit"

lemmas typeck_eval = demo_ctx_def demo_expr_def register_generic_struct_def register_fn_def
  typeck_new_def literal_ty_def resolve_call_def resolve_struct_lit_def monomorphize_struct_def
  mangle_name_def instantiate_struct_def type_mapping_def with_tree_def Let_def bind_pattern_def
  field_access_def

lemma demo_accepts:
  "snd (snd (typeck_expr demo_ctx demo_expr)) = Inr I64"
  by (simp add: typeck_eval)

lemma demo_fresh: "fresh (expr_binders demo_expr) demo_ctx"
  by (simp add: fresh_def demo_expr_def demo_ctx_def register_generic_struct_def register_fn_def
      typeck_new_def)

lemma demo_run:
  "typeck_expr demo_ctx demo_expr =
     (fst (typeck_expr demo_ctx demo_expr), fst (snd (typeck_expr demo_ctx demo_expr)), Inr I64)"
  using demo_accepts by (metis prod.collapse)

theorem typeck_sound_witness:
  "wt_expr (fst (typeck_expr demo_ctx demo_expr)) (fst (snd (typeck_expr demo_ctx demo_expr))) \<and>
   ety (fst (snd (typeck_expr demo_ctx demo_expr))) = I64"
  by (rule typeck_sound [OF demo_run demo_fresh])

theorem typeck_complete_idempotent_witness:
  "snd (snd (typeck_expr (fst (typeck_expr demo_ctx demo_expr))
     (fst (snd (typeck_expr demo_ctx demo_expr))))) = Inr I64"
  using typeck_complete_idempotent [OF demo_run demo_fresh] by (metis snd_conv)

end
