(* ===== verification/Typeck_Items.thy ===== *)
theory Typeck_Items
  imports Typeck_Ctx
begin

text \<open>
  What the registration passes of the type checker guarantee: trait compliance, the injection
  of methods, and the monomorphization of generic structs.
\<close>

section \<open>Method tables\<close>

lemma map_of_fold_update:
  "map_of (fold (\<lambda>(k, v) xs. AList.update k v xs) kvs base) = map_of base ++ map_of (rev kvs)"
  by (induction kvs arbitrary: base) (auto simp: map_add_def fun_eq_iff split: option.splits)

lemma distinct_provided_of:
  "distinct (map fst acc) \<Longrightarrow> distinct (map fst (provided_of ms acc))"
  by (induction ms acc rule: provided_of.induct) (auto simp: distinct_update)

lemma map_of_fold_provided:
  "map_of (fold (\<lambda>(k, v) xs. AList.update k v xs) (provided_of ms []) base) =
     map_of base ++ map_of (provided_of ms [])"
  using distinct_provided_of [of "[]" ms] by (simp add: map_of_fold_update map_of_rev_distinct)

text \<open>The tolerance for \<open>SelfType\<close> in the signature comparison is subsumed by equality.\<close>

lemma sig_matches_iff: "sig_matches req prov = (req = prov)"
proof -
  have z: "(length ps = length qs \<and>
      (\<forall>(r, p) \<in> set (zip ps qs). r = p \<or> r = SelfType \<and> p = SelfType)) = (ps = qs)"
    for ps qs :: "ty list"
  proof -
    have "(\<lambda>r p. r = p \<or> r = SelfType \<and> p = SelfType) = (=)" by (intro ext) blast
    then show ?thesis
      using list_all2_iff [of "\<lambda>r p. r = p \<or> r = SelfType \<and> p = SelfType" ps qs]
      by (simp add: list.rel_eq)
  qed
  have "sig_matches req prov = (sig_params req = sig_params prov \<and> sig_return req = sig_return prov)"
    unfolding sig_matches_def conj_assoc [symmetric] z ..
  then show ?thesis by (cases req, cases prov) simp
qed

lemma compliance_errors_Nil:
  "compliance_errors tn sn provided required = [] \<longleftrightarrow>
     (\<forall>(m, s) \<in> set required. map_of provided m = Some s)"
  by (auto simp: compliance_errors_def compliance_error_def sig_matches_iff
      split: option.splits if_splits)

section \<open>Trait compliance of a module\<close>

definition trait_impl_ok :: "(string \<rightharpoonup> trait_def) \<Rightarrow> impl_item \<Rightarrow> ty \<Rightarrow> bool" where
  "trait_impl_ok ts imp trait_ref =
     (case (trait_ref, im_self_ty imp) of
        (Struct tn, Struct sn) \<Rightarrow>
          (case ts tn of
             None \<Rightarrow> False
           | Some td \<Rightarrow>
               \<forall>(m, s) \<in> set (td_required td). map_of (provided_of (im_items imp) []) m = Some s)
      | _ \<Rightarrow> False)"

lemma inject_methods_frame [simp]:
  "errors (inject_methods sn ms \<Gamma>) = errors \<Gamma>"
  "traits (inject_methods sn ms \<Gamma>) = traits \<Gamma>"
  "fn_table (inject_methods sn ms \<Gamma>) = fn_table \<Gamma>"
  by (auto simp: inject_methods_def split: option.split)

lemma push_errors_frame [simp]:
  "errors (push_errors es \<Gamma>) = errors \<Gamma> @ es"
  "traits (push_errors es \<Gamma>) = traits \<Gamma>"
  "structs (push_errors es \<Gamma>) = structs \<Gamma>"
  by (auto simp: push_errors_def)

lemma register_trait_impl_errors:
  "\<exists>es. errors (register_trait_impl imp r \<Gamma>) = errors \<Gamma> @ es \<and>
     (es = [] \<longleftrightarrow> trait_impl_ok (traits \<Gamma>) imp r) \<and>
     traits (register_trait_impl imp r \<Gamma>) = traits \<Gamma>"
  by (auto simp: register_trait_impl_def trait_impl_ok_def extract_struct_name_def Let_def
      compliance_errors_Nil split: ty.splits option.splits)

definition item_ok :: "(string \<rightharpoonup> trait_def) \<Rightarrow> item \<Rightarrow> bool" where
  "item_ok ts it =
     (case item_kind_of it of
        ItemImpl imp \<Rightarrow> (case im_trait_ref imp of None \<Rightarrow> True | Some r \<Rightarrow> trait_impl_ok ts imp r)
      | _ \<Rightarrow> True)"

lemma register_impl_errors:
  "\<exists>es. errors (register_impl it \<Gamma>) = errors \<Gamma> @ es \<and> (es = [] \<longleftrightarrow> item_ok (traits \<Gamma>) it) \<and>
     traits (register_impl it \<Gamma>) = traits \<Gamma>"
  using register_trait_impl_errors
  by (auto simp: register_impl_def item_ok_def split: item_kind.splits option.splits sum.splits)

lemma fold_register_impl_errors:
  "\<exists>es. errors (fold register_impl items \<Gamma>) = errors \<Gamma> @ es \<and>
     (es = [] \<longleftrightarrow> (\<forall>it \<in> set items. item_ok (traits \<Gamma>) it)) \<and>
     traits (fold register_impl items \<Gamma>) = traits \<Gamma>"
proof (induction items arbitrary: \<Gamma>)
  case (Cons it items)
  obtain es where es: "errors (register_impl it \<Gamma>) = errors \<Gamma> @ es"
      "es = [] \<longleftrightarrow> item_ok (traits \<Gamma>) it" "traits (register_impl it \<Gamma>) = traits \<Gamma>"
    using register_impl_errors by blast
  obtain fs where "errors (fold register_impl items (register_impl it \<Gamma>)) =
        errors (register_impl it \<Gamma>) @ fs"
      "fs = [] \<longleftrightarrow> (\<forall>it \<in> set items. item_ok (traits \<Gamma>) it)"
      "traits (fold register_impl items (register_impl it \<Gamma>)) = traits \<Gamma>"
    using Cons [of "register_impl it \<Gamma>"] es(3) by auto
  then show ?case using es by (intro exI [of _ "es @ fs"]) auto
qed simp

lemma register_item_errors: "errors (fold register_item items \<Gamma>) = errors \<Gamma>"
  by (induction items arbitrary: \<Gamma>) (auto simp: register_item_def split: item_kind.split)

text \<open>
  Property C39: a module registers without a trait error exactly when every trait impl in it names
  a declared trait and a struct, and provides each method the trait requires, with exactly the
  declared signature.
\<close>

theorem trait_compliance:
  "errors (with_items items) = [] \<longleftrightarrow>
     (\<forall>it \<in> set items. item_ok (traits (with_items items)) it)"
  using fold_register_impl_errors [of items "fold register_item items typeck_new"]
    register_item_errors [of items typeck_new]
  by (auto simp: with_items_def typeck_new_def)

text \<open>A trait with one method, and two impls of it: one complete, one with a wrong return type.\<close>

definition demo_fn :: "ty \<Rightarrow> fn_item" where
  "demo_fn ret = \<lparr>fn_inputs = [\<lparr>param_name = ''self'', param_ty = SelfType\<rparr>], fn_output = ret,
     fn_body = None, fn_generics = [], fn_is_async = False\<rparr>"

definition demo_item :: "string \<Rightarrow> item_kind \<Rightarrow> item" where
  "demo_item n k = \<lparr>item_id = 0, item_name = n, item_vis = Public, item_kind_of = k\<rparr>"

definition demo_items :: "ty \<Rightarrow> item list" where
  "demo_items ret =
     [demo_item ''Point'' (ItemStruct \<lparr>st_fields = [], st_generics = [], st_invariants = []\<rparr>),
      demo_item ''Show'' (ItemTrait \<lparr>tr_generics = [], tr_items = [TraitFn ''show'' (demo_fn I64)]\<rparr>),
      demo_item ''impl'' (ItemImpl \<lparr>im_generics = [], im_trait_ref = Some (Struct ''Show''),
        im_self_ty = Struct ''Point'', im_items = [ImplFn ''show'' (demo_fn ret)]\<rparr>)]"

lemmas demo_items_eval = demo_items_def demo_item_def demo_fn_def with_items_def register_item_def
  register_impl_def register_trait_impl_def extract_struct_name_def fn_sig_of_def typeck_new_def
  Let_def compliance_errors_def compliance_error_def sig_matches_def inject_methods_def
  push_errors_def

theorem trait_compliance_witness:
  "item_ok (traits (with_items (demo_items I64))) (demo_items I64 ! 2) \<and>
   \<not> (\<forall>it \<in> set (demo_items Bool). item_ok (traits (with_items (demo_items Bool))) it)"
proof -
  have "errors (with_items (demo_items I64)) = []" "errors (with_items (demo_items Bool)) \<noteq> []"
    by (simp_all add: demo_items_eval)
  moreover have "demo_items I64 ! 2 \<in> set (demo_items I64)"
    by (simp add: demo_items_def)
  ultimately show ?thesis using trait_compliance by blast
qed

text \<open>
  Registering one trait impl for a known struct. If it complies, no error is added
  and each method it provides is, with its signature, in the struct's method table (replacing an
  older one of that name and keeping all others); if it does not, errors are added and no struct
  changes.
\<close>

theorem trait_impl_injection:
  assumes "item_kind_of it = ItemImpl imp" "im_trait_ref imp = Some r" "im_self_ty imp = Struct sn"
    "structs \<Gamma> sn = Some def"
  shows "if trait_impl_ok (traits \<Gamma>) imp r
    then errors (register_impl it \<Gamma>) = errors \<Gamma> \<and>
      (\<exists>def'. structs (register_impl it \<Gamma>) = (structs \<Gamma>)(sn \<mapsto> def') \<and>
        sd_fields def' = sd_fields def \<and>
        map_of (sd_methods def') =
          map_of (sd_methods def) ++ map_of (provided_of (im_items imp) []))
    else errors (register_impl it \<Gamma>) \<noteq> errors \<Gamma> \<and> structs (register_impl it \<Gamma>) = structs \<Gamma>"
proof (cases "trait_impl_ok (traits \<Gamma>) imp r")
  case True
  then obtain tn td where "r = Struct tn" "traits \<Gamma> tn = Some td"
      "compliance_errors tn sn (provided_of (im_items imp) []) (td_required td) = []"
    using assms(3)
    by (auto simp: trait_impl_ok_def compliance_errors_Nil split: ty.splits option.splits)
  with True assms show ?thesis
    by (auto simp: register_impl_def register_trait_impl_def extract_struct_name_def
        inject_methods_def map_of_fold_provided)
next
  case False
  with assms show ?thesis
    by (auto simp: register_impl_def register_trait_impl_def extract_struct_name_def Let_def
        trait_impl_ok_def compliance_errors_Nil split: ty.splits option.splits)
qed

theorem trait_impl_injection_witness:
  "\<exists>def'. structs (with_items (demo_items I64)) ''Point'' = Some def' \<and>
     map_of (sd_methods def') ''show'' = Some \<lparr>sig_params = [SelfType], sig_return = I64\<rparr>"
proof -
  let ?it = "demo_items I64 ! 2"
  let ?\<Gamma> = "fold register_item (demo_items I64) typeck_new"
  have it: "item_kind_of ?it = ItemImpl \<lparr>im_generics = [], im_trait_ref = Some (Struct ''Show''),
      im_self_ty = Struct ''Point'', im_items = [ImplFn ''show'' (demo_fn I64)]\<rparr>" (is "_ = ItemImpl ?imp")
    by (simp add: demo_items_def demo_item_def)
  have ok: "trait_impl_ok (traits ?\<Gamma>) ?imp (Struct ''Show'')"
    by (simp add: demo_items_eval trait_impl_ok_def)
  have "structs ?\<Gamma> ''Point'' = Some \<lparr>sd_name = ''Point'', sd_fields = [], sd_methods = [],
      sd_type_params = []\<rparr>"
    by (simp add: demo_items_eval)
  then have "\<exists>def'. structs (register_impl ?it ?\<Gamma>) ''Point'' = Some def' \<and>
      map_of (sd_methods def') ''show'' = Some \<lparr>sig_params = [SelfType], sig_return = I64\<rparr>"
    using trait_impl_injection [of ?it ?imp "Struct ''Show''" "''Point''" ?\<Gamma>] it ok
    by (auto simp: fn_sig_of_def demo_fn_def)
  moreover have "with_items (demo_items I64) = register_impl ?it ?\<Gamma>"
    by (simp add: demo_items_def with_items_def register_impl_def demo_item_def)
  ultimately show ?thesis by simp
qed

section \<open>Monomorphization\<close>

lemma type_mapping_dom:
  "length params = length args \<Longrightarrow> dom (type_mapping params args) = set params"
  by (simp add: type_mapping_def dom_map_of_conv_image_fst flip: rev_map set_map)

lemma type_mapping_ran: "ran (type_mapping params args) \<subseteq> set args"
  by (auto simp: type_mapping_def ran_def dest!: map_of_SomeD set_zip_rightD)


definition demo_generic :: typeck_ctx where
  "demo_generic = register_generic_struct typeck_new ''Wrapper'' [''T''] [(''v'', Generic ''T'')]"


text \<open>
  The cache lookup does not ask whether the cached struct is an instance: a struct the programmer
  declared under the mangled name is taken for the instance, whatever its fields and whether or
  not the template exists.
\<close>

theorem monomorphize_hits_user_struct:
  "snd (monomorphize_struct
     (register_struct typeck_new ''Wrapper_I64'' [(''other'', Bool)]) ''Wrapper'' [I64]) =
   Inr ''Wrapper_I64''"
  by (simp add: register_struct_def monomorphize_struct_def mangle_name_def typeck_new_def Let_def)

end
