(* ===== verification/Async_Analysis.thy ===== *)
theory Async_Analysis
  imports Hir
begin

text \<open>
  The yield analysis of the coroutine lowering (\<open>salt-front/src/hir/async_lower.rs\<close>): which
  statements contain a yield, which variables a statement uses, and which variables cross a
  yield and must be lifted into the state struct; and the rewrite of the lifted variables.
\<close>

section \<open>Finding yields\<close>

fun expr_contains_yield :: "expr \<Rightarrow> bool"
and contains_yield :: "stmt \<Rightarrow> bool" where
  "expr_contains_yield (Expr (EYield _) _) = True"
| "expr_contains_yield (Expr (EBlock (Block ss v _)) _) =
     ((\<exists>s \<in> set ss. contains_yield s) \<or>
      (case v of None \<Rightarrow> False | Some e \<Rightarrow> expr_contains_yield e))"
| "expr_contains_yield (Expr (EBinary _ a b) _) = (expr_contains_yield a \<or> expr_contains_yield b)"
| "expr_contains_yield (Expr (EUnary _ a) _) = expr_contains_yield a"
| "expr_contains_yield (Expr (ECall f args) _) =
     (expr_contains_yield f \<or> (\<exists>a \<in> set args. expr_contains_yield a))"
| "expr_contains_yield (Expr (EIf c (Block ss _ _) els) _) =
     (expr_contains_yield c \<or> (\<exists>s \<in> set ss. contains_yield s) \<or>
      (case els of None \<Rightarrow> False | Some e \<Rightarrow> expr_contains_yield e))"
| "expr_contains_yield _ = False"
| "contains_yield (SExpr e) = expr_contains_yield e"
| "contains_yield (SSemi e) = expr_contains_yield e"
| "contains_yield (SLocal _ _ init) =
     (case init of None \<Rightarrow> False | Some e \<Rightarrow> expr_contains_yield e)"
| "contains_yield (SWhile c (Block ss _ _)) =
     (expr_contains_yield c \<or> (\<exists>s \<in> set ss. contains_yield s))"
| "contains_yield (SFor _ _ it (Block ss _ _)) =
     (expr_contains_yield it \<or> (\<exists>s \<in> set ss. contains_yield s))"
| "contains_yield (SLoop (Block ss _ _)) = (\<exists>s \<in> set ss. contains_yield s)"
| "contains_yield (SReturn v) = (case v of None \<Rightarrow> False | Some e \<Rightarrow> expr_contains_yield e)"
| "contains_yield (SAssume e) = expr_contains_yield e"
| "contains_yield _ = False"

definition block_yields :: "block \<Rightarrow> bool" where
  "block_yields b = (\<exists>s \<in> set (block_stmts b). contains_yield s)"

text \<open>The test of the splitters: is this statement itself a yield?\<close>

definition is_yield_expr :: "expr \<Rightarrow> bool" where
  "is_yield_expr e = (case ekind e of EYield _ \<Rightarrow> True | _ \<Rightarrow> False)"

definition is_top_level_yield :: "stmt \<Rightarrow> bool" where
  "is_top_level_yield s =
     (case s of SSemi e \<Rightarrow> is_yield_expr e | SExpr e \<Rightarrow> is_yield_expr e | _ \<Rightarrow> False)"

lemma is_yield_expr_contains: "is_yield_expr e \<Longrightarrow> expr_contains_yield e"
  by (cases e) (auto simp: is_yield_expr_def split: expr_kind.splits)

lemma top_level_yield_contains: "is_top_level_yield s \<Longrightarrow> contains_yield s"
  by (cases s) (auto simp: is_top_level_yield_def is_yield_expr_contains)

section \<open>Used and bound variables\<close>

fun collect_pattern_vars :: "pattern \<Rightarrow> var_id set" where
  "collect_pattern_vars (PBind _ v _) = {v}"
| "collect_pattern_vars (PTuple ps) = (\<Union>p \<in> set ps. collect_pattern_vars p)"
| "collect_pattern_vars PWildcard = {}"

text \<open>
  Inside a branch or a block only the expression statements are searched, as in the code.
\<close>

fun collect_used_vars :: "expr \<Rightarrow> var_id list"
and collect_used_vars_inner :: "stmt \<Rightarrow> var_id list" where
  "collect_used_vars (Expr (EVar v) _) = [v]"
| "collect_used_vars (Expr (EBinary _ a b) _) = collect_used_vars a @ collect_used_vars b"
| "collect_used_vars (Expr (EUnary _ a) _) = collect_used_vars a"
| "collect_used_vars (Expr (ECall f args) _) =
     collect_used_vars f @ concat (map collect_used_vars args)"
| "collect_used_vars (Expr (EIf c (Block ss _ _) els) _) =
     collect_used_vars c @ concat (map collect_used_vars_inner ss) @
     (case els of None \<Rightarrow> [] | Some e \<Rightarrow> collect_used_vars e)"
| "collect_used_vars (Expr (EBlock (Block ss v _)) _) =
     concat (map collect_used_vars_inner ss) @
     (case v of None \<Rightarrow> [] | Some e \<Rightarrow> collect_used_vars e)"
| "collect_used_vars (Expr (EYield (Some e)) _) = collect_used_vars e"
| "collect_used_vars _ = []"
| "collect_used_vars_inner (SExpr e) = collect_used_vars e"
| "collect_used_vars_inner (SSemi e) = collect_used_vars e"
| "collect_used_vars_inner _ = []"

definition collect_used_vars_in_stmt :: "stmt \<Rightarrow> var_id list" where
  "collect_used_vars_in_stmt s =
     (case s of
        SExpr e \<Rightarrow> collect_used_vars e
      | SSemi e \<Rightarrow> collect_used_vars e
      | SLocal _ _ init \<Rightarrow> (case init of None \<Rightarrow> [] | Some e \<Rightarrow> collect_used_vars e)
      | SAssume e \<Rightarrow> collect_used_vars e
      | _ \<Rightarrow> [])"

section \<open>Variables that cross a yield\<close>

record crossing_state =
  cs_crossing :: "var_id set"
  cs_defined :: "var_id set"
  cs_seen :: bool

definition stmt_defines :: "stmt \<Rightarrow> var_id set" where
  "stmt_defines s = (case s of SLocal p _ _ \<Rightarrow> collect_pattern_vars p | _ \<Rightarrow> {})"

definition crossing_step :: "stmt \<Rightarrow> crossing_state \<Rightarrow> crossing_state" where
  "crossing_step s st =
     (let defined = (if cs_seen st then cs_defined st else cs_defined st \<union> stmt_defines s);
          seen = (cs_seen st \<or> contains_yield s);
          crossing = (if seen
            then cs_crossing st \<union> (set (collect_used_vars_in_stmt s) \<inter> defined)
            else cs_crossing st)
      in \<lparr>cs_crossing = crossing, cs_defined = defined, cs_seen = seen\<rparr>)"

definition find_crossing_vars :: "stmt list \<Rightarrow> var_id set" where
  "find_crossing_vars body =
     cs_crossing (fold crossing_step body \<lparr>cs_crossing = {}, cs_defined = {}, cs_seen = False\<rparr>)"

section \<open>Rewriting the lifted variables\<close>

definition state_ref :: "string \<Rightarrow> ty" where
  "state_ref state_struct_name = Reference (Struct state_struct_name) True"

definition make_ctx_field_expr :: "var_id \<Rightarrow> string \<Rightarrow> string \<Rightarrow> expr_kind" where
  "make_ctx_field_expr ctx_var_id fname state_struct_name =
     EField (Expr (EVar ctx_var_id) (state_ref state_struct_name)) fname"

text \<open>
  \<open>ctx\<close>, \<open>sn\<close> are the context variable and the name of the state struct;
  \<open>rw\<close> maps the lifted variables to fields. The constructs the code does not enter
  (\<open>while\<close> and \<open>loop\<close> as expressions, \<open>for\<close> binders) stay as they
  are.
\<close>

fun rewrite_expr :: "var_id \<Rightarrow> (var_id \<rightharpoonup> string) \<Rightarrow> string \<Rightarrow> expr \<Rightarrow> expr"
and rewrite_block :: "var_id \<Rightarrow> (var_id \<rightharpoonup> string) \<Rightarrow> string \<Rightarrow> block \<Rightarrow> block"
and rewrite_stmt :: "var_id \<Rightarrow> (var_id \<rightharpoonup> string) \<Rightarrow> string \<Rightarrow> stmt \<Rightarrow> stmt" where
  "rewrite_expr ctx rw sn (Expr k t) =
     (case k of
        EVar v \<Rightarrow>
          (case rw v of
             Some fname \<Rightarrow> Expr (make_ctx_field_expr ctx fname sn) t
           | None \<Rightarrow> Expr (EVar v) t)
      | EBinary op a b \<Rightarrow> Expr (EBinary op (rewrite_expr ctx rw sn a) (rewrite_expr ctx rw sn b)) t
      | EUnary op a \<Rightarrow> Expr (EUnary op (rewrite_expr ctx rw sn a)) t
      | ECall f args \<Rightarrow>
          Expr (ECall (rewrite_expr ctx rw sn f) (map (rewrite_expr ctx rw sn) args)) t
      | EIf c b els \<Rightarrow>
          Expr (EIf (rewrite_expr ctx rw sn c) (rewrite_block ctx rw sn b)
            (map_option (rewrite_expr ctx rw sn) els)) t
      | EBlock b \<Rightarrow> Expr (EBlock (rewrite_block ctx rw sn b)) t
      | EField a f \<Rightarrow> Expr (EField (rewrite_expr ctx rw sn a) f) t
      | EAssign a b \<Rightarrow> Expr (EAssign (rewrite_expr ctx rw sn a) (rewrite_expr ctx rw sn b)) t
      | EIndex a b \<Rightarrow> Expr (EIndex (rewrite_expr ctx rw sn a) (rewrite_expr ctx rw sn b)) t
      | ERef a \<Rightarrow> Expr (ERef (rewrite_expr ctx rw sn a)) t
      | ECast a u \<Rightarrow> Expr (ECast (rewrite_expr ctx rw sn a) u) t
      | EMethodCall r m args \<Rightarrow>
          Expr (EMethodCall (rewrite_expr ctx rw sn r) m (map (rewrite_expr ctx rw sn) args)) t
      | EStructLit n ts fs \<Rightarrow>
          Expr (EStructLit n ts (map (\<lambda>(f, a). (f, rewrite_expr ctx rw sn a)) fs)) t
      | EYield v \<Rightarrow> Expr (EYield (map_option (rewrite_expr ctx rw sn) v)) t
      | EReturn v \<Rightarrow> Expr (EReturn (map_option (rewrite_expr ctx rw sn) v)) t
      | ERequires a \<Rightarrow> Expr (ERequires (rewrite_expr ctx rw sn a)) t
      | EEnsures a \<Rightarrow> Expr (EEnsures (rewrite_expr ctx rw sn a)) t
      | other \<Rightarrow> Expr other t)"
| "rewrite_block ctx rw sn (Block ss v t) =
     Block (map (rewrite_stmt ctx rw sn) ss) (map_option (rewrite_expr ctx rw sn) v) t"
| "rewrite_stmt ctx rw sn s =
     (case s of
        SExpr e \<Rightarrow> SExpr (rewrite_expr ctx rw sn e)
      | SSemi e \<Rightarrow> SSemi (rewrite_expr ctx rw sn e)
      | SLocal p ann init \<Rightarrow> SLocal p ann (map_option (rewrite_expr ctx rw sn) init)
      | SWhile c b \<Rightarrow> SWhile (rewrite_expr ctx rw sn c) (rewrite_block ctx rw sn b)
      | SFor v n it b \<Rightarrow> SFor v n (rewrite_expr ctx rw sn it) (rewrite_block ctx rw sn b)
      | SLoop b \<Rightarrow> SLoop (rewrite_block ctx rw sn b)
      | SReturn (Some e) \<Rightarrow> SReturn (Some (rewrite_expr ctx rw sn e))
      | SAssume e \<Rightarrow> SAssume (rewrite_expr ctx rw sn e)
      | other \<Rightarrow> other)"

declare rewrite_stmt.simps [simp del]

definition rewrite_lifted_vars ::
  "stmt list \<Rightarrow> var_id \<Rightarrow> (var_id \<rightharpoonup> string) \<Rightarrow> string \<Rightarrow> stmt list" where
  "rewrite_lifted_vars ss ctx rw sn = map (rewrite_stmt ctx rw sn) ss"

section \<open>What the rewrite achieves\<close>

text \<open>All variables a tree mentions, in every position.\<close>

fun expr_vars :: "expr \<Rightarrow> var_id set"
and kind_vars :: "expr_kind \<Rightarrow> var_id set"
and block_vars :: "block \<Rightarrow> var_id set"
and stmt_vars :: "stmt \<Rightarrow> var_id set" where
  "expr_vars (Expr k _) = kind_vars k"
| "kind_vars (EVar v) = {v}"
| "kind_vars (ECall f args) = expr_vars f \<union> (\<Union>a \<in> set args. expr_vars a)"
| "kind_vars (EBinary _ a b) = expr_vars a \<union> expr_vars b"
| "kind_vars (EUnary _ a) = expr_vars a"
| "kind_vars (EBlock b) = block_vars b"
| "kind_vars (EIf c b els) =
     expr_vars c \<union> block_vars b \<union> (case els of None \<Rightarrow> {} | Some e \<Rightarrow> expr_vars e)"
| "kind_vars (EWhile c b) = expr_vars c \<union> block_vars b"
| "kind_vars (ELoop b) = block_vars b"
| "kind_vars (EReturn v) = (case v of None \<Rightarrow> {} | Some e \<Rightarrow> expr_vars e)"
| "kind_vars (EField a _) = expr_vars a"
| "kind_vars (ECast a _) = expr_vars a"
| "kind_vars (EStructLit _ _ fs) = (\<Union>f \<in> set fs. expr_vars (snd f))"
| "kind_vars (EAssign a b) = expr_vars a \<union> expr_vars b"
| "kind_vars (EIndex a b) = expr_vars a \<union> expr_vars b"
| "kind_vars (ERef a) = expr_vars a"
| "kind_vars (EMethodCall r _ args) = expr_vars r \<union> (\<Union>a \<in> set args. expr_vars a)"
| "kind_vars (ERequires a) = expr_vars a"
| "kind_vars (EEnsures a) = expr_vars a"
| "kind_vars (EYield v) = (case v of None \<Rightarrow> {} | Some e \<Rightarrow> expr_vars e)"
| "kind_vars _ = {}"
| "block_vars (Block ss v _) =
     (\<Union>s \<in> set ss. stmt_vars s) \<union> (case v of None \<Rightarrow> {} | Some e \<Rightarrow> expr_vars e)"
| "stmt_vars (SLocal _ _ init) = (case init of None \<Rightarrow> {} | Some e \<Rightarrow> expr_vars e)"
| "stmt_vars (SExpr e) = expr_vars e"
| "stmt_vars (SSemi e) = expr_vars e"
| "stmt_vars (SWhile c b) = expr_vars c \<union> block_vars b"
| "stmt_vars (SFor _ _ it b) = expr_vars it \<union> block_vars b"
| "stmt_vars (SLoop b) = block_vars b"
| "stmt_vars (SReturn v) = (case v of None \<Rightarrow> {} | Some e \<Rightarrow> expr_vars e)"
| "stmt_vars (SAssume e) = expr_vars e"
| "stmt_vars _ = {}"

text \<open>Trees without \<open>while\<close> and \<open>loop\<close> in expression position, which the rewrite skips.\<close>

fun loop_free :: "expr \<Rightarrow> bool"
and loop_free_block :: "block \<Rightarrow> bool"
and loop_free_stmt :: "stmt \<Rightarrow> bool" where
  "loop_free (Expr k _) =
     (case k of
        EWhile _ _ \<Rightarrow> False
      | ELoop _ \<Rightarrow> False
      | EBinary _ a b \<Rightarrow> loop_free a \<and> loop_free b
      | EUnary _ a \<Rightarrow> loop_free a
      | ECall f args \<Rightarrow> loop_free f \<and> (\<forall>a \<in> set args. loop_free a)
      | EIf c b els \<Rightarrow>
          loop_free c \<and> loop_free_block b \<and> (case els of None \<Rightarrow> True | Some e \<Rightarrow> loop_free e)
      | EBlock b \<Rightarrow> loop_free_block b
      | EField a _ \<Rightarrow> loop_free a
      | EAssign a b \<Rightarrow> loop_free a \<and> loop_free b
      | EIndex a b \<Rightarrow> loop_free a \<and> loop_free b
      | ERef a \<Rightarrow> loop_free a
      | ECast a _ \<Rightarrow> loop_free a
      | EMethodCall r _ args \<Rightarrow> loop_free r \<and> (\<forall>a \<in> set args. loop_free a)
      | EStructLit _ _ fs \<Rightarrow> (\<forall>f \<in> set fs. loop_free (snd f))
      | EYield v \<Rightarrow> (case v of None \<Rightarrow> True | Some e \<Rightarrow> loop_free e)
      | EReturn v \<Rightarrow> (case v of None \<Rightarrow> True | Some e \<Rightarrow> loop_free e)
      | ERequires a \<Rightarrow> loop_free a
      | EEnsures a \<Rightarrow> loop_free a
      | _ \<Rightarrow> True)"
| "loop_free_block (Block ss v _) =
     ((\<forall>s \<in> set ss. loop_free_stmt s) \<and> (case v of None \<Rightarrow> True | Some e \<Rightarrow> loop_free e))"
| "loop_free_stmt (SLocal _ _ init) = (case init of None \<Rightarrow> True | Some e \<Rightarrow> loop_free e)"
| "loop_free_stmt (SExpr e) = loop_free e"
| "loop_free_stmt (SSemi e) = loop_free e"
| "loop_free_stmt (SWhile c b) = (loop_free c \<and> loop_free_block b)"
| "loop_free_stmt (SFor _ _ it b) = (loop_free it \<and> loop_free_block b)"
| "loop_free_stmt (SLoop b) = loop_free_block b"
| "loop_free_stmt (SReturn v) = (case v of None \<Rightarrow> True | Some e \<Rightarrow> loop_free e)"
| "loop_free_stmt (SAssume e) = loop_free e"
| "loop_free_stmt _ = True"

lemma rewrite_vars:
  "loop_free e \<Longrightarrow> expr_vars (rewrite_expr ctx rw sn e) \<subseteq> insert ctx (expr_vars e - dom rw)"
  "loop_free_block b \<Longrightarrow>
     block_vars (rewrite_block ctx rw sn b) \<subseteq> insert ctx (block_vars b - dom rw)"
  "loop_free_stmt s \<Longrightarrow> stmt_vars (rewrite_stmt ctx rw sn s) \<subseteq> insert ctx (stmt_vars s - dom rw)"
proof (induction e and b and s rule: loop_free_loop_free_block_loop_free_stmt.induct)
  case (1 k t)
  then show ?case
    by (cases k) (auto simp: make_ctx_field_expr_def split: option.splits, (fastforce+)?)
qed (force simp: rewrite_stmt.simps split: option.splits)+

text \<open>The rewrite does not change where the yields are.\<close>

lemma rewrite_yields:
  "expr_contains_yield (rewrite_expr ctx rw sn e) = expr_contains_yield e"
  "contains_yield (rewrite_stmt ctx rw sn s) = contains_yield s"
proof (induction e and s rule: expr_contains_yield_contains_yield.induct)
qed (auto simp: rewrite_stmt.simps make_ctx_field_expr_def split: option.splits)

text \<open>
  After the rewrite no lifted variable is mentioned any more (the only variable that
  can appear newly is the context), and each statement contains a yield exactly when it did
  before, so the control-flow structure the splitters see is that of the source.
\<close>

theorem rewrite_eliminates_lifted:
  assumes "\<forall>s \<in> set ss. loop_free_stmt s" "ctx \<notin> dom rw"
  shows "(\<Union>s \<in> set (rewrite_lifted_vars ss ctx rw sn). stmt_vars s) \<inter> dom rw = {} \<and>
    map contains_yield (rewrite_lifted_vars ss ctx rw sn) = map contains_yield ss"
proof -
  have "stmt_vars (rewrite_stmt ctx rw sn s) \<inter> dom rw = {}" if "s \<in> set ss" for s
    using rewrite_vars(3) [of s ctx rw sn] assms that by blast
  then show ?thesis by (auto simp: rewrite_lifted_vars_def rewrite_yields)
qed

theorem rewrite_eliminates_lifted_witness:
  "(\<Union>s \<in> set (rewrite_lifted_vars
       [SExpr (Expr (ECall (Expr (EUnresolvedIdent ''f'') Unit) [Expr (EVar 7) I64]) Unit),
        SSemi (Expr (EYield None) Unit)] 100 [7 \<mapsto> ''__local_7''] ''S''). stmt_vars s) \<inter> {7} = {}"
  using rewrite_eliminates_lifted
    [of "[SExpr (Expr (ECall (Expr (EUnresolvedIdent ''f'') Unit) [Expr (EVar 7) I64]) Unit),
        SSemi (Expr (EYield None) Unit)]" 100 "[7 \<mapsto> ''__local_7'']" "''S''"]
  by simp

section \<open>What the crossing analysis computes\<close>

definition used_in :: "stmt list \<Rightarrow> var_id set" where
  "used_in ss = (\<Union>s \<in> set ss. set (collect_used_vars_in_stmt s))"

definition defined_in :: "stmt list \<Rightarrow> var_id set" where
  "defined_in ss = (\<Union>s \<in> set ss. stmt_defines s)"

lemma used_in_simps [simp]:
  "used_in [] = {}" "used_in (s # ss) = set (collect_used_vars_in_stmt s) \<union> used_in ss"
  by (auto simp: used_in_def)

lemma defined_in_simps [simp]:
  "defined_in [] = {}" "defined_in (s # ss) = stmt_defines s \<union> defined_in ss"
  by (auto simp: defined_in_def)

lemma crossing_after:
  "cs_crossing (fold crossing_step ss \<lparr>cs_crossing = C, cs_defined = D, cs_seen = True\<rparr>) =
     C \<union> (D \<inter> used_in ss)"
  by (induction ss arbitrary: C) (auto simp: crossing_step_def Let_def)

lemma crossing_before:
  "cs_crossing (fold crossing_step ss \<lparr>cs_crossing = {}, cs_defined = D, cs_seen = False\<rparr>) =
     (case dropWhile (\<lambda>s. \<not> contains_yield s) ss of
        [] \<Rightarrow> {}
      | y # rest \<Rightarrow>
          (D \<union> defined_in (takeWhile (\<lambda>s. \<not> contains_yield s) ss @ [y])) \<inter> used_in (y # rest))"
proof (induction ss arbitrary: D)
  case (Cons s ss)
  show ?case
  proof (cases "contains_yield s")
    case True
    then have "fold crossing_step (s # ss) \<lparr>cs_crossing = {}, cs_defined = D, cs_seen = False\<rparr> =
        fold crossing_step ss
          \<lparr>cs_crossing = set (collect_used_vars_in_stmt s) \<inter> (D \<union> stmt_defines s),
           cs_defined = D \<union> stmt_defines s, cs_seen = True\<rparr>"
      by (simp add: crossing_step_def Let_def)
    then show ?thesis using True by (auto simp: crossing_after)
  next
    case False
    then have "fold crossing_step (s # ss) \<lparr>cs_crossing = {}, cs_defined = D, cs_seen = False\<rparr> =
        fold crossing_step ss \<lparr>cs_crossing = {}, cs_defined = D \<union> stmt_defines s, cs_seen = False\<rparr>"
      by (simp add: crossing_step_def)
    then show ?thesis using False Cons
      by (cases "dropWhile (\<lambda>s. \<not> contains_yield s) ss")
        (simp_all add: Un_assoc del: dropWhile_eq_Nil_conv)
  qed
qed simp

text \<open>
  The crossing variables of a body are those bound by a \<open>let\<close> up to the first
  statement that contains a yield, and used in that statement or a later one.
\<close>

theorem find_crossing_vars_spec:
  "find_crossing_vars body =
     (case dropWhile (\<lambda>s. \<not> contains_yield s) body of
        [] \<Rightarrow> {}
      | y # rest \<Rightarrow>
          defined_in (takeWhile (\<lambda>s. \<not> contains_yield s) body @ [y]) \<inter> used_in (y # rest))"
  by (simp only: find_crossing_vars_def crossing_before Un_empty_left)

text \<open>
  So a variable bound between two yields and used after the second is not lifted, although it
  is live across the second; nor is one whose only use after the yield is in a \<open>return\<close> (or in a
  loop), which the collection of used variables does not enter.
\<close>

abbreviation (input) demo_yield :: stmt where
  "demo_yield \<equiv> SSemi (Expr (EYield None) Unit)"

abbreviation (input) demo_let :: "var_id \<Rightarrow> stmt" where
  "demo_let v \<equiv> SLocal (PBind ''y'' v False) None (Some (Expr (ELiteral (LitInt 1)) I64))"

theorem crossing_misses_second_yield:
  "find_crossing_vars [demo_yield, demo_let 1, demo_yield, SExpr (Expr (EVar 1) I64)] = {}"
  by (simp add: find_crossing_vars_spec stmt_defines_def)

theorem crossing_misses_return:
  "find_crossing_vars [demo_let 1, demo_yield, SReturn (Some (Expr (EVar 1) I64))] = {}"
  by (simp add: find_crossing_vars_spec collect_used_vars_in_stmt_def)

end
