(* ===== verification/Async_Cfg.thy ===== *)
theory Async_Cfg
  imports Async_Analysis "HOL-Library.Multiset"
begin

text \<open>
  The control-flow graph builder of the coroutine lowering (\<open>CfgBuilder\<close> in
  \<open>salt-front/src/hir/async_lower.rs\<close>). Block ids count up from 0 by one per block, far below
  the 64-bit range, and are natural numbers here. The builder is a record threaded through
  the lowering; the loop over the statements of a scope is the recursion of \<open>lower_loop\<close>, whose
  arguments are the loop's variables.
\<close>

section \<open>Blocks and the builder\<close>

datatype terminator =
    Goto nat
  | Branch expr nat nat
  | Yield nat
  | Return

record basic_block =
  bb_id :: nat
  bb_stmts :: "stmt list"
  bb_term :: terminator

record cfg_builder =
  cb_blocks :: "basic_block list"
  cb_next_id :: nat

definition cfg_new :: cfg_builder where
  "cfg_new = \<lparr>cb_blocks = [], cb_next_id = 0\<rparr>"

definition alloc_id :: "cfg_builder \<Rightarrow> nat \<times> cfg_builder" where
  "alloc_id b = (cb_next_id b, b\<lparr>cb_next_id := Suc (cb_next_id b)\<rparr>)"

definition push_block :: "nat \<Rightarrow> stmt list \<Rightarrow> terminator \<Rightarrow> cfg_builder \<Rightarrow> cfg_builder" where
  "push_block n ss t b =
     b\<lparr>cb_blocks := cb_blocks b @ [\<lparr>bb_id = n, bb_stmts = ss, bb_term = t\<rparr>]\<rparr>"

section \<open>What the lowering does with a statement\<close>

text \<open>
  The tests of the loop body, in their order: a yield ends the block; a \<open>while\<close>,
  \<open>loop\<close> or \<open>if\<close> with a yield inside is flattened; anything else is appended.
\<close>

datatype flow =
    Plain
  | YieldPoint
  | FlatWhile expr block
  | FlatLoop block
  | FlatIf expr block "expr option"

definition else_yields :: "expr option \<Rightarrow> bool" where
  "else_yields els =
     (case els of
        None \<Rightarrow> False
      | Some e \<Rightarrow> (case ekind e of EBlock b \<Rightarrow> block_yields b | _ \<Rightarrow> expr_contains_yield e))"

definition classify_expr :: "expr \<Rightarrow> flow" where
  "classify_expr e =
     (case ekind e of
        EYield _ \<Rightarrow> YieldPoint
      | EIf c b els \<Rightarrow> if block_yields b \<or> else_yields els then FlatIf c b els else Plain
      | _ \<Rightarrow> Plain)"

definition classify :: "stmt \<Rightarrow> flow" where
  "classify s =
     (case s of
        SWhile c b \<Rightarrow> if block_yields b then FlatWhile c b else Plain
      | SLoop b \<Rightarrow> if block_yields b then FlatLoop b else Plain
      | SExpr e \<Rightarrow> classify_expr e
      | SSemi e \<Rightarrow> classify_expr e
      | _ \<Rightarrow> Plain)"

definition negate :: "expr \<Rightarrow> expr" where
  "negate c = Expr (EUnary UnNot c) Bool"

text \<open>The statements of an \<open>else\<close>: those of its block, or the expression as one statement.\<close>

definition else_stmts :: "expr \<Rightarrow> stmt list" where
  "else_stmts e = (case ekind e of EBlock b \<Rightarrow> block_stmts b | _ \<Rightarrow> [SExpr e])"

definition final_terminator :: "nat option \<Rightarrow> terminator" where
  "final_terminator exit_target = (case exit_target of Some t \<Rightarrow> Goto t | None \<Rightarrow> Return)"

section \<open>Termination of the lowering\<close>

lemma size_block_stmts: "size_list size (block_stmts b) < size b"
  by (cases b) simp

lemma size_else_stmts: "size_list size (else_stmts e) \<le> Suc (Suc (size e))"
proof (cases e)
  case (Expr k t)
  then show ?thesis using size_block_stmts by (cases k) (auto simp: else_stmts_def less_imp_le le_SucI)
qed

lemma classify_exprD:
  "classify_expr e = YieldPoint \<Longrightarrow> is_yield_expr e"
  "classify_expr e = FlatIf c b els \<Longrightarrow>
     \<exists>t. e = Expr (EIf c b els) t \<and> (block_yields b \<or> else_yields els)"
  "classify_expr e \<noteq> FlatWhile c b" "classify_expr e \<noteq> FlatLoop b"
  by (cases e; auto simp: classify_expr_def is_yield_expr_def split: expr_kind.splits if_splits)+

lemma classify_YieldPoint: "classify s = YieldPoint \<Longrightarrow> is_top_level_yield s"
  by (cases s)
    (auto simp: classify_def is_top_level_yield_def split: if_splits dest: classify_exprD(1,2))

lemma classify_FlatWhile: "classify s = FlatWhile c b \<Longrightarrow> s = SWhile c b \<and> block_yields b"
  by (cases s) (auto simp: classify_def classify_exprD split: if_splits)

lemma classify_FlatLoop: "classify s = FlatLoop b \<Longrightarrow> s = SLoop b \<and> block_yields b"
  by (cases s) (auto simp: classify_def classify_exprD split: if_splits)

lemma classify_FlatIf:
  "classify s = FlatIf c b els \<Longrightarrow>
     (\<exists>t. s = SExpr (Expr (EIf c b els) t) \<or> s = SSemi (Expr (EIf c b els) t)) \<and>
     (block_yields b \<or> else_yields els)"
  by (cases s) (auto simp: classify_def split: if_splits dest: classify_exprD(1,2))

lemma classify_size:
  "classify s = FlatWhile c b \<Longrightarrow> size_list size (block_stmts b) < size s"
  "classify s = FlatLoop b \<Longrightarrow> size_list size (block_stmts b) < size s"
  "classify s = FlatIf c b els \<Longrightarrow> size_list size (block_stmts b) < size s"
  "classify s = FlatIf c b (Some el) \<Longrightarrow> size_list size (else_stmts el) < size s"
  using size_block_stmts [of b] size_else_stmts [of el]
  by (auto dest!: classify_FlatWhile classify_FlatLoop classify_FlatIf)

section \<open>The lowering\<close>

text \<open>
  \<open>cur\<close> is the current block id, \<open>acc\<close> its statements so far,
  \<open>ex\<close> the exit target; a scope entered with a condition to assume starts with that
  assumption in \<open>acc\<close>.
\<close>

function lower_loop ::
  "stmt list \<Rightarrow> nat \<Rightarrow> stmt list \<Rightarrow> nat option \<Rightarrow> cfg_builder \<Rightarrow> cfg_builder" where
  "lower_loop [] cur acc ex b = push_block cur acc (final_terminator ex) b"
| "lower_loop (s # ss) cur acc ex b =
     (case classify s of
        YieldPoint \<Rightarrow>
          (case alloc_id b of (resume, b) \<Rightarrow>
             lower_loop ss resume [] ex (push_block cur acc (Yield resume) b))
      | FlatWhile c body \<Rightarrow>
          (case alloc_id b of (cond_id, b) \<Rightarrow>
           case alloc_id (push_block cur acc (Goto cond_id) b) of (body_start, b) \<Rightarrow>
           case alloc_id b of (exit_id, b) \<Rightarrow>
             lower_loop ss exit_id [SAssume (negate c)] ex
               (lower_loop (block_stmts body) body_start [SAssume c] (Some cond_id)
                 (push_block cond_id [] (Branch c body_start exit_id) b)))
      | FlatLoop body \<Rightarrow>
          (case alloc_id b of (loop_start, b) \<Rightarrow>
           case alloc_id (lower_loop (block_stmts body) loop_start [] (Some loop_start)
                  (push_block cur acc (Goto loop_start) b)) of (exit_id, b) \<Rightarrow>
             lower_loop ss exit_id [] ex b)
      | FlatIf c then_b els \<Rightarrow>
          (case alloc_id b of (then_id, b) \<Rightarrow>
           case alloc_id b of (else_id, b) \<Rightarrow>
           case alloc_id b of (join_id, b) \<Rightarrow>
           let b = push_block cur acc (Branch c then_id else_id) b;
               b = lower_loop (block_stmts then_b) then_id [SAssume c] (Some join_id) b;
               b = (case els of
                      Some el \<Rightarrow>
                        lower_loop (else_stmts el) else_id [SAssume (negate c)] (Some join_id) b
                    | None \<Rightarrow> push_block else_id [SAssume (negate c)] (Goto join_id) b)
           in lower_loop ss join_id [] ex b)
      | Plain \<Rightarrow> lower_loop ss cur (acc @ [s]) ex b)"
  by pat_completeness auto
termination
  by (relation "measure (\<lambda>(ss, _). size_list size ss)") (auto dest: classify_size)

declare lower_loop.simps(2) [simp del]

definition lower_stmts ::
  "stmt list \<Rightarrow> nat \<Rightarrow> nat option \<Rightarrow> expr option \<Rightarrow> cfg_builder \<Rightarrow> cfg_builder" where
  "lower_stmts ss current_id exit_target assume_prefix b =
     lower_loop ss current_id (case assume_prefix of None \<Rightarrow> [] | Some e \<Rightarrow> [SAssume e])
       exit_target b"

definition build :: "cfg_builder \<Rightarrow> stmt list \<Rightarrow> basic_block list" where
  "build b ss =
     (case alloc_id b of (entry, b) \<Rightarrow>
        sort_key bb_id (cb_blocks (lower_stmts ss entry None None b)))"

definition build_cfg :: "stmt list \<Rightarrow> basic_block list" where
  "build_cfg ss = build cfg_new ss"

section \<open>Reasoning about the lowering\<close>

text \<open>The equations of the recursion with the ids the builder hands out made explicit.\<close>

definition bump :: "nat \<Rightarrow> cfg_builder \<Rightarrow> cfg_builder" where
  "bump k b = b\<lparr>cb_next_id := cb_next_id b + k\<rparr>"

lemma bump_simps [simp]:
  "cb_next_id (bump k b) = cb_next_id b + k" "cb_blocks (bump k b) = cb_blocks b"
  by (simp_all add: bump_def)

lemma push_block_simps [simp]:
  "cb_next_id (push_block n ss t b) = cb_next_id b"
  "cb_blocks (push_block n ss t b) = cb_blocks b @ [\<lparr>bb_id = n, bb_stmts = ss, bb_term = t\<rparr>]"
  by (simp_all add: push_block_def)

lemma lower_Plain:
  "classify s = Plain \<Longrightarrow> lower_loop (s # ss) cur acc ex b = lower_loop ss cur (acc @ [s]) ex b"
  by (simp add: lower_loop.simps(2))

lemma lower_Yield:
  "classify s = YieldPoint \<Longrightarrow> lower_loop (s # ss) cur acc ex b =
     lower_loop ss (cb_next_id b) [] ex (push_block cur acc (Yield (cb_next_id b)) (bump 1 b))"
  by (simp add: lower_loop.simps(2) alloc_id_def bump_def)

lemma lower_While:
  "classify s = FlatWhile c body \<Longrightarrow> n = cb_next_id b \<Longrightarrow> lower_loop (s # ss) cur acc ex b =
     lower_loop ss (n + 2) [SAssume (negate c)] ex
       (lower_loop (block_stmts body) (n + 1) [SAssume c] (Some n)
         (push_block n [] (Branch c (n + 1) (n + 2)) (push_block cur acc (Goto n) (bump 3 b))))"
  by (simp add: lower_loop.simps(2) alloc_id_def bump_def push_block_def eval_nat_numeral)

lemma lower_Loop:
  "classify s = FlatLoop body \<Longrightarrow> n = cb_next_id b \<Longrightarrow>
   b' = lower_loop (block_stmts body) n [] (Some n) (push_block cur acc (Goto n) (bump 1 b)) \<Longrightarrow>
   lower_loop (s # ss) cur acc ex b = lower_loop ss (cb_next_id b') [] ex (bump 1 b')"
  by (simp add: lower_loop.simps(2) alloc_id_def bump_def)

definition lower_else :: "expr \<Rightarrow> expr option \<Rightarrow> nat \<Rightarrow> nat \<Rightarrow> cfg_builder \<Rightarrow> cfg_builder" where
  "lower_else c els else_id join_id b =
     (case els of
        Some el \<Rightarrow> lower_loop (else_stmts el) else_id [SAssume (negate c)] (Some join_id) b
      | None \<Rightarrow> push_block else_id [SAssume (negate c)] (Goto join_id) b)"

lemma lower_If:
  "classify s = FlatIf c t els \<Longrightarrow> n = cb_next_id b \<Longrightarrow> lower_loop (s # ss) cur acc ex b =
     lower_loop ss (n + 2) [] ex (lower_else c els (n + 1) (n + 2)
       (lower_loop (block_stmts t) n [SAssume c] (Some (n + 2))
         (push_block cur acc (Branch c n (n + 1)) (bump 3 b))))"
  by (simp add: lower_loop.simps(2) alloc_id_def bump_def lower_else_def Let_def eval_nat_numeral
      split: option.split)

text \<open>Induction along the lowering: over the rest of the scope and over the nested scopes.\<close>

lemma lower_induct [case_names Nil Plain Yield While Loop If]:
  assumes "P []"
    and "\<And>s ss. classify s = Plain \<Longrightarrow> P ss \<Longrightarrow> P (s # ss)"
    and "\<And>s ss. classify s = YieldPoint \<Longrightarrow> P ss \<Longrightarrow> P (s # ss)"
    and "\<And>s ss c b. classify s = FlatWhile c b \<Longrightarrow> P (block_stmts b) \<Longrightarrow> P ss \<Longrightarrow> P (s # ss)"
    and "\<And>s ss b. classify s = FlatLoop b \<Longrightarrow> P (block_stmts b) \<Longrightarrow> P ss \<Longrightarrow> P (s # ss)"
    and "\<And>s ss c t els. classify s = FlatIf c t els \<Longrightarrow> P (block_stmts t) \<Longrightarrow>
      (\<And>el. els = Some el \<Longrightarrow> P (else_stmts el)) \<Longrightarrow> P ss \<Longrightarrow> P (s # ss)"
  shows "P ss"
proof (induction ss rule: measure_induct_rule [where f = "size_list size"])
  case (less ss)
  show ?case
  proof (cases ss)
    case (Cons s rest)
    have ih: "P xs" if "size_list size xs \<le> size s \<or> size_list size xs \<le> size_list size rest" for xs
      using less Cons that by auto
    have rest: "P rest" by (rule ih) simp
    have nested: "P xs" if "size_list size xs < size s" for xs
      by (rule ih) (use that in simp)
    show ?thesis
      unfolding Cons
      using assms(2,3) [of s rest] assms(4) [of s _ _ rest] assms(5) [of s _ rest]
        assms(6) [of s _ _ _ rest] rest nested classify_size [of s]
      by (cases "classify s") blast+
  qed (simp add: assms(1))
qed

section \<open>The shape of the graph\<close>

fun targets :: "terminator \<Rightarrow> nat set" where
  "targets (Goto t) = {t}"
| "targets (Branch _ t f) = {t, f}"
| "targets (Yield r) = {r}"
| "targets Return = {}"

text \<open>
  What a stretch of lowering adds to the builder: new blocks whose ids, together with the ids
  \<open>P\<close> still to be filled, are the ids \<open>I\<close> it was to fill and the ids it
  allocated; and jumps only to allocated ids and to \<open>X\<close>.
\<close>

definition grown ::
  "nat multiset \<Rightarrow> nat multiset \<Rightarrow> nat set \<Rightarrow> cfg_builder \<Rightarrow> cfg_builder \<Rightarrow> bool" where
  "grown I P X b b' =
     (\<exists>new. cb_blocks b' = cb_blocks b @ new \<and> cb_next_id b \<le> cb_next_id b' \<and>
        mset (map bb_id new) + P = I + mset [cb_next_id b ..< cb_next_id b'] \<and>
        (\<forall>k \<in> set new. targets (bb_term k) \<subseteq> {cb_next_id b ..< cb_next_id b'} \<union> X))"

lemma mset_upt_split:
  "a \<le> b \<Longrightarrow> b \<le> c \<Longrightarrow> mset [a..<c] = mset [a..<b] + mset [b..<c]"
  by (metis mset_append upt_add_eq_append le_Suc_ex)

lemma grown_push: "grown {#n#} {#} (targets T) b (push_block n ss T b)"
  by (simp add: grown_def)

lemma grown_bump: "grown {#} (mset [cb_next_id b ..< cb_next_id b + k]) {} b (bump k b)"
  by (simp add: grown_def)

lemma grown_trans:
  assumes "grown I P X b b1" "grown J Q Y b1 b2"
  shows "grown (I + J) (P + Q) (X \<union> Y) b b2"
proof -
  obtain new1 where 1: "cb_blocks b1 = cb_blocks b @ new1" "cb_next_id b \<le> cb_next_id b1"
      "mset (map bb_id new1) + P = I + mset [cb_next_id b ..< cb_next_id b1]"
      "\<forall>k \<in> set new1. targets (bb_term k) \<subseteq> {cb_next_id b ..< cb_next_id b1} \<union> X"
    using assms(1) unfolding grown_def by blast
  obtain new2 where 2: "cb_blocks b2 = cb_blocks b1 @ new2" "cb_next_id b1 \<le> cb_next_id b2"
      "mset (map bb_id new2) + Q = J + mset [cb_next_id b1 ..< cb_next_id b2]"
      "\<forall>k \<in> set new2. targets (bb_term k) \<subseteq> {cb_next_id b1 ..< cb_next_id b2} \<union> Y"
    using assms(2) unfolding grown_def by blast
  have "mset (map bb_id (new1 @ new2)) + (P + Q) =
      (mset (map bb_id new1) + P) + (mset (map bb_id new2) + Q)" by simp
  also have "\<dots> = I + J + mset [cb_next_id b ..< cb_next_id b2]"
    unfolding 1(3) 2(3) using mset_upt_split [OF 1(2) 2(2)] by simp
  finally show ?thesis
    unfolding grown_def
    by (intro exI [of _ "new1 @ new2"] conjI) (use 1 2 in \<open>fastforce+\<close>)
qed

lemma grown_close:
  assumes "grown J Q X b b'" "J = I + K" "Q = P + K" "X \<subseteq> Y \<union> {cb_next_id b ..< cb_next_id b'}"
  shows "grown I P Y b b'"
proof -
  obtain new where "cb_blocks b' = cb_blocks b @ new" "cb_next_id b \<le> cb_next_id b'"
      "mset (map bb_id new) + Q = J + mset [cb_next_id b ..< cb_next_id b']"
      "\<forall>k \<in> set new. targets (bb_term k) \<subseteq> {cb_next_id b ..< cb_next_id b'} \<union> X"
    using assms(1) unfolding grown_def by blast
  then show ?thesis
    unfolding grown_def by (intro exI [of _ new] conjI) (use assms in \<open>auto simp: ac_simps\<close>)
qed

lemma grown_next: "grown I P X b b' \<Longrightarrow> cb_next_id b \<le> cb_next_id b'"
  by (auto simp: grown_def)

lemma lower_grown: "grown {#cur#} {#} (set_option ex) b (lower_loop ss cur acc ex b)"
proof (induction ss arbitrary: cur acc ex b rule: lower_induct)
  case Nil
  then show ?case using grown_push [of cur "final_terminator ex" b acc]
    by (cases ex) (auto simp: final_terminator_def)
next
  case (Plain s ss)
  then show ?case by (simp add: lower_Plain)
next
  case (Yield s ss)
  let ?n = "cb_next_id b"
  let ?b1 = "push_block cur acc (Yield ?n) (bump 1 b)"
  have g: "grown ({#} + {#cur#} + {#?n#}) (mset [?n..<?n + 1] + {#} + {#})
      ({} \<union> targets (Yield ?n) \<union> set_option ex) b (lower_loop ss ?n [] ex ?b1)"
    by (rule grown_trans [OF grown_trans [OF grown_bump grown_push] Yield(2)])
  show ?case
    unfolding lower_Yield [OF Yield(1)]
    by (rule grown_close [OF g, where K = "{#?n#}"]) (use grown_next [OF Yield(2), of ?b1 ?n "[]" ex] in auto)
next
  case (While s ss c body)
  let ?n = "cb_next_id b"
  let ?b1 = "push_block ?n [] (Branch c (?n + 1) (?n + 2)) (push_block cur acc (Goto ?n) (bump 3 b))"
  let ?b2 = "lower_loop (block_stmts body) (?n + 1) [SAssume c] (Some ?n) ?b1"
  have g: "grown ({#} + {#cur#} + {#?n#} + {#?n + 1#} + {#?n + 2#})
      (mset [?n..<?n + 3] + {#} + {#} + {#} + {#})
      ({} \<union> targets (Goto ?n) \<union> targets (Branch c (?n + 1) (?n + 2)) \<union> set_option (Some ?n) \<union>
        set_option ex) b (lower_loop ss (?n + 2) [SAssume (negate c)] ex ?b2)"
    by (rule grown_trans [OF grown_trans [OF grown_trans [OF grown_trans [OF grown_bump grown_push]
      grown_push] While(2)] While(3)])
  have "?n + 3 \<le> cb_next_id (lower_loop ss (?n + 2) [SAssume (negate c)] ex ?b2)"
    using grown_next [OF While(2), of ?b1 "?n + 1" "[SAssume c]" "Some ?n"]
      grown_next [OF While(3), of ?b2 "?n + 2" "[SAssume (negate c)]" ex] by simp
  then show ?case
    unfolding lower_While [OF While(1) refl]
    by (intro grown_close [OF g, where K = "{#?n, ?n + 1, ?n + 2#}"])
      (auto simp: eval_nat_numeral)
next
  case (Loop s ss body)
  let ?n = "cb_next_id b"
  let ?b1 = "push_block cur acc (Goto ?n) (bump 1 b)"
  define b2 where "b2 = lower_loop (block_stmts body) ?n [] (Some ?n) ?b1"
  have 2: "grown {#?n#} {#} (set_option (Some ?n)) ?b1 b2" unfolding b2_def by (rule Loop(2))
  let ?m = "cb_next_id b2"
  have g: "grown ({#} + {#cur#} + {#?n#} + {#} + {#?m#})
      (mset [?n..<?n + 1] + {#} + {#} + mset [?m..<?m + 1] + {#})
      ({} \<union> targets (Goto ?n) \<union> set_option (Some ?n) \<union> {} \<union> set_option ex) b
      (lower_loop ss ?m [] ex (bump 1 b2))"
    by (rule grown_trans [OF grown_trans [OF grown_trans [OF grown_trans [OF grown_bump grown_push]
      2] grown_bump] Loop(3)])
  have "?n + 1 \<le> cb_next_id (lower_loop ss ?m [] ex (bump 1 b2))"
    using grown_next [OF 2] grown_next [OF Loop(3), of "bump 1 b2" ?m "[]" ex] by simp
  then show ?case
    unfolding lower_Loop [OF Loop(1) refl b2_def]
    by (intro grown_close [OF g, where K = "{#?n, ?m#}"]) auto
next
  case (If s ss c t els)
  let ?n = "cb_next_id b"
  let ?b1 = "push_block cur acc (Branch c ?n (?n + 1)) (bump 3 b)"
  let ?b2 = "lower_loop (block_stmts t) ?n [SAssume c] (Some (?n + 2)) ?b1"
  let ?b3 = "lower_else c els (?n + 1) (?n + 2) ?b2"
  have else_g: "grown {#?n + 1#} {#} {?n + 2} ?b2 ?b3"
    using If(3) [of _ "?n + 1" "Some (?n + 2)" ?b2]
      grown_push [of "?n + 1" "Goto (?n + 2)" ?b2 "[SAssume (negate c)]"]
    by (cases els) (simp_all add: lower_else_def)
  have g: "grown ({#} + {#cur#} + {#?n#} + {#?n + 1#} + {#?n + 2#})
      (mset [?n..<?n + 3] + {#} + {#} + {#} + {#})
      ({} \<union> targets (Branch c ?n (?n + 1)) \<union> set_option (Some (?n + 2)) \<union> {?n + 2} \<union>
        set_option ex) b (lower_loop ss (?n + 2) [] ex ?b3)"
    by (rule grown_trans [OF grown_trans [OF grown_trans [OF grown_trans [OF grown_bump grown_push]
      If(2)] else_g] If(4)])
  have "?n + 3 \<le> cb_next_id (lower_loop ss (?n + 2) [] ex ?b3)"
    using grown_next [OF If(2), of ?b1 ?n "[SAssume c]" "Some (?n + 2)"] grown_next [OF else_g]
      grown_next [OF If(4), of ?b3 "?n + 2" "[]" ex]
    by simp
  then show ?case
    unfolding lower_If [OF If(1) refl]
    by (intro grown_close [OF g, where K = "{#?n, ?n + 1, ?n + 2#}"])
      (auto simp: eval_nat_numeral)
qed

lemma sort_upt:
  assumes "mset (map f xs) = mset [0..<n]"
  shows "map f (sort_key f xs) = [0..<n]"
proof -
  have "mset (map f (sort_key f xs)) = mset [0..<n]" using assms by simp
  then have "sort [0..<n] = map f (sort_key f xs)"
    by (intro properties_for_sort) simp_all
  then show ?thesis by simp
qed

lemma build_cfg_blocks:
  "\<exists>bs n. build_cfg ss = sort_key bb_id bs \<and> mset (map bb_id bs) = mset [0..<n] \<and>
     (\<forall>k \<in> set bs. targets (bb_term k) \<subseteq> {0..<n}) \<and>
     bs = cb_blocks (lower_loop ss 0 [] None (bump 1 cfg_new))"
proof -
  let ?b = "lower_loop ss 0 [] None (bump 1 cfg_new)"
  have g: "grown {#0#} {#} {} (bump 1 cfg_new) ?b" using lower_grown [of 0 None] by simp
  have "1 \<le> cb_next_id ?b" using grown_next [OF g] by (simp add: cfg_new_def)
  then have "mset (map bb_id (cb_blocks ?b)) = mset [0..<cb_next_id ?b] \<and>
      (\<forall>k \<in> set (cb_blocks ?b). targets (bb_term k) \<subseteq> {0..<cb_next_id ?b})"
    using g by (fastforce simp: grown_def cfg_new_def upt_conv_Cons)
  moreover have "build_cfg ss = sort_key bb_id (cb_blocks ?b)"
    by (simp add: build_cfg_def build_def alloc_id_def lower_stmts_def bump_def cfg_new_def)
  ultimately show ?thesis by blast
qed

text \<open>
  Property C27: the graph of every body is well formed. The ids of its blocks, in the order of
  the list, are 0, 1, 2, ... without gap or repetition, so the id of a block is its index and
  block 0 is the entry; and every jump, branch and resume state is the id of a block.
\<close>

theorem build_cfg_wellformed:
  "map bb_id (build_cfg ss) = [0..<length (build_cfg ss)] \<and>
   0 < length (build_cfg ss) \<and>
   (\<Union>k \<in> set (build_cfg ss). targets (bb_term k)) \<subseteq> {0..<length (build_cfg ss)}"
proof -
  obtain bs n where b: "build_cfg ss = sort_key bb_id bs" "mset (map bb_id bs) = mset [0..<n]"
      "\<forall>k \<in> set bs. targets (bb_term k) \<subseteq> {0..<n}"
      "bs = cb_blocks (lower_loop ss 0 [] None (bump 1 cfg_new))"
    using build_cfg_blocks by blast
  have ids: "map bb_id (build_cfg ss) = [0..<n]" unfolding b(1) by (rule sort_upt [OF b(2)])
  then have len: "length (build_cfg ss) = n" by (metis length_map length_upt diff_zero)
  have "bs \<noteq> []" using lower_grown [of 0 None "bump 1 cfg_new" ss "[]"] b(4)
    by (auto simp: grown_def)
  then have "0 < n" using b(1) len by auto
  with ids len b(1,3) show ?thesis by auto
qed

section \<open>Which statements end up in the blocks\<close>

text \<open>
  Scopes whose yields all sit where the lowering finds them: as statements, possibly nested in
  the bodies of \<open>while\<close>, \<open>loop\<close> and \<open>if\<close>.
\<close>

function scope_ok :: "stmt list \<Rightarrow> bool" where
  "scope_ok [] = True"
| "scope_ok (s # ss) =
     ((case classify s of
         Plain \<Rightarrow> \<not> contains_yield s
       | YieldPoint \<Rightarrow> True
       | FlatWhile c b \<Rightarrow> \<not> expr_contains_yield c \<and> scope_ok (block_stmts b)
       | FlatLoop b \<Rightarrow> scope_ok (block_stmts b)
       | FlatIf c t els \<Rightarrow>
           \<not> expr_contains_yield c \<and> scope_ok (block_stmts t) \<and>
           (case els of None \<Rightarrow> True | Some el \<Rightarrow> scope_ok (else_stmts el))) \<and>
      scope_ok ss)"
  by pat_completeness auto
termination
  by (relation "measure (size_list size)") (auto dest: classify_size)

declare scope_ok.simps(2) [simp del]

function yield_points :: "stmt list \<Rightarrow> nat" where
  "yield_points [] = 0"
| "yield_points (s # ss) =
     (case classify s of
        Plain \<Rightarrow> 0
      | YieldPoint \<Rightarrow> 1
      | FlatWhile c b \<Rightarrow> yield_points (block_stmts b)
      | FlatLoop b \<Rightarrow> yield_points (block_stmts b)
      | FlatIf c t els \<Rightarrow>
          yield_points (block_stmts t) +
          (case els of None \<Rightarrow> 0 | Some el \<Rightarrow> yield_points (else_stmts el))) + yield_points ss"
  by pat_completeness auto
termination
  by (relation "measure (size_list size)") (auto dest: classify_size)

declare yield_points.simps(2) [simp del]

definition suspends :: "basic_block \<Rightarrow> bool" where
  "suspends k = (case bb_term k of Yield _ \<Rightarrow> True | _ \<Rightarrow> False)"

definition pure_block :: "basic_block \<Rightarrow> bool" where
  "pure_block k = (\<forall>s \<in> set (bb_stmts k). \<not> contains_yield s)"

lemma pure_block_simp [simp]:
  "pure_block \<lparr>bb_id = n, bb_stmts = ss, bb_term = t\<rparr> = (\<forall>s \<in> set ss. \<not> contains_yield s)"
  by (simp add: pure_block_def)

lemma suspends_simp [simp]:
  "suspends \<lparr>bb_id = n, bb_stmts = ss, bb_term = t\<rparr> = (case t of Yield _ \<Rightarrow> True | _ \<Rightarrow> False)"
  by (simp add: suspends_def)

lemma lower_pure:
  "scope_ok ss \<Longrightarrow> \<forall>s \<in> set acc. \<not> contains_yield s \<Longrightarrow> list_all pure_block (cb_blocks b) \<Longrightarrow>
     list_all pure_block (cb_blocks (lower_loop ss cur acc ex b))"
proof (induction ss arbitrary: cur acc ex b rule: lower_induct)
  case (If s ss c t els)
  then show ?case
    by (cases els) (auto simp: lower_If lower_else_def scope_ok.simps(2) negate_def)
qed (auto simp: lower_Plain lower_Yield lower_While lower_Loop scope_ok.simps(2) negate_def)

lemma lower_suspends:
  "length (filter suspends (cb_blocks (lower_loop ss cur acc ex b))) =
     length (filter suspends (cb_blocks b)) + yield_points ss"
proof (induction ss arbitrary: cur acc ex b rule: lower_induct)
  case Nil
  then show ?case by (simp add: final_terminator_def split: option.split)
next
  case (If s ss c t els)
  then show ?case by (cases els) (auto simp: lower_If lower_else_def yield_points.simps(2))
qed (auto simp: lower_Plain lower_Yield lower_While lower_Loop yield_points.simps(2))

text \<open>
  The graph suspends exactly where the source yields. It has one block with a
  \<open>Yield\<close> terminator per yield statement of the body (at any depth of \<open>while\<close>,
  \<open>loop\<close>, \<open>if\<close>), and when all yields of the body are such statements, no yield
  is left inside a block.
\<close>

theorem build_cfg_yields:
  assumes "scope_ok ss"
  shows "length (filter suspends (build_cfg ss)) = yield_points ss \<and>
    list_all pure_block (build_cfg ss)"
proof -
  obtain bs where b: "build_cfg ss = sort_key bb_id bs"
      "bs = cb_blocks (lower_loop ss 0 [] None (bump 1 cfg_new))"
    using build_cfg_blocks by blast
  have "length (filter suspends bs) = yield_points ss"
    unfolding b(2) lower_suspends by (simp add: cfg_new_def)
  moreover have "list_all pure_block bs"
    unfolding b(2) by (rule lower_pure [OF assms]) (simp_all add: cfg_new_def)
  moreover have "length (filter suspends (sort_key bb_id bs)) = length (filter suspends bs)"
    by (metis filter_sort length_sort)
  ultimately show ?thesis by (simp add: b(1) list_all_iff)
qed

text \<open>\<open>loop { if c { yield; } else { f(); } } \<close> as a witness.\<close>

definition demo_loop :: "stmt list" where
  "demo_loop =
     [SLoop (Block
        [SExpr (Expr (EIf (Expr (EVar 0) Bool)
           (Block [SSemi (Expr (EYield None) Unit)] None Unit)
           (Some (Expr (EBlock (Block [SSemi (Expr (EVar 1) Unit)] None Unit)) Unit))) Unit)]
        None Unit)]"

lemmas classify_eval = classify_def classify_expr_def block_yields_def else_yields_def else_stmts_def

theorem build_cfg_yields_witness:
  "length (filter suspends (build_cfg demo_loop)) = 1"
proof -
  have "scope_ok demo_loop"
    by (simp add: demo_loop_def scope_ok.simps(2) classify_eval)
  moreover have "yield_points demo_loop = 1"
    by (simp add: demo_loop_def yield_points.simps(2) classify_eval)
  ultimately show ?thesis using build_cfg_yields by metis
qed

lemma else_yieldsD: "else_yields els \<Longrightarrow> \<exists>e. els = Some e \<and> expr_contains_yield e"
proof (cases els)
  case (Some e)
  obtain k t where e: "e = Expr k t" by (cases e)
  assume "else_yields els"
  then show ?thesis using Some e
    by (cases k; simp add: else_yields_def block_yields_def; rename_tac b; case_tac b; auto)
qed (simp add: else_yields_def)

text \<open>
  a body without yields stays one block: nothing is split that need not be.
\<close>

theorem build_cfg_yield_free:
  assumes "\<forall>s \<in> set ss. \<not> contains_yield s"
  shows "build_cfg ss = [\<lparr>bb_id = 0, bb_stmts = ss, bb_term = Return\<rparr>]"
proof -
  have plain: "classify s = Plain" if "\<not> contains_yield s" for s
  proof (cases "classify s")
    case YieldPoint
    then show ?thesis using that classify_YieldPoint top_level_yield_contains by blast
  next
    case (FlatWhile c b)
    then show ?thesis using that by (cases b) (auto dest!: classify_FlatWhile simp: block_yields_def)
  next
    case (FlatLoop b)
    then show ?thesis using that by (cases b) (auto dest!: classify_FlatLoop simp: block_yields_def)
  next
    case (FlatIf c b els)
    then show ?thesis
      using that by (cases b) (auto dest!: classify_FlatIf else_yieldsD simp: block_yields_def)
  qed simp
  have "lower_loop xs cur acc ex b = push_block cur (acc @ xs) (final_terminator ex) b"
    if "\<forall>s \<in> set xs. \<not> contains_yield s" for xs cur acc ex b
    using that by (induction xs arbitrary: acc) (simp_all add: lower_Plain plain)
  then show ?thesis
    using assms by (simp add: build_cfg_def build_def alloc_id_def lower_stmts_def cfg_new_def
        push_block_def final_terminator_def)
qed

theorem build_cfg_yield_free_witness:
  "build_cfg [SBreak, SSemi (Expr (EVar 3) I64)] =
     [\<lparr>bb_id = 0, bb_stmts = [SBreak, SSemi (Expr (EVar 3) I64)], bb_term = Return\<rparr>]"
  by (rule build_cfg_yield_free) simp

text \<open>
  A \<open>for\<close> with a yield in its body is none of the flattened forms: it stays, with its yield,
  inside a block, and the graph has no suspension point.
\<close>

theorem for_yield_not_flattened:
  "build_cfg [SFor 0 ''i'' it (Block [SSemi (Expr (EYield None) Unit)] None Unit)] =
     [\<lparr>bb_id = 0, bb_stmts = [SFor 0 ''i'' it (Block [SSemi (Expr (EYield None) Unit)] None Unit)],
       bb_term = Return\<rparr>]"
  by (simp add: build_cfg_def build_def alloc_id_def lower_stmts_def cfg_new_def lower_Plain
      classify_def push_block_def final_terminator_def)

end
