(* ===== verification/Async_Step.thy ===== *)
theory Async_Step
  imports Async_Cfg
begin

text \<open>
  Emission of the coroutine state machine (\<open>salt-front/src/hir/async_lower.rs\<close>): the state
  struct, the split of a flat body at its yields, the step function from segments and from the
  control-flow graph, and the two drivers \<open>lower_async_fn\<close> and \<open>lower_async_fn_cfg\<close>.
\<close>

section \<open>The state struct\<close>

record var_info =
  vi_var_id :: var_id
  vi_name :: string
  vi_ty :: ty

definition local_field :: "var_id \<Rightarrow> string" where
  "local_field v = ''__local_'' @ show_nat (unat v)"

definition state_struct_name :: "string \<Rightarrow> string" where
  "state_struct_name func_name = ''__AsyncState_'' @ func_name"

definition private_field :: "string \<Rightarrow> ty \<Rightarrow> field" where
  "private_field n t = \<lparr>field_name = n, field_ty = t, field_vis = Private\<rparr>"

definition private_item :: "string \<Rightarrow> item_kind \<Rightarrow> item" where
  "private_item n k = \<lparr>item_id = 0, item_name = n, item_vis = Private, item_kind_of = k\<rparr>"

definition generate_state_struct :: "string \<Rightarrow> param list \<Rightarrow> var_info list \<Rightarrow> item" where
  "generate_state_struct func_name params crossing_vars =
     private_item (state_struct_name func_name) (ItemStruct
       \<lparr>st_fields =
          [private_field ''__state'' I64] @
          map (\<lambda>p. private_field (param_name p) (param_ty p)) params @
          map (\<lambda>vi. private_field (local_field (vi_var_id vi)) (vi_ty vi)) crossing_vars,
        st_generics = [], st_invariants = []\<rparr>)"

section \<open>Splitting a flat body\<close>

definition split_step :: "stmt \<Rightarrow> stmt list list \<Rightarrow> stmt list list" where
  "split_step s segments =
     (if is_top_level_yield s then segments @ [[]]
      else butlast segments @ [last segments @ [s]])"

definition split_at_yields :: "stmt list \<Rightarrow> stmt list list" where
  "split_at_yields ss = fold split_step ss [[]]"

section \<open>Emitted code\<close>

definition ctx_state :: "var_id \<Rightarrow> string \<Rightarrow> expr" where
  "ctx_state ctx sn = Expr (EField (Expr (EVar ctx) (state_ref sn)) ''__state'') I64"

definition int_lit :: "i64 \<Rightarrow> expr" where
  "int_lit n = Expr (ELiteral (LitInt n)) I64"

definition make_state_assign :: "var_id \<Rightarrow> i64 \<Rightarrow> string \<Rightarrow> stmt" where
  "make_state_assign ctx n sn = SSemi (Expr (EAssign (ctx_state ctx sn) (int_lit n)) Unit)"

definition return_poll :: "string \<Rightarrow> (string \<times> expr) list \<Rightarrow> ty \<Rightarrow> stmt" where
  "return_poll variant fs return_type =
     SReturn (Some (Expr (EStructLit (''Poll::'' @ variant) [] fs) (Concrete ''Poll'' [return_type])))"

text \<open>\<open>if ctx.__state == n { branch_stmts }\<close>\<close>

definition dispatch_arm :: "var_id \<Rightarrow> string \<Rightarrow> nat \<Rightarrow> stmt list \<Rightarrow> stmt" where
  "dispatch_arm ctx sn n branch_stmts =
     SExpr (Expr (EIf
       (Expr (EBinary BinEq (ctx_state ctx sn) (int_lit (of_nat n))) Bool)
       (Block branch_stmts None Unit) None) Unit)"

definition step_item :: "string \<Rightarrow> string \<Rightarrow> ty \<Rightarrow> stmt list \<Rightarrow> item" where
  "step_item func_name sn return_type body_stmts =
     private_item (''__step_'' @ func_name) (ItemFn
       \<lparr>fn_inputs = [\<lparr>param_name = ''ctx'', param_ty = state_ref sn\<rparr>],
        fn_output = Concrete ''Poll'' [return_type],
        fn_body = Some (Block body_stmts None Unit),
        fn_generics = [], fn_is_async = False\<rparr>)"

text \<open>The arm of segment \<open>i\<close> of \<open>n\<close>: the last one finishes, the others suspend.\<close>

definition segment_arm :: "var_id \<Rightarrow> string \<Rightarrow> ty \<Rightarrow> nat \<Rightarrow> nat \<times> stmt list \<Rightarrow> stmt" where
  "segment_arm ctx sn return_type n seg =
     (case seg of (i, segment) \<Rightarrow>
        let is_final = (Suc i = n);
            next_state = (if is_final then - 1 else of_nat (i + 1));
            poll_variant = (if is_final then ''Ready'' else ''Pending'')
        in dispatch_arm ctx sn i
             (segment @ [make_state_assign ctx next_state sn, return_poll poll_variant [] return_type]))"

definition generate_step_fn ::
  "string \<Rightarrow> string \<Rightarrow> stmt list list \<Rightarrow> ty \<Rightarrow> var_id \<Rightarrow> item" where
  "generate_step_fn func_name sn segments return_type ctx =
     step_item func_name sn return_type
       (map (segment_arm ctx sn return_type (length segments)) (List.enumerate 0 segments))"

text \<open>\<open>extract_return_expr\<close>: the last \<open>return e\<close> of the statements is taken out.\<close>

definition is_return_value :: "stmt \<Rightarrow> bool" where
  "is_return_value s = (case s of SReturn (Some _) \<Rightarrow> True | _ \<Rightarrow> False)"

fun extract_return_rev :: "stmt list \<Rightarrow> expr option \<times> stmt list" where
  "extract_return_rev [] = (None, [])"
| "extract_return_rev (s # ss) =
     (case s of
        SReturn (Some e) \<Rightarrow> (Some e, ss)
      | _ \<Rightarrow> (case extract_return_rev ss of (r, rest) \<Rightarrow> (r, s # rest)))"

definition extract_return_expr :: "stmt list \<Rightarrow> expr option \<times> stmt list" where
  "extract_return_expr ss =
     (case extract_return_rev (rev ss) of (r, rest) \<Rightarrow> (r, rev rest))"

text \<open>A block of the graph with the code of its terminator.\<close>

definition emit_block :: "var_id \<Rightarrow> string \<Rightarrow> ty \<Rightarrow> basic_block \<Rightarrow> stmt list" where
  "emit_block ctx sn return_type k =
     (case bb_term k of
        Goto t \<Rightarrow> bb_stmts k @ [make_state_assign ctx (of_nat t) sn, SContinue]
      | Branch c t f \<Rightarrow>
          bb_stmts k @
          [SExpr (Expr (EIf c (Block [make_state_assign ctx (of_nat t) sn] None Unit)
             (Some (Expr (EBlock (Block [make_state_assign ctx (of_nat f) sn] None Unit)) Unit))) Unit),
           SContinue]
      | Yield r \<Rightarrow>
          bb_stmts k @ [make_state_assign ctx (of_nat r) sn, return_poll ''Pending'' [] return_type]
      | Return \<Rightarrow>
          (case extract_return_expr (bb_stmts k) of (return_val, ss) \<Rightarrow>
             ss @ [make_state_assign ctx (- 1) sn,
                   return_poll ''Ready''
                     (case return_val of Some e \<Rightarrow> [(''0'', e)] | None \<Rightarrow> []) return_type]))"

definition generate_step_fn_from_cfg ::
  "string \<Rightarrow> string \<Rightarrow> basic_block list \<Rightarrow> ty \<Rightarrow> var_id \<Rightarrow> item" where
  "generate_step_fn_from_cfg func_name sn blocks return_type ctx =
     step_item func_name sn return_type
       [SLoop (Block
          (map (\<lambda>k. dispatch_arm ctx sn (bb_id k) (emit_block ctx sn return_type k)) blocks)
          None Unit)]"

section \<open>The drivers\<close>

definition rewrite_map :: "var_info list \<Rightarrow> var_id \<rightharpoonup> string" where
  "rewrite_map infos = map_of (rev (map (\<lambda>vi. (vi_var_id vi, local_field (vi_var_id vi))) infos))"

definition rewritten_body :: "string \<Rightarrow> fn_item \<Rightarrow> var_info list \<Rightarrow> u32 \<Rightarrow> stmt list" where
  "rewritten_body func_name func infos next_var_id =
     rewrite_lifted_vars
       (case fn_body func of None \<Rightarrow> [] | Some b \<Rightarrow> block_stmts b)
       next_var_id (rewrite_map infos) (state_struct_name func_name)"

definition lower_async_fn :: "string \<Rightarrow> fn_item \<Rightarrow> var_info list \<Rightarrow> u32 \<Rightarrow> item list" where
  "lower_async_fn func_name func infos next_var_id =
     [generate_state_struct func_name (fn_inputs func) infos,
      generate_step_fn func_name (state_struct_name func_name)
        (split_at_yields (rewritten_body func_name func infos next_var_id))
        (fn_output func) next_var_id]"

definition lower_async_fn_cfg :: "string \<Rightarrow> fn_item \<Rightarrow> var_info list \<Rightarrow> u32 \<Rightarrow> item list" where
  "lower_async_fn_cfg func_name func infos next_var_id =
     [generate_state_struct func_name (fn_inputs func) infos,
      generate_step_fn_from_cfg func_name (state_struct_name func_name)
        (build_cfg (rewritten_body func_name func infos next_var_id))
        (fn_output func) next_var_id]"

section \<open>The state struct has distinct fields\<close>

lemma local_field_inj: "local_field v = local_field w \<longleftrightarrow> v = w"
  by (auto simp: local_field_def word_unat_eq_iff dest: show_nat_inj)

text \<open>Names a programmer may give a parameter so that it does not collide with the state.\<close>

definition user_names :: "string list \<Rightarrow> bool" where
  "user_names ns =
     (distinct ns \<and> (\<forall>n \<in> set ns. n \<noteq> ''__state'' \<and> \<not> starts_with ''__local_'' n))"

definition struct_fields :: "item \<Rightarrow> field list" where
  "struct_fields it = (case item_kind_of it of ItemStruct s \<Rightarrow> st_fields s | _ \<Rightarrow> [])"

text \<open>
  The state struct has one field per parameter and per lifted variable next to the
  discriminant, with their types and pairwise different names, so no saved value overwrites
  another; and the field a lifted variable is rewritten to is its own field of the struct.
\<close>

theorem state_struct_fields:
  assumes "user_names (map param_name params)" "distinct (map vi_var_id infos)"
  shows "let fs = struct_fields (generate_state_struct f params infos)
    in distinct (map field_name fs) \<and> length fs = Suc (length params + length infos) \<and>
       (\<forall>vi \<in> set infos. \<exists>n. rewrite_map infos (vi_var_id vi) = Some n \<and>
          map_of (map (\<lambda>f. (field_name f, field_ty f)) fs) n = Some (vi_ty vi))"
proof -
  let ?ls = "map (\<lambda>vi. private_field (local_field (vi_var_id vi)) (vi_ty vi)) infos"
  let ?ps = "map (\<lambda>p. private_field (param_name p) (param_ty p)) params"
  let ?fs = "struct_fields (generate_state_struct f params infos)"
  have fs: "?fs = private_field ''__state'' I64 # ?ps @ ?ls"
    by (simp add: struct_fields_def generate_state_struct_def private_item_def)
  have names: "map field_name ?fs =
      ''__state'' # map param_name params @ map (\<lambda>vi. local_field (vi_var_id vi)) infos"
    by (simp add: fs private_field_def)
  have loc: "starts_with ''__local_'' (local_field v)" "local_field v \<noteq> ''__state''" for v
    unfolding local_field_def by (rule starts_with_append, simp)
  have d: "distinct (map field_name ?fs)"
  proof -
    have "distinct (map (\<lambda>vi. local_field (vi_var_id vi)) infos)"
      using assms(2) by (auto simp: distinct_map inj_on_def local_field_inj)
    moreover have "\<forall>n \<in> set (map param_name params). n \<notin> set (map (\<lambda>vi. local_field (vi_var_id vi)) infos)"
      using assms(1) loc(1) unfolding user_names_def by (metis (no_types, lifting) imageE set_map)
    moreover have "''__state'' \<notin> set (map (\<lambda>vi. local_field (vi_var_id vi)) infos)"
      using loc(2) by (metis (no_types, lifting) imageE set_map)
    ultimately show ?thesis
      using assms(1) unfolding names user_names_def distinct.simps distinct_append set_append by blast
  qed
  have rw: "rewrite_map infos (vi_var_id vi) = Some (local_field (vi_var_id vi))"
    if "vi \<in> set infos" for vi
  proof -
    let ?kvs = "map (\<lambda>vi. (vi_var_id vi, local_field (vi_var_id vi))) infos"
    have d: "distinct (map fst ?kvs)" using assms(2) by (simp add: o_def)
    have "(vi_var_id vi, local_field (vi_var_id vi)) \<in> set ?kvs" using that by auto
    then show ?thesis
      unfolding rewrite_map_def map_of_rev_distinct [OF d] using d by simp
  qed
  have mo: "map_of (map (\<lambda>f. (field_name f, field_ty f)) ?fs) (local_field (vi_var_id vi)) = Some (vi_ty vi)"
    if "vi \<in> set infos" for vi
  proof (rule map_of_is_SomeI)
    show "distinct (map fst (map (\<lambda>f. (field_name f, field_ty f)) ?fs))"
      using d by (simp add: o_def)
    show "(local_field (vi_var_id vi), vi_ty vi) \<in> set (map (\<lambda>f. (field_name f, field_ty f)) ?fs)"
      unfolding fs using that by (force simp: private_field_def)
  qed
  have "length ?fs = Suc (length params + length infos)" by (simp add: fs)
  with d rw mo show ?thesis by (simp add: Let_def)
qed

theorem state_struct_fields_witness:
  "distinct (map field_name (struct_fields (generate_state_struct ''f''
     [\<lparr>param_name = ''x'', param_ty = I64\<rparr>]
     [\<lparr>vi_var_id = 7, vi_name = ''y'', vi_ty = Bool\<rparr>, \<lparr>vi_var_id = 17, vi_name = ''z'', vi_ty = I32\<rparr>])))"
  using state_struct_fields [of "[\<lparr>param_name = ''x'', param_ty = I64\<rparr>]"
      "[\<lparr>vi_var_id = 7, vi_name = ''y'', vi_ty = Bool\<rparr>, \<lparr>vi_var_id = 17, vi_name = ''z'', vi_ty = I32\<rparr>]" "''f''"]
  by (simp add: user_names_def Let_def)

section \<open>Splitting keeps every statement\<close>

text \<open>The source between its yields, put back together.\<close>

lemma split_at_yields_snoc:
  "split_at_yields (ss @ [s]) =
     (if is_top_level_yield s then split_at_yields ss @ [[]]
      else butlast (split_at_yields ss) @ [last (split_at_yields ss) @ [s]])"
  by (simp add: split_at_yields_def split_step_def)

lemma split_at_yields_not_Nil [simp]: "split_at_yields ss \<noteq> []"
  by (induction ss rule: rev_induct) (simp_all add: split_at_yields_snoc, simp add: split_at_yields_def)

lemma concat_snoc_last: "xs \<noteq> [] \<Longrightarrow> concat (butlast xs @ [last xs @ ys]) = concat xs @ ys"
  by (cases xs rule: rev_cases) simp_all

text \<open>
  splitting a flat body at its yields gives one segment more than there are
  top-level yields, the segments in order are exactly the other statements, and none contains
  a top-level yield.
\<close>

theorem split_at_yields_spec:
  "length (split_at_yields ss) = Suc (length (filter is_top_level_yield ss)) \<and>
   concat (split_at_yields ss) = filter (\<lambda>s. \<not> is_top_level_yield s) ss"
proof (induction ss rule: rev_induct)
  case (snoc s ss)
  then show ?case
    using concat_snoc_last [of "split_at_yields ss" "[s]"] by (simp add: split_at_yields_snoc)
qed (simp add: split_at_yields_def)

end
