(* ===== verification/Lockstep.thy ===== *)
theory Lockstep
  imports Main
begin

text \<open>
  Deterministic step functions with suspension, their observable behaviour, and the interface
  between two of them that makes the behaviours equal: every step of the first is answered by
  at least one step of the second. The coroutine lowering is an instance.
\<close>

section \<open>Moves and traces\<close>

datatype 'c move = Next 'c | Suspend 'c | Done | Abort

datatype 'st event = Yielded 'st | Finished 'st | Aborted 'st

text \<open>What \<open>n\<close> steps from a configuration show: the store at each suspension and at the end.\<close>

primrec trace :: "('c \<Rightarrow> 'c move) \<Rightarrow> ('c \<Rightarrow> 'st) \<Rightarrow> nat \<Rightarrow> 'c \<Rightarrow> 'st event list" where
  "trace step store 0 c = []"
| "trace step store (Suc n) c =
     (case step c of
        Next c' \<Rightarrow> trace step store n c'
      | Suspend c' \<Rightarrow> Yielded (store c') # trace step store n c'
      | Done \<Rightarrow> [Finished (store c)]
      | Abort \<Rightarrow> [Aborted (store c)])"

definition behaviour :: "('c \<Rightarrow> 'c move) \<Rightarrow> ('c \<Rightarrow> 'st) \<Rightarrow> 'c \<Rightarrow> 'st event list set" where
  "behaviour step store c = range (\<lambda>n. trace step store n c)"

text \<open>\<open>k\<close> silent steps.\<close>

primrec silent :: "('c \<Rightarrow> 'c move) \<Rightarrow> nat \<Rightarrow> 'c \<Rightarrow> 'c \<Rightarrow> bool" where
  "silent step 0 c d = (c = d)"
| "silent step (Suc k) c d = (\<exists>e. step c = Next e \<and> silent step k e d)"

lemma silent_add: "silent step j c d \<Longrightarrow> silent step k d e \<Longrightarrow> silent step (j + k) c e"
  by (induction j arbitrary: c) auto

lemma trace_silent: "silent step k c d \<Longrightarrow> trace step store (k + n) c = trace step store n d"
  by (induction k arbitrary: c) auto

lemma trace_silent_prefix: "silent step k c d \<Longrightarrow> n \<le> k \<Longrightarrow> trace step store n c = []"
proof (induction n arbitrary: c k)
  case (Suc n)
  then obtain j where "k = Suc j" by (cases k) auto
  then show ?case using Suc by auto
qed simp

lemma trace_ends:
  assumes "silent step k c d" "\<And>j. trace step store (Suc j) d = [x]"
  shows "trace step store m c = (if m \<le> k then [] else [x])"
proof (cases "m \<le> k")
  case False
  then obtain j where m: "m = k + Suc j" by (metis less_imp_Suc_add not_le add_Suc_right)
  show ?thesis using trace_silent [OF assms(1), of store "Suc j"] assms(2) unfolding m by simp
qed (simp add: trace_silent_prefix [OF assms(1)])

section \<open>The simulation interface\<close>

text \<open>
  The answer of configuration \<open>d\<close> to a move of configuration \<open>c\<close>: some silent
  steps and then the same kind of move, to a related configuration with the same store.
\<close>

definition answers ::
  "('d \<Rightarrow> 'd move) \<Rightarrow> ('c \<Rightarrow> 'd \<Rightarrow> bool) \<Rightarrow> ('c \<Rightarrow> 'st) \<Rightarrow> ('d \<Rightarrow> 'st) \<Rightarrow> 'c \<Rightarrow> 'c move \<Rightarrow> 'd \<Rightarrow> bool" where
  "answers step2 match store1 store2 c m d =
     (case m of
        Next c' \<Rightarrow> \<exists>k d'. silent step2 (Suc k) d d' \<and> match c' d'
      | Suspend c' \<Rightarrow>
          \<exists>k d' d''. silent step2 k d d' \<and> step2 d' = Suspend d'' \<and> match c' d'' \<and>
            store1 c' = store2 d''
      | Done \<Rightarrow> \<exists>k d'. silent step2 k d d' \<and> step2 d' = Done \<and> store1 c = store2 d'
      | Abort \<Rightarrow> \<exists>k d'. silent step2 k d d' \<and> step2 d' = Abort \<and> store1 c = store2 d')"

lemma answers_NextI:
  "silent step2 (Suc k) d d' \<Longrightarrow> match c' d' \<Longrightarrow> answers step2 match store1 store2 c (Next c') d"
  unfolding answers_def by auto

lemma answers_SuspendI:
  "step2 d = Suspend d'' \<Longrightarrow> match c' d'' \<Longrightarrow> store1 c' = store2 d'' \<Longrightarrow>
     answers step2 match store1 store2 c (Suspend c') d"
  unfolding answers_def by (auto intro: exI [of _ 0])

lemma answers_AbortI:
  "step2 d = Abort \<Longrightarrow> store1 c = store2 d \<Longrightarrow> answers step2 match store1 store2 c Abort d"
  unfolding answers_def by (auto intro: exI [of _ 0])

lemma answers_DoneI:
  "step2 d = Done \<Longrightarrow> store1 c = store2 d \<Longrightarrow> answers step2 match store1 store2 c Done d"
  unfolding answers_def by (auto intro: exI [of _ 0])

lemma answers_silent:
  assumes "silent step2 k d d'" "answers step2 match store1 store2 c m d'"
  shows "answers step2 match store1 store2 c m d"
proof (cases m)
  case (Next c')
  then obtain j e where e: "silent step2 (Suc j) d' e" "match c' e"
    using assms(2) by (auto simp: answers_def)
  have "silent step2 (Suc (k + j)) d e" using silent_add [OF assms(1) e(1)] by simp
  then show ?thesis using Next e(2) unfolding answers_def by auto
qed (use assms in \<open>auto simp: answers_def dest: silent_add\<close>)

locale lockstep =
  fixes step1 :: "'c \<Rightarrow> 'c move" and step2 :: "'d \<Rightarrow> 'd move"
    and store1 :: "'c \<Rightarrow> 'st" and store2 :: "'d \<Rightarrow> 'st"
    and match :: "'c \<Rightarrow> 'd \<Rightarrow> bool"
  assumes simulation: "match c d \<Longrightarrow> answers step2 match store1 store2 c (step1 c) d"
begin

lemma forward: "match c d \<Longrightarrow> \<exists>m. trace step1 store1 n c = trace step2 store2 m d"
proof (induction n arbitrary: c d)
  case 0
  show ?case by (intro exI [of _ 0]) simp
next
  case (Suc n)
  note sim = simulation [OF Suc.prems]
  show ?case
  proof (cases "step1 c")
    case (Next c')
    then obtain k d' where k: "silent step2 (Suc k) d d'" "match c' d'"
      using sim by (auto simp: answers_def)
    obtain m where "trace step1 store1 n c' = trace step2 store2 m d'" using Suc.IH [OF k(2)] by blast
    then show ?thesis using Next trace_silent [OF k(1), of store2 m]
      by (intro exI [of _ "Suc k + m"]) simp
  next
    case (Suspend c')
    then obtain k d' d'' where k: "silent step2 k d d'" "step2 d' = Suspend d''" "match c' d''"
        "store1 c' = store2 d''"
      using sim by (auto simp: answers_def)
    obtain m where "trace step1 store1 n c' = trace step2 store2 m d''" using Suc.IH [OF k(3)] by blast
    then show ?thesis using Suspend k trace_silent [OF k(1), of store2 "Suc m"]
      by (intro exI [of _ "k + Suc m"]) simp
  next
    case Done
    then obtain k d' where k: "silent step2 k d d'" "step2 d' = Done" "store1 c = store2 d'"
      using sim by (auto simp: answers_def)
    then show ?thesis using Done trace_silent [OF k(1), of store2 "Suc 0"]
      by (intro exI [of _ "k + Suc 0"]) simp
  next
    case Abort
    then obtain k d' where k: "silent step2 k d d'" "step2 d' = Abort" "store1 c = store2 d'"
      using sim by (auto simp: answers_def)
    then show ?thesis using Abort trace_silent [OF k(1), of store2 "Suc 0"]
      by (intro exI [of _ "k + Suc 0"]) simp
  qed
qed

lemma backward: "match c d \<Longrightarrow> \<exists>n. trace step1 store1 n c = trace step2 store2 m d"
proof (induction m arbitrary: c d rule: less_induct)
  case (less m)
  note sim = simulation [OF less.prems]
  have quiet: ?case if "silent step2 k d d'" "m \<le> k" for k d'
    using trace_silent_prefix [OF that, of store2] by (intro exI [of _ 0]) simp
  show ?case
  proof (cases "step1 c")
    case (Next c')
    then obtain k d' where k: "silent step2 (Suc k) d d'" "match c' d'"
      using sim by (auto simp: answers_def)
    show ?thesis
    proof (cases "m \<le> Suc k")
      case False
      then obtain j where m: "m = Suc k + j" by (metis le_add_diff_inverse nat_le_linear)
      then have "j < m" by simp
      from less.IH [OF this k(2)] obtain n where "trace step1 store1 n c' = trace step2 store2 j d'"
        by blast
      then show ?thesis using Next trace_silent [OF k(1), of store2 j] unfolding m
        by (intro exI [of _ "Suc n"]) simp
    qed (rule quiet [OF k(1)])
  next
    case (Suspend c')
    then obtain k d' d'' where k: "silent step2 k d d'" "step2 d' = Suspend d''" "match c' d''"
        "store1 c' = store2 d''"
      using sim by (auto simp: answers_def)
    show ?thesis
    proof (cases "m \<le> k")
      case False
      then obtain j where m: "m = k + Suc j" by (metis less_imp_Suc_add not_le add_Suc_right)
      then have "j < m" by simp
      from less.IH [OF this k(3)] obtain n where "trace step1 store1 n c' = trace step2 store2 j d''"
        by blast
      then show ?thesis using Suspend k trace_silent [OF k(1), of store2 "Suc j"] unfolding m
        by (intro exI [of _ "Suc n"]) simp
    qed (rule quiet [OF k(1)])
  next
    case Done
    then obtain k d' where k: "silent step2 k d d'" "step2 d' = Done" "store1 c = store2 d'"
      using sim by (auto simp: answers_def)
    have "trace step2 store2 m d = (if m \<le> k then [] else [Finished (store2 d')])"
      by (rule trace_ends [OF k(1)]) (simp add: k(2))
    then show ?thesis using Done k(3) by (intro exI [of _ "if m \<le> k then 0 else Suc 0"]) simp
  next
    case Abort
    then obtain k d' where k: "silent step2 k d d'" "step2 d' = Abort" "store1 c = store2 d'"
      using sim by (auto simp: answers_def)
    have "trace step2 store2 m d = (if m \<le> k then [] else [Aborted (store2 d')])"
      by (rule trace_ends [OF k(1)]) (simp add: k(2))
    then show ?thesis using Abort k(3) by (intro exI [of _ "if m \<le> k then 0 else Suc 0"]) simp
  qed
qed

lemma same_behaviour:
  assumes "match c d"
  shows "behaviour step1 store1 c = behaviour step2 store2 d"
proof (unfold behaviour_def, intro equalityI subsetI)
  fix tr assume "tr \<in> range (\<lambda>n. trace step1 store1 n c)"
  then obtain n where "tr = trace step1 store1 n c" by blast
  then show "tr \<in> range (\<lambda>n. trace step2 store2 n d)" using forward [OF assms, of n] by auto
next
  fix tr assume "tr \<in> range (\<lambda>n. trace step2 store2 n d)"
  then obtain m where "tr = trace step2 store2 m d" by blast
  moreover obtain n where "trace step1 store1 n c = trace step2 store2 m d"
    using backward [OF assms, of m] by blast
  ultimately have "tr = trace step1 store1 n c" by simp
  then show "tr \<in> range (\<lambda>n. trace step1 store1 n c)" by blast
qed

end

end
