(* ===== verification/Async_Sim.thy ===== *)
theory Async_Sim
  imports Async_Cfg Lockstep
begin

text \<open>
  The control-flow graph of a coroutine body behaves as the body does. What a statement without yield
  does to the store, and the value of a condition, are parameters (\<open>exec\<close>,
  \<open>eval\<close>): no answer of \<open>exec\<close> means that the statement does not complete
  normally (a panic, or a \<open>return\<close>, \<open>break\<close> or \<open>continue\<close> that
  leaves it), and both sides stop there. Conditions do not change the store. The HIR lowering
  (\<open>hir/lower.rs\<close>) builds every block without a value.
\<close>

section \<open>The source\<close>

text \<open>A configuration is the list of the statements still to run, and the store.\<close>

definition block_body :: "block \<Rightarrow> stmt list" where
  "block_body b = block_stmts b @ (case block_value b of None \<Rightarrow> [] | Some e \<Rightarrow> [SExpr e])"

definition else_body :: "expr option \<Rightarrow> stmt list" where
  "else_body els =
     (case els of
        None \<Rightarrow> []
      | Some e \<Rightarrow> (case ekind e of EBlock b \<Rightarrow> block_body b | _ \<Rightarrow> [SExpr e]))"

definition yield_operand :: "stmt \<Rightarrow> expr option" where
  "yield_operand s =
     (case s of
        SSemi e \<Rightarrow> (case ekind e of EYield v \<Rightarrow> v | _ \<Rightarrow> None)
      | SExpr e \<Rightarrow> (case ekind e of EYield v \<Rightarrow> v | _ \<Rightarrow> None)
      | _ \<Rightarrow> None)"

definition source_step ::
  "(stmt \<Rightarrow> 'st \<Rightarrow> 'st option) \<Rightarrow> (expr \<Rightarrow> 'st \<Rightarrow> bool) \<Rightarrow> stmt list \<times> 'st \<Rightarrow> (stmt list \<times> 'st) move" where
  "source_step exec eval c =
     (case c of
        ([], st) \<Rightarrow> Done
      | (s # k, st) \<Rightarrow>
          (case classify s of
             Plain \<Rightarrow> (case exec s st of None \<Rightarrow> Abort | Some st' \<Rightarrow> Next (k, st'))
           | YieldPoint \<Rightarrow>
               (case yield_operand s of
                  None \<Rightarrow> Suspend (k, st)
                | Some e \<Rightarrow> (case exec (SSemi e) st of None \<Rightarrow> Abort | Some st' \<Rightarrow> Suspend (k, st')))
           | FlatWhile c b \<Rightarrow> Next (if eval c st then block_body b @ s # k else k, st)
           | FlatLoop b \<Rightarrow> Next (block_body b @ s # k, st)
           | FlatIf c t els \<Rightarrow> Next ((if eval c st then block_body t else else_body els) @ k, st)))"

section \<open>The graph\<close>

text \<open>A configuration is a block, the number of its statements already run, and the store.\<close>

definition cfg_step ::
  "(stmt \<Rightarrow> 'st \<Rightarrow> 'st option) \<Rightarrow> (expr \<Rightarrow> 'st \<Rightarrow> bool) \<Rightarrow> basic_block list \<Rightarrow>
   (nat \<times> nat) \<times> 'st \<Rightarrow> ((nat \<times> nat) \<times> 'st) move" where
  "cfg_step exec eval G c =
     (case c of ((n, i), st) \<Rightarrow>
        if length G \<le> n then Abort
        else if i < length (bb_stmts (G ! n))
        then (case exec (bb_stmts (G ! n) ! i) st of
                None \<Rightarrow> Abort | Some st' \<Rightarrow> Next ((n, Suc i), st'))
        else
          (case bb_term (G ! n) of
             Goto t \<Rightarrow> Next ((t, 0), st)
           | Branch c t f \<Rightarrow> Next ((if eval c st then t else f, 0), st)
           | Yield r \<Rightarrow> Suspend ((r, 0), st)
           | Return \<Rightarrow> Done))"

section \<open>Which stretches of the graph realize which statements\<close>

definition blk :: "basic_block list \<Rightarrow> nat \<Rightarrow> stmt list \<Rightarrow> terminator \<Rightarrow> bool" where
  "blk G n ss t = (n < length G \<and> bb_stmts (G ! n) = ss \<and> bb_term (G ! n) = t)"

text \<open>
  The block \<open>cur\<close>, after its statements \<open>acc\<close>, runs \<open>ss\<close> and then
  leaves to \<open>ex\<close>.
\<close>

inductive realizes ::
  "basic_block list \<Rightarrow> stmt list \<Rightarrow> nat \<Rightarrow> stmt list \<Rightarrow> nat option \<Rightarrow> bool" for G where
  Nil: "blk G cur acc (final_terminator ex) \<Longrightarrow> realizes G [] cur acc ex"
| Plain: "classify s = Plain \<Longrightarrow> realizes G ss cur (acc @ [s]) ex \<Longrightarrow> realizes G (s # ss) cur acc ex"
| Yield: "classify s = YieldPoint \<Longrightarrow> blk G cur acc (Yield r) \<Longrightarrow> realizes G ss r [] ex \<Longrightarrow>
    realizes G (s # ss) cur acc ex"
| While: "classify s = FlatWhile c b \<Longrightarrow> blk G cur acc (Goto n) \<Longrightarrow> blk G n [] (Branch c m e) \<Longrightarrow>
    realizes G (block_stmts b) m [SAssume c] (Some n) \<Longrightarrow>
    realizes G ss e [SAssume (negate c)] ex \<Longrightarrow> realizes G (s # ss) cur acc ex"
| Loop: "classify s = FlatLoop b \<Longrightarrow> blk G cur acc (Goto n) \<Longrightarrow>
    realizes G (block_stmts b) n [] (Some n) \<Longrightarrow> realizes G (s # ss) cur acc ex"
| If: "classify s = FlatIf c t els \<Longrightarrow> blk G cur acc (Branch c m e) \<Longrightarrow>
    realizes G (block_stmts t) m [SAssume c] (Some j) \<Longrightarrow>
    realizes G (case els of None \<Rightarrow> [] | Some el \<Rightarrow> else_stmts el) e [SAssume (negate c)] (Some j) \<Longrightarrow>
    realizes G ss j [] ex \<Longrightarrow> realizes G (s # ss) cur acc ex"

text \<open>The statements that run after the exit \<open>ex\<close> of a scope has been taken.\<close>

inductive resumes :: "basic_block list \<Rightarrow> stmt list \<Rightarrow> nat option \<Rightarrow> bool" for G where
  Finish: "resumes G [] None"
| Join: "realizes G ss j [] ex \<Longrightarrow> resumes G k ex \<Longrightarrow> resumes G (ss @ k) (Some j)"
| Again: "classify s = FlatWhile c b \<Longrightarrow> blk G n [] (Branch c m e) \<Longrightarrow>
    realizes G (block_stmts b) m [SAssume c] (Some n) \<Longrightarrow>
    realizes G ss e [SAssume (negate c)] ex \<Longrightarrow> resumes G k ex \<Longrightarrow> resumes G (s # ss @ k) (Some n)"
| Forever: "classify s = FlatLoop b \<Longrightarrow> realizes G (block_stmts b) n [] (Some n) \<Longrightarrow>
    resumes G (s # k) (Some n)"

lemma blk_mem:
  assumes "map bb_id G = [0..<length G]" "\<lparr>bb_id = n, bb_stmts = ss, bb_term = t\<rparr> \<in> set G"
  shows "blk G n ss t"
proof -
  obtain i where i: "i < length G" "G ! i = \<lparr>bb_id = n, bb_stmts = ss, bb_term = t\<rparr>"
    using assms(2) by (metis in_set_conv_nth)
  then have "n = i" using assms(1) by (metis add.left_neutral basic_block.select_convs(1) nth_map nth_upt)
  then show ?thesis using i by (simp add: blk_def)
qed

lemma lower_keeps: "set (cb_blocks b) \<subseteq> set (cb_blocks (lower_loop ss cur acc ex b))"
  using lower_grown [of cur ex b ss acc] by (auto simp: grown_def)

lemma lower_else_keeps: "set (cb_blocks b) \<subseteq> set (cb_blocks (lower_else c els n j b))"
  using lower_keeps by (auto simp: lower_else_def split: option.split)

text \<open>The lowering of a scope builds blocks that realize it.\<close>

lemma lower_realizes:
  assumes "map bb_id G = [0..<length G]"
  shows "set (cb_blocks (lower_loop ss cur acc ex b)) \<subseteq> set G \<Longrightarrow> realizes G ss cur acc ex"
proof (induction ss arbitrary: cur acc ex b rule: lower_induct)
  case Nil
  then show ?case by (intro realizes.Nil blk_mem [OF assms]) auto
next
  case (Plain s ss)
  then show ?case by (auto simp: lower_Plain intro: realizes.Plain)
next
  case (Yield s ss)
  let ?n = "cb_next_id b"
  let ?b1 = "push_block cur acc (terminator.Yield ?n) (bump 1 b)"
  have all: "set (cb_blocks (lower_loop ss ?n [] ex ?b1)) \<subseteq> set G"
    using Yield.prems by (simp add: lower_Yield [OF Yield(1)])
  have "blk G cur acc (terminator.Yield ?n)"
    by (rule blk_mem [OF assms]) (use all lower_keeps [of ?b1] in auto)
  then show ?case by (rule realizes.Yield [OF Yield(1) _ Yield(2) [OF all]])
next
  case (While s ss c body)
  let ?n = "cb_next_id b"
  let ?b1 = "push_block ?n [] (Branch c (?n + 1) (?n + 2)) (push_block cur acc (Goto ?n) (bump 3 b))"
  let ?b2 = "lower_loop (block_stmts body) (?n + 1) [SAssume c] (Some ?n) ?b1"
  have all: "set (cb_blocks (lower_loop ss (?n + 2) [SAssume (negate c)] ex ?b2)) \<subseteq> set G"
    using While.prems unfolding lower_While [OF While(1) refl] .
  then have 2: "set (cb_blocks ?b2) \<subseteq> set G" using lower_keeps by blast
  then have 1: "set (cb_blocks ?b1) \<subseteq> set G" using lower_keeps by blast
  show ?case
    by (rule realizes.While [OF While(1) blk_mem [OF assms] blk_mem [OF assms] While(2) [OF 2] While(3) [OF all]])
      (use 1 in auto)
next
  case (Loop s ss body)
  let ?n = "cb_next_id b"
  let ?b1 = "push_block cur acc (Goto ?n) (bump 1 b)"
  define b2 where "b2 = lower_loop (block_stmts body) ?n [] (Some ?n) ?b1"
  have "set (cb_blocks (lower_loop ss (cb_next_id b2) [] ex (bump 1 b2))) \<subseteq> set G"
    using Loop.prems unfolding lower_Loop [OF Loop(1) refl b2_def] .
  then have "set (cb_blocks (bump 1 b2)) \<subseteq> set G" using lower_keeps by blast
  then have 2: "set (cb_blocks b2) \<subseteq> set G" by simp
  then have 1: "set (cb_blocks ?b1) \<subseteq> set G" unfolding b2_def using lower_keeps by blast
  show ?case
    by (rule realizes.Loop [OF Loop(1) blk_mem [OF assms] Loop(2)]) (use 1 2 b2_def in auto)
next
  case (If s ss c t els)
  let ?n = "cb_next_id b"
  let ?b1 = "push_block cur acc (Branch c ?n (?n + 1)) (bump 3 b)"
  let ?b2 = "lower_loop (block_stmts t) ?n [SAssume c] (Some (?n + 2)) ?b1"
  let ?b3 = "lower_else c els (?n + 1) (?n + 2) ?b2"
  have all: "set (cb_blocks (lower_loop ss (?n + 2) [] ex ?b3)) \<subseteq> set G"
    using If.prems unfolding lower_If [OF If(1) refl] .
  then have 3: "set (cb_blocks ?b3) \<subseteq> set G" using lower_keeps by blast
  then have 2: "set (cb_blocks ?b2) \<subseteq> set G" using lower_else_keeps by blast
  then have 1: "set (cb_blocks ?b1) \<subseteq> set G" using lower_keeps by blast
  have els: "realizes G (case els of None \<Rightarrow> [] | Some el \<Rightarrow> else_stmts el) (?n + 1)
      [SAssume (negate c)] (Some (?n + 2))"
  proof (cases els)
    case None
    then show ?thesis using 3
      by (auto simp: lower_else_def final_terminator_def intro!: realizes.Nil blk_mem [OF assms])
  next
    case (Some el)
    show ?thesis using If(3) [OF Some] 3 by (simp add: Some lower_else_def)
  qed
  show ?case
    by (rule realizes.If [OF If(1) blk_mem [OF assms] If(2) [OF 2] els If(4) [OF all]])
      (use 1 in auto)
qed

section \<open>The simulation\<close>

text \<open>
  Bodies as the HIR lowering builds them: the blocks on the way to a yield have no value, and the
  yields carry none.
\<close>

definition else_value_free :: "expr option \<Rightarrow> bool" where
  "else_value_free els =
     (case els of
        None \<Rightarrow> True
      | Some e \<Rightarrow> (case ekind e of EBlock b \<Rightarrow> block_value b = None | _ \<Rightarrow> True))"

function value_free :: "stmt list \<Rightarrow> bool" where
  "value_free [] = True"
| "value_free (s # ss) =
     ((case classify s of
         Plain \<Rightarrow> True
       | YieldPoint \<Rightarrow> yield_operand s = None
       | FlatWhile c b \<Rightarrow> block_value b = None \<and> value_free (block_stmts b)
       | FlatLoop b \<Rightarrow> block_value b = None \<and> value_free (block_stmts b)
       | FlatIf c t els \<Rightarrow>
           block_value t = None \<and> value_free (block_stmts t) \<and> else_value_free els \<and>
           (case els of None \<Rightarrow> True | Some el \<Rightarrow> value_free (else_stmts el))) \<and>
      value_free ss)"
  by pat_completeness auto
termination
  by (relation "measure (size_list size)") (auto dest: classify_size)

declare value_free.simps(2) [simp del]

lemma value_free_Cons: "value_free (s # ss) \<Longrightarrow> value_free ss"
  by (simp add: value_free.simps(2))

lemma value_free_append: "value_free (ss @ k) = (value_free ss \<and> value_free k)"
  by (induction ss) (auto simp: value_free.simps(2))

lemma block_body_stmts: "block_value b = None \<Longrightarrow> block_body b = block_stmts b"
  by (simp add: block_body_def)

lemma else_body_stmts:
  "else_value_free els \<Longrightarrow> else_body els = (case els of None \<Rightarrow> [] | Some el \<Rightarrow> else_stmts el)"
  by (auto simp: else_body_def else_value_free_def else_stmts_def block_body_stmts
      split: option.splits expr_kind.splits)

text \<open>An injected assumption is checked: it stops the run when it does not hold.\<close>

definition checks_assumes :: "(stmt \<Rightarrow> 'st \<Rightarrow> 'st option) \<Rightarrow> (expr \<Rightarrow> 'st \<Rightarrow> bool) \<Rightarrow> bool" where
  "checks_assumes exec eval =
     ((\<forall>c st. exec (SAssume c) st = (if eval c st then Some st else None)) \<and>
      (\<forall>c st. eval (negate c) st = (\<not> eval c st)))"

definition matches ::
  "basic_block list \<Rightarrow> stmt list \<times> 'st \<Rightarrow> (nat \<times> nat) \<times> 'st \<Rightarrow> bool" where
  "matches G c d =
     (snd c = snd d \<and> value_free (fst c) \<and>
      (\<exists>ss k acc ex. fst c = ss @ k \<and> realizes G ss (fst (fst d)) acc ex \<and>
         snd (fst d) = length acc \<and> resumes G k ex))"

lemma matchesI:
  "realizes G ss n acc ex \<Longrightarrow> resumes G k ex \<Longrightarrow> value_free (ss @ k) \<Longrightarrow> i = length acc \<Longrightarrow>
     matches G (ss @ k, st) ((n, i), st)"
  by (auto simp: matches_def)

lemma realizes_prefix:
  "realizes G ss n acc ex \<Longrightarrow> n < length G \<and> (\<exists>rest. bb_stmts (G ! n) = acc @ rest)"
  by (induction rule: realizes.induct) (auto simp: blk_def)

lemma step_stmt:
  assumes "realizes G ss n (acc @ [s]) ex"
  shows "cfg_step exec eval G ((n, length acc), st) =
    (case exec s st of None \<Rightarrow> Abort | Some st' \<Rightarrow> Next ((n, Suc (length acc)), st'))"
  using realizes_prefix [OF assms] by (auto simp: cfg_step_def nth_append)

lemma step_term:
  assumes "blk G n acc t"
  shows "cfg_step exec eval G ((n, length acc), st) =
    (case t of
       Goto t \<Rightarrow> Next ((t, 0), st)
     | Branch c t f \<Rightarrow> Next ((if eval c st then t else f, 0), st)
     | terminator.Yield r \<Rightarrow> Suspend ((r, 0), st)
     | Return \<Rightarrow> Done)"
  using assms by (auto simp: blk_def cfg_step_def)

lemma goto_silent:
  "blk G n acc (Goto t) \<Longrightarrow> silent (cfg_step exec eval G) 1 ((n, length acc), st) ((t, 0), st)"
  by (simp add: step_term)

text \<open>Taking a branch and running the assumption at its target.\<close>

lemma branch_silent:
  assumes "checks_assumes exec eval" "blk G n acc (Branch c m e)"
    and "realizes G ss m [SAssume c] ex" "realizes G ss' e [SAssume (negate c)] ex'"
  shows "silent (cfg_step exec eval G) (Suc 1) ((n, length acc), st)
    ((if eval c st then m else e, 1), st)"
  using assms(1) step_stmt [of G ss m "[]" "SAssume c" ex exec eval st]
    step_stmt [of G ss' e "[]" "SAssume (negate c)" ex' exec eval st] assms(3,4)
  by (simp add: step_term [OF assms(2)] checks_assumes_def)

lemma while_answers:
  assumes "checks_assumes exec eval" "classify s = FlatWhile c b" "blk G n [] (Branch c m e)"
    and "realizes G (block_stmts b) m [SAssume c] (Some n)"
    and "realizes G ss e [SAssume (negate c)] ex" "resumes G k ex" "value_free (s # ss @ k)"
  shows "answers (cfg_step exec eval G) (matches G) snd snd (s # ss @ k, st)
    (source_step exec eval (s # ss @ k, st)) ((n, 0), st)"
proof -
  have v: "block_value b = None" "value_free (block_stmts b)" "value_free (ss @ k)"
    using assms(2,7) by (auto simp: value_free.simps(2))
  have run: "silent (cfg_step exec eval G) (Suc 1) ((n, 0), st) ((if eval c st then m else e, 1), st)"
    using branch_silent [OF assms(1,3,4,5)] by simp
  have again: "resumes G (s # ss @ k) (Some n)"
    by (rule resumes.Again [OF assms(2-6)])
  have "matches G (block_stmts b @ s # ss @ k, st) ((m, 1), st)"
    by (rule matchesI [OF assms(4) again]) (use v assms(7) in \<open>simp_all add: value_free_append\<close>)
  moreover have "matches G (ss @ k, st) ((e, 1), st)"
    by (rule matchesI [OF assms(5,6)]) (use v in simp_all)
  ultimately have "matches G (if eval c st then block_stmts b @ s # ss @ k else ss @ k, st)
      ((if eval c st then m else e, 1), st)" by simp
  moreover have "source_step exec eval (s # ss @ k, st) =
      Next (if eval c st then block_stmts b @ s # ss @ k else ss @ k, st)"
    using v(1) by (simp add: source_step_def assms(2) block_body_stmts)
  ultimately show ?thesis by (simp only: answers_NextI [OF run])
qed

lemma loop_answers:
  assumes "classify s = FlatLoop b" "blk G n0 acc (Goto n)"
    and "realizes G (block_stmts b) n [] (Some n)" "value_free (s # k)"
  shows "answers (cfg_step exec eval G) (matches G) snd snd (s # k, st)
    (source_step exec eval (s # k, st)) ((n0, length acc), st)"
proof -
  have v: "block_value b = None" "value_free (block_stmts b)"
    using assms(1,4) by (auto simp: value_free.simps(2))
  have "matches G (block_stmts b @ s # k, st) ((n, 0), st)"
    by (rule matchesI [OF assms(3) resumes.Forever [OF assms(1,3)]])
      (use v assms(4) in \<open>simp_all add: value_free_append\<close>)
  moreover have "source_step exec eval (s # k, st) = Next (block_stmts b @ s # k, st)"
    using v(1) by (simp add: source_step_def assms(1) block_body_stmts)
  ultimately show ?thesis
    using answers_NextI [OF goto_silent [OF assms(2), unfolded One_nat_def]] by metis
qed

text \<open>A scope answers its next statement, given that its exit does.\<close>

lemma scope_answers:
  assumes chk: "checks_assumes exec eval"
    and r: "realizes G ss n acc ex" "resumes G k ex" "value_free (ss @ k)"
    and exit: "\<And>n acc. blk G n acc (final_terminator ex) \<Longrightarrow>
      answers (cfg_step exec eval G) (matches G) snd snd (k, st)
        (source_step exec eval (k, st)) ((n, length acc), st)"
  shows "answers (cfg_step exec eval G) (matches G) snd snd (ss @ k, st)
    (source_step exec eval (ss @ k, st)) ((n, length acc), st)"
  using r(1)
proof cases
  case Nil
  then show ?thesis using exit by simp
next
  case (Plain s ss')
  have "matches G (ss' @ k, st') ((n, Suc (length acc)), st')" for st'
    by (rule matchesI [OF Plain(3) r(2)]) (use r(3) Plain(1) in \<open>simp_all add: value_free.simps(2)\<close>)
  then show ?thesis
    using step_stmt [OF Plain(3), of exec eval st]
    by (cases "exec s st")
      (auto simp: Plain(1,2) source_step_def intro!: answers_AbortI answers_NextI [where k = 0])
next
  case (Yield s r' ss')
  have "matches G (ss' @ k, st) ((r', 0), st)"
    by (rule matchesI [OF Yield(4) r(2)]) (use r(3) Yield(1) in \<open>simp_all add: value_free.simps(2)\<close>)
  moreover have "yield_operand s = None" using r(3) Yield(1,2) by (simp add: value_free.simps(2))
  ultimately show ?thesis
    using step_term [OF Yield(3), of exec eval st]
    by (auto simp: Yield(1,2) source_step_def intro!: answers_SuspendI)
next
  case (While s c b n' m e ss')
  have "answers (cfg_step exec eval G) (matches G) snd snd (s # ss' @ k, st)
      (source_step exec eval (s # ss' @ k, st)) ((n', 0), st)"
    by (rule while_answers [OF chk While(2,4,5,6) r(2)]) (use r(3) While(1) in simp)
  then show ?thesis using answers_silent [OF goto_silent [OF While(3)]] While(1) by simp
next
  case (Loop s b n' ss')
  show ?thesis using loop_answers [OF Loop(2-4), of "ss' @ k"] r(3) by (simp add: Loop(1))
next
  case (If s c t els m e j ss')
  have v: "block_value t = None" "value_free (block_stmts t)" "else_value_free els"
      "value_free (else_body els)" "value_free (ss' @ k)"
    using r(3) If(1,2) by (auto simp: value_free.simps(2) else_body_stmts split: option.splits)
  note cont = resumes.Join [OF If(6) r(2)]
  have "matches G (block_stmts t @ ss' @ k, st) ((m, 1), st)"
    by (rule matchesI [OF If(4) cont]) (use v in \<open>simp_all add: value_free_append\<close>)
  moreover have "matches G (else_body els @ ss' @ k, st) ((e, 1), st)"
    unfolding else_body_stmts [OF v(3)]
    by (rule matchesI [OF If(5) cont])
      (use v in \<open>simp_all add: value_free_append else_body_stmts\<close>)
  ultimately have "matches G ((if eval c st then block_stmts t else else_body els) @ ss' @ k, st)
      ((if eval c st then m else e, 1), st)" by simp
  moreover have "source_step exec eval (ss @ k, st) =
      Next ((if eval c st then block_stmts t else else_body els) @ ss' @ k, st)"
    using v(1) by (simp add: source_step_def If(1,2) block_body_stmts)
  ultimately show ?thesis by (simp only: answers_NextI [OF branch_silent [OF chk If(3,4,5)]])
qed

lemma exit_answers:
  assumes chk: "checks_assumes exec eval"
  shows "resumes G k ex \<Longrightarrow> value_free k \<Longrightarrow> blk G n acc (final_terminator ex) \<Longrightarrow>
    answers (cfg_step exec eval G) (matches G) snd snd (k, st)
      (source_step exec eval (k, st)) ((n, length acc), st)"
proof (induction arbitrary: n acc rule: resumes.induct)
  case Finish
  then show ?case using step_term [OF Finish(2), of exec eval st]
    by (auto simp: source_step_def final_terminator_def intro!: answers_DoneI)
next
  case (Join ss j ex k)
  have "answers (cfg_step exec eval G) (matches G) snd snd (ss @ k, st)
      (source_step exec eval (ss @ k, st)) ((j, length ([] :: stmt list)), st)"
    by (rule scope_answers [OF chk Join(1,2) Join(4) Join(3)])
      (use Join(4) in \<open>simp_all add: value_free_append\<close>)
  then show ?case
    using answers_silent [OF goto_silent] Join(5) by (simp add: final_terminator_def)
next
  case (Again s c b n' m e ss ex k)
  have "answers (cfg_step exec eval G) (matches G) snd snd (s # ss @ k, st)
      (source_step exec eval (s # ss @ k, st)) ((n', 0), st)"
    by (rule while_answers [OF chk Again(1-5) Again(7)])
  then show ?case
    using answers_silent [OF goto_silent] Again(8) by (simp add: final_terminator_def)
next
  case (Forever s b n' k)
  then show ?case using loop_answers by (simp add: final_terminator_def)
qed

text \<open>The interface, on the source and the graph.\<close>

interpretation coroutine: lockstep "source_step exec eval" "cfg_step exec eval G" snd snd
  "\<lambda>c d. checks_assumes exec eval \<and> matches G c d" for exec eval G
proof
  fix c :: "stmt list \<times> 'a" and d
  assume "checks_assumes exec eval \<and> matches G c d"
  then obtain ss k st n acc ex where m: "checks_assumes exec eval" "c = (ss @ k, st)"
      "d = ((n, length acc), st)" "value_free (ss @ k)" "realizes G ss n acc ex" "resumes G k ex"
    by (cases c; cases d) (auto simp: matches_def)
  have "answers (cfg_step exec eval G) (matches G) snd snd c (source_step exec eval c) d"
    unfolding m(2,3)
    by (rule scope_answers [OF m(1,5,6,4)], rule exit_answers [OF m(1,6)])
      (use m(4) in \<open>simp_all add: value_free_append\<close>)
  then show "answers (cfg_step exec eval G) (\<lambda>c d. checks_assumes exec eval \<and> matches G c d)
      snd snd c (source_step exec eval c) d"
    using m(1) by (auto simp: answers_def split: move.splits)
qed

lemma build_cfg_simulates:
  assumes "checks_assumes exec eval" "value_free ss"
  shows "behaviour (cfg_step exec eval (build_cfg ss)) snd ((0, 0), st) =
    behaviour (source_step exec eval) snd (ss, st)"
proof -
  let ?G = "build_cfg ss"
  have "realizes ?G ss 0 [] None"
  proof (rule lower_realizes)
    show "map bb_id ?G = [0..<length ?G]" using build_cfg_blocks sort_upt by (metis length_map length_upt diff_zero)
    show "set (cb_blocks (lower_loop ss 0 [] None (bump 1 cfg_new))) \<subseteq> set ?G"
      using build_cfg_blocks [of ss] by auto
  qed
  then have "matches ?G (ss @ [], st) ((0, 0), st)"
    by (rule matchesI [OF _ resumes.Finish]) (use assms(2) in simp_all)
  then show ?thesis using coroutine.same_behaviour assms(1) by (metis append_Nil2)
qed


text \<open>
  A witness: \<open>while st < 2 { yield; work(); }\<close> with \<open>work\<close> counting the store
  up, from 0.
\<close>

fun demo_eval :: "expr \<Rightarrow> nat \<Rightarrow> bool" where
  "demo_eval (Expr (EUnary UnNot c) t) st = (\<not> demo_eval c st)"
| "demo_eval c st = (st < 2)"

fun demo_exec :: "stmt \<Rightarrow> nat \<Rightarrow> nat option" where
  "demo_exec (SAssume c) st = (if demo_eval c st then Some st else None)"
| "demo_exec s st = Some (Suc st)"

definition demo_while :: "stmt list" where
  "demo_while =
     [SWhile (Expr (EVar 0) Bool)
       (Block [SSemi (Expr (EYield None) Unit), SSemi (Expr (EVar 1) Unit)] None Unit)]"

lemma demo_while_shape: "value_free demo_while"
  by (simp add: demo_while_def value_free.simps(2) classify_eval yield_operand_def)

lemma demo_while_run:
  "trace (source_step demo_exec demo_eval) snd 8 (demo_while, 0) = [Yielded 0, Yielded 1, Finished 2]"
  by (simp add: demo_while_def source_step_def classify_eval yield_operand_def block_body_def
      eval_nat_numeral)


text \<open>The operand of a yield is not in the graph: it is never evaluated.\<close>

lemma yield_operand_dropped:
  "build_cfg [SSemi (Expr (EYield (Some e)) t)] = build_cfg [SSemi (Expr (EYield None) t)]"
  by (simp add: build_cfg_def build_def alloc_id_def lower_stmts_def lower_Yield classify_eval)

end
