(* ===== verification/Async_Resume.thy ===== *)
theory Async_Resume
  imports Async_Step Async_Sim
begin

text \<open>
  The generated step function, polled again and again, behaves as the control-flow graph it is generated
  from, and so as the coroutine body. The step function is run as the code it is: the arms of its loop
  are tested in order against \<open>ctx.__state\<close>, an arm's statements run until a
  \<open>continue\<close> restarts the loop or a \<open>return Poll::\<dots>\<close> ends the call, and
  the next poll enters with the \<open>__state\<close> the last one left. Of the store only the memory
  survives, with the frame \<open>ctx\<close> points to: a local variable lives in the arm that binds
  it, and is gone when the arm ends or the call returns. All other statements are run by the parameter
  \<open>exec\<close>.
\<close>

section \<open>The statement forms of a step function\<close>

definition state_assign :: "var_id \<Rightarrow> string \<Rightarrow> stmt \<Rightarrow> i64 option" where
  "state_assign ctx sn s =
     (case s of
        SSemi e \<Rightarrow>
          (case ekind e of
             EAssign l r \<Rightarrow>
               (case ekind r of
                  ELiteral (LitInt n) \<Rightarrow> if l = ctx_state ctx sn then Some n else None
                | _ \<Rightarrow> None)
           | _ \<Rightarrow> None)
      | _ \<Rightarrow> None)"

definition single :: "block \<Rightarrow> stmt option" where
  "single b =
     (case (block_stmts b, block_value b) of ([s], None) \<Rightarrow> Some s | _ \<Rightarrow> None)"

definition block_assign :: "var_id \<Rightarrow> string \<Rightarrow> block \<Rightarrow> i64 option" where
  "block_assign ctx sn b = Option.bind (single b) (state_assign ctx sn)"

definition state_branch :: "var_id \<Rightarrow> string \<Rightarrow> stmt \<Rightarrow> (expr \<times> i64 \<times> i64) option" where
  "state_branch ctx sn s =
     (case s of
        SExpr e \<Rightarrow>
          (case ekind e of
             EIf c t (Some el) \<Rightarrow>
               (case ekind el of
                  EBlock f \<Rightarrow>
                    (case (block_assign ctx sn t, block_assign ctx sn f) of
                       (Some n, Some m) \<Rightarrow> Some (c, n, m)
                     | _ \<Rightarrow> None)
                | _ \<Rightarrow> None)
           | _ \<Rightarrow> None)
      | _ \<Rightarrow> None)"

text \<open>\<open>Some True\<close> is \<open>return Poll::Pending\<close>, \<open>Some False\<close> is \<open>return Poll::Ready\<close>.\<close>

definition poll_return :: "stmt \<Rightarrow> bool option" where
  "poll_return s =
     (case s of
        SReturn (Some e) \<Rightarrow>
          (case ekind e of
             EStructLit n _ _ \<Rightarrow>
               if n = ''Poll::Pending'' then Some True
               else if n = ''Poll::Ready'' then Some False
               else None
           | _ \<Rightarrow> None)
      | _ \<Rightarrow> None)"

text \<open>The test of an arm, \<open>ctx.__state == n\<close>, and its statements.\<close>

definition state_test :: "var_id \<Rightarrow> string \<Rightarrow> expr \<Rightarrow> i64 option" where
  "state_test ctx sn c =
     (case ekind c of
        EBinary BinEq l r \<Rightarrow>
          (case ekind r of
             ELiteral (LitInt n) \<Rightarrow> if l = ctx_state ctx sn then Some n else None
           | _ \<Rightarrow> None)
      | _ \<Rightarrow> None)"

definition arm_parts :: "var_id \<Rightarrow> string \<Rightarrow> stmt \<Rightarrow> (i64 \<times> stmt list) option" where
  "arm_parts ctx sn s =
     (case s of
        SExpr e \<Rightarrow>
          (case ekind e of
             EIf c b None \<Rightarrow> map_option (\<lambda>n. (n, block_stmts b)) (state_test ctx sn c)
           | _ \<Rightarrow> None)
      | _ \<Rightarrow> None)"

lemmas step_forms =
  state_assign_def single_def block_assign_def state_branch_def poll_return_def state_test_def
  arm_parts_def

text \<open>The arms of the loop of a generated step function.\<close>

definition step_arms :: "item_kind \<Rightarrow> stmt list" where
  "step_arms k =
     (case k of
        ItemFn f \<Rightarrow>
          (case fn_body f of
             Some b \<Rightarrow> (case single b of Some (SLoop l) \<Rightarrow> block_stmts l | _ \<Rightarrow> [])
           | None \<Rightarrow> [])
      | _ \<Rightarrow> [])"

section \<open>Local variables\<close>

text \<open>The variables a statement declares for those that follow it, and the free ones of a tree.\<close>

definition stmt_declares :: "stmt \<Rightarrow> var_id set" where
  "stmt_declares s = (case s of SLocal p _ _ \<Rightarrow> collect_pattern_vars p | _ \<Rightarrow> {})"

fun expr_free :: "expr \<Rightarrow> var_id set"
and kind_free :: "expr_kind \<Rightarrow> var_id set"
and block_free :: "block \<Rightarrow> var_id set"
and stmts_free :: "stmt list \<Rightarrow> var_id set \<Rightarrow> var_id set"
and stmt_free :: "stmt \<Rightarrow> var_id set" where
  "expr_free (Expr k _) = kind_free k"
| "kind_free (EVar v) = {v}"
| "kind_free (ECall f args) = expr_free f \<union> (\<Union>a \<in> set args. expr_free a)"
| "kind_free (EBinary _ a b) = expr_free a \<union> expr_free b"
| "kind_free (EUnary _ a) = expr_free a"
| "kind_free (EBlock b) = block_free b"
| "kind_free (EIf c b els) =
     expr_free c \<union> block_free b \<union> (case els of None \<Rightarrow> {} | Some e \<Rightarrow> expr_free e)"
| "kind_free (EWhile c b) = expr_free c \<union> block_free b"
| "kind_free (ELoop b) = block_free b"
| "kind_free (EReturn v) = (case v of None \<Rightarrow> {} | Some e \<Rightarrow> expr_free e)"
| "kind_free (EField a _) = expr_free a"
| "kind_free (ECast a _) = expr_free a"
| "kind_free (EStructLit _ _ fs) = (\<Union>f \<in> set fs. expr_free (snd f))"
| "kind_free (EAssign a b) = expr_free a \<union> expr_free b"
| "kind_free (EIndex a b) = expr_free a \<union> expr_free b"
| "kind_free (ERef a) = expr_free a"
| "kind_free (EMethodCall r _ args) = expr_free r \<union> (\<Union>a \<in> set args. expr_free a)"
| "kind_free (ERequires a) = expr_free a"
| "kind_free (EEnsures a) = expr_free a"
| "kind_free (EYield v) = (case v of None \<Rightarrow> {} | Some e \<Rightarrow> expr_free e)"
| "kind_free _ = {}"
| "block_free (Block ss v _) = stmts_free ss (case v of None \<Rightarrow> {} | Some e \<Rightarrow> expr_free e)"
| "stmts_free [] V = V"
| "stmts_free (s # ss) V = stmt_free s \<union> (stmts_free ss V - stmt_declares s)"
| "stmt_free (SLocal _ _ init) = (case init of None \<Rightarrow> {} | Some e \<Rightarrow> expr_free e)"
| "stmt_free (SExpr e) = expr_free e"
| "stmt_free (SSemi e) = expr_free e"
| "stmt_free (SWhile c b) = expr_free c \<union> block_free b"
| "stmt_free (SFor v _ it b) = expr_free it \<union> (block_free b - {v})"
| "stmt_free (SLoop b) = block_free b"
| "stmt_free (SReturn v) = (case v of None \<Rightarrow> {} | Some e \<Rightarrow> expr_free e)"
| "stmt_free (SAssume e) = expr_free e"
| "stmt_free _ = {}"

text \<open>
  A store is the memory and the values of the local variables. What a statement does depends on
  the memory and on its free variables only.
\<close>

type_synonym ('f, 'v) store = "'f \<times> (var_id \<Rightarrow> 'v)"

definition agree :: "var_id set \<Rightarrow> (var_id \<Rightarrow> 'v) \<Rightarrow> (var_id \<Rightarrow> 'v) \<Rightarrow> bool" where
  "agree D l l' = (\<forall>v \<in> D. l v = l' v)"

definition lexical ::
  "(stmt \<Rightarrow> ('f, 'v) store \<Rightarrow> ('f, 'v) store option) \<Rightarrow> (expr \<Rightarrow> ('f, 'v) store \<Rightarrow> bool) \<Rightarrow> bool" where
  "lexical exec eval =
     ((\<forall>s D f l l'. stmt_free s \<subseteq> D \<longrightarrow> agree D l l' \<longrightarrow>
         rel_option (\<lambda>(g, m) (g', m'). g = g' \<and> agree (D \<union> stmt_declares s) m m')
           (exec s (f, l)) (exec s (f, l'))) \<and>
      (\<forall>c D f l l'. expr_free c \<subseteq> D \<longrightarrow> agree D l l' \<longrightarrow> eval c (f, l) = eval c (f, l')))"

text \<open>
  The statements and the terminator of a block use no other local than those in \<open>D\<close> and
  those that the block itself has declared before.
\<close>

fun contained :: "var_id set \<Rightarrow> stmt list \<Rightarrow> terminator \<Rightarrow> bool" where
  "contained D [] t = (case t of Branch c _ _ \<Rightarrow> expr_free c \<subseteq> D | _ \<Rightarrow> True)"
| "contained D (s # ss) t = (stmt_free s \<subseteq> D \<and> contained (D \<union> stmt_declares s) ss t)"

section \<open>Running a step function\<close>

text \<open>
  What is left of a store when an arm or a call ends: the memory, and the context that every call
  gets. The other locals hold whatever \<open>fresh\<close> says.
\<close>

definition forget ::
  "(('f, 'v) store \<Rightarrow> var_id \<Rightarrow> 'v) \<Rightarrow> var_id \<Rightarrow> ('f, 'v) store \<Rightarrow> ('f, 'v) store" where
  "forget fresh ctx st = (fst st, (fresh st)(ctx := snd st ctx))"

text \<open>
  A configuration: the rest of the arm being run, the arms of the loop body not tested yet, the
  discriminant and the store.
\<close>

definition poll_step ::
  "(stmt \<Rightarrow> ('f, 'v) store \<Rightarrow> ('f, 'v) store option) \<Rightarrow> (expr \<Rightarrow> ('f, 'v) store \<Rightarrow> bool) \<Rightarrow>
   (('f, 'v) store \<Rightarrow> var_id \<Rightarrow> 'v) \<Rightarrow> var_id \<Rightarrow> string \<Rightarrow> stmt list \<Rightarrow>
   (stmt list \<times> stmt list \<times> i64) \<times> ('f, 'v) store \<Rightarrow>
   ((stmt list \<times> stmt list \<times> i64) \<times> ('f, 'v) store) move" where
  "poll_step exec eval fresh ctx sn arms c =
     (case c of
        (([], [], w), st) \<Rightarrow> Next (([], arms, w), st)
      | (([], arm # pending, w), st) \<Rightarrow>
          (case arm_parts ctx sn arm of
             Some (n, ss) \<Rightarrow>
               Next (if w = n then ((ss, pending, w), forget fresh ctx st) else (([], pending, w), st))
           | None \<Rightarrow> (case exec arm st of None \<Rightarrow> Abort | Some st' \<Rightarrow> Next (([], pending, w), st')))
      | ((s # rest, pending, w), st) \<Rightarrow>
          (if s = SContinue then Next (([], arms, w), st)
           else case poll_return s of
             Some suspend \<Rightarrow> if suspend then Suspend (([], arms, w), forget fresh ctx st) else Done
           | None \<Rightarrow>
           (case state_assign ctx sn s of
             Some n \<Rightarrow> Next ((rest, pending, n), st)
           | None \<Rightarrow>
           (case state_branch ctx sn s of
             Some (c, n, m) \<Rightarrow> Next ((rest, pending, if eval c st then n else m), st)
           | None \<Rightarrow>
           (case exec s st of
             None \<Rightarrow> Abort
           | Some st' \<Rightarrow> Next ((rest, pending, w), st'))))))"

text \<open>Statements that none of the generated forms could be confused with.\<close>

definition ordinary :: "var_id \<Rightarrow> string \<Rightarrow> stmt \<Rightarrow> bool" where
  "ordinary ctx sn s =
     (s \<noteq> SContinue \<and> \<not> is_return_value s \<and> poll_return s = None \<and> state_assign ctx sn s = None \<and>
      state_branch ctx sn s = None)"

lemma ordinary_run:
  "ordinary ctx sn s \<Longrightarrow>
     poll_step exec eval fresh ctx sn arms ((s # rest, pending, w), st) =
       (case exec s st of None \<Rightarrow> Abort | Some st' \<Rightarrow> Next ((rest, pending, w), st'))"
  by (simp add: poll_step_def ordinary_def)

lemma poll_step_simps [simp]:
  "poll_step exec eval fresh ctx sn arms (([], [], w), st) = Next (([], arms, w), st)"
  "poll_step exec eval fresh ctx sn arms ((SContinue # rest, pending, w), st) = Next (([], arms, w), st)"
  "poll_step exec eval fresh ctx sn arms ((return_poll ''Pending'' fs t # rest, pending, w), st) =
     Suspend (([], arms, w), forget fresh ctx st)"
  "poll_step exec eval fresh ctx sn arms ((return_poll ''Ready'' fs t # rest, pending, w), st) = Done"
  "poll_step exec eval fresh ctx sn arms ((make_state_assign ctx n sn # rest, pending, w), st) =
     Next ((rest, pending, n), st)"
  "poll_step exec eval fresh ctx sn arms
     ((SExpr (Expr (EIf c (Block [make_state_assign ctx n sn] None u)
        (Some (Expr (EBlock (Block [make_state_assign ctx m sn] None u')) u''))) u''') # rest,
       pending, w), st) = Next ((rest, pending, if eval c st then n else m), st)"
  "poll_step exec eval fresh ctx sn arms (([], dispatch_arm ctx sn k ss # pending, w), st) =
     Next (if w = of_nat k then ((ss, pending, w), forget fresh ctx st) else (([], pending, w), st))"
  by (simp_all add: poll_step_def return_poll_def make_state_assign_def int_lit_def
      dispatch_arm_def step_forms)

section \<open>Dispatch\<close>

definition arms_of :: "var_id \<Rightarrow> string \<Rightarrow> ty \<Rightarrow> basic_block list \<Rightarrow> stmt list" where
  "arms_of ctx sn rt G = map (\<lambda>k. dispatch_arm ctx sn (bb_id k) (emit_block ctx sn rt k)) G"

lemma step_arms_generate:
  "step_arms (item_kind_of (generate_step_fn_from_cfg f sn G rt ctx)) = arms_of ctx sn rt G"
  by (simp add: generate_step_fn_from_cfg_def step_item_def private_item_def arms_of_def
      step_arms_def single_def)

text \<open>The loop reaches the arm of the current state, and no other arm runs before it.\<close>

lemma scan:
  assumes "\<forall>k \<in> set G. bb_id k < 2 ^ 64" "distinct (map bb_id G)" "i < length G"
  shows "silent (poll_step exec eval fresh ctx sn arms) (Suc i)
    (([], arms_of ctx sn rt G, of_nat (bb_id (G ! i))), st)
    ((emit_block ctx sn rt (G ! i), arms_of ctx sn rt (drop (Suc i) G), of_nat (bb_id (G ! i))), forget fresh ctx st)"
  using assms
proof (induction G arbitrary: i)
  case (Cons k G)
  show ?case
  proof (cases i)
    case (Suc j)
    have j: "G ! j \<in> set G" using Cons.prems(3) Suc by simp
    then have "bb_id (G ! j) \<noteq> bb_id k" using Cons.prems(2) by (metis distinct.simps(2) image_eqI list.set_map list.simps(9))
    moreover have "bb_id (G ! j) < 2 ^ 64" "bb_id k < 2 ^ 64" using Cons.prems(1) j by auto
    ultimately have "(of_nat (bb_id (G ! j)) :: i64) \<noteq> of_nat (bb_id k)"
      by (simp add: word_of_nat_eq_iff take_bit_nat_eq_self)
    then show ?thesis
      using Cons.IH [of j] Cons.prems Suc by (simp add: arms_of_def)
  qed (simp add: arms_of_def)
qed simp

section \<open>The simulation\<close>

lemma extract_none:
  "\<forall>s \<in> set ss. \<not> is_return_value s \<Longrightarrow> extract_return_expr ss = (None, ss)"
proof -
  have "extract_return_rev ss = (None, ss)" if "\<forall>s \<in> set ss. \<not> is_return_value s" for ss
    using that
    by (induction ss) (auto simp: is_return_value_def split: stmt.splits option.splits)
  then show "\<forall>s \<in> set ss. \<not> is_return_value s \<Longrightarrow> extract_return_expr ss = (None, ss)"
    by (simp add: extract_return_expr_def)
qed

lemma emit_block_stmts:
  "\<forall>s \<in> set (bb_stmts k). \<not> is_return_value s \<Longrightarrow>
     \<exists>end. emit_block ctx sn rt k = bb_stmts k @ end"
  by (auto simp: emit_block_def extract_none split: terminator.splits)

text \<open>Graphs as the builder makes them, of bodies of ordinary statements.\<close>

definition emittable :: "var_id \<Rightarrow> string \<Rightarrow> basic_block list \<Rightarrow> bool" where
  "emittable ctx sn G =
     (map bb_id G = [0..<length G] \<and> length G \<le> 2 ^ 64 \<and>
      (\<Union>k \<in> set G. targets (bb_term k)) \<subseteq> {0..<length G} \<and>
      (\<forall>k \<in> set G. \<forall>s \<in> set (bb_stmts k). ordinary ctx sn s) \<and>
      (\<forall>k \<in> set G. contained {ctx} (bb_stmts k) (bb_term k)))"

text \<open>
  The graph has the whole store; the step function has the same memory, and the same values of the
  locals its current arm has declared.
\<close>

definition resumed ::
  "var_id \<Rightarrow> string \<Rightarrow> ty \<Rightarrow> basic_block list \<Rightarrow> (nat \<times> nat) \<times> ('f, 'v) store \<Rightarrow>
   (stmt list \<times> stmt list \<times> i64) \<times> ('f, 'v) store \<Rightarrow> bool" where
  "resumed ctx sn rt G c d =
     (\<exists>n i f l l'. c = ((n, i), (f, l)) \<and> n < length G \<and>
        ((\<exists>pending w D. i \<le> length (bb_stmts (G ! n)) \<and> ctx \<in> D \<and> agree D l l' \<and>
            contained D (drop i (bb_stmts (G ! n))) (bb_term (G ! n)) \<and>
            d = ((drop i (emit_block ctx sn rt (G ! n)), pending, w), (f, l'))) \<or>
         (i = 0 \<and> l ctx = l' ctx \<and> d = (([], arms_of ctx sn rt G, of_nat n), (f, l')))))"

lemma resumed_inside:
  "n < length G \<Longrightarrow> i \<le> length (bb_stmts (G ! n)) \<Longrightarrow> ctx \<in> D \<Longrightarrow> agree D l l' \<Longrightarrow>
     contained D (drop i (bb_stmts (G ! n))) (bb_term (G ! n)) \<Longrightarrow>
     resumed ctx sn rt G ((n, i), (f, l)) ((drop i (emit_block ctx sn rt (G ! n)), pending, w), (f, l'))"
  by (auto simp: resumed_def)

lemma resumed_start:
  "n < length G \<Longrightarrow> l ctx = l' ctx \<Longrightarrow>
     resumed ctx sn rt G ((n, 0), (f, l)) (([], arms_of ctx sn rt G, of_nat n), (f, l'))"
  by (auto simp: resumed_def)

abbreviation memory :: "'c \<times> ('f, 'v) store \<Rightarrow> 'f" where
  "memory c \<equiv> fst (snd c)"

lemma block_answers:
  assumes ok: "emittable ctx sn G" and lex: "lexical exec eval"
    and n: "n < length G" "i \<le> length (bb_stmts (G ! n))"
    and D: "ctx \<in> D" "agree D l l'" "contained D (drop i (bb_stmts (G ! n))) (bb_term (G ! n))"
  shows "answers (poll_step exec eval fresh ctx sn (arms_of ctx sn rt G)) (resumed ctx sn rt G) memory memory
    ((n, i), (f, l)) (cfg_step exec eval G ((n, i), (f, l)))
    ((drop i (emit_block ctx sn rt (G ! n)), pending, w), (f, l'))"
proof -
  let ?k = "G ! n" and ?P = "poll_step exec eval fresh ctx sn (arms_of ctx sn rt G)"
  have mem: "?k \<in> set G" using n(1) by simp
  have ord: "ordinary ctx sn s" if "s \<in> set (bb_stmts ?k)" for s
    using ok mem that by (auto simp: emittable_def)
  have tgt: "targets (bb_term ?k) \<subseteq> {0..<length G}"
    using ok mem by (auto simp: emittable_def)
  have noret: "\<forall>s \<in> set (bb_stmts ?k). \<not> is_return_value s"
    using ord by (auto simp: ordinary_def)
  have ctx: "l ctx = l' ctx" using D(1,2) by (simp add: agree_def)
  show ?thesis
  proof (cases "i < length (bb_stmts ?k)")
    case True
    let ?s = "bb_stmts ?k ! i"
    have at: "drop i (bb_stmts ?k) = ?s # drop (Suc i) (bb_stmts ?k)"
      using True by (simp add: Cons_nth_drop_Suc)
    have emit: "drop i (emit_block ctx sn rt ?k) = ?s # drop (Suc i) (emit_block ctx sn rt ?k)"
      using emit_block_stmts [OF noret, of ctx sn rt] True
      by (metis append_eq_conv_conj Cons_nth_drop_Suc nth_append length_append trans_less_add1)
    have ord: "ordinary ctx sn ?s" using True ord by simp
    have free: "stmt_free ?s \<subseteq> D" "contained (D \<union> stmt_declares ?s) (drop (Suc i) (bb_stmts ?k)) (bb_term ?k)"
      using D(3) by (simp_all add: at)
    have "rel_option (\<lambda>(g, m) (g', m'). g = g' \<and> agree (D \<union> stmt_declares ?s) m m')
        (exec ?s (f, l)) (exec ?s (f, l'))"
      using lex free(1) D(2) by (simp add: lexical_def)
    then consider (stop) "exec ?s (f, l) = None" "exec ?s (f, l') = None"
      | (go) g m m' where "exec ?s (f, l) = Some (g, m)" "exec ?s (f, l') = Some (g, m')"
          "agree (D \<union> stmt_declares ?s) m m'"
      by (cases rule: option.rel_cases) auto
    then show ?thesis
    proof cases
      case stop
      then show ?thesis using True n(1)
        by (auto simp: cfg_step_def emit ordinary_run [OF ord] intro!: answers_AbortI)
    next
      case go
      have "resumed ctx sn rt G ((n, Suc i), (g, m)) ((drop (Suc i) (emit_block ctx sn rt ?k), pending, w), (g, m'))"
        using D(1) by (intro resumed_inside [OF n(1) _ _ go(3) free(2)]) (use True in auto)
      then show ?thesis using True n(1) go(1,2)
        by (auto simp: cfg_step_def emit ordinary_run [OF ord] intro!: answers_NextI [where k = 0])
    qed
  next
    case False
    then have i: "i = length (bb_stmts ?k)" using n(2) by simp
    show ?thesis
    proof (cases "bb_term ?k")
      case (Goto t)
      have "silent ?P (Suc 1) ((drop i (emit_block ctx sn rt ?k), pending, w), (f, l'))
          (([], arms_of ctx sn rt G, of_nat t), (f, l'))"
        by (simp add: i emit_block_def Goto)
      moreover have "t < length G" using Goto tgt by simp
      moreover have "cfg_step exec eval G ((n, i), (f, l)) = Next ((t, 0), (f, l))"
        using n(1) by (simp add: cfg_step_def i Goto)
      ultimately show ?thesis by (simp only: answers_NextI resumed_start ctx)
    next
      case (Branch c t u)
      let ?n = "if eval c (f, l) then t else u"
      have "eval c (f, l) = eval c (f, l')" using lex D(2,3) by (simp add: lexical_def i Branch)
      then have "silent ?P (Suc 1) ((drop i (emit_block ctx sn rt ?k), pending, w), (f, l'))
          (([], arms_of ctx sn rt G, of_nat ?n), (f, l'))"
        by (simp add: i emit_block_def Branch)
      moreover have "?n < length G" using Branch tgt by simp
      moreover have "cfg_step exec eval G ((n, i), (f, l)) = Next ((?n, 0), (f, l))"
        using n(1) by (simp add: cfg_step_def i Branch)
      ultimately show ?thesis by (simp only: answers_NextI resumed_start ctx)
    next
      case (Yield r)
      have "silent ?P 1 ((drop i (emit_block ctx sn rt ?k), pending, w), (f, l'))
          (([return_poll ''Pending'' [] rt], pending, of_nat r), (f, l'))"
        by (simp add: i emit_block_def Yield)
      moreover have "r < length G" using Yield tgt by simp
      moreover have "cfg_step exec eval G ((n, i), (f, l)) = Suspend ((r, 0), (f, l))"
        using n(1) by (simp add: cfg_step_def i Yield)
      ultimately show ?thesis
        by (simp only:) (rule answers_silent, assumption, rule answers_SuspendI,
          auto simp: forget_def ctx intro!: resumed_start)
    next
      case Return
      have "silent ?P 1 ((drop i (emit_block ctx sn rt ?k), pending, w), (f, l'))
          (([return_poll ''Ready'' [] rt], pending, - 1), (f, l'))"
        by (simp add: i emit_block_def Return extract_none [OF noret])
      moreover have "cfg_step exec eval G ((n, i), (f, l)) = Done"
        using n(1) by (simp add: cfg_step_def i Return)
      ultimately show ?thesis
        by (simp only:) (rule answers_silent, assumption, rule answers_DoneI, simp_all)
    qed
  qed
qed

interpretation resumption: lockstep "cfg_step exec eval G"
  "poll_step exec eval fresh ctx sn (arms_of ctx sn rt G)" memory memory
  "\<lambda>c d. (emittable ctx sn G \<and> lexical exec eval) \<and> resumed ctx sn rt G c d" for exec eval G fresh ctx sn rt
proof
  fix c :: "(nat \<times> nat) \<times> ('a, 'b) store" and d
  assume m: "(emittable ctx sn G \<and> lexical exec eval) \<and> resumed ctx sn rt G c d"
  let ?P = "poll_step exec eval fresh ctx sn (arms_of ctx sn rt G)"
  obtain n i f l l' where c: "c = ((n, i), (f, l))" "n < length G"
    and d: "(\<exists>pending w D. i \<le> length (bb_stmts (G ! n)) \<and> ctx \<in> D \<and> agree D l l' \<and>
        contained D (drop i (bb_stmts (G ! n))) (bb_term (G ! n)) \<and>
        d = ((drop i (emit_block ctx sn rt (G ! n)), pending, w), (f, l'))) \<or>
      (i = 0 \<and> l ctx = l' ctx \<and> d = (([], arms_of ctx sn rt G, of_nat n), (f, l')))"
    using m unfolding resumed_def by blast
  have "answers ?P (resumed ctx sn rt G) memory memory c (cfg_step exec eval G c) d"
    using d
  proof (elim disjE exE conjE)
    assume start: "i = 0" "l ctx = l' ctx" "d = (([], arms_of ctx sn rt G, of_nat n), (f, l'))"
    have ids: "map bb_id G = [0..<length G]" "length G \<le> 2 ^ 64"
      using m by (simp_all add: emittable_def)
    then have "bb_id k < 2 ^ 64" if "k \<in> set G" for k
      using that by (metis (no_types, lifting) atLeastLessThan_iff image_eqI list.set_map
          order_less_le_trans set_upt)
    moreover have "distinct (map bb_id G)" "bb_id (G ! n) = n"
      using ids(1) c(2) by (simp_all, metis add_0 nth_map nth_upt)
    ultimately have "silent ?P (Suc n) d ((emit_block ctx sn rt (G ! n),
        arms_of ctx sn rt (drop (Suc n) G), of_nat n), forget fresh ctx (f, l'))"
      using scan [of G n exec eval fresh ctx sn "arms_of ctx sn rt G" rt "(f, l')"] c(2) start(3) by simp
    moreover have "contained {ctx} (bb_stmts (G ! n)) (bb_term (G ! n))"
      using m c(2) by (simp add: emittable_def)
    then have "answers ?P (resumed ctx sn rt G) memory memory ((n, 0), (f, l))
        (cfg_step exec eval G ((n, 0), (f, l)))
        ((emit_block ctx sn rt (G ! n), arms_of ctx sn rt (drop (Suc n) G), of_nat n), forget fresh ctx (f, l'))"
      using block_answers [of ctx sn G exec eval n 0 "{ctx}" l "snd (forget fresh ctx (f, l'))" fresh rt f]
        m c(2) start(2) by (simp add: agree_def forget_def)
    ultimately show ?thesis unfolding c(1) start(1) by (rule answers_silent)
  qed (use block_answers m c in auto)
  then show "answers ?P (\<lambda>c d. (emittable ctx sn G \<and> lexical exec eval) \<and> resumed ctx sn rt G c d) memory memory c
      (cfg_step exec eval G c) d"
    using m by (auto simp: answers_def split: move.splits)
qed

section \<open>From the body to the step function\<close>

text \<open>The statements of a body that are run as they are.\<close>

function leaves :: "stmt list \<Rightarrow> stmt list" where
  "leaves [] = []"
| "leaves (s # ss) =
     (case classify s of
        Plain \<Rightarrow> [s]
      | YieldPoint \<Rightarrow> []
      | FlatWhile c b \<Rightarrow> leaves (block_stmts b)
      | FlatLoop b \<Rightarrow> leaves (block_stmts b)
      | FlatIf c t els \<Rightarrow>
          leaves (block_stmts t) @
          (case els of None \<Rightarrow> [] | Some el \<Rightarrow> leaves (else_stmts el))) @ leaves ss"
  by pat_completeness auto
termination
  by (relation "measure (size_list size)") (auto dest: classify_size)

declare leaves.simps(2) [simp del]

lemma lower_leaves:
  assumes "\<And>c. P (SAssume c)"
  shows "list_all P (leaves ss) \<Longrightarrow> list_all P acc \<Longrightarrow> list_all (\<lambda>k. list_all P (bb_stmts k)) (cb_blocks b) \<Longrightarrow>
     list_all (\<lambda>k. list_all P (bb_stmts k)) (cb_blocks (lower_loop ss cur acc ex b))"
proof (induction ss arbitrary: cur acc ex b rule: lower_induct)
  case (If s ss c t els)
  then show ?case by (cases els) (auto simp: lower_If lower_else_def leaves.simps(2) assms)
qed (auto simp: lower_Plain lower_Yield lower_While lower_Loop leaves.simps(2) assms)

lemma build_cfg_emittable:
  assumes "list_all (ordinary ctx sn) (leaves ss)" "length (build_cfg ss) \<le> 2 ^ 64"
    and "\<forall>k \<in> set (build_cfg ss). contained {ctx} (bb_stmts k) (bb_term k)"
  shows "emittable ctx sn (build_cfg ss)" "0 < length (build_cfg ss)"
proof -
  obtain bs n where b: "build_cfg ss = sort_key bb_id bs" "mset (map bb_id bs) = mset [0..<n]"
      "\<forall>k \<in> set bs. targets (bb_term k) \<subseteq> {0..<n}"
      "bs = cb_blocks (lower_loop ss 0 [] None (bump 1 cfg_new))"
    using build_cfg_blocks by blast
  have ids: "map bb_id (build_cfg ss) = [0..<n]" unfolding b(1) by (rule sort_upt [OF b(2)])
  then have len: "length (build_cfg ss) = n" by (metis length_map length_upt diff_zero)
  have "ordinary ctx sn (SAssume c)" for c
    by (simp add: ordinary_def is_return_value_def step_forms)
  then have "list_all (\<lambda>k. list_all (ordinary ctx sn) (bb_stmts k)) bs"
    unfolding b(4) by (rule lower_leaves [OF _ assms(1)]) (simp_all add: cfg_new_def)
  then show "emittable ctx sn (build_cfg ss)"
    using ids len b(1,3) assms(2,3) by (auto simp: emittable_def list_all_iff)
  have "bs \<noteq> []" using lower_grown [of 0 None "bump 1 cfg_new" ss "[]"] b(4) by (auto simp: grown_def)
  then show "0 < length (build_cfg ss)" using b(1) by simp
qed

text \<open>Observing less of the store.\<close>

lemma trace_of_map: "trace step (h \<circ> store) n c = map (map_event h) (trace step store n c)"
  by (induction n arbitrary: c) (auto split: move.split)

lemma behaviour_of_map: "behaviour step (h \<circ> store) c = map (map_event h) ` behaviour step store c"
  by (simp add: behaviour_def trace_of_map image_image)

text \<open>
  Property C2: the generated step function implements the coroutine, although it loses its local
  variables. Polled until it is ready, it shows the same memory, with the frame, at the same suspensions
  and at the end as the body, in finite and in endless runs; whatever value a lost local has afterwards.
  The body is the one after the rewriting of the saved variables, and the condition on it is what the
  saving has to establish: no block of its graph uses a local variable, other than the context, that it
  does not declare itself before the use (conditions of split statements included, which the graph
  repeats at their targets as assumptions). The driver does not establish it for every function: it
  never saves a \<open>let\<close> (\<open>let_never_saved\<close>). The blocks and yields of the body
  have no value, its unsplit statements are not \<open>continue\<close> or \<open>return e\<close>
  (returns of a value are not covered) and not an assignment to \<open>ctx.__state\<close>, and the
  number of blocks must fit the 64-bit discriminant. A statement depends on the memory and its free
  variables only.
\<close>

theorem step_fn_refines_source:
  fixes exec :: "stmt \<Rightarrow> ('f, 'v) store \<Rightarrow> ('f, 'v) store option"
  assumes "checks_assumes exec eval" "lexical exec eval" "value_free ss"
    and "list_all (ordinary ctx sn) (leaves ss)" "length (build_cfg ss) \<le> 2 ^ 64"
    and "\<forall>k \<in> set (build_cfg ss). contained {ctx} (bb_stmts k) (bb_term k)"
    and "arms = step_arms (item_kind_of (generate_step_fn_from_cfg f sn (build_cfg ss) rt ctx))"
  shows "behaviour (poll_step exec eval fresh ctx sn arms) memory (([], arms, 0), st) =
    behaviour (source_step exec eval) memory (ss, st)"
proof -
  note ok = build_cfg_emittable [OF assms(4-6)]
  obtain m l where st: "st = (m, l)" by (cases st)
  have "resumed ctx sn rt (build_cfg ss) ((0, 0), st) (([], arms, 0), st)"
    using resumed_start [OF ok(2), of l ctx l sn rt m] unfolding assms(7) step_arms_generate st by simp
  then have "behaviour (cfg_step exec eval (build_cfg ss)) memory ((0, 0), st) =
      behaviour (poll_step exec eval fresh ctx sn arms) memory (([], arms, 0), st)"
    unfolding assms(7) step_arms_generate by (intro resumption.same_behaviour conjI ok(1) assms(2))
  moreover have "behaviour (cfg_step exec eval (build_cfg ss)) snd ((0, 0), st) =
      behaviour (source_step exec eval) snd (ss, st)"
    by (rule build_cfg_simulates [OF assms(1,3)])
  then have "behaviour (cfg_step exec eval (build_cfg ss)) (fst \<circ> snd) ((0, 0), st) =
      behaviour (source_step exec eval) (fst \<circ> snd) (ss, st)"
    by (simp only: behaviour_of_map)
  ultimately show ?thesis by (simp add: o_def)
qed

text \<open>
  A witness: \<open>while work { yield; let x = 1; memory += x; }\<close>, with a local that lives between two
  suspensions only, while the memory is below 2.
\<close>

definition local_eval :: "expr \<Rightarrow> (nat, nat) store \<Rightarrow> bool" where
  "local_eval c st = demo_eval c (fst st)"

fun local_exec :: "stmt \<Rightarrow> (nat, nat) store \<Rightarrow> (nat, nat) store option" where
  "local_exec (SAssume c) st = (if local_eval c st then Some st else None)"
| "local_exec (SLocal p _ _) (f, l) = Some (f, \<lambda>v. if v \<in> collect_pattern_vars p then 1 else l v)"
| "local_exec (SSemi (Expr (EVar v) _)) (f, l) = Some (f + l v, l)"
| "local_exec s st = Some st"

definition demo_local :: "stmt list" where
  "demo_local =
     [SWhile (Expr (ELiteral (LitBool True)) Bool)
       (Block [SSemi (Expr (EYield None) Unit), SLocal (PBind ''x'' 3 False) None None,
         SSemi (Expr (EVar 3) Unit)] None Unit)]"

lemma local_lexical: "lexical local_exec local_eval"
proof -
  have "rel_option (\<lambda>(g, m) (g', m'). g = g' \<and> agree (D \<union> stmt_declares s) m m')
      (local_exec s (f, l)) (local_exec s (f, l'))"
    if "stmt_free s \<subseteq> D" "agree D l l'" for s D f l l'
    using that
    by (cases "(s, (f, l))" rule: local_exec.cases) (auto simp: agree_def local_eval_def stmt_declares_def)
  then show ?thesis unfolding lexical_def by (simp add: local_eval_def)
qed

theorem step_fn_refines_source_witness:
  "[Yielded 0, Yielded 1, Finished 2] \<in>
     (let arms = step_arms (item_kind_of
        (generate_step_fn_from_cfg ''f'' ''S'' (build_cfg demo_local) Unit 9))
      in behaviour (poll_step local_exec local_eval (\<lambda>_ _. 7) 9 ''S'' arms) memory (([], arms, 0), (0, \<lambda>_. 5)))"
proof -
  have g: "build_cfg demo_local =
      (let c = Expr (ELiteral (LitBool True)) Bool in
       [\<lparr>bb_id = 0, bb_stmts = [], bb_term = Goto 1\<rparr>,
        \<lparr>bb_id = 1, bb_stmts = [], bb_term = Branch c 2 3\<rparr>,
        \<lparr>bb_id = 2, bb_stmts = [SAssume c], bb_term = Yield 4\<rparr>,
        \<lparr>bb_id = 3, bb_stmts = [SAssume (negate c)], bb_term = Return\<rparr>,
        \<lparr>bb_id = 4, bb_stmts = [SLocal (PBind ''x'' 3 False) None None, SSemi (Expr (EVar 3) Unit)],
          bb_term = Goto 1\<rparr>])"
    by (simp add: demo_local_def build_cfg_def build_def alloc_id_def lower_stmts_def lower_While
        lower_Yield lower_Plain classify_eval cfg_new_def final_terminator_def eval_nat_numeral Let_def)
  have c: "checks_assumes local_exec local_eval" by (simp add: checks_assumes_def negate_def local_eval_def)
  have o: "list_all (ordinary 9 ''S'') (leaves demo_local)"
    by (simp add: demo_local_def leaves.simps(2) classify_eval ordinary_def is_return_value_def
        step_forms)
  have v: "value_free demo_local"
    by (simp add: demo_local_def value_free.simps(2) classify_eval yield_operand_def)
  have run: "trace (source_step local_exec local_eval) memory 12 (demo_local, (0, \<lambda>_. 5)) =
      [Yielded 0, Yielded 1, Finished 2]"
    by (simp add: demo_local_def source_step_def classify_eval yield_operand_def block_body_def
        eval_nat_numeral local_eval_def)
  have n: "length (build_cfg demo_local) \<le> 2 ^ 64"
    and w: "\<forall>k \<in> set (build_cfg demo_local). contained {9} (bb_stmts k) (bb_term k)"
    by (simp_all add: g Let_def negate_def stmt_declares_def)
  show ?thesis
    unfolding Let_def step_fn_refines_source [OF c local_lexical v o n w refl]
    unfolding behaviour_def using run by (metis rangeI)
qed

text \<open>
  The condition on the blocks is needed: \<open>let x = 1; yield; memory += x\<close> without a saved variable
  finds another value after the suspension.
\<close>

definition demo_crossing :: "stmt list" where
  "demo_crossing =
     [SLocal (PBind ''x'' 3 False) None None, SSemi (Expr (EYield None) Unit), SSemi (Expr (EVar 3) Unit)]"

lemma unsaved_local_lost:
  "trace (source_step local_exec local_eval) memory 4 (demo_crossing, (0, \<lambda>_. 5)) = [Yielded 0, Finished 1]"
  "let arms = step_arms (item_kind_of
        (generate_step_fn_from_cfg ''f'' ''S'' (build_cfg demo_crossing) Unit 9))
   in trace (poll_step local_exec local_eval (\<lambda>_ _. 7) 9 ''S'' arms) memory 9 (([], arms, 0), (0, \<lambda>_. 5)) =
      [Yielded 0, Finished 7]"
proof -
  show "trace (source_step local_exec local_eval) memory 4 (demo_crossing, (0, \<lambda>_. 5)) = [Yielded 0, Finished 1]"
    by (simp add: demo_crossing_def source_step_def classify_eval yield_operand_def eval_nat_numeral)
  have "build_cfg demo_crossing =
      [\<lparr>bb_id = 0, bb_stmts = [SLocal (PBind ''x'' 3 False) None None], bb_term = Yield 1\<rparr>,
       \<lparr>bb_id = 1, bb_stmts = [SSemi (Expr (EVar 3) Unit)], bb_term = Return\<rparr>]"
    by (simp add: demo_crossing_def build_cfg_def build_def alloc_id_def lower_stmts_def
        lower_Yield lower_Plain classify_eval cfg_new_def final_terminator_def)
  then have arms: "step_arms (item_kind_of
        (generate_step_fn_from_cfg ''f'' ''S'' (build_cfg demo_crossing) Unit 9)) =
      [dispatch_arm 9 ''S'' 0 [SLocal (PBind ''x'' 3 False) None None,
         make_state_assign 9 1 ''S'', return_poll ''Pending'' [] Unit],
       dispatch_arm 9 ''S'' 1 [SSemi (Expr (EVar 3) Unit),
         make_state_assign 9 (- 1) ''S'', return_poll ''Ready'' [] Unit]]"
    by (simp add: step_arms_generate arms_of_def emit_block_def extract_none is_return_value_def)
  have nine: "(9 :: nat) = Suc (Suc (Suc (Suc (Suc (Suc (Suc (Suc (Suc 0))))))))" by simp
  show "let arms = step_arms (item_kind_of
        (generate_step_fn_from_cfg ''f'' ''S'' (build_cfg demo_crossing) Unit 9))
   in trace (poll_step local_exec local_eval (\<lambda>_ _. 7) 9 ''S'' arms) memory 9 (([], arms, 0), (0, \<lambda>_. 5)) =
      [Yielded 0, Finished 7]"
    unfolding arms Let_def nine
    by (simp add: ordinary_run ordinary_def is_return_value_def step_forms forget_def)
qed

end
