(* ===== verification/Pulse.thy ===== *)
theory Pulse
  imports Async_Cfg
begin

text \<open>
  The cycle-budget verifier of coroutines (\<open>salt-front/src/hir/verify_pulse_bounds/mod.rs\<close>):
  the cost model, and the depth-first search over the paths from the entry of a control-flow
  graph to its first suspensions. Costs are 64-bit words with signed comparison; the Rust code
  adds with the wrap-around of a release build.
\<close>

section \<open>Cost model\<close>

definition smax :: "i64 \<Rightarrow> i64 \<Rightarrow> i64" where
  "smax a b = (if sint a \<le> sint b then b else a)"

definition op_cost :: "bin_op \<Rightarrow> i64" where
  "op_cost op = (if op = BinDiv \<or> op = BinRem then 20 else 1)"

fun score_expr :: "expr \<Rightarrow> i64"
and score_stmt :: "stmt \<Rightarrow> i64" where
  "score_expr (Expr k _) =
     (case k of
        ELiteral _ \<Rightarrow> 0
      | EVar _ \<Rightarrow> 0
      | EBinary op a b \<Rightarrow> score_expr a + score_expr b + op_cost op
      | EUnary _ a \<Rightarrow> score_expr a + 1
      | ECall f args \<Rightarrow> score_expr f + sum_list (map score_expr args) + 5
      | EAssign a b \<Rightarrow> score_expr a + score_expr b + 4
      | EIndex a b \<Rightarrow> score_expr a + score_expr b + 4
      | EField a _ \<Rightarrow> score_expr a + 4
      | ERef a \<Rightarrow> score_expr a + 1
      | ECast a _ \<Rightarrow> score_expr a
      | EIf c (Block ss _ _) els \<Rightarrow>
          score_expr c + 1 +
          smax (sum_list (map score_stmt ss)) (case els of None \<Rightarrow> 0 | Some e \<Rightarrow> score_expr e)
      | EBlock (Block ss _ _) \<Rightarrow> sum_list (map score_stmt ss)
      | EMethodCall r _ args \<Rightarrow> score_expr r + sum_list (map score_expr args) + 5
      | EStructLit _ _ fs \<Rightarrow> sum_list (map (\<lambda>f. score_expr (snd f) + 4) fs)
      | EYield _ \<Rightarrow> 0
      | EReturn v \<Rightarrow> (case v of None \<Rightarrow> 0 | Some e \<Rightarrow> score_expr e)
      | _ \<Rightarrow> 1)"
| "score_stmt s =
     (case s of
        SExpr e \<Rightarrow> score_expr e
      | SSemi e \<Rightarrow> score_expr e
      | SLocal _ _ init \<Rightarrow> (case init of None \<Rightarrow> 0 | Some e \<Rightarrow> score_expr e)
      | SWhile c (Block ss _ _) \<Rightarrow>
          score_expr c + 10 * (score_expr c + sum_list (map score_stmt ss))
      | SFor _ _ _ (Block ss _ _) \<Rightarrow> 10 * sum_list (map score_stmt ss)
      | SLoop _ \<Rightarrow> 2 ^ 62 - 1
      | SReturn v \<Rightarrow> (case v of None \<Rightarrow> 0 | Some e \<Rightarrow> score_expr e)
      | SAssume _ \<Rightarrow> 0
      | SContinue \<Rightarrow> 0
      | SBreak \<Rightarrow> 0)"

declare score_expr.simps [simp del] score_stmt.simps [simp del]

definition score_block :: "basic_block \<Rightarrow> i64" where
  "score_block k = sum_list (map score_stmt (bb_stmts k))"

section \<open>Unbounded loops inside a block\<close>

text \<open>The verifier has its own, shallower, search for yields.\<close>

definition pulse_expr_yields :: "expr \<Rightarrow> bool" where
  "pulse_expr_yields e = (case ekind e of EYield _ \<Rightarrow> True | _ \<Rightarrow> False)"

fun stmt_contains_yield :: "stmt \<Rightarrow> bool" where
  "stmt_contains_yield (SExpr e) = pulse_expr_yields e"
| "stmt_contains_yield (SSemi e) = pulse_expr_yields e"
| "stmt_contains_yield (SWhile _ (Block ss _ _)) = (\<exists>s \<in> set ss. stmt_contains_yield s)"
| "stmt_contains_yield (SFor _ _ _ (Block ss _ _)) = (\<exists>s \<in> set ss. stmt_contains_yield s)"
| "stmt_contains_yield (SLoop (Block ss _ _)) = (\<exists>s \<in> set ss. stmt_contains_yield s)"
| "stmt_contains_yield _ = False"

definition is_unbounded_loop :: "stmt \<Rightarrow> bool" where
  "is_unbounded_loop s =
     (case s of SLoop b \<Rightarrow> \<not> (\<exists>s \<in> set (block_stmts b). stmt_contains_yield s) | _ \<Rightarrow> False)"

definition has_unbounded_loop :: "stmt list \<Rightarrow> bool" where
  "has_unbounded_loop ss = (\<exists>s \<in> set ss. is_unbounded_loop s)"

section \<open>The search\<close>

datatype pulse_result =
    Verified i64
  | Violation "nat list" i64 i64
  | UnboundedLoop nat

definition default_budget :: i64 where
  "default_budget = 50000"

type_synonym frame = "nat \<times> i64 \<times> nat list"

definition block_map :: "basic_block list \<Rightarrow> nat \<rightharpoonup> basic_block" where
  "block_map blocks = map_of (rev (map (\<lambda>b. (bb_id b, b)) blocks))"

text \<open>
  One iteration of the loop for a frame taken from the stack: either a final answer, or the new
  frames (in the order they are pushed) and the new maximum.
\<close>

definition visit ::
  "(nat \<rightharpoonup> basic_block) \<Rightarrow> i64 \<Rightarrow> frame \<Rightarrow> i64 \<Rightarrow> pulse_result + frame list \<times> i64" where
  "visit bm budget fr max_cost =
     (case fr of (block_id, accumulated_cost, path) \<Rightarrow>
      case bm block_id of
        None \<Rightarrow> Inr ([], max_cost)
      | Some block \<Rightarrow>
          if has_unbounded_loop (bb_stmts block) then Inl (UnboundedLoop block_id)
          else
            let total = accumulated_cost + score_block block in
            (case bb_term block of
               Goto t \<Rightarrow>
                 if t \<in> set path then Inl (UnboundedLoop block_id)
                 else Inr ([(t, total, path @ [t])], max_cost)
             | Branch _ tt tf \<Rightarrow>
                 Inr (map (\<lambda>t. (t, total + 1, path @ [t])) (filter (\<lambda>t. t \<notin> set path) [tt, tf]),
                      max_cost)
             | _ \<Rightarrow>
                 if sint budget < sint total then Inl (Violation path total budget)
                 else Inr ([], smax max_cost total)))"

partial_function (option) search ::
  "(nat \<rightharpoonup> basic_block) \<Rightarrow> i64 \<Rightarrow> frame list \<Rightarrow> i64 \<Rightarrow> pulse_result option" where
  "search bm budget stack max_cost =
     (case stack of
        [] \<Rightarrow> Some (Verified max_cost)
      | fr # rest \<Rightarrow>
          (case visit bm budget fr max_cost of
             Inl r \<Rightarrow> Some r
           | Inr (new, max_cost) \<Rightarrow> search bm budget (rev new @ rest) max_cost))"

definition verify_pulse_bounds :: "basic_block list \<Rightarrow> i64 \<Rightarrow> pulse_result option" where
  "verify_pulse_bounds blocks budget =
     (if blocks = [] then Some (Verified 0)
      else search (block_map blocks) budget [(0, 0, [0])] 0)"

lemma search_simps [simp]:
  "search bm budget [] mx = Some (Verified mx)"
  "search bm budget (fr # rest) mx =
     (case visit bm budget fr mx of
        Inl r \<Rightarrow> Some r
      | Inr (new, mx) \<Rightarrow> search bm budget (rev new @ rest) mx)"
  by (subst search.simps, simp)+

section \<open>Paths\<close>

text \<open>
  Specification: a path is a list of block ids without repetition from the entry along jumps and
  branches, with the cost accumulated before its last block.
\<close>

inductive path_step ::
  "(nat \<rightharpoonup> basic_block) \<Rightarrow> nat list \<times> i64 \<Rightarrow> nat list \<times> i64 \<Rightarrow> bool" for bm where
  goto: "bm (last p) = Some b \<Longrightarrow> bb_term b = Goto t \<Longrightarrow> t \<notin> set p \<Longrightarrow>
    path_step bm (p, c) (p @ [t], c + score_block b)"
| branch: "bm (last p) = Some b \<Longrightarrow> bb_term b = Branch e tt tf \<Longrightarrow> t = tt \<or> t = tf \<Longrightarrow> t \<notin> set p \<Longrightarrow>
    path_step bm (p, c) (p @ [t], c + score_block b + 1)"

inductive_cases path_stepE: "path_step bm (p, c) pc"

definition entry_path :: "(nat \<rightharpoonup> basic_block) \<Rightarrow> nat list \<Rightarrow> i64 \<Rightarrow> bool" where
  "entry_path bm p c = (path_step bm)\<^sup>*\<^sup>* ([0], 0) (p, c)"

text \<open>A path that ends in a suspension or a return, with its whole cost.\<close>

definition complete :: "(nat \<rightharpoonup> basic_block) \<Rightarrow> nat list \<Rightarrow> i64 \<Rightarrow> i64 \<Rightarrow> bool" where
  "complete bm p c cost =
     (\<exists>b. bm (last p) = Some b \<and> \<not> has_unbounded_loop (bb_stmts b) \<and>
        cost = c + score_block b \<and>
        (case bb_term b of Goto _ \<Rightarrow> False | Branch _ _ _ \<Rightarrow> False | _ \<Rightarrow> True))"

text \<open>A path whose last block loops: inside, or by a jump back to the path.\<close>

definition looping :: "(nat \<rightharpoonup> basic_block) \<Rightarrow> nat list \<Rightarrow> bool" where
  "looping bm p =
     (\<exists>b. bm (last p) = Some b \<and>
        (has_unbounded_loop (bb_stmts b) \<or> (\<exists>t. bb_term b = Goto t \<and> t \<in> set p)))"

text \<open>What an answer says about the paths that continue the frames of a stack.\<close>

definition continues :: "(nat \<rightharpoonup> basic_block) \<Rightarrow> frame list \<Rightarrow> nat list \<Rightarrow> i64 \<Rightarrow> bool" where
  "continues bm stack q d = (\<exists>(n, c, p) \<in> set stack. (path_step bm)\<^sup>*\<^sup>* (p, c) (q, d))"

definition answer_ok ::
  "(nat \<rightharpoonup> basic_block) \<Rightarrow> i64 \<Rightarrow> frame list \<Rightarrow> i64 \<Rightarrow> pulse_result \<Rightarrow> bool" where
  "answer_ok bm budget stack mx r =
     (case r of
        Verified m \<Rightarrow>
          sint mx \<le> sint m \<and>
          (\<forall>q d. continues bm stack q d \<longrightarrow> \<not> looping bm q) \<and>
          (\<forall>q d t. continues bm stack q d \<longrightarrow> complete bm q d t \<longrightarrow>
             sint t \<le> sint budget \<and> sint t \<le> sint m) \<and>
          (m = mx \<or> (\<exists>q d. continues bm stack q d \<and> complete bm q d m))
      | Violation q t b \<Rightarrow>
          b = budget \<and> sint budget < sint t \<and>
          (\<exists>d. continues bm stack q d \<and> complete bm q d t)
      | UnboundedLoop n \<Rightarrow> (\<exists>q d. continues bm stack q d \<and> looping bm q \<and> last q = n))"

lemma continues_simps [simp]:
  "\<not> continues bm [] q d"
  "continues bm (fr # stack) q d =
     ((case fr of (n, c, p) \<Rightarrow> (path_step bm)\<^sup>*\<^sup>* (p, c) (q, d)) \<or> continues bm stack q d)"
  "continues bm (xs @ ys) q d = (continues bm xs q d \<or> continues bm ys q d)"
  "continues bm (rev xs) q d = continues bm xs q d"
  by (auto simp: continues_def)

definition frame_ok :: "(nat \<rightharpoonup> basic_block) \<Rightarrow> frame \<Rightarrow> bool" where
  "frame_ok bm fr =
     (case fr of (n, c, p) \<Rightarrow> p \<noteq> [] \<and> n = last p \<and> distinct p \<and> set (butlast p) \<subseteq> dom bm)"

text \<open>What a visit does, in terms of paths.\<close>

lemma visit_Inl:
  assumes "visit bm budget (n, c, p) mx = Inl r" "frame_ok bm (n, c, p)"
  shows "answer_ok bm budget [(n, c, p)] mx r"
proof -
  have self: "continues bm [(n, c, p)] p c" by simp
  have n: "n = last p" using assms(2) by (simp add: frame_ok_def)
  consider (loop) "looping bm p" "r = UnboundedLoop n"
    | (over) t where "complete bm p c t" "sint budget < sint t" "r = Violation p t budget"
    using assms(1) n
    by (auto simp: visit_def looping_def complete_def Let_def
        split: option.splits if_splits terminator.splits)
  then show ?thesis
    by cases (use self n in \<open>auto simp: answer_ok_def simp del: continues_simps\<close>)
qed

lemma visit_Inr:
  assumes "visit bm budget (n, c, p) mx = Inr (new, mx')" "frame_ok bm (n, c, p)"
  shows "\<not> looping bm p"
    and "\<forall>t. complete bm p c t \<longrightarrow> sint t \<le> sint budget \<and> mx' = smax mx t"
    and "(\<exists>t. complete bm p c t \<and> mx' = smax mx t) \<or> mx' = mx"
    and "\<forall>p' c'. path_step bm (p, c) (p', c') = (\<exists>t. p' = p @ [t] \<and> (t, c', p @ [t]) \<in> set new)"
    and "\<forall>fr \<in> set new. frame_ok bm fr \<and> (\<exists>t d. fr = (t, d, p @ [t]))"
    and "length new \<le> 2" "new \<noteq> [] \<longrightarrow> n \<in> dom bm"
proof -
  have n: "n = last p" "p \<noteq> []" "distinct p" "set (butlast p) \<subseteq> dom bm"
    using assms(2) by (simp_all add: frame_ok_def)
  have dom: "\<exists>y. bm x = Some y" if "bm (last p) = Some b" "x \<in> set p" for x b
  proof (cases "x = last p")
    case False
    then have "x \<in> set (butlast p)" using that(2) n(2) by (metis append_butlast_last_id in_set_conv_decomp set_ConsD Un_iff set_append empty_iff list.set(1))
    then show ?thesis using n(4) by auto
  qed (use that in auto)
  show "\<not> looping bm p" and "\<forall>t. complete bm p c t \<longrightarrow> sint t \<le> sint budget \<and> mx' = smax mx t"
    and "(\<exists>t. complete bm p c t \<and> mx' = smax mx t) \<or> mx' = mx"
    using assms(1) n
    by (auto simp: visit_def looping_def complete_def Let_def
        split: option.splits if_splits terminator.splits)
  show "\<forall>p' c'. path_step bm (p, c) (p', c') = (\<exists>t. p' = p @ [t] \<and> (t, c', p @ [t]) \<in> set new)"
    using assms(1) n
    by (auto simp: visit_def Let_def elim!: path_stepE intro: path_step.intros
        split: option.splits if_splits terminator.splits)
  show "\<forall>fr \<in> set new. frame_ok bm fr \<and> (\<exists>t d. fr = (t, d, p @ [t]))"
    using assms(1) n
    by (auto simp: visit_def frame_ok_def Let_def intro: dom
        split: option.splits if_splits terminator.splits) (metis dom)+
  show "length new \<le> 2" "new \<noteq> [] \<longrightarrow> n \<in> dom bm"
    using assms(1) by (auto simp: visit_def Let_def split: option.splits if_splits terminator.splits)
qed

section \<open>The search ends and its answer is right\<close>

text \<open>
  A path repeats no block and all but its last block are in the graph, so paths have at most
  \<open>card (dom bm) + 1\<close> blocks; a visit replaces a frame by at most two longer ones.
\<close>

definition weight :: "(nat \<rightharpoonup> basic_block) \<Rightarrow> frame list \<Rightarrow> nat" where
  "weight bm stack = (\<Sum>fr \<leftarrow> stack. 3 ^ (card (dom bm) + 2 - length (snd (snd fr))))"

lemma weight_simps [simp]:
  "weight bm [] = 0"
  "weight bm (fr # stack) = 3 ^ (card (dom bm) + 2 - length (snd (snd fr))) + weight bm stack"
  "weight bm (xs @ ys) = weight bm xs + weight bm ys"
  "weight bm (rev xs) = weight bm xs"
  by (simp_all add: weight_def rev_map [symmetric] sum_list_rev)

lemma frame_length:
  assumes "frame_ok bm (n, c, p)" "finite (dom bm)"
  shows "length p \<le> card (dom bm) + 1"
proof -
  have "length (butlast p) = card (set (butlast p))"
    using assms(1) by (simp add: frame_ok_def distinct_card distinct_butlast)
  also have "\<dots> \<le> card (dom bm)"
    using assms by (auto simp: frame_ok_def intro: card_mono)
  finally show ?thesis by simp
qed

lemma visit_weight:
  assumes "visit bm budget (n, c, p) mx = Inr (new, mx')" "frame_ok bm (n, c, p)" "finite (dom bm)"
  shows "weight bm new < 3 ^ (card (dom bm) + 2 - length p)"
proof -
  note v = visit_Inr(5,6) [OF assms(1,2)]
  let ?k = "card (dom bm) + 1 - length p"
  have e: "card (dom bm) + 2 - length p = Suc ?k" using frame_length [OF assms(2,3)] by simp
  have w: "3 ^ (card (dom bm) + 2 - length (snd (snd fr))) = (3 :: nat) ^ ?k" if "fr \<in> set new" for fr
    using v(1) that by fastforce
  have "weight bm new = (\<Sum>fr \<leftarrow> new. 3 ^ ?k)"
    unfolding weight_def by (rule arg_cong [where f = sum_list], rule map_cong) (use w in auto)
  also have "\<dots> = length new * 3 ^ ?k" by (simp add: sum_list_triv)
  also have "\<dots> \<le> 2 * 3 ^ ?k" using v(2) by (intro mult_right_mono) simp_all
  also have "\<dots> < 3 ^ Suc ?k" by simp
  finally show ?thesis unfolding e .
qed

lemma answer_visit:
  assumes v: "visit bm budget (n, c, p) mx = Inr (new, mx')" "frame_ok bm (n, c, p)"
    and r: "answer_ok bm budget (rev new @ rest) mx' r"
  shows "answer_ok bm budget ((n, c, p) # rest) mx r"
proof -
  note w = visit_Inr [OF v]
  have more: "continues bm new q d" if "path_step bm (p, c) pc" "(path_step bm)\<^sup>*\<^sup>* pc (q, d)" for pc q d
    using w(4) that unfolding continues_def by (cases pc) fastforce
  have split: "continues bm ((n, c, p) # rest) q d \<longleftrightarrow>
      q = p \<and> d = c \<or> continues bm (rev new @ rest) q d" for q d
  proof -
    have "(path_step bm)\<^sup>*\<^sup>* (p, c) (q, d) \<longleftrightarrow> q = p \<and> d = c \<or> continues bm new q d"
    proof
      assume "(path_step bm)\<^sup>*\<^sup>* (p, c) (q, d)"
      then show "q = p \<and> d = c \<or> continues bm new q d"
        by (cases rule: converse_rtranclpE) (use more in auto)
    next
      have "(path_step bm)\<^sup>*\<^sup>* (p, c) (q, d)" if new: "continues bm new q d"
      proof -
        obtain t e p' where f: "(t, e, p') \<in> set new" "(path_step bm)\<^sup>*\<^sup>* (p', e) (q, d)"
          using new by (auto simp: continues_def)
        then have "path_step bm (p, c) (p', e)" using w(4,5) by fastforce
        then show ?thesis using f(2) by (rule converse_rtranclp_into_rtranclp)
      qed
      then show "q = p \<and> d = c \<or> continues bm new q d \<Longrightarrow> (path_step bm)\<^sup>*\<^sup>* (p, c) (q, d)" by blast
    qed
    then show ?thesis by auto
  qed
  have mx: "sint mx \<le> sint mx'" using w(3) by (auto simp: smax_def)
  have pm: "sint t \<le> sint budget \<and> sint t \<le> sint mx'" if "complete bm p c t" for t
    using w(2) that by (auto simp: smax_def)
  show ?thesis
  proof (cases r)
    case (Verified m)
    have m: "sint mx' \<le> sint m" "m = mx' \<or> (\<exists>q d. continues bm (rev new @ rest) q d \<and> complete bm q d m)"
      using r by (auto simp: answer_ok_def Verified)
    have "m = mx \<or> (\<exists>q d. continues bm ((n, c, p) # rest) q d \<and> complete bm q d m)"
    proof (cases "mx' = mx")
      case False
      then have "complete bm p c mx'" using w(3) by (auto simp: smax_def)
      then show ?thesis using m(2) unfolding split by blast
    qed (use m(2) split in blast)
    moreover have "\<not> looping bm q" if "continues bm ((n, c, p) # rest) q d" for q d
      using that r w(1) unfolding split by (auto simp: answer_ok_def Verified simp del: continues_simps)
    moreover have "sint t \<le> sint budget \<and> sint t \<le> sint m"
      if "continues bm ((n, c, p) # rest) q d" "complete bm q d t" for q d t
      using that(1) unfolding split
    proof
      assume "q = p \<and> d = c"
      then show ?thesis using pm [of t] that(2) m(1) by simp
    next
      assume "continues bm (rev new @ rest) q d"
      then show ?thesis using r that(2) unfolding answer_ok_def Verified pulse_result.case by blast
    qed
    ultimately show ?thesis
      using mx m(1) unfolding answer_ok_def Verified pulse_result.case by (meson order_trans)
  next
    case (Violation q t b)
    then show ?thesis using r unfolding answer_ok_def by (auto simp: split simp del: continues_simps)
  next
    case (UnboundedLoop k)
    then show ?thesis using r unfolding answer_ok_def by (auto simp: split simp del: continues_simps)
  qed
qed

lemma search_answers:
  assumes "finite (dom bm)"
  shows "\<forall>fr \<in> set stack. frame_ok bm fr \<Longrightarrow>
    \<exists>r. search bm budget stack mx = Some r \<and> answer_ok bm budget stack mx r"
proof (induction "weight bm stack" arbitrary: stack mx rule: less_induct)
  case less
  show ?case
  proof (cases stack)
    case Nil
    then show ?thesis by (simp add: answer_ok_def)
  next
    case (Cons fr rest)
    obtain n c p where fr: "fr = (n, c, p)" by (cases fr)
    have ok: "frame_ok bm (n, c, p)" using less.prems Cons fr by simp
    show ?thesis
    proof (cases "visit bm budget (n, c, p) mx")
      case (Inl r)
      have "answer_ok bm budget ((n, c, p) # rest) mx r"
        using visit_Inl [OF Inl ok] Inl
        by (auto simp: answer_ok_def visit_def Let_def split: pulse_result.splits option.splits if_splits terminator.splits)
      then show ?thesis using Cons fr Inl by simp
    next
      case (Inr nm)
      obtain new mx' where nm: "nm = (new, mx')" by (cases nm)
      note v = Inr [unfolded nm]
      have "weight bm (rev new @ rest) < weight bm stack"
        using visit_weight [OF v ok assms] by (simp add: Cons fr)
      moreover have "\<forall>fr \<in> set (rev new @ rest). frame_ok bm fr"
        using visit_Inr(5) [OF v ok] less.prems Cons by auto
      ultimately obtain r where "search bm budget (rev new @ rest) mx' = Some r"
          "answer_ok bm budget (rev new @ rest) mx' r"
        using less.hyps by blast
      then show ?thesis using answer_visit [OF v ok] by (auto simp: Cons fr v)
    qed
  qed
qed

lemma finite_block_map: "finite (dom (block_map blocks))"
  by (simp add: block_map_def finite_dom_map_of)

lemma block_map_Nil: "block_map [] = Map.empty"
  by (simp add: block_map_def)

lemma continues_entry: "continues bm [(0, 0, [0])] p c = entry_path bm p c"
  by (simp add: entry_path_def)

lemma verify_answers:
  "\<exists>r. verify_pulse_bounds blocks budget = Some r \<and>
     answer_ok (block_map blocks) budget [(0, 0, [0])] 0 r"
proof (cases "blocks = []")
  case True
  have "entry_path Map.empty p c \<Longrightarrow> p = [0]" for p c
    unfolding entry_path_def by (erule rtranclp.cases) (auto elim: path_stepE)
  then show ?thesis
    by (auto simp: True verify_pulse_bounds_def answer_ok_def block_map_Nil looping_def complete_def)
next
  case False
  have "frame_ok (block_map blocks) (0, 0, [0])" by (simp add: frame_ok_def)
  then show ?thesis
    using search_answers [OF finite_block_map, of "[(0, 0, [0])]"] False
    by (simp add: verify_pulse_bounds_def)
qed

text \<open>
  The search of the verifier ends on every graph, cyclic or not, also on one whose
  jumps leave the graph.
\<close>

theorem verify_pulse_terminates: "\<exists>r. verify_pulse_bounds blocks budget = Some r"
  using verify_answers by blast

text \<open>
  Property C15: the answer is exact. \<open>Verified m\<close> says that no path from the entry loops and that
  every one that reaches a suspension or a return costs at most the budget, \<open>m\<close> being the largest
  cost; a violation names a real path with its real cost, above the budget; and an unbounded loop
  is reported for a block at the end of a path from the entry that does loop.
\<close>

theorem verify_pulse_exact:
  "case verify_pulse_bounds blocks budget of
     Some (Verified m) \<Rightarrow>
       (\<forall>p c. entry_path (block_map blocks) p c \<longrightarrow> \<not> looping (block_map blocks) p) \<and>
       (\<forall>p c t. entry_path (block_map blocks) p c \<longrightarrow> complete (block_map blocks) p c t \<longrightarrow>
          sint t \<le> sint budget \<and> sint t \<le> sint m) \<and>
       (m = 0 \<or> (\<exists>p c. entry_path (block_map blocks) p c \<and> complete (block_map blocks) p c m))
   | Some (Violation p t b) \<Rightarrow>
       b = budget \<and> sint budget < sint t \<and>
       (\<exists>c. entry_path (block_map blocks) p c \<and> complete (block_map blocks) p c t)
   | Some (UnboundedLoop n) \<Rightarrow>
       (\<exists>p c. entry_path (block_map blocks) p c \<and> looping (block_map blocks) p \<and> last p = n)
   | None \<Rightarrow> False"
proof -
  obtain r where "verify_pulse_bounds blocks budget = Some r"
      "answer_ok (block_map blocks) budget [(0, 0, [0])] 0 r"
    using verify_answers by blast
  then show ?thesis
    unfolding answer_ok_def continues_entry by (cases r) (simp_all only: option.case pulse_result.case, blast)
qed

definition demo_spin :: "basic_block list" where
  "demo_spin =
     [\<lparr>bb_id = 0, bb_stmts = [], bb_term = Goto 1\<rparr>,
      \<lparr>bb_id = 1, bb_stmts = [], bb_term = Branch (Expr (EVar 0) Bool) 2 3\<rparr>,
      \<lparr>bb_id = 2, bb_stmts = [SSemi (Expr (ECall (Expr (EVar 1) Unit) []) Unit)], bb_term = Goto 1\<rparr>,
      \<lparr>bb_id = 3, bb_stmts = [], bb_term = Return\<rparr>]"

lemmas pulse_eval =
  verify_pulse_bounds_def visit_def block_map_def has_unbounded_loop_def is_unbounded_loop_def
  score_block_def score_stmt.simps score_expr.simps smax_def

lemma demo_spin_verdict: "verify_pulse_bounds demo_spin 1 = Some (UnboundedLoop 2)"
  by (simp add: demo_spin_def pulse_eval)

theorem verify_pulse_exact_witness:
  "\<exists>p c. entry_path (block_map demo_spin) p c \<and> looping (block_map demo_spin) p \<and> last p = 2"
  using verify_pulse_exact [of demo_spin 1] by (simp add: demo_spin_verdict)

text \<open>
  Only the paths from the entry are searched: what a resumed coroutine runs after its first
  suspension is not scored, not even an endless loop.
\<close>

lemma resumed_code_not_scored:
  "verify_pulse_bounds
     [\<lparr>bb_id = 0, bb_stmts = [], bb_term = terminator.Yield 1\<rparr>,
      \<lparr>bb_id = 1, bb_stmts = [SLoop (Block [] None Unit)], bb_term = Return\<rparr>] 0 = Some (Verified 0)"
  by (simp add: pulse_eval)

text \<open>
  An endless loop inside two \<open>for\<close> loops is not found by the test for unbounded loops, which only
  looks at the statements of the block, and its cost wraps around to a negative number.
\<close>

lemma endless_loop_verified:
  "verify_pulse_bounds
     [\<lparr>bb_id = 0, bb_stmts =
         [SFor 0 ''i'' it (Block [SFor 1 ''j'' it (Block [SLoop (Block [] None Unit)] None Unit)] None Unit)],
       bb_term = Return\<rparr>] 0 = Some (Verified 0)"
  by (simp add: pulse_eval)

end
