(* ===== verification/Pulse_Live.thy ===== *)
theory Pulse_Live
  imports Pulse Async_Sim
begin

text \<open>
  What the verdict of the pulse verifier means for a run: in a graph made by the builder, the
  target of a branch has no other predecessor, so only jumps close cycles and a verified
  coroutine cannot run for ever before its first suspension.
\<close>

section \<open>Branch targets have one predecessor\<close>

definition edges :: "basic_block list \<Rightarrow> (nat \<times> nat) set" where
  "edges bs = (\<Union>k \<in> set bs. Pair (bb_id k) ` targets (bb_term k))"

definition branch_edges :: "basic_block list \<Rightarrow> (nat \<times> nat) set" where
  "branch_edges bs =
     (\<Union>k \<in> set bs. case bb_term k of Branch _ t f \<Rightarrow> {(bb_id k, t), (bb_id k, f)} | _ \<Rightarrow> {})"

lemma edges_simps [simp]:
  "edges [] = {}" "edges (k # bs) = Pair (bb_id k) ` targets (bb_term k) \<union> edges bs"
  "edges (bs @ bs') = edges bs \<union> edges bs'"
  "branch_edges [] = {}"
  "branch_edges (k # bs) =
     (case bb_term k of Branch _ t f \<Rightarrow> {(bb_id k, t), (bb_id k, f)} | _ \<Rightarrow> {}) \<union> branch_edges bs"
  "branch_edges (bs @ bs') = branch_edges bs \<union> branch_edges bs'"
  by (auto simp: edges_def branch_edges_def)

text \<open>
  New blocks whose jumps stay in the ids \<open>lo ..< hi\<close> handed out meanwhile, or go to
  \<open>X\<close>, and whose branches go to ids of their own.
\<close>

definition tame :: "nat \<Rightarrow> nat \<Rightarrow> nat set \<Rightarrow> basic_block list \<Rightarrow> bool" where
  "tame lo hi X bs =
     (lo \<le> hi \<and>
      (\<forall>a t. (a, t) \<in> branch_edges bs \<longrightarrow> lo \<le> t \<and> t < hi) \<and>
      (\<forall>a t. (a, t) \<in> edges bs \<longrightarrow> lo \<le> t \<and> t < hi \<or> t \<in> X) \<and>
      (\<forall>a b t. (a, t) \<in> branch_edges bs \<longrightarrow> (b, t) \<in> edges bs \<longrightarrow> b = a))"

lemma tame_append:
  assumes 1: "tame lo m X bs" and 2: "tame m hi Y bs'"
    and Y: "\<And>a t. (a, t) \<in> branch_edges bs \<Longrightarrow> t \<notin> Y" and X: "\<And>t. t \<in> X \<Longrightarrow> t < m"
  shows "tame lo hi (X \<union> Y) (bs @ bs')"
proof -
  have "False" if "(a, t) \<in> branch_edges bs" "(b, t) \<in> edges bs'" for a b t
    using 1 2 Y that unfolding tame_def by (metis not_le)
  moreover have "False" if "(a, t) \<in> branch_edges bs'" "(b, t) \<in> edges bs" for a b t
    using 1 2 X that unfolding tame_def by (metis not_le)
  moreover have "lo \<le> m" "m \<le> hi" using 1 2 by (simp_all add: tame_def)
  ultimately show ?thesis
    using 1 2 unfolding tame_def edges_simps Un_iff
    by (intro conjI allI impI) (metis order_trans order_less_le_trans)+
qed

definition tamed :: "nat set \<Rightarrow> cfg_builder \<Rightarrow> cfg_builder \<Rightarrow> bool" where
  "tamed X b b' =
     (\<exists>bs. cb_blocks b' = cb_blocks b @ bs \<and> tame (cb_next_id b) (cb_next_id b') X bs)"

lemma tamed_ids: "tamed X b b' \<Longrightarrow> cb_next_id b \<le> cb_next_id b'"
  by (auto simp: tamed_def tame_def)

lemma tamed_inside:
  "tamed X b b' \<Longrightarrow> X \<subseteq> {cb_next_id b ..< cb_next_id b'} \<union> Y \<Longrightarrow> tamed Y b b'"
  unfolding tamed_def tame_def
  by (elim exE conjE, intro exI conjI) (assumption | fastforce)+

text \<open>The first blocks of a statement, then a nested or following scope.\<close>

lemma tamed_trans:
  assumes "tamed X b b1" "tamed Y b1 b2" "X \<subseteq> {..<cb_next_id b1}"
    and "\<And>bs a t. cb_blocks b1 = cb_blocks b @ bs \<Longrightarrow> (a, t) \<in> branch_edges bs \<Longrightarrow> t \<notin> Y"
  shows "tamed (X \<union> Y) b b2"
proof -
  obtain bs where 1: "cb_blocks b1 = cb_blocks b @ bs" "tame (cb_next_id b) (cb_next_id b1) X bs"
    using assms(1) by (auto simp: tamed_def)
  obtain bs' where 2: "cb_blocks b2 = cb_blocks b1 @ bs'" "tame (cb_next_id b1) (cb_next_id b2) Y bs'"
    using assms(2) by (auto simp: tamed_def)
  have "tame (cb_next_id b) (cb_next_id b2) (X \<union> Y) (bs @ bs')"
    by (rule tame_append [OF 1(2) 2(2) assms(4) [OF 1(1)]]) (use assms(3) in auto)
  then show ?thesis unfolding tamed_def using 1(1) 2(1) by auto
qed

lemma tamed_old:
  assumes "tamed X b b1" "tamed Y b1 b2" "X \<subseteq> {..<cb_next_id b1}" "Y \<subseteq> {..<cb_next_id b}"
  shows "tamed (X \<union> Y) b b2"
proof (rule tamed_trans [OF assms(1-3)])
  fix bs a t assume "cb_blocks b1 = cb_blocks b @ bs" "(a, t) \<in> branch_edges bs"
  then have "cb_next_id b \<le> t" using assms(1) by (auto simp: tamed_def tame_def)
  then show "t \<notin> Y" using assms(4) by auto
qed

lemma tamed_first:
  "cb_blocks b' = cb_blocks b @ bs \<Longrightarrow> tame (cb_next_id b) (cb_next_id b') X bs \<Longrightarrow> tamed X b b'"
  by (auto simp: tamed_def)

lemma lower_tamed:
  "set_option ex \<subseteq> {..<cb_next_id b} \<Longrightarrow> tamed (set_option ex) b (lower_loop ss cur acc ex b)"
proof (induction ss arbitrary: cur acc ex b rule: lower_induct)
  case Nil
  then show ?case by (cases ex) (auto simp: tamed_def tame_def final_terminator_def)
next
  case (Plain s ss)
  then show ?case by (simp add: lower_Plain)
next
  case (Yield s ss)
  let ?n = "cb_next_id b"
  let ?b1 = "push_block cur acc (terminator.Yield ?n) (bump 1 b)"
  have 1: "tamed {} b ?b1" by (rule tamed_first) (simp, simp add: tame_def)
  have "set_option ex \<subseteq> {..<cb_next_id ?b1}" using Yield.prems by auto
  from tamed_old [OF 1 Yield(2) [OF this]] Yield.prems
  show ?case unfolding lower_Yield [OF Yield(1)] by simp
next
  case (While s ss c body)
  let ?n = "cb_next_id b"
  let ?b1 = "push_block ?n [] (Branch c (?n + 1) (?n + 2)) (push_block cur acc (Goto ?n) (bump 3 b))"
  let ?b2 = "lower_loop (block_stmts body) (?n + 1) [SAssume c] (Some ?n) ?b1"
  have 1: "tamed {} b ?b1" by (rule tamed_first) (simp, auto simp: tame_def)
  have 2: "tamed {?n} ?b1 ?b2" using While(2) [of "Some ?n" ?b1] by simp
  have "tamed ({} \<union> {?n}) b ?b2" by (rule tamed_trans [OF 1 2]) auto
  then have 12: "tamed {?n} b ?b2" by simp
  have "?n < cb_next_id ?b2" using tamed_ids [OF 2] by simp
  then have 12: "tamed {} b ?b2" by (intro tamed_inside [OF 12]) auto
  have "set_option ex \<subseteq> {..<cb_next_id ?b2}" using While.prems tamed_ids [OF 12] by auto
  from tamed_old [OF 12 While(3) [OF this]] While.prems
  show ?case unfolding lower_While [OF While(1) refl] by simp
next
  case (Loop s ss body)
  let ?n = "cb_next_id b"
  let ?b1 = "push_block cur acc (Goto ?n) (bump 1 b)"
  define b2 where "b2 = lower_loop (block_stmts body) ?n [] (Some ?n) ?b1"
  have 1: "tamed {} b ?b1" by (rule tamed_first) (simp, auto simp: tame_def)
  have 2: "tamed {?n} ?b1 b2" using Loop(2) [of "Some ?n" ?b1] by (simp add: b2_def)
  have "tamed ({} \<union> {?n}) b b2" by (rule tamed_trans [OF 1 2]) auto
  then have 12: "tamed {?n} b b2" by simp
  have "?n < cb_next_id b2" using tamed_ids [OF 2] by simp
  then have 12: "tamed {} b b2" by (intro tamed_inside [OF 12]) auto
  have "tamed {} b2 (bump 1 b2)" by (rule tamed_first) (simp, simp add: tame_def)
  from tamed_old [OF 12 this] have 13: "tamed {} b (bump 1 b2)" by simp
  have "set_option ex \<subseteq> {..<cb_next_id (bump 1 b2)}" using Loop.prems tamed_ids [OF 13] by auto
  from tamed_old [OF 13 Loop(3) [OF this]] Loop.prems
  show ?case unfolding lower_Loop [OF Loop(1) refl b2_def] by simp
next
  case (If s ss c t els)
  let ?n = "cb_next_id b"
  let ?b1 = "push_block cur acc (Branch c ?n (?n + 1)) (bump 3 b)"
  let ?b2 = "lower_loop (block_stmts t) ?n [SAssume c] (Some (?n + 2)) ?b1"
  let ?b3 = "lower_else c els (?n + 1) (?n + 2) ?b2"
  have 1: "tamed {} b ?b1" by (rule tamed_first) (simp, auto simp: tame_def)
  have 2: "tamed {?n + 2} ?b1 ?b2" using If(2) [of "Some (?n + 2)" ?b1] by simp
  have n: "?n + 2 < cb_next_id ?b2" using tamed_ids [OF 2] by simp
  have 3: "tamed {?n + 2} ?b2 ?b3"
  proof (cases els)
    case None
    then show ?thesis by (intro tamed_first) (simp add: lower_else_def, simp add: tame_def lower_else_def)
  next
    case (Some el)
    then show ?thesis using If(3) [OF Some, of "Some (?n + 2)" ?b2] n by (simp add: lower_else_def)
  qed
  have 23: "tamed {?n + 2} ?b1 ?b3" using tamed_old [OF 2 3] n by simp
  have "tamed ({} \<union> {?n + 2}) b ?b3" by (rule tamed_trans [OF 1 23]) auto
  then have 13: "tamed {} b ?b3" by (rule tamed_inside) (use n tamed_ids [OF 3] in auto)
  have "set_option ex \<subseteq> {..<cb_next_id ?b3}" using If.prems tamed_ids [OF 13] by auto
  from tamed_old [OF 13 If(4) [OF this]] If.prems
  show ?case unfolding lower_If [OF If(1) refl] by simp
qed

section \<open>Runs follow paths\<close>

text \<open>What the builder's graphs have in common.\<close>

definition built :: "basic_block list \<Rightarrow> bool" where
  "built G =
     (map bb_id G = [0..<length G] \<and> 0 < length G \<and>
      (\<forall>a t. (a, t) \<in> edges G \<longrightarrow> t < length G) \<and>
      (\<forall>a t. (a, t) \<in> branch_edges G \<longrightarrow> 0 < t) \<and>
      (\<forall>a b t. (a, t) \<in> branch_edges G \<longrightarrow> (b, t) \<in> edges G \<longrightarrow> b = a))"

lemma build_cfg_built: "built (build_cfg ss)"
proof -
  obtain bs n where b: "build_cfg ss = sort_key bb_id bs" "mset (map bb_id bs) = mset [0..<n]"
      "\<forall>k \<in> set bs. targets (bb_term k) \<subseteq> {0..<n}"
      "bs = cb_blocks (lower_loop ss 0 [] None (bump 1 cfg_new))"
    using build_cfg_blocks by blast
  have ids: "map bb_id (build_cfg ss) = [0..<n]" unfolding b(1) by (rule sort_upt [OF b(2)])
  then have len: "length (build_cfg ss) = n" by (metis length_map length_upt diff_zero)
  have "tamed {} (bump 1 cfg_new) (lower_loop ss 0 [] None (bump 1 cfg_new))"
    using lower_tamed [of None] by simp
  then obtain m where tame: "tame 1 m {} bs" using b(4) by (auto simp: tamed_def cfg_new_def)
  have e: "edges (build_cfg ss) = edges bs" "branch_edges (build_cfg ss) = branch_edges bs"
    by (simp_all add: edges_def branch_edges_def b(1))
  have "bs \<noteq> []"
    using lower_grown [of 0 None "bump 1 cfg_new" ss "[]"] b(4) by (auto simp: grown_def)
  then have "0 < length (build_cfg ss)" using b(1) by simp
  moreover have "t < length (build_cfg ss)" if "(a, t) \<in> edges (build_cfg ss)" for a t
    using that b(3) len unfolding e by (fastforce simp: edges_def)
  moreover have "0 < t" if "(a, t) \<in> branch_edges (build_cfg ss)" for a t
    using that tame unfolding e by (fastforce simp: tame_def)
  moreover have "c = a" if "(a, t) \<in> branch_edges (build_cfg ss)" "(c, t) \<in> edges (build_cfg ss)" for a c t
    using that tame unfolding e by (auto simp: tame_def)
  ultimately show ?thesis unfolding built_def using ids len by blast
qed

lemma block_map_built:
  assumes "map bb_id G = [0..<length G]"
  shows "block_map G n = (if n < length G then Some (G ! n) else None)"
proof -
  have d: "distinct (map fst (map (\<lambda>b. (bb_id b, b)) G))" using assms by (simp add: o_def)
  have id: "bb_id (G ! i) = i" if "i < length G" for i
    using assms that by (metis add_0 nth_map nth_upt)
  show ?thesis
  proof (cases "n < length G")
    case True
    have "(n, G ! n) \<in> set (map (\<lambda>b. (bb_id b, b)) G)"
      using True id [OF True] nth_mem [OF True] by force
    then show ?thesis
      using True map_of_is_SomeI [OF d] by (simp add: block_map_def map_of_rev_distinct [OF d])
  next
    case False
    then have "n \<notin> bb_id ` set G" using assms by (metis atLeastLessThan_iff list.set_map set_upt)
    then have "map_of (map (\<lambda>b. (bb_id b, b)) G) n = None"
      by (auto simp: map_of_eq_None_iff image_image)
    then show ?thesis using False by (simp add: block_map_def map_of_rev_distinct [OF d])
  qed
qed

text \<open>A path of ids from the entry along the edges, without repetition.\<close>

definition graph_path :: "basic_block list \<Rightarrow> nat list \<Rightarrow> bool" where
  "graph_path G p =
     (p \<noteq> [] \<and> hd p = 0 \<and> distinct p \<and> set p \<subseteq> {0..<length G} \<and>
      (\<forall>j. Suc j < length p \<longrightarrow> (p ! j, p ! Suc j) \<in> edges G))"

lemma graph_path_snoc:
  assumes "graph_path G p" "(last p, t) \<in> edges G" "t < length G" "t \<notin> set p"
  shows "graph_path G (p @ [t])"
proof -
  have "((p @ [t]) ! j, (p @ [t]) ! Suc j) \<in> edges G" if "Suc j < length (p @ [t])" for j
  proof (cases "Suc j < length p")
    case False
    then have "j = length p - 1" using that by simp
    then show ?thesis using assms(1,2) by (simp add: graph_path_def nth_append last_conv_nth)
  qed (use assms(1) in \<open>simp add: nth_append graph_path_def\<close>)
  then show ?thesis using assms by (simp add: graph_path_def)
qed

lemma built_id: "built G \<Longrightarrow> n < length G \<Longrightarrow> bb_id (G ! n) = n"
  unfolding built_def by (metis add_0 nth_map nth_upt)

lemma path_step_edge:
  assumes "built G" "path_step (block_map G) (p, c) (q, d)"
  obtains t where "q = p @ [t]" "t \<notin> set p" "(last p, t) \<in> edges G"
proof -
  obtain b t where t: "block_map G (last p) = Some b" "t \<in> targets (bb_term b)" "t \<notin> set p" "q = p @ [t]"
    using assms(2) by (cases rule: path_step.cases) auto
  have l: "last p < length G" "b = G ! last p"
    using t(1) block_map_built [of G "last p"] assms(1) unfolding built_def by (metis option.distinct(1), metis option.distinct(1) option.inject)
  have "b \<in> set G" unfolding l(2) by (rule nth_mem [OF l(1)])
  then have "(bb_id b, t) \<in> edges G" using t(2) by (auto simp: edges_def)
  moreover have "bb_id b = last p" unfolding l(2) by (rule built_id [OF assms(1) l(1)])
  ultimately have "(last p, t) \<in> edges G" by simp
  then show thesis using that t by blast
qed

lemma path_step_graph:
  assumes "built G" "path_step (block_map G) x y" "graph_path G (fst x)"
  shows "graph_path G (fst y)"
proof -
  obtain p c q d where xy: "x = (p, c)" "y = (q, d)" by (cases x; cases y)
  obtain t where t: "q = p @ [t]" "t \<notin> set p" "(last p, t) \<in> edges G"
    using path_step_edge [OF assms(1) assms(2) [unfolded xy]] .
  then have "t < length G" using assms(1) by (auto simp: built_def)
  then show ?thesis using graph_path_snoc [of G p t] t assms(3) by (simp add: xy)
qed

lemma entry_path_run:
  assumes "built G" "entry_path (block_map G) p c"
  shows "graph_path G p"
proof -
  have "graph_path G (fst x)" if "(path_step (block_map G))\<^sup>*\<^sup>* ([0], 0) x" for x
    using that
  proof (induction rule: rtranclp_induct)
    case base
    then show ?case using assms(1) by (simp add: graph_path_def built_def)
  qed (rule path_step_graph [OF assms(1)])
  then show ?thesis using assms(2) unfolding entry_path_def by fastforce
qed

text \<open>A branch never leads back to its own path.\<close>

lemma branch_fresh:
  assumes "built G" "graph_path G p" "last p < length G"
    and "bb_term (G ! last p) = Branch e t f" "u = t \<or> u = f"
  shows "u \<notin> set p"
proof
  assume "u \<in> set p"
  have "(last p, u) \<in> (case bb_term (G ! last p) of
      Branch _ t f \<Rightarrow> {(bb_id (G ! last p), t), (bb_id (G ! last p), f)} | _ \<Rightarrow> {})"
    using assms(4,5) built_id [OF assms(1,3)] by auto
  then have e: "(last p, u) \<in> branch_edges G"
    unfolding branch_edges_def using nth_mem [OF assms(3)] by blast
  obtain j where j: "j < length p" "p ! j = u" using \<open>u \<in> set p\<close> by (metis in_set_conv_nth)
  have "0 < u" using e assms(1) by (auto simp: built_def)
  then obtain i where i: "j = Suc i" using assms(2) j by (cases j) (auto simp: graph_path_def hd_conv_nth)
  have "(p ! i, u) \<in> edges G" using assms(2) j i by (auto simp: graph_path_def)
  then have "p ! i = p ! (length p - 1)"
    using e assms(1,2) unfolding built_def graph_path_def by (metis last_conv_nth)
  moreover have "distinct p" "i < length p - 1" using assms(2) j(1) i by (auto simp: graph_path_def)
  ultimately show False by (simp add: nth_eq_iff_index_eq)
qed

section \<open>The blocks and the cost of a run\<close>

text \<open>The blocks that \<open>k\<close> steps enter; the cost of a run through the blocks \<open>p\<close>, a 64-bit sum.\<close>

primrec entered :: "((nat \<times> nat) \<times> 'st \<Rightarrow> ((nat \<times> nat) \<times> 'st) move) \<Rightarrow> nat \<Rightarrow> (nat \<times> nat) \<times> 'st \<Rightarrow> nat list" where
  "entered step 0 d = []"
| "entered step (Suc k) d =
     (case step d of
        Next e \<Rightarrow> (if snd (fst e) = 0 then fst (fst e) # entered step k e else entered step k e)
      | _ \<Rightarrow> [])"

definition branches :: "basic_block \<Rightarrow> bool" where
  "branches b = (case bb_term b of Branch _ _ _ \<Rightarrow> True | _ \<Rightarrow> False)"

definition run_cost :: "basic_block list \<Rightarrow> nat list \<Rightarrow> i64" where
  "run_cost G p = sum_list (map (\<lambda>n. score_block (G ! n)) p) +
     of_nat (length (filter (\<lambda>n. branches (G ! n)) (butlast p)))"

lemma entered_add: "silent step j d e \<Longrightarrow> entered step (j + k) d = entered step j d @ entered step k e"
  by (induction j arbitrary: d) auto

lemma block_of_map: "built G \<Longrightarrow> block_map G n = Some b \<Longrightarrow> b = G ! n"
  unfolding built_def by (auto simp: block_map_built split: if_splits)

lemma entry_path_cost:
  assumes "built G" "entry_path (block_map G) p c"
  shows "p \<noteq> [] \<and> c + score_block (G ! last p) = run_cost G p"
proof -
  have "fst x \<noteq> [] \<and> snd x + score_block (G ! last (fst x)) = run_cost G (fst x)"
    if "(path_step (block_map G))\<^sup>*\<^sup>* ([0], 0) x" for x
    using that
  proof (induction rule: rtranclp_induct)
    case base
    then show ?case by (simp add: run_cost_def)
  next
    case (step x y)
    obtain p c where x: "x = (p, c)" by (cases x)
    from step.hyps(2) show ?case unfolding x
    proof (cases rule: path_step.cases)
      case (goto b t)
      have b: "b = G ! last p" by (rule block_of_map [OF assms(1) goto(2)])
      obtain q l where p: "p = q @ [l]" using step.IH x by (cases p rule: rev_cases) auto
      show ?thesis using step.IH goto(1,3) by (simp add: x p b run_cost_def branches_def butlast_append algebra_simps)
    next
      case (branch b e tt tf t)
      have b: "b = G ! last p" by (rule block_of_map [OF assms(1) branch(2)])
      obtain q l where p: "p = q @ [l]" using step.IH x by (cases p rule: rev_cases) auto
      show ?thesis using step.IH branch(1,3) by (simp add: x p b run_cost_def branches_def butlast_append algebra_simps)
    qed
  qed
  then show ?thesis using assms(2) unfolding entry_path_def by fastforce
qed

section \<open>A verified coroutine reaches its first suspension\<close>

lemma run_block:
  "n < length G \<Longrightarrow> i \<le> length (bb_stmts (G ! n)) \<Longrightarrow>
     \<exists>k j st'. silent (cfg_step exec eval G) k ((n, i), st) ((n, j), st') \<and>
       entered (cfg_step exec eval G) k ((n, i), st) = [] \<and>
       (cfg_step exec eval G ((n, j), st') = Abort \<or> j = length (bb_stmts (G ! n)))"
proof (induction "length (bb_stmts (G ! n)) - i" arbitrary: i st)
  case 0
  then show ?case by (intro exI [of _ 0] exI [of _ i] exI [of _ st]) simp
next
  case (Suc d)
  let ?s = "bb_stmts (G ! n) ! i"
  have step: "cfg_step exec eval G ((n, i), st) =
      (case exec ?s st of None \<Rightarrow> Abort | Some st' \<Rightarrow> Next ((n, Suc i), st'))"
  proof -
    have "i < length (bb_stmts (G ! n))" using Suc.hyps(2) by simp
    then show ?thesis using Suc.prems(1) by (simp add: cfg_step_def)
  qed
  show ?case
  proof (cases "exec ?s st")
    case None
    then show ?thesis using step by (intro exI [of _ 0] exI [of _ i] exI [of _ st]) simp
  next
    case (Some st1)
    have "d = length (bb_stmts (G ! n)) - Suc i" "Suc i \<le> length (bb_stmts (G ! n))"
      using Suc.hyps(2) by simp_all
    from Suc.hyps(1) [OF this(1) Suc.prems(1) this(2), of st1]
    obtain k j st' where "silent (cfg_step exec eval G) k ((n, Suc i), st1) ((n, j), st')"
        "entered (cfg_step exec eval G) k ((n, Suc i), st1) = []"
        "cfg_step exec eval G ((n, j), st') = Abort \<or> j = length (bb_stmts (G ! n))"
      by blast
    then show ?thesis
      using step Some by (intro exI [of _ "Suc k"] exI [of _ j] exI [of _ st']) simp
  qed
qed

text \<open>
  The end of the silent run that has come through the blocks \<open>p\<close>: no further silent step,
  and unless a statement did not complete, at the end of a complete path, which consists of the blocks
  of the run.
\<close>

definition settles ::
  "(stmt \<Rightarrow> 'st \<Rightarrow> 'st option) \<Rightarrow> (expr \<Rightarrow> 'st \<Rightarrow> bool) \<Rightarrow> basic_block list \<Rightarrow> nat list \<Rightarrow>
   (nat \<times> nat) \<times> 'st \<Rightarrow> bool" where
  "settles exec eval G p d =
     (\<exists>k d' c. silent (cfg_step exec eval G) k d d' \<and> entry_path (block_map G) (p @ entered (cfg_step exec eval G) k d) c \<and>
        (cfg_step exec eval G d' = Abort \<or>
         (\<nexists>d''. cfg_step exec eval G d' = Next d'') \<and>
         (\<exists>t. complete (block_map G) (p @ entered (cfg_step exec eval G) k d) c t)))"

lemma settles_silent:
  assumes "silent (cfg_step exec eval G) k d d'" "settles exec eval G (p @ entered (cfg_step exec eval G) k d) d'"
  shows "settles exec eval G p d"
proof -
  let ?S = "cfg_step exec eval G"
  obtain j d'' c where j: "silent ?S j d' d''" "entry_path (block_map G) ((p @ entered ?S k d) @ entered ?S j d') c"
    "?S d'' = Abort \<or> (\<nexists>x. ?S d'' = Next x) \<and>
     (\<exists>t. complete (block_map G) ((p @ entered ?S k d) @ entered ?S j d') c t)"
    using assms(2) unfolding settles_def by blast
  then show ?thesis
    unfolding settles_def
    by (intro exI [of _ "k + j"] exI [of _ d''] exI [of _ c])
      (simp add: silent_add [OF assms(1)] entered_add [OF assms(1)])
qed

lemma run_settles:
  assumes G: "built G" and safe: "\<And>p c. entry_path (block_map G) p c \<Longrightarrow> \<not> looping (block_map G) p"
  shows "entry_path (block_map G) p c \<Longrightarrow> settles exec eval G p ((last p, 0), st)"
proof (induction "length G - length p" arbitrary: p c st rule: less_induct)
  case less
  note path = entry_path_run [OF G less.prems]
  let ?k = "G ! last p" and ?S = "cfg_step exec eval G"
  have n: "last p < length G" using path by (auto simp: graph_path_def dest!: last_in_set)
  have bm: "block_map G (last p) = Some ?k" using n G by (simp add: block_map_built built_def)
  have no_loop: "\<not> has_unbounded_loop (bb_stmts ?k)" "\<And>t. bb_term ?k = Goto t \<Longrightarrow> t \<notin> set p"
    using safe [OF less.prems] bm by (auto simp: looping_def)
  have go: "settles exec eval G (p @ [t]) ((t, 0), st')" if "path_step (block_map G) (p, c) (p @ [t], d)" for t d st'
  proof -
    have e: "entry_path (block_map G) (p @ [t]) d"
      using less.prems that unfolding entry_path_def by (rule rtranclp.rtrancl_into_rtrancl)
    have "length (p @ [t]) \<le> length G"
      using entry_path_run [OF G e] unfolding graph_path_def
      by (metis card_atLeastLessThan card_mono distinct_card finite_atLeastLessThan minus_nat.diff_0)
    then show ?thesis using less.hyps [OF _ e] by simp
  qed
  obtain k j st' where run: "silent ?S k ((last p, 0), st) ((last p, j), st')" "entered ?S k ((last p, 0), st) = []"
      "?S ((last p, j), st') = Abort \<or> j = length (bb_stmts ?k)"
    using run_block [OF n, of 0 exec eval st] by auto
  have "settles exec eval G p ((last p, j), st')"
  proof (cases "?S ((last p, j), st') = Abort")
    case True
    then show ?thesis unfolding settles_def using less.prems by (intro exI [of _ 0]) auto
  next
    case False
    then have j: "j = length (bb_stmts ?k)" using run(3) by simp
    have stops: ?thesis if "(\<nexists>d. ?S ((last p, j), st') = Next d)" "\<exists>t. complete (block_map G) p c t"
      unfolding settles_def using that less.prems by (intro exI [of _ 0] exI [of _ "((last p, j), st')"] exI [of _ c]) simp
    show ?thesis
    proof (cases "bb_term ?k")
      case (Goto t)
      then have s: "?S ((last p, j), st') = Next ((t, 0), st')" using n by (simp add: cfg_step_def j)
      show ?thesis
        by (rule settles_silent [of exec eval G 1])
          (use s go [OF path_step.goto [of "block_map G" p, OF bm Goto no_loop(2) [OF Goto]]] in simp_all)
    next
      case (Branch e t f)
      let ?u = "if eval e st' then t else f"
      have s: "?S ((last p, j), st') = Next ((?u, 0), st')" using n Branch by (simp add: cfg_step_def j)
      have u: "?u = t \<or> ?u = f" by simp
      note step = go [OF path_step.branch [of "block_map G" p, OF bm Branch u branch_fresh [OF G path n Branch u]], of st']
      show ?thesis by (rule settles_silent [of exec eval G 1 _ "((?u, 0), st')"]) (use s step in simp_all)
    next
      case (Yield r)
      then show ?thesis using stops bm no_loop(1) n by (simp add: complete_def cfg_step_def j)
    next
      case Return
      then show ?thesis using stops bm no_loop(1) n by (simp add: complete_def cfg_step_def j)
    qed
  qed
  then show ?case by (intro settles_silent [OF run(1)]) (simp add: run(2))
qed

lemma verified_settles:
  assumes "verify_pulse_bounds (build_cfg ss) budget = Some (Verified m)"
  shows "\<exists>k d. silent (cfg_step exec eval (build_cfg ss)) k ((0, 0), st) d \<and>
    (\<nexists>d'. cfg_step exec eval (build_cfg ss) d = Next d') \<and>
    distinct (0 # entered (cfg_step exec eval (build_cfg ss)) k ((0, 0), st)) \<and>
    (cfg_step exec eval (build_cfg ss) d = Abort \<or>
     sint (run_cost (build_cfg ss) (0 # entered (cfg_step exec eval (build_cfg ss)) k ((0, 0), st))) \<le> sint budget)"
proof -
  let ?G = "build_cfg ss"
  let ?S = "cfg_step exec eval ?G"
  have ok: "answer_ok (block_map ?G) budget [(0, 0, [0])] 0 (Verified m)"
    using verify_answers [of ?G budget] assms by simp
  have safe: "\<not> looping (block_map ?G) p" if "entry_path (block_map ?G) p c" for p c
    using ok that unfolding answer_ok_def continues_entry pulse_result.case by blast
  have cost: "sint t \<le> sint budget" if "entry_path (block_map ?G) p c" "complete (block_map ?G) p c t" for p c t
    using ok that unfolding answer_ok_def continues_entry pulse_result.case by blast
  have start: "entry_path (block_map ?G) [0] 0" by (simp add: entry_path_def)
  have "settles exec eval ?G [0] ((last [0], 0), st)"
    by (rule run_settles [OF build_cfg_built _ start]) (rule safe)
  then obtain k d c where d: "silent ?S k ((0, 0), st) d" "entry_path (block_map ?G) (0 # entered ?S k ((0, 0), st)) c"
      "?S d = Abort \<or> (\<nexists>d''. ?S d = Next d'') \<and> (\<exists>t. complete (block_map ?G) (0 # entered ?S k ((0, 0), st)) c t)"
    unfolding settles_def last.simps append_Cons append_Nil if_True simp_thms by blast
  have "sint (run_cost ?G (0 # entered ?S k ((0, 0), st))) \<le> sint budget"
    if "complete (block_map ?G) (0 # entered ?S k ((0, 0), st)) c t" for t
  proof -
    have "t = c + score_block (?G ! last (0 # entered ?S k ((0, 0), st)))"
      using that block_of_map [OF build_cfg_built] unfolding complete_def by blast
    then have "t = run_cost ?G (0 # entered ?S k ((0, 0), st))"
      using entry_path_cost [OF build_cfg_built d(2)] by simp
    then show ?thesis using cost [OF d(2) that] by simp
  qed
  moreover have "distinct (0 # entered ?S k ((0, 0), st))"
    using entry_path_run [OF build_cfg_built d(2)] unfolding graph_path_def by blast
  moreover have "\<nexists>d'. ?S d = Next d'" using d(3) by auto
  ultimately show ?thesis using d(1,3) by (intro exI [of _ k] exI [of _ d]) blast
qed

text \<open>
  Property C16: the verdict \<open>Verified\<close> bounds runs. Take the graph the builder makes of a
  body and any meaning of its statements and conditions. From its start, a verified coroutine stops its
  silent run after finitely many steps, having entered no block twice: at a suspension or at the end,
  and then the cost of all blocks and branches of the run, the 64-bit sum of the verifier's scores, is
  within the budget; or inside of a block, at a statement that does not complete, and then nothing is
  said of the cost.
\<close>

theorem verified_run_within_budget:
  assumes "verify_pulse_bounds (build_cfg ss) budget = Some (Verified m)"
  shows "\<exists>k d. silent (cfg_step exec eval (build_cfg ss)) k ((0, 0), st) d \<and>
    (\<nexists>d'. cfg_step exec eval (build_cfg ss) d = Next d') \<and>
    distinct (0 # entered (cfg_step exec eval (build_cfg ss)) k ((0, 0), st)) \<and>
    (cfg_step exec eval (build_cfg ss) d = Abort \<or>
     sint (run_cost (build_cfg ss) (0 # entered (cfg_step exec eval (build_cfg ss)) k ((0, 0), st))) \<le> sint budget)"
  by (rule verified_settles [OF assms])

text \<open>
  Bodies all of whose statements complete in every state: the statements that the builder keeps
  whole. An endless loop without a yield inside of one of them does not complete
  (\<open>endless_loop_verified\<close>), nor does a jump out of the statement.
\<close>

function completes :: "(stmt \<Rightarrow> 'st \<Rightarrow> 'st option) \<Rightarrow> stmt list \<Rightarrow> bool" where
  "completes exec [] = True"
| "completes exec (s # ss) =
     ((case classify s of
         Plain \<Rightarrow> \<forall>st. exec s st \<noteq> None
       | YieldPoint \<Rightarrow> True
       | FlatWhile c b \<Rightarrow> completes exec (block_stmts b)
       | FlatLoop b \<Rightarrow> completes exec (block_stmts b)
       | FlatIf c t els \<Rightarrow>
           completes exec (block_stmts t) \<and>
           (case els of None \<Rightarrow> True | Some el \<Rightarrow> completes exec (else_stmts el))) \<and>
      completes exec ss)"
  by pat_completeness auto
termination
  by (relation "measure (\<lambda>(_, ss). size_list size ss)") (auto dest: classify_size)

declare completes.simps(2) [simp del]

lemma completes_append: "completes exec (ss @ k) = (completes exec ss \<and> completes exec k)"
  by (induction ss) (auto simp: completes.simps(2))

text \<open>Such a body never stops at a statement.\<close>

definition proceeds :: "(stmt \<Rightarrow> 'st \<Rightarrow> 'st option) \<Rightarrow> stmt list \<times> 'st \<Rightarrow> bool" where
  "proceeds exec c = (value_free (fst c) \<and> completes exec (fst c))"

lemma proceeds_step:
  assumes "proceeds exec c"
  shows "source_step exec eval c \<noteq> Abort"
    "source_step exec eval c = Next d \<Longrightarrow> proceeds exec d"
proof -
  obtain ss st where c: "c = (ss, st)" by (cases c)
  have *: "source_step exec eval c \<noteq> Abort \<and> (\<forall>d. source_step exec eval c = Next d \<longrightarrow> proceeds exec d)"
  proof (cases ss)
    case (Cons s k)
    have vc: "value_free (s # k)" "completes exec (s # k)" using assms by (simp_all add: proceeds_def c Cons)
    show ?thesis
    proof (cases "classify s")
      case (FlatIf e t els)
      show ?thesis
        using vc FlatIf
        by (cases els)
          (auto simp: c Cons source_step_def proceeds_def else_body_stmts block_body_stmts value_free.simps(2)
            completes.simps(2) value_free_append completes_append)
    qed (use vc in \<open>auto simp: c Cons source_step_def proceeds_def block_body_stmts value_free.simps(2)
        completes.simps(2) value_free_append completes_append split: option.splits\<close>)
  qed (simp add: c source_step_def)
  show "source_step exec eval c \<noteq> Abort"
    "source_step exec eval c = Next d \<Longrightarrow> proceeds exec d" using * by blast+
qed

lemma proceeds_trace:
  "proceeds exec c \<Longrightarrow> trace (source_step exec eval) snd n c \<noteq> [] \<Longrightarrow>
     \<exists>st' rest. trace (source_step exec eval) snd n c = Yielded st' # rest \<or>
       trace (source_step exec eval) snd n c = [Finished st']"
proof (induction n arbitrary: c)
  case (Suc n)
  show ?case
  proof (cases "source_step exec eval c")
    case (Next d)
    then show ?thesis using Suc.IH [OF proceeds_step(2) [OF Suc.prems(1) Next]] Suc.prems(2) by simp
  qed (use proceeds_step(1) [OF Suc.prems(1)] in auto)
qed simp

text \<open>
  Property C11: a verified coroutine does not run for ever before its first suspension. Take a body
  whose blocks and yields have no value, whose checked assumptions and other unsplit statements complete
  in every state: after finitely many steps of the source, and of nothing else before, it suspends or it
  reaches its end. The statements that the builder keeps whole must complete, because the verifier does
  not look into all of them: a body with an endless loop inside of one is verified
  (\<open>endless_loop_verified\<close>). Bodies that leave such a statement by \<open>return\<close>,
  \<open>break\<close> or \<open>continue\<close> are not covered.
\<close>

theorem verified_body_suspends:
  assumes "verify_pulse_bounds (build_cfg ss) budget = Some (Verified m)"
    and "checks_assumes exec eval" "value_free ss" "completes exec ss"
  shows "\<exists>n st' rest. trace (source_step exec eval) snd n (ss, st) = Yielded st' # rest \<or>
    trace (source_step exec eval) snd n (ss, st) = [Finished st']"
proof -
  let ?S = "cfg_step exec eval (build_cfg ss)"
  obtain k d where d: "silent ?S k ((0, 0), st) d" "\<nexists>d'. ?S d = Next d'"
    using verified_settles [OF assms(1), of exec eval st] by blast
  have "trace ?S snd (Suc 0) d \<noteq> []" using d(2) by (cases "?S d") auto
  then have some: "trace ?S snd (k + Suc 0) ((0, 0), st) \<noteq> []"
    using trace_silent [OF d(1), of snd "Suc 0"] by simp
  have "behaviour ?S snd ((0, 0), st) = behaviour (source_step exec eval) snd (ss, st)"
    by (rule build_cfg_simulates [OF assms(2,3)])
  moreover have "trace ?S snd (k + Suc 0) ((0, 0), st) \<in> behaviour ?S snd ((0, 0), st)"
    unfolding behaviour_def by (rule rangeI)
  ultimately have "trace ?S snd (k + Suc 0) ((0, 0), st) \<in> behaviour (source_step exec eval) snd (ss, st)"
    by (simp only:)
  then obtain n where n: "trace ?S snd (k + Suc 0) ((0, 0), st) = trace (source_step exec eval) snd n (ss, st)"
    unfolding behaviour_def by blast
  have "proceeds exec (ss, st)" using assms(3,4) by (simp add: proceeds_def)
  from proceeds_trace [OF this] some show ?thesis unfolding n by blast
qed

lemma demo_while_verified: "verify_pulse_bounds (build_cfg demo_while) 10 = Some (Verified 1)"
  by (simp add: demo_while_def build_cfg_def build_def alloc_id_def lower_stmts_def lower_While
      lower_Yield lower_Plain classify_eval cfg_new_def final_terminator_def pulse_eval)

theorem verified_run_within_budget_witness:
  "\<exists>k d. silent (cfg_step demo_exec demo_eval (build_cfg demo_while)) k ((0, 0), 0) d \<and>
    (\<nexists>d'. cfg_step demo_exec demo_eval (build_cfg demo_while) d = Next d')"
  using verified_run_within_budget [OF demo_while_verified, of demo_exec demo_eval 0] by blast

theorem verified_body_suspends_witness:
  "\<exists>n st' rest. trace (source_step demo_exec demo_eval) snd n (demo_while, 0) = Yielded st' # rest \<or>
    trace (source_step demo_exec demo_eval) snd n (demo_while, 0) = [Finished st']"
  by (rule verified_body_suspends [OF demo_while_verified _ demo_while_shape])
    (simp_all add: checks_assumes_def negate_def demo_while_def completes.simps(2) classify_eval)

end
