(* ===== verification/Pointer_State.thy ===== *)
theory Pointer_State
  imports Snapshots "HOL-Library.Option_ord"
begin

text \<open>
  The flow-sensitive pointer states of the code generator
  (\<open>salt-front/src/codegen/verification/pointer_state.rs\<close>), and the way
  \<open>emit_salt_if\<close> (\<open>codegen/stmt.rs\<close>) uses the tracker around the branches of
  an \<open>if\<close>. The maps are only looked up, and are partial functions. A diagnostic is a
  constructor with the name it mentions.
\<close>

section \<open>States, a join semilattice\<close>

datatype pointer_state = Valid | Empty | Optional

definition show_pointer_state :: "pointer_state \<Rightarrow> string" where
  "show_pointer_state s =
     (case s of Valid \<Rightarrow> ''Valid'' | Empty \<Rightarrow> ''Empty'' | Optional \<Rightarrow> ''Optional'')"

text \<open>\<open>Optional\<close> is the state of which less is known than of the two others.\<close>

instantiation pointer_state :: semilattice_sup
begin

definition less_eq_pointer_state :: "pointer_state \<Rightarrow> pointer_state \<Rightarrow> bool" where
  "less_eq_pointer_state a b = (a = b \<or> b = Optional)"

definition less_pointer_state :: "pointer_state \<Rightarrow> pointer_state \<Rightarrow> bool" where
  "less_pointer_state a b = (a \<noteq> b \<and> b = Optional)"

definition sup_pointer_state :: "pointer_state \<Rightarrow> pointer_state \<Rightarrow> pointer_state" where
  "sup_pointer_state a b = (if a = b then a else Optional)"

instance
  by standard
    (auto simp: less_eq_pointer_state_def less_pointer_state_def sup_pointer_state_def)

end

section \<open>The tracker\<close>

type_synonym state_map = "string \<rightharpoonup> pointer_state"

record pointer_tracker =
  pt_states :: state_map
  pt_scopes :: "state_map list"

datatype deref_error = DerefEmpty string | DerefOptional string

definition tracker_new :: pointer_tracker where
  "tracker_new = \<lparr>pt_states = Map.empty, pt_scopes = []\<rparr>"

definition mark :: "pointer_state \<Rightarrow> string \<Rightarrow> pointer_tracker \<Rightarrow> pointer_tracker" where
  "mark s name t = t\<lparr>pt_states := (pt_states t)(name \<mapsto> s)\<rparr>"

definition mark_valid :: "string \<Rightarrow> pointer_tracker \<Rightarrow> pointer_tracker" where
  "mark_valid = mark Valid"

definition mark_empty :: "string \<Rightarrow> pointer_tracker \<Rightarrow> pointer_tracker" where
  "mark_empty = mark Empty"

definition mark_optional :: "string \<Rightarrow> pointer_tracker \<Rightarrow> pointer_tracker" where
  "mark_optional = mark Optional"

definition get_state :: "pointer_tracker \<Rightarrow> string \<Rightarrow> pointer_state option" where
  "get_state t name = pt_states t name"

definition check_deref :: "pointer_tracker \<Rightarrow> string \<Rightarrow> (deref_error, unit) result" where
  "check_deref t name =
     (case pt_states t name of
        Some Valid \<Rightarrow> Inr ()
      | Some Empty \<Rightarrow> Inl (DerefEmpty name)
      | Some Optional \<Rightarrow> Inl (DerefOptional name)
      | None \<Rightarrow> Inr ())"

definition tracker_push_scope :: "pointer_tracker \<Rightarrow> pointer_tracker" where
  "tracker_push_scope t = t\<lparr>pt_scopes := pt_scopes t @ [pt_states t]\<rparr>"

definition tracker_pop_scope :: "pointer_tracker \<Rightarrow> state_map option \<times> pointer_tracker" where
  "tracker_pop_scope t =
     (if pt_scopes t = [] then (None, t)
      else (Some (last (pt_scopes t)), t\<lparr>pt_scopes := butlast (pt_scopes t)\<rparr>))"

definition merge_state :: "pointer_state option \<Rightarrow> pointer_state option \<Rightarrow> pointer_state option" where
  "merge_state a b =
     (case (a, b) of
        (Some a, Some b) \<Rightarrow> if a = b then Some a else Some Optional
      | (Some a, None) \<Rightarrow> Some a
      | (None, Some b) \<Rightarrow> Some b
      | (None, None) \<Rightarrow> None)"

text \<open>The code inserts the merged state of every key of either map.\<close>

definition tracker_merge :: "state_map \<Rightarrow> pointer_tracker \<Rightarrow> pointer_tracker" where
  "tracker_merge other t = t\<lparr>pt_states := (\<lambda>key. merge_state (pt_states t key) (other key))\<rparr>"

definition tracker_clear :: "pointer_tracker \<Rightarrow> pointer_tracker" where
  "tracker_clear t = \<lparr>pt_states = Map.empty, pt_scopes = []\<rparr>"

definition restore_state :: "state_map \<Rightarrow> pointer_tracker \<Rightarrow> pointer_tracker" where
  "restore_state m t = t\<lparr>pt_states := m\<rparr>"

definition tracked_count :: "pointer_tracker \<Rightarrow> nat" where
  "tracked_count t = card (dom (pt_states t))"

section \<open>Around the branches of an if\<close>

text \<open>
  What leaving a branch does: \<open>if let Some(pre) = pop_scope() { restore_state(pre) }\<close>; in the
  contract of a scoped store the case without a saved scope is the failure.
\<close>

definition leave_branch :: "pointer_tracker \<Rightarrow> pointer_tracker" where
  "leave_branch t =
     (case tracker_pop_scope t of (Some pre, t) \<Rightarrow> restore_state pre t | (None, t) \<Rightarrow> t)"

definition leave_scope :: "pointer_tracker \<Rightarrow> pointer_tracker option" where
  "leave_scope t = (if pt_scopes t = [] then None else Some (leave_branch t))"

text \<open>
  Narrowing: \<open>p.addr != 0\<close> (\<open>is_neq\<close>) makes \<open>p\<close> valid in the
  then-branch and empty in the else-branch, \<open>p.addr == 0\<close> the other way round. The target
  comes from the parser's tree.
\<close>

definition narrow_then :: "(string \<times> bool) option \<Rightarrow> pointer_tracker \<Rightarrow> pointer_tracker" where
  "narrow_then target t =
     (case target of
        None \<Rightarrow> t
      | Some (var, is_neq) \<Rightarrow> if is_neq then mark_valid var t else mark_empty var t)"

definition narrow_else :: "(string \<times> bool) option \<Rightarrow> pointer_tracker \<Rightarrow> pointer_tracker" where
  "narrow_else target t =
     (case target of
        None \<Rightarrow> t
      | Some (var, is_neq) \<Rightarrow> if is_neq then mark_empty var t else mark_valid var t)"

text \<open>\<open>then_b\<close>, \<open>else_b\<close>: what emitting the branches does to the tracker.\<close>

definition flow_if ::
  "(string \<times> bool) option \<Rightarrow> (pointer_tracker \<Rightarrow> pointer_tracker) \<Rightarrow>
   (pointer_tracker \<Rightarrow> pointer_tracker) option \<Rightarrow> pointer_tracker \<Rightarrow> pointer_tracker" where
  "flow_if target then_b else_b t =
     (let t = leave_branch (then_b (narrow_then target (tracker_push_scope t)))
      in case else_b of
           None \<Rightarrow> t
         | Some else_b \<Rightarrow> leave_branch (else_b (narrow_else target (tracker_push_scope t))))"

section \<open>The contract of a scoped store\<close>

interpretation pointers: snapshots tracker_push_scope leave_scope "\<lambda>(name, s). mark s name"
    "\<lambda>t. length (pt_scopes t)" "\<lambda>_. True"
  by unfold_locales
    (auto simp: tracker_push_scope_def leave_scope_def leave_branch_def tracker_pop_scope_def
      mark_def restore_state_def)

section \<open>Merging is the join\<close>

lemma merge_state_sup: "merge_state a b = sup a b"
  by (cases a; cases b) (auto simp: merge_state_def sup_pointer_state_def)

lemma deref_le:
  "is_Ok (check_deref t p) \<longleftrightarrow> pt_states t p \<le> Some Valid"
  by (auto simp: check_deref_def less_eq_pointer_state_def split: option.splits pointer_state.splits)

text \<open>
  Merging two branches is the least upper bound of their knowledge, pointwise, where
  an untracked variable is below every state and \<open>Optional\<close> above; so it does not depend on the
  order in which branches are merged, and a dereference is accepted after the merge exactly when
  it is accepted at the end of both branches.
\<close>

theorem merge_is_join:
  "pt_states (tracker_merge other t) = sup (pt_states t) other \<and>
   (is_Ok (check_deref (tracker_merge other t) p) \<longleftrightarrow>
      is_Ok (check_deref t p) \<and> is_Ok (check_deref (restore_state other t) p))"
  by (simp add: tracker_merge_def merge_state_sup fun_eq_iff deref_le restore_state_def)

text \<open>
  Branches leave no trace: whatever well-nested scopes and markings the emission of the branches of an
  \<open>if\<close> performs, the tracker after the \<open>if\<close> is the tracker before it, while
  inside the then-branch of \<open>if p.addr != 0\<close> the pointer may be dereferenced and in its
  else-branch not.
\<close>

theorem if_restores_states:
  assumes "balanced body" "then_b = (\<lambda>t. the (pointers.run body t))"
    and "\<forall>f. else_b = Some f \<longrightarrow> (\<exists>body'. balanced body' \<and> f = (\<lambda>t. the (pointers.run body' t)))"
  shows "flow_if target then_b else_b t = t \<and>
    is_Ok (check_deref (narrow_then (Some (p, True)) t) p) \<and>
    check_deref (narrow_else (Some (p, True)) t) p = Inl (DerefEmpty p)"
proof -
  have branch: "leave_branch (the (pointers.run ops (mrk (tracker_push_scope u)))) = u"
    if bal: "balanced ops" and mrk: "\<forall>v. mrk v = v \<or> (\<exists>s n. mrk v = mark s n v)" for ops mrk u
  proof -
    let ?v = "mrk (tracker_push_scope u)"
    have v: "leave_scope ?v = Some u" "0 < length (pt_scopes ?v)"
      using mrk [rule_format, of "tracker_push_scope u"]
      by (auto simp: leave_scope_def leave_branch_def tracker_pop_scope_def tracker_push_scope_def
          mark_def restore_state_def)
    obtain w where "pointers.run ops ?v = Some w" "leave_scope w = leave_scope ?v"
      using pointers.run_balanced [OF bal TrueI v(2)] by auto
    then show ?thesis using v by (auto simp: leave_scope_def split: if_splits)
  qed
  have n: "\<forall>v. narrow_then target v = v \<or> (\<exists>s n. narrow_then target v = mark s n v)"
    "\<forall>v. narrow_else target v = v \<or> (\<exists>s n. narrow_else target v = mark s n v)"
    by (auto simp: narrow_then_def narrow_else_def mark_valid_def mark_empty_def split: option.splits)
  have "flow_if target then_b else_b t = t"
    unfolding flow_if_def assms(2) branch [OF assms(1) n(1)] Let_def
    using assms(3) branch [OF _ n(2)] by (auto split: option.split)
  then show ?thesis
    by (simp add: narrow_then_def narrow_else_def mark_valid_def mark_empty_def mark_def check_deref_def)
qed

theorem if_restores_states_witness:
  "flow_if (Some (''p'', True)) (\<lambda>t. the (pointers.run [Edit (''p'', Empty)] t)) None
     (mark_valid ''p'' tracker_new) = mark_valid ''p'' tracker_new"
  using if_restores_states [of "[Edit (''p'', Empty)]" _ None "Some (''p'', True)" "mark_valid ''p'' tracker_new" "''p''"]
    balanced_edits [of "[(''p'', Empty)]"] by simp

text \<open>
  So the analysis is not sound for assignments in a branch: \<open>merge\<close> is not used there, and a
  pointer that one branch empties counts as valid afterwards, where the join would be \<open>Optional\<close>.
\<close>

lemma stale_after_branch:
  "check_deref (flow_if None (mark_empty ''p'') None (mark_valid ''p'' tracker_new)) ''p'' = Inr ()"
  "check_deref (tracker_merge (pt_states (mark_empty ''p'' tracker_new)) (mark_valid ''p'' tracker_new)) ''p'' =
     Inl (DerefOptional ''p'')"
  by (simp_all add: flow_if_def mark_empty_def mark_valid_def mark_def tracker_new_def check_deref_def
      tracker_push_scope_def leave_branch_def tracker_pop_scope_def restore_state_def narrow_then_def
      tracker_merge_def merge_state_def)

end
