(* ===== verification/Ledgers.thy ===== *)
theory Ledgers
  imports Prelude
begin

text \<open>
  The two leak detectors of the code generator: \<open>MallocTracker\<close>
  (\<open>codegen/verification/malloc_tracker.rs\<close>), a graph of values that contain allocations,
  and \<open>Z3StateTracker\<close> (\<open>codegen/verification/state_tracker.rs\<close>), a log of
  ownership transitions. Both keep a ledger of open obligations; the contract they share is a locale. A
  hash map that is iterated is an association list in its iteration order.
\<close>

section \<open>The contract of a ledger\<close>

locale ledger =
  fixes pending :: "'s \<Rightarrow> string set"
    and close_out :: "string \<Rightarrow> 's \<Rightarrow> 's"
    and reset :: "'s \<Rightarrow> 's"
    and audit :: "'s \<Rightarrow> bool"
  assumes pending_close: "pending (close_out k s) = pending s - {k}"
    and pending_reset: "pending (reset s) = {}"
    and audit_iff: "audit s \<longleftrightarrow> pending s = {}"
begin

lemma pending_closes: "pending (fold close_out ks s) = pending s - set ks"
  by (induction ks arbitrary: s) (auto simp: pending_close)

lemma audit_after: "audit (fold close_out ks s) \<longleftrightarrow> pending s \<subseteq> set ks"
  by (auto simp: audit_iff pending_closes)

lemma audit_reset: "audit (fold close_out ks (reset s))"
  by (simp add: audit_after pending_reset)

end

section \<open>The allocation tracker\<close>

record malloc_tracker =
  active_allocs :: "(string \<times> string) list"
  dependencies :: "(string \<times> string list) list"

definition malloc_new :: malloc_tracker where
  "malloc_new = \<lparr>active_allocs = [], dependencies = []\<rparr>"

definition malloc_track :: "string \<Rightarrow> string \<Rightarrow> malloc_tracker \<Rightarrow> malloc_tracker" where
  "malloc_track alloc_id source_var m =
     m\<lparr>active_allocs := AList.update alloc_id source_var (active_allocs m)\<rparr>"

definition malloc_free :: "string \<Rightarrow> malloc_tracker \<Rightarrow> malloc_tracker" where
  "malloc_free alloc_id m = m\<lparr>active_allocs := AList.delete alloc_id (active_allocs m)\<rparr>"

definition children :: "(string \<times> string list) list \<Rightarrow> string \<Rightarrow> string list" where
  "children deps v = (case map_of deps v of None \<Rightarrow> [] | Some cs \<Rightarrow> cs)"

definition link_dependency :: "string \<Rightarrow> string \<Rightarrow> malloc_tracker \<Rightarrow> malloc_tracker" where
  "link_dependency composite component m =
     m\<lparr>dependencies :=
       AList.update composite (children (dependencies m) composite @ [component]) (dependencies m)\<rparr>"

definition has_dependencies :: "string \<Rightarrow> malloc_tracker \<Rightarrow> bool" where
  "has_dependencies v m = (map_of (dependencies m) v \<noteq> None)"

definition drain_pending_to :: "string \<Rightarrow> malloc_tracker \<Rightarrow> malloc_tracker" where
  "drain_pending_to target_name m =
     (case map_of (dependencies m) ''__pending_struct'' of
        None \<Rightarrow> m
      | Some deps \<Rightarrow>
          fold (link_dependency target_name) deps
            (m\<lparr>dependencies := AList.delete ''__pending_struct'' (dependencies m)\<rparr>))"

text \<open>
  \<open>escape_recurse\<close>: the calls still to be made are an explicit list, the children of a value in
  front of what is left, which is the order of the recursion.
\<close>

lemma escape_measure:
  assumes "v \<notin> visited" "children deps v \<noteq> []"
  shows "card (fst ` set deps - insert v visited) < card (fst ` set deps - visited)"
proof -
  have "v \<in> fst ` set deps"
    using assms(2) map_of_SomeD by (force simp: children_def split: option.splits)
  then have "fst ` set deps - insert v visited \<subset> fst ` set deps - visited" using assms(1) by auto
  then show ?thesis by (intro psubset_card_mono) simp_all
qed

function escape_recurse ::
  "(string \<times> string list) list \<Rightarrow> string list \<Rightarrow> string set \<Rightarrow> (string \<times> string) list \<Rightarrow>
   string set \<times> (string \<times> string) list" where
  "escape_recurse deps [] visited active = (visited, active)"
| "escape_recurse deps (v # vs) visited active =
     (if v \<in> visited then escape_recurse deps vs visited active
      else escape_recurse deps (children deps v @ vs) (insert v visited) (AList.delete v active))"
  by pat_completeness auto
termination
proof (relation "measures [\<lambda>(deps, vs, visited, _). card (fst ` set deps - visited),
    \<lambda>(_, vs, _). length vs]", goal_cases)
  case (3 deps v vs visited active)
  have "card (fst ` set deps - insert v visited) \<le> card (fst ` set deps - visited)"
    by (intro card_mono) auto
  then show ?case
    using escape_measure [OF 3] by (cases "children deps v = []") (auto simp: order_le_less)
qed auto

definition mark_escaped :: "string \<Rightarrow> malloc_tracker \<Rightarrow> malloc_tracker" where
  "mark_escaped val_name m =
     m\<lparr>active_allocs := snd (escape_recurse (dependencies m) [val_name] {} (active_allocs m))\<rparr>"

definition malloc_is_tracked :: "string \<Rightarrow> malloc_tracker \<Rightarrow> bool" where
  "malloc_is_tracked var_name m = (var_name \<in> snd ` set (active_allocs m))"

definition alloc_id_for_var :: "string \<Rightarrow> malloc_tracker \<Rightarrow> string option" where
  "alloc_id_for_var var_name m = map_option fst (find (\<lambda>(_, v). v = var_name) (active_allocs m))"

definition get_alloc :: "string \<Rightarrow> malloc_tracker \<Rightarrow> string option" where
  "get_alloc alloc_id m = map_of (active_allocs m) alloc_id"

definition contains_alloc :: "string \<Rightarrow> malloc_tracker \<Rightarrow> bool" where
  "contains_alloc alloc_id m = (get_alloc alloc_id m \<noteq> None)"

datatype leak_error = MemoryLeak string string | ResourceLeak string

definition malloc_verify :: "malloc_tracker \<Rightarrow> (leak_error, unit) result" where
  "malloc_verify m =
     (case active_allocs m of [] \<Rightarrow> Inr () | (var, info) # _ \<Rightarrow> Inl (MemoryLeak var info))"

definition malloc_clear :: "malloc_tracker \<Rightarrow> malloc_tracker" where
  "malloc_clear m = \<lparr>active_allocs = [], dependencies = []\<rparr>"

definition open_allocs :: "malloc_tracker \<Rightarrow> string set" where
  "open_allocs m = fst ` set (active_allocs m)"

interpretation mallocs: ledger open_allocs malloc_free malloc_clear "\<lambda>m. is_Ok (malloc_verify m)"
proof
  show "open_allocs (malloc_free k m) = open_allocs m - {k}" for k m
    by (force simp: open_allocs_def malloc_free_def AList.delete_eq)
qed (auto simp: open_allocs_def malloc_clear_def malloc_verify_def split: list.splits)

section \<open>Escaping follows the containment graph\<close>

definition contains :: "(string \<times> string list) list \<Rightarrow> string \<Rightarrow> string \<Rightarrow> bool" where
  "contains deps v w = (w \<in> set (children deps v))"

text \<open>
  The values reached from the list without passing through a visited one are those the call
  visits; all others keep their entry.
\<close>

lemma escape_recurse_reaches:
  assumes "(visited', active') = escape_recurse deps vs visited active"
    and "\<forall>v \<in> visited. \<forall>w. contains deps v w \<longrightarrow> w \<in> visited \<union> set vs"
  shows "visited' = {w. \<exists>v \<in> visited \<union> set vs. (contains deps)\<^sup>*\<^sup>* v w} \<and>
    active' = filter (\<lambda>(k, _). k \<in> visited \<or> k \<notin> visited') active"
  using assms
proof (induction deps vs visited active arbitrary: visited' active' rule: escape_recurse.induct)
  case (1 deps visited active)
  have "w \<in> visited" if "(contains deps)\<^sup>*\<^sup>* v w" "v \<in> visited" for v w
    using that 1(2) by (induction rule: rtranclp_induct) auto
  then show ?case using 1(1) by auto
next
  case (2 deps v vs visited active)
  show ?case
  proof (cases "v \<in> visited")
    case True
    have "visited \<union> set (v # vs) = visited \<union> set vs" using True by auto
    then show ?thesis using 2(1) [OF True] 2(3,4) True by auto
  next
    case False
    let ?vis = "insert v visited"
    have inv: "\<forall>u \<in> ?vis. \<forall>w. contains deps u w \<longrightarrow> w \<in> ?vis \<union> set (children deps v @ vs)"
      using 2(4) by (auto simp: contains_def)
    have "(visited', active') = escape_recurse deps (children deps v @ vs) ?vis (AList.delete v active)"
      using 2(3) False by simp
    from 2(2) [OF False this inv]
    have ih: "visited' = {w. \<exists>u \<in> ?vis \<union> set (children deps v @ vs). (contains deps)\<^sup>*\<^sup>* u w}"
      "active' = filter (\<lambda>(k, _). k \<in> ?vis \<or> k \<notin> visited') (AList.delete v active)" by simp_all
    have "(contains deps)\<^sup>*\<^sup>* v w" if "u \<in> set (children deps v)" "(contains deps)\<^sup>*\<^sup>* u w" for u w
      using that by (meson contains_def converse_rtranclp_into_rtranclp)
    then have vis: "visited' = {w. \<exists>u \<in> visited \<union> set (v # vs). (contains deps)\<^sup>*\<^sup>* u w}"
      unfolding ih(1) by auto
    moreover have "v \<in> visited'" unfolding vis by auto
    then have "active' = filter (\<lambda>(k, _). k \<in> visited \<or> k \<notin> visited') active"
      unfolding ih(2) using False by (auto simp: AList.delete_eq filter_filter intro!: filter_cong)
    ultimately show ?thesis by simp
  qed
qed

text \<open>
  Property C36: a value that is returned takes with it exactly the allocations it contains: after
  \<open>mark_escaped v\<close>, on any containment graph, cyclic ones included, the open allocations are
  those that were open and are not reachable from \<open>v\<close>, with their entries unchanged; the graph
  is not changed.
\<close>

theorem mark_escaped_reachable:
  "active_allocs (mark_escaped v m) =
     filter (\<lambda>(k, _). \<not> (contains (dependencies m))\<^sup>*\<^sup>* v k) (active_allocs m) \<and>
   open_allocs (mark_escaped v m) = open_allocs m - {k. (contains (dependencies m))\<^sup>*\<^sup>* v k} \<and>
   dependencies (mark_escaped v m) = dependencies m"
proof -
  obtain vis act where e: "(vis, act) = escape_recurse (dependencies m) [v] {} (active_allocs m)"
    by (metis surj_pair)
  have "act = filter (\<lambda>(k, _). \<not> (contains (dependencies m))\<^sup>*\<^sup>* v k) (active_allocs m)"
    using escape_recurse_reaches [OF e] by simp
  then have "active_allocs (mark_escaped v m) =
      filter (\<lambda>(k, _). \<not> (contains (dependencies m))\<^sup>*\<^sup>* v k) (active_allocs m)"
    unfolding mark_escaped_def e [symmetric] by simp
  then show ?thesis by (force simp: open_allocs_def mark_escaped_def)
qed

section \<open>The ownership log\<close>

text \<open>
  \<open>asserted\<close> are the equations handed to the solver, \<open><id>_state = n\<close>; the
  audit does not ask it.
\<close>

datatype ownership_state = Uninitialized | Owned | Released | Moved

definition ownership_code :: "ownership_state \<Rightarrow> int" where
  "ownership_code s =
     (case s of Uninitialized \<Rightarrow> 0 | Owned \<Rightarrow> 1 | Released \<Rightarrow> 2 | Moved \<Rightarrow> 3)"

record state_tracker =
  st_states :: "string list"
  st_transitions :: "(string \<times> ownership_state) list"
  st_asserted :: "(string \<times> int) list"

definition state_new :: state_tracker where
  "state_new = \<lparr>st_states = [], st_transitions = [], st_asserted = []\<rparr>"

definition state_clear :: "state_tracker \<Rightarrow> state_tracker" where
  "state_clear t = t\<lparr>st_states := [], st_transitions := []\<rparr>"

definition register_allocation :: "string \<Rightarrow> state_tracker \<Rightarrow> state_tracker" where
  "register_allocation v t =
     t\<lparr>st_asserted := st_asserted t @ [(v @ ''_state'', ownership_code Owned)],
       st_states := List.insert v (st_states t)\<rparr>"

definition record_transition :: "ownership_state \<Rightarrow> string \<Rightarrow> state_tracker \<Rightarrow> state_tracker" where
  "record_transition s v t =
     (if v \<in> set (st_states t) then t\<lparr>st_transitions := st_transitions t @ [(v, s)]\<rparr> else t)"

definition mark_moved :: "string \<Rightarrow> state_tracker \<Rightarrow> state_tracker" where
  "mark_moved = record_transition Moved"

definition mark_released :: "string \<Rightarrow> state_tracker \<Rightarrow> state_tracker" where
  "mark_released = record_transition Released"

definition has_terminal :: "state_tracker \<Rightarrow> string \<Rightarrow> bool" where
  "has_terminal t v = (v \<in> fst ` set (st_transitions t))"

definition verify_leak_free :: "state_tracker \<Rightarrow> (leak_error, unit) result" where
  "verify_leak_free t =
     (case find (\<lambda>v. \<not> has_terminal t v) (st_states t) of
        Some v \<Rightarrow> Inl (ResourceLeak v) | None \<Rightarrow> Inr ())"

definition state_tracked_count :: "state_tracker \<Rightarrow> nat" where
  "state_tracked_count t = length (st_states t)"

definition state_is_tracked :: "string \<Rightarrow> state_tracker \<Rightarrow> bool" where
  "state_is_tracked v t = (v \<in> set (st_states t))"

definition owed :: "state_tracker \<Rightarrow> string set" where
  "owed t = {v \<in> set (st_states t). \<not> has_terminal t v}"

lemma owed_transition: "owed (record_transition s v t) = owed t - {v}"
  by (auto simp: owed_def record_transition_def has_terminal_def)

interpretation releases: ledger owed mark_released state_clear "\<lambda>t. is_Ok (verify_leak_free t)"
proof
  show "is_Ok (verify_leak_free t) \<longleftrightarrow> owed t = {}" for t
    by (auto simp: verify_leak_free_def owed_def find_None_iff find_Some_iff split: option.splits)
      (metis nth_mem)
qed (simp_all add: mark_released_def owed_transition, simp add: owed_def state_clear_def)

interpretation moves: ledger owed mark_moved state_clear "\<lambda>t. is_Ok (verify_leak_free t)"
  by unfold_locales
    (simp_all add: mark_moved_def owed_transition releases.pending_reset releases.audit_iff)

text \<open>
  Both audits accept exactly when nothing is owed: after freeing (releasing) any list
  of resources, the verdict is \<open>Ok\<close> if and only if all that was open is in the list; and releasing
  and moving settle an obligation alike.
\<close>

theorem audits_exact:
  "(is_Ok (malloc_verify (fold malloc_free ks m)) \<longleftrightarrow> open_allocs m \<subseteq> set ks) \<and>
   (is_Ok (verify_leak_free (fold mark_released ks t)) \<longleftrightarrow> owed t \<subseteq> set ks) \<and>
   (is_Ok (verify_leak_free (fold mark_moved ks t)) \<longleftrightarrow> owed t \<subseteq> set ks)"
  by (simp add: mallocs.audit_after releases.audit_after moves.audit_after)

text \<open>
  The log keeps no order between allocations and releases: a resource allocated again under the
  name of one that has been released owes nothing, in contrast to the allocation tracker.
\<close>

lemma second_allocation_not_owed:
  "verify_leak_free
     (register_allocation ''v'' (mark_released ''v'' (register_allocation ''v'' state_new))) = Inr ()"
  "malloc_verify (malloc_track ''v'' ''p'' (malloc_free ''v'' (malloc_track ''v'' ''p'' malloc_new))) =
     Inl (MemoryLeak ''v'' ''p'')"
  by (simp_all add: verify_leak_free_def register_allocation_def mark_released_def
      record_transition_def state_new_def has_terminal_def malloc_verify_def malloc_track_def
      malloc_free_def malloc_new_def)

text \<open>
  What the chain of a struct literal does: fields are linked to \<open>__pending_struct\<close>, the
  \<open>let\<close> renames it, and returning the variable takes the allocations along.
\<close>

lemma struct_return_example:
  "malloc_verify (mark_escaped ''s'' (drain_pending_to ''s''
     (link_dependency ''__pending_struct'' ''malloc:p'' (malloc_track ''malloc:p'' ''p'' malloc_new)))) = Inr ()"
  by (simp add: mark_escaped_def drain_pending_to_def link_dependency_def malloc_track_def
      malloc_new_def children_def malloc_verify_def)

end
