(* ===== verification/Arena.thy ===== *)
theory Arena
  imports Prelude
begin

text \<open>
  The two arena analyses of the code generator: \<open>ArenaVerifier\<close>
  (\<open>codegen/verification/arena_verifier.rs\<close>), which tracks epochs of mark and reset, and
  \<open>ArenaEscapeTracker\<close> (\<open>codegen/verification/arena_escape.rs\<close>), which tracks
  scope depths. Epochs and depths count operations from 0 and are natural numbers; maps that are only
  looked up or updated pointwise are partial functions.
\<close>

section \<open>Mark and reset\<close>

record arena_pointer =
  birth_epoch :: nat
  ptr_valid :: bool

record uaf_violation =
  uv_ptr_id :: string
  uv_birth_epoch :: nat
  uv_reset_epoch :: nat

record arena_verifier =
  av_epoch :: nat
  av_pointers :: "string \<rightharpoonup> arena_pointer"
  av_marks :: "string \<rightharpoonup> nat"
  av_violations :: "uaf_violation list"

datatype arena_error = UnknownMark string | UnknownPointer string | UseAfterFree string nat

definition arena_new :: arena_verifier where
  "arena_new = \<lparr>av_epoch = 0, av_pointers = Map.empty, av_marks = Map.empty, av_violations = []\<rparr>"

definition arena_clear :: "arena_verifier \<Rightarrow> arena_verifier" where
  "arena_clear a = \<lparr>av_epoch = 0, av_pointers = Map.empty, av_marks = Map.empty, av_violations = []\<rparr>"

definition register_mark :: "string \<Rightarrow> arena_verifier \<Rightarrow> arena_verifier" where
  "register_mark mark_id a =
     a\<lparr>av_epoch := av_epoch a + 1, av_marks := (av_marks a)(mark_id \<mapsto> av_epoch a + 1)\<rparr>"

definition register_alloc :: "string \<Rightarrow> arena_verifier \<Rightarrow> arena_verifier" where
  "register_alloc ptr_id a =
     a\<lparr>av_pointers := (av_pointers a)(ptr_id \<mapsto> \<lparr>birth_epoch = av_epoch a, ptr_valid = True\<rparr>)\<rparr>"

definition invalidate_from :: "nat \<Rightarrow> arena_pointer \<Rightarrow> arena_pointer" where
  "invalidate_from epoch p = (if epoch \<le> birth_epoch p then p\<lparr>ptr_valid := False\<rparr> else p)"

definition register_reset :: "string \<Rightarrow> arena_verifier \<Rightarrow> (arena_error, arena_verifier) result" where
  "register_reset mark_id a =
     (case av_marks a mark_id of
        None \<Rightarrow> Inl (UnknownMark mark_id)
      | Some epoch \<Rightarrow>
          Inr (a\<lparr>av_pointers := (\<lambda>v. map_option (invalidate_from epoch) (av_pointers a v))\<rparr>))"

definition register_use :: "string \<Rightarrow> arena_verifier \<Rightarrow> (arena_error, arena_verifier) result" where
  "register_use ptr_id a =
     (case av_pointers a ptr_id of
        None \<Rightarrow> Inl (UnknownPointer ptr_id)
      | Some p \<Rightarrow>
          Inr (if ptr_valid p then a
               else a\<lparr>av_violations := av_violations a @
                 [\<lparr>uv_ptr_id = ptr_id, uv_birth_epoch = birth_epoch p, uv_reset_epoch = av_epoch a\<rparr>]\<rparr>))"

definition verify_no_use_after_free :: "arena_verifier \<Rightarrow> (arena_error, unit) result" where
  "verify_no_use_after_free a =
     (case av_violations a of
        [] \<Rightarrow> Inr ()
      | v # _ \<Rightarrow> Inl (UseAfterFree (uv_ptr_id v) (uv_birth_epoch v)))"

definition pointer_count :: "arena_verifier \<Rightarrow> nat" where
  "pointer_count a = card (dom (av_pointers a))"

definition mark_count :: "arena_verifier \<Rightarrow> nat" where
  "mark_count a = card (dom (av_marks a))"

definition violation_count :: "arena_verifier \<Rightarrow> nat" where
  "violation_count a = length (av_violations a)"

section \<open>What the epochs mean\<close>

text \<open>The operations a function performs on an arena, run in order up to the first error.\<close>

datatype arena_op = Mark string | Alloc string | Reset string | Use string

definition arena_step :: "arena_op \<Rightarrow> arena_verifier \<Rightarrow> (arena_error, arena_verifier) result" where
  "arena_step oper a =
     (case oper of
        Mark m \<Rightarrow> Inr (register_mark m a)
      | Alloc p \<Rightarrow> Inr (register_alloc p a)
      | Reset m \<Rightarrow> register_reset m a
      | Use p \<Rightarrow> register_use p a)"

fun arena_run :: "arena_op list \<Rightarrow> arena_verifier \<Rightarrow> (arena_error, arena_verifier) result" where
  "arena_run [] a = Inr a"
| "arena_run (x # xs) a = (case arena_step x a of Inl e \<Rightarrow> Inl e | Inr a \<Rightarrow> arena_run xs a)"

text \<open>
  Specification on the history alone, without epochs: \<open>last_at x h i\<close> says that operation
  \<open>i\<close> of \<open>h\<close> is the last occurrence of \<open>x\<close>. A pointer is dead
  when, after its last allocation, some reset went back to a mark that was taken before that allocation.
\<close>

definition last_at :: "arena_op \<Rightarrow> arena_op list \<Rightarrow> nat \<Rightarrow> bool" where
  "last_at x h i = (i < length h \<and> h ! i = x \<and> x \<notin> set (drop (Suc i) h))"

definition dead :: "string \<Rightarrow> arena_op list \<Rightarrow> bool" where
  "dead p h =
     (\<exists>i j m l. last_at (Alloc p) h i \<and> i < j \<and> j < length h \<and> h ! j = Reset m \<and>
        last_at (Mark m) (take j h) l \<and> l < i)"

definition uses_dead :: "arena_op list \<Rightarrow> bool" where
  "uses_dead h = (\<exists>i p. i < length h \<and> h ! i = Use p \<and> dead p (take i h))"

lemma last_at_snoc:
  "last_at x (h @ [y]) i = (if x = y then i = length h else last_at x h i)"
proof (cases "i < length h")
  case True
  then show ?thesis by (auto simp: last_at_def nth_append)
next
  case False
  then show ?thesis by (cases "i = length h") (auto simp: last_at_def nth_append)
qed

lemma last_at_less: "last_at x h i \<Longrightarrow> i < length h"
  by (simp add: last_at_def)

lemma dead_snoc:
  "dead p (h @ [y]) \<longleftrightarrow>
     y \<noteq> Alloc p \<and>
     (dead p h \<or> (\<exists>m i l. y = Reset m \<and> last_at (Alloc p) h i \<and> last_at (Mark m) h l \<and> l < i))"
proof (cases "y = Alloc p")
  case True
  then show ?thesis by (auto simp: dead_def last_at_snoc)
next
  case False
  have j: "j < length (h @ [y]) \<longleftrightarrow> j < length h \<or> j = length h" for j by auto
  show ?thesis
  proof
    assume "dead p (h @ [y])"
    then obtain i j m l where d: "last_at (Alloc p) h i" "i < j" "j < length (h @ [y])"
        "(h @ [y]) ! j = Reset m" "last_at (Mark m) (take j (h @ [y])) l" "l < i"
      using False by (auto simp: dead_def last_at_snoc)
    show "y \<noteq> Alloc p \<and>
       (dead p h \<or> (\<exists>m i l. y = Reset m \<and> last_at (Alloc p) h i \<and> last_at (Mark m) h l \<and> l < i))"
    proof (cases "j < length h")
      case True
      then have "dead p h" using d unfolding dead_def by (auto simp: nth_append)
      then show ?thesis using False by simp
    next
      case False
      then have "j = length h" using d(3) by simp
      then show ?thesis using d \<open>y \<noteq> Alloc p\<close> by auto
    qed
  next
    assume "y \<noteq> Alloc p \<and>
       (dead p h \<or> (\<exists>m i l. y = Reset m \<and> last_at (Alloc p) h i \<and> last_at (Mark m) h l \<and> l < i))"
    then consider "dead p h" |
      m i l where "y = Reset m" "last_at (Alloc p) h i" "last_at (Mark m) h l" "l < i" by blast
    then show "dead p (h @ [y])"
    proof cases
      case 1
      then obtain i j m l where "last_at (Alloc p) h i" "i < j" "j < length h" "h ! j = Reset m"
          "last_at (Mark m) (take j h) l" "l < i" by (auto simp: dead_def)
      then show ?thesis using False unfolding dead_def
        by (intro exI [of _ i] exI [of _ j] exI [of _ m] exI [of _ l]) (simp add: last_at_snoc nth_append)
    next
      case 2
      then show ?thesis using False unfolding dead_def
        by (intro exI [of _ i] exI [of _ "length h"] exI [of _ m] exI [of _ l])
          (simp add: last_at_snoc last_at_less)
    qed
  qed
qed

lemma uses_dead_snoc: "uses_dead (h @ [y]) \<longleftrightarrow> uses_dead h \<or> (\<exists>p. y = Use p \<and> dead p h)"
proof -
  have "i < length (h @ [y]) \<longleftrightarrow> i < length h \<or> i = length h" for i by auto
  then show ?thesis unfolding uses_dead_def by (auto simp: nth_append)
qed

text \<open>The state after a history.\<close>

definition marks :: "arena_op list \<Rightarrow> nat" where
  "marks h = length (filter (\<lambda>x. case x of Mark _ \<Rightarrow> True | _ \<Rightarrow> False) h)"

lemma marks_simps [simp]:
  "marks [] = 0" "marks (xs @ ys) = marks xs + marks ys"
  "marks (x # xs) = (case x of Mark _ \<Rightarrow> 1 | _ \<Rightarrow> 0) + marks xs"
  by (simp_all add: marks_def split: arena_op.split)

lemma marks_mono: "i \<le> j \<Longrightarrow> marks (take i h) \<le> marks (take j h)"
  by (metis le_add1 le_add_diff_inverse marks_simps(2) take_add)

lemma mark_before:
  assumes "last_at (Mark m) h l" "last_at (Alloc p) h i"
  shows "marks (take (Suc l) h) \<le> marks (take i h) \<longleftrightarrow> l < i"
proof -
  have l: "l < length h" "h ! l = Mark m" "h ! i = Alloc p" using assms by (simp_all add: last_at_def)
  have "marks (take (Suc l) h) = Suc (marks (take l h))"
    using l by (simp add: take_Suc_conv_app_nth)
  moreover have "marks (take i h) \<le> marks (take l h)" if "i \<le> l" using that by (rule marks_mono)
  moreover have "marks (take (Suc l) h) \<le> marks (take i h)" if "l < i" using that by (intro marks_mono) simp
  ultimately show ?thesis by (metis not_less Suc_n_not_le_n order_trans)
qed

lemma last_at_later: "last_at x h i \<Longrightarrow> i < j \<Longrightarrow> j < length h \<Longrightarrow> h ! j \<noteq> x"
proof -
  assume a: "last_at x h i" "i < j" "j < length h"
  have "h ! j = drop (Suc i) h ! (j - Suc i)" using a by simp
  then have "h ! j \<in> set (drop (Suc i) h)" using a by (metis nth_mem length_drop diff_less_mono Suc_leI)
  then show "h ! j \<noteq> x" using a(1) by (auto simp: last_at_def)
qed

lemma last_at_unique: "last_at x h i \<Longrightarrow> last_at x h j \<Longrightarrow> i = j"
  using last_at_later by (metis last_at_def linorder_neqE_nat)

text \<open>The epoch of a mark and the birth epoch of a pointer, read off the history.\<close>

definition mark_epoch :: "arena_op list \<Rightarrow> string \<Rightarrow> nat \<Rightarrow> bool" where
  "mark_epoch h m e = (\<exists>l. last_at (Mark m) h l \<and> e = marks (take (Suc l) h))"

definition birth :: "arena_op list \<Rightarrow> string \<Rightarrow> nat \<Rightarrow> bool" where
  "birth h p b = (\<exists>i. last_at (Alloc p) h i \<and> b = marks (take i h))"

lemma mark_epoch_snoc:
  "mark_epoch (h @ [y]) m e = (if y = Mark m then e = Suc (marks h) else mark_epoch h m e)"
proof -
  have "take (Suc l) (h @ [y]) = take (Suc l) h" if "last_at (Mark m) h l" for l
    using that by (simp add: last_at_def)
  then show ?thesis by (auto simp: mark_epoch_def last_at_snoc simp del: take_append)
qed

lemma birth_snoc: "birth (h @ [y]) p b = (if y = Alloc p then b = marks h else birth h p b)"
proof -
  have "take i (h @ [y]) = take i h" if "last_at (Alloc p) h i" for i
    using that by (simp add: last_at_def)
  then show ?thesis by (auto simp: birth_def last_at_snoc simp del: take_append) simp_all
qed

lemma birth_unique: "birth h p b \<Longrightarrow> birth h p c \<Longrightarrow> b = c"
  unfolding birth_def using last_at_unique by metis

lemma dead_Reset:
  assumes "mark_epoch h m e" "birth h p b"
  shows "dead p (h @ [Reset m]) \<longleftrightarrow> dead p h \<or> e \<le> b"
proof -
  obtain l i where l: "last_at (Mark m) h l" "e = marks (take (Suc l) h)"
      "last_at (Alloc p) h i" "b = marks (take i h)"
    using assms by (auto simp: mark_epoch_def birth_def)
  have "e \<le> b \<longleftrightarrow> l < i" unfolding l(2,4) by (rule mark_before [OF l(1,3)])
  moreover have "l < i" if "last_at (Mark m) h l'" "last_at (Alloc p) h i'" "l' < i'" for l' i'
    using that last_at_unique [OF l(1)] last_at_unique [OF l(3)] by blast
  ultimately show ?thesis using l(1,3) unfolding dead_snoc by blast
qed

definition describes :: "arena_op list \<Rightarrow> arena_verifier \<Rightarrow> bool" where
  "describes h a =
     (av_epoch a = marks h \<and>
      (\<forall>m e. av_marks a m = Some e \<longleftrightarrow> mark_epoch h m e) \<and>
      (\<forall>p q. av_pointers a p = Some q \<longleftrightarrow> birth h p (birth_epoch q) \<and> ptr_valid q = (\<not> dead p h)) \<and>
      (av_violations a = [] \<longleftrightarrow> \<not> uses_dead h))"

lemma describes_step:
  assumes h: "describes h a" and step: "arena_step y a = Inr a'"
  shows "describes (h @ [y]) a'"
proof (cases y)
  case (Mark m)
  have a': "a' = register_mark m a" using step by (simp add: Mark arena_step_def)
  show ?thesis
    using h by (auto simp: describes_def a' register_mark_def Mark mark_epoch_snoc birth_snoc dead_snoc uses_dead_snoc)
next
  case (Alloc p)
  have a': "a' = register_alloc p a" using step by (simp add: Alloc arena_step_def)
  show ?thesis
    using h by (auto simp: describes_def a' register_alloc_def Alloc mark_epoch_snoc birth_snoc dead_snoc uses_dead_snoc)
next
  case (Reset m)
  obtain e where e: "mark_epoch h m e"
    and a': "a' = a\<lparr>av_pointers := (\<lambda>v. map_option (invalidate_from e) (av_pointers a v))\<rparr>"
    using step h by (auto simp: Reset describes_def arena_step_def register_reset_def split: option.splits)
  have "av_pointers a' p = Some q \<longleftrightarrow> birth h p (birth_epoch q) \<and> ptr_valid q = (\<not> dead p (h @ [Reset m]))" for p q
  proof (cases "av_pointers a p")
    case None
    then have "\<not> birth h p b" for b
      using h unfolding describes_def by (metis arena_pointer.select_convs option.distinct(1))
    then show ?thesis using None by (simp add: a')
  next
    case (Some q0)
    have b0: "birth h p (birth_epoch q0)" and v: "ptr_valid q0 = (\<not> dead p h)"
      using h Some by (simp_all add: describes_def)
    have b: "birth h p b \<longleftrightarrow> b = birth_epoch q0" for b
      using b0 birth_unique by blast
    show ?thesis
      using dead_Reset [OF e, of p "birth_epoch q0"] b v
      by (cases q; cases q0) (auto simp: a' Some invalidate_from_def)
  qed
  then show ?thesis
    using h by (auto simp: describes_def a' Reset mark_epoch_snoc birth_snoc uses_dead_snoc)
next
  case (Use p)
  obtain q where q: "av_pointers a p = Some q"
    using step by (auto simp: Use arena_step_def register_use_def split: option.splits)
  have valid: "ptr_valid q = (\<not> dead p h)" using h q unfolding describes_def by blast
  have a': "a' = (if ptr_valid q then a else a\<lparr>av_violations := av_violations a @
      [\<lparr>uv_ptr_id = p, uv_birth_epoch = birth_epoch q, uv_reset_epoch = av_epoch a\<rparr>]\<rparr>)"
    using step q by (simp add: Use arena_step_def register_use_def)
  show ?thesis
    using h valid by (auto simp: describes_def a' Use mark_epoch_snoc birth_snoc dead_snoc uses_dead_snoc)
qed

lemma arena_run_snoc:
  "arena_run (h @ [y]) a = (case arena_run h a of Inl e \<Rightarrow> Inl e | Inr a \<Rightarrow> arena_step y a)"
  by (induction h arbitrary: a) (auto split: sum.splits)

lemma arena_run_describes: "arena_run h arena_new = Inr a \<Longrightarrow> describes h a"
proof (induction h arbitrary: a rule: rev_induct)
  case Nil
  then show ?case by (auto simp: describes_def arena_new_def mark_epoch_def birth_def last_at_def uses_dead_def)
next
  case (snoc y h)
  then show ?case using describes_step by (auto simp: arena_run_snoc split: sum.splits)
qed

text \<open>
  Property C18: the epoch arithmetic of the verifier decides use after reset: for any sequence of
  marks, allocations, resets and uses, with marks and pointers taken again under the same name,
  the verdict is \<open>Ok\<close> exactly when no pointer is used after a reset to a mark that was taken before
  the pointer's allocation.
\<close>

theorem arena_verdict_exact:
  assumes "arena_run h arena_new = Inr a"
  shows "is_Ok (verify_no_use_after_free a) \<longleftrightarrow> \<not> uses_dead h"
proof -
  have "av_violations a = [] \<longleftrightarrow> \<not> uses_dead h"
    using arena_run_describes [OF assms] by (simp add: describes_def)
  then show ?thesis by (cases "av_violations a") (simp_all add: verify_no_use_after_free_def)
qed

definition demo_arena :: "arena_op list" where
  "demo_arena = [Alloc ''p'', Mark ''m'', Alloc ''q'', Reset ''m'', Use ''p'', Use ''q'']"

lemma demo_arena_run:
  "arena_run demo_arena arena_new = Inr a \<Longrightarrow> verify_no_use_after_free a = Inl (UseAfterFree ''q'' 1)"
  "\<exists>a. arena_run demo_arena arena_new = Inr a"
  by (auto simp: demo_arena_def arena_new_def arena_step_def register_mark_def register_alloc_def
      register_reset_def register_use_def invalidate_from_def verify_no_use_after_free_def)

theorem arena_verdict_exact_witness: "uses_dead demo_arena"
proof -
  obtain a where a: "arena_run demo_arena arena_new = Inr a" using demo_arena_run(2) by blast
  show ?thesis using arena_verdict_exact [OF a] demo_arena_run(1) [OF a] by simp
qed

text \<open>
  The header of the source says that \<open>reset_to\<close> invalidates the epochs greater than the mark's;
  the code invalidates its own epoch too, which the theorem shows to be right: a pointer allocated
  directly after the mark has the epoch of the mark.
\<close>

lemma same_epoch_invalidated:
  "uses_dead [Mark ''m'', Alloc ''p'', Reset ''m'', Use ''p'']"
proof -
  have "\<exists>a. arena_run [Mark ''m'', Alloc ''p'', Reset ''m'', Use ''p''] arena_new = Inr a \<and>
      av_violations a \<noteq> []"
    by (simp add: arena_new_def arena_step_def register_mark_def register_alloc_def
        register_reset_def register_use_def invalidate_from_def)
  then obtain a where a: "arena_run [Mark ''m'', Alloc ''p'', Reset ''m'', Use ''p''] arena_new = Inr a"
      "av_violations a \<noteq> []" by blast
  show ?thesis using arena_run_describes [OF a(1)] a(2) by (simp add: describes_def)
qed

section \<open>Escape analysis\<close>

record escape_tracker =
  et_taint :: "string \<rightharpoonup> nat"
  et_depth :: nat
  et_active :: bool

datatype escape_error = ReturnEscape string nat | StoreEscape string nat string nat

definition escape_new :: escape_tracker where
  "escape_new = \<lparr>et_taint = Map.empty, et_depth = 2, et_active = False\<rparr>"

definition escape_clear :: "escape_tracker \<Rightarrow> escape_tracker" where
  "escape_clear t = \<lparr>et_taint = Map.empty, et_depth = 2, et_active = False\<rparr>"

definition activate :: "escape_tracker \<Rightarrow> escape_tracker" where
  "activate t = t\<lparr>et_active := True\<rparr>"

definition taint_insert :: "string \<Rightarrow> nat \<Rightarrow> escape_tracker \<Rightarrow> escape_tracker" where
  "taint_insert v d t = t\<lparr>et_taint := (et_taint t)(v \<mapsto> d)\<rparr>"

definition register_arena :: "string \<Rightarrow> escape_tracker \<Rightarrow> escape_tracker" where
  "register_arena v t = activate (taint_insert v (et_depth t) t)"

definition register_arena_arg :: "string \<Rightarrow> escape_tracker \<Rightarrow> escape_tracker" where
  "register_arena_arg v t = activate (taint_insert v 1 t)"

definition register_arena_alloc :: "string \<Rightarrow> string \<Rightarrow> escape_tracker \<Rightarrow> escape_tracker" where
  "register_arena_alloc p arena t =
     taint_insert p (case et_taint t arena of Some d \<Rightarrow> d | None \<Rightarrow> et_depth t) t"

definition register_arena_allocator :: "string \<Rightarrow> string \<Rightarrow> escape_tracker \<Rightarrow> escape_tracker" where
  "register_arena_allocator alloc arena t =
     (case et_taint t arena of Some d \<Rightarrow> taint_insert alloc d t | None \<Rightarrow> t)"

definition register_vec_from_allocator :: "string \<Rightarrow> string \<Rightarrow> escape_tracker \<Rightarrow> escape_tracker" where
  "register_vec_from_allocator v alloc t =
     (case et_taint t alloc of Some d \<Rightarrow> taint_insert v d t | None \<Rightarrow> t)"

definition register_arg :: "string \<Rightarrow> escape_tracker \<Rightarrow> escape_tracker" where
  "register_arg v t = taint_insert v 1 t"

definition get_depth :: "escape_tracker \<Rightarrow> string \<Rightarrow> nat option" where
  "get_depth t v = et_taint t v"

definition escape_push_scope :: "escape_tracker \<Rightarrow> escape_tracker" where
  "escape_push_scope t = t\<lparr>et_depth := et_depth t + 1\<rparr>"

definition escape_pop_scope :: "escape_tracker \<Rightarrow> escape_tracker" where
  "escape_pop_scope t = (if 2 < et_depth t then t\<lparr>et_depth := et_depth t - 1\<rparr> else t)"

definition check_return_escape :: "string \<Rightarrow> escape_tracker \<Rightarrow> (escape_error, unit) result" where
  "check_return_escape v t =
     (if \<not> et_active t then Inr ()
      else case et_taint t v of
        Some d \<Rightarrow> if 1 < d then Inl (ReturnEscape v d) else Inr ()
      | None \<Rightarrow> Inr ())"

definition check_store_escape :: "string \<Rightarrow> string \<Rightarrow> escape_tracker \<Rightarrow> (escape_error, unit) result" where
  "check_store_escape rhs lhs t =
     (if \<not> et_active t then Inr ()
      else case et_taint t rhs of
        None \<Rightarrow> Inr ()
      | Some r \<Rightarrow>
          (case et_taint t lhs of
             None \<Rightarrow> Inr ()
           | Some l \<Rightarrow> if l < r then Inl (StoreEscape rhs r lhs l) else Inr ()))"

text \<open>The registrations and scopes of a function body, in order.\<close>

datatype escape_op =
    NewArena string
  | ArenaArg string
  | PlainArg string
  | AllocFrom string string
  | AllocatorFor string string
  | VecFrom string string
  | Push
  | Pop

definition escape_step :: "escape_op \<Rightarrow> escape_tracker \<Rightarrow> escape_tracker" where
  "escape_step oper t =
     (case oper of
        NewArena v \<Rightarrow> register_arena v t
      | ArenaArg v \<Rightarrow> register_arena_arg v t
      | PlainArg v \<Rightarrow> register_arg v t
      | AllocFrom p a \<Rightarrow> register_arena_alloc p a t
      | AllocatorFor p a \<Rightarrow> register_arena_allocator p a t
      | VecFrom p a \<Rightarrow> register_vec_from_allocator p a t
      | Push \<Rightarrow> escape_push_scope t
      | Pop \<Rightarrow> escape_pop_scope t)"

text \<open>
  Specification: where the memory of a variable lives, as the history says: in an arena the
  function created (at some depth of nesting), or outside of the function.
\<close>

datatype home = Outside | Local nat

fun scope_nesting :: "escape_op list \<Rightarrow> nat" where
  "scope_nesting [] = 0"
| "scope_nesting (Push # h) = Suc (scope_nesting h)"
| "scope_nesting (Pop # h) = scope_nesting h - 1"
| "scope_nesting (_ # h) = scope_nesting h"

text \<open>The history is read from its end; the head of the list is the latest operation.\<close>

fun lives :: "escape_op list \<Rightarrow> string \<Rightarrow> home option" where
  "lives [] v = None"
| "lives (NewArena a # h) v = (if v = a then Some (Local (scope_nesting h)) else lives h v)"
| "lives (ArenaArg a # h) v = (if v = a then Some Outside else lives h v)"
| "lives (PlainArg a # h) v = (if v = a then Some Outside else lives h v)"
| "lives (AllocFrom p a # h) v =
     (if v = p then (case lives h a of None \<Rightarrow> Some (Local (scope_nesting h)) | Some l \<Rightarrow> Some l)
      else lives h v)"
| "lives (AllocatorFor p a # h) v = (if v = p \<and> lives h a \<noteq> None then lives h a else lives h v)"
| "lives (VecFrom p a # h) v = (if v = p \<and> lives h a \<noteq> None then lives h a else lives h v)"
| "lives (Push # h) v = lives h v"
| "lives (Pop # h) v = lives h v"

fun outlives :: "home \<Rightarrow> home \<Rightarrow> bool" where
  "outlives Outside _ = True"
| "outlives (Local m) (Local n) = (m \<le> n)"
| "outlives (Local m) Outside = False"

definition depth_of_home :: "home \<Rightarrow> nat" where
  "depth_of_home l = (case l of Outside \<Rightarrow> 1 | Local n \<Rightarrow> n + 2)"

lemma depth_of_home_simps [simp]: "depth_of_home Outside = 1" "depth_of_home (Local n) = n + 2"
  by (simp_all add: depth_of_home_def)

lemma escape_state:
  "et_taint (foldr escape_step h escape_new) v = map_option depth_of_home (lives h v) \<and>
   et_depth (foldr escape_step h escape_new) = scope_nesting h + 2"
proof (induction h arbitrary: v)
  case Nil
  then show ?case by (simp add: escape_new_def)
next
  case (Cons x h)
  then show ?case
    by (cases x)
      (auto simp: escape_step_def register_arena_def register_arena_arg_def register_arg_def
        register_arena_alloc_def register_arena_allocator_def register_vec_from_allocator_def
        escape_push_scope_def escape_pop_scope_def taint_insert_def activate_def
        split: option.splits)
qed

text \<open>
  Property C19: the depth arithmetic implements lifetimes. After any sequence of registrations and
  scopes of a function that uses an arena, returning a variable is accepted unless its memory
  lives in an arena of the function itself, through whatever chain of allocators and containers;
  and storing one variable into another is accepted unless the source lives in an arena that the
  destination outlives. Variables that were never registered pass.
\<close>

theorem escape_laws:
  assumes "et_active (foldr escape_step h escape_new)"
  shows "(is_Ok (check_return_escape v (foldr escape_step h escape_new)) \<longleftrightarrow>
      (case lives h v of Some (Local _) \<Rightarrow> False | _ \<Rightarrow> True)) \<and>
    (is_Ok (check_store_escape r l (foldr escape_step h escape_new)) \<longleftrightarrow>
      (case (lives h r, lives h l) of (Some hr, Some hl) \<Rightarrow> outlives hr hl | _ \<Rightarrow> True))"
proof -
  have "depth_of_home a \<le> depth_of_home b \<longleftrightarrow> outlives a b" for a b
    by (cases a; cases b) simp_all
  then have "depth_of_home b < depth_of_home a \<longleftrightarrow> \<not> outlives a b" for a b
    by (metis not_le)
  then show ?thesis
    using assms
    by (auto simp: check_return_escape_def check_store_escape_def escape_state
        split: option.splits home.splits)
qed

theorem escape_laws_witness:
  "\<not> is_Ok (check_return_escape ''v'' (foldr escape_step
     [VecFrom ''v'' ''al'', AllocatorFor ''al'' ''ar'', NewArena ''ar''] escape_new))"
  using escape_laws [of "[VecFrom ''v'' ''al'', AllocatorFor ''al'' ''ar'', NewArena ''ar'']" "''v''"]
  by (simp add: escape_step_def register_arena_def register_arena_allocator_def
      register_vec_from_allocator_def taint_insert_def activate_def escape_new_def)

end
