(* ===== verification/Proof_Hint.thy ===== *)
theory Proof_Hint
  imports Prelude
begin

text \<open>
  The proof-hint seal (\<open>salt-front/src/codegen/verification/proof_hint.rs\<close>): the SipHash-2-4 of a
  64-bit message, the cascade over a struct's alignment contract, the identity of a struct name
  and the arbiter's check of a descriptor. A name is its bytes, which the characters of HOL are.
\<close>

section \<open>SipHash\<close>

type_synonym sip_state = "u64 \<times> u64 \<times> u64 \<times> u64"

definition siphash_k0 :: u64 where "siphash_k0 = 0x4c61747469636521"
definition siphash_k1 :: u64 where "siphash_k1 = 0x536f76657265696e"

definition sip_round :: "sip_state \<Rightarrow> sip_state" where
  "sip_round s =
     (case s of (v0, v1, v2, v3) \<Rightarrow>
        let v0 = v0 + v1;
            v2 = v2 + v3;
            v1 = word_rotl 13 v1;
            v3 = word_rotl 16 v3;
            v1 = v1 XOR v0;
            v3 = v3 XOR v2;
            v0 = word_rotl 32 v0;
            v2 = v2 + v1;
            v0 = v0 + v3;
            v1 = word_rotl 17 v1;
            v3 = word_rotl 21 v3;
            v1 = v1 XOR v2;
            v3 = v3 XOR v0;
            v2 = word_rotl 32 v2
        in (v0, v1, v2, v3))"

definition sip_init :: "u64 \<Rightarrow> u64 \<Rightarrow> sip_state" where
  "sip_init k0 k1 =
     (k0 XOR 0x736f6d6570736575, k1 XOR 0x646f72616e646f6d,
      k0 XOR 0x6c7967656e657261, k1 XOR 0x7465646279746573)"

definition sip_compress :: "u64 \<Rightarrow> sip_state \<Rightarrow> sip_state" where
  "sip_compress m s =
     (case s of (v0, v1, v2, v3) \<Rightarrow>
      case (sip_round ^^ 2) (v0, v1, v2, v3 XOR m) of (v0, v1, v2, v3) \<Rightarrow> (v0 XOR m, v1, v2, v3))"

definition sip_finalize :: "sip_state \<Rightarrow> sip_state" where
  "sip_finalize s = (case s of (v0, v1, v2, v3) \<Rightarrow> (sip_round ^^ 4) (v0, v1, v2 XOR 0xff, v3))"

definition siphash24 :: "u64 \<Rightarrow> u64 \<Rightarrow> u64 \<Rightarrow> u64" where
  "siphash24 k0 k1 m =
     (case sip_finalize (sip_compress m (sip_init k0 k1)) of
        (v0, v1, v2, v3) \<Rightarrow> ((v0 XOR v1) XOR v2) XOR v3)"

section \<open>The seal\<close>

definition hash_combine :: "u64 \<Rightarrow> u64 \<Rightarrow> u64 \<Rightarrow> u64" where
  "hash_combine struct_id offset align =
     (let h1 = siphash24 siphash_k0 siphash_k1 struct_id;
          h2 = siphash24 siphash_k0 siphash_k1 (h1 XOR offset)
      in siphash24 siphash_k0 siphash_k1 (h2 XOR align))"

definition pack_step :: "nat \<times> char \<Rightarrow> u64 \<Rightarrow> u64" where
  "pack_step ib packed =
     (case ib of (i, byte) \<Rightarrow> packed XOR push_bit (i mod 8 * 8) (of_char byte))"

definition pack_name :: "string \<Rightarrow> u64" where
  "pack_name name = fold pack_step (List.enumerate 0 name) 0"

definition struct_name_to_id :: "string \<Rightarrow> u64" where
  "struct_name_to_id name = siphash24 siphash_k0 siphash_k1 (pack_name name)"

definition validate_descriptor :: "u64 \<Rightarrow> u64 \<Rightarrow> u64 \<Rightarrow> bool" where
  "validate_descriptor ptr proof_hint authorized_hint =
     (if ptr AND 0x3F \<noteq> 0 then False else proof_hint = authorized_hint)"

section \<open>No round loses information\<close>

definition sip_unround :: "sip_state \<Rightarrow> sip_state" where
  "sip_unround s =
     (case s of (v0, v1, v2, v3) \<Rightarrow>
        let v2 = word_rotr 32 v2;
            v3 = v3 XOR v0;
            v1 = v1 XOR v2;
            v3 = word_rotr 21 v3;
            v1 = word_rotr 17 v1;
            v0 = v0 - v3;
            v2 = v2 - v1;
            v0 = word_rotr 32 v0;
            v3 = v3 XOR v2;
            v1 = v1 XOR v0;
            v3 = word_rotr 16 v3;
            v1 = word_rotr 13 v1;
            v2 = v2 - v3;
            v0 = v0 - v1
        in (v0, v1, v2, v3))"

lemma xor_cancel [simp]: "(a XOR b) XOR b = (a :: u64)"
  by (simp add: xor.assoc)

lemma sip_unround_round: "sip_unround (sip_round s) = s"
  by (cases s) (simp add: sip_unround_def sip_round_def Let_def)

lemma sip_round_unround: "sip_round (sip_unround s) = s"
  by (cases s) (simp add: sip_unround_def sip_round_def Let_def)

text \<open>
  a round of the hash is a permutation of its state: two different states stay
  different, so what a round mixes in is never lost, through any number of rounds.
\<close>

theorem sip_rounds_permute: "bij (sip_round ^^ n)"
proof -
  have "bij sip_round"
    by (rule o_bij [of sip_unround]) (simp_all add: fun_eq_iff sip_unround_round sip_round_unround)
  thus ?thesis by (rule bij_betw_funpow)
qed

section \<open>Names\<close>

definition byte_at :: "nat \<Rightarrow> u64 \<Rightarrow> u64" where
  "byte_at k w = take_bit 8 (drop_bit (8 * k) w)"

lemma byte_at_0 [simp]: "byte_at k 0 = 0"
  by (simp add: byte_at_def)

lemma byte_at_xor: "byte_at k (v XOR w) = byte_at k v XOR byte_at k w"
  by (simp add: byte_at_def drop_bit_xor take_bit_xor)

lemma of_char_bound: "(of_char c :: nat) < 256"
  by (metis of_char_mod_256 mod_less_divisor zero_less_numeral)

lemma unat_of_char: "unat (of_char c :: u64) = of_char c"
proof -
  have "unat (of_nat (of_char c) :: u64) = of_char c"
    using less_trans [OF of_char_bound [of c], of "2 ^ 64"] by (simp add: unat_of_nat)
  thus ?thesis by (simp add: of_nat_of_char)
qed

lemma bit_of_char:
  assumes "bit (of_char c :: u64) j"
  shows "j < 8"
proof -
  have "take_bit 8 (of_char c :: nat) = of_char c" by (simp add: take_bit_eq_mod)
  moreover have "bit (of_char c :: nat) j"
    using assms bit_unsigned_iff [of "of_char c :: u64" j, where ?'a = nat]
    by (simp add: unat_of_char)
  ultimately show ?thesis by (metis bit_take_bit_iff)
qed

lemma byte_at_char:
  assumes "k < 8" "r < 8"
  shows "byte_at k (push_bit (r * 8) (of_char c)) = (if k = r then of_char c else 0)"
proof (rule bit_word_eqI)
  fix j
  assume "j < LENGTH(64)"
  show "bit (byte_at k (push_bit (r * 8) (of_char c))) j = bit (if k = r then of_char c else 0 :: u64) j"
    using assms
    by (auto simp: byte_at_def bit_take_bit_iff bit_drop_bit_eq bit_push_bit_iff dest: bit_of_char)
qed

lemma fold_pack_snoc:
  "pack_name (cs @ [c]) = pack_name cs XOR push_bit (length cs mod 8 * 8) (of_char c)"
  by (simp add: pack_name_def pack_step_def enumerate_append_eq)

lemma byte_of_name:
  assumes "k < 8" "length name \<le> 8"
  shows "byte_at k (pack_name name) = (if k < length name then of_char (name ! k) else 0)"
  using assms(2)
proof (induction name rule: rev_induct)
  case Nil
  thus ?case by (simp add: pack_name_def)
next
  case (snoc c cs)
  thus ?case using assms(1)
    by (auto simp: fold_pack_snoc byte_at_xor byte_at_char nth_append)
qed

definition unpack_name :: "u64 \<Rightarrow> string" where
  "unpack_name w = takeWhile (\<lambda>c. c \<noteq> CHR 0x00) (map (\<lambda>k. char_of (unat (byte_at k w))) [0..<8])"

text \<open>
  A name of at most eight bytes, none of them NUL, can be read back from the word
  the compiler hashes for it, so two such names never share a word.
\<close>

theorem short_names_roundtrip:
  assumes "length name \<le> 8" "CHR 0x00 \<notin> set name"
  shows "unpack_name (pack_name name) = name"
proof -
  have piece: "char_of (unat (byte_at k (pack_name name)))
      = (if k < length name then name ! k else CHR 0x00)" if "k < 8" for k
    using assms(1) that by (simp add: byte_of_name unat_of_char char_of_eq_iff take_bit_eq_mod)
  have "map (\<lambda>k. char_of (unat (byte_at k (pack_name name)))) [0..<8]
      = name @ replicate (8 - length name) (CHR 0x00)"
    using assms(1) by (intro nth_equalityI) (simp_all add: piece nth_append)
  moreover have "takeWhile (\<lambda>c. c \<noteq> CHR 0x00) (name @ replicate n (CHR 0x00)) = name" for n
    using assms(2) by (induction name) (cases n; auto)+
  ultimately show ?thesis by (simp add: unpack_name_def)
qed

lemma short_names_roundtrip_witness:
  "unpack_name (pack_name ''NetDesc'') = ''NetDesc''"
  by (rule short_names_roundtrip) simp_all

text \<open>Longer names are folded, and folding is not injective: a name repeated cancels itself.\<close>

lemma folded_names_collide:
  "struct_name_to_id ''PacketHdPacketHd'' = struct_name_to_id ''''"
proof -
  have "pack_name ''PacketHdPacketHd'' = pack_name ''''"
    by (simp add: pack_name_def pack_step_def)
  thus ?thesis by (simp add: struct_name_to_id_def)
qed

section \<open>The arbiter\<close>

text \<open>
  the arbiter accepts a descriptor exactly when its pointer is a multiple of the
  64-byte cache line and its hint is the authorised one.
\<close>

theorem validate_descriptor_exact:
  "validate_descriptor ptr hint authorized \<longleftrightarrow> 64 dvd unat ptr \<and> hint = authorized"
proof -
  have "ptr AND 0x3F = take_bit 6 ptr"
    by (simp add: take_bit_eq_mask mask_eq_exp_minus_1)
  hence "ptr AND 0x3F = 0 \<longleftrightarrow> take_bit 6 (unat ptr) = 0"
    by (metis unsigned_take_bit_eq unat_eq_zero)
  thus ?thesis by (simp add: validate_descriptor_def take_bit_eq_mod dvd_eq_mod_eq_0)
qed

end
