(* ===== verification/Lowering.thy ===== *)
theory Lowering
  imports Syn_Types Scope "HOL-Library.Monad_Syntax"
begin

text \<open>
  Lowering of the surface tree to the HIR (\<open>salt-front/src/hir/lower.rs\<close>): names become variable
  ids through the scope stack, statements and expressions become their HIR forms, and items get
  definition ids. The context is passed explicitly; a panic (an assertion on the number of
  arguments of a contract keyword, a pop of the root scope, the slice in \<^const>\<open>shape_dims\<close>) is
  \<^term>\<open>None\<close>. Counters are 32-bit words that wrap around, as in a release build.
\<close>

section \<open>The context\<close>

record lowering =
  next_def_id :: def_id
  next_var_id :: var_id
  lw_scopes :: scope_stack
  current_generic_names :: "string set"
  var_name_map :: "string \<rightharpoonup> var_id"

definition lowering_new :: lowering where
  "lowering_new = \<lparr>next_def_id = 0, next_var_id = 0, lw_scopes = scope_new,
     current_generic_names = {}, var_name_map = Map.empty\<rparr>"

definition alloc_def_id :: "lowering \<Rightarrow> def_id \<times> lowering" where
  "alloc_def_id s = (next_def_id s, s\<lparr>next_def_id := next_def_id s + 1\<rparr>)"

definition alloc_var_id :: "lowering \<Rightarrow> var_id \<times> lowering" where
  "alloc_var_id s = (next_var_id s, s\<lparr>next_var_id := next_var_id s + 1\<rparr>)"

definition enter_scope :: "lowering \<Rightarrow> lowering" where
  "enter_scope s = s\<lparr>lw_scopes := push_scope (lw_scopes s)\<rparr>"

definition leave_scope :: "lowering \<Rightarrow> lowering option" where
  "leave_scope s = map_option (\<lambda>ss. s\<lparr>lw_scopes := ss\<rparr>) (pop_scope (lw_scopes s))"

definition bind_name :: "string \<Rightarrow> var_id \<Rightarrow> lowering \<Rightarrow> lowering" where
  "bind_name name v s = s\<lparr>lw_scopes := scope_insert name v (lw_scopes s)\<rparr>"

definition note_name :: "string \<Rightarrow> var_id \<Rightarrow> lowering \<Rightarrow> lowering" where
  "note_name name v s = s\<lparr>var_name_map := (var_name_map s)(name \<mapsto> v)\<rparr>"

section \<open>Helpers\<close>

abbreviation unit_expr :: "expr_kind \<Rightarrow> expr" where
  "unit_expr k \<equiv> Expr k Unit"

definition lower_bin_op :: "syn_bin_op \<Rightarrow> bin_op" where
  "lower_bin_op op = (case op of
       OpAdd \<Rightarrow> BinAdd | OpSub \<Rightarrow> BinSub | OpMul \<Rightarrow> BinMul | OpDiv \<Rightarrow> BinDiv | OpRem \<Rightarrow> BinRem
     | OpEq \<Rightarrow> BinEq | OpNe \<Rightarrow> BinNe | OpLt \<Rightarrow> BinLt | OpLe \<Rightarrow> BinLe | OpGt \<Rightarrow> BinGt | OpGe \<Rightarrow> BinGe
     | OpAnd \<Rightarrow> BinAnd | OpOr \<Rightarrow> BinOr
     | OpBitAnd \<Rightarrow> BinBitAnd | OpBitOr \<Rightarrow> BinBitOr | OpBitXor \<Rightarrow> BinBitXor | OpShl \<Rightarrow> BinShl | OpShr \<Rightarrow> BinShr
     | OpAddAssign \<Rightarrow> BinAddAssign | OpSubAssign \<Rightarrow> BinSubAssign | OpMulAssign \<Rightarrow> BinMulAssign
     | OpDivAssign \<Rightarrow> BinDivAssign | OpRemAssign \<Rightarrow> BinRemAssign
     | _ \<Rightarrow> BinAdd)"

definition lower_un_op :: "syn_un_op \<Rightarrow> un_op" where
  "lower_un_op op = (case op of OpNot \<Rightarrow> UnNot | OpNeg \<Rightarrow> UnNeg | OpDeref \<Rightarrow> UnDeref)"

definition lower_lit :: "syn_lit \<Rightarrow> literal" where
  "lower_lit l = (case l of
       SynInt n \<Rightarrow> LitInt (case base10_parse_i64 n of Some w \<Rightarrow> w | None \<Rightarrow> 0)
     | SynFloat w \<Rightarrow> LitFloat w
     | SynBool b \<Rightarrow> LitBool b
     | SynStr str \<Rightarrow> LitString str
     | SynOtherLit \<Rightarrow> LitInt 0)"

definition last_ident :: "syn_path \<Rightarrow> string" where
  "last_ident p = (if snd p = [] then [] else fst (last (snd p)))"

fun extract_pat_name :: "syn_pat \<Rightarrow> string" where
  "extract_pat_name (SynPatIdent name _) = name"
| "extract_pat_name _ = ''_''"

fun extract_syn_pat_name :: "syn_pat \<Rightarrow> string" where
  "extract_syn_pat_name (SynPatIdent name _) = name"
| "extract_syn_pat_name (SynPatType p _) = extract_syn_pat_name p"
| "extract_syn_pat_name SynPatOther = ''_''"

fun is_mutable_pat :: "syn_pat \<Rightarrow> bool" where
  "is_mutable_pat (SynPatIdent _ mutable) = mutable"
| "is_mutable_pat (SynPatType p _) = is_mutable_pat p"
| "is_mutable_pat SynPatOther = False"

fun extract_type_annotation :: "syn_pat \<Rightarrow> string set \<Rightarrow> ty option option" where
  "extract_type_annotation (SynPatType _ t) gens =
     (case from_std t of Inl _ \<Rightarrow> Some None | Inr u \<Rightarrow> from_syn_with_generics gens u)"
| "extract_type_annotation _ gens = Some None"

definition unwrap_or :: "'a \<Rightarrow> 'a option \<Rightarrow> 'a" where
  "unwrap_or d r = (case r of Some x \<Rightarrow> x | None \<Rightarrow> d)"

definition cast_type :: "std_type \<Rightarrow> string set \<Rightarrow> ty option" where
  "cast_type t gens =
     map_option (unwrap_or Unit)
       (from_syn_with_generics gens (case from_std t of Inl _ \<Rightarrow> TyOther ''unknown'' | Inr u \<Rightarrow> u))"

text \<open>Calls that are contract keywords or \<open>yield_now\<close>: the callee is a plain identifier.\<close>

definition call_keyword :: "syn_expr \<Rightarrow> string option" where
  "call_keyword f = (case f of SynPath p \<Rightarrow> get_ident p | _ \<Rightarrow> None)"

definition stmt_of_expr :: "(expr \<Rightarrow> stmt) \<Rightarrow> expr \<Rightarrow> stmt" where
  "stmt_of_expr wrap h = (case ekind h of EReturn r \<Rightarrow> SReturn r | _ \<Rightarrow> wrap h)"

section \<open>Expressions and statements of \<open>syn\<close>\<close>

definition lower_path :: "syn_path \<Rightarrow> scope_stack \<Rightarrow> expr" where
  "lower_path p ss = unit_expr (case resolve ss (last_ident p) of
       Some v \<Rightarrow> EVar v | None \<Rightarrow> EUnresolvedIdent (last_ident p))"

definition lower_local :: "syn_pat \<Rightarrow> expr option \<Rightarrow> lowering \<Rightarrow> (stmt \<times> lowering) option" where
  "lower_local p init s = do {
     t \<leftarrow> extract_type_annotation p (current_generic_names s);
     let (v, s) = alloc_var_id s;
     let name = extract_syn_pat_name p;
     Some (SLocal (PBind name v (is_mutable_pat p)) t init, bind_name name v s)
   }"

function lower_syn_expr :: "syn_expr \<Rightarrow> lowering \<Rightarrow> (expr \<times> lowering) option"
and lower_syn_exprs :: "syn_expr list \<Rightarrow> lowering \<Rightarrow> (expr list \<times> lowering) option"
and lower_syn_opt :: "syn_expr option \<Rightarrow> lowering \<Rightarrow> (expr option \<times> lowering) option"
and lower_syn_fields :: "(string \<times> syn_expr) list \<Rightarrow> lowering \<Rightarrow> ((string \<times> expr) list \<times> lowering) option"
and lower_syn_stmts :: "syn_stmt list \<Rightarrow> lowering \<Rightarrow> (stmt list \<times> lowering) option"
and lower_syn_stmt :: "syn_stmt \<Rightarrow> lowering \<Rightarrow> (stmt option \<times> lowering) option"
where
  "lower_syn_expr (SynLit l) s = Some (unit_expr (ELiteral (lower_lit l)), s)"
| "lower_syn_expr (SynPath p) s = Some (lower_path p (lw_scopes s), s)"
| "lower_syn_expr (SynBinary l op r) s = do {
     (a, s) \<leftarrow> lower_syn_expr l s;
     (b, s) \<leftarrow> lower_syn_expr r s;
     Some (unit_expr (EBinary (lower_bin_op op) a b), s)
   }"
| "lower_syn_expr (SynUnary op e) s = do {
     (a, s) \<leftarrow> lower_syn_expr e s;
     Some (unit_expr (EUnary (lower_un_op op) a), s)
   }"
| "lower_syn_expr (SynCall f args) s =
     (if call_keyword f = Some ''requires'' \<or> call_keyword f = Some ''ensures'' then
        (case args of
           [a] \<Rightarrow> do {
             (c, s) \<leftarrow> lower_syn_expr a s;
             Some (unit_expr (if call_keyword f = Some ''requires'' then ERequires c else EEnsures c), s)
           }
         | _ \<Rightarrow> None)
      else if call_keyword f = Some ''yield_now'' then
        (case args of
           [] \<Rightarrow> Some (unit_expr (EYield None), s)
         | [a] \<Rightarrow> do { (v, s) \<leftarrow> lower_syn_expr a s; Some (unit_expr (EYield (Some v)), s) }
         | _ \<Rightarrow> None)
      else do {
        (g, s) \<leftarrow> lower_syn_expr f s;
        (xs, s) \<leftarrow> lower_syn_exprs args s;
        Some (unit_expr (ECall g xs), s)
      })"
| "lower_syn_expr (SynAssign l r) s = do {
     (a, s) \<leftarrow> lower_syn_expr l s;
     (b, s) \<leftarrow> lower_syn_expr r s;
     Some (unit_expr (EAssign a b), s)
   }"
| "lower_syn_expr (SynField e name) s = do {
     (a, s) \<leftarrow> lower_syn_expr e s;
     Some (unit_expr (EField a name), s)
   }"
| "lower_syn_expr (SynIndex e i) s = do {
     (a, s) \<leftarrow> lower_syn_expr e s;
     (b, s) \<leftarrow> lower_syn_expr i s;
     Some (unit_expr (EIndex a b), s)
   }"
| "lower_syn_expr (SynParen e) s = lower_syn_expr e s"
| "lower_syn_expr (SynBlock body) s = do {
     (ss, s) \<leftarrow> lower_syn_stmts body (enter_scope s);
     s \<leftarrow> leave_scope s;
     Some (unit_expr (EBlock (Block ss None Unit)), s)
   }"
| "lower_syn_expr (SynReturn r) s = do {
     (v, s) \<leftarrow> lower_syn_opt r s;
     Some (unit_expr (EReturn v), s)
   }"
| "lower_syn_expr (SynCast e t) s = do {
     (a, s) \<leftarrow> lower_syn_expr e s;
     u \<leftarrow> cast_type t (current_generic_names s);
     Some (unit_expr (ECast a u), s)
   }"
| "lower_syn_expr (SynStruct p fs) s = do {
     (hs, s) \<leftarrow> lower_syn_fields fs s;
     Some (unit_expr (EStructLit (last_ident p) [] hs), s)
   }"
| "lower_syn_expr (SynMethodCall r meth args) s = do {
     (a, s) \<leftarrow> lower_syn_expr r s;
     (xs, s) \<leftarrow> lower_syn_exprs args s;
     Some (unit_expr (ECall (unit_expr (EUnresolvedIdent meth)) (a # xs)), s)
   }"
| "lower_syn_expr (SynIf _ _ _) s = Some (unit_expr (ELiteral (LitInt 0)), s)"
| "lower_syn_expr (SynReference _) s = Some (unit_expr (ELiteral (LitInt 0)), s)"
| "lower_syn_expr (SynTuple _) s = Some (unit_expr (ELiteral (LitInt 0)), s)"
| "lower_syn_expr (SynRange _ _ _) s = Some (unit_expr (ELiteral (LitInt 0)), s)"
| "lower_syn_expr SynOther s = Some (unit_expr (ELiteral (LitInt 0)), s)"
| "lower_syn_exprs [] s = Some ([], s)"
| "lower_syn_exprs (e # es) s = do {
     (a, s) \<leftarrow> lower_syn_expr e s;
     (xs, s) \<leftarrow> lower_syn_exprs es s;
     Some (a # xs, s)
   }"
| "lower_syn_opt None s = Some (None, s)"
| "lower_syn_opt (Some e) s = do {
     (a, s) \<leftarrow> lower_syn_expr e s;
     Some (Some a, s)
   }"
| "lower_syn_fields [] s = Some ([], s)"
| "lower_syn_fields ((name, e) # fs) s = do {
     (a, s) \<leftarrow> lower_syn_expr e s;
     (hs, s) \<leftarrow> lower_syn_fields fs s;
     Some ((name, a) # hs, s)
   }"
| "lower_syn_stmts [] s = Some ([], s)"
| "lower_syn_stmts (st # sts) s = do {
     (h, s) \<leftarrow> lower_syn_stmt st s;
     (hs, s) \<leftarrow> lower_syn_stmts sts s;
     Some (case h of Some h \<Rightarrow> h # hs | None \<Rightarrow> hs, s)
   }"
| "lower_syn_stmt (SynLocal p init) s = do {
     (i, s) \<leftarrow> lower_syn_opt init s;
     (h, s) \<leftarrow> lower_local p i s;
     Some (Some h, s)
   }"
| "lower_syn_stmt (SynStmtExpr e _) s = do {
     (h, s) \<leftarrow> lower_syn_expr e s;
     Some (Some (stmt_of_expr SSemi h), s)
   }"
| "lower_syn_stmt SynStmtOther s = Some (None, s)"
| "lower_syn_expr SynArray s = Some (unit_expr (ELiteral (LitInt 0)), s)"
  by pat_completeness auto

termination
  by (relation "measure (\<lambda>x. case x of
        Inl (Inl (e, _)) \<Rightarrow> size e
      | Inl (Inr (Inl (es, _))) \<Rightarrow> size_list size es
      | Inl (Inr (Inr (r, _))) \<Rightarrow> size_option size r
      | Inr (Inl (fs, _)) \<Rightarrow> size_list (size_prod (\<lambda>x. 0) size) fs
      | Inr (Inr (Inl (sts, _))) \<Rightarrow> size_list size sts
      | Inr (Inr (Inr (st, _))) \<Rightarrow> size st)") auto

section \<open>Statements and blocks of Salt\<close>

definition stub_stmt :: stmt where
  "stub_stmt = SExpr (unit_expr (ELiteral (LitBool False)))"

function lower_salt_stmt :: "stmt_ast \<Rightarrow> lowering \<Rightarrow> (stmt option \<times> lowering) option"
and lower_salt_stmts :: "stmt_ast list \<Rightarrow> lowering \<Rightarrow> (stmt list \<times> lowering) option"
and lower_salt_block :: "stmt_ast list \<Rightarrow> lowering \<Rightarrow> (block \<times> lowering) option"
and lower_salt_if :: "salt_if \<Rightarrow> lowering \<Rightarrow> (expr \<times> lowering) option"
and lower_salt_else :: "salt_else option \<Rightarrow> lowering \<Rightarrow> (expr option \<times> lowering) option"
where
  "lower_salt_stmt (StSyn st) s = lower_syn_stmt st s"
| "lower_salt_stmt (StExpr e semi) s = do {
     (h, s) \<leftarrow> lower_syn_expr e s;
     Some (Some (stmt_of_expr (if semi then SSemi else SExpr) h), s)
   }"
| "lower_salt_stmt (StReturn r) s = do {
     (v, s) \<leftarrow> lower_syn_opt r s;
     Some (Some (SReturn v), s)
   }"
| "lower_salt_stmt (StIf i) s = do {
     (h, s) \<leftarrow> lower_salt_if i s;
     Some (Some (SExpr h), s)
   }"
| "lower_salt_stmt (StWhile c body) s = do {
     (h, s) \<leftarrow> lower_syn_expr c s;
     (b, s) \<leftarrow> lower_salt_block body s;
     Some (Some (SWhile h b), s)
   }"
| "lower_salt_stmt (StLoop body) s = do {
     (b, s) \<leftarrow> lower_salt_block body s;
     Some (Some (SLoop b), s)
   }"
| "lower_salt_stmt StBreak s = Some (Some SBreak, s)"
| "lower_salt_stmt StContinue s = Some (Some SContinue, s)"
| "lower_salt_stmt (StFor p iter body) s = (
     let name = extract_pat_name p;
         (v, s) = alloc_var_id s;
         s = note_name name v (bind_name name v s)
     in do {
       (i, s) \<leftarrow> lower_syn_expr iter s;
       (b, s) \<leftarrow> lower_salt_block body s;
       Some (Some (SFor v name i b), s)
     })"
| "lower_salt_stmt (StInvariant _) s = Some (Some stub_stmt, s)"
| "lower_salt_stmt (StMatch _ _) s = Some (Some stub_stmt, s)"
| "lower_salt_stmt (StLetElse _ _ _) s = Some (Some stub_stmt, s)"
| "lower_salt_stmt (StMove _) s = Some (Some stub_stmt, s)"
| "lower_salt_stmt (StMapWindow _ _ _ _) s = Some (Some stub_stmt, s)"
| "lower_salt_stmt (StWithRegion _ _) s = Some (Some stub_stmt, s)"
| "lower_salt_stmt (StUnsafe _) s = Some (Some stub_stmt, s)"
| "lower_salt_stmts [] s = Some ([], s)"
| "lower_salt_stmts (st # sts) s = do {
     (h, s) \<leftarrow> lower_salt_stmt st s;
     (hs, s) \<leftarrow> lower_salt_stmts sts s;
     Some (case h of Some h \<Rightarrow> h # hs | None \<Rightarrow> hs, s)
   }"
| "lower_salt_block body s = do {
     (hs, s) \<leftarrow> lower_salt_stmts body (enter_scope s);
     s \<leftarrow> leave_scope s;
     Some (Block hs None Unit, s)
   }"
| "lower_salt_if (SaltIf c body els) s = do {
     (h, s) \<leftarrow> lower_syn_expr c s;
     (b, s) \<leftarrow> lower_salt_block body s;
     (el, s) \<leftarrow> lower_salt_else els s;
     Some (unit_expr (EIf h b el), s)
   }"
| "lower_salt_else None s = Some (None, s)"
| "lower_salt_else (Some (ElseBlock body)) s = do {
     (b, s) \<leftarrow> lower_salt_block body s;
     Some (Some (unit_expr (EBlock b)), s)
   }"
| "lower_salt_else (Some (ElseIf i)) s = do {
     (h, s) \<leftarrow> lower_salt_if i s;
     Some (Some h, s)
   }"
  by pat_completeness auto

termination
  by (relation "measure (\<lambda>x. case x of
        Inl (Inl (st, _)) \<Rightarrow> 2 * size st
      | Inl (Inr (sts, _)) \<Rightarrow> 2 * size_list size sts
      | Inr (Inl (body, _)) \<Rightarrow> Suc (2 * size_list size body)
      | Inr (Inr (Inl (i, _))) \<Rightarrow> 2 * size i
      | Inr (Inr (Inr (el, _))) \<Rightarrow> 2 * size_option size el)") auto

end
