(* ===== verification/Lowering_Sound.thy ===== *)
theory Lowering_Sound
  imports Lowering "HOL-Library.Multiset"
begin

text \<open>
  What the lowering of bodies guarantees for every source: the scope stack is restored, variable
  ids are handed out once each, and every variable the result mentions is bound where it is
  mentioned. The proofs go through one relation between the contexts before and after,
  \<open>steps\<close>, that composes along a sequence of calls.
\<close>

section \<open>Declarations and scoped trees\<close>

text \<open>The names a statement declares for the statements after it.\<close>

fun pattern_decls :: "pattern \<Rightarrow> (string \<times> var_id) list" where
  "pattern_decls (PBind name v _) = [(name, v)]"
| "pattern_decls _ = []"

fun stmt_decls :: "stmt \<Rightarrow> (string \<times> var_id) list" where
  "stmt_decls (SLocal p _ _) = pattern_decls p"
| "stmt_decls (SFor v name _ _) = [(name, v)]"
| "stmt_decls _ = []"

abbreviation decls_of :: "stmt list \<Rightarrow> (string \<times> var_id) list" where
  "decls_of ss \<equiv> concat (map stmt_decls ss)"

lemma field_size: "(name, e :: expr) \<in> set fs \<Longrightarrow> size e \<le> size_list (size_prod (\<lambda>x. 0) size) fs"
  using elem_size [of "(name, e)" fs "size_prod (\<lambda>x. 0) size"] by simp

text \<open>
  Every variable mentioned is in the given set or declared on the way. The variable of a \<open>for\<close> is
  in scope after the loop, and in its own iterator, as the lowering has it, unless the test is
  strict, which forbids its mention there.
\<close>

function scoped_expr :: "bool \<Rightarrow> var_id set \<Rightarrow> expr \<Rightarrow> bool"
and scoped_kind :: "bool \<Rightarrow> var_id set \<Rightarrow> expr_kind \<Rightarrow> bool"
and scoped_opt :: "bool \<Rightarrow> var_id set \<Rightarrow> expr option \<Rightarrow> bool"
and scoped_block :: "bool \<Rightarrow> var_id set \<Rightarrow> block \<Rightarrow> bool"
and scoped_stmt :: "bool \<Rightarrow> var_id set \<Rightarrow> stmt \<Rightarrow> bool"
and scoped_stmts :: "bool \<Rightarrow> var_id set \<Rightarrow> stmt list \<Rightarrow> bool" where
  "scoped_expr strict V (Expr k t) = scoped_kind strict V k"
| "scoped_kind strict V (ELiteral _) = True"
| "scoped_kind strict V (EPath _) = True"
| "scoped_kind strict V (EVar v) = (v \<in> V)"
| "scoped_kind strict V (EUnresolvedIdent _) = True"
| "scoped_kind strict V (ECall f args) = (scoped_expr strict V f \<and> list_all (scoped_expr strict V) args)"
| "scoped_kind strict V (EBinary _ a b) = (scoped_expr strict V a \<and> scoped_expr strict V b)"
| "scoped_kind strict V (EUnary _ a) = scoped_expr strict V a"
| "scoped_kind strict V (EBlock b) = scoped_block strict V b"
| "scoped_kind strict V (EIf c b els) = (scoped_expr strict V c \<and> scoped_block strict V b \<and> scoped_opt strict V els)"
| "scoped_kind strict V (EWhile c b) = (scoped_expr strict V c \<and> scoped_block strict V b)"
| "scoped_kind strict V (ELoop b) = scoped_block strict V b"
| "scoped_kind strict V (EReturn r) = scoped_opt strict V r"
| "scoped_kind strict V EBreak = True"
| "scoped_kind strict V EContinue = True"
| "scoped_kind strict V (EField a _) = scoped_expr strict V a"
| "scoped_kind strict V (ECast a _) = scoped_expr strict V a"
| "scoped_kind strict V (EStructLit _ _ fs) = list_all (\<lambda>(_, e). scoped_expr strict V e) fs"
| "scoped_kind strict V (EAssign a b) = (scoped_expr strict V a \<and> scoped_expr strict V b)"
| "scoped_kind strict V (EIndex a b) = (scoped_expr strict V a \<and> scoped_expr strict V b)"
| "scoped_kind strict V (ERef a) = scoped_expr strict V a"
| "scoped_kind strict V (EMethodCall r _ args) = (scoped_expr strict V r \<and> list_all (scoped_expr strict V) args)"
| "scoped_kind strict V (ERequires a) = scoped_expr strict V a"
| "scoped_kind strict V (EEnsures a) = scoped_expr strict V a"
| "scoped_kind strict V (EYield r) = scoped_opt strict V r"
| "scoped_opt strict V None = True"
| "scoped_opt strict V (Some e) = scoped_expr strict V e"
| "scoped_block strict V (Block ss r _) =
     (scoped_stmts strict V ss \<and> scoped_opt strict (V \<union> snd ` set (decls_of ss)) r)"
| "scoped_stmt strict V (SLocal _ _ i) = scoped_opt strict V i"
| "scoped_stmt strict V (SExpr e) = scoped_expr strict V e"
| "scoped_stmt strict V (SSemi e) = scoped_expr strict V e"
| "scoped_stmt strict V (SWhile c b) = (scoped_expr strict V c \<and> scoped_block strict V b)"
| "scoped_stmt strict V (SFor v _ i b) =
     (scoped_expr strict (if strict then V - {v} else insert v V) i \<and> scoped_block strict (insert v V) b)"
| "scoped_stmt strict V (SLoop b) = scoped_block strict V b"
| "scoped_stmt strict V (SReturn r) = scoped_opt strict V r"
| "scoped_stmt strict V SBreak = True"
| "scoped_stmt strict V SContinue = True"
| "scoped_stmt strict V (SAssume e) = scoped_expr strict V e"
| "scoped_stmts strict V [] = True"
| "scoped_stmts strict V (s # ss) = (scoped_stmt strict V s \<and> scoped_stmts strict (V \<union> snd ` set (stmt_decls s)) ss)"
  by pat_completeness auto

termination
  by (relation "measure (\<lambda>x. case x of
        Inl (Inl (_, _, e)) \<Rightarrow> size e
      | Inl (Inr (Inl (_, _, k))) \<Rightarrow> size k
      | Inl (Inr (Inr (_, _, r))) \<Rightarrow> size_option size r
      | Inr (Inl (_, _, b)) \<Rightarrow> size b
      | Inr (Inr (Inl (_, _, s))) \<Rightarrow> size s
      | Inr (Inr (Inr (_, _, ss))) \<Rightarrow> size_list size ss)")
    (auto dest!: elem_size [of _ _ "size :: expr \<Rightarrow> nat"] field_size)

section \<open>Contexts before and after\<close>

abbreviation declare_all :: "(string \<times> var_id) list \<Rightarrow> scope_stack \<Rightarrow> scope_stack" where
  "declare_all ds ss \<equiv> fold (\<lambda>(name, v). scope_insert name v) ds ss"

definition steps :: "lowering \<Rightarrow> lowering \<Rightarrow> (string \<times> var_id) list \<Rightarrow> var_id list \<Rightarrow> bool" where
  "steps s s' ds vs \<longleftrightarrow>
     lw_scopes s' = declare_all ds (lw_scopes s) \<and>
     next_var_id s' = next_var_id s + of_nat (length vs) \<and>
     mset vs = mset (map (\<lambda>i. next_var_id s + of_nat i) [0..<length vs]) \<and>
     next_def_id s' = next_def_id s \<and> current_generic_names s' = current_generic_names s"

lemma rooted_insert [simp]: "rooted ss \<Longrightarrow> rooted (scope_insert n v ss)"
  by (simp add: scope_insert_def)

lemma rooted_declare_all [simp]: "rooted ss \<Longrightarrow> rooted (declare_all ds ss)"
proof (induction ds arbitrary: ss)
  case (Cons d ds)
  show ?case using Cons.IH [OF rooted_insert [OF Cons.prems]] by (cases d) simp
qed simp

lemma rooted_steps: "steps s s' ds vs \<Longrightarrow> rooted (lw_scopes s) \<Longrightarrow> rooted (lw_scopes s')"
  by (simp add: steps_def)

lemma steps_refl [simp]: "steps s s [] []"
  by (simp add: steps_def)

lemma map_upt_add:
  "map (\<lambda>i. (a :: 'a :: len word) + of_nat i) [0..<m + n] =
     map (\<lambda>i. a + of_nat i) [0..<m] @ map (\<lambda>i. a + of_nat m + of_nat i) [0..<n]"
proof -
  have "map (\<lambda>i. a + of_nat i) [m..<m + n] = map (\<lambda>i. a + of_nat m + of_nat i) [0..<n]"
    by (induction n) (auto simp: add.assoc)
  moreover have "[0..<m + n] = [0..<m] @ [m..<m + n]"
    using upt_add_eq_append [of 0 m n] by simp
  ultimately show ?thesis by simp
qed

lemma stepsD:
  assumes "steps s s' ds vs"
  shows "lw_scopes s' = declare_all ds (lw_scopes s)"
    and "next_var_id s' = next_var_id s + of_nat (length vs)"
    and "mset vs = mset (map (\<lambda>i. next_var_id s + of_nat i) [0..<length vs])"
    and "next_def_id s' = next_def_id s" and "current_generic_names s' = current_generic_names s"
  using assms unfolding steps_def by blast+

lemma steps_trans:
  assumes a: "steps s s1 ds vs" and b: "steps s1 s2 es ws"
  shows "steps s s2 (ds @ es) (vs @ ws)"
  unfolding steps_def
proof (intro conjI)
  show "lw_scopes s2 = declare_all (ds @ es) (lw_scopes s)"
    by (simp only: stepsD(1) [OF a] stepsD(1) [OF b] fold_append o_apply)
  show "next_var_id s2 = next_var_id s + of_nat (length (vs @ ws))"
    by (simp only: stepsD(2) [OF a] stepsD(2) [OF b] length_append of_nat_add add.assoc)
  have "mset ws = mset (map (\<lambda>i. next_var_id s + of_nat (length vs) + of_nat i) [0..<length ws])"
    using stepsD(3) [OF b] by (simp only: stepsD(2) [OF a])
  then show "mset (vs @ ws) = mset (map (\<lambda>i. next_var_id s + of_nat i) [0..<length (vs @ ws)])"
    using stepsD(3) [OF a] by (simp only: length_append map_upt_add mset_append)
qed (simp_all only: stepsD(4,5) [OF a] stepsD(4,5) [OF b])

lemma steps_permute: "steps s s' ds vs \<Longrightarrow> mset ws = mset vs \<Longrightarrow> steps s s' ds ws"
  using mset_eq_length [of ws vs] unfolding steps_def by simp

lemma enter_scope_simps [simp]:
  "lw_scopes (enter_scope s) = push_scope (lw_scopes s)" "next_var_id (enter_scope s) = next_var_id s"
  "next_def_id (enter_scope s) = next_def_id s" "current_generic_names (enter_scope s) = current_generic_names s"
  by (simp_all add: enter_scope_def)

lemma leave_entered:
  assumes "steps (enter_scope s) s1 ds vs" "rooted (lw_scopes s)"
  shows "leave_scope s1 = Some (s1\<lparr>lw_scopes := lw_scopes s\<rparr>)"
  by (simp add: leave_scope_def stepsD(1) [OF assms(1)] scopes.edits_restore [OF assms(2)])

lemma steps_at:
  assumes "steps s s1 ds vs" "next_var_id t = next_var_id s" "next_def_id t = next_def_id s"
    "current_generic_names t = current_generic_names s"
  shows "steps t (s1\<lparr>lw_scopes := lw_scopes t\<rparr>) [] vs"
  using stepsD(2-5) [OF assms(1)] unfolding steps_def assms(2-4) [symmetric] by (intro conjI) simp_all

lemma steps_block:
  assumes "steps (enter_scope s) s1 ds vs" "leave_scope s1 = Some s2" "rooted (lw_scopes s)"
  shows "steps s s2 [] vs"
proof -
  have "s2 = s1\<lparr>lw_scopes := lw_scopes s\<rparr>"
    using leave_entered [OF assms(1,3)] assms(2) by (simp only: option.inject)
  then show ?thesis using steps_at [OF assms(1), of s] by simp
qed

lemma steps_bind:
  "rooted (lw_scopes s) \<Longrightarrow>
     steps s (bind_name name (next_var_id s) (s\<lparr>next_var_id := next_var_id s + 1\<rparr>)) [(name, next_var_id s)] [next_var_id s]"
  by (simp add: steps_def bind_name_def)

lemma steps_note [simp]: "steps s (note_name n v s') ds vs = steps s s' ds vs"
  by (simp add: steps_def note_name_def)

section \<open>What is visible\<close>

abbreviation visible :: "lowering \<Rightarrow> var_id set" where
  "visible s \<equiv> ran (resolve (lw_scopes s))"

lemma visible_declare: "rooted ss \<Longrightarrow> ran (resolve (declare_all ds ss)) \<subseteq> ran (resolve ss) \<union> snd ` set ds"
proof (induction ds arbitrary: ss)
  case (Cons d ds)
  obtain n v where d: "d = (n, v)" by fastforce
  have "ran (resolve (scope_insert n v ss)) \<subseteq> insert v (ran (resolve ss))"
    by (auto simp: ran_def resolve_insert [OF Cons.prems])
  then show ?case using Cons.IH [OF rooted_insert [OF Cons.prems]] by (auto simp: d)
qed simp

lemma visible_steps: "steps s s' ds vs \<Longrightarrow> rooted (lw_scopes s) \<Longrightarrow> visible s' \<subseteq> visible s \<union> snd ` set ds"
  by (simp only: stepsD(1)) (rule visible_declare)

lemma visible_push [simp]: "ran (resolve (push_scope ss)) = ran (resolve ss)"
  by (simp add: ran_def)

lemma scoped_mono:
  "scoped_expr strict V e \<Longrightarrow> V \<subseteq> W \<Longrightarrow> scoped_expr strict W e"
  "scoped_kind strict V k \<Longrightarrow> V \<subseteq> W \<Longrightarrow> scoped_kind strict W k"
  "scoped_opt strict V r \<Longrightarrow> V \<subseteq> W \<Longrightarrow> scoped_opt strict W r"
  "scoped_block strict V b \<Longrightarrow> V \<subseteq> W \<Longrightarrow> scoped_block strict W b"
  "scoped_stmt strict V st \<Longrightarrow> V \<subseteq> W \<Longrightarrow> scoped_stmt strict W st"
  "scoped_stmts strict V ss \<Longrightarrow> V \<subseteq> W \<Longrightarrow> scoped_stmts strict W ss"
proof (induction strict V e and strict V k and strict V r and strict V b and strict V st and strict V ss arbitrary: W and W and W and W and W and W
    rule: scoped_expr_scoped_kind_scoped_opt_scoped_block_scoped_stmt_scoped_stmts.induct)
  case (28 strict V ss r t)
  then show ?case by (auto simp: le_supI1)
next
  case (40 strict V s ss)
  show ?case using "40.IH" "40.prems" by (auto simp: le_supI1)
next
  case (33 strict V v n i b)
  have "(if strict then V - {v} else insert v V) \<subseteq> (if strict then W - {v} else insert v W)"
    using "33.prems"(2) by auto
  moreover have "insert v V \<subseteq> insert v W" using "33.prems"(2) by auto
  ultimately show ?case using "33.IH" "33.prems"(1) by (simp del: if_split)
qed (auto simp: list_all_iff split_beta)

section \<open>The lowering of bodies\<close>

definition lowers :: "lowering \<Rightarrow> lowering \<Rightarrow> (string \<times> var_id) list \<Rightarrow> var_id list \<Rightarrow> (var_id set \<Rightarrow> bool) \<Rightarrow> bool" where
  "lowers s s' ds vs ok \<longleftrightarrow> steps s s' ds vs \<and> ok (visible s)"

lemma lowers_scopes: "lowers s s' [] vs ok \<Longrightarrow> lw_scopes s' = lw_scopes s"
  by (auto simp: lowers_def dest: stepsD(1))

lemma lowers_rooted: "lowers s s' ds vs ok \<Longrightarrow> rooted (lw_scopes s) \<Longrightarrow> rooted (lw_scopes s')"
  using rooted_steps unfolding lowers_def by blast

lemma lowers_seq:
  assumes "lowers s s1 [] vs P" "lowers s1 s2 ds ws Q"
  shows "lowers s s2 ds (vs @ ws) (\<lambda>V. P V \<and> Q V)"
  using assms steps_trans [of s s1 "[]" vs s2 ds ws] lowers_scopes [OF assms(1)]
  by (simp add: lowers_def)

lemma lowers_imp: "lowers s s' ds vs P \<Longrightarrow> (\<And>V. P V \<Longrightarrow> Q V) \<Longrightarrow> lowers s s' ds vs Q"
  by (simp add: lowers_def)

lemma lowers_bind:
  assumes "lowers s s1 [] vs P" "rooted (lw_scopes s)"
    and "rooted (lw_scopes s1) \<Longrightarrow> lowers s1 s2 ds ws Q"
    and "us = vs @ ws" "\<And>V. P V \<Longrightarrow> Q V \<Longrightarrow> R V"
  shows "lowers s s2 ds us R"
  using lowers_imp [OF lowers_seq [OF assms(1) assms(3)]] lowers_rooted [OF assms(1,2)] assms(4,5) by blast

lemma push_rooted [simp]: "rooted (push_scope ss)"
  by (simp add: push_scope_def)

lemma lowers_nil [simp]: "lowers s s [] [] ok = ok (visible s)"
  by (simp add: lowers_def)

lemma lowers_block:
  assumes "lowers (enter_scope s) s1 ds vs ok" "leave_scope s1 = Some s2" "rooted (lw_scopes s)"
  shows "lowers s s2 [] vs ok"
  using assms steps_block [of s s1 ds vs s2] by (simp add: lowers_def)

lemma lower_local_steps:
  assumes "lower_local p i s = Some (h, s')" "rooted (lw_scopes s)"
  shows "steps s s' (stmt_decls h) [next_var_id s] \<and>
    (\<exists>name mutable t. h = SLocal (PBind name (next_var_id s) mutable) t i)"
  using assms steps_bind [OF assms(2)]
  by (auto simp: lower_local_def alloc_var_id_def Let_def Option.bind_eq_Some_conv)

definition stmts_opt :: "stmt option \<Rightarrow> stmt list" where
  "stmts_opt h = (case h of Some h \<Rightarrow> [h] | None \<Rightarrow> [])"

lemma stmts_opt_simps [simp]:
  "stmts_opt (Some h) = [h]" "stmts_opt None = []"
  by (simp_all add: stmts_opt_def)

abbreviation opt_binders :: "expr option \<Rightarrow> var_id list" where
  "opt_binders r \<equiv> (case r of Some e \<Rightarrow> expr_binders e | None \<Rightarrow> [])"

lemma return_binders [simp]: "kind_binders (EReturn r) = opt_binders r" "stmt_binders (SReturn r) = opt_binders r"
  "kind_binders (EYield r) = opt_binders r"
  by (cases r; simp)+

lemma stmt_of_expr_facts:
  assumes "wrap = SSemi \<or> wrap = SExpr"
  shows "stmt_binders (stmt_of_expr wrap h) = expr_binders h \<and> stmt_decls (stmt_of_expr wrap h) = [] \<and>
    scoped_stmt False V (stmt_of_expr wrap h) = scoped_expr False V h"
  using assms by (cases h; cases "ekind h") (auto simp: stmt_of_expr_def)

lemma scoped_stmts_append:
  "scoped_stmts False V (xs @ ys) = (scoped_stmts False V xs \<and> scoped_stmts False (V \<union> snd ` set (decls_of xs)) ys)"
  by (induction xs arbitrary: V) (auto simp: Un_assoc image_Un)

lemma lowers_stmts:
  assumes "lowers s s1 (decls_of xs) (concat (map stmt_binders xs)) (\<lambda>V. scoped_stmts False V xs)"
    and "lowers s1 s2 (decls_of ys) (concat (map stmt_binders ys)) (\<lambda>V. scoped_stmts False V ys)"
    and "rooted (lw_scopes s)"
  shows "lowers s s2 (decls_of (xs @ ys)) (concat (map stmt_binders (xs @ ys))) (\<lambda>V. scoped_stmts False V (xs @ ys))"
proof -
  have "scoped_stmts False (visible s \<union> snd ` set (decls_of xs)) ys"
    using assms visible_steps [of s s1] scoped_mono(6) unfolding lowers_def by blast
  then show ?thesis
    using assms steps_trans [of s s1 "decls_of xs" "concat (map stmt_binders xs)" s2]
    by (simp add: lowers_def scoped_stmts_append)
qed

lemma lowers_local:
  assumes "lowers s s1 [] (opt_binders i) (\<lambda>V. scoped_opt False V i)" "lower_local p i s1 = Some (h, s')"
    and "rooted (lw_scopes s)"
  shows "lowers s s' (stmt_decls h) (stmt_binders h) (\<lambda>V. scoped_stmts False V [h])"
proof -
  have l: "steps s1 s' (stmt_decls h) [next_var_id s1]"
    and "\<exists>name mutable t. h = SLocal (PBind name (next_var_id s1) mutable) t i"
    using lower_local_steps [OF assms(2) lowers_rooted [OF assms(1,3)]] by auto
  then have "stmt_binders h = opt_binders i @ [next_var_id s1]" "\<And>V. scoped_stmt False V h = scoped_opt False V i"
    by (cases i; auto)+
  then show ?thesis
    using steps_trans [OF _ l, of s "[]"] assms(1) by (simp add: lowers_def)
qed

lemma lower_syn_lowers:
  "lower_syn_expr e s = Some (h, s') \<Longrightarrow> rooted (lw_scopes s) \<Longrightarrow>
     lowers s s' [] (expr_binders h) (\<lambda>V. scoped_expr False V h)"
  "lower_syn_exprs es s = Some (hs, s') \<Longrightarrow> rooted (lw_scopes s) \<Longrightarrow>
     lowers s s' [] (concat (map expr_binders hs)) (\<lambda>V. list_all (scoped_expr False V) hs)"
  "lower_syn_opt r s = Some (ho, s') \<Longrightarrow> rooted (lw_scopes s) \<Longrightarrow>
     lowers s s' [] (opt_binders ho) (\<lambda>V. scoped_opt False V ho)"
  "lower_syn_fields fs s = Some (hf, s') \<Longrightarrow> rooted (lw_scopes s) \<Longrightarrow>
     lowers s s' [] (concat (map (\<lambda>(_, e). expr_binders e) hf)) (\<lambda>V. list_all (\<lambda>(_, e). scoped_expr False V e) hf)"
  "lower_syn_stmts sts s = Some (ss, s') \<Longrightarrow> rooted (lw_scopes s) \<Longrightarrow>
     lowers s s' (decls_of ss) (concat (map stmt_binders ss)) (\<lambda>V. scoped_stmts False V ss)"
  "lower_syn_stmt st s = Some (so, s') \<Longrightarrow> rooted (lw_scopes s) \<Longrightarrow>
     lowers s s' (decls_of (stmts_opt so)) (concat (map stmt_binders (stmts_opt so))) (\<lambda>V. scoped_stmts False V (stmts_opt so))"
proof (induction e s and es s and r s and fs s and sts s and st s
    arbitrary: h s' and hs s' and ho s' and hf s' and ss s' and so s'
    rule: lower_syn_expr_lower_syn_exprs_lower_syn_opt_lower_syn_fields_lower_syn_stmts_lower_syn_stmt.induct)
  case (1 l s)
  then show ?case by auto
next
  case (2 p s)
  then show ?case by (auto simp: lower_path_def ran_def split: option.splits)
next
  case (3 l op r s)
  then show ?case
    by (auto simp: Option.bind_eq_Some_conv intro!: lowers_bind [OF "3.IH"(1) _ "3.IH"(2)])
next
  case (5 f args s)
  show ?case
  proof (cases "call_keyword f \<in> {Some ''requires'', Some ''ensures'', Some ''yield_now''}")
    case True
    then show ?thesis
      using 5 by (auto simp: Option.bind_eq_Some_conv split: list.splits if_splits)
  next
    case False
    then show ?thesis
      using "5.prems" by (auto simp: Option.bind_eq_Some_conv intro!: lowers_bind [OF "5.IH"(3) _ "5.IH"(4)])
  qed
next
  case (6 l r s)
  then show ?case
    by (auto simp: Option.bind_eq_Some_conv intro!: lowers_bind [OF "6.IH"(1) _ "6.IH"(2)])
next
  case (8 e i s)
  then show ?case
    by (auto simp: Option.bind_eq_Some_conv intro!: lowers_bind [OF "8.IH"(1) _ "8.IH"(2)])
next
  case (10 body s)
  then show ?case
    by (auto simp: Option.bind_eq_Some_conv push_rooted intro!: lowers_block lowers_imp [OF "10.IH"])
next
  case (14 r meth args s)
  then show ?case
    by (auto simp: Option.bind_eq_Some_conv intro!: lowers_bind [OF "14.IH"(1) _ "14.IH"(2)])
next
  case (21 e es s)
  then show ?case
    by (auto simp: Option.bind_eq_Some_conv intro!: lowers_bind [OF "21.IH"(1) _ "21.IH"(2)])
next
  case (25 name e fs s)
  then show ?case
    by (auto simp: Option.bind_eq_Some_conv intro!: lowers_bind [OF "25.IH"(1) _ "25.IH"(2)])
next
  case (27 st sts s)
  from "27.prems" obtain h s1 hs where st: "lower_syn_stmt st s = Some (h, s1)"
    and sts: "lower_syn_stmts sts s1 = Some (hs, s')" and ss: "ss = stmts_opt h @ hs"
    by (auto simp: Option.bind_eq_Some_conv stmts_opt_def split: option.splits)
  note 1 = "27.IH"(1) [OF st "27.prems"(2)]
  show ?case
    unfolding ss
    by (rule lowers_stmts [OF 1 "27.IH"(2) [OF st refl sts lowers_rooted [OF 1 "27.prems"(2)]] "27.prems"(2)])
next
  case (28 p init s)
  from "28.prems" obtain i s1 h where i: "lower_syn_opt init s = Some (i, s1)"
    and h: "lower_local p i s1 = Some (h, s')" "so = Some h"
    by (auto simp: Option.bind_eq_Some_conv)
  note 1 = "28.IH" [OF i "28.prems"(2)]
  show ?case
    using lowers_local [OF 1 h(1) "28.prems"(2)] by (simp add: h(2))
next
  case (29 e semi s)
  then show ?case
    by (auto simp: Option.bind_eq_Some_conv stmt_of_expr_facts)
qed (auto simp: Option.bind_eq_Some_conv)

lemma lowers_for:
  assumes "s1 = note_name name v (bind_name name v (s\<lparr>next_var_id := next_var_id s + 1\<rparr>))" "v = next_var_id s"
    and "lowers s1 s2 [] (expr_binders i) (\<lambda>V. scoped_expr False V i)"
    and "lowers s2 s' [] (block_binders b) (\<lambda>V. scoped_block False V b)" "rooted (lw_scopes s)"
  shows "lowers s s' (stmt_decls (SFor v name i b)) (stmt_binders (SFor v name i b)) (\<lambda>V. scoped_stmts False V [SFor v name i b])"
proof -
  have st: "steps s s1 [(name, v)] [v]"
    using steps_bind [OF assms(5), of name] by (simp add: assms(1,2))
  have vis: "visible s1 \<subseteq> insert v (visible s)" using visible_steps [OF st assms(5)] by auto
  have both: "lowers s1 s' [] (expr_binders i @ block_binders b) (\<lambda>V. scoped_expr False V i \<and> scoped_block False V b)"
    by (rule lowers_seq [OF assms(3,4)])
  then have "steps s s' [(name, v)] (v # expr_binders i @ block_binders b)"
    using steps_trans [OF st, of s' "[]"] by (simp add: lowers_def)
  then have "steps s s' [(name, v)] (expr_binders i @ v # block_binders b)"
    by (rule steps_permute) simp
  moreover have "scoped_expr False (insert v (visible s)) i" "scoped_block False (insert v (visible s)) b"
    using both vis scoped_mono(1,4) unfolding lowers_def by blast+
  ultimately show ?thesis by (simp add: lowers_def)
qed

lemma if_binders: "kind_binders (EIf c b r) = expr_binders c @ block_binders b @ opt_binders r"
  by (cases r) auto

lemma lower_salt_lowers:
  "lower_salt_stmt st s = Some (so, s') \<Longrightarrow> rooted (lw_scopes s) \<Longrightarrow>
     lowers s s' (decls_of (stmts_opt so)) (concat (map stmt_binders (stmts_opt so))) (\<lambda>V. scoped_stmts False V (stmts_opt so))"
  "lower_salt_stmts sts s = Some (ss, s') \<Longrightarrow> rooted (lw_scopes s) \<Longrightarrow>
     lowers s s' (decls_of ss) (concat (map stmt_binders ss)) (\<lambda>V. scoped_stmts False V ss)"
  "lower_salt_block body s = Some (b, s') \<Longrightarrow> rooted (lw_scopes s) \<Longrightarrow>
     lowers s s' [] (block_binders b) (\<lambda>V. scoped_block False V b)"
  "lower_salt_if i s = Some (h, s') \<Longrightarrow> rooted (lw_scopes s) \<Longrightarrow>
     lowers s s' [] (expr_binders h) (\<lambda>V. scoped_expr False V h)"
  "lower_salt_else els s = Some (ho, s') \<Longrightarrow> rooted (lw_scopes s) \<Longrightarrow>
     lowers s s' [] (opt_binders ho) (\<lambda>V. scoped_opt False V ho)"
proof (induction st s and sts s and body s and i s and els s arbitrary: so s' and ss s' and b s' and h s' and ho s'
    rule: lower_salt_stmt_lower_salt_stmts_lower_salt_block_lower_salt_if_lower_salt_else.induct)
  case (1 st s)
  then show ?case using lower_syn_lowers(6) by simp
next
  case (2 e semi s)
  then show ?case
    using lower_syn_lowers(1) by (auto simp: Option.bind_eq_Some_conv stmt_of_expr_facts)
next
  case (3 r s)
  then show ?case using lower_syn_lowers(3) by (auto simp: Option.bind_eq_Some_conv)
next
  case (5 c body s)
  then show ?case
    by (auto simp: Option.bind_eq_Some_conv intro!: lowers_bind [OF lower_syn_lowers(1) _ "5.IH"])
next
  case (9 p iter body s)
  define s1 where "s1 = note_name (extract_pat_name p) (next_var_id s)
      (bind_name (extract_pat_name p) (next_var_id s) (s\<lparr>next_var_id := next_var_id s + 1\<rparr>))"
  from 9 obtain i s2 b where i: "lower_syn_expr iter s1 = Some (i, s2)"
    and b: "lower_salt_block body s2 = Some (b, s')" and so: "so = Some (SFor (next_var_id s) (extract_pat_name p) i b)"
    by (auto simp: s1_def alloc_var_id_def Let_def Option.bind_eq_Some_conv)
  have r: "rooted (lw_scopes s1)"
    using "9.prems"(2) by (simp add: s1_def note_name_def bind_name_def)
  note 1 = lower_syn_lowers(1) [OF i r]
  have "lowers s2 s' [] (block_binders b) (\<lambda>V. scoped_block False V b)"
    using "9.IH" b i lowers_rooted [OF 1 r] unfolding s1_def alloc_var_id_def by blast
  then show ?case
    using lowers_for [OF s1_def refl 1 _ "9.prems"(2)] by (simp add: so)
next
  case (18 st sts s)
  from "18.prems" obtain h s1 hs where st: "lower_salt_stmt st s = Some (h, s1)"
    and sts: "lower_salt_stmts sts s1 = Some (hs, s')" and ss: "ss = stmts_opt h @ hs"
    by (auto simp: Option.bind_eq_Some_conv stmts_opt_def split: option.splits)
  note 1 = "18.IH"(1) [OF st "18.prems"(2)]
  show ?case
    unfolding ss
    by (rule lowers_stmts [OF 1 "18.IH"(2) [OF st refl sts lowers_rooted [OF 1 "18.prems"(2)]] "18.prems"(2)])
next
  case (19 body s)
  then show ?case
    by (auto simp: Option.bind_eq_Some_conv intro!: lowers_block lowers_imp [OF "19.IH"])
next
  case (20 c body els s)
  from "20.prems"(1) obtain g s1 b s2 el where g: "lower_syn_expr c s = Some (g, s1)"
    and b: "lower_salt_block body s1 = Some (b, s2)" and el: "lower_salt_else els s2 = Some (el, s')"
    and h: "h = unit_expr (EIf g b el)"
    by (auto simp: Option.bind_eq_Some_conv simp del: lower_salt_block.simps)
  note 1 = lower_syn_lowers(1) [OF g "20.prems"(2)]
  note 2 = "20.IH"(1) [OF g refl b lowers_rooted [OF 1 "20.prems"(2)]]
  note 3 = "20.IH"(2) [OF g refl b refl el lowers_rooted [OF 2 lowers_rooted [OF 1 "20.prems"(2)]]]
  show ?case
    using lowers_seq [OF 1 lowers_seq [OF 2 3]] by (simp add: h if_binders)
qed (auto simp: Option.bind_eq_Some_conv stub_stmt_def)

end
