(* ===== verification/Elaboration.thy ===== *)
theory Elaboration
  imports Lowering_Sound
begin

text \<open>
  The abstract specification of the lowering of bodies: an elaboration relation between source and HIR
  under an environment from names to variable ids, one rule per construct, with lexical scoping written
  as the environment of the rest of a block: a \<open>let\<close> binds its name in the rest of its
  block, a \<open>for\<close> its variable in its body only. The lowering refines it on the constructs
  it supports, in blocks whose later statements do not mention the variable of an earlier
  \<open>for\<close> (\<open>salt-front/src/hir/lower.rs\<close>); the constructs it replaces by a
  literal are the lemmas at the end.
\<close>

section \<open>The elaboration rules\<close>

type_synonym env = "string \<rightharpoonup> var_id"

text \<open>The tables of operators and literals, and the name a pattern binds, apart from the code's own.\<close>

inductive bin_denotes :: "syn_bin_op \<Rightarrow> bin_op \<Rightarrow> bool" where
  "bin_denotes OpAdd BinAdd" | "bin_denotes OpSub BinSub" | "bin_denotes OpMul BinMul" | "bin_denotes OpDiv BinDiv"
| "bin_denotes OpRem BinRem" | "bin_denotes OpEq BinEq" | "bin_denotes OpNe BinNe" | "bin_denotes OpLt BinLt"
| "bin_denotes OpLe BinLe" | "bin_denotes OpGt BinGt" | "bin_denotes OpGe BinGe" | "bin_denotes OpAnd BinAnd"
| "bin_denotes OpOr BinOr" | "bin_denotes OpBitAnd BinBitAnd" | "bin_denotes OpBitOr BinBitOr"
| "bin_denotes OpBitXor BinBitXor" | "bin_denotes OpShl BinShl" | "bin_denotes OpShr BinShr"
| "bin_denotes OpAddAssign BinAddAssign" | "bin_denotes OpSubAssign BinSubAssign"
| "bin_denotes OpMulAssign BinMulAssign" | "bin_denotes OpDivAssign BinDivAssign" | "bin_denotes OpRemAssign BinRemAssign"

inductive un_denotes :: "syn_un_op \<Rightarrow> un_op \<Rightarrow> bool" where
  "un_denotes OpNot UnNot" | "un_denotes OpNeg UnNeg" | "un_denotes OpDeref UnDeref"

inductive lit_denotes :: "syn_lit \<Rightarrow> literal \<Rightarrow> bool" where
  "sint w = n \<Longrightarrow> lit_denotes (SynInt n) (LitInt w)"
| "lit_denotes (SynFloat f) (LitFloat f)"
| "lit_denotes (SynBool b) (LitBool b)"
| "lit_denotes (SynStr str) (LitString str)"

inductive pat_binds :: "syn_pat \<Rightarrow> string \<Rightarrow> bool \<Rightarrow> bool" where
  "pat_binds (SynPatIdent x m) x m"
| "pat_binds p x m \<Longrightarrow> pat_binds (SynPatType p t) x m"

fun named_pat :: "syn_pat \<Rightarrow> bool" where
  "named_pat (SynPatIdent _ _) = True"
| "named_pat (SynPatType p _) = named_pat p"
| "named_pat SynPatOther = False"

definition meaning :: "string set \<Rightarrow> std_type \<Rightarrow> ty option" where
  "meaning gens t =
     (case from_std t of Inl _ \<Rightarrow> None
      | Inr u \<Rightarrow> (case from_syn_with_generics gens u of Some r \<Rightarrow> r | None \<Rightarrow> None))"

fun annotation_of :: "syn_pat \<Rightarrow> std_type option" where
  "annotation_of (SynPatType _ t) = Some t"
| "annotation_of _ = None"

definition exact_lit :: "syn_lit \<Rightarrow> bool" where
  "exact_lit l = (case l of SynInt n \<Rightarrow> base10_parse_i64 n \<noteq> None | SynOtherLit \<Rightarrow> False | _ \<Rightarrow> True)"

definition exact_op :: "syn_bin_op \<Rightarrow> bool" where
  "exact_op op = (op \<notin> {OpBitXorAssign, OpBitAndAssign, OpBitOrAssign, OpShlAssign, OpShrAssign})"

abbreviation contract_words :: "string option set" where
  "contract_words \<equiv> {Some ''requires'', Some ''ensures'', Some ''yield_now''}"

inductive elab_expr :: "string set \<Rightarrow> env \<Rightarrow> syn_expr \<Rightarrow> expr \<Rightarrow> bool"
  and elab_opt :: "string set \<Rightarrow> env \<Rightarrow> syn_expr option \<Rightarrow> expr option \<Rightarrow> bool"
  and elab_stmt :: "string set \<Rightarrow> env \<Rightarrow> syn_stmt \<Rightarrow> stmt \<Rightarrow> env \<Rightarrow> bool"
  and elab_stmts :: "string set \<Rightarrow> env \<Rightarrow> syn_stmt list \<Rightarrow> stmt list \<Rightarrow> env \<Rightarrow> bool"
  for gens :: "string set" where
  el_lit: "lit_denotes l d \<Longrightarrow> elab_expr gens \<Gamma> (SynLit l) (unit_expr (ELiteral d))"
| el_var: "\<Gamma> x = Some v \<Longrightarrow> elab_expr gens \<Gamma> (SynPath (b, [(x, g)])) (unit_expr (EVar v))"
| el_free: "\<Gamma> x = None \<Longrightarrow> elab_expr gens \<Gamma> (SynPath (b, [(x, g)])) (unit_expr (EUnresolvedIdent x))"
| el_binary: "bin_denotes op bop \<Longrightarrow> elab_expr gens \<Gamma> l a \<Longrightarrow> elab_expr gens \<Gamma> r c \<Longrightarrow>
    elab_expr gens \<Gamma> (SynBinary l op r) (unit_expr (EBinary bop a c))"
| el_unary: "un_denotes op uop \<Longrightarrow> elab_expr gens \<Gamma> e a \<Longrightarrow> elab_expr gens \<Gamma> (SynUnary op e) (unit_expr (EUnary uop a))"
| el_requires: "call_keyword f = Some ''requires'' \<Longrightarrow> elab_expr gens \<Gamma> e a \<Longrightarrow>
    elab_expr gens \<Gamma> (SynCall f [e]) (unit_expr (ERequires a))"
| el_ensures: "call_keyword f = Some ''ensures'' \<Longrightarrow> elab_expr gens \<Gamma> e a \<Longrightarrow>
    elab_expr gens \<Gamma> (SynCall f [e]) (unit_expr (EEnsures a))"
| el_yield: "call_keyword f = Some ''yield_now'' \<Longrightarrow> elab_expr gens \<Gamma> e a \<Longrightarrow>
    elab_expr gens \<Gamma> (SynCall f [e]) (unit_expr (EYield (Some a)))"
| el_yield_unit: "call_keyword f = Some ''yield_now'' \<Longrightarrow> elab_expr gens \<Gamma> (SynCall f []) (unit_expr (EYield None))"
| el_call: "call_keyword f \<notin> contract_words \<Longrightarrow> elab_expr gens \<Gamma> f g \<Longrightarrow> list_all2 (elab_expr gens \<Gamma>) args as \<Longrightarrow>
    elab_expr gens \<Gamma> (SynCall f args) (unit_expr (ECall g as))"
| el_method: "elab_expr gens \<Gamma> r a \<Longrightarrow> list_all2 (elab_expr gens \<Gamma>) args as \<Longrightarrow>
    elab_expr gens \<Gamma> (SynMethodCall r meth args) (unit_expr (ECall (unit_expr (EUnresolvedIdent meth)) (a # as)))"
| el_assign: "elab_expr gens \<Gamma> l a \<Longrightarrow> elab_expr gens \<Gamma> r c \<Longrightarrow>
    elab_expr gens \<Gamma> (SynAssign l r) (unit_expr (EAssign a c))"
| el_field: "elab_expr gens \<Gamma> e a \<Longrightarrow> elab_expr gens \<Gamma> (SynField e f) (unit_expr (EField a f))"
| el_index: "elab_expr gens \<Gamma> e a \<Longrightarrow> elab_expr gens \<Gamma> i c \<Longrightarrow>
    elab_expr gens \<Gamma> (SynIndex e i) (unit_expr (EIndex a c))"
| el_paren: "elab_expr gens \<Gamma> e a \<Longrightarrow> elab_expr gens \<Gamma> (SynParen e) a"
| el_return: "elab_opt gens \<Gamma> r a \<Longrightarrow> elab_expr gens \<Gamma> (SynReturn r) (unit_expr (EReturn a))"
| el_cast: "meaning gens t = Some u \<Longrightarrow> elab_expr gens \<Gamma> e a \<Longrightarrow>
    elab_expr gens \<Gamma> (SynCast e t) (unit_expr (ECast a u))"
| el_struct: "list_all2 (elab_expr gens \<Gamma>) (map snd fs) (map snd hs) \<Longrightarrow> map fst fs = map fst hs \<Longrightarrow>
    elab_expr gens \<Gamma> (SynStruct (b, [(name, False)]) fs) (unit_expr (EStructLit name [] hs))"
| el_block: "elab_stmts gens \<Gamma> sts hs \<Delta> \<Longrightarrow> elab_expr gens \<Gamma> (SynBlock sts) (unit_expr (EBlock (Block hs None Unit)))"
| el_none: "elab_opt gens \<Gamma> None None"
| el_some: "elab_expr gens \<Gamma> e a \<Longrightarrow> elab_opt gens \<Gamma> (Some e) (Some a)"
| el_let: "pat_binds p x m \<Longrightarrow> annotation_of p = None \<and> t = None \<or>
      (\<exists>w. annotation_of p = Some w \<and> t \<noteq> None \<and> meaning gens w = t) \<Longrightarrow>
    elab_opt gens \<Gamma> i a \<Longrightarrow>
    elab_stmt gens \<Gamma> (SynLocal p i) (SLocal (PBind x v m) t a) (\<Gamma>(x \<mapsto> v))"
| el_expr: "elab_expr gens \<Gamma> e a \<Longrightarrow> elab_stmt gens \<Gamma> (SynStmtExpr e semi) (stmt_of_expr SSemi a) \<Gamma>"
| el_end: "elab_stmts gens \<Gamma> [] [] \<Gamma>"
| el_seq: "elab_stmt gens \<Gamma> st h \<Delta> \<Longrightarrow> elab_stmts gens \<Delta> sts hs \<Delta>' \<Longrightarrow> elab_stmts gens \<Gamma> (st # sts) (h # hs) \<Delta>'"

inductive elab_salt :: "string set \<Rightarrow> env \<Rightarrow> stmt_ast \<Rightarrow> stmt \<Rightarrow> env \<Rightarrow> bool"
  and elab_salts :: "string set \<Rightarrow> env \<Rightarrow> stmt_ast list \<Rightarrow> stmt list \<Rightarrow> env \<Rightarrow> bool"
  and elab_block :: "string set \<Rightarrow> env \<Rightarrow> stmt_ast list \<Rightarrow> block \<Rightarrow> bool"
  and elab_if :: "string set \<Rightarrow> env \<Rightarrow> salt_if \<Rightarrow> expr \<Rightarrow> bool"
  and elab_else :: "string set \<Rightarrow> env \<Rightarrow> salt_else option \<Rightarrow> expr option \<Rightarrow> bool"
  for gens :: "string set" where
  es_syn: "elab_stmt gens \<Gamma> st h \<Delta> \<Longrightarrow> elab_salt gens \<Gamma> (StSyn st) h \<Delta>"
| es_expr: "elab_expr gens \<Gamma> e a \<Longrightarrow>
    elab_salt gens \<Gamma> (StExpr e semi) (stmt_of_expr (if semi then SSemi else SExpr) a) \<Gamma>"
| es_return: "elab_opt gens \<Gamma> r a \<Longrightarrow> elab_salt gens \<Gamma> (StReturn r) (SReturn a) \<Gamma>"
| es_if: "elab_if gens \<Gamma> i h \<Longrightarrow> elab_salt gens \<Gamma> (StIf i) (SExpr h) \<Gamma>"
| es_while: "elab_expr gens \<Gamma> c h \<Longrightarrow> elab_block gens \<Gamma> body b \<Longrightarrow> elab_salt gens \<Gamma> (StWhile c body) (SWhile h b) \<Gamma>"
| es_loop: "elab_block gens \<Gamma> body b \<Longrightarrow> elab_salt gens \<Gamma> (StLoop body) (SLoop b) \<Gamma>"
| es_break: "elab_salt gens \<Gamma> StBreak SBreak \<Gamma>"
| es_continue: "elab_salt gens \<Gamma> StContinue SContinue \<Gamma>"
| es_for: "elab_expr gens \<Gamma> iter h \<Longrightarrow> elab_block gens (\<Gamma>(x \<mapsto> v)) body b \<Longrightarrow>
    elab_salt gens \<Gamma> (StFor (SynPatIdent x m) iter body) (SFor v x h b) \<Gamma>"
| es_end: "elab_salts gens \<Gamma> [] [] \<Gamma>"
| es_seq: "elab_salt gens \<Gamma> st h \<Delta> \<Longrightarrow> elab_salts gens \<Delta> sts hs \<Delta>' \<Longrightarrow> elab_salts gens \<Gamma> (st # sts) (h # hs) \<Delta>'"
| es_block: "elab_salts gens \<Gamma> body hs \<Delta> \<Longrightarrow> elab_block gens \<Gamma> body (Block hs None Unit)"
| es_cond: "elab_expr gens \<Gamma> c h \<Longrightarrow> elab_block gens \<Gamma> body b \<Longrightarrow> elab_else gens \<Gamma> els el \<Longrightarrow>
    elab_if gens \<Gamma> (SaltIf c body els) (unit_expr (EIf h b el))"
| es_no_else: "elab_else gens \<Gamma> None None"
| es_else: "elab_block gens \<Gamma> body b \<Longrightarrow> elab_else gens \<Gamma> (Some (ElseBlock body)) (Some (unit_expr (EBlock b)))"
| es_else_if: "elab_if gens \<Gamma> i h \<Longrightarrow> elab_else gens \<Gamma> (Some (ElseIf i)) (Some h)"

section \<open>Free names\<close>

fun pat_names :: "syn_pat \<Rightarrow> string set" where
  "pat_names (SynPatIdent x _) = {x}"
| "pat_names (SynPatType p _) = pat_names p"
| "pat_names SynPatOther = {}"

fun syn_binds :: "syn_stmt \<Rightarrow> string set" where
  "syn_binds (SynLocal p _) = pat_names p"
| "syn_binds _ = {}"

fun free_expr :: "syn_expr \<Rightarrow> string set"
and free_stmt :: "syn_stmt \<Rightarrow> string set"
and free_stmts :: "syn_stmt list \<Rightarrow> string set"
where
  "free_expr (SynLit _) = {}"
| "free_expr (SynPath p) = (case snd p of [(x, _)] \<Rightarrow> {x} | _ \<Rightarrow> {})"
| "free_expr (SynBinary l _ r) = free_expr l \<union> free_expr r"
| "free_expr (SynUnary _ e) = free_expr e"
| "free_expr (SynCall f args) = free_expr f \<union> (\<Union>a \<in> set args. free_expr a)"
| "free_expr (SynMethodCall r _ args) = free_expr r \<union> (\<Union>a \<in> set args. free_expr a)"
| "free_expr (SynAssign l r) = free_expr l \<union> free_expr r"
| "free_expr (SynField e _) = free_expr e"
| "free_expr (SynIndex e i) = free_expr e \<union> free_expr i"
| "free_expr (SynParen e) = free_expr e"
| "free_expr (SynReturn r) = (case r of None \<Rightarrow> {} | Some e \<Rightarrow> free_expr e)"
| "free_expr (SynCast e _) = free_expr e"
| "free_expr (SynStruct _ fs) = (\<Union>f \<in> set fs. free_expr (snd f))"
| "free_expr (SynBlock sts) = free_stmts sts"
| "free_expr (SynIf c thn els) =
     free_expr c \<union> free_stmts thn \<union> (case els of None \<Rightarrow> {} | Some e \<Rightarrow> free_expr e)"
| "free_expr (SynReference e) = free_expr e"
| "free_expr (SynTuple es) = (\<Union>a \<in> set es. free_expr a)"
| "free_expr (SynRange a b _) =
     (case a of None \<Rightarrow> {} | Some e \<Rightarrow> free_expr e) \<union> (case b of None \<Rightarrow> {} | Some e \<Rightarrow> free_expr e)"
| "free_expr SynOther = {}"
| "free_expr SynArray = {}"
| "free_stmt (SynLocal _ i) = (case i of None \<Rightarrow> {} | Some e \<Rightarrow> free_expr e)"
| "free_stmt (SynStmtExpr e _) = free_expr e"
| "free_stmt SynStmtOther = {}"
| "free_stmts [] = {}"
| "free_stmts (st # sts) = free_stmt st \<union> (free_stmts sts - syn_binds st)"

fun salt_binds :: "stmt_ast \<Rightarrow> string set" where
  "salt_binds (StSyn st) = syn_binds st"
| "salt_binds _ = {}"

text \<open>The statements that the lowering replaces by a stub have no free names here.\<close>

fun free_salt :: "stmt_ast \<Rightarrow> string set"
and free_salts :: "stmt_ast list \<Rightarrow> string set"
and free_if :: "salt_if \<Rightarrow> string set"
and free_else :: "salt_else \<Rightarrow> string set"
where
  "free_salt (StSyn st) = free_stmt st"
| "free_salt (StExpr e _) = free_expr e"
| "free_salt (StReturn r) = (case r of None \<Rightarrow> {} | Some e \<Rightarrow> free_expr e)"
| "free_salt (StIf i) = free_if i"
| "free_salt (StWhile c body) = free_expr c \<union> free_salts body"
| "free_salt (StLoop body) = free_salts body"
| "free_salt (StFor p iter body) = free_expr iter \<union> (free_salts body - pat_names p)"
| "free_salt _ = {}"
| "free_salts [] = {}"
| "free_salts (st # sts) = free_salt st \<union> (free_salts sts - salt_binds st)"
| "free_if (SaltIf c body els) =
     free_expr c \<union> free_salts body \<union> (case els of None \<Rightarrow> {} | Some e \<Rightarrow> free_else e)"
| "free_else (ElseBlock body) = free_salts body"
| "free_else (ElseIf i) = free_if i"

text \<open>
  The variables of the \<open>for\<close> loops of a block are not mentioned after their loop, nor in its
  iterator. A later loop may bind the same name again.
\<close>

fun loop_var :: "stmt_ast \<Rightarrow> string set" where
  "loop_var (StFor p _ _) = pat_names p"
| "loop_var _ = {}"

fun confined :: "stmt_ast list \<Rightarrow> bool" where
  "confined [] = True"
| "confined (st # sts) = (loop_var st \<inter> free_salts sts = {} \<and> confined sts)"

lemma named_pat_binds: "named_pat p \<Longrightarrow> pat_binds p (extract_syn_pat_name p) (is_mutable_pat p)"
  by (induction p rule: named_pat.induct) (auto intro: pat_binds.intros)

lemma bin_op_denotes: "exact_op op \<Longrightarrow> bin_denotes op (lower_bin_op op)"
  by (cases op) (auto simp: exact_op_def lower_bin_op_def intro: bin_denotes.intros)

lemma un_op_denotes: "un_denotes op (lower_un_op op)"
  by (cases op) (auto simp: lower_un_op_def intro: un_denotes.intros)

lemma exact_lit_denotes: "exact_lit l \<Longrightarrow> lit_denotes l (lower_lit l)"
  by (cases l) (auto simp: exact_lit_def lower_lit_def base10_parse_i64_def signed_of_int signed_take_bit_int_eq_self
      intro!: lit_denotes.intros split: if_splits)

text \<open>Elaboration depends on the free names only.\<close>

lemma pat_binds_names: "pat_binds p x m \<Longrightarrow> pat_names p = {x}"
  by (induction rule: pat_binds.induct) auto

abbreviation agree :: "string set \<Rightarrow> env \<Rightarrow> env \<Rightarrow> bool" where
  "agree X \<Gamma> \<Delta> \<equiv> \<forall>x \<in> X. \<Gamma> x = \<Delta> x"

lemma list_all2_weaken:
  assumes "list_all2 (\<lambda>a b. R a b \<and> P a b) xs ys" "\<And>a b. a \<in> set xs \<Longrightarrow> P a b \<Longrightarrow> Q a b"
  shows "list_all2 Q xs ys"
  using assms by (induction xs ys rule: list_all2_induct) auto

lemma elab_cong:
  "elab_expr gens \<Gamma> e a \<Longrightarrow> agree (free_expr e) \<Gamma> \<Gamma>' \<Longrightarrow> elab_expr gens \<Gamma>' e a"
  "elab_opt gens \<Gamma> r o' \<Longrightarrow> agree (case r of None \<Rightarrow> {} | Some e \<Rightarrow> free_expr e) \<Gamma> \<Gamma>' \<Longrightarrow> elab_opt gens \<Gamma>' r o'"
  "elab_stmt gens \<Gamma> st h \<Delta> \<Longrightarrow> agree (free_stmt st) \<Gamma> \<Gamma>' \<Longrightarrow>
     \<exists>\<Delta>'. elab_stmt gens \<Gamma>' st h \<Delta>' \<and> (\<forall>x. x \<in> syn_binds st \<or> \<Gamma> x = \<Gamma>' x \<longrightarrow> \<Delta> x = \<Delta>' x)"
  "elab_stmts gens \<Gamma> sts hs \<Delta> \<Longrightarrow> agree (free_stmts sts) \<Gamma> \<Gamma>' \<Longrightarrow> \<exists>\<Delta>'. elab_stmts gens \<Gamma>' sts hs \<Delta>'"
proof (induction arbitrary: \<Gamma>' and \<Gamma>' and \<Gamma>' and \<Gamma>' rule: elab_expr_elab_opt_elab_stmt_elab_stmts.inducts)
  case (el_call f \<Gamma> g args as)
  then have "agree (free_expr x) \<Gamma> \<Gamma>'" if "x \<in> set args" for x using that by auto
  then have "list_all2 (elab_expr gens \<Gamma>') args as" by (intro list_all2_weaken [OF el_call(4)]) blast
  with el_call show ?case by (intro elab_expr_elab_opt_elab_stmt_elab_stmts.el_call) auto
next
  case (el_method \<Gamma> r a args as meth)
  then have "agree (free_expr x) \<Gamma> \<Gamma>'" if "x \<in> set args" for x using that by auto
  then have "list_all2 (elab_expr gens \<Gamma>') args as" by (intro list_all2_weaken [OF el_method(3)]) blast
  with el_method show ?case by (intro elab_expr_elab_opt_elab_stmt_elab_stmts.el_method) auto
next
  case (el_struct \<Gamma> fs hs b name)
  then have "agree (free_expr x) \<Gamma> \<Gamma>'" if "x \<in> set (map snd fs)" for x using that by auto
  then have "list_all2 (elab_expr gens \<Gamma>') (map snd fs) (map snd hs)" by (intro list_all2_weaken [OF el_struct(1)]) blast
  with el_struct show ?case by (intro elab_expr_elab_opt_elab_stmt_elab_stmts.el_struct) auto
next
  case (el_let p x m t \<Gamma> i a v)
  then show ?case
    by (intro exI [of _ "\<Gamma>'(x \<mapsto> v)"] conjI elab_expr_elab_opt_elab_stmt_elab_stmts.el_let)
      (auto dest: pat_binds_names)
next
  case (el_seq \<Gamma> st h \<Delta> sts hs \<Delta>')
  obtain \<Delta>1 where 1: "elab_stmt gens \<Gamma>' st h \<Delta>1" "\<forall>x. x \<in> syn_binds st \<or> \<Gamma> x = \<Gamma>' x \<longrightarrow> \<Delta> x = \<Delta>1 x"
    using el_seq(2) [of \<Gamma>'] el_seq.prems by auto
  with el_seq.prems have "agree (free_stmts sts) \<Delta> \<Delta>1" by auto
  with el_seq(4) 1(1) show ?case by (blast intro: elab_expr_elab_opt_elab_stmt_elab_stmts.el_seq)
qed (auto intro: elab_expr_elab_opt_elab_stmt_elab_stmts.intros)

lemma elab_salt_cong:
  "elab_salt gens \<Gamma> st h \<Delta> \<Longrightarrow> agree (free_salt st) \<Gamma> \<Gamma>' \<Longrightarrow>
     \<exists>\<Delta>'. elab_salt gens \<Gamma>' st h \<Delta>' \<and> (\<forall>x. x \<in> salt_binds st \<or> \<Gamma> x = \<Gamma>' x \<longrightarrow> \<Delta> x = \<Delta>' x)"
  "elab_salts gens \<Gamma> sts hs \<Delta> \<Longrightarrow> agree (free_salts sts) \<Gamma> \<Gamma>' \<Longrightarrow> \<exists>\<Delta>'. elab_salts gens \<Gamma>' sts hs \<Delta>'"
  "elab_block gens \<Gamma> body b \<Longrightarrow> agree (free_salts body) \<Gamma> \<Gamma>' \<Longrightarrow> elab_block gens \<Gamma>' body b"
  "elab_if gens \<Gamma> i k \<Longrightarrow> agree (free_if i) \<Gamma> \<Gamma>' \<Longrightarrow> elab_if gens \<Gamma>' i k"
  "elab_else gens \<Gamma> els el \<Longrightarrow> agree (case els of None \<Rightarrow> {} | Some e \<Rightarrow> free_else e) \<Gamma> \<Gamma>' \<Longrightarrow> elab_else gens \<Gamma>' els el"
proof (induction arbitrary: \<Gamma>' and \<Gamma>' and \<Gamma>' and \<Gamma>' and \<Gamma>'
    rule: elab_salt_elab_salts_elab_block_elab_if_elab_else.inducts)
  case (es_syn \<Gamma> st h \<Delta>)
  then obtain \<Delta>' where "elab_stmt gens \<Gamma>' st h \<Delta>'" "\<forall>x. x \<in> syn_binds st \<or> \<Gamma> x = \<Gamma>' x \<longrightarrow> \<Delta> x = \<Delta>' x"
    using elab_cong(3) [OF es_syn(1)] by fastforce
  then show ?case
    by (intro exI [of _ \<Delta>'] conjI elab_salt_elab_salts_elab_block_elab_if_elab_else.es_syn) simp_all
next
  case (es_seq \<Gamma> st h \<Delta> sts hs \<Delta>')
  obtain \<Delta>1 where 1: "elab_salt gens \<Gamma>' st h \<Delta>1" "\<forall>x. x \<in> salt_binds st \<or> \<Gamma> x = \<Gamma>' x \<longrightarrow> \<Delta> x = \<Delta>1 x"
    using es_seq(2) [of \<Gamma>'] es_seq.prems by auto
  with es_seq.prems have "agree (free_salts sts) \<Delta> \<Delta>1" by auto
  with es_seq(4) 1(1) show ?case by (blast intro: elab_salt_elab_salts_elab_block_elab_if_elab_else.es_seq)
next
  case (es_for \<Gamma> iter h x v body b m)
  then have "elab_expr gens \<Gamma>' iter h" "elab_block gens (\<Gamma>'(x \<mapsto> v)) body b" by (auto intro: elab_cong(1))
  then show ?case using es_for.prems by (auto intro!: elab_salt_elab_salts_elab_block_elab_if_elab_else.es_for)
next
  case (es_block \<Gamma> body hs \<Delta>)
  then show ?case by (auto intro: elab_salt_elab_salts_elab_block_elab_if_elab_else.es_block)
next
  case (es_expr \<Gamma> e a semi)
  then have "elab_expr gens \<Gamma>' e a" by (auto intro: elab_cong(1))
  then show ?case
    by (intro exI [of _ "\<Gamma>'"] conjI elab_salt_elab_salts_elab_block_elab_if_elab_else.es_expr) simp_all
next
  case (es_return \<Gamma> r a)
  then have "elab_opt gens \<Gamma>' r a" by (auto intro: elab_cong(2))
  then show ?case by (auto intro!: elab_salt_elab_salts_elab_block_elab_if_elab_else.es_return)
next
  case (es_if \<Gamma> i h)
  then show ?case by (auto intro!: elab_salt_elab_salts_elab_block_elab_if_elab_else.es_if)
next
  case (es_while \<Gamma> c h body b)
  then have "elab_expr gens \<Gamma>' c h" "elab_block gens \<Gamma>' body b" by (auto intro: elab_cong(1))
  then show ?case by (auto intro!: elab_salt_elab_salts_elab_block_elab_if_elab_else.es_while)
next
  case (es_cond \<Gamma> c h body b els el)
  then have "elab_expr gens \<Gamma>' c h" by (auto intro: elab_cong(1))
  with es_cond show ?case by (auto intro!: elab_salt_elab_salts_elab_block_elab_if_elab_else.es_cond)
qed (auto intro!: elab_salt_elab_salts_elab_block_elab_if_elab_else.intros)

section \<open>The supported constructs\<close>

fun supported_expr :: "string set \<Rightarrow> syn_expr \<Rightarrow> bool"
and supported_stmt :: "string set \<Rightarrow> syn_stmt \<Rightarrow> bool" where
  "supported_expr gens (SynLit l) = exact_lit l"
| "supported_expr gens (SynPath p) = (length (snd p) = 1)"
| "supported_expr gens (SynBinary l op r) = (exact_op op \<and> supported_expr gens l \<and> supported_expr gens r)"
| "supported_expr gens (SynUnary _ e) = supported_expr gens e"
| "supported_expr gens (SynCall f args) =
     (list_all (supported_expr gens) args \<and>
      (if call_keyword f \<in> {Some ''requires'', Some ''ensures''} then length args = 1
       else if call_keyword f = Some ''yield_now'' then length args \<le> 1
       else supported_expr gens f))"
| "supported_expr gens (SynMethodCall r _ args) = (supported_expr gens r \<and> list_all (supported_expr gens) args)"
| "supported_expr gens (SynAssign l r) = (supported_expr gens l \<and> supported_expr gens r)"
| "supported_expr gens (SynField e _) = supported_expr gens e"
| "supported_expr gens (SynIndex e i) = (supported_expr gens e \<and> supported_expr gens i)"
| "supported_expr gens (SynParen e) = supported_expr gens e"
| "supported_expr gens (SynReturn r) = (case r of None \<Rightarrow> True | Some e \<Rightarrow> supported_expr gens e)"
| "supported_expr gens (SynCast e t) = (meaning gens t \<noteq> None \<and> supported_expr gens e)"
| "supported_expr gens (SynStruct p fs) =
     (length (snd p) = 1 \<and> \<not> snd (hd (snd p)) \<and> list_all (\<lambda>(_, e). supported_expr gens e) fs)"
| "supported_expr gens (SynBlock sts) = list_all (supported_stmt gens) sts"
| "supported_expr gens (SynIf _ _ _) = False"
| "supported_expr gens (SynReference _) = False"
| "supported_expr gens (SynTuple _) = False"
| "supported_expr gens (SynRange _ _ _) = False"
| "supported_expr gens SynOther = False"
| "supported_stmt gens (SynLocal p i) =
     (named_pat p \<and> (case annotation_of p of None \<Rightarrow> True | Some t \<Rightarrow> meaning gens t \<noteq> None) \<and>
      (case i of None \<Rightarrow> True | Some e \<Rightarrow> supported_expr gens e))"
| "supported_stmt gens (SynStmtExpr e _) = supported_expr gens e"
| "supported_stmt gens SynStmtOther = False"
| "supported_expr gens SynArray = False"

abbreviation supported_opt :: "string set \<Rightarrow> syn_expr option \<Rightarrow> bool" where
  "supported_opt gens r \<equiv> (case r of None \<Rightarrow> True | Some e \<Rightarrow> supported_expr gens e)"

fun supported_salt :: "string set \<Rightarrow> stmt_ast \<Rightarrow> bool"
and supported_if :: "string set \<Rightarrow> salt_if \<Rightarrow> bool"
and supported_else :: "string set \<Rightarrow> salt_else \<Rightarrow> bool" where
  "supported_salt gens (StSyn st) = supported_stmt gens st"
| "supported_salt gens (StExpr e _) = supported_expr gens e"
| "supported_salt gens (StReturn r) = (case r of None \<Rightarrow> True | Some e \<Rightarrow> supported_expr gens e)"
| "supported_salt gens (StIf i) = supported_if gens i"
| "supported_salt gens (StWhile c body) = (supported_expr gens c \<and> confined body \<and> list_all (supported_salt gens) body)"
| "supported_salt gens (StLoop body) = (confined body \<and> list_all (supported_salt gens) body)"
| "supported_salt gens StBreak = True"
| "supported_salt gens StContinue = True"
| "supported_salt gens (StFor p iter body) =
     ((case p of SynPatIdent x _ \<Rightarrow> x \<notin> free_expr iter | _ \<Rightarrow> False) \<and> supported_expr gens iter \<and>
      confined body \<and> list_all (supported_salt gens) body)"
| "supported_salt gens _ = False"
| "supported_if gens (SaltIf c body els) =
     (supported_expr gens c \<and> confined body \<and> list_all (supported_salt gens) body \<and>
      (case els of None \<Rightarrow> True | Some e \<Rightarrow> supported_else gens e))"
| "supported_else gens (ElseBlock body) = (confined body \<and> list_all (supported_salt gens) body)"
| "supported_else gens (ElseIf i) = supported_if gens i"

section \<open>The lowering elaborates\<close>

text \<open>A call that returns, leaves the scopes as they were and gives a result of the relation.\<close>

definition elaborates :: "lowering \<Rightarrow> ('h \<times> lowering) option \<Rightarrow> ('h \<Rightarrow> bool) \<Rightarrow> bool" where
  "elaborates s m R \<longleftrightarrow>
     (\<exists>h s'. m = Some (h, s') \<and> lw_scopes s' = lw_scopes s \<and>
        current_generic_names s' = current_generic_names s \<and> R h)"

text \<open>A call that returns and extends the innermost scope.\<close>

definition declares :: "lowering \<Rightarrow> ('h \<times> lowering) option \<Rightarrow> ('h \<Rightarrow> env \<Rightarrow> bool) \<Rightarrow> bool" where
  "declares s m R \<longleftrightarrow>
     (\<exists>h s'. m = Some (h, s') \<and> rooted (lw_scopes s') \<and>
        current_generic_names s' = current_generic_names s \<and> R h (resolve (lw_scopes s')))"

lemma elaborates_Some [simp]:
  "elaborates s (Some (h, s')) R \<longleftrightarrow>
     lw_scopes s' = lw_scopes s \<and> current_generic_names s' = current_generic_names s \<and> R h"
  by (auto simp: elaborates_def)

lemma elaborates_bind:
  assumes "elaborates s m P"
    and "\<And>h s'. P h \<Longrightarrow> m = Some (h, s') \<Longrightarrow> lw_scopes s' = lw_scopes s \<Longrightarrow>
      current_generic_names s' = current_generic_names s \<Longrightarrow> elaborates s' (k (h, s')) R"
  shows "elaborates s (Option.bind m k) R"
  using assms by (fastforce simp: elaborates_def)

lemma elaborates_mono: "elaborates s m P \<Longrightarrow> (\<And>h. P h \<Longrightarrow> Q h) \<Longrightarrow> elaborates s m Q"
  by (auto simp: elaborates_def)

lemma meaning_reads:
  "meaning gens t = Some u \<Longrightarrow> \<exists>w. from_std t = Inr w \<and> from_syn_with_generics gens w = Some (Some u)"
  by (auto simp: meaning_def split: sum.splits option.splits)

lemma annotation_reads:
  assumes "case annotation_of p of None \<Rightarrow> True | Some t \<Rightarrow> meaning gens t \<noteq> None"
  shows "\<exists>t. extract_type_annotation p gens = Some t \<and>
    (annotation_of p = None \<and> t = None \<or> (\<exists>w. annotation_of p = Some w \<and> t \<noteq> None \<and> meaning gens w = t))"
proof (cases p)
  case (SynPatType q w)
  with assms obtain u where "meaning gens w = Some u" by auto
  with meaning_reads [OF this] SynPatType show ?thesis by auto
qed auto

lemma local_declares:
  assumes "named_pat p" "case annotation_of p of None \<Rightarrow> True | Some t \<Rightarrow> meaning gens t \<noteq> None"
    and "elab_opt gens (resolve (lw_scopes s)) i a" "rooted (lw_scopes s)" "current_generic_names s = gens"
  shows "declares s (lower_local p a s) (elab_stmt gens (resolve (lw_scopes s)) (SynLocal p i))"
proof -
  from annotation_reads [OF assms(2)] obtain t where t: "extract_type_annotation p gens = Some t"
    "annotation_of p = None \<and> t = None \<or> (\<exists>w. annotation_of p = Some w \<and> t \<noteq> None \<and> meaning gens w = t)" by blast
  have "resolve (scope_insert n v (lw_scopes s)) = (resolve (lw_scopes s))(n \<mapsto> v)" for n v
    by (simp add: fun_eq_iff resolve_insert [OF assms(4)])
  then show ?thesis
    using t assms by (auto simp: declares_def lower_local_def alloc_var_id_def bind_name_def Let_def intro!: el_let named_pat_binds)
qed

definition expr_ok :: "string set \<Rightarrow> syn_expr \<Rightarrow> bool" where
  "expr_ok gens e \<longleftrightarrow>
     (\<forall>s. rooted (lw_scopes s) \<longrightarrow> current_generic_names s = gens \<longrightarrow>
        elaborates s (lower_syn_expr e s) (elab_expr gens (resolve (lw_scopes s)) e))"

definition stmt_ok :: "string set \<Rightarrow> syn_stmt \<Rightarrow> bool" where
  "stmt_ok gens st \<longleftrightarrow>
     (\<forall>s. rooted (lw_scopes s) \<longrightarrow> current_generic_names s = gens \<longrightarrow>
        declares s (lower_syn_stmt st s)
          (\<lambda>ho \<Delta>. \<exists>h. ho = Some h \<and> elab_stmt gens (resolve (lw_scopes s)) st h \<Delta>))"

lemma expr_bind:
  assumes "expr_ok gens e" "rooted (lw_scopes s)" "current_generic_names s = gens"
    and "\<And>h s'. elab_expr gens (resolve (lw_scopes s)) e h \<Longrightarrow> lw_scopes s' = lw_scopes s \<Longrightarrow>
      current_generic_names s' = gens \<Longrightarrow> elaborates s' (k (h, s')) R"
  shows "elaborates s (Option.bind (lower_syn_expr e s) k) R"
  using assms by (auto simp: expr_ok_def intro: elaborates_bind)

lemma exprs_elaborate:
  assumes "list_all (expr_ok gens) es" "rooted (lw_scopes s)" "current_generic_names s = gens"
  shows "elaborates s (lower_syn_exprs es s) (list_all2 (elab_expr gens (resolve (lw_scopes s))) es)"
  using assms
proof (induction es arbitrary: s)
  case (Cons e es)
  have "elaborates s1 (Option.bind (lower_syn_exprs es s1) (\<lambda>(xs, s). Some (a # xs, s)))
      (list_all2 (elab_expr gens (resolve (lw_scopes s))) (e # es))"
    if "elab_expr gens (resolve (lw_scopes s)) e a" "lw_scopes s1 = lw_scopes s" "current_generic_names s1 = gens" for a s1
    by (rule elaborates_bind [OF Cons.IH]) (use Cons.prems that in auto)
  with Cons.prems show ?case by (auto intro!: expr_bind)
qed simp

lemma opt_elaborates:
  assumes "case r of None \<Rightarrow> True | Some e \<Rightarrow> expr_ok gens e" "rooted (lw_scopes s)" "current_generic_names s = gens"
  shows "elaborates s (lower_syn_opt r s) (elab_opt gens (resolve (lw_scopes s)) r)"
  using assms by (cases r) (auto intro!: expr_bind intro: el_none el_some)

lemma fields_elaborate:
  assumes "list_all (\<lambda>(_, e). expr_ok gens e) fs" "rooted (lw_scopes s)" "current_generic_names s = gens"
  shows "elaborates s (lower_syn_fields fs s) (\<lambda>hs. map fst fs = map fst hs \<and>
    list_all2 (elab_expr gens (resolve (lw_scopes s))) (map snd fs) (map snd hs))"
  using assms
proof (induction fs arbitrary: s)
  case (Cons f fs)
  obtain n e where f: "f = (n, e)" by fastforce
  have "elaborates s1 (Option.bind (lower_syn_fields fs s1) (\<lambda>(hs, s). Some ((n, a) # hs, s)))
      (\<lambda>hs. map fst (f # fs) = map fst hs \<and>
        list_all2 (elab_expr gens (resolve (lw_scopes s))) (map snd (f # fs)) (map snd hs))"
    if "elab_expr gens (resolve (lw_scopes s)) e a" "lw_scopes s1 = lw_scopes s" "current_generic_names s1 = gens" for a s1
    by (rule elaborates_bind [OF Cons.IH]) (use Cons.prems that in \<open>auto simp: f\<close>)
  with Cons.prems show ?case by (auto simp: f intro!: expr_bind)
qed simp

lemma stmts_declare:
  assumes "list_all (stmt_ok gens) sts" "rooted (lw_scopes s)" "current_generic_names s = gens"
  shows "declares s (lower_syn_stmts sts s) (elab_stmts gens (resolve (lw_scopes s)) sts)"
  using assms
proof (induction sts arbitrary: s)
  case (Cons st sts)
  then have "declares s (lower_syn_stmt st s)
      (\<lambda>ho \<Delta>. \<exists>h. ho = Some h \<and> elab_stmt gens (resolve (lw_scopes s)) st h \<Delta>)"
    by (simp add: stmt_ok_def)
  then obtain h s1 where st: "lower_syn_stmt st s = Some (Some h, s1)" "rooted (lw_scopes s1)"
    "current_generic_names s1 = gens" "elab_stmt gens (resolve (lw_scopes s)) st h (resolve (lw_scopes s1))"
    unfolding declares_def using Cons.prems(3) by blast
  moreover from Cons.IH [of s1] Cons.prems st(2,3) obtain hs s2 where "lower_syn_stmts sts s1 = Some (hs, s2)"
    "rooted (lw_scopes s2)" "current_generic_names s2 = gens"
    "elab_stmts gens (resolve (lw_scopes s1)) sts hs (resolve (lw_scopes s2))"
    by (auto simp: declares_def)
  moreover from st(4) this(4) have "elab_stmts gens (resolve (lw_scopes s)) (st # sts) (h # hs) (resolve (lw_scopes s2))"
    by (rule el_seq)
  ultimately show ?case using Cons.prems(3) by (simp add: declares_def)
qed (auto simp: declares_def intro: el_end)

lemma block_ok:
  assumes "list_all (stmt_ok gens) sts"
  shows "expr_ok gens (SynBlock sts)"
  unfolding expr_ok_def
proof (intro allI impI)
  fix s :: lowering assume r: "rooted (lw_scopes s)" and g: "current_generic_names s = gens"
  have e: "resolve (lw_scopes (enter_scope s)) = resolve (lw_scopes s)" by (simp add: fun_eq_iff)
  obtain hs s1 where "lower_syn_stmts sts (enter_scope s) = Some (hs, s1)" "current_generic_names s1 = gens"
    "elab_stmts gens (resolve (lw_scopes s)) sts hs (resolve (lw_scopes s1))"
    using stmts_declare [OF assms, of "enter_scope s"] g e by (auto simp: declares_def)
  moreover from this(1) have "leave_scope s1 = Some (s1\<lparr>lw_scopes := lw_scopes s\<rparr>)"
    using lower_syn_lowers(5) [of sts "enter_scope s" hs s1] leave_entered [OF _ r] unfolding lowers_def by auto
  ultimately show "elaborates s (lower_syn_expr (SynBlock sts) s) (elab_expr gens (resolve (lw_scopes s)) (SynBlock sts))"
    by (auto simp: g intro: el_block)
qed

lemma expr_okI:
  "(\<And>s. rooted (lw_scopes s) \<Longrightarrow> current_generic_names s = gens \<Longrightarrow>
     elaborates s (lower_syn_expr e s) (elab_expr gens (resolve (lw_scopes s)) e)) \<Longrightarrow> expr_ok gens e"
  by (simp add: expr_ok_def)

lemma call_ok:
  assumes "call_keyword f \<notin> contract_words" "expr_ok gens f" "list_all (expr_ok gens) args"
  shows "expr_ok gens (SynCall f args)"
proof (rule expr_okI)
  fix s :: lowering assume s: "rooted (lw_scopes s)" "current_generic_names s = gens"
  have "elaborates s1 (Option.bind (lower_syn_exprs args s1) (\<lambda>(xs, s). Some (unit_expr (ECall g xs), s)))
      (elab_expr gens (resolve (lw_scopes s)) (SynCall f args))"
    if "elab_expr gens (resolve (lw_scopes s)) f g" "lw_scopes s1 = lw_scopes s" "current_generic_names s1 = gens" for g s1
    by (rule elaborates_bind [OF exprs_elaborate [OF assms(3)]]) (use s that assms(1) in \<open>auto intro: el_call\<close>)
  then show "elaborates s (lower_syn_expr (SynCall f args) s) (elab_expr gens (resolve (lw_scopes s)) (SynCall f args))"
    using assms s by (auto intro!: expr_bind)
qed

lemma method_ok:
  assumes "expr_ok gens r" "list_all (expr_ok gens) args"
  shows "expr_ok gens (SynMethodCall r meth args)"
proof (rule expr_okI)
  fix s :: lowering assume s: "rooted (lw_scopes s)" "current_generic_names s = gens"
  have "elaborates s1 (Option.bind (lower_syn_exprs args s1)
        (\<lambda>(xs, s). Some (unit_expr (ECall (unit_expr (EUnresolvedIdent meth)) (a # xs)), s)))
      (elab_expr gens (resolve (lw_scopes s)) (SynMethodCall r meth args))"
    if "elab_expr gens (resolve (lw_scopes s)) r a" "lw_scopes s1 = lw_scopes s" "current_generic_names s1 = gens" for a s1
    by (rule elaborates_bind [OF exprs_elaborate [OF assms(2)]]) (use s that in \<open>auto intro: el_method\<close>)
  then show "elaborates s (lower_syn_expr (SynMethodCall r meth args) s)
      (elab_expr gens (resolve (lw_scopes s)) (SynMethodCall r meth args))"
    using assms s by (auto intro!: expr_bind)
qed

lemma keyword_ok:
  assumes "call_keyword f \<in> contract_words" "list_all (expr_ok gens) args"
    and "if call_keyword f = Some ''yield_now'' then length args \<le> 1 else length args = 1"
  shows "expr_ok gens (SynCall f args)"
proof (rule expr_okI)
  fix s :: lowering assume s: "rooted (lw_scopes s)" "current_generic_names s = gens"
  show "elaborates s (lower_syn_expr (SynCall f args) s) (elab_expr gens (resolve (lw_scopes s)) (SynCall f args))"
    using assms s
    by (cases args) (auto split: if_splits intro!: expr_bind intro: el_requires el_ensures el_yield el_yield_unit)
qed

lemma struct_ok:
  assumes "list_all (\<lambda>(_, e). expr_ok gens e) fs" "p = (b, [(name, False)])"
  shows "expr_ok gens (SynStruct p fs)"
proof (rule expr_okI)
  fix s :: lowering assume s: "rooted (lw_scopes s)" "current_generic_names s = gens"
  show "elaborates s (lower_syn_expr (SynStruct p fs) s) (elab_expr gens (resolve (lw_scopes s)) (SynStruct p fs))"
    unfolding lower_syn_expr.simps
    by (rule elaborates_bind [OF fields_elaborate [OF assms(1) s]])
      (use s in \<open>auto simp: assms(2) last_ident_def intro: el_struct\<close>)
qed

lemma local_ok:
  assumes "named_pat p" "case annotation_of p of None \<Rightarrow> True | Some t \<Rightarrow> meaning gens t \<noteq> None"
    and "case i of None \<Rightarrow> True | Some e \<Rightarrow> expr_ok gens e"
  shows "stmt_ok gens (SynLocal p i)"
  unfolding stmt_ok_def
proof (intro allI impI)
  fix s :: lowering assume s: "rooted (lw_scopes s)" "current_generic_names s = gens"
  obtain a s1 where a: "lower_syn_opt i s = Some (a, s1)" "lw_scopes s1 = lw_scopes s"
    "current_generic_names s1 = gens" "elab_opt gens (resolve (lw_scopes s)) i a"
    using opt_elaborates [OF assms(3) s] unfolding elaborates_def s(2) by blast
  have "declares s1 (lower_local p a s1) (elab_stmt gens (resolve (lw_scopes s1)) (SynLocal p i))"
    using local_declares [OF assms(1,2), of s1 i a] a s by simp
  then show "declares s (lower_syn_stmt (SynLocal p i) s)
      (\<lambda>ho \<Delta>. \<exists>h. ho = Some h \<and> elab_stmt gens (resolve (lw_scopes s)) (SynLocal p i) h \<Delta>)"
    using a s by (auto simp: declares_def)
qed

lemma expr_stmt_ok: "expr_ok gens e \<Longrightarrow> stmt_ok gens (SynStmtExpr e semi)"
  by (fastforce simp: stmt_ok_def expr_ok_def elaborates_def declares_def intro: el_expr)

lemma cast_ok:
  assumes "expr_ok gens e" "meaning gens t \<noteq> None"
  shows "expr_ok gens (SynCast e t)"
proof -
  obtain u where u: "meaning gens t = Some u" using assms(2) by blast
  with meaning_reads [OF u] have ct: "cast_type t gens = Some u" by (auto simp: cast_type_def unwrap_or_def)
  show ?thesis
  proof (rule expr_okI)
    fix s :: lowering assume s: "rooted (lw_scopes s)" "current_generic_names s = gens"
    show "elaborates s (lower_syn_expr (SynCast e t) s) (elab_expr gens (resolve (lw_scopes s)) (SynCast e t))"
      unfolding lower_syn_expr.simps
      by (rule expr_bind [OF assms(1) s])
        (use s ct u in \<open>simp add: el_cast\<close>)
  qed
qed

lemma return_ok:
  assumes "case r of None \<Rightarrow> True | Some e \<Rightarrow> expr_ok gens e"
  shows "expr_ok gens (SynReturn r)"
proof (rule expr_okI)
  fix s :: lowering assume s: "rooted (lw_scopes s)" "current_generic_names s = gens"
  show "elaborates s (lower_syn_expr (SynReturn r) s) (elab_expr gens (resolve (lw_scopes s)) (SynReturn r))"
    unfolding lower_syn_expr.simps
    by (rule elaborates_bind [OF opt_elaborates [OF assms s]]) (use s in \<open>simp add: el_return\<close>)
qed

lemma unary_ok:
  assumes "expr_ok gens e"
    and "\<And>s. lower_syn_expr x s = Option.bind (lower_syn_expr e s) (\<lambda>(a, s). Some (w a, s))"
    and "\<And>\<Gamma> a. elab_expr gens \<Gamma> e a \<Longrightarrow> elab_expr gens \<Gamma> x (w a)"
  shows "expr_ok gens x"
  by (rule expr_okI, simp only: assms(2), rule expr_bind [OF assms(1)]) (simp_all add: assms(3))

lemma binary_ok:
  assumes "expr_ok gens l" "expr_ok gens r"
    and "\<And>s. lower_syn_expr x s = Option.bind (lower_syn_expr l s)
        (\<lambda>(a, s). Option.bind (lower_syn_expr r s) (\<lambda>(c, s). Some (w a c, s)))"
    and "\<And>\<Gamma> a c. elab_expr gens \<Gamma> l a \<Longrightarrow> elab_expr gens \<Gamma> r c \<Longrightarrow> elab_expr gens \<Gamma> x (w a c)"
  shows "expr_ok gens x"
proof (rule expr_okI)
  fix s :: lowering assume s: "rooted (lw_scopes s)" "current_generic_names s = gens"
  have "elaborates s1 (Option.bind (lower_syn_expr r s1) (\<lambda>(c, s). Some (w a c, s))) (elab_expr gens (resolve (lw_scopes s)) x)"
    if "elab_expr gens (resolve (lw_scopes s)) l a" "lw_scopes s1 = lw_scopes s" "current_generic_names s1 = gens" for a s1
    by (rule expr_bind [OF assms(2)]) (use s that assms(4) in auto)
  then show "elaborates s (lower_syn_expr x s) (elab_expr gens (resolve (lw_scopes s)) x)"
    unfolding assms(3) by (intro expr_bind [OF assms(1) s]) simp
qed

lemma supported_ok:
  "supported_expr gens e \<Longrightarrow> expr_ok gens e" "supported_stmt gens st \<Longrightarrow> stmt_ok gens st"
proof (induction gens e and gens st rule: supported_expr_supported_stmt.induct)
  case (1 gens l)
  then have "lit_denotes l (lower_lit l)" by (simp add: exact_lit_denotes)
  then show ?case by (auto intro!: expr_okI el_lit)
next
  case (2 gens p)
  then show ?case
    by (cases p) (auto simp: lower_path_def last_ident_def length_Suc_conv intro!: expr_okI intro: el_var el_free split: option.splits)
next
  case (3 gens l op r)
  show ?case
    by (rule binary_ok [of gens l r _ "\<lambda>a c. unit_expr (EBinary (lower_bin_op op) a c)"]) (use 3 in \<open>auto intro: el_binary bin_op_denotes\<close>)
next
  case (4 gens op e)
  show ?case
    by (rule unary_ok [of gens e _ "\<lambda>a. unit_expr (EUnary (lower_un_op op) a)"]) (use 4 in \<open>auto intro: el_unary un_op_denotes\<close>)
next
  case (7 gens l r)
  show ?case
    by (rule binary_ok [of gens l r _ "\<lambda>a c. unit_expr (EAssign a c)"]) (use 7 in \<open>auto intro: el_assign\<close>)
next
  case (8 gens e f)
  show ?case
    by (rule unary_ok [of gens e _ "\<lambda>a. unit_expr (EField a f)"]) (use 8 in \<open>auto intro: el_field\<close>)
next
  case (9 gens e i)
  show ?case
    by (rule binary_ok [of gens e i _ "\<lambda>a c. unit_expr (EIndex a c)"]) (use 9 in \<open>auto intro: el_index\<close>)
next
  case (5 gens f args)
  then have args: "list_all (expr_ok gens) args" by (auto simp: list_all_iff)
  show ?case
  proof (cases "call_keyword f \<in> contract_words")
    case True
    then show ?thesis using keyword_ok [OF True args] 5 by (auto split: if_splits)
  next
    case False
    then show ?thesis using call_ok [OF False _ args] 5 by auto
  qed
next
  case (6 gens r m args)
  then show ?case by (auto simp: list_all_iff intro!: method_ok)
next
  case (10 gens e)
  then have "expr_ok gens e" by simp
  then show ?case
    unfolding expr_ok_def lower_syn_expr.simps using elaborates_mono el_paren by metis
next
  case (11 gens r)
  then show ?case
    by (auto intro!: return_ok split: option.splits)
next
  case (12 gens e t)
  then show ?case by (auto intro: cast_ok)
next
  case (13 gens p fs)
  then obtain b name where "p = (b, [(name, False)])" by (cases p) (auto simp: length_Suc_conv)
  moreover from 13 have "list_all (\<lambda>(_, e). expr_ok gens e) fs" by (fastforce simp: list_all_iff)
  ultimately show ?case by (auto intro: struct_ok)
next
  case (14 gens sts)
  then show ?case by (auto simp: list_all_iff intro: block_ok)
next
  case (20 gens p i)
  then show ?case by (auto intro!: local_ok split: option.splits)
next
  case (21 gens e semi)
  then show ?case by (auto intro: expr_stmt_ok)
qed (auto intro!: expr_okI)

section \<open>Statements and blocks of Salt elaborate\<close>

text \<open>
  The scope stack of the lowering also holds the variables of the loops that have ended in the
  current block.
\<close>

definition salt_ok :: "string set \<Rightarrow> stmt_ast \<Rightarrow> bool" where
  "salt_ok gens st \<longleftrightarrow>
     (\<forall>s. rooted (lw_scopes s) \<longrightarrow> current_generic_names s = gens \<longrightarrow>
        declares s (lower_salt_stmt st s)
          (\<lambda>ho \<Delta>. \<exists>h \<Gamma>. ho = Some h \<and> elab_salt gens (resolve (lw_scopes s)) st h \<Gamma> \<and> agree (- loop_var st) \<Delta> \<Gamma>))"

lemma salt_okI:
  assumes "loop_var st = {}"
    and "\<And>s. rooted (lw_scopes s) \<Longrightarrow> current_generic_names s = gens \<Longrightarrow>
      declares s (lower_salt_stmt st s) (\<lambda>ho \<Delta>. \<exists>h. ho = Some h \<and> elab_salt gens (resolve (lw_scopes s)) st h \<Delta>)"
  shows "salt_ok gens st"
  unfolding salt_ok_def
proof (intro allI impI)
  fix s :: lowering assume "rooted (lw_scopes s)" "current_generic_names s = gens"
  from assms(2) [OF this] show "declares s (lower_salt_stmt st s)
      (\<lambda>ho \<Delta>. \<exists>h \<Gamma>. ho = Some h \<and> elab_salt gens (resolve (lw_scopes s)) st h \<Gamma> \<and> agree (- loop_var st) \<Delta> \<Gamma>)"
    by (auto simp: declares_def)
qed

definition if_ok :: "string set \<Rightarrow> salt_if \<Rightarrow> bool" where
  "if_ok gens i \<longleftrightarrow>
     (\<forall>s. rooted (lw_scopes s) \<longrightarrow> current_generic_names s = gens \<longrightarrow>
        elaborates s (lower_salt_if i s) (elab_if gens (resolve (lw_scopes s)) i))"

definition else_ok :: "string set \<Rightarrow> salt_else option \<Rightarrow> bool" where
  "else_ok gens els \<longleftrightarrow>
     (\<forall>s. rooted (lw_scopes s) \<longrightarrow> current_generic_names s = gens \<longrightarrow>
        elaborates s (lower_salt_else els s) (elab_else gens (resolve (lw_scopes s)) els))"

lemma salts_declare:
  assumes "list_all (salt_ok gens) sts" "confined sts" "rooted (lw_scopes s)" "current_generic_names s = gens"
  shows "declares s (lower_salt_stmts sts s) (\<lambda>hs \<Delta>. \<exists>\<Gamma>. elab_salts gens (resolve (lw_scopes s)) sts hs \<Gamma>)"
  using assms
proof (induction sts arbitrary: s)
  case (Cons st sts)
  then have "declares s (lower_salt_stmt st s)
      (\<lambda>ho \<Delta>. \<exists>h \<Gamma>. ho = Some h \<and> elab_salt gens (resolve (lw_scopes s)) st h \<Gamma> \<and> agree (- loop_var st) \<Delta> \<Gamma>)"
    by (simp add: salt_ok_def)
  then obtain h s1 \<Gamma> where st: "lower_salt_stmt st s = Some (Some h, s1)" "rooted (lw_scopes s1)"
    "current_generic_names s1 = gens" "elab_salt gens (resolve (lw_scopes s)) st h \<Gamma>"
    "agree (- loop_var st) (resolve (lw_scopes s1)) \<Gamma>"
    unfolding declares_def using Cons.prems(4) by blast
  from Cons.IH [of s1] Cons.prems st(2,3) obtain hs s2 \<Gamma>' where rest: "lower_salt_stmts sts s1 = Some (hs, s2)"
    "rooted (lw_scopes s2)" "current_generic_names s2 = gens"
    "elab_salts gens (resolve (lw_scopes s1)) sts hs \<Gamma>'"
    by (auto simp: declares_def)
  have "agree (free_salts sts) (resolve (lw_scopes s1)) \<Gamma>" using st(5) Cons.prems(2) by auto
  with elab_salt_cong(2) [OF rest(4)] st(4) obtain \<Delta> where "elab_salts gens (resolve (lw_scopes s)) (st # sts) (h # hs) \<Delta>"
    using es_seq by blast
  then show ?case using Cons.prems(4) st(1) rest by (auto simp: declares_def)
qed (auto simp: declares_def intro: es_end)

lemma salt_block_elaborates:
  assumes "list_all (salt_ok gens) sts" "confined sts" "rooted (lw_scopes s)" "current_generic_names s = gens"
  shows "elaborates s (lower_salt_block sts s) (elab_block gens (resolve (lw_scopes s)) sts)"
proof -
  have e: "resolve (lw_scopes (enter_scope s)) = resolve (lw_scopes s)" by (simp add: fun_eq_iff)
  obtain hs s1 \<Gamma> where "lower_salt_stmts sts (enter_scope s) = Some (hs, s1)" "current_generic_names s1 = gens"
    "elab_salts gens (resolve (lw_scopes s)) sts hs \<Gamma>"
    using salts_declare [OF assms(1,2), of "enter_scope s"] assms(4) e by (auto simp: declares_def)
  moreover from this(1) have "leave_scope s1 = Some (s1\<lparr>lw_scopes := lw_scopes s\<rparr>)"
    using lower_salt_lowers(2) [of sts "enter_scope s" hs s1] leave_entered [OF _ assms(3)] unfolding lowers_def by auto
  ultimately show ?thesis using assms(4) by (auto intro: es_block)
qed

lemma declares_expr:
  assumes "elaborates s m R" "rooted (lw_scopes s)" "\<And>h. R h \<Longrightarrow> Q (wrap h) (resolve (lw_scopes s))"
  shows "declares s (Option.bind m (\<lambda>(h, s). Some (wrap h, s))) Q"
  using assms by (fastforce simp: declares_def elaborates_def)

lemma expr_elaborates:
  "supported_expr gens e \<Longrightarrow> rooted (lw_scopes s) \<Longrightarrow> current_generic_names s = gens \<Longrightarrow>
     elaborates s (lower_syn_expr e s) (elab_expr gens (resolve (lw_scopes s)) e)"
  using supported_ok(1) by (simp add: expr_ok_def)

lemma while_ok:
  assumes "supported_expr gens c" "list_all (salt_ok gens) body" "confined body"
  shows "salt_ok gens (StWhile c body)"
proof (rule salt_okI)
  fix s :: lowering assume s: "rooted (lw_scopes s)" "current_generic_names s = gens"
  obtain h s1 where h: "lower_syn_expr c s = Some (h, s1)" "lw_scopes s1 = lw_scopes s"
    "current_generic_names s1 = gens" "elab_expr gens (resolve (lw_scopes s)) c h"
    using expr_elaborates [OF assms(1) s] unfolding elaborates_def s(2) by blast
  obtain b s2 where "lower_salt_block body s1 = Some (b, s2)" "lw_scopes s2 = lw_scopes s"
    "current_generic_names s2 = gens" "elab_block gens (resolve (lw_scopes s)) body b"
    using salt_block_elaborates [OF assms(2,3), of s1] s h(2,3) unfolding elaborates_def by auto
  then show "declares s (lower_salt_stmt (StWhile c body) s)
      (\<lambda>ho \<Delta>. \<exists>h. ho = Some h \<and> elab_salt gens (resolve (lw_scopes s)) (StWhile c body) h \<Delta>)"
    using h s by (auto simp: declares_def simp del: lower_salt_block.simps intro: es_while)
qed simp

lemma loop_ok:
  assumes "list_all (salt_ok gens) body" "confined body"
  shows "salt_ok gens (StLoop body)"
  by (rule salt_okI, simp, unfold lower_salt_stmt.simps)
    (use declares_expr [OF salt_block_elaborates [OF assms], where wrap = "\<lambda>b. Some (SLoop b)"] es_loop in auto)

lemma for_ok:
  assumes "supported_expr gens iter" "list_all (salt_ok gens) body" "confined body" "x \<notin> free_expr iter"
  shows "salt_ok gens (StFor (SynPatIdent x m) iter body)"
  unfolding salt_ok_def
proof (intro allI impI)
  fix s :: lowering assume s: "rooted (lw_scopes s)" "current_generic_names s = gens"
  let ?v = "next_var_id s"
  define s1 where "s1 = note_name x ?v (bind_name x ?v (s\<lparr>next_var_id := ?v + 1\<rparr>))"
  have s1: "rooted (lw_scopes s1)" "current_generic_names s1 = gens"
    "resolve (lw_scopes s1) = (resolve (lw_scopes s))(x \<mapsto> ?v)"
    using s by (simp_all add: s1_def note_name_def bind_name_def fun_eq_iff resolve_insert)
  obtain h s2 where h: "lower_syn_expr iter s1 = Some (h, s2)" "lw_scopes s2 = lw_scopes s1"
    "current_generic_names s2 = gens" "elab_expr gens (resolve (lw_scopes s1)) iter h"
    using expr_elaborates [OF assms(1) s1(1,2)] unfolding elaborates_def s1(2) by blast
  obtain b s3 where b: "lower_salt_block body s2 = Some (b, s3)" "lw_scopes s3 = lw_scopes s1"
    "current_generic_names s3 = gens" "elab_block gens (resolve (lw_scopes s1)) body b"
    using salt_block_elaborates [OF assms(2,3), of s2] s1 h(2,3) unfolding elaborates_def by auto
  have "lower_salt_stmt (StFor (SynPatIdent x m) iter body) s = Some (Some (SFor ?v x h b), s3)"
    using h(1) b(1) by (simp add: alloc_var_id_def Let_def s1_def del: lower_salt_block.simps)
  moreover have "elab_expr gens (resolve (lw_scopes s)) iter h"
    using elab_cong(1) [OF h(4)] assms(4) s1(3) by auto
  then have "elab_salt gens (resolve (lw_scopes s)) (StFor (SynPatIdent x m) iter body) (SFor ?v x h b) (resolve (lw_scopes s))"
    using b(4) s1(3) by (auto intro: es_for)
  ultimately show "declares s (lower_salt_stmt (StFor (SynPatIdent x m) iter body) s)
      (\<lambda>ho \<Delta>. \<exists>h \<Gamma>. ho = Some h \<and> elab_salt gens (resolve (lw_scopes s)) (StFor (SynPatIdent x m) iter body) h \<Gamma> \<and>
        agree (- loop_var (StFor (SynPatIdent x m) iter body)) \<Delta> \<Gamma>)"
    using b(2,3) s(2) s1 by (auto simp: declares_def)
qed

lemma cond_ok:
  assumes "supported_expr gens c" "list_all (salt_ok gens) body" "else_ok gens els" "confined body"
  shows "if_ok gens (SaltIf c body els)"
  unfolding if_ok_def
proof (intro allI impI)
  fix s :: lowering assume s: "rooted (lw_scopes s)" "current_generic_names s = gens"
  obtain h s1 where h: "lower_syn_expr c s = Some (h, s1)" "lw_scopes s1 = lw_scopes s"
    "current_generic_names s1 = gens" "elab_expr gens (resolve (lw_scopes s)) c h"
    using expr_elaborates [OF assms(1) s] unfolding elaborates_def s(2) by blast
  obtain b s2 where b: "lower_salt_block body s1 = Some (b, s2)" "lw_scopes s2 = lw_scopes s"
    "current_generic_names s2 = gens" "elab_block gens (resolve (lw_scopes s)) body b"
    using salt_block_elaborates [OF assms(2,4), of s1] s h(2,3) unfolding elaborates_def by auto
  obtain el s3 where "lower_salt_else els s2 = Some (el, s3)" "lw_scopes s3 = lw_scopes s"
    "current_generic_names s3 = gens" "elab_else gens (resolve (lw_scopes s)) els el"
    using assms(3) s(1) b(2,3) unfolding else_ok_def elaborates_def by metis
  then show "elaborates s (lower_salt_if (SaltIf c body els) s) (elab_if gens (resolve (lw_scopes s)) (SaltIf c body els))"
    using h b s by (simp add: es_cond del: lower_salt_block.simps)
qed

lemma supported_salt_ok:
  "supported_salt gens st \<Longrightarrow> salt_ok gens st"
  "supported_if gens i \<Longrightarrow> if_ok gens i"
  "supported_else gens el \<Longrightarrow> else_ok gens (Some el)"
proof (induction gens st and gens i and gens el rule: supported_salt_supported_if_supported_else.induct)
  case (1 gens st)
  then have "stmt_ok gens st" using supported_ok(2) by simp
  then show ?case by (intro salt_okI) (fastforce simp: stmt_ok_def declares_def intro: es_syn)+
next
  case (2 gens e semi)
  then show ?case
    by (intro salt_okI, simp, unfold lower_salt_stmt.simps)
      (use declares_expr [OF expr_elaborates, where wrap = "\<lambda>h. Some (stmt_of_expr (if semi then SSemi else SExpr) h)"]
      es_expr in auto)
next
  case (3 gens r)
  then have "case r of None \<Rightarrow> True | Some e \<Rightarrow> expr_ok gens e" using supported_ok(1) by (auto split: option.splits)
  then show ?case
    by (intro salt_okI, simp, unfold lower_salt_stmt.simps)
      (use declares_expr [OF opt_elaborates, where wrap = "\<lambda>v. Some (SReturn v)"] es_return in auto)
next
  case (4 gens i)
  then show ?case
    by (intro salt_okI, simp, unfold lower_salt_stmt.simps if_ok_def)
      (use declares_expr [where wrap = "\<lambda>h. Some (SExpr h)"] es_if in auto)
next
  case (5 gens c body)
  then show ?case by (auto simp: list_all_iff intro!: while_ok)
next
  case (6 gens body)
  then show ?case by (auto simp: list_all_iff intro!: loop_ok)
next
  case (9 gens p iter body)
  then show ?case by (cases p) (auto simp: list_all_iff intro!: for_ok)
next
  case (11 gens c body els)
  then have "else_ok gens els"
    by (auto simp: else_ok_def es_no_else split: option.splits)
  then show ?case using 11 by (auto simp: list_all_iff intro!: cond_ok)
next
  case (12 gens body)
  then have "list_all (salt_ok gens) body" "confined body" by (auto simp: list_all_iff)
  note block = salt_block_elaborates [OF this]
  show ?case
    unfolding else_ok_def lower_salt_else.simps
    by (intro allI impI, rule elaborates_bind [OF block])
      (simp_all add: es_else del: lower_salt_block.simps)
next
  case (13 gens i)
  then have i: "if_ok gens i" by simp
  show ?case
    unfolding else_ok_def lower_salt_else.simps
  proof (intro allI impI)
    fix s :: lowering assume "rooted (lw_scopes s)" "current_generic_names s = gens"
    with i have "elaborates s (lower_salt_if i s) (elab_if gens (resolve (lw_scopes s)) i)" by (simp add: if_ok_def)
    then show "elaborates s (Option.bind (lower_salt_if i s) (\<lambda>(h, s). Some (Some h, s)))
        (elab_else gens (resolve (lw_scopes s)) (Some (ElseIf i)))"
      by (rule elaborates_bind) (simp add: es_else_if)
  qed
qed (auto simp: declares_def intro!: salt_okI intro: es_break es_continue)

end
