(* ===== verification/Lower_Items.thy ===== *)
theory Lower_Items
  imports Elaboration
begin

text \<open>
  Lowering of items and files (\<open>salt-front/src/hir/lower.rs\<close>): every item but a concept
  gets a fresh definition id, signatures are resolved with the generic names in scope, and function
  bodies are lowered in a fresh scope stack that binds the parameters to the variable ids 0, 1, ...
  Methods of traits and impls and extern functions get no body.
\<close>

section \<open>Generics and signatures\<close>

definition generic_name :: "generic_ast \<Rightarrow> string" where
  "generic_name p = (case p of GenTypeParam name _ \<Rightarrow> name | GenConstParam name _ \<Rightarrow> name)"

definition collect_generic_names :: "generic_ast list option \<Rightarrow> string set" where
  "collect_generic_names g = (case g of None \<Rightarrow> {} | Some ps \<Rightarrow> set (map generic_name ps))"

definition read_type :: "string set \<Rightarrow> ty \<Rightarrow> syn_type \<Rightarrow> ty option" where
  "read_type gens d t = map_option (unwrap_or d) (from_syn_with_generics gens t)"

definition read_opt_type :: "string set \<Rightarrow> ty \<Rightarrow> syn_type option \<Rightarrow> ty option" where
  "read_opt_type gens d t = (case t of None \<Rightarrow> Some d | Some u \<Rightarrow> read_type gens d u)"

fun traverse :: "('a \<Rightarrow> 'b option) \<Rightarrow> 'a list \<Rightarrow> 'b list option" where
  "traverse f [] = Some []"
| "traverse f (x # xs) = do { y \<leftarrow> f x; ys \<leftarrow> traverse f xs; Some (y # ys) }"

definition lower_generic :: "string set \<Rightarrow> generic_ast \<Rightarrow> generic_param option" where
  "lower_generic gens p = (case p of
       GenTypeParam name _ \<Rightarrow> Some (GenericType name)
     | GenConstParam name t \<Rightarrow> map_option (GenericConst name) (read_type gens Unit t))"

definition lower_generics :: "generic_ast list option \<Rightarrow> string set \<Rightarrow> generic_param list option" where
  "lower_generics g gens = (case g of None \<Rightarrow> Some [] | Some ps \<Rightarrow> traverse (lower_generic gens) ps)"

definition lower_param :: "string set \<Rightarrow> ty \<Rightarrow> string \<times> syn_type option \<Rightarrow> param option" where
  "lower_param gens d = (\<lambda>(name, t).
     map_option (\<lambda>u. \<lparr>param_name = name, param_ty = u\<rparr>) (read_opt_type gens d t))"

text \<open>The signature of a function without a body: trait and impl methods, extern functions.\<close>

definition lower_signature ::
  "string set \<Rightarrow> ty \<Rightarrow> generic_ast list option \<Rightarrow> (string \<times> syn_type option) list \<Rightarrow> syn_type option \<Rightarrow> fn_item option" where
  "lower_signature gens d generics args ret = do {
     inputs \<leftarrow> traverse (lower_param gens d) args;
     output \<leftarrow> read_opt_type gens Unit ret;
     gs \<leftarrow> lower_generics generics gens;
     Some \<lparr>fn_inputs = inputs, fn_output = output, fn_body = None, fn_generics = gs, fn_is_async = False\<rparr>
   }"

section \<open>Items\<close>

definition bind_param :: "param \<Rightarrow> lowering \<Rightarrow> lowering" where
  "bind_param p s =
     (let (v, s) = alloc_var_id s in note_name (param_name p) v (bind_name (param_name p) v s))"

definition start_body :: "string set \<Rightarrow> lowering \<Rightarrow> lowering" where
  "start_body gens s = s\<lparr>current_generic_names := gens, lw_scopes := scope_new, next_var_id := 0\<rparr>"

definition lower_fn_item :: "salt_fn \<Rightarrow> lowering \<Rightarrow> (item option \<times> lowering) option" where
  "lower_fn_item f s = (
     let (did, s) = alloc_def_id s;
         gens = collect_generic_names (sf_generics f)
     in do {
       sig \<leftarrow> lower_signature gens SelfType (sf_generics f) (sf_args f) (sf_ret f);
       (body, s) \<leftarrow> lower_salt_block (sf_body f) (fold bind_param (fn_inputs sig) (start_body gens s));
       Some (Some \<lparr>item_id = did, item_name = sf_name f, item_vis = (if sf_pub f then Public else Private),
         item_kind_of = ItemFn (sig\<lparr>fn_body := Some body\<rparr>)\<rparr>, s)
     })"

definition public_item :: "def_id \<Rightarrow> string \<Rightarrow> item_kind \<Rightarrow> item" where
  "public_item did name k = \<lparr>item_id = did, item_name = name, item_vis = Public, item_kind_of = k\<rparr>"

definition lower_struct_item :: "struct_ast \<Rightarrow> lowering \<Rightarrow> (item option \<times> lowering) option" where
  "lower_struct_item st s = (
     let (did, s) = alloc_def_id s;
         gens = collect_generic_names (sa_generics st)
     in do {
       fs \<leftarrow> traverse (\<lambda>(name, t). map_option (\<lambda>u. \<lparr>field_name = name, field_ty = u, field_vis = Public\<rparr>)
               (read_type gens Unit t)) (sa_fields st);
       gs \<leftarrow> lower_generics (sa_generics st) gens;
       Some (Some (public_item did (sa_name st) (ItemStruct \<lparr>st_fields = fs, st_generics = gs, st_invariants = []\<rparr>)), s)
     })"

definition lower_variant :: "string set \<Rightarrow> string \<times> syn_type option \<Rightarrow> variant option" where
  "lower_variant gens = (\<lambda>(name, t).
     map_option (\<lambda>d. \<lparr>variant_name = name, variant_data_of = d\<rparr>)
       (case t of None \<Rightarrow> Some VariantUnit
        | Some u \<Rightarrow> map_option (\<lambda>v. VariantTuple [v]) (read_type gens Unit u)))"

definition lower_enum_item :: "enum_ast \<Rightarrow> lowering \<Rightarrow> (item option \<times> lowering) option" where
  "lower_enum_item e s = (
     let (did, s) = alloc_def_id s;
         gens = collect_generic_names (ea_generics e)
     in do {
       vs \<leftarrow> traverse (lower_variant gens) (ea_variants e);
       gs \<leftarrow> lower_generics (ea_generics e) gens;
       Some (Some (public_item did (ea_name e) (ItemEnum \<lparr>en_variants = vs, en_generics = gs\<rparr>)), s)
     })"

definition lower_trait_item :: "trait_ast \<Rightarrow> lowering \<Rightarrow> (item option \<times> lowering) option" where
  "lower_trait_item t s = (
     let (did, s) = alloc_def_id s;
         gens = collect_generic_names (ta_generics t)
     in do {
       ms \<leftarrow> traverse (\<lambda>m. map_option (TraitFn (ms_name m))
               (lower_signature (gens \<union> collect_generic_names (ms_generics m)) SelfType (ms_generics m)
                  (ms_args m) (ms_ret m))) (ta_methods t);
       gs \<leftarrow> lower_generics (ta_generics t) gens;
       Some (Some (public_item did (ta_name t) (ItemTrait \<lparr>tr_generics = gs, tr_items = ms\<rparr>)), s)
     })"

definition lower_methods :: "string set \<Rightarrow> salt_fn list \<Rightarrow> impl_member list option" where
  "lower_methods gens ms = traverse (\<lambda>m. map_option (ImplFn (sf_name m))
     (lower_signature (gens \<union> collect_generic_names (sf_generics m)) SelfType (sf_generics m)
        (sf_args m) (sf_ret m))) ms"

definition lower_impl ::
  "def_id \<Rightarrow> string \<Rightarrow> ty option \<Rightarrow> syn_type \<Rightarrow> salt_fn list \<Rightarrow> generic_ast list option \<Rightarrow> item option" where
  "lower_impl did name trait target ms generics = (
     let gens = collect_generic_names generics
     in do {
       self \<leftarrow> read_type gens Unit target;
       items \<leftarrow> lower_methods gens ms;
       gs \<leftarrow> lower_generics generics gens;
       Some (public_item did name (ItemImpl
         \<lparr>im_generics = gs, im_trait_ref = trait, im_self_ty = self, im_items = items\<rparr>))
     })"

definition lower_impl_item :: "impl_ast \<Rightarrow> lowering \<Rightarrow> (item option \<times> lowering) option" where
  "lower_impl_item i s = (
     let (did, s) = alloc_def_id s
     in case i of
          ImplMethods target ms gs \<Rightarrow> map_option (\<lambda>it. (Some it, s)) (lower_impl did [] None target ms gs)
        | ImplTrait name target ms gs \<Rightarrow>
            map_option (\<lambda>it. (Some it, s)) (lower_impl did name (Some (Struct name)) target ms gs)
        | ImplConcept _ _ \<Rightarrow> Some (None, s))"

definition lower_extern_fn_item :: "extern_ast \<Rightarrow> lowering \<Rightarrow> (item option \<times> lowering) option" where
  "lower_extern_fn_item e s = (
     let (did, s) = alloc_def_id s
     in do {
       sig \<leftarrow> lower_signature {} Unit None (xa_args e) (xa_ret e);
       Some (Some \<lparr>item_id = did, item_name = xa_name e, item_vis = (if xa_pub e then Public else Private),
         item_kind_of = ItemFn sig\<rparr>, s)
     })"

definition lower_global_item :: "string \<Rightarrow> syn_type \<Rightarrow> lowering \<Rightarrow> (item option \<times> lowering) option" where
  "lower_global_item name t s = (
     let (did, s) = alloc_def_id s
     in do {
       u \<leftarrow> read_type {} Unit t;
       Some (Some (public_item did name (ItemGlobal \<lparr>gl_ty = u, gl_init = None\<rparr>)), s)
     })"

definition lower_item :: "item_ast \<Rightarrow> lowering \<Rightarrow> (item option \<times> lowering) option" where
  "lower_item it s = (case it of
       FnItem f \<Rightarrow> lower_fn_item f s
     | StructItem st \<Rightarrow> lower_struct_item st s
     | EnumItem e \<Rightarrow> lower_enum_item e s
     | TraitItem t \<Rightarrow> lower_trait_item t s
     | ImplItem i \<Rightarrow> lower_impl_item i s
     | ExternFnItem e \<Rightarrow> lower_extern_fn_item e s
     | GlobalItem name t \<Rightarrow> lower_global_item name t s
     | ConstItem name t \<Rightarrow> lower_global_item name t s
     | ConceptItem _ \<Rightarrow> Some (None, s))"

fun lower_file :: "item_ast list \<Rightarrow> lowering \<Rightarrow> (item list \<times> lowering) option" where
  "lower_file [] s = Some ([], s)"
| "lower_file (it # its) s = do {
     (h, s) \<leftarrow> lower_item it s;
     (hs, s) \<leftarrow> lower_file its s;
     Some (case h of Some h \<Rightarrow> h # hs | None \<Rightarrow> hs, s)
   }"

section \<open>Function bodies\<close>

lemma traverse_length: "traverse f xs = Some ys \<Longrightarrow> length ys = length xs"
  by (induction xs arbitrary: ys) (auto simp: Option.bind_eq_Some_conv)

lemma bind_param_steps:
  "rooted (lw_scopes s) \<Longrightarrow> steps s (bind_param p s) [(param_name p, next_var_id s)] [next_var_id s]"
  using steps_bind by (simp add: bind_param_def alloc_var_id_def)

lemma bind_params_steps:
  "rooted (lw_scopes s) \<Longrightarrow>
     \<exists>ds vs. steps s (fold bind_param ps s) ds vs \<and> length vs = length ps \<and>
       vs = map (\<lambda>i. next_var_id s + of_nat i) [0..<length ps] \<and> ds = zip (map param_name ps) vs"
proof (induction ps arbitrary: s)
  case (Cons p ps)
  note 1 = bind_param_steps [OF Cons.prems, of p]
  obtain ds vs where r: "steps (bind_param p s) (fold bind_param ps (bind_param p s)) ds vs"
    "vs = map (\<lambda>i. next_var_id (bind_param p s) + of_nat i) [0..<length ps]" "ds = zip (map param_name ps) vs"
    using Cons.IH [OF rooted_steps [OF 1 Cons.prems]] by blast
  let ?ws = "map (\<lambda>i. next_var_id s + of_nat i) [0..<length (p # ps)]"
  have "?ws = map (\<lambda>i. next_var_id s + of_nat i) [0..<1 + length ps]" by simp
  then have ws: "?ws = next_var_id s # vs"
    unfolding map_upt_add r(2) stepsD(2) [OF 1] by simp
  have "steps s (fold bind_param (p # ps) s) (zip (map param_name (p # ps)) ?ws) ?ws"
    using steps_trans [OF 1 r(1)] unfolding ws r(3) by simp
  then show ?case by (intro exI conjI) auto
qed auto

lemma distinct_ids: "k \<le> 2 ^ 32 \<Longrightarrow> distinct (map (of_nat :: nat \<Rightarrow> var_id) [0..<k])"
  by (auto simp: distinct_map inj_on_def unat_of_nat dest!: arg_cong [where f = unat])

lemma map_of_nat_upt: "map (\<lambda>i. (of_nat k :: var_id) + of_nat i) [0..<n] = map of_nat [k..<k + n]"
  by (induction n) auto

lemma lower_fn_body:
  assumes "lower_fn_item f s = Some (Some it, s')" "item_kind_of it = ItemFn fn"
  defines "ids \<equiv> map of_nat [0..<length (sf_args f)]"
  shows "\<exists>s0 b. lower_salt_block (sf_body f) s0 = Some (b, s') \<and> fn_body fn = Some b \<and> rooted (lw_scopes s0) \<and>
    current_generic_names s0 = collect_generic_names (sf_generics f) \<and>
    length (fn_inputs fn) = length (sf_args f) \<and>
    steps (start_body (collect_generic_names (sf_generics f)) (snd (alloc_def_id s))) s0
      (zip (map param_name (fn_inputs fn)) ids) ids"
proof -
  let ?s = "start_body (collect_generic_names (sf_generics f)) (snd (alloc_def_id s))"
  obtain sig b where sig: "lower_signature (collect_generic_names (sf_generics f)) SelfType (sf_generics f) (sf_args f) (sf_ret f) = Some sig"
    and b: "lower_salt_block (sf_body f) (fold bind_param (fn_inputs sig) ?s) = Some (b, s')"
    and fn: "fn = sig\<lparr>fn_body := Some b\<rparr>"
    using assms(1,2) by (auto simp: lower_fn_item_def alloc_def_id_def Option.bind_eq_Some_conv Let_def simp del: lower_salt_block.simps)
  have n: "length (fn_inputs sig) = length (sf_args f)"
    using sig by (auto simp: lower_signature_def Option.bind_eq_Some_conv dest: traverse_length)
  have r: "rooted (lw_scopes ?s)" "next_var_id ?s = 0" "current_generic_names ?s = collect_generic_names (sf_generics f)"
    by (simp_all add: start_body_def scope_new_def)
  obtain ds vs where st: "steps ?s (fold bind_param (fn_inputs sig) ?s) ds vs" "vs = ids"
    "ds = zip (map param_name (fn_inputs sig)) vs"
    using bind_params_steps [OF r(1), of "fn_inputs sig"] by (auto simp: r(2) n ids_def)
  then show ?thesis
    using b fn n r rooted_steps [OF st(1) r(1)] stepsD(5) [OF st(1)] by auto
qed

lemma lowered_fn_body:
  assumes "lower_fn_item f s = Some (Some it, s')" "item_kind_of it = ItemFn fn"
    and "length (sf_args f) + length (block_binders (the (fn_body fn))) \<le> 2 ^ 32"
  shows "\<exists>hs. fn_body fn = Some (Block hs None Unit) \<and>
    length (fn_inputs fn) = length (sf_args f) \<and>
    distinct (map of_nat [0..<length (sf_args f)] @ concat (map stmt_binders hs)) \<and>
    set (concat (map stmt_binders hs)) =
      of_nat ` {length (sf_args f)..<length (sf_args f) + length (concat (map stmt_binders hs))} \<and>
    scoped_stmts False (of_nat ` {..<length (sf_args f)}) hs"
proof -
  let ?k = "length (sf_args f)"
  let ?ids = "map of_nat [0..<?k] :: var_id list"
  obtain s0 b where b: "lower_salt_block (sf_body f) s0 = Some (b, s')" "fn_body fn = Some b"
    and r: "rooted (lw_scopes s0)" and n: "length (fn_inputs fn) = ?k"
    and st: "steps (start_body (collect_generic_names (sf_generics f)) (snd (alloc_def_id s))) s0
        (zip (map param_name (fn_inputs fn)) ?ids) ?ids"
    using lower_fn_body [OF assms(1,2)] by blast
  obtain hs where hs: "b = Block hs None Unit"
    using b(1) by (auto simp: Option.bind_eq_Some_conv)
  let ?vs = "concat (map stmt_binders hs)"
  have low: "lowers s0 s' [] ?vs (\<lambda>V. scoped_block False V b)"
    using lower_salt_lowers(3) [OF b(1) r] by (simp add: hs)
  have zero: "next_var_id (start_body (collect_generic_names (sf_generics f)) (snd (alloc_def_id s))) = 0"
    by (simp add: start_body_def)
  have ms: "mset ?vs = mset (map (\<lambda>i. of_nat ?k + of_nat i) [0..<length ?vs])"
    using low stepsD(2) [OF st] stepsD(3) [of s0 s'] unfolding lowers_def zero by auto
  have vs: "mset ?vs = mset (map of_nat [?k..<?k + length ?vs])"
    unfolding ms map_of_nat_upt by (rule refl)
  then have "mset (?ids @ ?vs) = mset (map of_nat ([0..<?k] @ [?k..<?k + length ?vs]))" by simp
  also have "[0..<?k] @ [?k..<?k + length ?vs] = [0..<?k + length ?vs]"
    using upt_add_eq_append [of 0 ?k] by simp
  finally have eq: "mset (?ids @ ?vs) = mset (map of_nat [0..<?k + length ?vs])" .
  have "?k + length ?vs \<le> 2 ^ 32" using assms(3) by (simp add: b(2) hs)
  then have "distinct (?ids @ ?vs)"
    unfolding mset_eq_imp_distinct_iff [OF eq] by (rule distinct_ids)
  moreover have "visible s0 \<subseteq> of_nat ` {..<?k}"
    using visible_steps [OF st] by (force simp: start_body_def scope_new_def ran_def resolve_def dest: set_zip_rightD)
  then have "scoped_stmts False (of_nat ` {..<?k}) hs"
    using low scoped_mono(4) [of False "visible s0" b] by (auto simp: lowers_def hs)
  moreover have "set ?vs = of_nat ` {?k..<?k + length ?vs}"
    using mset_eq_setD [OF vs] by simp
  ultimately show ?thesis using b(2) hs n by blast
qed

text \<open>
  Property C8: every function body the lowering returns is well formed, whatever the source. The
  parameters have the variable ids \<open>0, 1, ...\<close> and the body binds the following ids, each
  exactly once; every variable the body mentions is a parameter or bound by a \<open>let\<close> or
  \<open>for\<close> on the way to the mention; and the body is a statement list without a value. The
  hypothesis is that the function has at most \<open>2\<^sup>3\<^sup>2\<close> binders, the range of a
  variable id.
\<close>

theorem lowered_fn_wellformed:
  assumes "lower_fn_item f s = Some (Some it, s')" "item_kind_of it = ItemFn fn"
    and "length (sf_args f) + length (block_binders (the (fn_body fn))) \<le> 2 ^ 32"
  shows "\<exists>hs. fn_body fn = Some (Block hs None Unit) \<and>
    length (fn_inputs fn) = length (sf_args f) \<and>
    distinct (map of_nat [0..<length (sf_args f)] @ concat (map stmt_binders hs)) \<and>
    set (concat (map stmt_binders hs)) =
      of_nat ` {length (sf_args f)..<length (sf_args f) + length (concat (map stmt_binders hs))} \<and>
    scoped_stmts False (of_nat ` {..<length (sf_args f)}) hs"
  using lowered_fn_body [OF assms] .

text \<open>
  A witness, also used below: \<open>fn f(n: i64) { let x = n; while x < 10 { let x = x + n;
  yield_now(x); } for i in xs { g(i, x); } return x; }\<close>
\<close>

definition var_e :: "string \<Rightarrow> syn_expr" where
  "var_e x = SynPath (False, [(x, False)])"

definition demo_source :: salt_fn where
  "demo_source = \<lparr>sf_attributes = [], sf_pub = True, sf_name = ''f'', sf_generics = None,
     sf_args = [(''n'', Some (TyPath [(''i64'', [])]))], sf_ret = None,
     sf_body =
       [StSyn (SynLocal (SynPatIdent ''x'' True) (Some (var_e ''n''))),
        StWhile (SynBinary (var_e ''x'') OpLt (SynLit (SynInt 10)))
          [StSyn (SynLocal (SynPatIdent ''x'' False) (Some (SynBinary (var_e ''x'') OpAdd (var_e ''n'')))),
           StExpr (SynCall (var_e ''yield_now'') [var_e ''x'']) True],
        StFor (SynPatIdent ''i'' False) (var_e ''xs'') [StExpr (SynCall (var_e ''g'') [var_e ''i'', var_e ''x'']) True],
        StReturn (Some (var_e ''x''))]\<rparr>"

definition demo_body :: "stmt list" where
  "demo_body =
     [SLocal (PBind ''x'' 1 True) None (Some (unit_expr (EVar 0))),
      SWhile (unit_expr (EBinary BinLt (unit_expr (EVar 1)) (unit_expr (ELiteral (LitInt 10)))))
        (Block [SLocal (PBind ''x'' 2 False) None (Some (unit_expr (EBinary BinAdd (unit_expr (EVar 1)) (unit_expr (EVar 0))))),
                SSemi (unit_expr (EYield (Some (unit_expr (EVar 2)))))] None Unit),
      SFor 3 ''i'' (unit_expr (EUnresolvedIdent ''xs''))
        (Block [SSemi (unit_expr (ECall (unit_expr (EUnresolvedIdent ''g'')) [unit_expr (EVar 3), unit_expr (EVar 1)]))] None Unit),
      SReturn (Some (unit_expr (EVar 1)))]"

lemmas lowering_eval = alloc_def_id_def alloc_var_id_def bind_name_def note_name_def enter_scope_def leave_scope_def
  start_body_def bind_param_def lower_path_def last_ident_def lower_local_def stmt_of_expr_def call_keyword_def get_ident_def
  push_scope_def pop_scope_def scope_insert_def scope_new_def resolve_def lower_bin_op_def lower_lit_def base10_parse_i64_def

lemma demo_lowered:
  "\<exists>it s'. lower_fn_item demo_source lowering_new = Some (Some it, s') \<and>
     (\<exists>fn. item_kind_of it = ItemFn fn \<and> fn_body fn = Some (Block demo_body None Unit))"
  by (simp add: lower_fn_item_def demo_source_def demo_body_def lowering_new_def var_e_def lowering_eval Let_def
      collect_generic_names_def lower_signature_def lower_param_def read_opt_type_def read_type_def unwrap_or_def
      path_type_def primitive_type_def lower_generics_def)

theorem lowered_fn_wellformed_witness:
  "distinct (map of_nat [0..<1] @ concat (map stmt_binders demo_body)) \<and> scoped_stmts False {0} demo_body"
proof -
  obtain it s' fn where "lower_fn_item demo_source lowering_new = Some (Some it, s')"
    "item_kind_of it = ItemFn fn" and b: "fn_body fn = Some (Block demo_body None Unit)"
    using demo_lowered by blast
  moreover have "length (sf_args demo_source) = 1" by (simp add: demo_source_def)
  moreover have "length (concat (map stmt_binders demo_body)) = 3" by (simp add: demo_body_def)
  ultimately show ?thesis
    using lowered_fn_wellformed [of demo_source lowering_new it s' fn] by (auto simp: lessThan_Suc)
qed

text \<open>
  Property C12: on the supported constructs the lowering implements lexical scoping. In any state of the
  scope stack, lowering a block of supported statements returns, without a panic, the HIR of the
  elaboration rules in the environment that the stack stands for: every name is the variable of its
  innermost declaration in scope, a declaration is visible in the rest of its block only, the variable
  of a \<open>for\<close> in the body of the loop only, and names bound nowhere stay unresolved; the
  enclosing scopes are as before. A block is supported if it has none of the constructs that are lowered
  to a stub, its integer literals fit \<open>i64\<close>, and no \<open>for\<close> variable of it or of
  a block inside is mentioned in the loop's own iterator or, free, after the loop in the same block:
  there the lowering declares it too early and too long (\<open>loop_variable_escapes\<close> below).
\<close>

theorem lowering_refines_elaboration:
  assumes "list_all (supported_salt (current_generic_names s)) body" "confined body" "rooted (lw_scopes s)"
  shows "\<exists>b s'. lower_salt_block body s = Some (b, s') \<and>
    elab_block (current_generic_names s) (resolve (lw_scopes s)) body b \<and> lw_scopes s' = lw_scopes s"
proof -
  have "list_all (salt_ok (current_generic_names s)) body"
    using assms(1) supported_salt_ok(1) by (auto simp: list_all_iff)
  from salt_block_elaborates [OF this assms(2,3) refl] show ?thesis
    unfolding elaborates_def by blast
qed

theorem lowering_refines_elaboration_witness:
  "\<exists>b s'. lower_salt_block (sf_body demo_source) (bind_name ''n'' 0 lowering_new) = Some (b, s') \<and>
     elab_block {} [''n'' \<mapsto> 0] (sf_body demo_source) b"
proof -
  let ?s = "bind_name ''n'' 0 lowering_new"
  have "list_all (supported_salt (current_generic_names ?s)) (sf_body demo_source)" "confined (sf_body demo_source)"
      "rooted (lw_scopes ?s)"
    by (simp_all add: demo_source_def var_e_def exact_lit_def base10_parse_i64_def exact_op_def call_keyword_def get_ident_def
        bind_name_def lowering_new_def scope_new_def)
  moreover have "resolve (lw_scopes ?s) = [''n'' \<mapsto> 0]" "current_generic_names ?s = {}"
    by (auto simp: bind_name_def lowering_new_def scope_new_def scope_insert_def resolve_def fun_eq_iff)
  ultimately show ?thesis using lowering_refines_elaboration [of ?s "sf_body demo_source"] by metis
qed

section \<open>Files\<close>

text \<open>Which source items have a HIR item, and what that item has in common with its source.\<close>

definition kept :: "item_ast \<Rightarrow> bool" where
  "kept it = (case it of ConceptItem _ \<Rightarrow> False | ImplItem (ImplConcept _ _) \<Rightarrow> False | _ \<Rightarrow> True)"

definition member_names :: "impl_member list \<Rightarrow> string list" where
  "member_names ms = map (\<lambda>m. case m of ImplFn name _ \<Rightarrow> name) ms"

definition describes :: "item_ast \<Rightarrow> item \<Rightarrow> bool" where
  "describes it h = (case it of
       FnItem f \<Rightarrow> item_name h = sf_name f \<and> (item_vis h = Public \<longleftrightarrow> sf_pub f) \<and>
         (\<exists>fn. item_kind_of h = ItemFn fn \<and> map param_name (fn_inputs fn) = map fst (sf_args f) \<and> fn_body fn \<noteq> None)
     | StructItem st \<Rightarrow> item_name h = sa_name st \<and>
         (\<exists>d. item_kind_of h = ItemStruct d \<and> map field_name (st_fields d) = map fst (sa_fields st))
     | EnumItem e \<Rightarrow> item_name h = ea_name e \<and>
         (\<exists>d. item_kind_of h = ItemEnum d \<and> map variant_name (en_variants d) = map fst (ea_variants e))
     | TraitItem t \<Rightarrow> item_name h = ta_name t \<and>
         (\<exists>d. item_kind_of h = ItemTrait d \<and>
            map (\<lambda>m. case m of TraitFn name _ \<Rightarrow> name) (tr_items d) = map ms_name (ta_methods t))
     | ImplItem (ImplMethods _ ms _) \<Rightarrow> item_name h = [] \<and>
         (\<exists>d. item_kind_of h = ItemImpl d \<and> im_trait_ref d = None \<and> member_names (im_items d) = map sf_name ms)
     | ImplItem (ImplTrait name _ ms _) \<Rightarrow> item_name h = name \<and>
         (\<exists>d. item_kind_of h = ItemImpl d \<and> im_trait_ref d = Some (Struct name) \<and>
            member_names (im_items d) = map sf_name ms)
     | ImplItem (ImplConcept _ _) \<Rightarrow> False
     | ExternFnItem e \<Rightarrow> item_name h = xa_name e \<and>
         (\<exists>fn. item_kind_of h = ItemFn fn \<and> map param_name (fn_inputs fn) = map fst (xa_args e) \<and> fn_body fn = None)
     | GlobalItem name _ \<Rightarrow> item_name h = name \<and> (\<exists>d. item_kind_of h = ItemGlobal d)
     | ConstItem name _ \<Rightarrow> item_name h = name \<and> (\<exists>d. item_kind_of h = ItemGlobal d)
     | ConceptItem _ \<Rightarrow> False)"

lemma traverse_map:
  "traverse f xs = Some ys \<Longrightarrow> (\<And>x y. f x = Some y \<Longrightarrow> g y = h x) \<Longrightarrow> map g ys = map h xs"
  by (induction xs arbitrary: ys) (auto simp: Option.bind_eq_Some_conv)

lemma signature_params:
  "lower_signature gens d generics args ret = Some fn \<Longrightarrow>
     map param_name (fn_inputs fn) = map fst args \<and> fn_body fn = None"
  by (auto simp: lower_signature_def lower_param_def Option.bind_eq_Some_conv
      elim!: traverse_map split: prod.splits)

lemma methods_names: "lower_methods gens ms = Some ims \<Longrightarrow> member_names ims = map sf_name ms"
  unfolding lower_methods_def member_names_def by (erule traverse_map) auto

text \<open>An item with a HIR item takes the next definition id, and no item takes more than one.\<close>

lemma lower_item_id:
  assumes "lower_item it s = Some (r, s')"
  shows "(case r of Some h \<Rightarrow> kept it \<and> item_id h = next_def_id s \<and> describes it h \<and> next_def_id s' = next_def_id s + 1
    | None \<Rightarrow> \<not> kept it \<and> (next_def_id s' = next_def_id s \<or> next_def_id s' = next_def_id s + 1))"
proof (cases it)
  case (FnItem f)
  then obtain h where h: "r = Some h" "item_id h = next_def_id s" "item_name h = sf_name f"
      "item_vis h = Public \<longleftrightarrow> sf_pub f"
    and l: "lower_fn_item f s = Some (Some h, s')" and k: "\<exists>fn. item_kind_of h = ItemFn fn"
    using assms by (auto simp: lower_item_def lower_fn_item_def alloc_def_id_def Option.bind_eq_Some_conv Let_def
        simp del: lower_salt_block.simps)
  from k obtain fn where fn: "item_kind_of h = ItemFn fn" by blast
  obtain s0 b where b: "lower_salt_block (sf_body f) s0 = Some (b, s')" "fn_body fn = Some b" "rooted (lw_scopes s0)"
    and st: "next_def_id s0 = next_def_id (start_body (collect_generic_names (sf_generics f)) (snd (alloc_def_id s)))"
    using lower_fn_body [OF l fn] stepsD(4) by blast
  have "next_def_id s' = next_def_id s0"
    using lower_salt_lowers(3) [OF b(1,3)] stepsD(4) unfolding lowers_def by blast
  moreover have "map param_name (fn_inputs fn) = map fst (sf_args f)"
    using l fn by (auto simp: lower_fn_item_def alloc_def_id_def Option.bind_eq_Some_conv Let_def
        simp del: lower_salt_block.simps dest!: signature_params)
  ultimately show ?thesis
    using h fn b(2) st FnItem by (auto simp: kept_def describes_def start_body_def alloc_def_id_def)
next
  case (StructItem st)
  then show ?thesis
    using assms by (auto simp: lower_item_def lower_struct_item_def alloc_def_id_def public_item_def kept_def describes_def
        Option.bind_eq_Some_conv Let_def elim!: traverse_map)
next
  case (EnumItem e)
  then show ?thesis
    using assms by (auto simp: lower_item_def lower_enum_item_def lower_variant_def alloc_def_id_def public_item_def kept_def
        describes_def Option.bind_eq_Some_conv Let_def elim!: traverse_map)
next
  case (TraitItem t)
  then show ?thesis
    using assms by (auto simp: lower_item_def lower_trait_item_def alloc_def_id_def public_item_def kept_def
        describes_def Option.bind_eq_Some_conv Let_def elim!: traverse_map)
next
  case (ImplItem i)
  then show ?thesis
    using assms by (cases i) (auto simp: lower_item_def lower_impl_item_def lower_impl_def alloc_def_id_def public_item_def
        kept_def describes_def Option.bind_eq_Some_conv Let_def dest!: methods_names)
next
  case (ExternFnItem e)
  then show ?thesis
    using assms by (auto simp: lower_item_def lower_extern_fn_item_def alloc_def_id_def kept_def
        describes_def Option.bind_eq_Some_conv Let_def dest!: signature_params)
qed (use assms in \<open>auto simp: lower_item_def lower_global_item_def alloc_def_id_def public_item_def kept_def
        describes_def Option.bind_eq_Some_conv Let_def\<close>)

lemma lower_file_ids:
  "lower_file its s = Some (hs, s') \<Longrightarrow>
     \<exists>ks. map item_id hs = map (\<lambda>k. next_def_id s + of_nat k) ks \<and> sorted_wrt (<) ks \<and>
       set ks \<subseteq> {..<length its} \<and> list_all2 describes (filter kept its) hs"
proof (induction its arbitrary: s hs)
  case (Cons it its)
  then obtain r s1 hs' where r: "lower_item it s = Some (r, s1)" and tl: "lower_file its s1 = Some (hs', s')"
    and hs: "hs = (case r of Some h \<Rightarrow> h # hs' | None \<Rightarrow> hs')"
    by (auto simp: Option.bind_eq_Some_conv)
  obtain ks where ks: "map item_id hs' = map (\<lambda>k. next_def_id s1 + of_nat k) ks" "sorted_wrt (<) ks"
    "set ks \<subseteq> {..<length its}" "list_all2 describes (filter kept its) hs'"
    using Cons.IH [OF tl] by blast
  have suc: "map (\<lambda>k. next_def_id s + 1 + of_nat k) ks = map (\<lambda>k. next_def_id s + of_nat k) (map Suc ks)"
    by (simp add: add.assoc)
  have srt: "sorted_wrt (<) (map Suc ks)" using ks(2) by (simp add: sorted_wrt_map)
  show ?case
  proof (cases r)
    case None
    with lower_item_id [OF r] consider "next_def_id s1 = next_def_id s" | "next_def_id s1 = next_def_id s + 1" by auto
    then show ?thesis
    proof cases
      case 1
      then show ?thesis using ks hs None lower_item_id [OF r] by (intro exI [of _ ks]) auto
    next
      case 2
      then show ?thesis
        using ks hs None lower_item_id [OF r] suc srt by (intro exI [of _ "map Suc ks"]) auto
    qed
  next
    case (Some h)
    then show ?thesis
      using ks hs lower_item_id [OF r] suc srt by (intro exI [of _ "0 # map Suc ks"]) auto
  qed
qed simp

text \<open>
  Lowering a file keeps its items. Every item except concepts has one HIR item, in source order, with
  the source's name, visibility, parameters, fields, variants or methods, and the definition ids are
  pairwise different (for files of at most \<open>2\<^sup>3\<^sup>2\<close> items, the range of a
  definition id).
\<close>

theorem lowered_file_items:
  assumes "lower_file its s = Some (hs, s')" "length its \<le> 2 ^ 32"
  shows "distinct (map item_id hs) \<and> list_all2 describes (filter kept its) hs"
proof -
  obtain ks where ks: "map item_id hs = map (\<lambda>k. next_def_id s + of_nat k) ks" "sorted_wrt (<) ks"
    "set ks \<subseteq> {..<length its}" "list_all2 describes (filter kept its) hs"
    using lower_file_ids [OF assms(1)] by blast
  have "inj_on (of_nat :: nat \<Rightarrow> def_id) {..<length its}"
    using assms(2) by (auto simp: inj_on_def unat_of_nat dest!: arg_cong [where f = unat])
  then have "inj_on (\<lambda>k. next_def_id s + of_nat k) (set ks)"
    using ks(3) by (auto simp: inj_on_def)
  then show ?thesis using ks(1,2,4) by (simp add: distinct_map strict_sorted_iff)
qed

theorem lowered_file_items_witness:
  "\<exists>hs s'. lower_file [ConceptItem ''C'', GlobalItem ''g'' (TyPath [(''u8'', [])]), FnItem demo_source] lowering_new = Some (hs, s') \<and>
     distinct (map item_id hs) \<and>
     list_all2 describes [GlobalItem ''g'' (TyPath [(''u8'', [])]), FnItem demo_source] hs"
proof -
  let ?its = "[ConceptItem ''C'', GlobalItem ''g'' (TyPath [(''u8'', [])]), FnItem demo_source]"
  have "lower_fn_item demo_source s \<noteq> None" for s
    by (simp add: lower_fn_item_def demo_source_def var_e_def lowering_eval Let_def
        collect_generic_names_def lower_signature_def lower_param_def read_opt_type_def read_type_def unwrap_or_def
        path_type_def primitive_type_def lower_generics_def)
  moreover obtain r s1 where "lower_item (GlobalItem ''g'' (TyPath [(''u8'', [])])) lowering_new = Some (r, s1)"
    by (auto simp: lower_item_def lower_global_item_def alloc_def_id_def read_type_def path_type_def primitive_type_def)
  moreover from calculation(1) obtain r2 s2 where "lower_fn_item demo_source s1 = Some (r2, s2)" by fastforce
  ultimately have "lower_file ?its lowering_new \<noteq> None"
    by (simp add: lower_item_def)
  then obtain hs s' where "lower_file ?its lowering_new = Some (hs, s')" by fastforce
  moreover from lowered_file_items [OF this] have "distinct (map item_id hs) \<and> list_all2 describes (filter kept ?its) hs"
    by simp
  ultimately show ?thesis by (auto simp: kept_def)
qed

section \<open>What the lowering loses\<close>

text \<open>
  The module promises that every construct maps to exactly one HIR construct. These do not: the value of
  an \<open>if\<close>, a reference, a tuple or a range (so the iterator of every \<open>for i in
  a..b\<close>) is the literal 0, a \<open>match\<close> statement with all its arms is the literal
  \<open>false\<close>, and an integer that does not fit 64 signed bits is 0.
\<close>

lemma constructs_replaced:
  "lower_syn_expr (SynRange a b closed) s = Some (unit_expr (ELiteral (LitInt 0)), s)"
  "lower_syn_expr (SynIf c t e) s = Some (unit_expr (ELiteral (LitInt 0)), s)"
  "lower_salt_stmt (StMatch x arms) s = Some (Some (SExpr (unit_expr (ELiteral (LitBool False)))), s)"
  "lower_lit (SynInt (2 ^ 63)) = LitInt 0"
  by (simp_all add: stub_stmt_def lower_lit_def base10_parse_i64_def)

text \<open>The compound assignments \<open>&=\<close>, \<open>|=\<close>, \<open>^=\<close>, \<open><<=\<close> and \<open>>>=\<close> are lowered to an addition, which assigns nothing.\<close>

lemma bit_assignments_become_additions:
  "lower_bin_op OpBitAndAssign = BinAdd" "lower_bin_op OpBitOrAssign = BinAdd" "lower_bin_op OpBitXorAssign = BinAdd"
  "lower_bin_op OpShlAssign = BinAdd" "lower_bin_op OpShrAssign = BinAdd"
  by (simp_all add: lower_bin_op_def)

text \<open>
  The variable of a \<open>for\<close> is declared in the enclosing scope before the iterator is
  lowered: after \<open>let i = 1; for i in i {}\<close> the name \<open>i\<close> is still the loop
  variable, and the iterator is the loop variable itself.
\<close>

lemma loop_variable_escapes:
  assumes "rooted (lw_scopes s)" "current_generic_names s = {}"
  shows "\<exists>s'. lower_salt_stmts
      [StSyn (SynLocal (SynPatIdent ''i'' False) (Some (SynLit (SynInt 1)))), StFor (SynPatIdent ''i'' False) (var_e ''i'') []] s =
    Some ([SLocal (PBind ''i'' (next_var_id s) False) None (Some (unit_expr (ELiteral (LitInt 1)))),
           SFor (next_var_id s + 1) ''i'' (unit_expr (EVar (next_var_id s + 1))) (Block [] None Unit)], s') \<and>
    resolve (lw_scopes s') ''i'' = Some (next_var_id s + 1)"
  using assms by (simp add: var_e_def lower_path_def last_ident_def lower_local_def alloc_var_id_def bind_name_def
      note_name_def Let_def resolve_insert lower_lit_def base10_parse_i64_def leave_scope_def enter_scope_def scopes.leave_enter)

text \<open>A \<open>let\<close> is not entered in the map from names to variables that the coroutine lowering reads.\<close>

lemma let_not_noted:
  "lower_syn_stmt (SynLocal p None) s = Some (h, s') \<Longrightarrow> var_name_map s' = var_name_map s"
  by (auto simp: lower_local_def alloc_var_id_def bind_name_def Option.bind_eq_Some_conv Let_def)

end
