(* ===== verification/Front_End.thy ===== *)
theory Front_End
  imports Lower_Items Typeck_Sound
begin

text \<open>
  Lowering and checking composed: a function body comes out of the lowering
  (\<open>salt-front/src/hir/lower.rs\<close>) and goes into the type checker
  (\<open>salt-front/src/hir/typeck.rs\<close>) with the parameters bound to their types. What the
  checker relies on, distinct binders and known variables, is what the lowering guarantees.
\<close>

section \<open>Known variables\<close>

text \<open>
  Trees whose variables are known, and that mention no loop variable in its own iterator, are
  known strictly.
\<close>

lemma scoped_strict:
  "scoped_expr False V e \<Longrightarrow> scoped_expr True W e \<Longrightarrow> scoped_expr True (V \<inter> W) e"
  "scoped_kind False V k \<Longrightarrow> scoped_kind True W k \<Longrightarrow> scoped_kind True (V \<inter> W) k"
  "scoped_opt False V r \<Longrightarrow> scoped_opt True W r \<Longrightarrow> scoped_opt True (V \<inter> W) r"
  "scoped_block False V b \<Longrightarrow> scoped_block True W b \<Longrightarrow> scoped_block True (V \<inter> W) b"
  "scoped_stmt False V st \<Longrightarrow> scoped_stmt True W st \<Longrightarrow> scoped_stmt True (V \<inter> W) st"
  "scoped_stmts False V ss \<Longrightarrow> scoped_stmts True W ss \<Longrightarrow> scoped_stmts True (V \<inter> W) ss"
proof (induction strict\<equiv>False V e and strict\<equiv>False V k and strict\<equiv>False V r and strict\<equiv>False V b and strict\<equiv>False V st
    and strict\<equiv>False V ss arbitrary: W and W and W and W and W and W
    rule: scoped_expr_scoped_kind_scoped_opt_scoped_block_scoped_stmt_scoped_stmts.induct)
  case (28 V ss r t)
  let ?d = "snd ` set (decls_of ss)"
  have "(V \<union> ?d) \<inter> (W \<union> ?d) = V \<inter> W \<union> ?d" by blast
  then show ?case using 28 by (auto) (metis (no_types, lifting))
next
  case (33 V v n i b)
  have "insert v V \<inter> (W - {v}) = V \<inter> W - {v}" "insert v V \<inter> insert v W = insert v (V \<inter> W)" by auto
  then show ?case using "33.hyps"(1) [of "W - {v}"] "33.hyps"(2) [of "insert v W"] "33.prems" by simp
next
  case (40 V s ss)
  let ?d = "snd ` set (stmt_decls s)"
  have "(V \<union> ?d) \<inter> (W \<union> ?d) = V \<inter> W \<union> ?d" by blast
  then show ?case using "40.hyps"(1) [of W] "40.hyps"(2) [of "W \<union> ?d"] "40.prems" by simp
next
  case (18 V n ts fs)
  have "scoped_expr True (V \<inter> W) (snd p)" if "p \<in> set fs" for p
    using "18.hyps" [of p "fst p" "snd p" W] "18.prems" that by (auto simp: list_all_iff split_beta)
  then show ?case by (simp add: list_all_iff split_beta)
qed (auto simp: list_all_iff split_beta)

text \<open>
  A check that never meets an unknown variable, and afterwards knows the variables \<open>W\<close> if it
  accepts.
\<close>

definition known :: "var_id set \<Rightarrow> typeck_ctx \<times> 'a \<times> (type_error, 'b) result \<Rightarrow> bool" where
  "known W res \<longleftrightarrow>
     (\<forall>v. snd (snd res) \<noteq> Inl (UnknownVar v)) \<and>
     (\<forall>t. snd (snd res) = Inr t \<longrightarrow> W \<subseteq> dom (local_env (fst res)))"

lemma known_ret [simp]:
  "known W (\<Gamma>, a, r) \<longleftrightarrow> (\<forall>v. r \<noteq> Inl (UnknownVar v)) \<and> (\<forall>t. r = Inr t \<longrightarrow> W \<subseteq> dom (local_env \<Gamma>))"
  by (simp add: known_def)

lemma known_try:
  assumes "known V res"
    and "\<And>\<Gamma>1 a t. res = (\<Gamma>1, a, Inr t) \<Longrightarrow> V \<subseteq> dom (local_env \<Gamma>1) \<Longrightarrow> known W (go \<Gamma>1 a t)"
  shows "known W (try_check res wrap go)"
  using assms by (cases res) (auto simp: try_check_def split: sum.split)

text \<open>The rules of the checker produce other errors.\<close>

lemma check_binary_known: "check_binary op t u \<noteq> Inl (UnknownVar v)"
  by (simp add: check_binary_def)

lemma check_unary_known: "check_unary uop t \<noteq> Inl (UnknownVar v)"
  by (simp add: check_unary_def split: un_op.split ty.split)

lemma resolve_method_known: "resolve_method \<Gamma> t m n \<noteq> Inl (UnknownVar v)"
  by (simp add: resolve_method_def split: ty.split option.split list.split)

lemma resolve_call_known: "resolve_call \<Gamma> e n \<noteq> Inl (UnknownVar v)"
  by (simp add: resolve_call_def split: expr_kind.split option.split)

lemma field_access_known: "field_access \<Gamma> t f \<noteq> Inl (UnknownVar v)"
  by (simp add: field_access_def split: ty.split option.split)

lemma let_type_known: "let_type a i \<noteq> Inl (UnknownVar v)"
  by (simp add: let_type_def split: option.split)

lemmas local_rules_known = check_binary_known check_unary_known resolve_method_known resolve_call_known
  field_access_known let_type_known

lemma struct_lit_known:
  "V \<subseteq> dom (local_env \<Gamma>) \<Longrightarrow> known V (with_tree fs (resolve_struct_lit \<Gamma> name ts n))"
  by (auto simp: known_def with_tree_def resolve_struct_lit_def monomorphize_struct_def instantiate_struct_def Let_def
      split: prod.splits sum.splits option.splits if_splits)

lemma bind_pattern_known:
  "V \<subseteq> dom (local_env \<Gamma>) \<Longrightarrow> V \<union> snd ` set (pattern_decls p) \<subseteq> dom (local_env (bind_pattern p t \<Gamma>))"
  by (cases p) (auto simp: bind_pattern_def)

lemma typeck_known:
  "scoped_expr True V e \<Longrightarrow> V \<subseteq> dom (local_env \<Gamma>) \<Longrightarrow> known V (typeck_expr \<Gamma> e)"
  "scoped_kind True V k \<Longrightarrow> V \<subseteq> dom (local_env \<Gamma>) \<Longrightarrow> known V (typeck_kind \<Gamma> k)"
  "list_all (scoped_expr True V) as \<Longrightarrow> V \<subseteq> dom (local_env \<Gamma>) \<Longrightarrow> (\<And>n p t v. mk n p t \<noteq> UnknownVar v) \<Longrightarrow>
     known V (typeck_args mk i \<Gamma> as ps)"
  "list_all (\<lambda>(_, e). scoped_expr True V e) fs \<Longrightarrow> V \<subseteq> dom (local_env \<Gamma>) \<Longrightarrow> known V (typeck_fields n m \<Gamma> fs)"
  "scoped_stmt True V s \<Longrightarrow> V \<subseteq> dom (local_env \<Gamma>) \<Longrightarrow> known (V \<union> snd ` set (stmt_decls s)) (typeck_stmt \<Gamma> s)"
  "scoped_stmts True V ss \<Longrightarrow> V \<subseteq> dom (local_env \<Gamma>) \<Longrightarrow> known (V \<union> snd ` set (decls_of ss)) (typeck_stmts \<Gamma> ss)"
  "scoped_block True V b \<Longrightarrow> V \<subseteq> dom (local_env \<Gamma>) \<Longrightarrow> known V (typeck_block \<Gamma> b)"
proof (induction \<Gamma> e and \<Gamma> k and mk i \<Gamma> as ps and n m \<Gamma> fs and \<Gamma> s and \<Gamma> ss and \<Gamma> b
    arbitrary: V and V and V and V and V and V and V rule: typeck_induct)
  case (1 \<Gamma> k t)
  then show ?case by (auto intro!: known_try [OF 1(1)])
next
  case (4 \<Gamma> op a b)
  then show ?case by (auto simp: local_rules_known intro!: known_try [OF 4(1)] known_try [OF 4(2)])
next
  case (7 \<Gamma> r m args)
  then show ?case
    by (auto simp: local_rules_known intro!: known_try [OF 7(1)] known_try [where V = V] known_try [OF 7(2)])
next
  case (8 \<Gamma> callee args)
  show ?case
  proof (cases "resolve_call \<Gamma> callee (length args)")
    case (Inl e)
    then show ?thesis using 8 local_rules_known(4) [of \<Gamma> callee "length args"] by auto
  next
    case (Inr call)
    have args: "known V (typeck_args (CallArgMismatch (fst call)) 0 \<Gamma> args (sig_params (snd call)))"
      using 8(1) [of \<Gamma> args call V] 8(2,3) Inr by simp
    show ?thesis using Inr by (auto intro!: known_try [OF args])
  qed
next
  case (9 \<Gamma> a b)
  then show ?case by (auto simp: reject_if_def intro!: known_try [OF 9(1)] known_try [OF 9(2)])
next
  case (13 \<Gamma> c b els)
  have b: "known V (typeck_block \<Gamma>1 b)"
    if "fst (typeck_expr \<Gamma> c) = \<Gamma>1" "snd (snd (typeck_expr \<Gamma> c)) = Inr Bool" "V \<subseteq> dom (local_env \<Gamma>1)" for \<Gamma>1
    using 13(2) [of \<Gamma>1 "fst (snd (typeck_expr \<Gamma> c))" Bool V] that 13(4) by (cases "typeck_expr \<Gamma> c") simp
  have el: "known V (typeck_expr \<Gamma>2 el)"
    if "els = Some el" "snd (snd (typeck_expr \<Gamma> c)) = Inr Bool"
      "fst (typeck_block (fst (typeck_expr \<Gamma> c)) b) = \<Gamma>2"
      "\<not> isl (snd (snd (typeck_block (fst (typeck_expr \<Gamma> c)) b)))" "V \<subseteq> dom (local_env \<Gamma>2)" for \<Gamma>2 el
    using 13(3) [of "fst (typeck_expr \<Gamma> c)" "fst (snd (typeck_expr \<Gamma> c))" Bool \<Gamma>2
        "fst (snd (typeck_block (fst (typeck_expr \<Gamma> c)) b))"
        "projr (snd (snd (typeck_block (fst (typeck_expr \<Gamma> c)) b)))" el V] that 13(4)
    by (cases "typeck_expr \<Gamma> c", cases "typeck_block (fst (typeck_expr \<Gamma> c)) b") auto
  show ?case using 13(4,5)
    by (auto simp: reject_if_def split: option.split intro!: known_try [OF 13(1)] known_try [OF b] known_try [OF el])
next
  case (14 \<Gamma> n ts fs)
  then show ?case
    by (auto intro!: known_try [OF struct_lit_known [of V]] known_try [OF 14(1)])
next
  case (22 mk i \<Gamma> a as p ps)
  have r: "known V (typeck_args mk (Suc i) \<Gamma>1 as ps)"
    if "fst (typeck_expr \<Gamma> a) = \<Gamma>1" "snd (snd (typeck_expr \<Gamma> a)) = Inr p" "V \<subseteq> dom (local_env \<Gamma>1)" for \<Gamma>1
    using 22(2) [of \<Gamma>1 "fst (snd (typeck_expr \<Gamma> a))" p V] 22(3-) that
    by (cases "typeck_expr \<Gamma> a") auto
  show ?case using 22(3-)
    by (auto intro!: known_try [OF 22(1) [of V]] known_try [OF r] )
next
  case (25 n m \<Gamma> f a fs)
  have r: "known V (typeck_fields n m \<Gamma>1 fs)"
    if "fst (typeck_expr \<Gamma> a) = \<Gamma>1" "\<exists>t. snd (snd (typeck_expr \<Gamma> a)) = Inr t \<and> m f = Some t" "V \<subseteq> dom (local_env \<Gamma>1)" for \<Gamma>1
    using 25(2) [of \<Gamma>1 "fst (snd (typeck_expr \<Gamma> a))" ] 25(3-) that
    by (cases "typeck_expr \<Gamma> a") auto
  show ?case using 25(3-)
    by (auto split: option.split intro!: known_try [OF 25(1) [of V]] known_try [OF r] )
next
  case (26 \<Gamma> p ann)
  then show ?case using bind_pattern_known
    by (auto simp: local_rules_known try_check_def split: sum.split)
next
  case (27 \<Gamma> p ann a)
  have "known V (typeck_expr \<Gamma> a)" using 27 by simp
  then show ?case using bind_pattern_known
    by (auto simp: local_rules_known try_check_def [of "(_, _, let_type _ _)"] split: sum.split intro!: known_try)
next
  case (32 \<Gamma> c b)
  have r: "known V (typeck_block \<Gamma>1 b)"
    if "fst (typeck_expr \<Gamma> c) = \<Gamma>1" "snd (snd (typeck_expr \<Gamma> c)) = Inr Bool" "V \<subseteq> dom (local_env \<Gamma>1)" for \<Gamma>1
    using 32(2) [of \<Gamma>1 "fst (snd (typeck_expr \<Gamma> c))" Bool V] 32(3-) that
    by (cases "typeck_expr \<Gamma> c") auto
  show ?case using 32(3-)
    by (auto intro!: known_try [OF 32(1) [of V]] known_try [OF r] )
next
  case (36 \<Gamma> v n it b)
  have r: "known (insert v V) (typeck_block (\<Gamma>1\<lparr>local_env := (local_env \<Gamma>1)(v \<mapsto> Unit)\<rparr>) b)"
    if "fst (typeck_expr \<Gamma> it) = \<Gamma>1" "\<not> isl (snd (snd (typeck_expr \<Gamma> it)))" "V - {v} \<subseteq> dom (local_env \<Gamma>1)" for \<Gamma>1
  proof -
    have "insert v V \<subseteq> dom (local_env (\<Gamma>1\<lparr>local_env := (local_env \<Gamma>1)(v \<mapsto> Unit)\<rparr>))"
      using that(3) by auto
    then show ?thesis
      using 36(2) [of \<Gamma>1 "fst (snd (typeck_expr \<Gamma> it))" "projr (snd (snd (typeck_expr \<Gamma> it)))" "insert v V"] 36(3) that(1,2)
      by (cases "typeck_expr \<Gamma> it") (auto simp del: dom_fun_upd fun_upd_apply)
  qed
  show ?case using 36(3-)
    by (auto intro!: known_try [OF 36(1) [of "V - {v}"]] known_try [OF r])
next
  case (39 \<Gamma> s ss)
  have r: "known (V \<union> snd ` set (stmt_decls s) \<union> snd ` set (decls_of ss)) (typeck_stmts \<Gamma>1 ss)"
    if "fst (typeck_stmt \<Gamma> s) = \<Gamma>1" "\<not> isl (snd (snd (typeck_stmt \<Gamma> s)))" "V \<union> snd ` set (stmt_decls s) \<subseteq> dom (local_env \<Gamma>1)" for \<Gamma>1
    using 39(2) [of \<Gamma>1 "fst (snd (typeck_stmt \<Gamma> s))" "()" "V \<union> snd ` set (stmt_decls s)"] 39(3-) that
    by (cases "typeck_stmt \<Gamma> s"; cases "snd (snd (typeck_stmt \<Gamma> s))") auto
  show ?case using 39(3-)
    by (auto intro!: known_try [OF 39(1) [of V]] known_try [OF r])
      (force simp: image_subset_iff)+
next
  case (41 \<Gamma> ss a t)
  have r: "known (V \<union> snd ` set (decls_of ss)) (typeck_expr \<Gamma>1 a)"
    if "fst (typeck_stmts \<Gamma> ss) = \<Gamma>1" "\<not> isl (snd (snd (typeck_stmts \<Gamma> ss)))" "V \<union> snd ` set (decls_of ss) \<subseteq> dom (local_env \<Gamma>1)" for \<Gamma>1
    using 41(2) [of \<Gamma>1 "fst (snd (typeck_stmts \<Gamma> ss))" "()" "V \<union> snd ` set (decls_of ss)"] 41(3-) that
    by (cases "typeck_stmts \<Gamma> ss"; cases "snd (snd (typeck_stmts \<Gamma> ss))") auto
  show ?case using 41(3-)
    by (auto intro!: known_try [OF 41(1) [of V]] known_try [OF r] )
qed (auto simp: local_rules_known reject_if_def split: option.splits intro!: known_try)

section \<open>A lowered body in the checker\<close>

text \<open>
  Property C4: lowering and type checker agree. Take the body that the lowering returns for a function
  with fewer than \<open>2 ^ 32\<close> parameters and binders, and check it in a context that binds no
  other variables than the function's parameters, at the ids the lowering gave them (the checker itself
  starts with no variables at all; nothing in its source binds parameters, so which of them are bound is
  left open). If the checker accepts, the body it leaves behind is well typed in the declarative system:
  the single-binder condition of the checker's soundness is what the lowering guarantees. If moreover
  all parameters are bound and no \<open>for\<close> loop mentions its own variable in its iterator
  (which the lowering binds too early), the checker meets no unknown variable, whether it accepts or
  not.
\<close>

theorem front_end_sound:
  assumes "lower_fn_item f s = Some (Some it, s')" "item_kind_of it = ItemFn fn" "fn_body fn = Some b"
    and "length (sf_args f) + length (block_binders b) \<le> 2 ^ 32"
    and "dom (local_env \<Gamma>) \<subseteq> of_nat ` {..<length (fn_inputs fn)}"
    and "typeck_block \<Gamma> b = (\<Gamma>', b', r)"
  shows "(\<forall>t. r = Inr t \<longrightarrow> wt_block \<Gamma>' b' \<and> block_ty b' = t) \<and>
    (of_nat ` {..<length (fn_inputs fn)} \<subseteq> dom (local_env \<Gamma>) \<and> scoped_block True UNIV b \<longrightarrow>
      (\<forall>v. r \<noteq> Inl (UnknownVar v)))"
proof -
  let ?P = "of_nat ` {..<length (sf_args f)} :: var_id set"
  obtain hs where b: "b = Block hs None Unit" and n: "length (fn_inputs fn) = length (sf_args f)"
    and d: "distinct (map of_nat [0..<length (sf_args f)] @ concat (map stmt_binders hs))"
    and sc: "scoped_stmts False ?P hs"
    using lowered_fn_body [OF assms(1,2)] assms(3,4) by auto
  have "fresh (block_binders b @ []) \<Gamma>"
    using d assms(5) by (simp add: fresh_def b n atLeast0LessThan) blast
  then have "r = Inr t \<Longrightarrow> wt_block \<Gamma>' b' \<and> block_ty b' = t" for t
    using typeck_checked(7) [of b \<Gamma>] assms(6) unfolding checked_def by blast
  moreover have "known ?P (typeck_block \<Gamma> b)" if "?P \<subseteq> dom (local_env \<Gamma>)" "scoped_block True UNIV b"
    using typeck_known(7) [of ?P b \<Gamma>] scoped_strict(4) [of ?P b UNIV] that sc by (simp add: b)
  then have "?P \<subseteq> dom (local_env \<Gamma>) \<and> scoped_block True UNIV b \<longrightarrow> (\<forall>v. r \<noteq> Inl (UnknownVar v))"
    by (simp add: assms(6))
  ultimately show ?thesis by (simp add: n)
qed

text \<open>\<open>fn f(n: i64) { let x = n; while x < 10 { let y = x + n; yield_now(y); } return x; }\<close>\<close>

definition count_source :: salt_fn where
  "count_source = demo_source\<lparr>sf_body :=
     [StSyn (SynLocal (SynPatIdent ''x'' True) (Some (var_e ''n''))),
      StWhile (SynBinary (var_e ''x'') OpLt (SynLit (SynInt 10)))
        [StSyn (SynLocal (SynPatIdent ''y'' False) (Some (SynBinary (var_e ''x'') OpAdd (var_e ''n'')))),
         StExpr (SynCall (var_e ''yield_now'') [var_e ''y'']) True],
      StReturn (Some (var_e ''x''))]\<rparr>"

definition count_body :: block where
  "count_body = Block
     [SLocal (PBind ''x'' 1 True) None (Some (unit_expr (EVar 0))),
      SWhile (unit_expr (EBinary BinLt (unit_expr (EVar 1)) (unit_expr (ELiteral (LitInt 10)))))
        (Block [SLocal (PBind ''y'' 2 False) None (Some (unit_expr (EBinary BinAdd (unit_expr (EVar 1)) (unit_expr (EVar 0))))),
                SSemi (unit_expr (EYield (Some (unit_expr (EVar 2)))))] None Unit),
      SReturn (Some (unit_expr (EVar 1)))] None Unit"

definition count_ctx :: typeck_ctx where
  "count_ctx = typeck_new\<lparr>local_env := [0 \<mapsto> I64]\<rparr>"

lemma count_lowered:
  "\<exists>it s' fn. lower_fn_item count_source lowering_new = Some (Some it, s') \<and> item_kind_of it = ItemFn fn \<and>
     fn_body fn = Some count_body \<and> length (fn_inputs fn) = 1"
  by (simp add: lower_fn_item_def count_source_def demo_source_def count_body_def lowering_new_def var_e_def lowering_eval
      Let_def collect_generic_names_def lower_signature_def lower_param_def read_opt_type_def read_type_def unwrap_or_def
      path_type_def primitive_type_def lower_generics_def)

lemma count_accepted: "snd (snd (typeck_block count_ctx count_body)) = Inr Unit"
  by (simp add: count_ctx_def count_body_def typeck_new_def check_binary_def is_relational_def literal_ty_def let_type_def bind_pattern_def)

theorem front_end_sound_witness:
  "wt_block (fst (typeck_block count_ctx count_body)) (fst (snd (typeck_block count_ctx count_body)))"
proof -
  obtain it s' fn where 1: "lower_fn_item count_source lowering_new = Some (Some it, s')" "item_kind_of it = ItemFn fn"
      "fn_body fn = Some count_body" "length (fn_inputs fn) = 1"
    using count_lowered by blast
  have 2: "length (sf_args count_source) + length (block_binders count_body) \<le> 2 ^ 32"
    by (simp add: count_source_def demo_source_def count_body_def)
  have 3: "dom (local_env count_ctx) \<subseteq> of_nat ` {..<length (fn_inputs fn)}"
    by (simp add: count_ctx_def 1(4) lessThan_Suc)
  obtain \<Gamma>' b' r where r: "typeck_block count_ctx count_body = (\<Gamma>', b', r)" by (metis prod.exhaust)
  show ?thesis
    using front_end_sound [OF 1(1,2,3) 2 3 r] count_accepted by (simp add: r)
qed

end
