(* ===== verification/Liveness.thy ===== *)
theory Liveness
  imports Salt_Ast "HOL-Library.List_Lexorder" "HOL-Library.Char_ord" "HOL-Library.Multiset"
begin

text \<open>
  The liveness analysis that chooses the variables a coroutine keeps across a suspension
  (\<open>salt-front/src/codegen/passes/liveness.rs\<close>): a walk over the body that numbers the
  statements, and notes the suspension points, the definitions and the last uses. The text of a type
  (Rust's derived \<open>Debug\<close> output, searched for the names of zero-sized types) is the
  parameter \<open>debug\<close>. The map of lifetimes is an association list; it is only read through
  look-ups and sorted by name.
\<close>

section \<open>The data of the analysis\<close>

record yield_point =
  yp_index :: nat
  yp_position :: nat
  yp_label :: string

record frame_member =
  fm_index :: nat
  fm_ty :: string
  fm_name :: string

record liveness_result =
  lr_yield_points :: "yield_point list"
  lr_frame_members :: "frame_member list"
  lr_frame_size :: nat
  needs_transform :: bool

record var_lifetime =
  def_position :: nat
  last_use_position :: nat
  lt_ty :: string
  is_zst :: bool

record analyzer =
  an_position :: nat
  an_yields :: "yield_point list"
  an_lifetimes :: "(string \<times> var_lifetime) list"

definition zst_types :: "string list" where
  "zst_types = [''Context'', ''()'', ''Unit'', ''unit'']"

definition analyzer_new :: analyzer where
  "analyzer_new = \<lparr>an_position = 0, an_yields = [], an_lifetimes = []\<rparr>"

section \<open>The walk\<close>

definition define_var :: "string \<Rightarrow> string \<Rightarrow> bool \<Rightarrow> analyzer \<Rightarrow> analyzer" where
  "define_var x t z a = a\<lparr>an_lifetimes := AList.update x
     \<lparr>def_position = an_position a, last_use_position = an_position a, lt_ty = t, is_zst = z\<rparr> (an_lifetimes a)\<rparr>"

definition use_var :: "string \<Rightarrow> analyzer \<Rightarrow> analyzer" where
  "use_var x a =
     (case map_of (an_lifetimes a) x of
        None \<Rightarrow> a
      | Some lt \<Rightarrow>
          a\<lparr>an_lifetimes := AList.update x (lt\<lparr>last_use_position := an_position a\<rparr>) (an_lifetimes a)\<rparr>)"

definition add_yield :: "string \<Rightarrow> analyzer \<Rightarrow> analyzer" where
  "add_yield label a = a\<lparr>an_yields := an_yields a @
     [\<lparr>yp_index = length (an_yields a), yp_position = an_position a, yp_label = label\<rparr>]\<rparr>"

definition next_position :: "analyzer \<Rightarrow> analyzer" where
  "next_position a = a\<lparr>an_position := Suc (an_position a)\<rparr>"

fun record_uses_in_expr :: "syn_expr \<Rightarrow> analyzer \<Rightarrow> analyzer" where
  "record_uses_in_expr (SynPath p) a = (case get_ident p of Some x \<Rightarrow> use_var x a | None \<Rightarrow> a)"
| "record_uses_in_expr (SynCall f args) a = fold record_uses_in_expr args (record_uses_in_expr f a)"
| "record_uses_in_expr (SynMethodCall r _ args) a = fold record_uses_in_expr args (record_uses_in_expr r a)"
| "record_uses_in_expr (SynBinary l _ r) a = record_uses_in_expr r (record_uses_in_expr l a)"
| "record_uses_in_expr (SynUnary _ e) a = record_uses_in_expr e a"
| "record_uses_in_expr (SynField e _) a = record_uses_in_expr e a"
| "record_uses_in_expr (SynIndex e i) a = record_uses_in_expr i (record_uses_in_expr e a)"
| "record_uses_in_expr (SynAssign l r) a = record_uses_in_expr r (record_uses_in_expr l a)"
| "record_uses_in_expr (SynReturn (Some e)) a = record_uses_in_expr e a"
| "record_uses_in_expr (SynReturn None) a = a"
| "record_uses_in_expr (SynParen e) a = record_uses_in_expr e a"
| "record_uses_in_expr (SynReference e) a = record_uses_in_expr e a"
| "record_uses_in_expr (SynCast e _) a = record_uses_in_expr e a"
| "record_uses_in_expr (SynTuple es) a = fold record_uses_in_expr es a"
| "record_uses_in_expr (SynLit _) a = a"
| "record_uses_in_expr (SynBlock _) a = a"
| "record_uses_in_expr (SynIf _ _ _) a = a"
| "record_uses_in_expr (SynRange _ _ _) a = a"
| "record_uses_in_expr (SynStruct _ _) a = a"
| "record_uses_in_expr SynOther a = a"
| "record_uses_in_expr SynArray a = a"

definition is_yield_call :: "syn_expr \<Rightarrow> bool" where
  "is_yield_call e =
     (case e of
        SynCall (SynPath p) _ \<Rightarrow>
          str_contains ''yield_now'' (path_name p) \<or> str_contains ''yield_to_executor'' (path_name p) \<or>
          str_contains ''salt_yield'' (path_name p)
      | _ \<Rightarrow> False)"

fun walk_stmt :: "stmt_ast \<Rightarrow> analyzer \<Rightarrow> analyzer"
and walk_block :: "stmt_ast list \<Rightarrow> analyzer \<Rightarrow> analyzer"
and walk_if :: "salt_if \<Rightarrow> analyzer \<Rightarrow> analyzer"
and walk_arms :: "match_arm list \<Rightarrow> analyzer \<Rightarrow> analyzer" where
  "walk_stmt (StSyn (SynLocal p init)) a =
     (let a = (case p of SynPatIdent x _ \<Rightarrow> define_var x ''i64'' False a | _ \<Rightarrow> a)
      in case init of Some e \<Rightarrow> record_uses_in_expr e a | None \<Rightarrow> a)"
| "walk_stmt (StExpr e _) a =
     (let a = record_uses_in_expr e a
      in if is_yield_call e then add_yield (''yield_'' @ show_nat (length (an_yields a))) a else a)"
| "walk_stmt (StFor _ iter body) a = walk_block body (add_yield ''loop_back_edge'' (record_uses_in_expr iter a))"
| "walk_stmt (StWhile c body) a = walk_block body (add_yield ''loop_back_edge'' (record_uses_in_expr c a))"
| "walk_stmt (StIf i) a = walk_if i a"
| "walk_stmt (StMatch e arms) a = walk_arms arms (record_uses_in_expr e a)"
| "walk_stmt (StUnsafe body) a = walk_block body a"
| "walk_stmt (StReturn (Some e)) a = record_uses_in_expr e a"
| "walk_stmt (StMove e) a = record_uses_in_expr e a"
| "walk_stmt (StLetElse _ init els) a = walk_block els (record_uses_in_expr init a)"
| "walk_stmt (StSyn (SynStmtExpr _ _)) a = a"
| "walk_stmt (StSyn SynStmtOther) a = a"
| "walk_stmt (StInvariant _) a = a"
| "walk_stmt (StMapWindow _ _ _ _) a = a"
| "walk_stmt (StWithRegion _ _) a = a"
| "walk_stmt (StReturn None) a = a"
| "walk_stmt StBreak a = a"
| "walk_stmt StContinue a = a"
| "walk_stmt (StLoop _) a = a"
| "walk_block [] a = a"
| "walk_block (s # ss) a = walk_block ss (next_position (walk_stmt s a))"
| "walk_if (SaltIf c body els) a =
     (let a = walk_block body (record_uses_in_expr c a)
      in case els of
           None \<Rightarrow> a
         | Some (ElseBlock b) \<Rightarrow> walk_block b a
         | Some (ElseIf i) \<Rightarrow> walk_if i a)"
| "walk_arms [] a = a"
| "walk_arms (MatchArm _ _ body # arms) a = walk_arms arms (walk_block body a)"

section \<open>The result\<close>

definition is_yielding :: "salt_fn \<Rightarrow> bool" where
  "is_yielding f = (has_attribute (sf_attributes f) ''yielding'' \<or> has_attribute (sf_attributes f) ''pulse'')"

definition define_arg :: "(syn_type \<Rightarrow> string) \<Rightarrow> string \<times> syn_type option \<Rightarrow> analyzer \<Rightarrow> analyzer" where
  "define_arg debug arg =
     (let ty_str = (case snd arg of Some t \<Rightarrow> debug t | None \<Rightarrow> ''self'')
      in define_var (fst arg) ty_str (\<exists>z \<in> set zst_types. str_contains z ty_str))"

definition crosses_yield :: "analyzer \<Rightarrow> var_lifetime \<Rightarrow> bool" where
  "crosses_yield a lt =
     (\<exists>y \<in> set (an_yields a). def_position lt < yp_position y \<and> yp_position y < last_use_position lt)"

definition frame_of :: "analyzer \<Rightarrow> frame_member list" where
  "frame_of a =
     (let vars = filter (\<lambda>(_, lt). \<not> is_zst lt \<and> crosses_yield a lt) (an_lifetimes a);
          members = map (\<lambda>(i, x, lt). \<lparr>fm_index = i, fm_ty = lt_ty lt, fm_name = x\<rparr>) (enumerate 0 vars);
          members = sort_key fm_name members
      in map (\<lambda>(i, m). m\<lparr>fm_index := i\<rparr>) (enumerate 0 members))"

definition analyze :: "(syn_type \<Rightarrow> string) \<Rightarrow> salt_fn \<Rightarrow> liveness_result" where
  "analyze debug f =
     (if \<not> is_yielding f then
        \<lparr>lr_yield_points = [], lr_frame_members = [], lr_frame_size = 0, needs_transform = False\<rparr>
      else
        let a = walk_block (sf_body f) (fold (define_arg debug) (sf_args f) analyzer_new);
            members = frame_of a
        in \<lparr>lr_yield_points = an_yields a, lr_frame_members = members,
            lr_frame_size = length members, needs_transform = an_yields a \<noteq> []\<rparr>)"


section \<open>The events of a walk\<close>

text \<open>
  What the walk sees, in source order: definitions, uses, suspension points, and the ends of
  statements. The analysis is the run of its effects over these events.
\<close>

datatype event =
    Defines string string bool
  | Uses string
  | Suspends
  | BackEdge
  | NextStmt

fun used_names :: "syn_expr \<Rightarrow> string list" where
  "used_names (SynPath p) = (case get_ident p of Some x \<Rightarrow> [x] | None \<Rightarrow> [])"
| "used_names (SynCall f args) = used_names f @ concat (map used_names args)"
| "used_names (SynMethodCall r _ args) = used_names r @ concat (map used_names args)"
| "used_names (SynBinary l _ r) = used_names l @ used_names r"
| "used_names (SynUnary _ e) = used_names e"
| "used_names (SynField e _) = used_names e"
| "used_names (SynIndex e i) = used_names e @ used_names i"
| "used_names (SynAssign l r) = used_names l @ used_names r"
| "used_names (SynReturn (Some e)) = used_names e"
| "used_names (SynParen e) = used_names e"
| "used_names (SynReference e) = used_names e"
| "used_names (SynCast e _) = used_names e"
| "used_names (SynTuple es) = concat (map used_names es)"
| "used_names _ = []"

abbreviation use_events :: "syn_expr \<Rightarrow> event list" where
  "use_events e \<equiv> map Uses (used_names e)"

fun stmt_events :: "stmt_ast \<Rightarrow> event list"
and block_events :: "stmt_ast list \<Rightarrow> event list"
and if_events :: "salt_if \<Rightarrow> event list"
and arms_events :: "match_arm list \<Rightarrow> event list" where
  "stmt_events (StSyn (SynLocal p init)) =
     (case p of SynPatIdent x _ \<Rightarrow> [Defines x ''i64'' False] | _ \<Rightarrow> []) @
     (case init of Some e \<Rightarrow> use_events e | None \<Rightarrow> [])"
| "stmt_events (StExpr e _) = use_events e @ (if is_yield_call e then [Suspends] else [])"
| "stmt_events (StFor _ iter body) = use_events iter @ BackEdge # block_events body"
| "stmt_events (StWhile c body) = use_events c @ BackEdge # block_events body"
| "stmt_events (StIf i) = if_events i"
| "stmt_events (StMatch e arms) = use_events e @ arms_events arms"
| "stmt_events (StUnsafe body) = block_events body"
| "stmt_events (StReturn (Some e)) = use_events e"
| "stmt_events (StMove e) = use_events e"
| "stmt_events (StLetElse _ init els) = use_events init @ block_events els"
| "stmt_events _ = []"
| "block_events [] = []"
| "block_events (s # ss) = stmt_events s @ NextStmt # block_events ss"
| "if_events (SaltIf c body els) = use_events c @ block_events body @
     (case els of None \<Rightarrow> [] | Some (ElseBlock b) \<Rightarrow> block_events b | Some (ElseIf i) \<Rightarrow> if_events i)"
| "arms_events [] = []"
| "arms_events (MatchArm _ _ body # arms) = block_events body @ arms_events arms"

definition arg_event :: "(syn_type \<Rightarrow> string) \<Rightarrow> string \<times> syn_type option \<Rightarrow> event" where
  "arg_event debug arg =
     (let ty_str = (case snd arg of Some t \<Rightarrow> debug t | None \<Rightarrow> ''self'')
      in Defines (fst arg) ty_str (\<exists>z \<in> set zst_types. str_contains z ty_str))"

definition fn_events :: "(syn_type \<Rightarrow> string) \<Rightarrow> salt_fn \<Rightarrow> event list" where
  "fn_events debug f = map (arg_event debug) (sf_args f) @ block_events (sf_body f)"

fun effect :: "event \<Rightarrow> analyzer \<Rightarrow> analyzer" where
  "effect (Defines x t z) a = define_var x t z a"
| "effect (Uses x) a = use_var x a"
| "effect Suspends a = add_yield (''yield_'' @ show_nat (length (an_yields a))) a"
| "effect BackEdge a = add_yield ''loop_back_edge'' a"
| "effect NextStmt a = next_position a"

lemma fold_uses:
  assumes "\<And>x a. x \<in> set xs \<Longrightarrow> f x a = fold effect (map Uses (g x)) a"
  shows "fold f xs a = fold effect (map Uses (concat (map g xs))) a"
  using assms by (induction xs arbitrary: a) simp_all

lemma record_uses_events: "record_uses_in_expr e a = fold effect (use_events e) a"
  by (induction e a rule: record_uses_in_expr.induct) (auto split: option.split intro: fold_uses)

lemma walk_events:
  "walk_stmt s a = fold effect (stmt_events s) a"
  "walk_block ss a = fold effect (block_events ss) a"
  "walk_if i a = fold effect (if_events i) a"
  "walk_arms arms a = fold effect (arms_events arms) a"
proof (induction s a and ss a and i a and arms a rule: walk_stmt_walk_block_walk_if_walk_arms.induct)
  case (1 p init a)
  then show ?case by (cases p; cases init) (simp_all add: record_uses_events)
next
  case (22 c body els a)
  note body = "22.IH"(1) [unfolded record_uses_events]
  show ?case
  proof (cases els)
    case None
    then show ?thesis by (simp add: record_uses_events body)
  next
    case (Some el)
    then show ?thesis
      using "22.IH"(2) [OF refl Some] "22.IH"(3) [OF refl Some]
      by (cases el) (simp_all add: record_uses_events body)
  qed
qed (simp_all add: record_uses_events Let_def)

lemma define_args_events: "fold (define_arg debug) args a = fold effect (map (arg_event debug) args) a"
  by (induction args arbitrary: a) (auto simp: define_arg_def arg_event_def Let_def)

lemma analyze_events:
  "walk_block (sf_body f) (fold (define_arg debug) (sf_args f) analyzer_new) = fold effect (fn_events debug f) analyzer_new"
  by (simp add: walk_events define_args_events fn_events_def)

section \<open>The state after a sequence of events\<close>

definition ticks :: "event list \<Rightarrow> nat" where
  "ticks es = count_list es NextStmt"

lemma ticks_simps [simp]:
  "ticks [] = 0" "ticks (e # es) = (if e = NextStmt then Suc (ticks es) else ticks es)"
  "ticks (es @ fs) = ticks es + ticks fs"
  by (simp_all add: ticks_def)

definition is_suspension :: "event \<Rightarrow> bool" where
  "is_suspension e = (e = Suspends \<or> e = BackEdge)"

text \<open>The last definition of a variable: nothing after it redefines the variable again.\<close>

fun redefines :: "string \<Rightarrow> event \<Rightarrow> bool" where
  "redefines x (Defines y _ _) = (x = y)"
| "redefines x _ = False"

definition last_def :: "string \<Rightarrow> event list \<Rightarrow> event list \<Rightarrow> string \<Rightarrow> bool \<Rightarrow> event list \<Rightarrow> bool" where
  "last_def x es A t z B \<longleftrightarrow> es = A @ Defines x t z # B \<and> \<not> list_ex (redefines x) B"

text \<open>A use among the events \<open>B\<close>, which start at position \<open>k\<close>, at a position beyond \<open>n\<close>.\<close>

definition used_beyond :: "string \<Rightarrow> nat \<Rightarrow> nat \<Rightarrow> event list \<Rightarrow> bool" where
  "used_beyond x n k B \<longleftrightarrow> (\<exists>C D. B = C @ Uses x # D \<and> n < k + ticks C)"

text \<open>A lifetime records a last definition and, seen from a later position, the last use.\<close>

definition records :: "string \<Rightarrow> event list \<Rightarrow> var_lifetime \<Rightarrow> bool" where
  "records x es lt \<longleftrightarrow> (\<exists>A B. last_def x es A (lt_ty lt) (is_zst lt) B \<and> def_position lt = ticks A \<and>
     (\<forall>n \<ge> ticks A. n < last_use_position lt \<longleftrightarrow> used_beyond x n (ticks A) B))"

lemma snoc_split: "es @ [e] = C @ d # D \<longleftrightarrow> (D = [] \<and> d = e \<and> C = es) \<or> (\<exists>D'. D = D' @ [e] \<and> es = C @ d # D')"
  by (cases D rule: rev_cases) auto

lemma last_def_snoc:
  "last_def x (es @ [e]) A t z B \<longleftrightarrow>
     (e = Defines x t z \<and> A = es \<and> B = []) \<or>
     (\<not> redefines x e \<and> (\<exists>B'. B = B' @ [e] \<and> last_def x es A t z B'))"
  by (auto simp: last_def_def snoc_split)

lemma used_beyond_Nil [simp]: "\<not> used_beyond x n k []"
  by (simp add: used_beyond_def)

lemma used_beyond_snoc:
  "used_beyond x n k (B @ [e]) \<longleftrightarrow> used_beyond x n k B \<or> e = Uses x \<and> n < k + ticks B"
  by (auto simp: used_beyond_def snoc_split)

lemma used_beyond_ticks: "used_beyond x n k B \<Longrightarrow> n < k + ticks B"
  by (auto simp: used_beyond_def)

lemma records_snoc_other:
  assumes "\<not> redefines x e" "e \<noteq> Uses x"
  shows "records x (es @ [e]) lt \<longleftrightarrow> records x es lt"
proof -
  have "last_def x (es @ [e]) A t z B \<longleftrightarrow> (\<exists>B'. B = B' @ [e] \<and> last_def x es A t z B')" for A t z B
    using assms by (auto simp: last_def_snoc)
  moreover have "used_beyond x n k (B @ [e]) \<longleftrightarrow> used_beyond x n k B" for n k B
    using assms by (simp add: used_beyond_snoc)
  ultimately show ?thesis unfolding records_def by metis
qed

lemma records_snoc_define:
  "records x (es @ [Defines x t z])
     \<lparr>def_position = ticks es, last_use_position = ticks es, lt_ty = t, is_zst = z\<rparr>"
  by (auto simp: records_def last_def_snoc)

lemma records_snoc_use:
  assumes "records x es lt"
  shows "records x (es @ [Uses x]) (lt\<lparr>last_use_position := ticks es\<rparr>)"
proof -
  obtain A B where "last_def x es A (lt_ty lt) (is_zst lt) B" "def_position lt = ticks A"
    using assms unfolding records_def by blast
  moreover from this have "ticks es = ticks A + ticks B" by (auto simp: last_def_def)
  ultimately show ?thesis
    unfolding records_def
    by (intro exI [of _ A] exI [of _ "B @ [Uses x]"])
      (auto simp: last_def_snoc used_beyond_snoc dest: used_beyond_ticks)
qed

lemma last_def_exists: "(\<exists>A t z B. last_def x es A t z B) \<longleftrightarrow> list_ex (redefines x) es"
proof (induction es rule: rev_induct)
  case (snoc e es)
  then show ?case by (cases e) (simp_all add: last_def_snoc ex_disj_distrib, blast+)
qed (simp add: last_def_def)

lemma last_def_unique:
  "last_def x es A t z B \<Longrightarrow> last_def x es A' t' z' B' \<Longrightarrow> A' = A \<and> B' = B \<and> t' = t \<and> z' = z"
  by (induction es arbitrary: B B' rule: rev_induct) (auto simp: last_def_snoc last_def_def [of _ "[]"])

text \<open>The positions of the suspension points.\<close>

definition suspensions :: "event list \<Rightarrow> nat set" where
  "suspensions es = {n. \<exists>C d D. es = C @ d # D \<and> is_suspension d \<and> n = ticks C}"

lemma suspensions_snoc:
  "suspensions (es @ [e]) = (if is_suspension e then insert (ticks es) (suspensions es) else suspensions es)"
  by (auto simp: suspensions_def snoc_split)

lemma suspensions_Nil [simp]: "suspensions [] = {}"
  by (simp add: suspensions_def)

text \<open>The state of the analysis, described by the events so far.\<close>

fun tracks :: "string \<Rightarrow> event list \<Rightarrow> var_lifetime option \<Rightarrow> bool" where
  "tracks x es None = (\<not> list_ex (redefines x) es)"
| "tracks x es (Some lt) = records x es lt"

lemma tracks_other: "\<not> redefines x e \<Longrightarrow> e \<noteq> Uses x \<Longrightarrow> tracks x (es @ [e]) l = tracks x es l"
  by (cases l) (simp_all add: records_snoc_other)

definition describes :: "analyzer \<Rightarrow> event list \<Rightarrow> bool" where
  "describes a es \<longleftrightarrow> an_position a = ticks es \<and> yp_position ` set (an_yields a) = suspensions es \<and>
     distinct (map fst (an_lifetimes a)) \<and> (\<forall>x. tracks x es (map_of (an_lifetimes a) x))"

lemma describes_new: "describes analyzer_new []"
  by (simp add: describes_def analyzer_new_def)

text \<open>An event that neither defines nor uses a variable leaves the lifetimes alone.\<close>

lemma describes_other:
  assumes "describes a es" "\<And>x. \<not> redefines x e" "\<And>x. e \<noteq> Uses x" "an_lifetimes a' = an_lifetimes a"
    and "an_position a' = ticks (es @ [e])" "yp_position ` set (an_yields a') = suspensions (es @ [e])"
  shows "describes a' (es @ [e])"
  using assms(1-4) by (simp add: describes_def assms(5,6) tracks_other)

text \<open>An event about one variable leaves those of the others alone.\<close>

lemma describes_update:
  assumes "describes a es" "\<And>y. y \<noteq> x \<Longrightarrow> \<not> redefines y e \<and> e \<noteq> Uses y" "\<not> is_suspension e" "e \<noteq> NextStmt"
    and "records x (es @ [e]) lt"
  shows "describes (a\<lparr>an_lifetimes := AList.update x lt (an_lifetimes a)\<rparr>) (es @ [e])"
  using assms by (simp add: describes_def suspensions_snoc update_conv' distinct_update tracks_other)

lemma describes_effect:
  assumes "describes a es"
  shows "describes (effect e a) (es @ [e])"
proof (cases e)
  case (Defines x t z)
  have "an_position a = ticks es" using assms by (simp add: describes_def)
  then show ?thesis
    using describes_update [OF assms, of x e] records_snoc_define [of x es t z]
    by (simp add: Defines define_var_def is_suspension_def)
next
  case (Uses x)
  have l: "tracks x es (map_of (an_lifetimes a) x)" "an_position a = ticks es"
    using assms by (simp_all add: describes_def)
  show ?thesis
  proof (cases "map_of (an_lifetimes a) x")
    case None
    have "tracks y (es @ [Uses x]) (map_of (an_lifetimes a) y)" for y
      using assms l None by (cases "y = x") (simp_all add: describes_def tracks_other)
    then show ?thesis
      using assms by (simp add: Uses use_var_def None describes_def suspensions_snoc is_suspension_def)
  next
    case (Some lt)
    then show ?thesis
      using describes_update [OF assms, of x e] records_snoc_use [of x es lt] l
      by (simp add: Uses use_var_def is_suspension_def)
  qed
next
  case Suspends
  show ?thesis
    by (rule describes_other [OF assms])
      (use assms in \<open>simp_all add: Suspends add_yield_def suspensions_snoc is_suspension_def describes_def\<close>)
next
  case BackEdge
  show ?thesis
    by (rule describes_other [OF assms])
      (use assms in \<open>simp_all add: BackEdge add_yield_def suspensions_snoc is_suspension_def describes_def\<close>)
next
  case NextStmt
  show ?thesis
    by (rule describes_other [OF assms])
      (use assms in \<open>simp_all add: NextStmt next_position_def suspensions_snoc is_suspension_def describes_def\<close>)
qed

lemma describes_fold: "describes a es \<Longrightarrow> describes (fold effect fs a) (es @ fs)"
proof (induction fs arbitrary: a es)
  case (Cons f fs)
  then show ?case using Cons.IH [OF describes_effect [OF Cons.prems, of f]] by simp
qed simp

section \<open>The frame\<close>

text \<open>
  A variable is carried across a suspension: after its last definition, and in a later statement,
  there is a suspension point, and in a still later statement a use.
\<close>

definition carried :: "string \<Rightarrow> event list \<Rightarrow> bool" where
  "carried x es \<longleftrightarrow> (\<exists>A t B y C D. es = A @ Defines x t False # B @ y # C @ Uses x # D \<and>
     is_suspension y \<and> NextStmt \<in> set B \<and> NextStmt \<in> set C \<and> \<not> list_ex (redefines x) (B @ C @ D))"

lemma ticks_pos: "0 < ticks es \<longleftrightarrow> NextStmt \<in> set es"
  by (induction es) auto

lemma later_split:
  assumes "P @ d # Q = C @ e # D" "ticks P < ticks C" "d \<noteq> NextStmt"
  shows "\<exists>M. C = P @ d # M \<and> Q = M @ e # D \<and> NextStmt \<in> set M"
proof -
  obtain us where "P = C @ us \<and> us @ d # Q = e # D \<or> P @ us = C \<and> d # Q = us @ e # D"
    using assms(1) unfolding append_eq_append_conv2 by blast
  then have "P @ us = C" "d # Q = us @ e # D" "0 < ticks us"
    using assms(2) by auto
  then show ?thesis using assms(3) by (cases us) (auto simp: ticks_pos)
qed

lemma is_suspension_no_def [simp]: "is_suspension y \<Longrightarrow> \<not> redefines x y" "is_suspension y \<Longrightarrow> y \<noteq> NextStmt"
  by (auto simp: is_suspension_def)

lemma carried_iff:
  assumes "last_def x es A t z B"
  shows "carried x es \<longleftrightarrow> \<not> z \<and> (\<exists>n \<in> suspensions es. ticks A < n \<and> used_beyond x n (ticks A) B)"
proof
  assume "carried x es"
  then obtain A' t' B' y C D where c: "es = A' @ Defines x t' False # B' @ y # C @ Uses x # D" "is_suspension y"
      "NextStmt \<in> set B'" "NextStmt \<in> set C" "\<not> list_ex (redefines x) (B' @ C @ D)"
    unfolding carried_def by blast
  then have "last_def x es A' t' False (B' @ y # C @ Uses x # D)" by (simp add: last_def_def)
  then have eq: "A' = A" "\<not> z" "B = B' @ y # C @ Uses x # D" using last_def_unique [OF assms] by blast+
  let ?n = "ticks (A @ Defines x t' False # B')"
  have "?n \<in> suspensions es" using c(1,2) 
    unfolding suspensions_def eq(1)
    by (intro CollectI exI [of _ "A @ Defines x t' False # B'"] exI [of _ y] exI [of _ "C @ Uses x # D"]) simp
  moreover have "ticks A < ?n" using c(3) by (simp add: ticks_pos)
  moreover have "used_beyond x ?n (ticks A) B"
    unfolding used_beyond_def using c(2,4) by (intro exI [of _ "B' @ y # C"] exI [of _ D]) (auto simp: eq(3) ticks_pos)
  ultimately show "\<not> z \<and> (\<exists>n \<in> suspensions es. ticks A < n \<and> used_beyond x n (ticks A) B)" using eq(2) by blast
next
  assume r: "\<not> z \<and> (\<exists>n \<in> suspensions es. ticks A < n \<and> used_beyond x n (ticks A) B)"
  have es: "es = A @ Defines x t z # B" "\<not> list_ex (redefines x) B" using assms by (auto simp: last_def_def)
  obtain P y Q where y: "es = P @ y # Q" "is_suspension y" "ticks A < ticks P" "used_beyond x (ticks P) (ticks A) B"
    using r unfolding suspensions_def by blast
  obtain M where M: "P = A @ Defines x t z # M" "B = M @ y # Q" "NextStmt \<in> set M"
    using later_split [of A "Defines x t z" B P y Q] es(1) y(1,3) by auto
  obtain C D where C: "B = C @ Uses x # D" "ticks P < ticks A + ticks C"
    using y(4) unfolding used_beyond_def by blast
  obtain N where "C = M @ y # N" "Q = N @ Uses x # D" "NextStmt \<in> set N"
    using later_split [of M y Q C "Uses x" D] M(1,2) C y(2) by auto
  then show "carried x es"
    unfolding carried_def using es r M y(2) by (intro exI [of _ A] exI [of _ t] exI [of _ M] exI [of _ y] exI [of _ N] exI [of _ D]) auto
qed

lemma sort_key_map: "map f (sort_key f xs) = sort (map f xs)"
  by (intro properties_for_sort [symmetric]) simp_all

lemma map_enumerate: "(\<And>i x. f (g i x) = h x) \<Longrightarrow> map f (map (\<lambda>(i, x). g i x) (enumerate n xs)) = map h xs"
  by (induction xs arbitrary: n) auto

lemma frame_names:
  "map fm_name (frame_of a) =
     sort (map fst (filter (\<lambda>(_, lt). \<not> is_zst lt \<and> crosses_yield a lt) (an_lifetimes a)))"
proof -
  let ?vars = "filter (\<lambda>(_, lt). \<not> is_zst lt \<and> crosses_yield a lt) (an_lifetimes a)"
  let ?ms = "map (\<lambda>(i, x, lt). \<lparr>fm_index = i, fm_ty = lt_ty lt, fm_name = x\<rparr>) (enumerate 0 ?vars)"
  have "map fm_name ?ms = map fst ?vars"
    using map_enumerate [of fm_name "\<lambda>i v. \<lparr>fm_index = i, fm_ty = lt_ty (snd v), fm_name = fst v\<rparr>" fst 0 ?vars]
    by (simp add: case_prod_unfold)
  moreover have "map fm_name (frame_of a) = map fm_name (sort_key fm_name ?ms)"
    unfolding frame_of_def Let_def by (rule map_enumerate) simp
  ultimately show ?thesis by (simp only: sort_key_map)
qed

lemma frame_indices: "map fm_index (frame_of a) = [0..<length (frame_of a)]"
proof -
  have "map fm_index (map (\<lambda>(i, m). m\<lparr>fm_index := i\<rparr>) (enumerate 0 ms)) = [0..<length ms]" for ms :: "frame_member list"
    using map_fst_enumerate [of 0 ms] by (simp add: split_beta o_def)
  then show ?thesis by (simp add: frame_of_def Let_def)
qed

lemma frame_set:
  assumes "describes a es"
  shows "set (map fm_name (frame_of a)) = {x. carried x es}"
proof -
  have d: "distinct (map fst (an_lifetimes a))" "yp_position ` set (an_yields a) = suspensions es"
    using assms by (simp_all add: describes_def)
  have "x \<in> set (map fm_name (frame_of a)) \<longleftrightarrow> carried x es" for x
  proof (cases "map_of (an_lifetimes a) x")
    case None
    then have "\<not> list_ex (redefines x) es" using assms unfolding describes_def by (metis tracks.simps(1))
    then have "\<not> carried x es" by (auto simp: carried_def)
    then show ?thesis using None by (auto simp: frame_names map_of_eq_None_iff)
  next
    case (Some lt)
    then have "records x es lt" using assms unfolding describes_def by (metis tracks.simps(2))
    then obtain A B where l: "last_def x es A (lt_ty lt) (is_zst lt) B" "def_position lt = ticks A"
      "\<forall>n \<ge> ticks A. n < last_use_position lt \<longleftrightarrow> used_beyond x n (ticks A) B"
      unfolding records_def by blast
    have "(x, lt') \<in> set (an_lifetimes a) \<longleftrightarrow> lt' = lt" for lt'
      using Some d(1) by (metis map_of_eq_Some_iff option.inject)
    then have "x \<in> set (map fm_name (frame_of a)) \<longleftrightarrow> \<not> is_zst lt \<and> crosses_yield a lt"
      unfolding frame_names set_sort set_map by (auto simp: image_iff)
    also have "crosses_yield a lt \<longleftrightarrow> (\<exists>n \<in> suspensions es. ticks A < n \<and> used_beyond x n (ticks A) B)"
      using l(3) unfolding crosses_yield_def d(2) [symmetric] l(2) by (auto simp: less_imp_le)
    finally show ?thesis by (simp add: carried_iff [OF l(1)])
  qed
  then show ?thesis by blast
qed

lemma frame_sorted:
  assumes "describes a es"
  shows "map fm_name (frame_of a) = sorted_list_of_set {x. carried x es}"
proof -
  have "distinct (map fst (an_lifetimes a))" using assms by (simp add: describes_def)
  then have "distinct (map fm_name (frame_of a))" "sorted (map fm_name (frame_of a))"
    unfolding frame_names by (simp_all add: distinct_map_filter)
  then show ?thesis
    unfolding frame_set [OF assms, symmetric] by (intro sorted_distinct_set_unique) simp_all
qed

lemma analyze_describes:
  "describes (walk_block (sf_body f) (fold (define_arg debug) (sf_args f) analyzer_new)) (fn_events debug f)"
  using describes_fold [OF describes_new, of "fn_events debug f"] by (simp add: analyze_events)

lemma suspensions_empty: "suspensions es = {} \<longleftrightarrow> \<not> list_ex is_suspension es"
proof -
  have "suspensions es = {} \<longleftrightarrow> (\<forall>C d D. es = C @ d # D \<longrightarrow> \<not> is_suspension d)"
    unfolding suspensions_def by blast
  also have "\<dots> \<longleftrightarrow> (\<forall>d \<in> set es. \<not> is_suspension d)"
    by (metis in_set_conv_decomp)
  finally show ?thesis by (simp add: list_ex_iff)
qed

lemma frame_names_exact:
  assumes "is_yielding f"
  shows "map fm_name (lr_frame_members (analyze debug f)) = sorted_list_of_set {x. carried x (fn_events debug f)} \<and>
    map fm_index (lr_frame_members (analyze debug f)) = [0..<lr_frame_size (analyze debug f)] \<and>
    needs_transform (analyze debug f) = list_ex is_suspension (fn_events debug f)"
proof -
  define a where "a = walk_block (sf_body f) (fold (define_arg debug) (sf_args f) analyzer_new)"
  have d: "describes a (fn_events debug f)" unfolding a_def by (rule analyze_describes)
  have r: "analyze debug f = \<lparr>lr_yield_points = an_yields a, lr_frame_members = frame_of a,
      lr_frame_size = length (frame_of a), needs_transform = an_yields a \<noteq> []\<rparr>"
    using assms by (simp add: analyze_def a_def Let_def)
  have "an_yields a \<noteq> [] \<longleftrightarrow> suspensions (fn_events debug f) \<noteq> {}"
    using d by (auto simp: describes_def)
  then show ?thesis
    by (simp add: r frame_sorted [OF d] frame_indices suspensions_empty)
qed

text \<open>
  Property C22: the analysis is exact about the events of the walk. The frame of a \<open>@yielding\<close> or
  \<open>@pulse\<close> function holds, once each, sorted by name and numbered in that order, the variables that
  are carried across a suspension point: last defined in a statement before it and used in a
  statement after it, zero-sized parameters excepted. The function is transformed when it has a
  suspension point.
\<close>

theorem frame_members_exact:
  assumes "is_yielding f"
  shows "map fm_name (lr_frame_members (analyze debug f)) = sorted_list_of_set {x. carried x (fn_events debug f)} \<and>
    map fm_index (lr_frame_members (analyze debug f)) = [0..<lr_frame_size (analyze debug f)] \<and>
    needs_transform (analyze debug f) = list_ex is_suspension (fn_events debug f)"
  by (rule frame_names_exact [OF assms])

text \<open>
  No value is lost across a direct suspension. A variable that a \<open>let\<close> of the body
  declares, that a later statement of the body uses, and that is not declared again is in the frame
  when a yield call stands between the two.
\<close>

theorem saved_across_yield:
  assumes "is_yielding f"
    and "sf_body f = P @ StSyn (SynLocal (SynPatIdent x m) init) # Q @ StExpr e semi # R @ s # S"
    and "is_yield_call e" "Uses x \<in> set (stmt_events s)"
    and "\<not> list_ex (redefines x) (block_events (Q @ R @ s # S))"
  shows "x \<in> fm_name ` set (lr_frame_members (analyze debug f))"
proof -
  have app: "block_events (ss @ ts) = block_events ss @ block_events ts" for ss ts
    by (induction ss) auto
  obtain U V where s: "stmt_events s = U @ Uses x # V" using assms(4) by (auto dest: split_list)
  let ?B = "(case init of Some e \<Rightarrow> use_events e | None \<Rightarrow> []) @ NextStmt # block_events Q @ use_events e"
  let ?C = "NextStmt # block_events R @ U" and ?D = "V @ NextStmt # block_events S"
  have "fn_events debug f = (map (arg_event debug) (sf_args f) @ block_events P) @
      Defines x ''i64'' False # ?B @ Suspends # ?C @ Uses x # ?D"
    using assms(3) by (simp add: fn_events_def assms(2) app s)
  moreover have "\<not> list_ex (redefines x) (?B @ ?C @ ?D)"
    using assms(5) by (auto simp: app s list_ex_iff split: option.split)
  ultimately have "carried x (fn_events debug f)"
    unfolding carried_def
    by (intro exI [of _ "map (arg_event debug) (sf_args f) @ block_events P"] exI [of _ "''i64''"] exI [of _ ?B]
        exI [of _ Suspends] exI [of _ ?C] exI [of _ ?D]) (simp add: is_suspension_def)
  then have "x \<in> set (map fm_name (lr_frame_members (analyze debug f)))"
    using frame_set [OF analyze_describes] assms(1) by (simp add: analyze_def Let_def)
  then show ?thesis by simp
qed

section \<open>Examples\<close>

definition name_e :: "string \<Rightarrow> syn_expr" where
  "name_e x = SynPath (False, [(x, False)])"

definition yield_stmt :: stmt_ast where
  "yield_stmt = StExpr (SynCall (name_e ''yield_now'') []) True"

definition use_stmt :: stmt_ast where
  "use_stmt = StExpr (SynCall (name_e ''g'') [name_e ''x'']) True"

text \<open>\<open>@yielding fn f(n: i64) { body }\<close>\<close>

definition yielding_fn :: "stmt_ast list \<Rightarrow> salt_fn" where
  "yielding_fn body = \<lparr>sf_attributes = [\<lparr>attr_name = ''yielding'', attr_args = [], int_arg = None, string_arg = None\<rparr>],
     sf_pub = True, sf_name = ''f'', sf_generics = None, sf_args = [(''n'', Some (TyPath [(''i64'', [])]))],
     sf_ret = None, sf_body = body\<rparr>"

definition straight_body :: "stmt_ast list" where
  "straight_body = [StSyn (SynLocal (SynPatIdent ''x'' False) (Some (name_e ''n''))), yield_stmt, use_stmt]"

lemmas liveness_eval = analyze_def frame_of_def crosses_yield_def is_yielding_def has_attribute_def yielding_fn_def
  define_arg_def define_var_def use_var_def add_yield_def next_position_def analyzer_new_def zst_types_def
  yield_stmt_def use_stmt_def name_e_def get_ident_def is_yield_call_def path_name_def Let_def

lemma straight_frame: "map fm_name (lr_frame_members (analyze (\<lambda>_. ''I64'') (yielding_fn straight_body))) = [''x'']"
  by (simp add: liveness_eval straight_body_def)

theorem frame_members_exact_witness:
  "sorted_list_of_set {x. carried x (fn_events (\<lambda>_. ''I64'') (yielding_fn straight_body))} = [''x'']"
  using frame_members_exact [of "yielding_fn straight_body" "\<lambda>_. ''I64''"] straight_frame
  by (simp add: is_yielding_def has_attribute_def yielding_fn_def)

theorem saved_across_yield_witness:
  "''x'' \<in> fm_name ` set (lr_frame_members (analyze (\<lambda>_. ''I64'') (yielding_fn straight_body)))"
proof (rule saved_across_yield)
  show "sf_body (yielding_fn straight_body) =
      [] @ StSyn (SynLocal (SynPatIdent ''x'' False) (Some (name_e ''n''))) # [] @
      StExpr (SynCall (name_e ''yield_now'') []) True # [] @ use_stmt # []"
    by (simp add: yielding_fn_def straight_body_def yield_stmt_def)
qed (simp_all add: liveness_eval)

text \<open>
  What the analysis misses: a variable whose only use is in the loop that is_suspension (the next round
  needs it after the suspension), a \<open>let\<close> with a type, and every suspension in a
  \<open>loop\<close>.
\<close>

lemma loop_carried_variable_lost:
  "lr_frame_members (analyze (\<lambda>_. ''I64'') (yielding_fn
     [StSyn (SynLocal (SynPatIdent ''x'' False) (Some (name_e ''n''))),
      StWhile (name_e ''n'') [use_stmt, yield_stmt]])) = []"
  by (simp add: liveness_eval)

lemma typed_let_not_tracked:
  "lr_frame_members (analyze (\<lambda>_. ''I64'') (yielding_fn
     [StSyn (SynLocal (SynPatType (SynPatIdent ''x'' False) (StdPath [(''i64'', [])])) (Some (name_e ''n''))),
      yield_stmt, use_stmt])) = []"
  by (simp add: liveness_eval)

lemma loop_body_not_walked:
  "\<not> needs_transform (analyze (\<lambda>_. ''I64'') (yielding_fn [StLoop [yield_stmt]]))"
  by (simp add: liveness_eval)

end
