(* ===== verification/Yielding_Driver.thy ===== *)
theory Yielding_Driver
  imports Liveness Lower_Items Async_Step
begin

text \<open>
  The two phases of the compiler driver (\<open>salt-front/src/codegen/mod.rs\<close>) that turn the
  functions with suspensions into state machines: liveness analysis of every function of the file, then
  lowering to the HIR and from there to the state struct and the step function. The tables they keep by
  function name are those of \<open>codegen/context.rs\<close>. A panic of the lowering is
  \<^term>\<open>None\<close>.
\<close>

section \<open>The phases\<close>

type_synonym liveness_table = "string \<rightharpoonup> liveness_result"
type_synonym async_table = "string \<rightharpoonup> item list"

definition register_liveness :: "string \<Rightarrow> liveness_result \<Rightarrow> liveness_table \<Rightarrow> liveness_table" where
  "register_liveness name r live = live(name \<mapsto> r)"

definition register_hir_async :: "string \<Rightarrow> item list \<Rightarrow> async_table \<Rightarrow> async_table" where
  "register_hir_async name its reg = reg(name \<mapsto> its)"

definition analyze_item :: "(syn_type \<Rightarrow> string) \<Rightarrow> item_ast \<Rightarrow> liveness_table \<Rightarrow> liveness_table" where
  "analyze_item debug it live =
     (case it of
        FnItem f \<Rightarrow>
          let r = analyze debug f in if needs_transform r then register_liveness (sf_name f) r live else live
      | _ \<Rightarrow> live)"

definition liveness_phase :: "(syn_type \<Rightarrow> string) \<Rightarrow> item_ast list \<Rightarrow> liveness_table" where
  "liveness_phase debug items = fold (analyze_item debug) items Map.empty"

definition crossing_var_infos :: "lowering \<Rightarrow> frame_member list \<Rightarrow> var_info list" where
  "crossing_var_infos s ms =
     List.map_filter (\<lambda>m. map_option (\<lambda>v. \<lparr>vi_var_id = v, vi_name = fm_name m, vi_ty = I64\<rparr>)
       (var_name_map s (fm_name m))) ms"

definition context_id :: "lowering \<Rightarrow> u32" where
  "context_id s = of_nat (card (dom (var_name_map s)) + 100)"

definition transform_fn :: "liveness_result \<Rightarrow> item_ast \<Rightarrow> string \<Rightarrow> async_table \<Rightarrow> async_table option" where
  "transform_fn live it name reg = do {
     (h, s) \<leftarrow> lower_item it lowering_new;
     Some (case h of
         None \<Rightarrow> reg
       | Some h \<Rightarrow>
           (case item_kind_of h of
              ItemFn fn \<Rightarrow>
                register_hir_async name
                  (lower_async_fn_cfg name fn (crossing_var_infos s (lr_frame_members live)) (context_id s)) reg
            | _ \<Rightarrow> reg))
   }"

fun lowering_phase :: "liveness_table \<Rightarrow> item_ast list \<Rightarrow> async_table \<Rightarrow> async_table option" where
  "lowering_phase live [] reg = Some reg"
| "lowering_phase live (FnItem f # items) reg =
     (case live (sf_name f) of
        None \<Rightarrow> lowering_phase live items reg
      | Some r \<Rightarrow>
          if needs_transform r then do {
            reg \<leftarrow> transform_fn r (FnItem f) (sf_name f) reg;
            lowering_phase live items reg
          } else lowering_phase live items reg)"
| "lowering_phase live (_ # items) reg = lowering_phase live items reg"

definition coroutine_phases :: "(syn_type \<Rightarrow> string) \<Rightarrow> item_ast list \<Rightarrow> async_table option" where
  "coroutine_phases debug items = lowering_phase (liveness_phase debug items) items Map.empty"

section \<open>The names the lowering notes\<close>

text \<open>The names of the \<open>for\<close> variables of a body, where the lowering sees them.\<close>

fun for_names :: "stmt_ast \<Rightarrow> string list"
and block_for_names :: "stmt_ast list \<Rightarrow> string list"
and if_for_names :: "salt_if \<Rightarrow> string list"
and else_for_names :: "salt_else option \<Rightarrow> string list" where
  "for_names (StFor p _ body) = extract_pat_name p # block_for_names body"
| "for_names (StWhile _ body) = block_for_names body"
| "for_names (StLoop body) = block_for_names body"
| "for_names (StIf i) = if_for_names i"
| "for_names _ = []"
| "block_for_names [] = []"
| "block_for_names (s # ss) = for_names s @ block_for_names ss"
| "if_for_names (SaltIf _ body els) = block_for_names body @ else_for_names els"
| "else_for_names None = []"
| "else_for_names (Some (ElseBlock body)) = block_for_names body"
| "else_for_names (Some (ElseIf i)) = if_for_names i"

text \<open>Between two states the names \<open>ns\<close> were noted, with variables among \<open>vs\<close>.\<close>

definition noted :: "lowering \<Rightarrow> lowering \<Rightarrow> string list \<Rightarrow> var_id list \<Rightarrow> bool" where
  "noted s s' ns vs \<longleftrightarrow> (\<exists>new. var_name_map s' = fold (\<lambda>(n, v) m. m(n \<mapsto> v)) new (var_name_map s) \<and>
     map fst new = ns \<and> mset (map snd new) \<subseteq># mset vs)"

lemma noted_none: "var_name_map s' = var_name_map s \<Longrightarrow> noted s s' [] vs"
  by (simp add: noted_def)

lemma noted_trans: "noted s s1 ns vs \<Longrightarrow> noted s1 s2 ms ws \<Longrightarrow> noted s s2 (ns @ ms) (vs @ ws)"
proof -
  assume "noted s s1 ns vs" "noted s1 s2 ms ws"
  then obtain a b where "var_name_map s1 = fold (\<lambda>(n, v) m. m(n \<mapsto> v)) a (var_name_map s)" "map fst a = ns"
      "mset (map snd a) \<subseteq># mset vs" "var_name_map s2 = fold (\<lambda>(n, v) m. m(n \<mapsto> v)) b (var_name_map s1)" "map fst b = ms"
      "mset (map snd b) \<subseteq># mset ws"
    unfolding noted_def by blast
  then show ?thesis
    unfolding noted_def by (intro exI [of _ "a @ b"]) (auto intro: subset_mset.add_mono)
qed

lemma noted_enter [simp]: "var_name_map (enter_scope s) = var_name_map s"
  by (simp add: enter_scope_def)

lemma noted_leave: "leave_scope s = Some s' \<Longrightarrow> var_name_map s' = var_name_map s"
  by (auto simp: leave_scope_def)

definition knows :: "(string \<rightharpoonup> var_id) \<Rightarrow> lowering \<Rightarrow> bool" where
  "knows m s = (var_name_map s = m)"

lemma knows_simps [simp]:
  "knows m (enter_scope s) = knows m s" "knows m (bind_name n v s) = knows m s" "knows m (s\<lparr>next_var_id := v\<rparr>) = knows m s"
  by (simp_all add: knows_def enter_scope_def bind_name_def)

lemma knows_leave: "knows m s \<Longrightarrow> leave_scope s = Some s' \<Longrightarrow> knows m s'"
  by (auto simp: knows_def leave_scope_def)

lemma lower_syn_knows:
  "lower_syn_expr e s = Some (h, s') \<Longrightarrow> knows m s \<Longrightarrow> knows m s'"
  "lower_syn_exprs es s = Some (hs, s') \<Longrightarrow> knows m s \<Longrightarrow> knows m s'"
  "lower_syn_opt r s = Some (ho, s') \<Longrightarrow> knows m s \<Longrightarrow> knows m s'"
  "lower_syn_fields fs s = Some (hf, s') \<Longrightarrow> knows m s \<Longrightarrow> knows m s'"
  "lower_syn_stmts sts s = Some (ss, s') \<Longrightarrow> knows m s \<Longrightarrow> knows m s'"
  "lower_syn_stmt st s = Some (so, s') \<Longrightarrow> knows m s \<Longrightarrow> knows m s'"
proof (induction e s and es s and r s and fs s and sts s and st s
    arbitrary: h s' and hs s' and ho s' and hf s' and ss s' and so s'
    rule: lower_syn_expr_lower_syn_exprs_lower_syn_opt_lower_syn_fields_lower_syn_stmts_lower_syn_stmt.induct)
  case (5 f args s)
  consider (contract) "call_keyword f = Some ''requires'' \<or> call_keyword f = Some ''ensures''"
    | (yield) "call_keyword f = Some ''yield_now''"
    | (call) "call_keyword f \<notin> {Some ''requires'', Some ''ensures'', Some ''yield_now''}" by auto
  then show ?case
  proof cases
    case contract
    obtain a c where a: "args = [a]" "lower_syn_expr a s = Some (c, s')"
      using "5.prems"(1) contract by (auto simp: Option.bind_eq_Some_conv split: list.splits)
    show ?thesis by (rule "5.IH"(1) [OF contract a(1) refl a(2) "5.prems"(2)])
  next
    case yield
    have no: "\<not> (call_keyword f = Some ''requires'' \<or> call_keyword f = Some ''ensures'')" using yield by simp
    show ?thesis
    proof (cases args)
      case Nil
      then show ?thesis using "5.prems" yield by auto
    next
      case (Cons a as)
      then obtain c where a: "args = [a]" "lower_syn_expr a s = Some (c, s')"
        using "5.prems"(1) yield by (auto simp: Option.bind_eq_Some_conv split: list.splits)
      show ?thesis by (rule "5.IH"(2) [OF no yield a(1) refl a(2) "5.prems"(2)])
    qed
  next
    case call
    then show ?thesis
      using "5.prems" "5.IH"(3,4) by (auto simp: Option.bind_eq_Some_conv)
  qed
qed (auto simp: Option.bind_eq_Some_conv lower_local_def alloc_var_id_def Let_def intro: knows_leave)

lemma lower_syn_noted:
  "lower_syn_expr e s = Some (h, s') \<Longrightarrow> var_name_map s' = var_name_map s"
  "lower_syn_opt r s = Some (ho, s') \<Longrightarrow> var_name_map s' = var_name_map s"
  "lower_syn_stmt st s = Some (so, s') \<Longrightarrow> var_name_map s' = var_name_map s"
  using lower_syn_knows(1,3,6) [of _ s _ s' "var_name_map s"] by (simp_all add: knows_def)

lemma noted_for:
  assumes "noted (note_name n v s1) s' ns vs" "var_name_map s1 = var_name_map s" "mset ws = mset (v # vs)"
  shows "noted s s' (n # ns) ws"
proof -
  obtain new where "var_name_map s' = fold (\<lambda>(n, v) m. m(n \<mapsto> v)) new ((var_name_map s)(n \<mapsto> v))" "map fst new = ns"
      "mset (map snd new) \<subseteq># mset vs"
    using assms(1,2) unfolding noted_def by (auto simp: note_name_def)
  then show ?thesis
    unfolding noted_def assms(3) by (intro exI [of _ "(n, v) # new"]) auto
qed

lemma noted_more: "noted s s' ns vs \<Longrightarrow> mset vs \<subseteq># mset ws \<Longrightarrow> noted s s' ns ws"
  unfolding noted_def using subset_mset.order_trans by blast

lemma noted_same:
  "noted s1 s2 ns vs \<Longrightarrow> var_name_map s1 = var_name_map s \<Longrightarrow> var_name_map s2 = var_name_map s' \<Longrightarrow> noted s s' ns vs"
  by (simp add: noted_def)

lemma lower_salt_noted:
  "lower_salt_stmt st s = Some (so, s') \<Longrightarrow> noted s s' (for_names st) (concat (map stmt_binders (stmts_opt so)))"
  "lower_salt_stmts sts s = Some (ss, s') \<Longrightarrow> noted s s' (block_for_names sts) (concat (map stmt_binders ss))"
  "lower_salt_block body s = Some (b, s') \<Longrightarrow> noted s s' (block_for_names body) (block_binders b)"
  "lower_salt_if i s = Some (h, s') \<Longrightarrow> noted s s' (if_for_names i) (expr_binders h)"
  "lower_salt_else els s = Some (ho, s') \<Longrightarrow> noted s s' (else_for_names els) (opt_binders ho)"
proof (induction st s and sts s and body s and i s and els s arbitrary: so s' and ss s' and b s' and h s' and ho s'
    rule: lower_salt_stmt_lower_salt_stmts_lower_salt_block_lower_salt_if_lower_salt_else.induct)
  case (1 st s)
  then show ?case using lower_syn_noted(3) by (auto intro: noted_none)
next
  case (2 e semi s)
  then show ?case
    by (auto simp: Option.bind_eq_Some_conv dest!: lower_syn_noted(1) intro: noted_none)
next
  case (3 r s)
  then show ?case by (auto simp: Option.bind_eq_Some_conv dest!: lower_syn_noted(2) intro: noted_none)
next
  case (4 i s)
  then show ?case by (auto simp: Option.bind_eq_Some_conv)
next
  case (5 c body s)
  then obtain g s1 b where c: "lower_syn_expr c s = Some (g, s1)" and b: "lower_salt_block body s1 = Some (b, s')"
    and so: "so = Some (SWhile g b)"
    by (auto simp: Option.bind_eq_Some_conv simp del: lower_salt_block.simps)
  show ?case
    using noted_trans [OF noted_none [OF lower_syn_noted(1) [OF c], of "expr_binders g"] "5.IH" [OF c refl b]]
    by (simp add: so)
next
  case (6 body s)
  then show ?case by (auto simp: Option.bind_eq_Some_conv simp del: lower_salt_block.simps)
next
  case (9 p iter body s)
  define s1 where "s1 = note_name (extract_pat_name p) (next_var_id s)
      (bind_name (extract_pat_name p) (next_var_id s) (s\<lparr>next_var_id := next_var_id s + 1\<rparr>))"
  from 9 obtain i s2 b where i: "lower_syn_expr iter s1 = Some (i, s2)"
    and b: "lower_salt_block body s2 = Some (b, s')" and so: "so = Some (SFor (next_var_id s) (extract_pat_name p) i b)"
    by (auto simp: s1_def alloc_var_id_def Let_def Option.bind_eq_Some_conv)
  have "noted s2 s' (block_for_names body) (block_binders b)"
    using "9.IH" b i unfolding s1_def alloc_var_id_def by blast
  then have "noted s1 s' (block_for_names body) (expr_binders i @ block_binders b)"
    using noted_trans [OF noted_none [OF lower_syn_noted(1) [OF i]]] by simp
  then show ?case
    unfolding s1_def for_names.simps
    by (rule noted_for) (simp_all add: so bind_name_def)
next
  case (18 st sts s)
  from "18.prems" obtain h s1 hs where st: "lower_salt_stmt st s = Some (h, s1)"
    and sts: "lower_salt_stmts sts s1 = Some (hs, s')" and ss: "ss = stmts_opt h @ hs"
    by (auto simp: Option.bind_eq_Some_conv stmts_opt_def split: option.splits)
  show ?case
    using noted_trans [OF "18.IH"(1) [OF st] "18.IH"(2) [OF st refl sts]] by (simp add: ss)
next
  case (19 body s)
  then show ?case
    by (auto simp: Option.bind_eq_Some_conv noted_leave elim!: noted_same)
next
  case (20 c body els s)
  from "20.prems"(1) obtain g s1 b s2 el where g: "lower_syn_expr c s = Some (g, s1)"
    and b: "lower_salt_block body s1 = Some (b, s2)" and el: "lower_salt_else els s2 = Some (el, s')"
    and h: "h = unit_expr (EIf g b el)"
    by (auto simp: Option.bind_eq_Some_conv simp del: lower_salt_block.simps)
  note 1 = noted_none [OF lower_syn_noted(1) [OF g], of "expr_binders g"]
  show ?case
    using noted_trans [OF 1 noted_trans [OF "20.IH"(1) [OF g refl b] "20.IH"(2) [OF g refl b refl el]]]
    by (simp add: h if_binders)
next
  case (22 body s)
  then show ?case by (auto simp: Option.bind_eq_Some_conv simp del: lower_salt_block.simps)
next
  case (23 i s)
  then show ?case by (auto simp: Option.bind_eq_Some_conv)
qed (auto intro: noted_none)

section \<open>A transformed function\<close>

definition param_names :: "salt_fn \<Rightarrow> string list" where
  "param_names f = map fst (sf_args f)"

lemma lower_signature_names:
  assumes "lower_signature gens d gs args ret = Some sig"
  shows "map param_name (fn_inputs sig) = map fst args"
proof -
  have "traverse (lower_param gens d) args = Some ps \<Longrightarrow> map param_name ps = map fst args" for ps
    by (induction args arbitrary: ps) (auto simp: Option.bind_eq_Some_conv lower_param_def)
  then show ?thesis using assms by (auto simp: lower_signature_def Option.bind_eq_Some_conv)
qed

lemma bind_params_noted:
  "noted s (fold bind_param ps s) (map param_name ps) (map (\<lambda>i. next_var_id s + of_nat i) [0..<length ps])"
proof (induction ps arbitrary: s)
  case (Cons p ps)
  let ?v = "next_var_id s"
  let ?s1 = "bind_name (param_name p) ?v (s\<lparr>next_var_id := ?v + 1\<rparr>)"
  have b: "bind_param p s = note_name (param_name p) ?v ?s1"
    by (simp add: bind_param_def alloc_var_id_def)
  have "next_var_id (bind_param p s) = ?v + 1" by (simp add: b note_name_def bind_name_def)
  moreover have "map (\<lambda>i. ?v + of_nat i) [0..<length (p # ps)] = ?v # map (\<lambda>i. ?v + 1 + of_nat i) [0..<length ps]"
    using map_upt_add [of ?v 1 "length ps"] by simp
  ultimately show ?case
    using noted_for [of "param_name p" ?v ?s1 _ "map param_name ps" _ s] Cons.IH [of "bind_param p s"]
    by (simp add: b) (simp add: bind_name_def)
qed (simp add: noted_none)

text \<open>After lowering a function, the noted names are its parameters and \<open>for\<close> variables.\<close>

lemma lowered_noted:
  assumes "lower_fn_item f s = Some (Some it, s')" "item_kind_of it = ItemFn fn" "fn_body fn = Some b"
  shows "noted s s' (param_names f @ block_for_names (sf_body f)) (map of_nat [0..<length (sf_args f)] @ block_binders b)"
proof -
  let ?s = "start_body (collect_generic_names (sf_generics f)) (snd (alloc_def_id s))"
  obtain sig where sig: "lower_signature (collect_generic_names (sf_generics f)) SelfType (sf_generics f) (sf_args f) (sf_ret f) = Some sig"
    and b: "lower_salt_block (sf_body f) (fold bind_param (fn_inputs sig) ?s) = Some (b, s')"
    using assms by (auto simp: lower_fn_item_def alloc_def_id_def Option.bind_eq_Some_conv Let_def simp del: lower_salt_block.simps)
  have n: "map param_name (fn_inputs sig) = param_names f" "length (fn_inputs sig) = length (sf_args f)"
    using lower_signature_names [OF sig] map_eq_imp_length_eq by (auto simp: param_names_def)
  have z: "next_var_id ?s = 0" "var_name_map ?s = var_name_map s"
    by (simp_all add: start_body_def alloc_def_id_def)
  have "noted ?s s' (param_names f @ block_for_names (sf_body f)) (map of_nat [0..<length (sf_args f)] @ block_binders b)"
    using noted_trans [OF bind_params_noted lower_salt_noted(3) [OF b]] by (simp add: n z(1))
  then show ?thesis by (rule noted_same) (simp_all add: z(2))
qed

lemma fold_update: "fold (\<lambda>(n, v) m. m(n \<mapsto> v)) new m = m ++ map_of (rev new)"
  by (induction new arbitrary: m) auto

lemma distinct_submset:
  assumes "mset xs \<subseteq># mset ys" "distinct ys"
  shows "distinct xs"
proof -
  obtain zs where "mset ys = mset (xs @ zs)"
    using assms(1) ex_mset by (metis mset_append mset_subset_eq_exists_conv)
  then show ?thesis using mset_eq_imp_distinct_iff assms(2) distinct_append by blast
qed

lemma noted_new:
  assumes "noted s s' ns vs" "var_name_map s = Map.empty" "distinct vs"
  shows "dom (var_name_map s') = set ns" "inj_on (var_name_map s') (set ns)" "ran (var_name_map s') \<subseteq> set vs"
    "length ns \<le> length vs"
proof -
  obtain new where new: "var_name_map s' = map_of (rev new)" "map fst new = ns" "mset (map snd new) \<subseteq># mset vs"
    using assms(1,2) unfolding noted_def fold_update by auto
  show "dom (var_name_map s') = set ns" by (auto simp: new(1) new(2) [symmetric] dom_map_of_conv_image_fst)
  have d: "distinct (map snd new)" by (rule distinct_submset [OF new(3) assms(3)])
  show "inj_on (var_name_map s') (set ns)"
  proof (rule inj_onI)
    fix n m assume "n \<in> set ns" "m \<in> set ns" and eq: "var_name_map s' n = var_name_map s' m"
    then obtain v where "var_name_map s' n = Some v"
      using \<open>dom (var_name_map s') = set ns\<close> by blast
    then have "(n, v) \<in> set new" "(m, v) \<in> set new" using eq map_of_SomeD [of "rev new"] by (auto simp: new(1))
    then show "n = m" using d by (metis distinct_map inj_onD prod.inject snd_conv)
  qed
  have "snd ` set new \<subseteq> set vs" using mset_subset_eqD [OF new(3)] by fastforce
  then show "ran (var_name_map s') \<subseteq> set vs"
    by (force simp: new(1) ran_def dest!: map_of_SomeD)
  show "length ns \<le> length vs" using size_mset_mono [OF new(3)] new(2) by auto
qed

lemma crossing_infos:
  assumes "inj_on (var_name_map s) (dom (var_name_map s))"
  shows "map vi_name (crossing_var_infos s ms) = filter (\<lambda>x. x \<in> dom (var_name_map s)) (map fm_name ms)"
    and "distinct (map fm_name ms) \<Longrightarrow> distinct (map vi_var_id (crossing_var_infos s ms))"
    and "vi \<in> set (crossing_var_infos s ms) \<Longrightarrow> var_name_map s (vi_name vi) = Some (vi_var_id vi)"
proof -
  note simps = crossing_var_infos_def map_filter_simps
  show 1: "vi \<in> set (crossing_var_infos s ms) \<Longrightarrow> var_name_map s (vi_name vi) = Some (vi_var_id vi)" for vi ms
    by (induction ms) (auto simp: simps split: option.splits)
  show names: "map vi_name (crossing_var_infos s ms) = filter (\<lambda>x. x \<in> dom (var_name_map s)) (map fm_name ms)" for ms
    by (induction ms) (auto simp: simps split: option.splits)
  assume "distinct (map fm_name ms)"
  then have "distinct (map vi_name (crossing_var_infos s ms))" unfolding names by simp
  then have "distinct (crossing_var_infos s ms)" "inj_on vi_name (set (crossing_var_infos s ms))"
    by (simp_all add: distinct_map)
  moreover have "inj_on vi_var_id (set (crossing_var_infos s ms))"
  proof (rule inj_onI)
    fix v w assume v: "v \<in> set (crossing_var_infos s ms)" and w: "w \<in> set (crossing_var_infos s ms)"
      and eq: "vi_var_id v = vi_var_id w"
    then have "vi_name v = vi_name w"
      using 1 [OF v] 1 [OF w] assms by (metis domI inj_onD)
    then show "v = w" using \<open>inj_on vi_name _\<close> v w by (metis inj_onD)
  qed
  ultimately show "distinct (map vi_var_id (crossing_var_infos s ms))" by (simp add: distinct_map)
qed

section \<open>The phases over a file\<close>

definition file_fns :: "item_ast list \<Rightarrow> salt_fn list" where
  "file_fns items = concat (map (\<lambda>it. case it of FnItem f \<Rightarrow> [f] | _ \<Rightarrow> []) items)"

lemma file_fns_simps [simp]:
  "file_fns [] = []" "file_fns (FnItem f # items) = f # file_fns items"
  "(\<And>f. it \<noteq> FnItem f) \<Longrightarrow> file_fns (it # items) = file_fns items"
  by (auto simp: file_fns_def split: item_ast.split)

lemma analyze_items_other:
  "x \<notin> set (map sf_name (file_fns items)) \<Longrightarrow> fold (analyze_item debug) items live x = live x"
  by (induction items arbitrary: live)
    (auto simp: analyze_item_def register_liveness_def Let_def file_fns_def split: item_ast.splits if_splits)

lemma analyze_items:
  assumes "distinct (map sf_name (file_fns items))" "f \<in> set (file_fns items)" "live (sf_name f) = None"
  shows "fold (analyze_item debug) items live (sf_name f) =
    (if needs_transform (analyze debug f) then Some (analyze debug f) else None)"
  using assms
proof (induction items arbitrary: live)
  case (Cons it items)
  show ?case
  proof (cases "\<exists>g. it = FnItem g")
    case True
    then obtain g where it: "it = FnItem g" by blast
    show ?thesis
    proof (cases "g = f")
      case True
      then have "sf_name f \<notin> set (map sf_name (file_fns items))" using Cons.prems(1) by (simp add: it)
      then show ?thesis
        using Cons.prems(3) by (simp add: it True analyze_items_other) (simp add: analyze_item_def register_liveness_def Let_def)
    next
      case False
      then have f: "f \<in> set (file_fns items)" using Cons.prems(2) by (simp add: it)
      then have "sf_name g \<noteq> sf_name f" using Cons.prems(1) by (auto simp: it)
      then show ?thesis
        using Cons.IH [of "analyze_item debug it live"] Cons.prems f
        by (simp add: it) (simp add: analyze_item_def register_liveness_def Let_def)
    qed
  next
    case False
    then have "analyze_item debug it live = live" "file_fns (it # items) = file_fns items"
      by (cases it; simp add: analyze_item_def file_fns_def)+
    then show ?thesis using Cons by simp
  qed
qed simp

lemma lower_item_fn:
  assumes "lower_item (FnItem f) s = Some (h, s')"
  shows "\<exists>it fn b. h = Some it \<and> item_kind_of it = ItemFn fn \<and> fn_body fn = Some b \<and> lower_fn_item f s = Some (Some it, s')"
  using assms by (auto simp: lower_item_def lower_fn_item_def Let_def Option.bind_eq_Some_conv alloc_def_id_def
      simp del: lower_salt_block.simps)

text \<open>What the lowering phase enters for a function.\<close>

definition transformed :: "liveness_result \<Rightarrow> salt_fn \<Rightarrow> item list \<Rightarrow> bool" where
  "transformed r f its \<longleftrightarrow> (\<exists>it s fn. lower_fn_item f lowering_new = Some (Some it, s) \<and> item_kind_of it = ItemFn fn \<and>
     its = lower_async_fn_cfg (sf_name f) fn (crossing_var_infos s (lr_frame_members r)) (context_id s))"

lemma transform_fn_enters:
  "transform_fn r (FnItem f) name reg = Some reg' \<Longrightarrow> name = sf_name f \<Longrightarrow>
     \<exists>its. reg' = reg(sf_name f \<mapsto> its) \<and> transformed r f its"
  unfolding transform_fn_def transformed_def
  by (auto simp: Option.bind_eq_Some_conv register_hir_async_def dest!: lower_item_fn)

lemma lowering_phase_other:
  "lowering_phase live items reg = Some reg' \<Longrightarrow> x \<notin> set (map sf_name (file_fns items)) \<Longrightarrow> reg' x = reg x"
proof (induction live items reg rule: lowering_phase.induct)
  case (2 live f items reg)
  show ?case
  proof (cases "live (sf_name f)")
    case None
    then show ?thesis using 2 by simp
  next
    case (Some r)
    show ?thesis
    proof (cases "needs_transform r")
      case True
      then obtain reg1 where t: "transform_fn r (FnItem f) (sf_name f) reg = Some reg1" "lowering_phase live items reg1 = Some reg'"
        using "2.prems"(1) Some by (auto simp: Option.bind_eq_Some_conv)
      show ?thesis
        using "2.IH"(2) [OF Some True t] transform_fn_enters [OF t(1)] "2.prems"(2) by auto
    next
      case False
      then show ?thesis using 2 Some by simp
    qed
  qed
qed simp_all

lemma lowering_phase_enters:
  "lowering_phase live items reg = Some reg' \<Longrightarrow> distinct (map sf_name (file_fns items)) \<Longrightarrow> f \<in> set (file_fns items) \<Longrightarrow>
     reg (sf_name f) = None \<Longrightarrow>
     (case live (sf_name f) of
        Some r \<Rightarrow> if needs_transform r then \<exists>its. reg' (sf_name f) = Some its \<and> transformed r f its else reg' (sf_name f) = None
      | None \<Rightarrow> reg' (sf_name f) = None)"
proof (induction live items reg rule: lowering_phase.induct)
  case (2 live g items reg)
  obtain reg1 where step: "lowering_phase live items reg1 = Some reg'"
    "(case live (sf_name g) of
        Some r \<Rightarrow> if needs_transform r then \<exists>its. reg1 = reg(sf_name g \<mapsto> its) \<and> transformed r g its else reg1 = reg
      | None \<Rightarrow> reg1 = reg)"
    "sf_name f \<noteq> sf_name g \<Longrightarrow> f \<in> set (file_fns items) \<Longrightarrow>
      (case live (sf_name f) of
        Some r \<Rightarrow> if needs_transform r then \<exists>its. reg' (sf_name f) = Some its \<and> transformed r f its else reg' (sf_name f) = None
      | None \<Rightarrow> reg' (sf_name f) = None)"
  proof (cases "live (sf_name g)")
    case None
    then show ?thesis using 2 that [of reg] by simp
  next
    case (Some r)
    show ?thesis
    proof (cases "needs_transform r")
      case True
      then obtain reg1 where t: "transform_fn r (FnItem g) (sf_name g) reg = Some reg1" "lowering_phase live items reg1 = Some reg'"
        using "2.prems"(1) Some by (auto simp: Option.bind_eq_Some_conv)
      obtain its where its: "reg1 = reg(sf_name g \<mapsto> its)" "transformed r g its"
        using transform_fn_enters [OF t(1)] by blast
      show ?thesis
        by (rule that [of reg1]) (use "2.IH"(2) [OF Some True t] "2.prems" its Some True t(2) in auto)
    next
      case False
      then show ?thesis using 2 Some that [of reg] by simp
    qed
  qed
  show ?case
  proof (cases "f = g")
    case True
    then have "reg' (sf_name g) = reg1 (sf_name g)"
      using lowering_phase_other [OF step(1)] "2.prems"(2) by simp
    then show ?thesis using step(2) "2.prems"(4) by (auto simp: True split: option.splits if_splits)
  next
    case False
    then have f: "f \<in> set (file_fns items)" using "2.prems"(3) by simp
    have "sf_name g \<notin> sf_name ` set (file_fns items)" using "2.prems"(2) by simp
    then have "sf_name f \<noteq> sf_name g" using imageI [OF f, of sf_name] by auto
    then show ?thesis using step(3) f by blast
  qed
qed simp_all

lemma small_function:
  assumes "lower_fn_item f lowering_new = Some (Some it, s)" "item_kind_of it = ItemFn fn"
    and n: "length (sf_args f) + length (block_binders (the (fn_body fn))) \<le> 100"
  defines "n \<equiv> length (sf_args f) + length (block_binders (the (fn_body fn)))"
  shows "map vi_name (crossing_var_infos s ms) =
      filter (\<lambda>x. x \<in> set (param_names f @ block_for_names (sf_body f))) (map fm_name ms)"
    and "distinct (map fm_name ms) \<Longrightarrow> distinct (map vi_var_id (crossing_var_infos s ms))"
    and "context_id s \<notin> of_nat ` {..<n}"
    and "set (map vi_var_id (crossing_var_infos s ms)) \<subseteq> of_nat ` {..<n}"
proof -
  obtain hs where b: "fn_body fn = Some (Block hs None Unit)"
    and d: "distinct (map of_nat [0..<length (sf_args f)] @ concat (map stmt_binders hs))"
    and ids: "set (concat (map stmt_binders hs)) =
      of_nat ` {length (sf_args f)..<length (sf_args f) + length (concat (map stmt_binders hs))}"
    using lowered_fn_body [OF assms(1,2)] n by auto
  let ?vs = "map of_nat [0..<length (sf_args f)] @ block_binders (Block hs None Unit)"
  let ?ns = "param_names f @ block_for_names (sf_body f)"
  have len: "length ?vs = n" by (simp add: n_def b)
  have "set ?vs = of_nat ` ({0..<length (sf_args f)} \<union>
      {length (sf_args f)..<length (sf_args f) + length (concat (map stmt_binders hs))})"
    unfolding image_Un using ids by simp
  also have "{0..<length (sf_args f)} \<union>
      {length (sf_args f)..<length (sf_args f) + length (concat (map stmt_binders hs))} = {..<n}"
    by (auto simp: n_def b)
  finally have vs: "set ?vs = of_nat ` {..<n}" .
  have nt: "noted lowering_new s ?ns ?vs" by (rule lowered_noted [OF assms(1,2) b])
  note new = noted_new [OF nt _ _]
  have e: "var_name_map lowering_new = Map.empty" by (simp add: lowering_new_def)
  have dv: "distinct ?vs" using d by simp
  have dom: "dom (var_name_map s) = set ?ns" by (rule new(1) [OF e dv])
  have inj: "inj_on (var_name_map s) (dom (var_name_map s))" unfolding dom by (rule new(2) [OF e dv])
  have ran: "ran (var_name_map s) \<subseteq> of_nat ` {..<n}" using new(3) [OF e dv] unfolding vs .
  have "card (dom (var_name_map s)) \<le> n"
    unfolding dom using card_length [of ?ns] new(4) [OF e dv] len by linarith
  then have c: "unat (context_id s) = card (dom (var_name_map s)) + 100"
    using n by (simp add: context_id_def n_def unat_of_nat del: of_nat_add)
  show "map vi_name (crossing_var_infos s ms) = filter (\<lambda>x. x \<in> set ?ns) (map fm_name ms)"
    using crossing_infos(1) [OF inj] unfolding dom .
  show "distinct (map fm_name ms) \<Longrightarrow> distinct (map vi_var_id (crossing_var_infos s ms))"
    by (rule crossing_infos(2) [OF inj])
  show "set (map vi_var_id (crossing_var_infos s ms)) \<subseteq> of_nat ` {..<n}"
    using crossing_infos(3) [OF inj] ran by (fastforce simp: ran_def)
  show "context_id s \<notin> of_nat ` {..<n}"
  proof
    assume "context_id s \<in> of_nat ` {..<n}"
    then obtain i where "context_id s = of_nat i" "i < n" by blast
    then have "unat (context_id s) < 100" using n by (simp add: n_def unat_of_nat)
    then show False using c by simp
  qed
qed

text \<open>
  The state machine of a function that saves those of the given names that are its parameters or
  \<open>for\<close> variables, under different ids; up to a hundred variables, no id is that of the context.
\<close>

definition state_machine_of :: "salt_fn \<Rightarrow> string list \<Rightarrow> item list \<Rightarrow> bool" where
  "state_machine_of f names its \<longleftrightarrow>
     (\<exists>it s fn infos ctx. lower_fn_item f lowering_new = Some (Some it, s) \<and> item_kind_of it = ItemFn fn \<and>
        its = lower_async_fn_cfg (sf_name f) fn infos ctx \<and>
        (let n = length (sf_args f) + length (block_binders (the (fn_body fn)))
         in n \<le> 100 \<longrightarrow>
           map vi_name infos = filter (\<lambda>x. x \<in> set (param_names f @ block_for_names (sf_body f))) names \<and>
           distinct (map vi_var_id infos) \<and> ctx \<notin> of_nat ` {..<n} \<and> set (map vi_var_id infos) \<subseteq> of_nat ` {..<n}))"

lemma transformed_machine:
  assumes "transformed r f its" "distinct (map fm_name (lr_frame_members r))"
  shows "state_machine_of f (map fm_name (lr_frame_members r)) its"
proof -
  obtain it s fn where low: "lower_fn_item f lowering_new = Some (Some it, s)" "item_kind_of it = ItemFn fn"
    and its: "its = lower_async_fn_cfg (sf_name f) fn (crossing_var_infos s (lr_frame_members r)) (context_id s)"
    using assms(1) unfolding transformed_def by blast
  show ?thesis
    unfolding state_machine_of_def Let_def
    by (intro exI [of _ it] exI [of _ s] exI [of _ fn] exI [of _ "crossing_var_infos s (lr_frame_members r)"]
        exI [of _ "context_id s"] conjI impI low its small_function(1,3,4) [OF low] small_function(2) [OF low _ assms(2)])
qed


text \<open>\<open>@yielding fn f(n: i64) { g(n); yield_now(); g(n); }\<close>\<close>

definition carry_fn :: salt_fn where
  "carry_fn = (let use = StExpr (SynCall (name_e ''g'') [name_e ''n'']) True in yielding_fn [use, yield_stmt, use])"

lemma carry_frame: "map fm_name (lr_frame_members (analyze (\<lambda>_. ''I64'') carry_fn)) = [''n'']"
  by (simp add: liveness_eval carry_fn_def)

lemma carry_yields: "is_yielding carry_fn" "list_ex is_suspension (fn_events (\<lambda>_. ''I64'') carry_fn)"
  by (simp_all add: carry_fn_def liveness_eval fn_events_def is_suspension_def)

lemma carry_lowered:
  "lower_item (FnItem carry_fn) lowering_new =
     (let call = SSemi (unit_expr (ECall (unit_expr (EUnresolvedIdent ''g'')) [unit_expr (EVar 0)]))
      in Some (Some \<lparr>item_id = 0, item_name = ''f'', item_vis = Public, item_kind_of = ItemFn
             \<lparr>fn_inputs = [\<lparr>param_name = ''n'', param_ty = I64\<rparr>], fn_output = Unit,
              fn_body = Some (Block [call, SSemi (unit_expr (EYield None)), call] None Unit),
              fn_generics = [], fn_is_async = False\<rparr>\<rparr>,
           \<lparr>next_def_id = 1, next_var_id = 1, lw_scopes = [[''n'' \<mapsto> 0]], current_generic_names = {},
            var_name_map = [''n'' \<mapsto> 0]\<rparr>))"
  by (simp add: lower_item_def lower_fn_item_def carry_fn_def yielding_fn_def yield_stmt_def name_e_def lowering_new_def
      lowering_eval Let_def collect_generic_names_def lower_signature_def lower_param_def read_opt_type_def read_type_def
      unwrap_or_def path_type_def primitive_type_def lower_generics_def)

lemma carry_transformed: "\<exists>reg. coroutine_phases (\<lambda>_. ''I64'') [FnItem carry_fn] = Some reg"
  by (simp add: coroutine_phases_def liveness_phase_def analyze_item_def Let_def register_liveness_def transform_fn_def
      carry_lowered)


text \<open>
  A variable that a \<open>let\<close> declares is never saved, although the analysis finds it carried: the
  lowering does not note it.
\<close>

lemma let_never_saved:
  assumes "lower_fn_item f lowering_new = Some (Some it, s)" "item_kind_of it = ItemFn fn"
    and "length (sf_args f) + length (block_binders (the (fn_body fn))) \<le> 100"
    and "x \<notin> set (param_names f @ block_for_names (sf_body f))"
  shows "x \<notin> vi_name ` set (crossing_var_infos s ms)"
  proof
  assume "x \<in> vi_name ` set (crossing_var_infos s ms)"
  then have "x \<in> set (map vi_name (crossing_var_infos s ms))" by simp
  then show False unfolding small_function(1) [OF assms(1-3)] using assms(4) by simp
qed

text \<open>
  In a function without parameters and \<open>for\<close> loops, the context gets the id 100, whatever its
  \<open>let\<close> variables are called; with more than a hundred of them it is the id of one.
\<close>

lemma context_id_collides:
  assumes "lower_fn_item f lowering_new = Some (Some it, s)" "item_kind_of it = ItemFn fn" "fn_body fn = Some b"
    and "sf_args f = []" "block_for_names (sf_body f) = []" "100 < length (block_binders b)" "length (block_binders b) \<le> 2 ^ 32"
  shows "context_id s \<in> set (block_binders b)"
proof -
  obtain hs where b: "b = Block hs None Unit"
    and ids: "set (concat (map stmt_binders hs)) = of_nat ` {0..<length (concat (map stmt_binders hs))}"
    using lowered_fn_body [OF assms(1,2)] assms(3,4,7) by auto
  have "noted lowering_new s [] (block_binders b)"
    using lowered_noted [OF assms(1-3)] assms(4,5) by (simp add: param_names_def)
  then have "var_name_map s = Map.empty" by (auto simp: noted_def lowering_new_def)
  then have "context_id s = of_nat 100" by (simp add: context_id_def)
  moreover have "(100 :: nat) \<in> {0..<length (concat (map stmt_binders hs))}" using assms(6) by (simp add: b)
  ultimately have "context_id s \<in> set (concat (map stmt_binders hs))" unfolding ids by blast
  then show ?thesis by (simp add: b)
qed

end
