(* ===== verification/Move_Check.thy ===== *)
theory Move_Check
  imports Prelude
begin

text \<open>
  The check for uses of moved values. The emitter keeps the set of consumed variables next to its output
  (\<open>consumed_vars\<close> and \<open>consumption_locs\<close> of
  \<open>salt-front/src/codegen/phases/control_flow.rs\<close>): \<open>move x\<close> enters
  \<open>x\<close>, a plain path that names a local variable looks it up (\<open>emit_path\<close> in
  \<open>codegen/expr/literals.rs\<close>), an \<open>if\<close> statement emits its branches from the
  same set and joins the results (\<open>emit_salt_if\<close> in \<open>codegen/stmt.rs\<close>), and a
  \<open>match\<close> emits its arms one after the other with the set running through
  (\<open>emit_match\<close>). The other ways to use a variable do not look it up: the base of a field
  (\<open>codegen/expr/memory.rs\<close>), the receiver of a method
  (\<open>codegen/expr/calls.rs\<close>), the operand of \<open>&\<close>
  (\<open>codegen/expr/mod.rs\<close>). A statement is reduced to what it does to these two fields; the
  types, values and labels of the emitter are left out.
\<close>

section \<open>The emitter's bookkeeping\<close>

datatype flow_stmt =
    ReadVar string
  | PeekVar string
  | MoveVar string
  | LetVar string
  | IfFlow "flow_stmt list" "flow_stmt list option"
  | MatchFlow "flow_stmt list list"
  | WhileFlow "flow_stmt list"
  | ReturnFlow

record control_flow =
  consumed_vars :: "string set"
  consumption_locs :: "string \<rightharpoonup> string"

datatype move_error = UseOfMoved string

definition control_flow_new :: control_flow where
  "control_flow_new = \<lparr>consumed_vars = {}, consumption_locs = Map.empty\<rparr>"

definition read_var :: "string \<Rightarrow> string set \<Rightarrow> control_flow \<Rightarrow> (move_error, unit) result" where
  "read_var x locals cf = (if x \<in> locals \<and> x \<in> consumed_vars cf then Inl (UseOfMoved x) else Inr ())"

definition emit_move :: "string \<Rightarrow> control_flow \<Rightarrow> control_flow" where
  "emit_move x cf = \<lparr>consumed_vars = insert x (consumed_vars cf),
     consumption_locs = (consumption_locs cf)(x \<mapsto> ''explicit move'')\<rparr>"

text \<open>
  What a branch consumed is added when the variable exists outside; a location is copied when the
  branch has one.
\<close>

definition add_consumed :: "string set \<Rightarrow> control_flow \<Rightarrow> control_flow \<Rightarrow> control_flow" where
  "add_consumed locals branch final =
     \<lparr>consumed_vars = consumed_vars final \<union> (consumed_vars branch \<inter> locals),
      consumption_locs = consumption_locs final ++
        (consumption_locs branch |` (consumed_vars branch \<inter> locals))\<rparr>"

text \<open>
  Emission yields whether control leaves the block, the locals afterwards, and the new fields. A
  \<open>match\<close> is left if all its arms are.
\<close>

type_synonym flow_result = "(move_error, bool \<times> string set \<times> control_flow) result"

fun emit_stmt :: "flow_stmt \<Rightarrow> string set \<Rightarrow> control_flow \<Rightarrow> flow_result"
and emit_block :: "flow_stmt list \<Rightarrow> string set \<Rightarrow> control_flow \<Rightarrow> flow_result"
and emit_arms :: "flow_stmt list list \<Rightarrow> string set \<Rightarrow> control_flow \<Rightarrow> (move_error, bool \<times> control_flow) result" where
  "emit_stmt (ReadVar x) locals cf =
     (case read_var x locals cf of Inl e \<Rightarrow> Inl e | Inr _ \<Rightarrow> Inr (False, locals, cf))"
| "emit_stmt (PeekVar x) locals cf = Inr (False, locals, cf)"
| "emit_stmt (MoveVar x) locals cf = Inr (False, locals, emit_move x cf)"
| "emit_stmt (LetVar x) locals cf = Inr (False, insert x locals, cf)"
| "emit_stmt ReturnFlow locals cf = Inr (True, locals, cf)"
| "emit_stmt (WhileFlow body) locals cf =
     (case emit_block body locals cf of
        Inl e \<Rightarrow> Inl e
      | Inr (_, _, cf) \<Rightarrow> Inr (False, locals, cf))"
| "emit_stmt (IfFlow then_b else_b) locals cf =
     (case emit_block then_b locals cf of
        Inl e \<Rightarrow> Inl e
      | Inr (then_diverges, _, after_then) \<Rightarrow>
          (case else_b of
             None \<Rightarrow> Inr (False, locals, add_consumed locals cf (add_consumed locals after_then cf))
           | Some else_b \<Rightarrow>
               (case emit_block else_b locals cf of
                  Inl e \<Rightarrow> Inl e
                | Inr (else_diverges, _, after_else) \<Rightarrow>
                    Inr (then_diverges \<and> else_diverges, locals,
                      add_consumed locals after_else (add_consumed locals after_then cf)))))"
| "emit_stmt (MatchFlow arms) locals cf =
     (case emit_arms arms locals cf of
        Inl e \<Rightarrow> Inl e
      | Inr (diverges, cf) \<Rightarrow> Inr (diverges, locals, cf))"
| "emit_block [] locals cf = Inr (False, locals, cf)"
| "emit_block (s # ss) locals cf =
     (case emit_stmt s locals cf of
        Inl e \<Rightarrow> Inl e
      | Inr (diverges, locals, cf) \<Rightarrow>
          if diverges then Inr (True, locals, cf) else emit_block ss locals cf)"
| "emit_arms [] locals cf = Inr (True, cf)"
| "emit_arms (a # as) locals cf =
     (case emit_block a locals cf of
        Inl e \<Rightarrow> Inl e
      | Inr (diverges, _, cf) \<Rightarrow>
          (case emit_arms as locals cf of
             Inl e \<Rightarrow> Inl e
           | Inr (rest_diverge, cf) \<Rightarrow> Inr (diverges \<and> rest_diverge, cf)))"

section \<open>Runs\<close>

text \<open>
  A run moves and reads variables; it ends at the end of the block, by returning, or with a plain path
  that reads a moved variable. The condition of an \<open>if\<close> may go either way, a
  \<open>match\<close> takes any of its arms.
\<close>

datatype outcome = Done "string set" | Returned "string set" | BadRead string

inductive runs :: "flow_stmt \<Rightarrow> string set \<Rightarrow> outcome \<Rightarrow> bool"
and runs_all :: "flow_stmt list \<Rightarrow> string set \<Rightarrow> outcome \<Rightarrow> bool" where
  run_read: "x \<notin> M \<Longrightarrow> runs (ReadVar x) M (Done M)"
| run_bad: "x \<in> M \<Longrightarrow> runs (ReadVar x) M (BadRead x)"
| run_peek: "runs (PeekVar x) M (Done M)"
| run_move: "runs (MoveVar x) M (Done (insert x M))"
| run_let: "runs (LetVar x) M (Done (M - {x}))"
| run_return: "runs ReturnFlow M (Returned M)"
| run_then: "runs_all t M r \<Longrightarrow> runs (IfFlow t e) M r"
| run_else: "runs_all e M r \<Longrightarrow> runs (IfFlow t (Some e)) M r"
| run_skip: "runs (IfFlow t None) M (Done M)"
| run_arm: "a \<in> set arms \<Longrightarrow> runs_all a M r \<Longrightarrow> runs (MatchFlow arms) M r"
| run_exit: "runs (WhileFlow b) M (Done M)"
| run_round: "runs_all b M (Done M') \<Longrightarrow> runs (WhileFlow b) M' r \<Longrightarrow> runs (WhileFlow b) M r"
| run_stop: "runs_all b M r \<Longrightarrow> \<forall>M'. r \<noteq> Done M' \<Longrightarrow> runs (WhileFlow b) M r"
| runs_nil: "runs_all [] M (Done M)"
| runs_cons: "runs s M (Done M') \<Longrightarrow> runs_all ss M' r \<Longrightarrow> runs_all (s # ss) M r"
| runs_stop: "runs s M r \<Longrightarrow> \<forall>M'. r \<noteq> Done M' \<Longrightarrow> runs_all (s # ss) M r"

inductive_cases runs_ReadE [elim!]: "runs (ReadVar x) M r"
inductive_cases runs_PeekE [elim!]: "runs (PeekVar x) M r"
inductive_cases runs_MoveE [elim!]: "runs (MoveVar x) M r"
inductive_cases runs_LetE [elim!]: "runs (LetVar x) M r"
inductive_cases runs_ReturnE [elim!]: "runs ReturnFlow M r"
inductive_cases runs_IfE: "runs (IfFlow t e) M r"
inductive_cases runs_MatchE: "runs (MatchFlow arms) M r"

inductive_simps runs_Nil [simp]: "runs_all [] M r"
inductive_simps runs_Cons: "runs_all (s # ss) M r"

section \<open>Scopes and shapes\<close>

text \<open>Reads and moves mention declared variables; a declaration does not hide another.\<close>

definition scope_after :: "string set \<Rightarrow> flow_stmt \<Rightarrow> string set" where
  "scope_after V s = (case s of LetVar x \<Rightarrow> insert x V | _ \<Rightarrow> V)"

fun scoped :: "string set \<Rightarrow> flow_stmt \<Rightarrow> bool"
and scoped_all :: "string set \<Rightarrow> flow_stmt list \<Rightarrow> bool" where
  "scoped V (ReadVar x) = (x \<in> V)"
| "scoped V (PeekVar x) = (x \<in> V)"
| "scoped V (MoveVar x) = (x \<in> V)"
| "scoped V (MatchFlow arms) = list_all (scoped_all V) arms"
| "scoped V (LetVar x) = (x \<notin> V)"
| "scoped V ReturnFlow = True"
| "scoped V (WhileFlow b) = scoped_all V b"
| "scoped V (IfFlow t e) = (scoped_all V t \<and> (case e of None \<Rightarrow> True | Some e \<Rightarrow> scoped_all V e))"
| "scoped_all V [] = True"
| "scoped_all V (s # ss) = (scoped V s \<and> scoped_all (scope_after V s) ss)"

fun loop_free :: "flow_stmt \<Rightarrow> bool"
and loops_free :: "flow_stmt list \<Rightarrow> bool" where
  "loop_free (WhileFlow b) = False"
| "loop_free (IfFlow t e) = (loops_free t \<and> (case e of None \<Rightarrow> True | Some e \<Rightarrow> loops_free e))"
| "loop_free (MatchFlow arms) = list_all loops_free arms"
| "loop_free _ = True"
| "loops_free [] = True"
| "loops_free (s # ss) = (loop_free s \<and> loops_free ss)"

fun return_free :: "flow_stmt \<Rightarrow> bool"
and returns_free :: "flow_stmt list \<Rightarrow> bool" where
  "return_free ReturnFlow = False"
| "return_free (WhileFlow b) = returns_free b"
| "return_free (IfFlow t e) = (returns_free t \<and> (case e of None \<Rightarrow> True | Some e \<Rightarrow> returns_free e))"
| "return_free (MatchFlow arms) = list_all returns_free arms"
| "return_free _ = True"
| "returns_free [] = True"
| "returns_free (s # ss) = (return_free s \<and> returns_free ss)"

text \<open>Blocks without moves, and those whose \<open>match\<close> statements have some arm and only arms without moves.\<close>

fun moveless :: "flow_stmt \<Rightarrow> bool"
and all_moveless :: "flow_stmt list \<Rightarrow> bool" where
  "moveless (MoveVar x) = False"
| "moveless (WhileFlow b) = all_moveless b"
| "moveless (IfFlow t e) = (all_moveless t \<and> (case e of None \<Rightarrow> True | Some e \<Rightarrow> all_moveless e))"
| "moveless (MatchFlow arms) = list_all all_moveless arms"
| "moveless _ = True"
| "all_moveless [] = True"
| "all_moveless (s # ss) = (moveless s \<and> all_moveless ss)"

fun arms_still :: "flow_stmt \<Rightarrow> bool"
and all_still :: "flow_stmt list \<Rightarrow> bool" where
  "arms_still (WhileFlow b) = all_still b"
| "arms_still (IfFlow t e) = (all_still t \<and> (case e of None \<Rightarrow> True | Some e \<Rightarrow> all_still e))"
| "arms_still (MatchFlow arms) = (arms \<noteq> [] \<and> list_all all_moveless arms \<and> list_all all_still arms)"
| "arms_still _ = True"
| "all_still [] = True"
| "all_still (s # ss) = (arms_still s \<and> all_still ss)"

section \<open>No moved value is read\<close>

lemma add_consumed_vars [simp]:
  "consumed_vars (add_consumed V b f) = consumed_vars f \<union> (consumed_vars b \<inter> V)"
  by (simp add: add_consumed_def)

lemma emit_ConsE:
  assumes "emit_block (s # ss) V cf = Inr (d, V', cf')"
  obtains (stop) "emit_stmt s V cf = Inr (True, V', cf')" d
  | (go_on) V1 cf1 where "emit_stmt s V cf = Inr (False, V1, cf1)" "emit_block ss V1 cf1 = Inr (d, V', cf')"
  using assms by (cases "emit_stmt s V cf") (auto split: if_splits)

lemma emit_IfE:
  assumes "emit_stmt (IfFlow t e) V cf = Inr (d, V', cf')"
  obtains (one) d1 V1 cf1 where "e = None" "emit_block t V cf = Inr (d1, V1, cf1)" "\<not> d" "V' = V"
      "consumed_vars cf' = consumed_vars cf \<union> (consumed_vars cf1 \<inter> V)"
  | (two) f d1 V1 cf1 d2 V2 cf2 where "e = Some f" "emit_block t V cf = Inr (d1, V1, cf1)"
      "emit_block f V cf = Inr (d2, V2, cf2)" "d = (d1 \<and> d2)" "V' = V"
      "consumed_vars cf' = consumed_vars cf \<union> (consumed_vars cf1 \<inter> V) \<union> (consumed_vars cf2 \<inter> V)"
proof (cases "emit_block t V cf")
  case (Inr r)
  show ?thesis
  proof (cases e)
    case None
    then show ?thesis using assms Inr by (cases r) (rule one, auto)
  next
    case (Some f)
    then show ?thesis using assms Inr by (cases r; cases "emit_block f V cf") (auto intro: two)
  qed
qed (use assms in auto)

lemma emit_arms_ConsE:
  assumes "emit_arms (a # as) V cf = Inr (d, cf')"
  obtains d1 V1 cf1 d2 where "emit_block a V cf = Inr (d1, V1, cf1)" "emit_arms as V cf1 = Inr (d2, cf')" "d = (d1 \<and> d2)"
proof (cases "emit_block a V cf")
  case (Inr r)
  obtain d1 V1 cf1 where r: "r = (d1, V1, cf1)" by (cases r) auto
  show ?thesis
  proof (cases "emit_arms as V cf1")
    case (Inr r')
    then show ?thesis using assms \<open>emit_block a V cf = Inr r\<close> r by (cases r') (auto intro: that)
  qed (use assms Inr r in auto)
qed (use assms in auto)

lemma emit_facts:
  "emit_stmt s V cf = Inr (d, V', cf') \<Longrightarrow> loop_free s \<Longrightarrow> V' = scope_after V s \<and> consumed_vars cf \<subseteq> consumed_vars cf'"
  "emit_block ss V cf = Inr (d, V', cf') \<Longrightarrow> loops_free ss \<Longrightarrow> V \<subseteq> V' \<and> consumed_vars cf \<subseteq> consumed_vars cf'"
  "emit_arms arms V cf = Inr (d, cf') \<Longrightarrow> list_all loops_free arms \<Longrightarrow> consumed_vars cf \<subseteq> consumed_vars cf'"
proof (induction s V cf and ss V cf and arms V cf arbitrary: d V' cf' and d V' cf' and d cf'
    rule: emit_stmt_emit_block_emit_arms.induct)
  case (7 t e V cf)
  from "7.prems"(1) show ?case by (cases rule: emit_IfE) (auto simp: scope_after_def)
next
  case (10 s ss V cf)
  have V: "V \<subseteq> scope_after V s" by (auto simp: scope_after_def split: flow_stmt.split)
  from "10.prems"(1) show ?case
  proof (cases rule: emit_ConsE)
    case stop
    then show ?thesis using "10.IH"(1) "10.prems"(2) V by auto
  next
    case (go_on V1 cf1)
    then have "V1 = scope_after V s" "consumed_vars cf \<subseteq> consumed_vars cf1" "V1 \<subseteq> V' \<and> consumed_vars cf1 \<subseteq> consumed_vars cf'"
      using "10.IH"(1) [OF go_on(1)] "10.IH"(2) [OF go_on(1) refl refl _ go_on(2)] "10.prems"(2) by auto
    then show ?thesis using V by blast
  qed
next
  case (12 a as V cf)
  from "12.prems"(1) obtain d1 V1 cf1 d2 where b: "emit_block a V cf = Inr (d1, V1, cf1)" "emit_arms as V cf1 = Inr (d2, cf')"
    by (rule emit_arms_ConsE)
  show ?case using "12.IH"(1) [OF b(1)] "12.IH"(2) [OF b(1) refl refl b(2)] "12.prems"(2) by auto
qed (auto simp: scope_after_def emit_move_def read_var_def split: sum.splits if_splits)

lemma add_consumed_same [simp]: "add_consumed V cf cf = cf"
proof -
  have "consumption_locs cf ++ (consumption_locs cf |` X) = consumption_locs cf" for X
    by (rule ext) (auto simp: map_add_def restrict_map_def split: option.split)
  then show ?thesis by (cases cf) (auto simp: add_consumed_def)
qed

lemma emit_moveless:
  "emit_stmt s V cf = Inr (d, V', cf') \<Longrightarrow> moveless s \<Longrightarrow> cf' = cf"
  "emit_block ss V cf = Inr (d, V', cf') \<Longrightarrow> all_moveless ss \<Longrightarrow> cf' = cf"
  "emit_arms arms V cf = Inr (d, cf') \<Longrightarrow> list_all all_moveless arms \<Longrightarrow> cf' = cf"
proof (induction s V cf and ss V cf and arms V cf arbitrary: d V' cf' and d V' cf' and d cf'
    rule: emit_stmt_emit_block_emit_arms.induct)
  case (7 t e V cf)
  obtain d1 V1 cf1 where t: "emit_block t V cf = Inr (d1, V1, cf1)"
    using "7.prems"(1) by (auto split: sum.splits)
  have 1: "cf1 = cf" using "7.IH"(1) [OF t] "7.prems"(2) by simp
  show ?case
  proof (cases e)
    case None
    then show ?thesis using "7.prems"(1) t 1 by simp
  next
    case (Some f)
    obtain d2 V2 cf2 where f: "emit_block f V cf = Inr (d2, V2, cf2)"
      using "7.prems"(1) t Some by (auto split: sum.splits)
    have "cf2 = cf" using "7.IH"(2) [OF t refl refl Some f] "7.prems"(2) Some by simp
    then show ?thesis using "7.prems"(1) t f 1 Some by simp
  qed
next
  case (10 s ss V cf)
  from "10.prems"(1) show ?case
  proof (cases rule: emit_ConsE)
    case stop
    then show ?thesis using "10.IH"(1) [OF stop(1)] "10.prems"(2) by simp
  next
    case (go_on V1 cf1)
    then show ?thesis
      using "10.IH"(1) [OF go_on(1)] "10.IH"(2) [OF go_on(1) refl refl _ go_on(2)] "10.prems"(2) by simp
  qed
next
  case (12 a as V cf)
  from "12.prems"(1) obtain d1 V1 cf1 d2 where b: "emit_block a V cf = Inr (d1, V1, cf1)" "emit_arms as V cf1 = Inr (d2, cf')"
    by (rule emit_arms_ConsE)
  show ?case using "12.IH"(1) [OF b(1)] "12.IH"(2) [OF b(1) refl refl b(2)] "12.prems"(2) by auto
qed (auto simp: read_var_def split: sum.splits if_splits)

text \<open>
  The branches of an \<open>if\<close> expression (\<open>emit_if_expr\<close> in
  \<open>codegen/expr/control_flow.rs\<close>) are emitted like the arms of a \<open>match\<close>; they
  are \<open>syn\<close> blocks, which have no move statement. Then that makes no difference to an
  \<open>if\<close> statement.
\<close>

lemma moveless_if_as_arms:
  assumes "all_moveless t" "all_moveless e"
  shows "emit_stmt (MatchFlow [t, e]) V cf = emit_stmt (IfFlow t (Some e)) V cf"
proof (cases "emit_block t V cf")
  case (Inr r1)
  then obtain d1 V1 where t: "emit_block t V cf = Inr (d1, V1, cf)"
    using emit_moveless(2) [OF _ assms(1)] by (cases r1) auto
  then show ?thesis
  proof (cases "emit_block e V cf")
    case (Inr r2)
    then obtain d2 V2 where "emit_block e V cf = Inr (d2, V2, cf)"
      using emit_moveless(2) [OF _ assms(2)] by (cases r2) auto
    then show ?thesis using t by simp
  qed simp
qed simp

text \<open>
  A run keeps to the consumed variables: what it has moved, among the locals, is consumed, unless
  control has left.
\<close>

definition agrees :: "outcome \<Rightarrow> bool \<Rightarrow> string set \<Rightarrow> control_flow \<Rightarrow> bool" where
  "agrees r d V cf = (case r of Done M \<Rightarrow> \<not> d \<and> M \<inter> V \<subseteq> consumed_vars cf | Returned _ \<Rightarrow> True | BadRead _ \<Rightarrow> False)"

lemma agrees_simps [simp]:
  "agrees (Done M) d V cf = (\<not> d \<and> M \<inter> V \<subseteq> consumed_vars cf)" "agrees (Returned M) d V cf" "\<not> agrees (BadRead x) d V cf"
  by (simp_all add: agrees_def)

lemma emit_sound:
  "emit_stmt s V cf = Inr (d, V', cf') \<Longrightarrow> loop_free s \<Longrightarrow> scoped V s \<Longrightarrow> M \<inter> V \<subseteq> consumed_vars cf \<Longrightarrow>
     runs s M r \<Longrightarrow> agrees r d V' cf'"
  "emit_block ss V cf = Inr (d, V', cf') \<Longrightarrow> loops_free ss \<Longrightarrow> scoped_all V ss \<Longrightarrow> M \<inter> V \<subseteq> consumed_vars cf \<Longrightarrow>
     runs_all ss M r \<Longrightarrow> agrees r d V' cf'"
  "emit_arms arms V cf = Inr (d, cf') \<Longrightarrow> list_all loops_free arms \<Longrightarrow> list_all (scoped_all V) arms \<Longrightarrow>
     M \<inter> V \<subseteq> consumed_vars cf \<Longrightarrow> a \<in> set arms \<Longrightarrow> runs_all a M r \<Longrightarrow> agrees r d V cf'"
proof (induction s V cf and ss V cf and arms V cf arbitrary: d V' cf' M r and d V' cf' M r and d cf' M r a
    rule: emit_stmt_emit_block_emit_arms.induct)
  case (7 t e V cf)
  from "7.prems"(1) show ?case
  proof (cases rule: emit_IfE)
    case (one d1 V1 cf1)
    have "agrees r' d1 V1 cf1" if "runs_all t M r'" for r'
      using "7.IH"(1) [OF one(2)] "7.prems" that by simp
    moreover have "V \<subseteq> V1" using emit_facts(2) [OF one(2)] "7.prems"(2) by simp
    ultimately show ?thesis
      using "7.prems"(4,5) one(1,3,4,5) by (cases r) (fastforce elim!: runs_IfE)+
  next
    case (two f d1 V1 cf1 d2 V2 cf2)
    have t: "agrees r' d1 V1 cf1" if "runs_all t M r'" for r'
      using "7.IH"(1) [OF two(2)] "7.prems" that by simp
    have e: "agrees r' d2 V2 cf2" if "runs_all f M r'" for r'
      using "7.IH"(2) [OF two(2) refl refl two(1,3)] "7.prems" two(1) that by simp
    have "V \<subseteq> V1" "V \<subseteq> V2" using emit_facts(2) [OF two(2)] emit_facts(2) [OF two(3)] "7.prems"(2) two(1) by auto
    then show ?thesis
      using "7.prems"(5) two(1,4,5,6) t e by (cases r) (fastforce elim!: runs_IfE)+
  qed
next
  case (10 s ss V cf)
  from "10.prems"(1) show ?case
  proof (cases rule: emit_ConsE)
    case stop
    have "agrees r' True V' cf'" if "runs s M r'" for r'
      using "10.IH"(1) [OF stop(1)] "10.prems" that by simp
    then show ?thesis using "10.prems"(5) by (cases r) (fastforce simp: runs_Cons)+
  next
    case (go_on V1 cf1)
    have s: "agrees r' False V1 cf1" if "runs s M r'" for r'
      using "10.IH"(1) [OF go_on(1)] "10.prems" that by simp
    have "V1 = scope_after V s" using emit_facts(1) [OF go_on(1)] "10.prems"(2) by simp
    then have rest: "agrees r' d V' cf'" if "runs_all ss M' r'" "M' \<inter> V1 \<subseteq> consumed_vars cf1" for r' M'
      using "10.IH"(2) [OF go_on(1) refl refl _ go_on(2)] "10.prems"(2,3) that by simp
    from "10.prems"(5) consider M' where "runs s M (Done M')" "runs_all ss M' r"
      | "runs s M r" "\<forall>M'. r \<noteq> Done M'" unfolding runs_Cons by blast
    then show ?thesis
    proof cases
      case (1 M')
      then show ?thesis using rest s [OF 1(1)] by simp
    next
      case 2
      then show ?thesis using s [OF 2(1)] by (cases r) auto
    qed
  qed
next
  case (8 arms V cf)
  obtain d1 cf1 where a: "emit_arms arms V cf = Inr (d1, cf1)" "d = d1" "V' = V" "cf' = cf1"
    using "8.prems"(1) by (auto split: sum.splits)
  from "8.prems"(5) obtain b where "b \<in> set arms" "runs_all b M r" by (auto elim: runs_MatchE)
  then show ?case using "8.IH" [OF a(1)] "8.prems"(2-4) a(2-4) by auto
next
  case (12 b bs V cf)
  from "12.prems"(1) obtain d1 V1 cf1 d2 where b: "emit_block b V cf = Inr (d1, V1, cf1)" "emit_arms bs V cf1 = Inr (d2, cf')"
    "d = (d1 \<and> d2)"
    by (rule emit_arms_ConsE)
  have mono: "V \<subseteq> V1" "consumed_vars cf \<subseteq> consumed_vars cf1" "consumed_vars cf1 \<subseteq> consumed_vars cf'"
    using emit_facts(2) [OF b(1)] emit_facts(3) [OF b(2)] "12.prems"(2) by auto
  show ?case
  proof (cases "a \<in> set bs")
    case True
    then show ?thesis
      using "12.IH"(2) [OF b(1) refl refl b(2) _ _ _ True "12.prems"(6)] "12.prems"(2-4) mono(2) b(3)
      by (cases r) auto
  next
    case False
    then have "runs_all b M r" using "12.prems"(5,6) by auto
    then have "agrees r d1 V1 cf1" using "12.IH"(1) [OF b(1)] "12.prems"(2-4) by simp
    then show ?thesis using mono(1,3) b(3) by (cases r) auto
  qed
qed (auto simp: scope_after_def emit_move_def read_var_def split: sum.splits if_splits)

section \<open>Every rejection is due\<close>

definition after :: "flow_stmt \<Rightarrow> string set set \<Rightarrow> string set set" where
  "after s S = {M'. \<exists>M \<in> S. runs s M (Done M')}"

definition after_all :: "flow_stmt list \<Rightarrow> string set set \<Rightarrow> string set set" where
  "after_all ss S = {M'. \<exists>M \<in> S. runs_all ss M (Done M')}"

lemma after_Cons: "after_all (s # ss) S = after_all ss (after s S)"
  by (auto simp: after_def after_all_def runs_Cons)

text \<open>The consumed variables are those that some run has moved.\<close>

definition covers :: "string set set \<Rightarrow> string set \<Rightarrow> control_flow \<Rightarrow> bool" where
  "covers S V cf \<longleftrightarrow> S \<noteq> {} \<and> \<Union>S \<inter> V = consumed_vars cf"

lemma emit_complete:
  "loop_free s \<Longrightarrow> return_free s \<Longrightarrow> arms_still s \<Longrightarrow> scoped V s \<Longrightarrow> covers S V cf \<Longrightarrow>
     (case emit_stmt s V cf of
        Inl _ \<Rightarrow> \<exists>M \<in> S. \<exists>x. runs s M (BadRead x)
      | Inr (d, V', cf') \<Rightarrow> \<not> d \<and> covers (after s S) V' cf')"
  "loops_free ss \<Longrightarrow> returns_free ss \<Longrightarrow> all_still ss \<Longrightarrow> scoped_all V ss \<Longrightarrow> covers S V cf \<Longrightarrow>
     (case emit_block ss V cf of
        Inl _ \<Rightarrow> \<exists>M \<in> S. \<exists>x. runs_all ss M (BadRead x)
      | Inr (d, V', cf') \<Rightarrow> \<not> d \<and> covers (after_all ss S) V' cf')"
  "list_all loops_free arms \<Longrightarrow> list_all returns_free arms \<Longrightarrow> list_all all_still arms \<Longrightarrow> list_all all_moveless arms \<Longrightarrow>
     list_all (scoped_all V) arms \<Longrightarrow> covers S V cf \<Longrightarrow>
     (case emit_arms arms V cf of
        Inl _ \<Rightarrow> \<exists>a \<in> set arms. \<exists>M \<in> S. \<exists>x. runs_all a M (BadRead x)
      | Inr (d, cf') \<Rightarrow> cf' = cf \<and> (d \<longrightarrow> arms = []) \<and>
          (\<forall>a \<in> set arms. after_all a S \<noteq> {} \<and> \<Union>(after_all a S) \<inter> V = consumed_vars cf))"
proof (induction s V cf and ss V cf and arms V cf arbitrary: S and S and S rule: emit_stmt_emit_block_emit_arms.induct)
  case (1 x V cf)
  show ?case
  proof (cases "x \<in> consumed_vars cf")
    case True
    then obtain M where "M \<in> S" "x \<in> M" using "1.prems"(5) by (auto simp: covers_def)
    then show ?thesis using True "1.prems"(4) by (auto simp: read_var_def intro: run_bad)
  next
    case False
    then have "x \<notin> M" if "M \<in> S" for M using "1.prems"(4,5) that by (auto simp: covers_def)
    then have "after (ReadVar x) S = S" by (auto simp: after_def intro: run_read)
    then show ?thesis using False "1.prems"(5) by (simp add: read_var_def)
  qed
next
  case (3 x V cf)
  have "after (MoveVar x) S = insert x ` S" by (auto simp: after_def intro: run_move)
  then show ?case using "3.prems"(4,5) by (auto simp: covers_def emit_move_def)
next
  case (4 x V cf)
  have "after (LetVar x) S = (\<lambda>M. M - {x}) ` S" by (auto simp: after_def intro: run_let)
  then show ?case using "4.prems"(4,5) by (auto simp: covers_def)
next
  case (7 t e V cf)
  have cf: "consumed_vars cf \<subseteq> V" using "7.prems"(5) by (auto simp: covers_def)
  show ?case
  proof (cases "emit_block t V cf")
    case (Inl err)
    then obtain M x where "M \<in> S" "runs_all t M (BadRead x)" using "7.IH"(1) [of S] "7.prems" by auto
    then show ?thesis using Inl by (auto intro: run_then)
  next
    case (Inr r1)
    obtain d1 V1 cf1 where t: "emit_block t V cf = Inr (d1, V1, cf1)" using Inr by (cases r1) auto
    then have t': "\<not> d1" "covers (after_all t S) V1 cf1" "V \<subseteq> V1" "consumed_vars cf \<subseteq> consumed_vars cf1"
      using "7.IH"(1) [of S] "7.prems" emit_facts(2) [OF t] by auto
    show ?thesis
    proof (cases e)
      case None
      have "after (IfFlow t e) S = after_all t S \<union> S"
        by (auto simp: after_def after_all_def None elim: runs_IfE intro: run_then run_skip)
      then show ?thesis using t t' cf "7.prems"(5) by (auto simp: None covers_def)
    next
      case (Some f)
      show ?thesis
      proof (cases "emit_block f V cf")
        case (Inl err)
        then obtain M x where "M \<in> S" "runs_all f M (BadRead x)"
          using "7.IH"(2) [OF t refl refl Some, of S] "7.prems" Some by auto
        then show ?thesis using t Inl Some by (auto intro: run_else)
      next
        case (Inr r2)
        obtain d2 V2 cf2 where f: "emit_block f V cf = Inr (d2, V2, cf2)" using Inr by (cases r2) auto
        then have f': "\<not> d2" "covers (after_all f S) V2 cf2" "V \<subseteq> V2" "consumed_vars cf \<subseteq> consumed_vars cf2"
          using "7.IH"(2) [OF t refl refl Some, of S] "7.prems" Some emit_facts(2) [OF f] by auto
        have "after (IfFlow t e) S = after_all t S \<union> after_all f S"
          by (auto simp: after_def after_all_def Some elim: runs_IfE intro: run_then run_else)
        moreover have "\<Union>(after_all t S) \<inter> V1 = consumed_vars cf1" "\<Union>(after_all f S) \<inter> V2 = consumed_vars cf2"
            "after_all t S \<noteq> {}"
          using t'(2) f'(2) by (simp_all add: covers_def)
        ultimately show ?thesis
          using t'(1,3,4) f'(1,3) cf by (simp add: t f Some covers_def Union_Un_distrib) blast
      qed
    qed
  qed
next
  case (9 V cf)
  then show ?case by (simp add: after_all_def)
next
  case (10 s ss V cf)
  show ?case
  proof (cases "emit_stmt s V cf")
    case (Inl err)
    then obtain M x where "M \<in> S" "runs s M (BadRead x)" using "10.IH"(1) [of S] "10.prems" by auto
    then show ?thesis using Inl by (auto intro: runs_stop)
  next
    case (Inr r1)
    obtain d1 V1 cf1 where s: "emit_stmt s V cf = Inr (d1, V1, cf1)" using Inr by (cases r1) auto
    then have s': "\<not> d1" "covers (after s S) V1 cf1" "V1 = scope_after V s"
      using "10.IH"(1) [of S] "10.prems" emit_facts(1) [OF s] by auto
    note rest = "10.IH"(2) [OF s refl refl s'(1), of "after s S"]
    show ?thesis
    proof (cases "emit_block ss V1 cf1")
      case (Inl err)
      then obtain M M' x where "M \<in> S" "runs s M (Done M')" "runs_all ss M' (BadRead x)"
        using rest s'(2,3) "10.prems" by (auto simp: after_def)
      then show ?thesis using s s'(1) Inl by (auto intro: runs_cons)
    next
      case (Inr r2)
      then show ?thesis using rest s s' "10.prems" by (auto simp: after_Cons)
    qed
  qed
next
  case (2 x V cf)
  have "after (PeekVar x) S = S" by (auto simp: after_def intro: run_peek)
  then show ?case using "2.prems"(5) by simp
next
  case (8 arms V cf)
  have arms: "list_all loops_free arms" "list_all returns_free arms" "list_all all_still arms" "list_all all_moveless arms"
    "list_all (scoped_all V) arms" "arms \<noteq> []" using "8.prems"(1-4) by simp_all
  note ih = "8.IH" [OF arms(1-5) "8.prems"(5)]
  show ?case
  proof (cases "emit_arms arms V cf")
    case (Inl err)
    then obtain a M x where "a \<in> set arms" "M \<in> S" "runs_all a M (BadRead x)" using ih by auto
    then show ?thesis using Inl by (auto intro: run_arm)
  next
    case (Inr r)
    obtain d cf' where e: "emit_arms arms V cf = Inr (d, cf')" using Inr by (cases r) auto
    then have facts: "cf' = cf" "\<not> d" "\<forall>a \<in> set arms. after_all a S \<noteq> {} \<and> \<Union>(after_all a S) \<inter> V = consumed_vars cf"
      using ih arms(6) by auto
    have "after (MatchFlow arms) S = (\<Union>a \<in> set arms. after_all a S)"
      by (fastforce simp: after_def after_all_def elim!: runs_MatchE intro: run_arm)
    moreover have "(\<Union>a \<in> set arms. after_all a S) \<noteq> {}" using facts(3) arms(6) by (cases arms) auto
    moreover have "\<Union>(\<Union>a \<in> set arms. after_all a S) \<inter> V = consumed_vars cf"
    proof -
      have "\<Union>(\<Union>a \<in> set arms. after_all a S) \<inter> V = (\<Union>a \<in> set arms. \<Union>(after_all a S) \<inter> V)" by blast
      then show ?thesis using facts(3) arms(6) by simp
    qed
    ultimately show ?thesis using e facts(1,2) by (simp add: covers_def)
  qed
next
  case (12 b bs V cf)
  have b: "loops_free b" "returns_free b" "all_still b" "all_moveless b" "scoped_all V b" using "12.prems"(1-5) by simp_all
  have bs: "list_all loops_free bs" "list_all returns_free bs" "list_all all_still bs" "list_all all_moveless bs"
    "list_all (scoped_all V) bs" using "12.prems"(1-5) by simp_all
  note ihb = "12.IH"(1) [OF b(1,2,3,5) "12.prems"(6)]
  show ?case
  proof (cases "emit_block b V cf")
    case (Inl err)
    then show ?thesis using ihb by auto
  next
    case (Inr r)
    obtain d1 V1 cf1 where e: "emit_block b V cf = Inr (d1, V1, cf1)" using Inr by (cases r) auto
    have c1: "cf1 = cf" by (rule emit_moveless(2) [OF e b(4)])
    then have h: "\<not> d1" "covers (after_all b S) V1 cf" "V \<subseteq> V1"
      using ihb e emit_facts(2) [OF e b(1)] by auto
    have own: "after_all b S \<noteq> {}" "\<Union>(after_all b S) \<inter> V = consumed_vars cf"
      using h(2,3) "12.prems"(6) by (auto simp: covers_def)
    note ihr = "12.IH"(2) [OF e refl refl bs "12.prems"(6) [folded c1]]
    show ?thesis
    proof (cases "emit_arms bs V cf")
      case (Inl err)
      then show ?thesis using ihr e c1 by auto
    next
      case (Inr r')
      obtain d2 cf2 where "emit_arms bs V cf = Inr (d2, cf2)" using Inr by (cases r') auto
      then show ?thesis using ihr e c1 h(1) own by auto
    qed
  qed
qed auto


text \<open>\<open>let x; if .. { move x; } else { g(x); } g(x);\<close>\<close>

definition maybe_moved :: "flow_stmt list" where
  "maybe_moved = [LetVar ''x'', IfFlow [MoveVar ''x''] (Some [ReadVar ''x'']), ReadVar ''x'']"

lemmas move_eval = maybe_moved_def control_flow_new_def read_var_def emit_move_def add_consumed_def scope_after_def


text \<open>
  A move in a loop is accepted although the second round reads the moved value; a second move is
  accepted; and a new variable with the name of a moved one is rejected.
\<close>

lemma loop_move_accepted:
  "is_Ok (emit_block [LetVar ''x'', WhileFlow [ReadVar ''x'', MoveVar ''x'']] {} control_flow_new) \<and>
   runs_all [LetVar ''x'', WhileFlow [ReadVar ''x'', MoveVar ''x'']] {} (BadRead ''x'')"
proof
  have "runs_all [ReadVar ''x'', MoveVar ''x''] {} (Done {''x''})"
    by (auto simp: runs_Cons intro!: run_read run_move)
  moreover have "runs (WhileFlow [ReadVar ''x'', MoveVar ''x'']) {''x''} (BadRead ''x'')"
    by (rule run_stop) (auto intro!: runs_stop run_bad)
  ultimately have "runs (WhileFlow [ReadVar ''x'', MoveVar ''x'']) {} (BadRead ''x'')"
    by (rule run_round)
  then have "runs_all [WhileFlow [ReadVar ''x'', MoveVar ''x'']] {} (BadRead ''x'')"
    by (rule runs_stop) simp
  then show "runs_all [LetVar ''x'', WhileFlow [ReadVar ''x'', MoveVar ''x'']] {} (BadRead ''x'')"
    using runs_cons [OF run_let [of "''x''" "{}"]] by simp
qed (simp add: move_eval)

lemma double_move_accepted:
  "is_Ok (emit_block [LetVar ''x'', MoveVar ''x'', MoveVar ''x''] {} control_flow_new)"
  by (simp add: move_eval)

text \<open>Uses that do not go through a plain path are not checked.\<close>

lemma unchecked_use_accepted:
  "is_Ok (emit_block [LetVar ''x'', MoveVar ''x'', PeekVar ''x''] {} control_flow_new)"
  by (simp add: move_eval)

text \<open>A move in one arm of a \<open>match\<close> counts in the next arm.\<close>

lemma move_in_other_arm_rejected:
  "emit_block [LetVar ''x'', MatchFlow [[MoveVar ''x''], [ReadVar ''x'']]] {} control_flow_new = Inl (UseOfMoved ''x'')"
  "\<not> runs_all [LetVar ''x'', MatchFlow [[MoveVar ''x''], [ReadVar ''x'']]] {} (BadRead y)"
  by (simp add: move_eval) (auto simp: runs_Cons elim!: runs_MatchE)

lemma new_variable_rejected:
  "emit_block [LetVar ''x'', MoveVar ''x'', LetVar ''x'', ReadVar ''x''] {} control_flow_new = Inl (UseOfMoved ''x'')"
  by (simp add: move_eval)

end
