(* ===== verification/Call_Graph.thy ===== *)
theory Call_Graph
  imports Salt_Ast
begin

text \<open>
  The call graph analysis (\<open>salt-front/src/codegen/passes/call_graph.rs\<close>) and the verifier of
  synchronous functions that queries it (\<open>sync_verifier.rs\<close>). A hash map that is iterated is an
  association list in its iteration order.
\<close>

section \<open>State\<close>

record call_attrs =
  is_pulse :: bool
  is_blocking :: bool
  is_yielding :: bool
  requires_context :: bool
  pulse_hz :: "u32 option"

record call_graph =
  cg_attrs :: "(string \<times> call_attrs) list"
  cg_edges :: "(string \<times> string list) list"

record safety_violation =
  pulse_fn :: string
  blocking_fn :: string
  call_chain :: "string list"

definition default_attrs :: call_attrs where
  "default_attrs =
     \<lparr>is_pulse = False, is_blocking = False, is_yielding = False, requires_context = False, pulse_hz = None\<rparr>"

definition call_graph_new :: call_graph where
  "call_graph_new = \<lparr>cg_attrs = [], cg_edges = []\<rparr>"

definition blocking_operations :: "string list" where
  "blocking_operations =
     [''TcpListener::bind'', ''TcpListener::accept'', ''TcpStream::read'', ''TcpStream::write'',
      ''UdpSocket::recv'', ''UdpSocket::send'', ''fs::read'', ''fs::write'', ''fs::open'',
      ''File::read'', ''File::write'', ''thread::sleep'', ''Mutex::lock'', ''executor::yield_now'']"

definition is_known_blocking :: "string \<Rightarrow> bool" where
  "is_known_blocking callee =
     list_ex (\<lambda>oper. callee = oper \<or> ends_with oper callee) blocking_operations"

section \<open>Calls of a body\<close>

definition expr_to_call_name :: "syn_expr \<Rightarrow> string option" where
  "expr_to_call_name e = (case e of SynPath p \<Rightarrow> Some (path_name p) | _ \<Rightarrow> None)"

fun calls_of_expr :: "syn_expr \<Rightarrow> string list"
and calls_of_syn_stmt :: "syn_stmt \<Rightarrow> string list" where
  "calls_of_expr (SynCall f args) =
     (case expr_to_call_name f of Some name \<Rightarrow> [name] | None \<Rightarrow> []) @ concat (map calls_of_expr args)"
| "calls_of_expr (SynMethodCall r meth args) =
     meth # calls_of_expr r @ concat (map calls_of_expr args)"
| "calls_of_expr (SynBinary l _ r) = calls_of_expr l @ calls_of_expr r"
| "calls_of_expr (SynUnary _ e) = calls_of_expr e"
| "calls_of_expr (SynBlock ss) = concat (map calls_of_syn_stmt ss)"
| "calls_of_expr (SynIf c ss None) = calls_of_expr c @ concat (map calls_of_syn_stmt ss)"
| "calls_of_expr (SynIf c ss (Some e)) =
     calls_of_expr c @ concat (map calls_of_syn_stmt ss) @ calls_of_expr e"
| "calls_of_expr (SynField e _) = calls_of_expr e"
| "calls_of_expr (SynIndex e i) = calls_of_expr e @ calls_of_expr i"
| "calls_of_expr (SynParen e) = calls_of_expr e"
| "calls_of_expr (SynReference e) = calls_of_expr e"
| "calls_of_expr (SynAssign l r) = calls_of_expr l @ calls_of_expr r"
| "calls_of_expr (SynCast e _) = calls_of_expr e"
| "calls_of_expr (SynReturn None) = []"
| "calls_of_expr (SynReturn (Some e)) = calls_of_expr e"
| "calls_of_expr (SynTuple es) = concat (map calls_of_expr es)"
| "calls_of_expr (SynLit _) = []"
| "calls_of_expr (SynPath _) = []"
| "calls_of_expr (SynRange _ _ _) = []"
| "calls_of_expr (SynStruct _ _) = []"
| "calls_of_expr SynOther = []"
| "calls_of_syn_stmt (SynStmtExpr e _) = calls_of_expr e"
| "calls_of_syn_stmt (SynLocal _ _) = []"
| "calls_of_syn_stmt SynStmtOther = []"
| "calls_of_expr SynArray = []"

fun calls_of_stmt :: "stmt_ast \<Rightarrow> string list"
and calls_of_if :: "salt_if \<Rightarrow> string list"
and calls_of_else :: "salt_else \<Rightarrow> string list"
and calls_of_arm :: "match_arm \<Rightarrow> string list" where
  "calls_of_stmt (StExpr e _) = calls_of_expr e"
| "calls_of_stmt (StFor _ iter body) = calls_of_expr iter @ concat (map calls_of_stmt body)"
| "calls_of_stmt (StWhile c body) = calls_of_expr c @ concat (map calls_of_stmt body)"
| "calls_of_stmt (StIf i) = calls_of_if i"
| "calls_of_stmt (StMatch e arms) = calls_of_expr e @ concat (map calls_of_arm arms)"
| "calls_of_stmt (StUnsafe body) = concat (map calls_of_stmt body)"
| "calls_of_stmt (StReturn (Some e)) = calls_of_expr e"
| "calls_of_stmt (StSyn (SynStmtExpr e _)) = calls_of_expr e"
| "calls_of_stmt (StSyn (SynLocal _ (Some e))) = calls_of_expr e"
| "calls_of_stmt (StMove e) = calls_of_expr e"
| "calls_of_stmt (StLetElse _ e body) = calls_of_expr e @ concat (map calls_of_stmt body)"
| "calls_of_stmt _ = []"
| "calls_of_if (SaltIf c body None) = calls_of_expr c @ concat (map calls_of_stmt body)"
| "calls_of_if (SaltIf c body (Some e)) =
     calls_of_expr c @ concat (map calls_of_stmt body) @ calls_of_else e"
| "calls_of_else (ElseBlock body) = concat (map calls_of_stmt body)"
| "calls_of_else (ElseIf i) = calls_of_if i"
| "calls_of_arm (MatchArm _ _ body) = concat (map calls_of_stmt body)"

section \<open>Seeding\<close>

text \<open>The items of a file; a target type is represented by its printed form.\<close>

datatype file_item =
    ItemFn salt_fn
  | ItemMethods string "salt_fn list"
  | ItemTrait string "salt_fn list"
  | ItemOther

definition seed_attrs :: "attribute list \<Rightarrow> call_attrs" where
  "seed_attrs attrs =
     (let a = default_attrs;
          a = (case extract_pulse_hz attrs of
                 Some hz \<Rightarrow> a\<lparr>is_pulse := True, pulse_hz := Some hz, requires_context := True\<rparr>
               | None \<Rightarrow> a);
          a = (if has_attribute attrs ''yielding''
               then a\<lparr>is_yielding := True, requires_context := True\<rparr> else a)
      in if has_attribute attrs ''blocking'' then a\<lparr>is_blocking := True\<rparr> else a)"

definition full_name :: "string option \<Rightarrow> salt_fn \<Rightarrow> string" where
  "full_name target f =
     (case target of Some t \<Rightarrow> t @ ''::'' @ sf_name f | None \<Rightarrow> sf_name f)"

definition seed_function :: "string option \<Rightarrow> salt_fn \<Rightarrow> call_graph \<Rightarrow> call_graph" where
  "seed_function target f g =
     \<lparr>cg_attrs = AList.update (full_name target f) (seed_attrs (sf_attributes f)) (cg_attrs g),
      cg_edges = AList.update (full_name target f) (concat (map calls_of_stmt (sf_body f))) (cg_edges g)\<rparr>"

definition seed_item :: "file_item \<Rightarrow> call_graph \<Rightarrow> call_graph" where
  "seed_item it g =
     (case it of
        ItemFn f \<Rightarrow> seed_function None f g
      | ItemMethods t ms \<Rightarrow> fold (seed_function (Some t)) ms g
      | ItemTrait t ms \<Rightarrow> fold (seed_function (Some t)) ms g
      | ItemOther \<Rightarrow> g)"

definition seed_from_file :: "file_item list \<Rightarrow> call_graph \<Rightarrow> call_graph" where
  "seed_from_file items g = fold seed_item items g"

section \<open>Propagation\<close>

definition set_blocking :: "call_attrs \<Rightarrow> call_attrs" where
  "set_blocking a = a\<lparr>is_blocking := True\<rparr>"

text \<open>Both phases visit every callee of every function, in order.\<close>

definition edge_pairs :: "(string \<times> string list) list \<Rightarrow> (string \<times> string) list" where
  "edge_pairs edges = concat (map (\<lambda>(f, cs). map (Pair f) cs) edges)"

definition mark_direct :: "string \<times> string \<Rightarrow> (string \<times> call_attrs) list \<Rightarrow> (string \<times> call_attrs) list" where
  "mark_direct e attrs =
     (case e of (f, callee) \<Rightarrow>
        if is_known_blocking callee then AList.map_entry f set_blocking attrs else attrs)"

text \<open>One call edge of a round: the callee's attributes as they were before the round.\<close>

definition absorb :: "call_attrs \<Rightarrow> call_attrs \<Rightarrow> call_attrs" where
  "absorb ca a =
     (let a = (if is_blocking ca \<and> \<not> is_blocking a then a\<lparr>is_blocking := True\<rparr> else a)
      in if requires_context ca \<and> \<not> requires_context a then a\<lparr>requires_context := True\<rparr> else a)"

definition propagate_edge ::
  "(string \<times> call_attrs) list \<Rightarrow> string \<times> string \<Rightarrow>
   (string \<times> call_attrs) list \<times> bool \<Rightarrow> (string \<times> call_attrs) list \<times> bool" where
  "propagate_edge snapshot e st =
     (case (e, st) of ((f, callee), attrs, changed) \<Rightarrow>
      case (map_of snapshot callee, map_of attrs f) of
        (Some ca, Some a) \<Rightarrow>
          (AList.map_entry f (absorb ca) attrs,
           changed \<or> is_blocking ca \<and> \<not> is_blocking a \<or> requires_context ca \<and> \<not> requires_context a)
      | _ \<Rightarrow> (attrs, changed))"

definition propagate_round ::
  "(string \<times> string list) list \<Rightarrow> (string \<times> call_attrs) list \<Rightarrow> (string \<times> call_attrs) list \<times> bool" where
  "propagate_round edges attrs = fold (propagate_edge attrs) (edge_pairs edges) (attrs, False)"

text \<open>The rounds end because each one that changes something raises a flag.\<close>

definition unset :: "call_attrs \<Rightarrow> nat" where
  "unset a = of_bool (\<not> is_blocking a) + of_bool (\<not> requires_context a)"

definition pending_flags :: "(string \<times> call_attrs) list \<Rightarrow> nat" where
  "pending_flags attrs = (\<Sum>(_, a)\<leftarrow>attrs. unset a)"

lemma absorb_unset:
  "unset (absorb ca a) +
     of_bool (is_blocking ca \<and> \<not> is_blocking a \<or> requires_context ca \<and> \<not> requires_context a) \<le> unset a"
  by (auto simp: unset_def absorb_def Let_def)

lemma pending_map_entry:
  "map_of attrs f = Some a \<Longrightarrow>
   pending_flags (AList.map_entry f h attrs) + unset a = pending_flags attrs + unset (h a)"
  by (induction attrs) (auto simp: pending_flags_def split: if_splits)

lemma propagate_edge_pending:
  "propagate_edge snap e (attrs, changed) = (attrs', changed') \<Longrightarrow>
   pending_flags attrs' + of_bool changed' \<le> pending_flags attrs + of_bool changed"
proof (cases e; cases "map_of snap (snd e)"; cases "map_of attrs (fst e)")
  fix ca a
  assume eq: "propagate_edge snap e (attrs, changed) = (attrs', changed')"
    and m: "map_of snap (snd e) = Some ca" "map_of attrs (fst e) = Some a"
  have "attrs' = AList.map_entry (fst e) (absorb ca) attrs"
    "changed' = (changed \<or> is_blocking ca \<and> \<not> is_blocking a \<or> requires_context ca \<and> \<not> requires_context a)"
    using eq m by (auto simp: propagate_edge_def split: prod.splits)
  then show ?thesis
    using pending_map_entry [OF m(2), of "absorb ca"] absorb_unset [of ca a] by auto
qed (auto simp: propagate_edge_def)

lemma propagate_pending:
  "fold (propagate_edge snap) es (attrs, changed) = (attrs', changed') \<Longrightarrow>
   pending_flags attrs' + of_bool changed' \<le> pending_flags attrs + of_bool changed"
proof (induction es arbitrary: attrs changed)
  case (Cons e es)
  obtain attrs1 changed1 where e: "propagate_edge snap e (attrs, changed) = (attrs1, changed1)"
    by fastforce
  then show ?case
    using Cons.IH [of attrs1 changed1] Cons.prems propagate_edge_pending [OF e] by simp
qed simp

function propagate_loop ::
  "(string \<times> string list) list \<Rightarrow> (string \<times> call_attrs) list \<Rightarrow> (string \<times> call_attrs) list" where
  "propagate_loop edges attrs =
     (case propagate_round edges attrs of (attrs', changed) \<Rightarrow>
        if changed then propagate_loop edges attrs' else attrs')"
  by pat_completeness auto
termination
proof (relation "measure (\<lambda>(_, attrs). pending_flags attrs)", goal_cases)
  case (2 edges attrs attrs' changed)
  then show ?case
    using propagate_pending [of attrs "edge_pairs edges" attrs False attrs' changed]
    by (simp add: propagate_round_def)
qed simp

declare propagate_loop.simps [simp del]

definition propagate :: "call_graph \<Rightarrow> call_graph" where
  "propagate g =
     g\<lparr>cg_attrs := propagate_loop (cg_edges g) (fold mark_direct (edge_pairs (cg_edges g)) (cg_attrs g))\<rparr>"

section \<open>Propagation computes a least fixed point\<close>

definition call_rel :: "call_graph \<Rightarrow> (string \<times> string) set" where
  "call_rel g = {(f, c). (f, c) \<in> set (edge_pairs (cg_edges g)) \<and>
     map_of (cg_attrs g) f \<noteq> None \<and> map_of (cg_attrs g) c \<noteq> None}"

definition blocks_itself :: "call_graph \<Rightarrow> string \<Rightarrow> bool" where
  "blocks_itself g f =
     ((case map_of (cg_attrs g) f of None \<Rightarrow> False | Some a \<Rightarrow> is_blocking a) \<or>
      (\<exists>c. (f, c) \<in> set (edge_pairs (cg_edges g)) \<and> is_known_blocking c))"

definition context_itself :: "call_graph \<Rightarrow> string \<Rightarrow> bool" where
  "context_itself g f =
     (case map_of (cg_attrs g) f of None \<Rightarrow> False | Some a \<Rightarrow> requires_context a)"

definition leads_to :: "call_graph \<Rightarrow> (string \<Rightarrow> bool) \<Rightarrow> string \<Rightarrow> bool" where
  "leads_to g P f = (\<exists>h. (f, h) \<in> (call_rel g)\<^sup>* \<and> P h)"

text \<open>Attributes with given flags, over fixed other attributes.\<close>

definition flagged ::
  "(string \<rightharpoonup> call_attrs) \<Rightarrow> (string \<Rightarrow> bool) \<Rightarrow> (string \<Rightarrow> bool) \<Rightarrow> string \<rightharpoonup> call_attrs" where
  "flagged base B C =
     (\<lambda>f. map_option (\<lambda>a. a\<lparr>is_blocking := B f, requires_context := C f\<rparr>) (base f))"

lemma map_of_map_entry_upd:
  "map_of (AList.map_entry k h xs) = (map_of xs)(k := map_option h (map_of xs k))"
  by (auto simp: fun_eq_iff map_of_map_entry split: option.splits)

definition spread :: "(string \<rightharpoonup> call_attrs) \<Rightarrow> (string \<times> string) set \<Rightarrow>
    (string \<Rightarrow> bool) \<Rightarrow> (string \<Rightarrow> bool) \<Rightarrow> string \<Rightarrow> bool" where
  "spread base E S B f = (B f \<or> (\<exists>c. (f, c) \<in> E \<and> base f \<noteq> None \<and> base c \<noteq> None \<and> S c))"

lemma spread_mono: "B f \<Longrightarrow> spread base E S B f"
  by (simp add: spread_def)

lemma absorb_flags:
  "absorb (ca\<lparr>is_blocking := s, requires_context := t\<rparr>) (a\<lparr>is_blocking := b, requires_context := c\<rparr>) =
   a\<lparr>is_blocking := b \<or> s, requires_context := c \<or> t\<rparr>"
  by (cases s; cases t; cases b; cases c) (simp_all add: absorb_def Let_def)

lemma propagate_edge_flags:
  assumes "map_of snap = flagged base S T" "map_of attrs = flagged base B C"
    "propagate_edge snap e (attrs, ch) = (attrs', ch')"
  shows "map_of attrs' = flagged base (spread base {e} S B) (spread base {e} T C)"
    and "ch' \<longleftrightarrow> ch \<or> spread base {e} S B \<noteq> B \<or> spread base {e} T C \<noteq> C"
proof -
  obtain f c where e: "e = (f, c)" by fastforce
  have "map_of attrs' = flagged base (spread base {e} S B) (spread base {e} T C) \<and>
    (ch' \<longleftrightarrow> ch \<or> spread base {e} S B \<noteq> B \<or> spread base {e} T C \<noteq> C)"
  proof (cases "base f = None \<or> base c = None")
    case True
    then have same: "spread base {e} S B = B" "spread base {e} T C = C"
      by (auto simp: spread_def fun_eq_iff e)
    have "attrs' = attrs \<and> ch' = ch"
      using assms True by (auto simp: propagate_edge_def e flagged_def split: option.splits)
    then show ?thesis using same assms(2) by simp
  next
    case False
    then obtain a ca where some: "base f = Some a" "base c = Some ca" by auto
    have new: "spread base {e} S B = B(f := B f \<or> S c)" "spread base {e} T C = C(f := C f \<or> T c)"
      by (auto simp: spread_def fun_eq_iff e some)
    have "ch' \<longleftrightarrow> ch \<or> S c \<and> \<not> B f \<or> T c \<and> \<not> C f"
      using assms some by (auto simp: propagate_edge_def e flagged_def)
    moreover have "map_of attrs' = flagged base (B(f := B f \<or> S c)) (C(f := C f \<or> T c))"
      using assms some
      by (auto simp: propagate_edge_def e flagged_def map_of_map_entry_upd fun_eq_iff absorb_flags)
    ultimately show ?thesis unfolding new by (auto simp: fun_eq_iff)
  qed
  then show "map_of attrs' = flagged base (spread base {e} S B) (spread base {e} T C)"
    "ch' \<longleftrightarrow> ch \<or> spread base {e} S B \<noteq> B \<or> spread base {e} T C \<noteq> C" by auto
qed

lemma spread_trans: "spread base E S (spread base F S B) = spread base (E \<union> F) S B"
  by (auto simp: spread_def fun_eq_iff)

lemma spread_none [simp]: "spread base {} S B = B"
  by (auto simp: spread_def fun_eq_iff)

lemma spread_fix:
  "spread base E S B = B \<longleftrightarrow> (\<forall>f c. (f, c) \<in> E \<longrightarrow> base f \<noteq> None \<and> base c \<noteq> None \<and> S c \<longrightarrow> B f)"
  unfolding spread_def fun_eq_iff by blast

lemma spread_unchanged: "spread base (insert e F) S B = B \<longleftrightarrow> spread base {e} S B = B \<and> spread base F S B = B"
  by (auto simp: spread_fix)

lemma propagate_edges_flags:
  assumes "map_of snap = flagged base S T" "map_of attrs = flagged base B C"
    "fold (propagate_edge snap) es (attrs, ch) = (attrs', ch')"
  shows "map_of attrs' = flagged base (spread base (set es) S B) (spread base (set es) T C) \<and>
    (ch' \<longleftrightarrow> ch \<or> spread base (set es) S B \<noteq> B \<or> spread base (set es) T C \<noteq> C)"
  using assms(2,3)
proof (induction es arbitrary: attrs ch B C)
  case (Cons e es)
  obtain attrs1 ch1 where e: "propagate_edge snap e (attrs, ch) = (attrs1, ch1)" by fastforce
  note step = propagate_edge_flags [OF assms(1) Cons.prems(1) e]
  have IH: "map_of attrs' = flagged base (spread base (set es \<union> {e}) S B) (spread base (set es \<union> {e}) T C) \<and>
    (ch' \<longleftrightarrow> ch1 \<or> spread base (set es \<union> {e}) S B \<noteq> spread base {e} S B \<or>
      spread base (set es \<union> {e}) T C \<noteq> spread base {e} T C)"
    using Cons.IH [OF step(1), of ch1] Cons.prems(2) e by (simp add: spread_trans)
  have grow: "spread base (set es \<union> {e}) S B \<noteq> B \<longleftrightarrow>
      spread base {e} S B \<noteq> B \<or> spread base (set es \<union> {e}) S B \<noteq> spread base {e} S B" for S B
    using spread_unchanged [of base e "set es" S B] by auto
  show ?case using IH step(2) grow [of S B] grow [of T C] by auto
qed simp

lemma leads_to_mono: "P f \<Longrightarrow> leads_to g P f"
  by (auto simp: leads_to_def)

lemma spread_leads_to:
  "leads_to g (spread (map_of (cg_attrs g)) (set (edge_pairs (cg_edges g))) P P) = leads_to g P"
proof -
  have step: "spread (map_of (cg_attrs g)) (set (edge_pairs (cg_edges g))) P P h \<longleftrightarrow>
      P h \<or> (\<exists>c. (h, c) \<in> call_rel g \<and> P c)" for h
    by (auto simp: spread_def call_rel_def)
  show ?thesis
    by (auto simp: fun_eq_iff leads_to_def step dest: rtrancl_into_rtrancl)
qed

lemma leads_to_closed:
  assumes "\<And>f c. (f, c) \<in> call_rel g \<Longrightarrow> P c \<Longrightarrow> P f"
  shows "leads_to g P = P"
proof -
  have "P f" if "(f, h) \<in> (call_rel g)\<^sup>*" "P h" for f h
    using that by (induction rule: converse_rtrancl_induct) (auto intro: assms)
  then show ?thesis by (auto simp: fun_eq_iff leads_to_def)
qed

lemma propagate_loop_flags:
  assumes "map_of attrs = flagged (map_of (cg_attrs g)) B C"
  shows "map_of (propagate_loop (cg_edges g) attrs) =
    flagged (map_of (cg_attrs g)) (leads_to g B) (leads_to g C)"
  using assms
proof (induction "cg_edges g" attrs arbitrary: B C rule: propagate_loop.induct)
  case (1 attrs)
  let ?base = "map_of (cg_attrs g)" and ?E = "set (edge_pairs (cg_edges g))"
  obtain attrs' ch where r: "propagate_round (cg_edges g) attrs = (attrs', ch)" by fastforce
  have flags: "map_of attrs' = flagged ?base (spread ?base ?E B B) (spread ?base ?E C C)"
    and ch: "ch \<longleftrightarrow> spread ?base ?E B B \<noteq> B \<or> spread ?base ?E C C \<noteq> C"
    using propagate_edges_flags [OF "1.prems" "1.prems" r [unfolded propagate_round_def]] by auto
  show ?case
  proof (cases ch)
    case True
    then show ?thesis
      using "1.hyps" [OF r [symmetric] True flags] r
      by (simp add: propagate_loop.simps [of _ attrs] spread_leads_to)
  next
    case False
    then have stable: "spread ?base ?E B B = B" "spread ?base ?E C C = C" using ch by auto
    have "leads_to g B = B" "leads_to g C = C"
      using stable by (auto simp: spread_fix call_rel_def intro!: leads_to_closed)
    then show ?thesis using False flags r stable by (simp add: propagate_loop.simps [of _ attrs])
  qed
qed

lemma mark_direct_flags:
  "map_of (fold mark_direct es attrs) = (\<lambda>f. map_option
     (\<lambda>a. a\<lparr>is_blocking := is_blocking a \<or> (\<exists>c. (f, c) \<in> set es \<and> is_known_blocking c)\<rparr>) (map_of attrs f))"
proof (induction es arbitrary: attrs)
  case (Cons e es)
  obtain f c where e: "e = (f, c)" by fastforce
  have "map_of (mark_direct e attrs) = (\<lambda>h. map_option
      (\<lambda>a. a\<lparr>is_blocking := is_blocking a \<or> h = f \<and> is_known_blocking c\<rparr>) (map_of attrs h))"
    by (auto simp: mark_direct_def e map_of_map_entry_upd set_blocking_def [abs_def] fun_eq_iff option.map_ident)
  then show ?case
    by (simp add: Cons.IH e option.map_comp o_def conj_disj_distribR ex_disj_distrib disj_assoc)
qed (simp add: option.map_ident)

text \<open>
  Property C20: the propagation ends with the least fixed point. Afterwards a function is blocking
  exactly when a chain of calls leads from it to a function that is annotated as blocking or calls
  a known blocking operation, it requires a context exactly when a chain leads to a function
  annotated so, and nothing else has changed.
\<close>

theorem propagate_exact:
  "map_of (cg_attrs (propagate g)) f = map_option
     (\<lambda>a. a\<lparr>is_blocking := leads_to g (blocks_itself g) f,
           requires_context := leads_to g (context_itself g) f\<rparr>) (map_of (cg_attrs g) f)"
proof -
  have seed: "map_of (fold mark_direct (edge_pairs (cg_edges g)) (cg_attrs g)) =
      flagged (map_of (cg_attrs g)) (blocks_itself g) (context_itself g)"
    by (auto simp: mark_direct_flags flagged_def blocks_itself_def context_itself_def fun_eq_iff
        split: option.splits)
  show ?thesis by (simp add: propagate_def propagate_loop_flags [OF seed] flagged_def)
qed

section \<open>The blocking chain of a pulse function\<close>

definition callees_of :: "call_graph \<Rightarrow> string \<Rightarrow> string list" where
  "callees_of g f = (case map_of (cg_edges g) f of Some cs \<Rightarrow> cs | None \<Rightarrow> [])"

definition cg_is_blocking :: "call_graph \<Rightarrow> string \<Rightarrow> bool" where
  "cg_is_blocking g f = (case map_of (cg_attrs g) f of Some a \<Rightarrow> is_blocking a | None \<Rightarrow> False)"

definition cg_requires_context :: "call_graph \<Rightarrow> string \<Rightarrow> bool" where
  "cg_requires_context g f = (case map_of (cg_attrs g) f of Some a \<Rightarrow> requires_context a | None \<Rightarrow> False)"

definition blocking_functions :: "call_graph \<Rightarrow> string list" where
  "blocking_functions g = map fst (filter (\<lambda>(_, a). is_blocking a) (cg_attrs g))"

text \<open>Breadth-first search over paths; the visited set grows by functions with an edge list.\<close>

function blocking_search :: "call_graph \<Rightarrow> string set \<Rightarrow> string list list \<Rightarrow> string list option" where
  "blocking_search g visited [] = None"
| "blocking_search g visited (path # queue) =
     (let current = last path in
      if current \<in> visited then blocking_search g visited queue
      else if is_known_blocking current then Some path
      else if cg_is_blocking g current \<and> 1 < length path then Some path
      else blocking_search g (insert current visited)
             (queue @ map (\<lambda>c. path @ [c])
                (filter (\<lambda>c. c \<notin> insert current visited) (callees_of g current))))"
  by pat_completeness auto
termination
proof (relation "measures [\<lambda>(g, visited, _). card (fst ` set (cg_edges g) - visited),
    \<lambda>(_, _, queue). length queue]", goal_cases)
  case (3 g visited path queue current)
  have "card (fst ` set (cg_edges g) - insert current visited) \<le> card (fst ` set (cg_edges g) - visited)"
    by (intro card_mono) auto
  moreover have "card (fst ` set (cg_edges g) - insert current visited) < card (fst ` set (cg_edges g) - visited)"
    if "callees_of g current \<noteq> []"
  proof (intro psubset_card_mono)
    have "current \<in> fst ` set (cg_edges g)"
      using that map_of_SomeD by (force simp: callees_of_def split: option.splits)
    then show "fst ` set (cg_edges g) - insert current visited \<subset> fst ` set (cg_edges g) - visited"
      using 3 by auto
  qed simp
  ultimately show ?case
    by (cases "callees_of g current = []") (auto simp: order_le_less)
qed auto

definition find_blocking_chain :: "call_graph \<Rightarrow> string \<Rightarrow> string list option" where
  "find_blocking_chain g start = blocking_search g {} [[start]]"

definition violation_of :: "call_graph \<Rightarrow> string \<times> call_attrs \<Rightarrow> safety_violation option" where
  "violation_of g entry =
     (case entry of (f, a) \<Rightarrow>
        if is_pulse a \<and> is_blocking a then
          map_option (\<lambda>chain. \<lparr>pulse_fn = f, blocking_fn = last chain, call_chain = chain\<rparr>)
            (find_blocking_chain g f)
        else None)"

definition verify_pulse_safety :: "call_graph \<Rightarrow> safety_violation list" where
  "verify_pulse_safety g = List.map_filter (violation_of g) (cg_attrs g)"

definition analyze :: "file_item list \<Rightarrow> call_graph \<times> safety_violation list" where
  "analyze items =
     (let g = propagate (seed_from_file items call_graph_new) in (g, verify_pulse_safety g))"

definition stops :: "call_graph \<Rightarrow> string \<Rightarrow> bool" where
  "stops g c = (is_known_blocking c \<or> cg_is_blocking g c)"

lemma search_first_hop:
  assumes "c \<in> set cs" "stops g c" "c \<notin> visited"
  shows "\<exists>d \<in> set cs - visited. stops g d \<and>
    blocking_search g visited (map (\<lambda>c. [s, c]) cs @ rest) = Some [s, d]"
  using assms
proof (induction cs arbitrary: visited rest)
  case (Cons d ds)
  show ?case
  proof (cases "stops g d \<and> d \<notin> visited")
    case True
    then show ?thesis by (auto simp: Let_def stops_def)
  next
    case False
    then have "c \<in> set ds" using Cons.prems by auto
    moreover have "c \<notin> insert d visited" if "d \<notin> visited" using False that Cons.prems by auto
    ultimately show ?thesis
      using Cons.IH [of visited rest] Cons.prems False
        Cons.IH [of "insert d visited" "rest @ map (\<lambda>c. [s, d] @ [c])
          (filter (\<lambda>c. c \<notin> insert d visited) (callees_of g d))"]
      by (cases "d \<in> visited") (auto simp: Let_def stops_def)
  qed
qed simp

lemma search_none:
  assumes "\<forall>path \<in> set queue. last path \<in> Z" "\<forall>c \<in> Z. stops g c \<longrightarrow> c \<in> visited"
    "\<forall>c \<in> Z. set (callees_of g c) \<subseteq> Z"
  shows "blocking_search g visited queue = None"
  using assms
proof (induction g visited queue rule: blocking_search.induct)
  case (2 g visited path queue)
  show ?case
  proof (cases "last path \<in> visited")
    case True
    then show ?thesis using 2 by (simp add: Let_def)
  next
    case False
    then have ns: "\<not> stops g (last path)" using 2 by auto
    let ?queue = "queue @ map (\<lambda>c. path @ [c])
        (filter (\<lambda>c. c \<notin> insert (last path) visited) (callees_of g (last path)))"
    have "last path \<in> Z" using 2(3) by simp
    then have "set (callees_of g (last path)) \<subseteq> Z" using 2(5) by blast
    then have q: "\<forall>p \<in> set ?queue. last p \<in> Z" using 2(3) by auto
    have "blocking_search g (insert (last path) visited) ?queue = None"
      using 2(2) [OF refl False _ _ q] 2(4,5) ns by (auto simp: stops_def)
    then show ?thesis using False ns by (auto simp: Let_def stops_def)
  qed
qed simp

lemma keys_map_entry [simp]: "map fst (AList.map_entry k h xs) = map fst xs"
  by (induction xs) auto

lemma propagate_edge_keys: "map fst (fst (propagate_edge snap e st)) = map fst (fst st)"
  by (auto simp: propagate_edge_def split: prod.splits option.splits)

lemma propagate_edges_keys: "map fst (fst (fold (propagate_edge snap) es st)) = map fst (fst st)"
  by (induction es arbitrary: st) (simp_all add: propagate_edge_keys)

lemma propagate_loop_keys: "map fst (propagate_loop edges attrs) = map fst attrs"
proof (induction edges attrs rule: propagate_loop.induct)
  case (1 edges attrs)
  obtain attrs' ch where r: "propagate_round edges attrs = (attrs', ch)" by fastforce
  then have "map fst attrs' = map fst attrs"
    using propagate_edges_keys [of attrs "edge_pairs edges" "(attrs, False)"]
    by (simp add: propagate_round_def)
  then show ?case using 1 r by (auto simp: propagate_loop.simps [of _ attrs])
qed

lemma mark_direct_keys: "map fst (fold mark_direct es attrs) = map fst attrs"
  by (induction es arbitrary: attrs) (auto simp: mark_direct_def split: prod.splits)

lemma propagate_keys: "map fst (cg_attrs (propagate g)) = map fst (cg_attrs g)"
  by (simp add: propagate_def propagate_loop_keys mark_direct_keys)

lemma propagate_edges [simp]: "cg_edges (propagate g) = cg_edges g"
  by (simp add: propagate_def)

definition cg_ok :: "call_graph \<Rightarrow> bool" where
  "cg_ok g \<longleftrightarrow> distinct (map fst (cg_attrs g)) \<and> distinct (map fst (cg_edges g)) \<and>
     fst ` set (cg_attrs g) = fst ` set (cg_edges g)"

lemma seed_function_ok: "cg_ok g \<Longrightarrow> cg_ok (seed_function t f g)"
  by (simp add: cg_ok_def seed_function_def distinct_update dom_update)

lemma seed_ok: "cg_ok g \<Longrightarrow> cg_ok (seed_from_file items g)"
proof -
  have ms: "cg_ok g \<Longrightarrow> cg_ok (fold (seed_function t) ms g)" for t ms g
    by (induction ms arbitrary: g) (simp_all add: seed_function_ok)
  show "cg_ok g \<Longrightarrow> cg_ok (seed_from_file items g)"
    unfolding seed_from_file_def
    by (induction items arbitrary: g) (auto simp: seed_item_def ms seed_function_ok split: file_item.splits)
qed

lemma callees_edge: "cg_ok g \<Longrightarrow> c \<in> set (callees_of g f) \<longleftrightarrow> (f, c) \<in> set (edge_pairs (cg_edges g))"
  by (force simp: cg_ok_def callees_of_def edge_pairs_def map_of_eq_None_iff dest: map_of_SomeD
      split: option.splits)

lemma callees_defined: "cg_ok g \<Longrightarrow> c \<in> set (callees_of g f) \<Longrightarrow> map_of (cg_attrs g) f \<noteq> None"
  by (force simp: cg_ok_def callees_of_def map_of_eq_None_iff dest: map_of_SomeD split: option.splits)

lemma leads_to_call: "(f, c) \<in> call_rel g \<Longrightarrow> leads_to g P c \<Longrightarrow> leads_to g P f"
  by (auto simp: leads_to_def intro: converse_rtrancl_into_rtrancl)

lemma blocking_after:
  "cg_is_blocking (propagate g) f \<longleftrightarrow>
     map_of (cg_attrs g) f \<noteq> None \<and> leads_to g (blocks_itself g) f"
  by (auto simp: cg_is_blocking_def propagate_exact split: option.splits)

lemma context_after:
  "cg_requires_context (propagate g) f \<longleftrightarrow>
     map_of (cg_attrs g) f \<noteq> None \<and> leads_to g (context_itself g) f"
  by (auto simp: cg_requires_context_def propagate_exact split: option.splits)

lemma stops_back:
  assumes "cg_ok g" "c \<in> set (callees_of g f)" "stops (propagate g) c"
  shows "stops (propagate g) f"
proof -
  have f: "map_of (cg_attrs g) f \<noteq> None" and e: "(f, c) \<in> set (edge_pairs (cg_edges g))"
    using assms(1,2) callees_defined callees_edge by auto
  have "leads_to g (blocks_itself g) f"
  proof (cases "is_known_blocking c")
    case True
    then show ?thesis using e by (auto intro!: leads_to_mono simp: blocks_itself_def)
  next
    case False
    then have "map_of (cg_attrs g) c \<noteq> None" "leads_to g (blocks_itself g) c"
      using assms(3) by (auto simp: stops_def blocking_after)
    then show ?thesis using f e by (intro leads_to_call [of f c]) (auto simp: call_rel_def)
  qed
  then show ?thesis using f by (simp add: stops_def blocking_after)
qed

lemma callees_propagate [simp]: "callees_of (propagate g) = callees_of g"
  by (simp add: callees_of_def fun_eq_iff)

lemma find_chain_exact:
  assumes "cg_ok g" "\<not> is_known_blocking f"
  shows "(case find_blocking_chain (propagate g) f of
      Some chain \<Rightarrow> \<exists>c \<in> set (callees_of g f) - {f}. stops (propagate g) c \<and> chain = [f, c]
    | None \<Rightarrow> \<forall>c \<in> set (callees_of g f) - {f}. \<not> stops (propagate g) c)"
proof -
  let ?cs = "filter (\<lambda>c. c \<noteq> f) (callees_of g f)"
  have start: "find_blocking_chain (propagate g) f =
      blocking_search (propagate g) {f} (map (\<lambda>c. [f, c]) ?cs @ [])"
    using assms(2) by (simp add: find_blocking_chain_def Let_def)
  show ?thesis
  proof (cases "\<exists>c \<in> set (callees_of g f) - {f}. stops (propagate g) c")
    case True
    then obtain c where "c \<in> set ?cs" "stops (propagate g) c" "c \<notin> {f}" by auto
    from search_first_hop [OF this, of f "[]"] show ?thesis unfolding start by auto
  next
    case False
    have "blocking_search (propagate g) {f} (map (\<lambda>c. [f, c]) ?cs) = None"
    proof (rule search_none [where Z = "{c. \<not> stops (propagate g) c} \<union> {f}"])
      show "\<forall>path \<in> set (map (\<lambda>c. [f, c]) ?cs). last path \<in> {c. \<not> stops (propagate g) c} \<union> {f}"
        using False by auto
      show "\<forall>c \<in> {c. \<not> stops (propagate g) c} \<union> {f}.
          set (callees_of (propagate g) c) \<subseteq> {c. \<not> stops (propagate g) c} \<union> {f}"
        using False stops_back [OF assms(1)] by auto
    qed auto
    then show ?thesis using False unfolding start by auto
  qed
qed

lemma map_filter_mem: "y \<in> set (List.map_filter h xs) \<longleftrightarrow> (\<exists>x \<in> set xs. h x = Some y)"
  by (force simp: List.map_filter_def)

lemma verify_pulse_safety_mem:
  "v \<in> set (verify_pulse_safety g) \<longleftrightarrow> (\<exists>f a chain. (f, a) \<in> set (cg_attrs g) \<and> is_pulse a \<and> is_blocking a \<and>
     find_blocking_chain g f = Some chain \<and> v = \<lparr>pulse_fn = f, blocking_fn = last chain, call_chain = chain\<rparr>)"
proof -
  have "v \<in> set (verify_pulse_safety g) \<longleftrightarrow>
      (\<exists>f a. (f, a) \<in> set (cg_attrs g) \<and> violation_of g (f, a) = Some v)"
    by (auto simp: verify_pulse_safety_def map_filter_mem)
  then show ?thesis by (auto simp: violation_of_def)
qed

lemma propagate_ok: "cg_ok g \<Longrightarrow> cg_ok (propagate g)"
proof -
  have "fst ` set (cg_attrs (propagate g)) = fst ` set (cg_attrs g)"
    using arg_cong [OF propagate_keys [of g], of set] by simp
  then show "cg_ok g \<Longrightarrow> cg_ok (propagate g)" by (simp add: cg_ok_def propagate_keys)
qed

lemma attrs_after:
  assumes "cg_ok g"
  shows "(f, a) \<in> set (cg_attrs (propagate g)) \<longleftrightarrow> (\<exists>b. (f, b) \<in> set (cg_attrs g) \<and>
    a = b\<lparr>is_blocking := leads_to g (blocks_itself g) f, requires_context := leads_to g (context_itself g) f\<rparr>)"
proof -
  have mem: "(f, b) \<in> set (cg_attrs h) \<longleftrightarrow> map_of (cg_attrs h) f = Some b" if "cg_ok h" for h b
    using that by (simp add: cg_ok_def)
  show ?thesis
    unfolding mem [OF assms] mem [OF propagate_ok [OF assms]] propagate_exact by auto
qed

text \<open>
  The chain a violation reports ends at the first callee, whether that callee blocks itself or only
  leads to a blocking function: propagation has marked it already.
\<close>

lemma reported_chain_stops:
  assumes "seeded = seed_from_file items call_graph_new" "\<not> is_known_blocking f"
    and v: "v \<in> set (snd (analyze items))" "pulse_fn v = f"
  shows "\<exists>c \<in> set (callees_of seeded f) - {f}. call_chain v = [f, c] \<and> blocking_fn v = c"
proof -
  have ok: "cg_ok seeded"
    unfolding assms(1) by (rule seed_ok) (simp add: cg_ok_def call_graph_new_def)
  from v obtain path where "find_blocking_chain (propagate seeded) f = Some path"
      "call_chain v = path" "blocking_fn v = last path"
    by (auto simp: analyze_def assms(1) Let_def verify_pulse_safety_mem)
  moreover from this obtain c where "c \<in> set (callees_of seeded f) - {f}" "path = [f, c]"
    using find_chain_exact [OF ok assms(2)] by auto
  ultimately show ?thesis by (intro bexI [of _ c]) simp_all
qed

text \<open>
  Property C21: the verdict on pulse functions is exact. A function whose name is not itself that of a
  known blocking operation is among the violations if and only if it is a pulse function and calls,
  other than itself, a known blocking operation or a function of the file that leads, over any number of
  calls, to one or to a function annotated as blocking. Calls are those that the graph records, as above.
  Which chain is reported is not part of the claim.
\<close>

theorem pulse_safety_exact:
  assumes "seeded = seed_from_file items call_graph_new" "\<not> is_known_blocking f"
  shows "(\<exists>v \<in> set (snd (analyze items)). pulse_fn v = f) \<longleftrightarrow>
    (\<exists>a. (f, a) \<in> set (cg_attrs seeded) \<and> is_pulse a) \<and>
    (\<exists>c \<in> set (callees_of seeded f) - {f}. is_known_blocking c \<or>
       map_of (cg_attrs seeded) c \<noteq> None \<and> leads_to seeded (blocks_itself seeded) c)"
proof -
  have ok: "cg_ok seeded"
    unfolding assms(1) by (rule seed_ok) (simp add: cg_ok_def call_graph_new_def)
  have an: "snd (analyze items) = verify_pulse_safety (propagate seeded)"
    by (simp add: analyze_def assms(1) Let_def)
  note chain = find_chain_exact [OF ok assms(2)]
  have caller: "leads_to seeded (blocks_itself seeded) f"
    if "c \<in> set (callees_of seeded f)" "stops (propagate seeded) c" for c
    using stops_back [OF ok that] assms(2) by (simp add: stops_def blocking_after)
  show ?thesis (is "?L \<longleftrightarrow> ?P \<and> ?C")
  proof -
    have "?L \<longleftrightarrow> (\<exists>a chain. (f, a) \<in> set (cg_attrs (propagate seeded)) \<and> is_pulse a \<and> is_blocking a \<and>
        find_blocking_chain (propagate seeded) f = Some chain)"
      unfolding an Bex_def verify_pulse_safety_mem by fastforce
    also have "\<dots> \<longleftrightarrow> ?P \<and> leads_to seeded (blocks_itself seeded) f \<and>
        (\<exists>chain. find_blocking_chain (propagate seeded) f = Some chain)"
      by (auto simp: attrs_after [OF ok])
    also have "\<dots> \<longleftrightarrow> ?P \<and> (\<exists>c \<in> set (callees_of seeded f) - {f}. stops (propagate seeded) c)"
      using chain caller by (auto split: option.splits)
    finally show ?thesis by (simp add: stops_def blocking_after)
  qed
qed

definition demo_fn :: "string \<Rightarrow> string list \<Rightarrow> stmt_ast list \<Rightarrow> salt_fn" where
  "demo_fn name attrs body =
     \<lparr>sf_attributes = map (\<lambda>a. \<lparr>attr_name = a, attr_args = [], int_arg = None, string_arg = None\<rparr>) attrs,
      sf_pub = False, sf_name = name, sf_generics = None,
      sf_args = [], sf_ret = None, sf_body = body\<rparr>"

definition demo_call :: "string \<Rightarrow> syn_expr" where
  "demo_call name = SynCall (SynPath (False, [(name, False)])) []"

lemmas seed_simps = seed_from_file_def seed_item_def seed_function_def call_graph_new_def full_name_def
  demo_fn_def demo_call_def seed_attrs_def extract_pulse_hz_def find_attribute_def has_attribute_def
  default_attrs_def expr_to_call_name_def path_name_def callees_of_def

definition demo_file :: "file_item list" where
  "demo_file = [ItemFn (demo_fn ''tick'' [''pulse''] [StExpr (demo_call ''refill'') True]),
                ItemFn (demo_fn ''refill'' [''blocking''] [])]"

theorem pulse_safety_exact_witness:
  "\<exists>v \<in> set (snd (analyze demo_file)). pulse_fn v = ''tick''"
proof -
  have "\<not> is_known_blocking ''tick''"
    by (simp add: is_known_blocking_def blocking_operations_def ends_with_def)
  moreover have "leads_to (seed_from_file demo_file call_graph_new)
      (blocks_itself (seed_from_file demo_file call_graph_new)) ''refill''"
    by (intro leads_to_mono) (simp add: blocks_itself_def demo_file_def seed_simps)
  ultimately show ?thesis
    using pulse_safety_exact [OF refl, of "''tick''" demo_file] by (simp add: demo_file_def seed_simps)
qed

text \<open>
  What the analysis cannot see: calls inside \<open>loop\<close> bodies are not collected, and a method call is
  recorded by the bare method name, which is never the key of a method.
\<close>

lemma loop_calls_missed:
  "calls_of_stmt (StLoop [StExpr (demo_call ''thread::sleep'') True]) = []"
  by simp

lemma method_calls_unresolved:
  "\<not> is_known_blocking ''accept''" "full_name (Some t) (demo_fn ''accept'' as b) \<noteq> ''accept''"
  by (simp add: is_known_blocking_def blocking_operations_def ends_with_def)
    (auto simp: full_name_def demo_fn_def dest: arg_cong [where f = length])

lemma self_blocking_pulse_accepted:
  assumes "v \<in> set (snd (analyze [ItemFn (demo_fn ''tick'' [''pulse'', ''blocking''] [])]))"
  shows "pulse_fn v \<noteq> ''tick''"
proof
  let ?g = "seed_from_file [ItemFn (demo_fn ''tick'' [''pulse'', ''blocking''] [])] call_graph_new"
  have "cg_ok ?g" by (rule seed_ok) (simp add: cg_ok_def call_graph_new_def)
  moreover have "\<not> is_known_blocking ''tick''"
    by (simp add: is_known_blocking_def blocking_operations_def ends_with_def)
  moreover have "callees_of ?g ''tick'' = []" by (simp add: seed_simps)
  ultimately have "find_blocking_chain (propagate ?g) ''tick'' = None"
    using find_chain_exact [of ?g "''tick''"] by (auto split: option.splits)
  moreover assume "pulse_fn v = ''tick''"
  ultimately show False using assms by (auto simp: analyze_def Let_def verify_pulse_safety_mem)
qed

section \<open>The verifier of synchronous functions\<close>

record sync_result =
  function_name :: string
  is_sync :: bool
  io_violation :: "string option"

definition pulse_functions :: "file_item list \<Rightarrow> string set" where
  "pulse_functions items =
     set (List.map_filter (\<lambda>it. case it of
       ItemFn f \<Rightarrow> if extract_pulse_hz (sf_attributes f) \<noteq> None then Some (sf_name f) else None
     | _ \<Rightarrow> None) items)"

definition sync_check :: "call_graph \<Rightarrow> string \<Rightarrow> sync_result" where
  "sync_check cg name =
     (let violation =
        (if cg_is_blocking cg name then Some ''transitively calls blocking operation (via call graph)''
         else if cg_requires_context cg name then Some ''transitively requires Context (via call graph)''
         else None)
      in \<lparr>function_name = name, is_sync = (violation = None), io_violation = violation\<rparr>)"

definition sync_item :: "call_graph \<Rightarrow> string set \<Rightarrow> file_item \<Rightarrow> sync_result option" where
  "sync_item cg pulse it =
     (case it of
        ItemFn f \<Rightarrow> if sf_name f \<in> pulse then None else Some (sync_check cg (sf_name f))
      | _ \<Rightarrow> None)"

definition verify_with_call_graph ::
  "file_item list \<Rightarrow> call_graph \<Rightarrow> string set \<Rightarrow> sync_result list \<times> string set" where
  "verify_with_call_graph items cg pulse =
     (let pulse = pulse \<union> pulse_functions items
      in (List.map_filter (sync_item cg pulse) items, pulse))"

lemma sync_item_Some:
  "sync_item cg pulse it = Some r \<longleftrightarrow>
     (\<exists>f. it = ItemFn f \<and> sf_name f \<notin> pulse \<and> r = sync_check cg (sf_name f))"
  by (cases it) (auto simp: sync_item_def)

lemma seed_defines:
  assumes "ItemFn f \<in> set items"
  shows "map_of (cg_attrs (seed_from_file items g)) (sf_name f) \<noteq> None"
proof -
  have grow: "dom (map_of (cg_attrs g)) \<subseteq> dom (map_of (cg_attrs (seed_item it g)))" for it g
  proof -
    have one: "dom (map_of (cg_attrs g)) \<subseteq> dom (map_of (cg_attrs (seed_function t f g)))" for t f g
      by (auto simp: seed_function_def update_conv')
    have "dom (map_of (cg_attrs g)) \<subseteq> dom (map_of (cg_attrs (fold (seed_function t) ms g)))" for t ms g
    proof (induction ms arbitrary: g)
      case (Cons m ms)
      show ?case using subset_trans [OF one Cons.IH] by simp
    qed simp
    then show ?thesis
      by (cases it) (auto simp: seed_item_def seed_function_def update_conv' split: if_splits)
  qed
  have keep: "dom (map_of (cg_attrs g)) \<subseteq> dom (map_of (cg_attrs (fold seed_item its g)))" for its g
  proof (induction its arbitrary: g)
    case (Cons it its)
    show ?case using subset_trans [OF grow Cons.IH] by simp
  qed simp
  show ?thesis
    using assms unfolding seed_from_file_def
  proof (induction items arbitrary: g)
    case (Cons it items)
    show ?case
    proof (cases "it = ItemFn f")
      case True
      then have "sf_name f \<in> dom (map_of (cg_attrs (seed_item it g)))"
        by (simp add: seed_item_def seed_function_def full_name_def update_conv')
      then show ?thesis using keep [of "seed_item it g" items] by auto
    qed (use Cons in auto)
  qed simp
qed

text \<open>
  Property C31: a top-level function that is not a pulse function is certified synchronous exactly
  when no chain of the calls that the graph records leads from it to a blocking operation, to a
  function annotated as blocking, or to one that requires a context; pulse functions get no verdict.
  (Calls in the body of a \<open>loop\<close> are not recorded, and method calls lead nowhere:
  \<open>loop_calls_missed\<close>, \<open>method_calls_unresolved\<close>.)
\<close>

theorem sync_verdict_exact:
  "set (fst (verify_with_call_graph items (fst (analyze items)) {})) =
     (\<lambda>name. sync_check (fst (analyze items)) name) `
       {sf_name f |f. ItemFn f \<in> set items \<and> sf_name f \<notin> pulse_functions items} \<and>
   (\<forall>r \<in> set (fst (verify_with_call_graph items (fst (analyze items)) {})). is_sync r \<longleftrightarrow>
      \<not> leads_to (seed_from_file items call_graph_new)
        (\<lambda>h. blocks_itself (seed_from_file items call_graph_new) h \<or>
             context_itself (seed_from_file items call_graph_new) h) (function_name r))"
proof -
  let ?g = "seed_from_file items call_graph_new"
  have an: "fst (analyze items) = propagate ?g" by (simp add: analyze_def Let_def)
  have mem: "set (fst (verify_with_call_graph items cg {})) =
      (\<lambda>name. sync_check cg name) ` {sf_name f |f. ItemFn f \<in> set items \<and> sf_name f \<notin> pulse_functions items}" for cg
    by (auto simp: verify_with_call_graph_def Let_def map_filter_mem sync_item_Some) blast+
  have "is_sync (sync_check (propagate ?g) (sf_name f)) \<longleftrightarrow>
      \<not> leads_to ?g (\<lambda>h. blocks_itself ?g h \<or> context_itself ?g h) (sf_name f)"
    if "ItemFn f \<in> set items" for f
    using seed_defines [OF that]
    by (auto simp: sync_check_def blocking_after context_after leads_to_def)
  moreover have "function_name (sync_check cg n) = n" for cg n by (simp add: sync_check_def Let_def)
  ultimately show ?thesis
    unfolding an mem by (intro conjI refl ballI) (elim imageE CollectE exE conjE, simp)
qed

theorem sync_verdict_exact_witness:
  "\<exists>r \<in> set (fst (verify_with_call_graph demo_file (fst (analyze demo_file)) {})).
     function_name r = ''refill'' \<and> \<not> is_sync r"
proof -
  let ?g = "seed_from_file demo_file call_graph_new"
  let ?rs = "set (fst (verify_with_call_graph demo_file (fst (analyze demo_file)) {}))"
  note exact = sync_verdict_exact [of demo_file]
  have "''refill'' \<in> {sf_name f |f. ItemFn f \<in> set demo_file \<and> sf_name f \<notin> pulse_functions demo_file}"
    by (simp add: demo_file_def demo_fn_def pulse_functions_def List.map_filter_simps extract_pulse_hz_def find_attribute_def)
      (intro exI [of _ "demo_fn ''refill'' [''blocking''] []"], simp add: demo_fn_def)
  then have r: "sync_check (fst (analyze demo_file)) ''refill'' \<in> ?rs"
    unfolding exact [THEN conjunct1] by (rule imageI)
  moreover have "leads_to ?g (\<lambda>h. blocks_itself ?g h \<or> context_itself ?g h) ''refill''"
    by (rule leads_to_mono) (simp add: blocks_itself_def demo_file_def seed_simps)
  moreover have "function_name (sync_check (fst (analyze demo_file)) ''refill'') = ''refill''"
    by (simp add: sync_check_def Let_def)
  ultimately show ?thesis using exact [THEN conjunct2] by auto
qed

end
