(* ===== verification/Yield_Points.thy ===== *)
theory Yield_Points
  imports Salt_Ast "HOL-Library.Log_Nat"
begin

text \<open>
  The yield injection pass (\<open>salt-front/src/codegen/passes/yield_injection.rs\<close>): where deadline
  checks go, and how many iterations of a loop share one check. The nesting depth that the visitor
  passes along and the pulse context it stores are never read and are left out; the MLIR snippets are
  constant texts.
\<close>

section \<open>Configuration\<close>

record yield_config =
  min_loop_iterations :: usize
  cycle_threshold :: u64
  aggressive_mode :: bool
  jitter_budget_cycles :: u64
  use_register_pinned_deadline :: bool
  max_stripe_factor :: u32
  explicit_budget_cycles :: "u64 option"

definition default_config :: yield_config where
  "default_config =
     \<lparr>min_loop_iterations = 100, cycle_threshold = 25000, aggressive_mode = True,
      jitter_budget_cycles = 40000, use_register_pinned_deadline = True, max_stripe_factor = 256,
      explicit_budget_cycles = None\<rparr>"

datatype yield_point_kind = LoopBackEdge | ContextCall | IoOperation

record yield_point =
  yp_kind :: yield_point_kind
  estimated_cycles :: "u64 option"
  yp_line :: nat
  z3_skip :: bool

record stripe_analysis =
  stripe_factor :: u32
  wcet_per_iteration :: u64
  z3_elided :: bool

section \<open>Finding the yield points\<close>

definition extract_literal_u64 :: "syn_expr \<Rightarrow> u64 option" where
  "extract_literal_u64 e = (case e of SynLit (SynInt n) \<Rightarrow> base10_parse_u64 n | _ \<Rightarrow> None)"

definition estimate_loop_iterations :: "syn_expr \<Rightarrow> u64 option" where
  "estimate_loop_iterations iter =
     (case iter of
        SynRange start end_ _ \<Rightarrow>
          (case (Option.bind start extract_literal_u64, Option.bind end_ extract_literal_u64) of
             (Some s, Some e) \<Rightarrow> if s < e then Some (e - s) else None
           | (None, Some e) \<Rightarrow> Some e
           | _ \<Rightarrow> None)
      | _ \<Rightarrow> None)"

definition should_skip_injection :: "yield_config \<Rightarrow> u64 option \<Rightarrow> bool" where
  "should_skip_injection cfg iterations =
     (if aggressive_mode cfg then False
      else case iterations of Some n \<Rightarrow> n < min_loop_iterations cfg | None \<Rightarrow> False)"

definition for_point :: "yield_config \<Rightarrow> syn_expr \<Rightarrow> yield_point" where
  "for_point cfg iter =
     (let iterations = estimate_loop_iterations iter
      in \<lparr>yp_kind = LoopBackEdge, estimated_cycles = map_option (\<lambda>n. n * 10) iterations, yp_line = 0,
          z3_skip = should_skip_injection cfg iterations\<rparr>)"

definition while_point :: yield_point where
  "while_point = \<lparr>yp_kind = LoopBackEdge, estimated_cycles = None, yp_line = 0, z3_skip = False\<rparr>"

fun visit_stmt :: "yield_config \<Rightarrow> stmt_ast \<Rightarrow> yield_point list"
and visit_if :: "yield_config \<Rightarrow> salt_if \<Rightarrow> yield_point list"
and visit_else :: "yield_config \<Rightarrow> salt_else \<Rightarrow> yield_point list"
and visit_arm :: "yield_config \<Rightarrow> match_arm \<Rightarrow> yield_point list" where
  "visit_stmt cfg (StFor _ iter body) = for_point cfg iter # concat (map (visit_stmt cfg) body)"
| "visit_stmt cfg (StWhile _ body) = while_point # concat (map (visit_stmt cfg) body)"
| "visit_stmt cfg (StIf i) = visit_if cfg i"
| "visit_stmt cfg (StMatch _ arms) = concat (map (visit_arm cfg) arms)"
| "visit_stmt cfg (StUnsafe body) = concat (map (visit_stmt cfg) body)"
| "visit_stmt cfg _ = []"
| "visit_if cfg (SaltIf _ body None) = concat (map (visit_stmt cfg) body)"
| "visit_if cfg (SaltIf _ body (Some e)) = concat (map (visit_stmt cfg) body) @ visit_else cfg e"
| "visit_else cfg (ElseBlock body) = concat (map (visit_stmt cfg) body)"
| "visit_else cfg (ElseIf i) = visit_if cfg i"
| "visit_arm cfg (MatchArm _ _ body) = concat (map (visit_stmt cfg) body)"

definition analyze_function :: "yield_config \<Rightarrow> salt_fn \<Rightarrow> yield_point list" where
  "analyze_function cfg f = concat (map (visit_stmt cfg) (sf_body f))"

section \<open>Striping\<close>

definition leading_zeros :: "u64 \<Rightarrow> u32" where
  "leading_zeros w = of_nat (64 - floorlog 2 (unat w))"

text \<open>A shift by more than the width keeps the low six bits of its amount, as in a release build.\<close>

definition clamp_to_power_of_2 :: "u64 \<Rightarrow> u64 \<Rightarrow> u64" where
  "clamp_to_power_of_2 v m =
     (if v = 0 then 1
      else let clamped = min v m; bits = 64 - leading_zeros clamped
           in push_bit (unat ((bits - 1) AND 63)) 1)"

text \<open>\<open>None\<close>: the division by zero panics.\<close>

definition calculate_stripe_factor :: "yield_config \<Rightarrow> u64 \<Rightarrow> stripe_analysis option" where
  "calculate_stripe_factor cfg wcet =
     (let check_cost = (if use_register_pinned_deadline cfg then 1 else 12); d = wcet + check_cost
      in if d = 0 then None
         else let raw = jitter_budget_cycles cfg div d;
                  stripe = clamp_to_power_of_2 raw (ucast (max_stripe_factor cfg))
              in Some \<lparr>stripe_factor = ucast stripe, wcet_per_iteration = wcet,
                       z3_elided = wcet < cycle_threshold cfg\<rparr>)"

lemma masked_shift: "n < 64 \<Longrightarrow> unat ((of_nat n :: u32) AND 63) = n"
proof -
  assume n: "n < 64"
  have "(of_nat n :: u32) AND 63 = take_bit 6 (of_nat n)"
    by (simp only: take_bit_eq_mask mask_eq_exp_minus_1) simp
  then show ?thesis
    using n by (simp only: unsigned_take_bit_eq unat_of_nat) (simp add: take_bit_eq_mod)
qed

lemma unat_shift_one: "k < 64 \<Longrightarrow> unat (push_bit k 1 :: u64) = 2 ^ k"
proof -
  assume "k < 64"
  then have "(2 :: nat) ^ k < 2 ^ 64" by (intro power_strict_increasing) auto
  then show ?thesis
    by (simp only: unsigned_push_bit_eq) (simp add: push_bit_eq_mult take_bit_eq_mod)
qed

lemma clamp_power:
  assumes "v \<noteq> 0" "m \<noteq> 0"
  obtains k where "k < 64" "unat (clamp_to_power_of_2 v m) = 2 ^ k" "2 ^ k \<le> unat (min v m)"
    "unat (min v m) < 2 * 2 ^ k"
proof -
  let ?c = "min v m"
  let ?l = "floorlog 2 (unat ?c)"
  have c: "0 < unat ?c" using assms by (auto simp: min_def unat_gt_0)
  have l: "2 ^ (?l - 1) \<le> unat ?c" "unat ?c < 2 ^ ?l" using floorlog_bounds [OF c, of 2] by auto
  have "?l \<le> 64"
  proof (rule ccontr)
    assume "\<not> ?l \<le> 64"
    then have "(2 :: nat) ^ 64 \<le> 2 ^ (?l - 1)" by (intro power_increasing) auto
    then show False using l(1) unsigned_less [of ?c, where ?'a = nat] by simp
  qed
  moreover have "0 < ?l" using c l(2) by (cases ?l) auto
  ultimately have b: "64 - leading_zeros ?c - 1 = of_nat (?l - 1)" "?l - 1 < 64" "(2 :: nat) ^ ?l = 2 * 2 ^ (?l - 1)"
    by (auto simp: leading_zeros_def of_nat_diff power_eq_if)
  have "unat ((of_nat (?l - 1) :: u32) AND 63) = ?l - 1" using b(2) by (rule masked_shift)
  then have "clamp_to_power_of_2 v m = push_bit (?l - 1) 1"
    using assms(1) b(1) by (simp add: clamp_to_power_of_2_def Let_def)
  then have "unat (clamp_to_power_of_2 v m) = 2 ^ (?l - 1)"
    using unat_shift_one [OF b(2)] by simp
  then show thesis using that [of "?l - 1"] b l by simp
qed

lemma ucast_stripe:
  assumes "unat (w :: u64) \<le> unat (m :: u32)"
  shows "unat (ucast w :: u32) = unat w"
proof -
  have "unat w < 2 ^ 32" using assms unsigned_less [of m, where ?'a = nat] by simp
  then show ?thesis by (simp add: unsigned_ucast_eq take_bit_nat_eq_self_iff)
qed

text \<open>
  Property C40: unless the cost of an iteration overflows or the configured maximum is zero, the
  stripe factor is defined, it is the greatest power of two that is neither above the maximum nor
  above the number of iterations that fit the jitter budget (one, if none fits), and then a whole
  stripe stays within the budget.
\<close>

theorem stripe_within_budget:
  assumes "unat wcet + 12 < 2 ^ 64" "max_stripe_factor cfg \<noteq> 0"
    "cost = unat wcet + (if use_register_pinned_deadline cfg then 1 else 12)"
    "fit = min (unat (jitter_budget_cycles cfg) div cost) (unat (max_stripe_factor cfg))"
  shows "\<exists>s k. calculate_stripe_factor cfg wcet = Some s \<and> unat (stripe_factor s) = 2 ^ k \<and>
    2 ^ k \<le> max 1 fit \<and> fit < 2 * 2 ^ k \<and>
    (0 < fit \<longrightarrow> unat (stripe_factor s) * cost \<le> unat (jitter_budget_cycles cfg))"
proof -
  let ?d = "wcet + (if use_register_pinned_deadline cfg then 1 else 12)"
  let ?raw = "jitter_budget_cycles cfg div ?d" and ?m = "ucast (max_stripe_factor cfg) :: u64"
  have d: "unat ?d = cost"
    using assms(1,3) by (auto simp: unat_word_ariths(1))
  then have d0: "?d \<noteq> 0" using assms(3) by (metis add_is_0 unat_0 zero_neq_numeral zero_neq_one)
  have m: "unat ?m = unat (max_stripe_factor cfg)"
    using unsigned_less [of "max_stripe_factor cfg", where ?'a = nat]
    by (simp add: unsigned_ucast_eq take_bit_nat_eq_self_iff)
  have m0: "?m \<noteq> 0" using m assms(2) by (metis unat_0 unat_eq_zero)
  have fit: "fit = min (unat ?raw) (unat ?m)" by (simp add: assms(4) unat_div_distrib d m)
  let ?s = "\<lparr>stripe_factor = ucast (clamp_to_power_of_2 ?raw ?m), wcet_per_iteration = wcet,
      z3_elided = wcet < cycle_threshold cfg\<rparr>"
  have s: "calculate_stripe_factor cfg wcet = Some ?s"
    using d0 by (simp add: calculate_stripe_factor_def Let_def)
  show ?thesis
  proof (cases "?raw = 0")
    case True
    then have "fit = 0" unfolding fit by simp
    then show ?thesis using s True by (intro exI [of _ ?s] exI [of _ 0]) (simp add: clamp_to_power_of_2_def)
  next
    case False
    then obtain k where k: "unat (clamp_to_power_of_2 ?raw ?m) = 2 ^ k" "2 ^ k \<le> unat (min ?raw ?m)"
        "unat (min ?raw ?m) < 2 * 2 ^ k"
      using clamp_power [OF False m0] by blast
    have f: "unat (min ?raw ?m) = fit"
      unfolding fit by (simp add: min_def word_le_nat_alt)
    have fits: "unat (ucast (clamp_to_power_of_2 ?raw ?m) :: u32) = 2 ^ k"
      using k f fit m ucast_stripe [of "clamp_to_power_of_2 ?raw ?m" "max_stripe_factor cfg"] by simp
    have "2 ^ k * cost \<le> unat (jitter_budget_cycles cfg) div cost * cost"
      using k(2) f assms(4) by (intro mult_right_mono) auto
    also have "\<dots> \<le> unat (jitter_budget_cycles cfg)" by simp
    finally show ?thesis
      using s fits k(2,3) f by (intro exI [of _ ?s] exI [of _ k]) auto
  qed
qed

theorem stripe_within_budget_witness:
  "\<exists>s k. calculate_stripe_factor default_config 10 = Some s \<and> unat (stripe_factor s) = 2 ^ k \<and>
    2 ^ k \<le> (256 :: nat) \<and> 256 < (2 :: nat) * 2 ^ k"
  using stripe_within_budget [of 10 default_config 11 256] by (simp add: default_config_def) blast

section \<open>Loops and their checks\<close>

text \<open>The loops of a statement, all kinds and all nestings.\<close>

fun loops_of :: "stmt_ast \<Rightarrow> nat"
and loops_of_if :: "salt_if \<Rightarrow> nat"
and loops_of_else :: "salt_else \<Rightarrow> nat"
and loops_of_arm :: "match_arm \<Rightarrow> nat" where
  "loops_of (StFor _ _ body) = Suc (sum_list (map loops_of body))"
| "loops_of (StWhile _ body) = Suc (sum_list (map loops_of body))"
| "loops_of (StLoop body) = Suc (sum_list (map loops_of body))"
| "loops_of (StIf i) = loops_of_if i"
| "loops_of (StMatch _ arms) = sum_list (map loops_of_arm arms)"
| "loops_of (StUnsafe body) = sum_list (map loops_of body)"
| "loops_of (StLetElse _ _ body) = sum_list (map loops_of body)"
| "loops_of (StMapWindow _ _ _ body) = sum_list (map loops_of body)"
| "loops_of (StWithRegion _ body) = sum_list (map loops_of body)"
| "loops_of _ = 0"
| "loops_of_if (SaltIf _ body None) = sum_list (map loops_of body)"
| "loops_of_if (SaltIf _ body (Some e)) = sum_list (map loops_of body) + loops_of_else e"
| "loops_of_else (ElseBlock body) = sum_list (map loops_of body)"
| "loops_of_else (ElseIf i) = loops_of_if i"
| "loops_of_arm (MatchArm _ _ body) = sum_list (map loops_of body)"

text \<open>The loops that the pass does not come to: \<open>loop\<close> itself and whatever its blind spots contain.\<close>

fun unseen_loops :: "stmt_ast \<Rightarrow> nat"
and unseen_loops_if :: "salt_if \<Rightarrow> nat"
and unseen_loops_else :: "salt_else \<Rightarrow> nat"
and unseen_loops_arm :: "match_arm \<Rightarrow> nat" where
  "unseen_loops (StFor _ _ body) = sum_list (map unseen_loops body)"
| "unseen_loops (StWhile _ body) = sum_list (map unseen_loops body)"
| "unseen_loops (StIf i) = unseen_loops_if i"
| "unseen_loops (StMatch _ arms) = sum_list (map unseen_loops_arm arms)"
| "unseen_loops (StUnsafe body) = sum_list (map unseen_loops body)"
| "unseen_loops (StLoop body) = loops_of (StLoop body)"
| "unseen_loops (StLetElse p e body) = loops_of (StLetElse p e body)"
| "unseen_loops (StMapWindow a n r body) = loops_of (StMapWindow a n r body)"
| "unseen_loops (StWithRegion r body) = loops_of (StWithRegion r body)"
| "unseen_loops _ = 0"
| "unseen_loops_if (SaltIf _ body None) = sum_list (map unseen_loops body)"
| "unseen_loops_if (SaltIf _ body (Some e)) = sum_list (map unseen_loops body) + unseen_loops_else e"
| "unseen_loops_else (ElseBlock body) = sum_list (map unseen_loops body)"
| "unseen_loops_else (ElseIf i) = unseen_loops_if i"
| "unseen_loops_arm (MatchArm _ _ body) = sum_list (map unseen_loops body)"

lemma length_concat_sum:
  "(\<And>x. x \<in> set xs \<Longrightarrow> length (f x) + g x = h x) \<Longrightarrow>
   length (concat (map f xs)) + sum_list (map g xs) = sum_list (map h xs)"
proof (induction xs)
  case (Cons x xs)
  have "length (f x) + g x = h x" using Cons.prems by simp
  moreover have "length (concat (map f xs)) + sum_list (map g xs) = sum_list (map h xs)"
    using Cons by simp
  ultimately show ?case by simp
qed simp

lemma length_concat_sum_plus:
  "(\<And>x. x \<in> set xs \<Longrightarrow> length (f x) + g x = h x) \<Longrightarrow> b + d = e \<Longrightarrow>
   length (concat (map f xs)) + b + (sum_list (map g xs) + d) = sum_list (map h xs) + e"
  using length_concat_sum [of xs f g h] by simp

lemma visit_counts:
  "length (visit_stmt cfg s) + unseen_loops s = loops_of s"
  "length (visit_if cfg i) + unseen_loops_if i = loops_of_if i"
  "length (visit_else cfg e) + unseen_loops_else e = loops_of_else e"
  "length (visit_arm cfg a) + unseen_loops_arm a = loops_of_arm a"
  by (induction cfg s and cfg i and cfg e and cfg a rule: visit_stmt_visit_if_visit_else_visit_arm.induct)
    (simp_all add: length_concat_sum length_concat_sum_plus)

lemma visit_eager:
  assumes "aggressive_mode cfg"
  shows "y \<in> set (visit_stmt cfg s) \<Longrightarrow> \<not> z3_skip y"
    "y \<in> set (visit_if cfg i) \<Longrightarrow> \<not> z3_skip y"
    "y \<in> set (visit_else cfg e) \<Longrightarrow> \<not> z3_skip y"
    "y \<in> set (visit_arm cfg a) \<Longrightarrow> \<not> z3_skip y"
  using assms
  by (induction cfg s and cfg i and cfg e and cfg a rule: visit_stmt_visit_if_visit_else_visit_arm.induct)
    (auto simp: for_point_def while_point_def should_skip_injection_def Let_def)

text \<open>
  Every \<open>for\<close> and \<open>while\<close> loop of a function gets one check, except those
  inside a \<open>loop\<close>, a let-else, a window or a region block, and \<open>loop\<close>
  statements themselves get none; in aggressive mode no check is marked as skipped.
\<close>

theorem yield_points_cover:
  "length (analyze_function cfg f) + sum_list (map unseen_loops (sf_body f)) = sum_list (map loops_of (sf_body f)) \<and>
   \<not> (aggressive_mode cfg \<and> (\<exists>y \<in> set (analyze_function cfg f). z3_skip y))"
  using length_concat_sum [of "sf_body f" "visit_stmt cfg" unseen_loops loops_of] visit_counts(1) [of cfg]
    visit_eager(1) [of cfg]
  by (auto simp: analyze_function_def)

text \<open>An endless \<open>loop\<close> is never interrupted, and an unknown lower bound counts as zero.\<close>

lemma endless_loop_unchecked:
  "visit_stmt default_config (StLoop []) = [] \<and> loops_of (StLoop []) = 1"
  by simp

lemma unknown_start_counts_as_zero:
  "estimate_loop_iterations (SynRange (Some (SynPath (False, [(''start'', False)]))) (Some (SynLit (SynInt 5))) False) = Some 5"
  by (simp add: estimate_loop_iterations_def extract_literal_u64_def base10_parse_u64_def)

text \<open>The last iteration of a closed range is not counted, so a loop of 1024 iterations is skipped as shorter.\<close>

lemma closed_range_counted_short:
  "estimate_loop_iterations (SynRange (Some (SynLit (SynInt 1))) (Some (SynLit (SynInt 1024))) True) = Some 1023"
  by (simp add: estimate_loop_iterations_def extract_literal_u64_def base10_parse_u64_def)

text \<open>The elision flag looks at one iteration only, so it holds at any iteration count.\<close>

lemma elision_ignores_iterations:
  "map_option z3_elided (calculate_stripe_factor default_config 10) = Some True"
  by (simp add: calculate_stripe_factor_def default_config_def Let_def)

end
