(* ===== verification/Match_Dispatch.thy ===== *)
theory Match_Dispatch
  imports Salt_Ast Salt_Types
begin

text \<open>
  Match statements: the exhaustiveness check
  (\<open>salt-front/src/codegen/verification/exhaustiveness.rs\<close>) and the chain of tests that
  \<open>emit_match\<close> and \<open>emit_pattern_condition\<close>
  (\<open>salt-front/src/codegen/stmt.rs\<close>) emit. An emitted condition is a tree; its meaning on a
  run-time value is that of the emitted instructions.
\<close>

type_synonym i32 = "32 word"

section \<open>Registries\<close>

record enum_info =
  ei_name :: string
  ei_variants :: "(string \<times> ty option \<times> i32) list"

datatype match_error =
    NotAnEnum ty | UnknownEnum string | UnknownVariant string | EmptyPath | EmptyOr | BadLiteral
  | NotATuple ty | TupleLength nat nat | NotAStruct ty | StructName string string
  | UnknownStruct string | UnknownField string | TopRest | NoArms

section \<open>Emitted conditions\<close>

datatype cond =
    CTrue
  | CIntEq i64
  | CBoolEq bool
  | CTag i32
  | COr cond cond
  | CAnd cond cond
  | CField nat cond

datatype rval = RInt i64 | RBool bool | RAgg "rval list" | REnum i32 "rval list"

text \<open>\<open>llvm.extractvalue\<close> on an aggregate.\<close>

definition component :: "nat \<Rightarrow> rval \<Rightarrow> rval" where
  "component i v = (case v of RAgg vs \<Rightarrow> if i < length vs then vs ! i else RInt 0 | _ \<Rightarrow> RInt 0)"

fun holds :: "cond \<Rightarrow> rval \<Rightarrow> bool" where
  "holds CTrue v = True"
| "holds (CIntEq n) v = (v = RInt n)"
| "holds (CBoolEq b) v = (v = RBool b)"
| "holds (CTag t) v = (case v of REnum u _ \<Rightarrow> u = t | _ \<Rightarrow> False)"
| "holds (COr c d) v = (holds c v \<or> holds d v)"
| "holds (CAnd c d) v = (holds c v \<and> holds d v)"
| "holds (CField i c) v = holds c (component i v)"

definition find_enum :: "enum_info list \<Rightarrow> ty \<Rightarrow> (match_error, enum_info) result" where
  "find_enum enums t =
     (case (case t of Enum name \<Rightarrow> Some name | Concrete _ _ \<Rightarrow> Some (mangle_suffix t) | _ \<Rightarrow> None) of
        None \<Rightarrow> Inl (NotAnEnum t)
      | Some name \<Rightarrow>
          (case find (\<lambda>i. ei_name i = name \<or> ends_with (''__'' @ name) (ei_name i)) enums of
             None \<Rightarrow> Inl (UnknownEnum name)
           | Some i \<Rightarrow> Inr i))"

definition find_variant :: "enum_info list \<Rightarrow> ty \<Rightarrow> string list \<Rightarrow> (match_error, ty option \<times> i32) result" where
  "find_variant enums t path =
     (if path = [] then Inl EmptyPath
      else case find_enum enums t of
             Inl e \<Rightarrow> Inl e
           | Inr i \<Rightarrow>
               (case map_of (ei_variants i) (last path) of
                  None \<Rightarrow> Inl (UnknownVariant (last path))
                | Some pd \<Rightarrow> Inr pd))"

definition find_struct :: "struct_registry \<Rightarrow> ty \<Rightarrow> string \<Rightarrow> (match_error, struct_info) result" where
  "find_struct structs t name =
     (case (case t of Struct n \<Rightarrow> Some n | Concrete n _ \<Rightarrow> Some n | _ \<Rightarrow> None) of
        None \<Rightarrow> Inl (NotAStruct t)
      | Some sname \<Rightarrow>
          if \<not> ends_with name sname \<and> sname \<noteq> name then Inl (StructName name sname)
          else (case find (\<lambda>i. si_name i = sname \<or> ends_with (''__'' @ name) (si_name i)) (map snd structs) of
                  None \<Rightarrow> Inl (UnknownStruct name)
                | Some i \<Rightarrow> Inr i))"

definition find_field :: "struct_info \<Rightarrow> string \<Rightarrow> (match_error, nat \<times> ty) result" where
  "find_field i f =
     (case si_fields i f of None \<Rightarrow> Inl (UnknownField f) | Some (off, t) \<Rightarrow> Inr (unat off, t))"

abbreviation and_then :: "('e, 'a) result \<Rightarrow> ('a \<Rightarrow> ('e, 'b) result) \<Rightarrow> ('e, 'b) result" where
  "and_then r f \<equiv> (case r of Inl e \<Rightarrow> Inl e | Inr x \<Rightarrow> f x)"

function pattern_condition :: "enum_info list \<Rightarrow> struct_registry \<Rightarrow> pat \<Rightarrow> ty \<Rightarrow> (match_error, cond) result"
and or_conditions :: "enum_info list \<Rightarrow> struct_registry \<Rightarrow> pat list \<Rightarrow> ty \<Rightarrow> cond \<Rightarrow> (match_error, cond) result"
and tuple_conditions ::
  "enum_info list \<Rightarrow> struct_registry \<Rightarrow> pat list \<Rightarrow> ty list \<Rightarrow> nat \<Rightarrow> cond \<Rightarrow> (match_error, cond) result"
and field_conditions ::
  "enum_info list \<Rightarrow> struct_registry \<Rightarrow> struct_info \<Rightarrow> (string \<times> pat option) list \<Rightarrow> cond \<Rightarrow> (match_error, cond) result"
where
  "pattern_condition enums structs PatWildcard t = Inr CTrue"
| "pattern_condition enums structs (PatIdent _ _) t = Inr CTrue"
| "pattern_condition enums structs (PatLiteral l) t =
     (case l of
        SynInt n \<Rightarrow> (case base10_parse_i64 n of Some w \<Rightarrow> Inr (CIntEq w) | None \<Rightarrow> Inl BadLiteral)
      | SynBool b \<Rightarrow> Inr (CBoolEq b)
      | _ \<Rightarrow> Inl BadLiteral)"
| "pattern_condition enums structs (PatOr ps) t =
     (case ps of
        [] \<Rightarrow> Inl EmptyOr
      | p # ps \<Rightarrow> and_then (pattern_condition enums structs p t) (or_conditions enums structs ps t))"
| "pattern_condition enums structs (PatVariant path _) t =
     and_then (find_variant enums t path) (\<lambda>(_, disc). Inr (CTag disc))"
| "pattern_condition enums structs (PatTuple ps) t =
     (case t of
        Tuple ts \<Rightarrow>
          if length ps \<noteq> length ts then Inl (TupleLength (length ps) (length ts))
          else tuple_conditions enums structs ps ts 0 CTrue
      | _ \<Rightarrow> Inl (NotATuple t))"
| "pattern_condition enums structs (PatStruct name fs) t =
     and_then (find_struct structs t name) (\<lambda>i. field_conditions enums structs i fs CTrue)"
| "pattern_condition enums structs PatRest t = Inl TopRest"
| "or_conditions enums structs [] t c = Inr c"
| "or_conditions enums structs (p # ps) t c =
     and_then (pattern_condition enums structs p t) (\<lambda>d. or_conditions enums structs ps t (COr c d))"
| "tuple_conditions enums structs (p # ps) (t # ts) i c =
     and_then (pattern_condition enums structs p t)
       (\<lambda>d. tuple_conditions enums structs ps ts (Suc i) (CAnd c (CField i d)))"
| "tuple_conditions enums structs [] ts i c = Inr c"
| "tuple_conditions enums structs (p # ps) [] i c = Inr c"
| "field_conditions enums structs info [] c = Inr c"
| "field_conditions enums structs info (f # fs) c =
     and_then (find_field info (fst f)) (\<lambda>(off, t).
       and_then (case snd f of None \<Rightarrow> Inr CTrue | Some p \<Rightarrow> pattern_condition enums structs p t)
         (\<lambda>d. field_conditions enums structs info fs (CAnd c (CField off d))))"
  by pat_completeness auto
termination
proof (relation "measure (\<lambda>x. case x of
      Inl (Inl (_, _, p, _)) \<Rightarrow> size p
    | Inl (Inr (_, _, ps, _, _)) \<Rightarrow> size_list size ps
    | Inr (Inl (_, _, ps, _, _, _)) \<Rightarrow> size_list size ps
    | Inr (Inr (_, _, _, fs, _)) \<Rightarrow> size_list (\<lambda>x. Suc (size_option size (snd x))) fs)", goal_cases)
qed (auto simp: size_prod_simp split: option.splits)

section \<open>The chain of tests\<close>

text \<open>
  A test per arm: catch-all patterns jump to the arm, the others test their condition and their
  guard. The last test jumps to its arm either way.
\<close>

datatype arm_check = Always | Test cond

definition is_catch_all :: "pat \<Rightarrow> bool" where
  "is_catch_all p = (case p of PatWildcard \<Rightarrow> True | PatIdent _ _ \<Rightarrow> True | _ \<Rightarrow> False)"

fun emit_checks ::
  "enum_info list \<Rightarrow> struct_registry \<Rightarrow> ty \<Rightarrow> match_arm list \<Rightarrow> (match_error, (match_arm \<times> arm_check) list) result" where
  "emit_checks enums structs t [] = Inr []"
| "emit_checks enums structs t (a # as) =
     and_then (if is_catch_all (arm_pattern a) then Inr Always
               else and_then (pattern_condition enums structs (arm_pattern a) t) (\<lambda>c. Inr (Test c)))
       (\<lambda>k. and_then (emit_checks enums structs t as) (\<lambda>ks. Inr ((a, k) # ks)))"

definition emit_match ::
  "enum_info list \<Rightarrow> struct_registry \<Rightarrow> ty \<Rightarrow> match_arm list \<Rightarrow> (match_error, (match_arm \<times> arm_check) list) result" where
  "emit_match enums structs t arms = (if arms = [] then Inl NoArms else emit_checks enums structs t arms)"

text \<open>Running the chain; \<open>ev\<close> gives the value of an arm's guard under the arm's bindings.\<close>

fun run_checks :: "(match_arm \<Rightarrow> rval \<Rightarrow> bool) \<Rightarrow> rval \<Rightarrow> (match_arm \<times> arm_check) list \<Rightarrow> nat \<Rightarrow> nat option" where
  "run_checks ev v [] i = None"
| "run_checks ev v ((a, k) # ks) i =
     (case k of
        Always \<Rightarrow> Some i
      | Test c \<Rightarrow>
          if holds c v \<and> (arm_guard a = None \<or> ev a v) \<or> ks = [] then Some i
          else run_checks ev v ks (Suc i))"

section \<open>What a pattern means\<close>

definition payload_types :: "ty option \<Rightarrow> nat \<Rightarrow> ty list" where
  "payload_types payload n =
     (case payload of None \<Rightarrow> [] | Some (Tuple ts) \<Rightarrow> if n = 1 then [Tuple ts] else ts | Some t \<Rightarrow> [t])"

function matches :: "enum_info list \<Rightarrow> struct_registry \<Rightarrow> pat \<Rightarrow> ty \<Rightarrow> rval \<Rightarrow> bool"
and matches_any :: "enum_info list \<Rightarrow> struct_registry \<Rightarrow> pat list \<Rightarrow> ty \<Rightarrow> rval \<Rightarrow> bool"
and matches_each :: "enum_info list \<Rightarrow> struct_registry \<Rightarrow> pat list \<Rightarrow> ty list \<Rightarrow> rval list \<Rightarrow> bool"
and matches_fields :: "enum_info list \<Rightarrow> struct_registry \<Rightarrow> struct_info \<Rightarrow> (string \<times> pat option) list \<Rightarrow> rval \<Rightarrow> bool"
where
  "matches enums structs PatWildcard t v = True"
| "matches enums structs (PatIdent _ _) t v = True"
| "matches enums structs PatRest t v = True"
| "matches enums structs (PatLiteral l) t v =
     (case l of SynInt n \<Rightarrow> v = RInt (of_int n) | SynBool b \<Rightarrow> v = RBool b | _ \<Rightarrow> False)"
| "matches enums structs (PatOr ps) t v = matches_any enums structs ps t v"
| "matches enums structs (PatVariant path subs) t v =
     (case (find_variant enums t path, v) of
        (Inr (payload, disc), REnum u vs) \<Rightarrow>
          u = disc \<and>
          (case subs of
             None \<Rightarrow> True
           | Some qs \<Rightarrow> matches_each enums structs qs (payload_types payload (length qs)) vs)
      | _ \<Rightarrow> False)"
| "matches enums structs (PatTuple ps) t v =
     (case t of
        Tuple ts \<Rightarrow> matches_each enums structs ps ts (map (\<lambda>i. component i v) [0..<length ts])
      | _ \<Rightarrow> False)"
| "matches enums structs (PatStruct name fs) t v =
     (case find_struct structs t name of Inl _ \<Rightarrow> False | Inr i \<Rightarrow> matches_fields enums structs i fs v)"
| "matches_any enums structs [] t v = False"
| "matches_any enums structs (p # ps) t v = (matches enums structs p t v \<or> matches_any enums structs ps t v)"
| "matches_each enums structs (p # ps) (t # ts) (v # vs) =
     (matches enums structs p t v \<and> matches_each enums structs ps ts vs)"
| "matches_each enums structs [] ts vs = True"
| "matches_each enums structs (p # ps) [] vs = True"
| "matches_each enums structs (p # ps) (t # ts) [] = True"
| "matches_fields enums structs info [] v = True"
| "matches_fields enums structs info (f # fs) v =
     (case find_field info (fst f) of
        Inl _ \<Rightarrow> False
      | Inr (off, t) \<Rightarrow>
          (case snd f of None \<Rightarrow> True | Some p \<Rightarrow> matches enums structs p t (component off v)) \<and>
          matches_fields enums structs info fs v)"
  by pat_completeness auto
termination
proof (relation "measure (\<lambda>x. case x of
      Inl (Inl (_, _, p, _)) \<Rightarrow> size p
    | Inl (Inr (_, _, ps, _, _)) \<Rightarrow> size_list size ps
    | Inr (Inl (_, _, ps, _, _)) \<Rightarrow> size_list size ps
    | Inr (Inr (_, _, _, fs, _)) \<Rightarrow> size_list (\<lambda>x. Suc (size_option size (snd x))) fs)", goal_cases)
qed (auto simp: size_prod_simp split: option.splits)

definition plain :: "pat \<Rightarrow> bool" where
  "plain p = (is_catch_all p \<or> p = PatRest)"

text \<open>Patterns whose variants bind their payload without inspecting it.\<close>

fun flat :: "pat \<Rightarrow> bool" where
  "flat (PatVariant _ subs) = (case subs of None \<Rightarrow> True | Some qs \<Rightarrow> list_all plain qs)"
| "flat (PatOr ps) = list_all flat ps"
| "flat (PatTuple ps) = list_all flat ps"
| "flat (PatStruct _ fs) = list_all (\<lambda>(_, p). case p of None \<Rightarrow> True | Some p \<Rightarrow> flat p) fs"
| "flat _ = True"

lemma plain_matches: "plain p \<Longrightarrow> matches enums structs p t v"
  by (cases p) (auto simp: plain_def is_catch_all_def)

lemma plains_match: "list_all plain ps \<Longrightarrow> matches_each enums structs ps ts vs"
proof (induction ps arbitrary: ts vs)
  case (Cons p ps ts us)
  then show ?case by (cases ts; cases us) (auto intro: plain_matches)
qed simp

lemma condition_exact:
  "pattern_condition enums structs p t = Inr c \<Longrightarrow> flat p \<Longrightarrow> holds c v \<longleftrightarrow> matches enums structs p t v"
  "or_conditions enums structs ps t c0 = Inr c \<Longrightarrow> list_all flat ps \<Longrightarrow>
     holds c v \<longleftrightarrow> holds c0 v \<or> matches_any enums structs ps t v"
  "tuple_conditions enums structs ps ts i c0 = Inr c \<Longrightarrow> list_all flat ps \<Longrightarrow>
     holds c v \<longleftrightarrow> holds c0 v \<and>
       matches_each enums structs ps ts (map (\<lambda>j. component j v) [i..<i + length ts])"
  "field_conditions enums structs info fs c0 = Inr c \<Longrightarrow>
     list_all (\<lambda>(_, p). case p of None \<Rightarrow> True | Some p \<Rightarrow> flat p) fs \<Longrightarrow>
     holds c v \<longleftrightarrow> holds c0 v \<and> matches_fields enums structs info fs v"
proof (induction enums structs p t and enums structs ps t c0 and enums structs ps ts i c0
    and enums structs info fs c0
    arbitrary: c v and c v and c v and c v
    rule: pattern_condition_or_conditions_tuple_conditions_field_conditions.induct)
  case (3 enums structs l t)
  then show ?case by (auto simp: base10_parse_i64_def split: syn_lit.splits if_splits)
next
  case (4 enums structs ps t)
  then show ?case by (auto split: list.splits sum.splits)
next
  case (5 enums structs path subs t)
  then show ?case by (auto split: sum.splits rval.splits option.splits intro: plains_match)
next
  case (6 enums structs ps t)
  then show ?case by (auto split: ty.splits if_splits)
next
  case (11 enums structs p ps t ts i c)
  then show ?case by (auto split: sum.splits simp: upt_conv_Cons simp del: upt_Suc)
next
  case (15 enums structs info f fs c)
  then show ?case by (cases f; cases "snd f") (auto split: sum.splits)
qed (auto split: sum.splits)

definition selects ::
  "enum_info list \<Rightarrow> struct_registry \<Rightarrow> (match_arm \<Rightarrow> rval \<Rightarrow> bool) \<Rightarrow> ty \<Rightarrow> rval \<Rightarrow> match_arm \<Rightarrow> bool" where
  "selects enums structs ev t v a \<longleftrightarrow>
     matches enums structs (arm_pattern a) t v \<and> (arm_guard a = None \<or> ev a v)"

definition plain_arm :: "match_arm \<Rightarrow> bool" where
  "plain_arm a \<longleftrightarrow> flat (arm_pattern a) \<and> (is_catch_all (arm_pattern a) \<longrightarrow> arm_guard a = None)"

lemma run_checks_first:
  assumes "emit_checks enums structs t arms = Inr ks" "list_all plain_arm arms" "arms \<noteq> []"
  shows "run_checks ev v ks i = Some (i +
    (if \<exists>a \<in> set arms. selects enums structs ev t v a
     then length (takeWhile (\<lambda>a. \<not> selects enums structs ev t v a) arms) else length arms - 1))"
  using assms
proof (induction arms arbitrary: ks i)
  case (Cons a as)
  obtain k ks' where ks: "ks = (a, k) # ks'" "emit_checks enums structs t as = Inr ks'"
    and k: "(if is_catch_all (arm_pattern a) then Inr Always
       else and_then (pattern_condition enums structs (arm_pattern a) t) (\<lambda>c. Inr (Test c))) = Inr k"
    using Cons.prems(1) by (auto split: sum.splits)
  have nil: "ks' = [] \<longleftrightarrow> as = []"
    using ks(2) by (cases as) (auto split: sum.splits)
  note IH = Cons.IH [OF ks(2), of "Suc i"]
  show ?case
  proof (cases "is_catch_all (arm_pattern a)")
    case True
    then have "selects enums structs ev t v a"
      using Cons.prems(2) plain_matches [of "arm_pattern a"] by (auto simp: selects_def plain_arm_def plain_def)
    then show ?thesis using True k ks(1) by simp
  next
    case False
    then obtain c where c: "pattern_condition enums structs (arm_pattern a) t = Inr c" "k = Test c"
      using k by (auto split: sum.splits)
    then have "holds c v \<and> (arm_guard a = None \<or> ev a v) \<longleftrightarrow> selects enums structs ev t v a"
      using condition_exact(1) [OF c(1)] Cons.prems(2) by (simp add: selects_def plain_arm_def)
    then show ?thesis
      using IH Cons.prems(2) nil c(2) ks(1) by (cases "as = []") (auto simp: neq_Nil_conv)
  qed
qed simp

section \<open>Exhaustiveness\<close>

datatype exhaustiveness =
    Exhaustive | MissingVariants "string list" | UnsupportedType ty | UnknownEnumName string

fun variants_of_pattern :: "pat \<Rightarrow> string list" where
  "variants_of_pattern (PatVariant path _) = (if path = [] then [] else [last path])"
| "variants_of_pattern (PatOr ps) = concat (map variants_of_pattern ps)"
| "variants_of_pattern _ = []"

definition extract_covered_variants :: "match_arm list \<Rightarrow> string set" where
  "extract_covered_variants arms = \<Union> (set ` variants_of_pattern ` arm_pattern ` set arms)"

fun matches_all :: "pat \<Rightarrow> bool" where
  "matches_all PatWildcard = True"
| "matches_all (PatIdent _ _) = True"
| "matches_all (PatOr ps) = list_ex matches_all ps"
| "matches_all _ = False"

definition has_wildcard :: "match_arm list \<Rightarrow> bool" where
  "has_wildcard arms = list_ex (\<lambda>a. matches_all (arm_pattern a)) arms"

definition lookup_enum :: "enum_info list \<Rightarrow> string \<Rightarrow> enum_info option" where
  "lookup_enum enums name =
     find (\<lambda>i. ei_name i = name \<or> ends_with (''__'' @ ei_name i) name \<or> ends_with (''__'' @ name) (ei_name i)) enums"

definition checked_enum_name :: "ty \<Rightarrow> string option" where
  "checked_enum_name t =
     (case t of
        Enum name \<Rightarrow> Some name
      | Concrete name _ \<Rightarrow>
          if str_contains ''Result'' name \<or> str_contains ''Option'' name then Some name else None
      | _ \<Rightarrow> None)"

definition check_exhaustiveness :: "enum_info list \<Rightarrow> ty \<Rightarrow> match_arm list \<Rightarrow> exhaustiveness" where
  "check_exhaustiveness enums t arms =
     (case checked_enum_name t of
        None \<Rightarrow> UnsupportedType t
      | Some name \<Rightarrow>
          (case lookup_enum enums name of
             None \<Rightarrow> UnknownEnumName name
           | Some info \<Rightarrow>
               if has_wildcard arms then Exhaustive
               else let missing = filter (\<lambda>v. v \<notin> extract_covered_variants arms) (map fst (ei_variants info))
                    in if missing = [] then Exhaustive else MissingVariants missing))"

section \<open>An exhaustive match dispatches to the first matching arm\<close>

fun variant_pat :: "pat \<Rightarrow> bool" where
  "variant_pat (PatVariant _ subs) = (case subs of None \<Rightarrow> True | Some qs \<Rightarrow> list_all plain qs)"
| "variant_pat (PatOr ps) = list_all variant_pat ps"
| "variant_pat (PatTuple _) = False"
| "variant_pat (PatStruct _ _) = False"
| "variant_pat PatRest = False"
| "variant_pat _ = True"

lemma variant_pat_flat: "variant_pat p \<Longrightarrow> flat p"
  by (induction p rule: variant_pat.induct) (auto simp: list_all_iff)

lemma matches_any_iff: "matches_any enums structs ps t v \<longleftrightarrow> (\<exists>p \<in> set ps. matches enums structs p t v)"
  by (induction ps) auto

lemma variant_pat_covers:
  assumes "find_enum enums t = Inr info" "distinct (map fst (ei_variants info))"
    "distinct (map (snd \<circ> snd) (ei_variants info))" "(name, payload, disc) \<in> set (ei_variants info)"
  shows "variant_pat p \<Longrightarrow> matches enums structs p t (REnum disc vs) \<longleftrightarrow>
    matches_all p \<or> name \<in> set (variants_of_pattern p)"
proof (induction p rule: variant_pat.induct)
  case (1 path subs)
  have disc: "n = name \<and> pl = payload" if "(n, pl, disc) \<in> set (ei_variants info)" for n pl
    using inj_onD [OF assms(3) [unfolded distinct_map, THEN conjunct2] _ that assms(4)] by simp
  show ?case
  proof (cases "path = []")
    case False
    have hit: "map_of (ei_variants info) name = Some (payload, disc)"
      unfolding map_of_eq_Some_iff [OF assms(2)] by (rule assms(4))
    have miss: "map_of (ei_variants info) (last path) = Some (pl, d) \<Longrightarrow> d \<noteq> disc" if "last path \<noteq> name" for pl d
      unfolding map_of_eq_Some_iff [OF assms(2)] using disc that by blast
    show ?thesis
      using 1 False assms(1) hit miss
      by (cases "last path = name")
        (auto simp: find_variant_def split: option.splits intro: plains_match)
  qed (simp add: find_variant_def)
qed (auto simp: matches_any_iff list_all_iff list_ex_iff split: syn_lit.splits)

definition first_match ::
  "enum_info list \<Rightarrow> struct_registry \<Rightarrow> ty \<Rightarrow> match_arm list \<Rightarrow> rval \<Rightarrow> nat \<Rightarrow> bool" where
  "first_match enums structs t arms v k \<longleftrightarrow>
     k < length arms \<and> matches enums structs (arm_pattern (arms ! k)) t v \<and>
     (\<forall>j<k. \<not> matches enums structs (arm_pattern (arms ! j)) t v)"

text \<open>
  Property C24: a match on a value of an enum, all of whose arms are unguarded and do not look into
  payloads: if the check says that the match is exhaustive, the emitted tests jump to the first arm
  whose pattern matches the value; if it reports missing variants, no arm matches the values of
  those, for which the tests jump to the last arm, and all other values are dispatched rightly.
  (After a catch-all arm no test is reached; the code emits those of the arms after it without a label.)
\<close>

theorem match_dispatch_exact:
  assumes "emit_match enums structs t arms = Inr ks"
    "list_all (\<lambda>a. variant_pat (arm_pattern a) \<and> arm_guard a = None) arms"
    "find_enum enums t = Inr info" "checked_enum_name t = Some name" "lookup_enum enums name = Some info"
    "distinct (map fst (ei_variants info))" "distinct (map (snd \<circ> snd) (ei_variants info))"
    "(variant, payload, disc) \<in> set (ei_variants info)"
  shows "case check_exhaustiveness enums t arms of
      Exhaustive \<Rightarrow>
        (\<exists>k. run_checks ev (REnum disc vs) ks 0 = Some k \<and> first_match enums structs t arms (REnum disc vs) k)
    | MissingVariants missing \<Rightarrow>
        if variant \<in> set missing then
          (\<nexists>k. first_match enums structs t arms (REnum disc vs) k) \<and>
          run_checks ev (REnum disc vs) ks 0 = Some (length arms - 1)
        else (\<exists>k. run_checks ev (REnum disc vs) ks 0 = Some k \<and> first_match enums structs t arms (REnum disc vs) k)
    | _ \<Rightarrow> False"
proof -
  let ?v = "REnum disc vs"
  let ?sel = "selects enums structs ev t ?v"
  have ne: "arms \<noteq> []" and ks: "emit_checks enums structs t arms = Inr ks"
    using assms(1) by (auto simp: emit_match_def split: if_splits)
  have "list_all plain_arm arms"
    using assms(2) by (auto simp: list_all_iff plain_arm_def variant_pat_flat)
  note run = run_checks_first [OF ks this ne, of ev ?v 0]
  have sel: "?sel a \<longleftrightarrow> matches enums structs (arm_pattern a) t ?v" if "a \<in> set arms" for a
    using assms(2) that by (simp add: selects_def list_all_iff)
  have cov: "?sel a \<longleftrightarrow> matches_all (arm_pattern a) \<or> variant \<in> set (variants_of_pattern (arm_pattern a))"
    if "a \<in> set arms" for a
    using sel [OF that] variant_pat_covers [OF assms(3,6,7,8)] assms(2) that by (simp add: list_all_iff)
  have first: "\<exists>k. run_checks ev ?v ks 0 = Some k \<and> first_match enums structs t arms ?v k"
    if "\<exists>a \<in> set arms. ?sel a"
  proof -
    let ?k = "length (takeWhile (\<lambda>a. \<not> ?sel a) arms)"
    have "?k < length arms" using that by (induction arms) auto
    moreover from this have "?sel (arms ! ?k)" using nth_length_takeWhile by blast
    moreover have "\<not> ?sel (arms ! j)" if "j < ?k" for j
      using that by (metis nth_mem set_takeWhileD takeWhile_nth)
    ultimately have "first_match enums structs t arms ?v ?k"
      using sel by (auto simp: first_match_def)
    then show ?thesis using run that by auto
  qed
  have none: "\<not> ?sel a" if "\<not> has_wildcard arms" "variant \<notin> extract_covered_variants arms" "a \<in> set arms" for a
    using that cov by (auto simp: has_wildcard_def extract_covered_variants_def list_ex_iff)
  have some: "\<exists>a \<in> set arms. ?sel a" if "has_wildcard arms \<or> variant \<in> extract_covered_variants arms"
    using that cov by (auto simp: has_wildcard_def extract_covered_variants_def list_ex_iff)
  have mem: "variant \<in> fst ` set (ei_variants info)" using assms(8) by force
  show ?thesis
  proof (cases "has_wildcard arms \<or> variant \<in> extract_covered_variants arms")
    case True
    then show ?thesis
      using first [OF some [OF True]] assms(4,5)
      by (auto simp: check_exhaustiveness_def Let_def)
  next
    case False
    then have no: "\<forall>a \<in> set arms. \<not> ?sel a" using none by blast
    then have "run_checks ev ?v ks 0 = Some (length arms - 1)"
        "\<nexists>k. first_match enums structs t arms ?v k"
      using run sel by (auto simp: first_match_def)
    then show ?thesis
      using False mem assms(4,5) by (auto simp: check_exhaustiveness_def Let_def filter_empty_conv)
  qed
qed

definition opt_enum :: enum_info where
  "opt_enum = \<lparr>ei_name = ''Opt'', ei_variants = [(''None'', None, 0), (''Some'', Some I64, 1)]\<rparr>"

definition some_arm :: "pat \<Rightarrow> syn_expr option \<Rightarrow> match_arm" where
  "some_arm p g = MatchArm (PatVariant [''Opt'', ''Some''] (Some [p])) g []"

definition none_arm :: match_arm where
  "none_arm = MatchArm (PatVariant [''Opt'', ''None''] None) None []"

lemmas opt_simps = opt_enum_def some_arm_def none_arm_def emit_match_def is_catch_all_def find_variant_def
  find_enum_def checked_enum_name_def lookup_enum_def check_exhaustiveness_def has_wildcard_def
  extract_covered_variants_def first_match_def plain_def payload_types_def Let_def

theorem match_dispatch_exact_witness:
  "\<exists>ks k. emit_match [opt_enum] [] (Enum ''Opt'') [some_arm (PatIdent ''x'' False) None, none_arm] = Inr ks \<and>
     run_checks (\<lambda>_ _. True) (REnum 0 []) ks 0 = Some k \<and>
     first_match [opt_enum] [] (Enum ''Opt'') [some_arm (PatIdent ''x'' False) None, none_arm] (REnum 0 []) k"
proof -
  let ?arms = "[some_arm (PatIdent ''x'' False) None, none_arm]"
  obtain ks where ks: "emit_match [opt_enum] [] (Enum ''Opt'') ?arms = Inr ks"
    by (simp add: opt_simps)
  have "check_exhaustiveness [opt_enum] (Enum ''Opt'') ?arms = Exhaustive" by (simp add: opt_simps)
  then show ?thesis
    using match_dispatch_exact [OF ks, of opt_enum "''Opt''" "''None''" None 0 "\<lambda>_ _. True" "[]"] ks
    by (simp add: opt_simps)
qed

text \<open>
  Outside these limits the emitted tests are wrong. A guard on a catch-all arm is not evaluated, a
  literal inside a variant is not compared, and a guarded arm counts as covering its variant: when
  the guard fails, a match that was found exhaustive runs the last arm although it does not match.
\<close>

lemma catch_all_guard_ignored:
  "\<exists>ks. emit_match [opt_enum] [] (Enum ''Opt'') [MatchArm (PatIdent ''x'' False) (Some g) [], none_arm] = Inr ks \<and>
     run_checks (\<lambda>_ _. False) v ks 0 = Some 0"
  by (simp add: opt_simps)

lemma payload_literal_ignored:
  "\<exists>ks. emit_match [opt_enum] [] (Enum ''Opt'') [some_arm (PatLiteral (SynInt 0)) None, some_arm PatWildcard None] = Inr ks \<and>
     run_checks ev (REnum 1 [RInt 5]) ks 0 = Some 0"
  "\<not> matches [opt_enum] [] (arm_pattern (some_arm (PatLiteral (SynInt 0)) None)) (Enum ''Opt'') (REnum 1 [RInt 5])"
  by (simp_all add: opt_simps)

lemma failed_guard_runs_last_arm:
  "check_exhaustiveness [opt_enum] (Enum ''Opt'') [some_arm (PatIdent ''x'' False) (Some g), none_arm] = Exhaustive"
  "\<exists>ks. emit_match [opt_enum] [] (Enum ''Opt'') [some_arm (PatIdent ''x'' False) (Some g), none_arm] = Inr ks \<and>
     run_checks (\<lambda>_ _. False) (REnum 1 [RInt 5]) ks 0 = Some 1"
  "\<not> matches [opt_enum] [] (arm_pattern none_arm) (Enum ''Opt'') (REnum 1 [RInt 5])"
  by (simp_all add: opt_simps)

end
