(* ===== verification/Provenance.thy ===== *)
theory Provenance
  imports Snapshots Salt_Types
begin

text \<open>
  Provenance of values during emission (\<open>salt-front/src/codegen/types/provenance.rs\<close>): which local
  variables are tracked memory bases, which variable an SSA value was loaded from, and the cache of
  loaded globals (\<open>GlobalLVN\<close>) with its snapshots. None of the maps is iterated.
\<close>

section \<open>Bases and origins\<close>

record provenance_map =
  pm_bases :: "string \<rightharpoonup> ty"

definition provenance_new :: provenance_map where
  "provenance_new = \<lparr>pm_bases = Map.empty\<rparr>"

definition register_base :: "string \<Rightarrow> ty \<Rightarrow> provenance_map \<Rightarrow> provenance_map" where
  "register_base name elem m = m\<lparr>pm_bases := (pm_bases m)(name \<mapsto> elem)\<rparr>"

definition lookup_base :: "provenance_map \<Rightarrow> string \<Rightarrow> ty option" where
  "lookup_base m name = pm_bases m name"

definition is_base :: "provenance_map \<Rightarrow> string \<Rightarrow> bool" where
  "is_base m name = (pm_bases m name \<noteq> None)"

record origin_map =
  om_origins :: "string \<rightharpoonup> string"

definition origin_new :: origin_map where
  "origin_new = \<lparr>om_origins = Map.empty\<rparr>"

definition register_origin :: "string \<Rightarrow> string \<Rightarrow> origin_map \<Rightarrow> origin_map" where
  "register_origin ssa var m = m\<lparr>om_origins := (om_origins m)(ssa \<mapsto> var)\<rparr>"

definition get_origin :: "origin_map \<Rightarrow> string \<Rightarrow> string option" where
  "get_origin m ssa = om_origins m ssa"

definition origin_clear :: "origin_map \<Rightarrow> origin_map" where
  "origin_clear m = m\<lparr>om_origins := Map.empty\<rparr>"

section \<open>The cache of globals\<close>

record global_lvn =
  lvn_cache :: "string \<times> string \<rightharpoonup> string"
  current_function :: "string option"
  snapshot_stack :: "(string \<times> string \<rightharpoonup> string) list"

definition lvn_new :: global_lvn where
  "lvn_new = \<lparr>lvn_cache = Map.empty, current_function = None, snapshot_stack = []\<rparr>"

definition set_current_function :: "string \<Rightarrow> global_lvn \<Rightarrow> string option \<times> global_lvn" where
  "set_current_function f l = (current_function l, l\<lparr>current_function := Some f\<rparr>)"

definition clear_current_function :: "global_lvn \<Rightarrow> global_lvn" where
  "clear_current_function l = l\<lparr>current_function := None\<rparr>"

definition get_current_function :: "global_lvn \<Rightarrow> string option" where
  "get_current_function l = current_function l"

definition clear_current_func_cache :: "global_lvn \<Rightarrow> global_lvn" where
  "clear_current_func_cache l =
     (case current_function l of
        None \<Rightarrow> l
      | Some f \<Rightarrow> l\<lparr>lvn_cache := (\<lambda>(g, s). if g = f then None else lvn_cache l (g, s))\<rparr>)"

definition push_snapshot :: "global_lvn \<Rightarrow> global_lvn" where
  "push_snapshot l = l\<lparr>snapshot_stack := lvn_cache l # snapshot_stack l\<rparr>"

definition pop_snapshot :: "global_lvn \<Rightarrow> global_lvn" where
  "pop_snapshot l =
     (case snapshot_stack l of [] \<Rightarrow> l | saved # rest \<Rightarrow> l\<lparr>lvn_cache := saved, snapshot_stack := rest\<rparr>)"

definition cache_value :: "string \<Rightarrow> string \<Rightarrow> global_lvn \<Rightarrow> global_lvn" where
  "cache_value symbol ssa l =
     (case current_function l of None \<Rightarrow> l | Some f \<Rightarrow> l\<lparr>lvn_cache := (lvn_cache l)((f, symbol) \<mapsto> ssa)\<rparr>)"

definition get_cached :: "global_lvn \<Rightarrow> string \<Rightarrow> string option" where
  "get_cached l symbol = Option.bind (current_function l) (\<lambda>f. lvn_cache l (f, symbol))"

definition lvn_update :: "string \<Rightarrow> string \<Rightarrow> global_lvn \<Rightarrow> global_lvn" where
  "lvn_update symbol v l =
     (case current_function l of
        None \<Rightarrow> l
      | Some f \<Rightarrow>
          if lvn_cache l (f, symbol) \<noteq> None then l\<lparr>lvn_cache := (lvn_cache l)((f, symbol) \<mapsto> v)\<rparr> else l)"

definition lvn_invalidate :: "string \<Rightarrow> global_lvn \<Rightarrow> global_lvn" where
  "lvn_invalidate symbol l =
     (case current_function l of None \<Rightarrow> l | Some f \<Rightarrow> l\<lparr>lvn_cache := (lvn_cache l)((f, symbol) := None)\<rparr>)"

definition lvn_clear :: "global_lvn \<Rightarrow> global_lvn" where
  "lvn_clear l = l\<lparr>lvn_cache := Map.empty\<rparr>"

section \<open>Snapshots of the cache\<close>

text \<open>What happens to the cache between a snapshot and its restoration.\<close>

datatype lvn_edit = Cache string string | Update string string | Invalidate string | Clear

definition lvn_edit :: "lvn_edit \<Rightarrow> global_lvn \<Rightarrow> global_lvn" where
  "lvn_edit e l =
     (case e of
        Cache g v \<Rightarrow> cache_value g v l
      | Update g v \<Rightarrow> lvn_update g v l
      | Invalidate g \<Rightarrow> lvn_invalidate g l
      | Clear \<Rightarrow> lvn_clear l)"

definition lvn_leave :: "global_lvn \<Rightarrow> global_lvn option" where
  "lvn_leave l = (if snapshot_stack l = [] then None else Some (pop_snapshot l))"

lemma lvn_edit_frame [simp]:
  "snapshot_stack (lvn_edit e l) = snapshot_stack l" "current_function (lvn_edit e l) = current_function l"
  by (auto simp: lvn_edit_def cache_value_def lvn_update_def lvn_invalidate_def lvn_clear_def
      split: lvn_edit.split option.split)

lemma pop_lvn_edit: "snapshot_stack l \<noteq> [] \<Longrightarrow> pop_snapshot (lvn_edit e l) = pop_snapshot l"
  by (auto simp: pop_snapshot_def lvn_edit_def cache_value_def lvn_update_def lvn_invalidate_def
      lvn_clear_def split: lvn_edit.split option.split list.split)

interpretation lvns: snapshots push_snapshot lvn_leave lvn_edit "\<lambda>l. length (snapshot_stack l)" "\<lambda>_. True"
  by unfold_locales (auto simp: push_snapshot_def lvn_leave_def pop_lvn_edit, simp add: pop_snapshot_def)

text \<open>
  \<open>clear\<close> keeps the saved snapshots, so a pending restoration brings the cleared entries back.
\<close>

lemma clear_keeps_snapshots:
  "get_cached (pop_snapshot (lvn_clear (push_snapshot l))) g = get_cached l g"
  by (simp add: push_snapshot_def lvn_clear_def pop_snapshot_def get_cached_def)

lemma get_cached_simps [simp]:
  "get_cached (cache_value g v l) h =
     (if current_function l \<noteq> None \<and> h = g then Some v else get_cached l h)"
  "current_function (cache_value g v l) = current_function l"
  "current_function (push_snapshot l) = current_function l"
  "get_cached (push_snapshot l) h = get_cached l h"
  "current_function (pop_snapshot l) = current_function l"
  by (auto simp: get_cached_def cache_value_def push_snapshot_def pop_snapshot_def
      split: option.splits list.splits)

end
