(* ===== verification/Global_Cache.thy ===== *)
theory Global_Cache
  imports Provenance
begin

text \<open>
  What the cache of globals does to the emitted code: the read of a global in \<open>emit_expr\<close>
  (\<open>codegen/expr/mod.rs\<close>), the write in \<open>emit_assign\<close>
  (\<open>codegen/expr/binary_ops.rs\<close>), the two branches of \<open>emit_salt_if\<close> and the
  arms of \<open>emit_match\<close> (\<open>codegen/stmt.rs\<close>), and the branches of
  \<open>emit_if_expr\<close> (\<open>codegen/expr/control_flow.rs\<close>). Loops, which clear the
  cache, are left out. The rest of the emission is represented by what it does to globals: an operand
  that is already emitted has its SSA name, a call its effect on memory.
\<close>

section \<open>Emission\<close>

text \<open>
  \<open>IfG\<close> is an \<open>if\<close> statement, which brackets its branches by snapshots of the
  cache. \<open>IfE\<close> is an \<open>if\<close> expression and \<open>MatchG\<close> the arms of a
  \<open>match\<close>: they take no snapshot. \<open>CopyG h g\<close> is \<open>h = g\<close>.
\<close>

datatype access =
    ReadG string
  | WriteG string string
  | CopyG string string
  | CallG string
  | IfG "access list" "access list option"
  | IfE "access list" "access list"
  | MatchG "access list list"

datatype instr =
    LoadI string string
  | UseI string
  | StoreI string string
  | CallI string
  | IfI "instr list" "instr list"

record emitter =
  em_lvn :: global_lvn
  em_next :: nat

definition val_name :: "nat \<Rightarrow> string" where
  "val_name n = ''%global_resolved_val_'' @ show_nat n"

definition on_lvn :: "(global_lvn \<Rightarrow> global_lvn) \<Rightarrow> emitter \<Rightarrow> emitter" where
  "on_lvn f e = e\<lparr>em_lvn := f (em_lvn e)\<rparr>"

text \<open>The SSA name of a global's value, with the load if it is not cached.\<close>

definition emit_load :: "string \<Rightarrow> emitter \<Rightarrow> instr list \<times> string \<times> emitter" where
  "emit_load g e =
     (case get_cached (em_lvn e) g of
        Some ssa \<Rightarrow> ([], ssa, e)
      | None \<Rightarrow>
          let ssa = val_name (em_next e)
          in ([LoadI ssa g], ssa, on_lvn (cache_value g ssa) (e\<lparr>em_next := Suc (em_next e)\<rparr>)))"

definition emit_read :: "string \<Rightarrow> emitter \<Rightarrow> instr list \<times> emitter" where
  "emit_read g e = (let (c, ssa, e) = emit_load g e in (c @ [UseI ssa], e))"

definition emit_write :: "string \<Rightarrow> string \<Rightarrow> emitter \<Rightarrow> instr list \<times> emitter" where
  "emit_write g rhs e = ([StoreI g rhs], if g = [] then e else on_lvn (cache_value g rhs) e)"

fun emit_access :: "access \<Rightarrow> emitter \<Rightarrow> instr list \<times> emitter"
and emit_all :: "access list \<Rightarrow> emitter \<Rightarrow> instr list \<times> emitter"
and emit_arms :: "access list list \<Rightarrow> emitter \<Rightarrow> instr list \<times> emitter" where
  "emit_access (ReadG g) e = emit_read g e"
| "emit_access (WriteG g rhs) e = emit_write g rhs e"
| "emit_access (CopyG h g) e =
     (let (c, ssa, e) = emit_load g e; (c', e) = emit_write h ssa e in (c @ c', e))"
| "emit_access (CallG f) e = ([CallI f], e)"
| "emit_access (IfG then_b else_b) e =
     (let (c1, e) = emit_all then_b (on_lvn push_snapshot e);
          e = on_lvn pop_snapshot e
      in case else_b of
           None \<Rightarrow> ([IfI c1 []], e)
         | Some else_b \<Rightarrow>
             let (c2, e) = emit_all else_b (on_lvn push_snapshot e)
             in ([IfI c1 c2], on_lvn pop_snapshot e))"
| "emit_access (IfE then_b else_b) e =
     (let (c1, e) = emit_all then_b e; (c2, e) = emit_all else_b e in ([IfI c1 c2], e))"
| "emit_access (MatchG arms) e = emit_arms arms e"
| "emit_all [] e = ([], e)"
| "emit_all (a # as) e =
     (let (c, e) = emit_access a e; (cs, e) = emit_all as e in (c @ cs, e))"
| "emit_arms [] e = ([], e)"
| "emit_arms [b] e = emit_all b e"
| "emit_arms (b # b' # bs) e =
     (let (c1, e) = emit_all b e; (c2, e) = emit_arms (b' # bs) e in ([IfI c1 c2], e))"

section \<open>Meaning\<close>

text \<open>
  Memory maps globals to values, registers map SSA names to values; \<open>calls\<close> gives what a called
  function does to memory; a condition is the next choice, an arm is chosen by the first condition
  that is true, or else the last. A run yields the values read, in order.
\<close>

type_synonym 'v mem = "string \<Rightarrow> 'v"

fun run_access :: "(string \<Rightarrow> 'v mem \<Rightarrow> 'v mem) \<Rightarrow> access \<Rightarrow> 'v mem \<Rightarrow> 'v mem \<Rightarrow> bool list \<Rightarrow> 'v list \<times> 'v mem \<times> bool list"
and run_all :: "(string \<Rightarrow> 'v mem \<Rightarrow> 'v mem) \<Rightarrow> access list \<Rightarrow> 'v mem \<Rightarrow> 'v mem \<Rightarrow> bool list \<Rightarrow> 'v list \<times> 'v mem \<times> bool list"
and run_arms :: "(string \<Rightarrow> 'v mem \<Rightarrow> 'v mem) \<Rightarrow> access list list \<Rightarrow> 'v mem \<Rightarrow> 'v mem \<Rightarrow> bool list \<Rightarrow> 'v list \<times> 'v mem \<times> bool list" where
  "run_access calls (ReadG g) regs m bs = ([m g], m, bs)"
| "run_access calls (WriteG g rhs) regs m bs = ([], m(g := regs rhs), bs)"
| "run_access calls (CopyG h g) regs m bs = ([], m(h := m g), bs)"
| "run_access calls (CallG f) regs m bs = ([], calls f m, bs)"
| "run_access calls (IfG then_b else_b) regs m bs =
     (if bs \<noteq> [] \<and> hd bs then run_all calls then_b regs m (tl bs)
      else case else_b of None \<Rightarrow> ([], m, tl bs) | Some else_b \<Rightarrow> run_all calls else_b regs m (tl bs))"
| "run_access calls (IfE then_b else_b) regs m bs =
     (if bs \<noteq> [] \<and> hd bs then run_all calls then_b regs m (tl bs) else run_all calls else_b regs m (tl bs))"
| "run_access calls (MatchG arms) regs m bs = run_arms calls arms regs m bs"
| "run_all calls [] regs m bs = ([], m, bs)"
| "run_all calls (a # as) regs m bs =
     (let (vs, m, bs) = run_access calls a regs m bs; (ws, m, bs) = run_all calls as regs m bs
      in (vs @ ws, m, bs))"
| "run_arms calls [] regs m bs = ([], m, bs)"
| "run_arms calls [b] regs m bs = run_all calls b regs m bs"
| "run_arms calls (b # b' # arms) regs m bs =
     (if bs \<noteq> [] \<and> hd bs then run_all calls b regs m (tl bs) else run_arms calls (b' # arms) regs m (tl bs))"

fun exec :: "(string \<Rightarrow> 'v mem \<Rightarrow> 'v mem) \<Rightarrow> instr \<Rightarrow> 'v mem \<times> 'v mem \<times> bool list \<Rightarrow> 'v list \<times> 'v mem \<times> 'v mem \<times> bool list"
and exec_all :: "(string \<Rightarrow> 'v mem \<Rightarrow> 'v mem) \<Rightarrow> instr list \<Rightarrow> 'v mem \<times> 'v mem \<times> bool list \<Rightarrow> 'v list \<times> 'v mem \<times> 'v mem \<times> bool list" where
  "exec calls (LoadI ssa g) (regs, m, bs) = ([], regs(ssa := m g), m, bs)"
| "exec calls (UseI ssa) (regs, m, bs) = ([regs ssa], regs, m, bs)"
| "exec calls (StoreI g rhs) (regs, m, bs) = ([], regs, m(g := regs rhs), bs)"
| "exec calls (CallI f) (regs, m, bs) = ([], regs, calls f m, bs)"
| "exec calls (IfI c1 c2) (regs, m, bs) =
     (if bs \<noteq> [] \<and> hd bs then exec_all calls c1 (regs, m, tl bs) else exec_all calls c2 (regs, m, tl bs))"
| "exec_all calls [] s = ([], s)"
| "exec_all calls (i # is) s =
     (let (vs, s) = exec calls i s; (ws, s) = exec_all calls is s in (vs @ ws, s))"

section \<open>The emission brackets its edits of the cache\<close>

lemma on_lvn_simps [simp]: "em_lvn (on_lvn f e) = f (em_lvn e)" "em_next (on_lvn f e) = em_next e"
  by (simp_all add: on_lvn_def)

lemma lvn_edit_Cache [simp]: "lvn_edit (Cache g v) = cache_value g v"
  by (simp add: lvn_edit_def fun_eq_iff)

lemma bracket_restores:
  assumes "balanced ops" "lvns.run ops (push_snapshot l) = Some l'"
  shows "pop_snapshot l' = l" "lvns.run (Enter # ops @ [Leave]) l = Some l"
proof -
  show r: "lvns.run (Enter # ops @ [Leave]) l = Some l"
    by (rule lvns.block_restores [OF assms(1) TrueI])
  then show "pop_snapshot l' = l"
    using assms(2) by (auto simp: lvns.run_append lvn_leave_def split: if_splits option.splits)
qed

lemma load_balanced:
  "emit_load g e = (c, ssa, e') \<Longrightarrow> \<exists>ops. balanced ops \<and> lvns.run ops (em_lvn e) = Some (em_lvn e')"
proof (cases "get_cached (em_lvn e) g")
  case None
  assume "emit_load g e = (c, ssa, e')"
  then have "em_lvn e' = cache_value g (val_name (em_next e)) (em_lvn e)"
    using None by (auto simp: emit_load_def Let_def)
  then show ?thesis
    by (intro exI [of _ "[Edit (Cache g (val_name (em_next e)))]"]) (auto intro: balanced.intros)
next
  case (Some s)
  assume "emit_load g e = (c, ssa, e')"
  then show ?thesis using Some by (intro exI [of _ "[]"]) (auto simp: emit_load_def intro: balanced.intros)
qed

lemma write_balanced:
  "emit_write g rhs e = (c, e') \<Longrightarrow> \<exists>ops. balanced ops \<and> lvns.run ops (em_lvn e) = Some (em_lvn e')"
proof (cases "g = []")
  case False
  assume "emit_write g rhs e = (c, e')"
  then show ?thesis using False
    by (intro exI [of _ "[Edit (Cache g rhs)]"]) (auto simp: emit_write_def intro: balanced.intros)
next
  case True
  assume "emit_write g rhs e = (c, e')"
  then show ?thesis using True by (intro exI [of _ "[]"]) (auto simp: emit_write_def intro: balanced.intros)
qed

lemma steps_balanced:
  assumes "\<exists>ops. balanced ops \<and> lvns.run ops l = Some l1" "\<exists>ops. balanced ops \<and> lvns.run ops l1 = Some l2"
  shows "\<exists>ops. balanced ops \<and> lvns.run ops l = Some l2"
proof -
  obtain xs ys where "balanced xs" "lvns.run xs l = Some l1" "balanced ys" "lvns.run ys l1 = Some l2"
    using assms by blast
  then show ?thesis by (intro exI [of _ "xs @ ys"]) (auto simp: lvns.run_append balanced_append)
qed

lemma emit_balanced:
  "emit_access a e = (c, e') \<Longrightarrow> \<exists>ops. balanced ops \<and> lvns.run ops (em_lvn e) = Some (em_lvn e')"
  "emit_all as e = (c, e') \<Longrightarrow> \<exists>ops. balanced ops \<and> lvns.run ops (em_lvn e) = Some (em_lvn e')"
  "emit_arms arms e = (c, e') \<Longrightarrow> \<exists>ops. balanced ops \<and> lvns.run ops (em_lvn e) = Some (em_lvn e')"
proof (induction a e and as e and arms e arbitrary: c e' and c e' and c e' rule: emit_access_emit_all_emit_arms.induct)
  case (1 g e)
  then show ?case using load_balanced by (fastforce simp: emit_read_def split: prod.splits)
next
  case (2 g rhs e)
  then show ?case using write_balanced by fastforce
next
  case (3 h g e)
  obtain c1 ssa e1 where l: "emit_load g e = (c1, ssa, e1)" by (metis prod_cases3)
  obtain c2 e2 where w: "emit_write h ssa e1 = (c2, e2)" by fastforce
  show ?case using steps_balanced [OF load_balanced [OF l] write_balanced [OF w]] 3 l w by simp
next
  case (5 then_b else_b e)
  obtain c1 e1 where t: "emit_all then_b (on_lvn push_snapshot e) = (c1, e1)" by fastforce
  obtain ops where ops: "balanced ops" "lvns.run ops (push_snapshot (em_lvn e)) = Some (em_lvn e1)"
    using "5.IH"(1) [OF t] by auto
  note r = bracket_restores [OF ops]
  show ?case
  proof (cases else_b)
    case None
    then show ?thesis using 5 t r by (intro exI [of _ "[]"]) (auto intro: balanced.intros)
  next
    case (Some eb)
    obtain c2 e2 where s: "emit_all eb (on_lvn push_snapshot (on_lvn pop_snapshot e1)) = (c2, e2)" by fastforce
    obtain ops' where "balanced ops'" "lvns.run ops' (push_snapshot (em_lvn e)) = Some (em_lvn e2)"
      using "5.IH"(2) [OF t [symmetric] refl refl Some s] r(1) by auto
    then show ?thesis using 5 t s Some bracket_restores
      by (intro exI [of _ "[]"]) (auto intro: balanced.intros)
  qed
next
  case (6 t el e)
  obtain c1 e1 where t: "emit_all t e = (c1, e1)" by fastforce
  obtain c2 e2 where s: "emit_all el e1 = (c2, e2)" by fastforce
  show ?case using steps_balanced [OF "6.IH"(1) [OF t] "6.IH"(2) [OF t [symmetric] refl s]] "6.prems" t s by simp
next
  case (9 a as e)
  obtain c1 e1 where a: "emit_access a e = (c1, e1)" by fastforce
  obtain c2 e2 where as: "emit_all as e1 = (c2, e2)" by fastforce
  show ?case using steps_balanced [OF "9.IH"(1) [OF a] "9.IH"(2) [OF a [symmetric] refl as]] "9.prems" a as by simp
next
  case (12 b b' bs e)
  obtain c1 e1 where b: "emit_all b e = (c1, e1)" by fastforce
  obtain c2 e2 where bs: "emit_arms (b' # bs) e1 = (c2, e2)" by fastforce
  show ?case using steps_balanced [OF "12.IH"(1) [OF b] "12.IH"(2) [OF b [symmetric] refl bs]] "12.prems" b bs by simp
qed (auto intro!: exI [of _ "[]"] intro: balanced.intros)

lemma branch_restores:
  "emit_all b (on_lvn push_snapshot e) = (c, e1) \<Longrightarrow> pop_snapshot (em_lvn e1) = em_lvn e"
  using emit_balanced(2) bracket_restores(1) by fastforce

section \<open>When the cache is right\<close>

text \<open>
  No write under a branch. A branch without snapshot (where \<open>fresh\<close> is false) only reads
  globals that are cached when it is entered: \<open>S\<close> are the globals known to be cached.
  Operands of other writes are not named like a loaded global: the names of loads come from a counter,
  all others have other prefixes.
\<close>

definition after_access :: "access \<Rightarrow> string set" where
  "after_access a = (case a of ReadG g \<Rightarrow> {g} | WriteG g _ \<Rightarrow> {g} | CopyG h g \<Rightarrow> {h, g} | _ \<Rightarrow> {})"

fun reads_ok :: "bool \<Rightarrow> string set \<Rightarrow> access \<Rightarrow> bool"
and reads_all :: "bool \<Rightarrow> string set \<Rightarrow> access list \<Rightarrow> bool" where
  "reads_ok fresh S (ReadG g) = (fresh \<or> g \<in> S)"
| "reads_ok fresh S (WriteG _ _) = False"
| "reads_ok fresh S (CopyG _ _) = False"
| "reads_ok fresh S (CallG _) = True"
| "reads_ok fresh S (IfG t e) = (reads_all True S t \<and> (case e of None \<Rightarrow> True | Some b \<Rightarrow> reads_all True S b))"
| "reads_ok fresh S (IfE t e) = (reads_all False S t \<and> reads_all False S e)"
| "reads_ok fresh S (MatchG arms) = list_all (reads_all False S) arms"
| "reads_all fresh S [] = True"
| "reads_all fresh S (a # as) = (reads_ok fresh S a \<and> reads_all fresh (S \<union> after_access a) as)"

fun branch_safe :: "string set \<Rightarrow> access \<Rightarrow> bool" where
  "branch_safe S (WriteG g rhs) = (g \<noteq> [] \<and> (\<forall>n. rhs \<noteq> val_name n))"
| "branch_safe S (CopyG h g) = (h \<noteq> [])"
| "branch_safe S a = reads_ok True S a"

fun all_safe :: "string set \<Rightarrow> access list \<Rightarrow> bool" where
  "all_safe S [] = True"
| "all_safe S (a # as) = (branch_safe S a \<and> all_safe (S \<union> after_access a) as)"

definition covers :: "emitter \<Rightarrow> string set \<Rightarrow> bool" where
  "covers e S \<longleftrightarrow> (\<forall>g \<in> S. get_cached (em_lvn e) g \<noteq> None)"

definition cache_ok :: "emitter \<Rightarrow> 'v mem \<Rightarrow> 'v mem \<Rightarrow> 'v mem \<Rightarrow> bool" where
  "cache_ok e regs0 regs m \<longleftrightarrow>
     (\<forall>x. (\<forall>n. x \<noteq> val_name n) \<longrightarrow> regs x = regs0 x) \<and>
     (\<forall>g s. get_cached (em_lvn e) g = Some s \<longrightarrow>
        regs s = m g \<and> (\<forall>n. s = val_name n \<longrightarrow> n < em_next e))"

definition frame :: "nat \<Rightarrow> 'v mem \<Rightarrow> 'v mem \<Rightarrow> bool" where
  "frame k regs regs' \<longleftrightarrow> (\<forall>x. (\<forall>n \<ge> k. x \<noteq> val_name n) \<longrightarrow> regs' x = regs x)"

lemma get_cached_function: "get_cached l g = Some s \<Longrightarrow> current_function l \<noteq> None"
  by (auto simp: get_cached_def split: bind_splits)

lemma val_name_inj [simp]: "val_name a = val_name b \<longleftrightarrow> a = b"
  by (auto simp: val_name_def dest: show_nat_inj)

lemma frame_refl [simp]: "frame k regs regs"
  by (simp add: frame_def)

lemma frame_trans: "frame k regs regs' \<Longrightarrow> frame l regs' regs'' \<Longrightarrow> k \<le> l \<Longrightarrow> frame k regs regs''"
  by (force simp: frame_def)

lemma frame_weaken: "frame l regs regs' \<Longrightarrow> k \<le> l \<Longrightarrow> frame k regs regs'"
  by (rule frame_trans [OF frame_refl])

text \<open>The cache stays right across code that only loads.\<close>

lemma cache_ok_frame:
  assumes "cache_ok e regs0 regs m" "frame (em_next e) regs regs'" "em_lvn e' = em_lvn e" "em_next e \<le> em_next e'"
  shows "cache_ok e' regs0 regs' m"
  using assms unfolding cache_ok_def frame_def by (metis leD order_less_le_trans)

lemma cache_ok_push: "cache_ok (on_lvn push_snapshot e) regs0 regs m = cache_ok e regs0 regs m"
  by (simp add: cache_ok_def)

lemma covers_push: "covers (on_lvn push_snapshot e) S = covers e S"
  by (simp add: covers_def)

lemma exec_all_append:
  "exec_all calls (c @ cs) s =
     (let (vs, s) = exec_all calls c s; (ws, s) = exec_all calls cs s in (vs @ ws, s))"
  by (induction c arbitrary: s) (auto simp: Let_def split: prod.splits)

lemma load_next: "emit_load g e = (c, ssa, e') \<Longrightarrow> em_next e \<le> em_next e'"
  by (auto simp: emit_load_def Let_def split: option.splits)

lemma emit_next:
  "emit_access a e = (c, e') \<Longrightarrow> em_next e \<le> em_next e'"
  "emit_all as e = (c, e') \<Longrightarrow> em_next e \<le> em_next e'"
  "emit_arms arms e = (c, e') \<Longrightarrow> em_next e \<le> em_next e'"
proof (induction a e and as e and arms e arbitrary: c e' and c e' and c e' rule: emit_access_emit_all_emit_arms.induct)
  case (1 g e)
  then show ?case by (auto simp: emit_read_def dest: load_next split: prod.splits)
next
  case (3 h g e)
  then show ?case by (auto simp: emit_write_def dest: load_next split: prod.splits if_splits)
next
  case (5 t el e)
  obtain c1 e1 where t: "emit_all t (on_lvn push_snapshot e) = (c1, e1)" by fastforce
  note n1 = "5.IH"(1) [OF t]
  show ?case
  proof (cases el)
    case None
    then show ?thesis using "5.prems" t n1 by auto
  next
    case (Some eb)
    obtain c2 e2 where s: "emit_all eb (on_lvn push_snapshot (on_lvn pop_snapshot e1)) = (c2, e2)" by fastforce
    show ?thesis using "5.prems" t s Some n1 "5.IH"(2) [OF t [symmetric] refl refl Some s] by auto
  qed
next
  case (6 t el e)
  obtain c1 e1 where t: "emit_all t e = (c1, e1)" by fastforce
  obtain c2 e2 where s: "emit_all el e1 = (c2, e2)" by fastforce
  show ?case using "6.prems" t s "6.IH"(1) [OF t] "6.IH"(2) [OF t [symmetric] refl s] by simp
next
  case (9 a as e)
  obtain c1 e1 where a: "emit_access a e = (c1, e1)" by fastforce
  obtain c2 e2 where as: "emit_all as e1 = (c2, e2)" by fastforce
  show ?case using "9.prems" a as "9.IH"(1) [OF a] "9.IH"(2) [OF a [symmetric] refl as] by simp
next
  case (12 b b' bs e)
  obtain c1 e1 where b: "emit_all b e = (c1, e1)" by fastforce
  obtain c2 e2 where bs: "emit_arms (b' # bs) e1 = (c2, e2)" by fastforce
  show ?case using "12.prems" b bs "12.IH"(1) [OF b] "12.IH"(2) [OF b [symmetric] refl bs] by simp
qed (auto simp: emit_write_def)

lemma emit_if_lvn:
  assumes "emit_access (IfG t el) e = (c, e')"
  shows "em_lvn e' = em_lvn e"
proof -
  obtain c1 e1 where t: "emit_all t (on_lvn push_snapshot e) = (c1, e1)" by fastforce
  show ?thesis
  proof (cases el)
    case None
    then show ?thesis using assms t branch_restores [OF t] by auto
  next
    case (Some eb)
    obtain c2 e2 where s: "emit_all eb (on_lvn push_snapshot (on_lvn pop_snapshot e1)) = (c2, e2)" by fastforce
    show ?thesis using assms t s Some branch_restores [OF t] branch_restores [OF s] by auto
  qed
qed

text \<open>A branch without snapshot that only reads cached globals leaves the cache as it is.\<close>

lemma known_reads: "reads_ok False S a \<Longrightarrow> S \<union> after_access a = S"
  by (cases a) (auto simp: after_access_def)

lemma quiet_branch:
  "emit_access a e = (c, e') \<Longrightarrow> reads_ok False S a \<Longrightarrow> covers e S \<Longrightarrow> em_lvn e' = em_lvn e"
  "emit_all as e = (c, e') \<Longrightarrow> reads_all False S as \<Longrightarrow> covers e S \<Longrightarrow> em_lvn e' = em_lvn e"
  "emit_arms arms e = (c, e') \<Longrightarrow> list_all (reads_all False S) arms \<Longrightarrow> covers e S \<Longrightarrow> em_lvn e' = em_lvn e"
proof (induction a e and as e and arms e arbitrary: c e' and c e' and c e' rule: emit_access_emit_all_emit_arms.induct)
  case (1 g e)
  then show ?case by (auto simp: emit_read_def emit_load_def covers_def)
next
  case (5 t el e)
  then show ?case by (blast dest: emit_if_lvn)
next
  case (6 t el e)
  obtain c1 e1 where t: "emit_all t e = (c1, e1)" by fastforce
  obtain c2 e2 where s: "emit_all el e1 = (c2, e2)" by fastforce
  have S: "reads_all False S t" "reads_all False S el" using "6.prems"(2) by simp_all
  have l: "em_lvn e1 = em_lvn e" by (rule "6.IH"(1) [OF t S(1) "6.prems"(3)])
  then have "covers e1 S" using "6.prems"(3) by (simp add: covers_def)
  from "6.IH"(2) [OF t [symmetric] refl s S(2) this] l show ?case using "6.prems"(1) t s by simp
next
  case (9 a as e)
  obtain c1 e1 where a: "emit_access a e = (c1, e1)" by fastforce
  obtain c2 e2 where as: "emit_all as e1 = (c2, e2)" by fastforce
  have S: "reads_ok False S a" "reads_all False S as" using "9.prems"(2) known_reads [of S a] by auto
  have l: "em_lvn e1 = em_lvn e" by (rule "9.IH"(1) [OF a S(1) "9.prems"(3)])
  then have "covers e1 S" using "9.prems"(3) by (simp add: covers_def)
  from "9.IH"(2) [OF a [symmetric] refl as S(2) this] l show ?case using "9.prems"(1) a as by simp
next
  case (12 b b' bs e)
  obtain c1 e1 where b: "emit_all b e = (c1, e1)" by fastforce
  obtain c2 e2 where bs: "emit_arms (b' # bs) e1 = (c2, e2)" by fastforce
  have S: "reads_all False S b" "list_all (reads_all False S) (b' # bs)" using "12.prems"(2) by simp_all
  have l: "em_lvn e1 = em_lvn e" by (rule "12.IH"(1) [OF b S(1) "12.prems"(3)])
  then have "covers e1 S" using "12.prems"(3) by (simp add: covers_def)
  from "12.IH"(2) [OF b [symmetric] refl bs S(2) this] l show ?case using "12.prems"(1) b bs by simp
qed auto

lemma load_covers:
  assumes "emit_load g e = (c, ssa, e')" "current_function (em_lvn e) \<noteq> None" "covers e S"
  shows "covers e' (insert g S)" "current_function (em_lvn e') \<noteq> None"
  using assms by (auto simp: emit_load_def covers_def Let_def split: option.splits)

lemma covers_after:
  assumes "emit_access a e = (c, e')" "current_function (em_lvn e) \<noteq> None" "covers e S"
    and "reads_ok fresh S a \<or> branch_safe S a"
  shows "covers e' (S \<union> after_access a) \<and> current_function (em_lvn e') \<noteq> None"
proof (cases a)
  case (ReadG g)
  then show ?thesis using assms load_covers [OF _ assms(2,3)]
    by (auto simp: emit_read_def after_access_def split: prod.splits)
next
  case (WriteG g rhs)
  then show ?thesis using assms by (auto simp: emit_write_def covers_def after_access_def split: if_splits)
next
  case (CopyG h g)
  obtain cl ssa el where l: "emit_load g e = (cl, ssa, el)" by (metis prod_cases3)
  note load_covers [OF l assms(2,3)]
  moreover have "h \<noteq> []" using assms(4) CopyG by auto
  ultimately show ?thesis using assms(1) CopyG l
    by (auto simp: emit_write_def covers_def after_access_def)
next
  case (IfG t el)
  then show ?thesis using assms emit_if_lvn [of t el e c e'] by (auto simp: covers_def after_access_def)
next
  case (IfE t el)
  then have "em_lvn e' = em_lvn e" using assms quiet_branch(1) [of a e c e' S] by auto
  then show ?thesis using assms IfE by (auto simp: covers_def after_access_def)
next
  case (MatchG arms)
  then have "em_lvn e' = em_lvn e" using assms quiet_branch(1) [of a e c e' S] by auto
  then show ?thesis using assms MatchG by (auto simp: covers_def after_access_def)
qed (use assms in \<open>auto simp: after_access_def\<close>)

lemma load_right:
  assumes "cache_ok e regs0 regs m" "emit_load g e = (c, ssa, e')"
  shows "\<exists>regs'. (\<forall>cs bs. exec_all calls (c @ cs) (regs, m, bs) = exec_all calls cs (regs', m, bs)) \<and>
    regs' ssa = m g \<and> (\<forall>n. ssa = val_name n \<longrightarrow> n < em_next e') \<and> cache_ok e' regs0 regs' m \<and> frame (em_next e) regs regs'"
proof (cases "get_cached (em_lvn e) g")
  case None
  then have c: "c = [LoadI (val_name (em_next e)) g]" "ssa = val_name (em_next e)"
    and e': "e' = on_lvn (cache_value g (val_name (em_next e))) (e\<lparr>em_next := Suc (em_next e)\<rparr>)"
    using assms(2) by (auto simp: emit_load_def Let_def)
  let ?r = "regs(val_name (em_next e) := m g)"
  have "frame (em_next e) regs ?r" by (auto simp: frame_def)
  moreover have "cache_ok e' regs0 ?r m"
    using assms(1) unfolding e' cache_ok_def by (auto simp: less_Suc_eq)
  ultimately show ?thesis by (intro exI [of _ ?r]) (auto simp: c e' Let_def split: prod.splits)
next
  case (Some s)
  then show ?thesis using assms
    by (intro exI [of _ regs]) (auto simp: emit_load_def cache_ok_def)
qed

text \<open>The two ways of a conditional branch whose emission leaves the cache as it is.\<close>

lemma branch_right:
  assumes "cache_ok e regs0 regs m" "em_lvn e' = em_lvn e" "em_next e \<le> em_next e'"
    and x: "exec_all calls [IfI c1 c2] (regs, m, bs) = (vs, regs', m', bs')"
    and th: "exec_all calls c1 (regs, m, tl bs) = (vs, regs', m', bs') \<Longrightarrow>
      r1 = (vs, m, bs') \<and> m' = m \<and> frame (em_next e) regs regs'"
    and el: "exec_all calls c2 (regs, m, tl bs) = (vs, regs', m', bs') \<Longrightarrow>
      r2 = (vs, m, bs') \<and> m' = m \<and> frame (em_next e) regs regs'"
  shows "(if bs \<noteq> [] \<and> hd bs then r1 else r2) = (vs, m, bs') \<and> m' = m \<and> cache_ok e' regs0 regs' m \<and>
    frame (em_next e) regs regs'"
proof -
  have "(if bs \<noteq> [] \<and> hd bs then r1 else r2) = (vs, m, bs') \<and> m' = m \<and> frame (em_next e) regs regs'"
    using x th el by (auto simp: Let_def split: prod.splits if_splits)
  then show ?thesis using cache_ok_frame [OF assms(1) _ assms(2,3)] by blast
qed

lemma reads_right:
  "emit_access a e = (c, e') \<Longrightarrow> calls = (\<lambda>_ m. m) \<Longrightarrow> reads_ok fresh S a \<Longrightarrow> covers e S \<Longrightarrow>
   current_function (em_lvn e) \<noteq> None \<Longrightarrow> cache_ok e regs0 regs m \<Longrightarrow>
   exec_all calls c (regs, m, bs) = (vs, regs', m', bs') \<Longrightarrow>
   run_access calls a regs0 m bs = (vs, m, bs') \<and> m' = m \<and> cache_ok e' regs0 regs' m \<and> frame (em_next e) regs regs'"
  "emit_all as e = (c, e') \<Longrightarrow> calls = (\<lambda>_ m. m) \<Longrightarrow> reads_all fresh S as \<Longrightarrow> covers e S \<Longrightarrow>
   current_function (em_lvn e) \<noteq> None \<Longrightarrow> cache_ok e regs0 regs m \<Longrightarrow>
   exec_all calls c (regs, m, bs) = (vs, regs', m', bs') \<Longrightarrow>
   run_all calls as regs0 m bs = (vs, m, bs') \<and> m' = m \<and> cache_ok e' regs0 regs' m \<and> frame (em_next e) regs regs'"
  "emit_arms arms e = (c, e') \<Longrightarrow> calls = (\<lambda>_ m. m) \<Longrightarrow> list_all (reads_all False S) arms \<Longrightarrow> covers e S \<Longrightarrow>
   current_function (em_lvn e) \<noteq> None \<Longrightarrow> cache_ok e regs0 regs m \<Longrightarrow>
   exec_all calls c (regs, m, bs) = (vs, regs', m', bs') \<Longrightarrow>
   run_arms calls arms regs0 m bs = (vs, m, bs') \<and> m' = m \<and> cache_ok e' regs0 regs' m \<and> frame (em_next e) regs regs'"
proof (induction a e and as e and arms e arbitrary: fresh S c e' regs m bs vs regs' m' bs' and
    fresh S c e' regs m bs vs regs' m' bs' and S c e' regs m bs vs regs' m' bs'
    rule: emit_access_emit_all_emit_arms.induct)
  case (1 g e)
  obtain c1 ssa e1 where l: "emit_load g e = (c1, ssa, e1)" by (metis prod_cases3)
  obtain r where r: "\<forall>cs bs. exec_all calls (c1 @ cs) (regs, m, bs) = exec_all calls cs (r, m, bs)" "r ssa = m g"
    "cache_ok e1 regs0 r m" "frame (em_next e) regs r"
    using load_right [OF "1.prems"(6) l, of calls] by blast
  have "c = c1 @ [UseI ssa]" "e' = e1" using "1.prems"(1) l by (simp_all add: emit_read_def)
  then show ?case using "1.prems"(7) r by auto
next
  case (5 t el e)
  obtain c1 e1 where t: "emit_all t (on_lvn push_snapshot e) = (c1, e1)" by fastforce
  have n1: "em_lvn (on_lvn pop_snapshot e1) = em_lvn e" "em_next e \<le> em_next e1"
    using branch_restores [OF t] emit_next(2) [OF t] by auto
  have th: "run_all calls t regs0 m (tl bs) = (vs, m, bs') \<and> m' = m \<and> frame (em_next e) regs regs'"
    if "exec_all calls c1 (regs, m, tl bs) = (vs, regs', m', bs')"
    using "5.IH"(1) [OF t "5.prems"(2) _ _ _ _ that, of True S] "5.prems"(3-6) by (simp add: covers_push cache_ok_push)
  have lvn: "em_lvn e' = em_lvn e" by (rule emit_if_lvn [OF "5.prems"(1)])
  show ?case
  proof (cases el)
    case None
    then have c: "c = [IfI c1 []]" "e' = on_lvn pop_snapshot e1" using "5.prems"(1) t by auto
    show ?thesis
      using branch_right [OF "5.prems"(6) lvn _ "5.prems"(7) [unfolded c] th, of "([], m, tl bs)"] n1(2)
      by (auto simp: None c)
  next
    case (Some eb)
    obtain c2 e2 where s: "emit_all eb (on_lvn push_snapshot (on_lvn pop_snapshot e1)) = (c2, e2)" by fastforce
    then have c: "c = [IfI c1 c2]" "e' = on_lvn pop_snapshot e2" using "5.prems"(1) t Some by auto
    have ok1: "cache_ok (on_lvn pop_snapshot e1) regs0 regs m"
      using cache_ok_frame [OF "5.prems"(6) frame_refl n1(1)] n1(2) by simp
    have n2: "em_next e1 \<le> em_next e2" using emit_next(2) [OF s] by simp
    let ?e1 = "on_lvn push_snapshot (on_lvn pop_snapshot e1)"
    have pre: "covers ?e1 S" "current_function (em_lvn ?e1) \<noteq> None" "cache_ok ?e1 regs0 regs m" "reads_all True S eb"
      using "5.prems"(3-5) Some n1 ok1 by (simp_all add: covers_push cache_ok_push, simp add: covers_def)
    have "run_all calls eb regs0 m (tl bs) = (vs, m, bs') \<and> m' = m \<and> frame (em_next e) regs regs'"
      if "exec_all calls c2 (regs, m, tl bs) = (vs, regs', m', bs')"
      using "5.IH"(2) [OF t [symmetric] refl refl Some s "5.prems"(2) pre(4,1,2,3) that] by (auto intro: frame_weaken [OF _ n1(2)])
    from branch_right [OF "5.prems"(6) lvn _ "5.prems"(7) [unfolded c] th this] show ?thesis
      using n1(2) n2 by (cases bs) (auto simp: Some c)
  qed
next
  case (6 t el e)
  obtain c1 e1 where t: "emit_all t e = (c1, e1)" by fastforce
  obtain c2 e2 where s: "emit_all el e1 = (c2, e2)" by fastforce
  have c: "c = [IfI c1 c2]" "e' = e2" using "6.prems"(1) t s by auto
  have S: "reads_all False S t" "reads_all False S el" using "6.prems"(3) by simp_all
  have n: "em_next e \<le> em_next e1" "em_next e1 \<le> em_next e2" using emit_next(2) [OF t] emit_next(2) [OF s] by auto
  have l1: "em_lvn e1 = em_lvn e" by (rule quiet_branch(2) [OF t S(1) "6.prems"(4)])
  then have cov1: "covers e1 S" using "6.prems"(4) by (simp add: covers_def)
  have l2: "em_lvn e2 = em_lvn e" using quiet_branch(2) [OF s S(2) cov1] l1 by simp
  have ok1: "cache_ok e1 regs0 regs m" by (rule cache_ok_frame [OF "6.prems"(6) frame_refl l1 n(1)])
  have th: "run_all calls t regs0 m (tl bs) = (vs, m, bs') \<and> m' = m \<and> frame (em_next e) regs regs'"
    if "exec_all calls c1 (regs, m, tl bs) = (vs, regs', m', bs')"
    using "6.IH"(1) [OF t "6.prems"(2) S(1) "6.prems"(4,5,6) that] by simp
  have elb: "run_all calls el regs0 m (tl bs) = (vs, m, bs') \<and> m' = m \<and> frame (em_next e) regs regs'"
    if "exec_all calls c2 (regs, m, tl bs) = (vs, regs', m', bs')"
    using "6.IH"(2) [OF t [symmetric] refl s "6.prems"(2) S(2) cov1 _ ok1 that] "6.prems"(5) l1 by (auto intro: frame_weaken [OF _ n(1)])
  from branch_right [OF "6.prems"(6) l2 _ "6.prems"(7) [unfolded c] th elb] show ?case using n by (cases bs) (auto simp: c)
next
  case (9 a as e)
  obtain c1 e1 where a: "emit_access a e = (c1, e1)" by fastforce
  obtain c2 e2 where as: "emit_all as e1 = (c2, e2)" by fastforce
  obtain us regs1 m1 bs1 where x1: "exec_all calls c1 (regs, m, bs) = (us, regs1, m1, bs1)"
    by (metis prod_cases4)
  obtain ws regs2 m2 bs2 where x2: "exec_all calls c2 (regs1, m1, bs1) = (ws, regs2, m2, bs2)"
    by (metis prod_cases4)
  have all: "c = c1 @ c2" "e' = e2" "vs = us @ ws" "regs' = regs2" "m' = m2" "bs' = bs2"
    using "9.prems"(1,7) a as x1 x2 by (auto simp: exec_all_append)
  have S: "reads_ok fresh S a" "reads_all fresh (S \<union> after_access a) as" using "9.prems"(3) by simp_all
  have h: "run_access calls a regs0 m bs = (us, m, bs1)" "m1 = m" "cache_ok e1 regs0 regs1 m" "frame (em_next e) regs regs1"
    using "9.IH"(1) [OF a "9.prems"(2) S(1) "9.prems"(4,5,6) x1] by auto
  have cov: "covers e1 (S \<union> after_access a)" "current_function (em_lvn e1) \<noteq> None"
    using covers_after [OF a "9.prems"(5,4)] S(1) by blast+
  have "run_all calls as regs0 m bs1 = (ws, m, bs2)" "m2 = m" "cache_ok e2 regs0 regs2 m" "frame (em_next e1) regs1 regs2"
    using "9.IH"(2) [OF a [symmetric] refl as "9.prems"(2) S(2) cov h(3) x2 [unfolded h(2)]] by auto
  then show ?case
    using h frame_trans [OF h(4), of "em_next e1" regs2] emit_next(1) [OF a] by (simp add: all)
next
  case (12 b b' arms e)
  obtain c1 e1 where t: "emit_all b e = (c1, e1)" by fastforce
  obtain c2 e2 where s: "emit_arms (b' # arms) e1 = (c2, e2)" by fastforce
  have c: "c = [IfI c1 c2]" "e' = e2" using "12.prems"(1) t s by auto
  have S: "reads_all False S b" "list_all (reads_all False S) (b' # arms)" using "12.prems"(3) by simp_all
  have n: "em_next e \<le> em_next e1" "em_next e1 \<le> em_next e2" using emit_next(2) [OF t] emit_next(3) [OF s] by auto
  have l1: "em_lvn e1 = em_lvn e" by (rule quiet_branch(2) [OF t S(1) "12.prems"(4)])
  then have cov1: "covers e1 S" using "12.prems"(4) by (simp add: covers_def)
  have l2: "em_lvn e2 = em_lvn e" using quiet_branch(3) [OF s S(2) cov1] l1 by simp
  have ok1: "cache_ok e1 regs0 regs m" by (rule cache_ok_frame [OF "12.prems"(6) frame_refl l1 n(1)])
  have th: "run_all calls b regs0 m (tl bs) = (vs, m, bs') \<and> m' = m \<and> frame (em_next e) regs regs'"
    if "exec_all calls c1 (regs, m, tl bs) = (vs, regs', m', bs')"
    using "12.IH"(1) [OF t "12.prems"(2) S(1) "12.prems"(4,5,6) that] by simp
  have elb: "run_arms calls (b' # arms) regs0 m (tl bs) = (vs, m, bs') \<and> m' = m \<and> frame (em_next e) regs regs'"
    if "exec_all calls c2 (regs, m, tl bs) = (vs, regs', m', bs')"
    using "12.IH"(2) [OF t [symmetric] refl s "12.prems"(2) S(2) cov1 _ ok1 that] "12.prems"(5) l1 by (auto intro: frame_weaken [OF _ n(1)])
  from branch_right [OF "12.prems"(6) l2 _ "12.prems"(7) [unfolded c] th elb] show ?case using n by (cases bs) (auto simp: c)
qed auto

lemma accesses_right:
  "emit_all as e = (c, e') \<Longrightarrow> all_safe S as \<Longrightarrow> covers e S \<Longrightarrow> current_function (em_lvn e) \<noteq> None \<Longrightarrow>
   cache_ok e regs0 regs m \<Longrightarrow> exec_all (\<lambda>_ m. m) c (regs, m, bs) = (vs, regs', m', bs') \<Longrightarrow>
   run_all (\<lambda>_ m. m) as regs0 m bs = (vs, m', bs') \<and> cache_ok e' regs0 regs' m'"
proof (induction as arbitrary: e c e' S regs m bs vs regs' m' bs')
  case (Cons a as)
  obtain c1 e1 where a: "emit_access a e = (c1, e1)" by fastforce
  obtain c2 e2 where as: "emit_all as e1 = (c2, e2)" by fastforce
  obtain us regs1 m1 bs1 where x1: "exec_all (\<lambda>_ m. m) c1 (regs, m, bs) = (us, regs1, m1, bs1)"
    by (metis prod_cases4)
  obtain ws regs2 m2 bs2 where x2: "exec_all (\<lambda>_ m. m) c2 (regs1, m1, bs1) = (ws, regs2, m2, bs2)"
    by (metis prod_cases4)
  have all: "c = c1 @ c2" "e' = e2" "vs = us @ ws" "regs' = regs2" "m' = m2" "bs' = bs2"
    using Cons.prems(1,6) a as x1 x2 by (auto simp: exec_all_append)
  have S: "branch_safe S a" "all_safe (S \<union> after_access a) as" using Cons.prems(2) by simp_all
  have cov: "covers e1 (S \<union> after_access a)" "current_function (em_lvn e1) \<noteq> None"
    using covers_after [OF a Cons.prems(4,3)] S(1) by blast+
  have "run_access (\<lambda>_ m. m) a regs0 m bs = (us, m1, bs1) \<and> cache_ok e1 regs0 regs1 m1"
  proof (cases "reads_ok True S a")
    case True
    then show ?thesis using reads_right(1) [OF a refl True Cons.prems(3,4,5) x1] by simp
  next
    case False
    with S(1) consider g rhs where "a = WriteG g rhs" | h g where "a = CopyG h g" by (cases a) auto
    then show ?thesis
    proof cases
      case 1
      then show ?thesis using a x1 S(1) Cons.prems(5)
        by (auto simp: emit_write_def cache_ok_def Let_def split: if_splits dest: get_cached_function)
    next
      case 2
      obtain cl ssa el where l: "emit_load g e = (cl, ssa, el)" by (metis prod_cases3)
      obtain r where r: "\<forall>cs bs. exec_all (\<lambda>_ m. m) (cl @ cs) (regs, m, bs) = exec_all (\<lambda>_ m. m) cs (r, m, bs)" "r ssa = m g"
        "\<forall>n. ssa = val_name n \<longrightarrow> n < em_next el" "cache_ok el regs0 r m"
        using load_right [OF Cons.prems(5) l, of "\<lambda>_ m. m"] by blast
      have "c1 = cl @ [StoreI h ssa]" "e1 = on_lvn (cache_value h ssa) el"
        using a S(1) l by (auto simp: 2 emit_write_def)
      then show ?thesis using x1 r by (auto simp: 2 cache_ok_def dest: get_cached_function)
    qed
  qed
  moreover from this have "run_all (\<lambda>_ m. m) as regs0 m1 bs1 = (ws, m2, bs2) \<and> cache_ok e2 regs0 regs2 m2"
    using Cons.IH [OF as S(2) cov _ x2] by blast
  ultimately show ?case by (simp add: all)
qed simp

definition emitter_for :: "string \<Rightarrow> global_lvn \<Rightarrow> nat \<Rightarrow> emitter" where
  "emitter_for f l n = \<lparr>em_lvn = clear_current_func_cache (snd (set_current_function f l)), em_next = n\<rparr>"

lemma fresh_function: "get_cached (em_lvn (emitter_for f l n)) g = None" "current_function (em_lvn (emitter_for f l n)) \<noteq> None"
  by (simp_all add: emitter_for_def set_current_function_def clear_current_func_cache_def get_cached_def)



text \<open>
  The restrictions are needed. After a branch that assigns a global, the snapshot brings back the
  value read before the branch, and a call that changes a global does not touch the cache: the next
  read yields the old value.
\<close>

lemmas cache_eval = emitter_for_def set_current_function_def clear_current_func_cache_def emit_read_def emit_load_def
  emit_write_def get_cached_def cache_value_def push_snapshot_def pop_snapshot_def lvn_new_def Let_def
  val_name_def str_simps

lemma branch_write_lost:
  "fst (exec_all (\<lambda>_ m. m)
     (fst (emit_all [ReadG ''g'', IfG [WriteG ''g'' ''%x''] None, ReadG ''g''] (emitter_for ''f'' lvn_new 0)))
     (\<lambda>_. 7 :: int, \<lambda>_. 1, [True])) = [1, 1]"
  "fst (run_all (\<lambda>_ m. m) [ReadG ''g'', IfG [WriteG ''g'' ''%x''] None, ReadG ''g''] (\<lambda>_. 7 :: int) (\<lambda>_. 1) [True]) = [1, 7]"
  by (simp_all add: cache_eval)

lemma call_effect_lost:
  "fst (exec_all (\<lambda>_ m _. 7)
     (fst (emit_all [ReadG ''g'', CallG ''set'', ReadG ''g''] (emitter_for ''f'' lvn_new 0)))
     (\<lambda>_. 0 :: int, \<lambda>_. 1, [])) = [1, 1]"
  "fst (run_all (\<lambda>_ m _. 7) [ReadG ''g'', CallG ''set'', ReadG ''g''] (\<lambda>_. 0 :: int) (\<lambda>_. 1) []) = [1, 7]"
  by (simp_all add: cache_eval)

text \<open>
  In \<open>if c { G } else { G }\<close>, used as an expression, the second branch uses the value that only the
  first branch loads; so does the second of two arms of a \<open>match\<close>.
\<close>

lemma sibling_branch_value_used:
  "fst (emit_access (IfE [ReadG ''g''] [ReadG ''g'']) (emitter_for ''f'' lvn_new 0)) =
     [IfI [LoadI (val_name 0) ''g'', UseI (val_name 0)] [UseI (val_name 0)]]"
  "fst (emit_access (MatchG [[ReadG ''g''], [ReadG ''g'']]) (emitter_for ''f'' lvn_new 0)) =
     [IfI [LoadI (val_name 0) ''g'', UseI (val_name 0)] [UseI (val_name 0)]]"
  "fst (exec_all (\<lambda>_ m. m) (fst (emit_access (IfE [ReadG ''g''] [ReadG ''g'']) (emitter_for ''f'' lvn_new 0)))
     (\<lambda>_. 0 :: int, \<lambda>_. 1, [False])) = [0]"
  "fst (run_access (\<lambda>_ m. m) (IfE [ReadG ''g''] [ReadG ''g'']) (\<lambda>_. 0 :: int) (\<lambda>_. 1) [False]) = [1]"
  by (simp_all add: cache_eval)

end
