(* ===== verification/Package_Resolver.thy ===== *)
theory Package_Resolver
  imports Prelude "HOL-Library.List_Lexorder" "HOL-Library.Char_ord"
begin

text \<open>
  The package manager's resolver (\<open>tools/sp/src/resolver.rs\<close>) with the manifests it reads
  (\<open>tools/sp/src/manifest.rs\<close>): the depth-first walk over the dependencies, the build order
  and the search roots. The file system is a tree without links, in which paths are followed as the
  system does; parsing of TOML is an argument, for it is done by another package. The walk recurses
  along manifests on disk, so it is given fuel; enough is one more than the number of names that occur
  in manifests.
\<close>

section \<open>Files and paths\<close>

datatype file_node = FileNode string | DirNode "(string \<times> file_node) list"

type_synonym path = "string list"

fun node_at :: "file_node \<Rightarrow> path \<Rightarrow> file_node option" where
  "node_at n [] = Some n"
| "node_at (DirNode es) (c # p) = (case map_of es c of Some n \<Rightarrow> node_at n p | None \<Rightarrow> None)"
| "node_at (FileNode _) (c # p) = None"

text \<open>\<open>canonicalize\<close>: \<open>.\<close> stays, \<open>..\<close> goes up, and every step has to be made in a directory that exists.\<close>

fun walk :: "file_node \<Rightarrow> path \<Rightarrow> path \<Rightarrow> path option" where
  "walk t at [] = (if node_at t at = None then None else Some at)"
| "walk t at (c # p) =
     (case node_at t at of
        Some (DirNode _) \<Rightarrow>
          if c = ''.'' then walk t at p else if c = ''..'' then walk t (butlast at) p else walk t (at @ [c]) p
      | _ \<Rightarrow> None)"

definition canonicalize :: "file_node \<Rightarrow> path \<Rightarrow> path option" where
  "canonicalize t p = walk t [] p"

definition path_exists :: "file_node \<Rightarrow> path \<Rightarrow> bool" where
  "path_exists t p \<longleftrightarrow> canonicalize t p \<noteq> None"

definition canonical_or_same :: "file_node \<Rightarrow> path \<Rightarrow> path" where
  "canonical_or_same t p = (case canonicalize t p of Some q \<Rightarrow> q | None \<Rightarrow> p)"

definition node_of :: "file_node \<Rightarrow> path \<Rightarrow> file_node option" where
  "node_of t p = (case canonicalize t p of Some q \<Rightarrow> node_at t q | None \<Rightarrow> None)"

text \<open>\<open>Path::join\<close>: an absolute path replaces the directory.\<close>

fun split_slash :: "string \<Rightarrow> string \<Rightarrow> string list" where
  "split_slash acc [] = (if acc = [] then [] else [rev acc])"
| "split_slash acc (c # cs) =
     (if c = CHR ''/'' then (if acc = [] then [] else [rev acc]) @ split_slash [] cs else split_slash (c # acc) cs)"

definition join_path :: "path \<Rightarrow> string \<Rightarrow> path" where
  "join_path dir s = (if starts_with ''/'' s then split_slash [] s else dir @ split_slash [] s)"

section \<open>Manifests\<close>

datatype dependency =
    PathDep string
  | GitDep string "string option"
  | FullDep string "string list"
  | VersionDep string

record manifest =
  package_name :: string
  package_version :: string
  package_entry :: string
  dependencies :: "(string \<times> dependency) list"
  build_target :: "string option"

datatype sp_error =
    NoManifest path
  | ReadFailed path
  | ParseFailed string
  | EmptyName
  | EmptyVersion
  | DependencyNotFound string path
  | RegistryUnsupported string string
  | GitUnsupported string string
  | EntryNotFound string

type_synonym toml_parser = "string \<Rightarrow> (string, manifest) result"

definition load_manifest :: "toml_parser \<Rightarrow> file_node \<Rightarrow> path \<Rightarrow> (sp_error, manifest) result" where
  "load_manifest toml t p =
     (case node_of t p of
        None \<Rightarrow> Inl (NoManifest p)
      | Some (DirNode _) \<Rightarrow> Inl (ReadFailed p)
      | Some (FileNode s) \<Rightarrow>
          (case toml s of
             Inl e \<Rightarrow> Inl (ParseFailed e)
           | Inr m \<Rightarrow>
               if package_name m = [] then Inl EmptyName
               else if package_version m = [] then Inl EmptyVersion else Inr m))"

section \<open>The walk\<close>

record resolved_dep =
  dep_name :: string
  dep_source :: string
  root_path :: path

type_synonym walk_result = "(sp_error, resolved_dep list \<times> string list) result option"

fun resolve_single :: "nat \<Rightarrow> toml_parser \<Rightarrow> file_node \<Rightarrow> string \<Rightarrow> dependency \<Rightarrow> path \<Rightarrow> string list \<Rightarrow> walk_result"
and resolve_each :: "nat \<Rightarrow> toml_parser \<Rightarrow> file_node \<Rightarrow> (string \<times> dependency) list \<Rightarrow> path \<Rightarrow> string list \<Rightarrow> walk_result" where
  "resolve_single 0 toml t name dep dir resolved = None"
| "resolve_single (Suc n) toml t name dep dir resolved =
     (if name \<in> set resolved then Some (Inr ([], resolved))
      else
        (case dep of
           PathDep p \<Rightarrow>
             (let resolved = name # resolved;
                  dep_dir = join_path dir p;
                  this = \<lparr>dep_name = name, dep_source = ''path:'' @ p, root_path = canonical_or_same t dep_dir\<rparr>
              in if \<not> path_exists t dep_dir then Some (Inl (DependencyNotFound name dep_dir))
                 else if \<not> path_exists t (dep_dir @ [''salt.toml'']) then Some (Inr ([this], resolved))
                 else
                   (case load_manifest toml t (dep_dir @ [''salt.toml'']) of
                      Inl e \<Rightarrow> Some (Inl e)
                    | Inr m \<Rightarrow>
                        (case resolve_each n toml t (dependencies m) dep_dir resolved of
                           Some (Inr (rs, resolved)) \<Rightarrow> Some (Inr (rs @ [this], resolved))
                         | r \<Rightarrow> r)))
         | VersionDep v \<Rightarrow> Some (Inl (RegistryUnsupported name v))
         | FullDep v fs \<Rightarrow> Some (Inl (RegistryUnsupported name v))
         | GitDep g r \<Rightarrow> Some (Inl (GitUnsupported name g))))"
| "resolve_each n toml t [] dir resolved = Some (Inr ([], resolved))"
| "resolve_each n toml t ((name, dep) # ds) dir resolved =
     (case resolve_single n toml t name dep dir resolved of
        Some (Inr (rs, resolved)) \<Rightarrow>
          (case resolve_each n toml t ds dir resolved of
             Some (Inr (rs', resolved)) \<Rightarrow> Some (Inr (rs @ rs', resolved))
           | r \<Rightarrow> r)
      | r \<Rightarrow> r)"

section \<open>Source files\<close>

definition is_salt_name :: "string \<Rightarrow> bool" where
  "is_salt_name c \<longleftrightarrow> ends_with ''.salt'' c \<and> length c > 5"

definition skipped_dir :: "string \<Rightarrow> bool" where
  "skipped_dir c \<longleftrightarrow> starts_with ''.'' c \<or> c = ''target'' \<or> c = ''tests''"


function (sequential) salt_files :: "(string \<Rightarrow> bool) \<Rightarrow> path \<Rightarrow> file_node \<Rightarrow> path list"
and salt_entries :: "(string \<Rightarrow> bool) \<Rightarrow> path \<Rightarrow> (string \<times> file_node) list \<Rightarrow> path list" where
  "salt_files skip p (FileNode s) = []"
| "salt_files skip p (DirNode es) = sort (salt_entries skip p es)"
| "salt_entries skip p [] = []"
| "salt_entries skip p ((c, DirNode es) # rest) =
     (if skip c then [] else salt_files skip (p @ [c]) (DirNode es)) @ salt_entries skip p rest"
| "salt_entries skip p ((c, FileNode s) # rest) = (if is_salt_name c then [p @ [c]] else []) @ salt_entries skip p rest"
  by pat_completeness auto
termination
  by (relation "measure (\<lambda>x. case x of
      Inl (_, _, n) \<Rightarrow> size n | Inr (_, _, es) \<Rightarrow> size_list (size_prod (\<lambda>_. 0) size) es)") simp_all

definition collect_files :: "(string \<Rightarrow> bool) \<Rightarrow> file_node \<Rightarrow> path \<Rightarrow> (sp_error, path list) result" where
  "collect_files skip t dir =
     (case node_of t dir of
        None \<Rightarrow> Inr []
      | Some (FileNode _) \<Rightarrow> Inl (ReadFailed dir)
      | Some n \<Rightarrow> Inr (salt_files skip dir n))"

definition collect_salt_files :: "file_node \<Rightarrow> path \<Rightarrow> (sp_error, path list) result" where
  "collect_salt_files = collect_files skipped_dir"

section \<open>Build order and search roots\<close>

definition source_root :: "file_node \<Rightarrow> path \<Rightarrow> path" where
  "source_root t root = (if path_exists t (root @ [''src'']) then root @ [''src''] else root)"

fun collect_deps :: "file_node \<Rightarrow> resolved_dep list \<Rightarrow> (sp_error, path list \<times> path list) result" where
  "collect_deps t [] = Inr ([], [])"
| "collect_deps t (r # rs) =
     (case collect_salt_files t (root_path r) of
        Inl e \<Rightarrow> Inl e
      | Inr fs \<Rightarrow>
          (case collect_deps t rs of
             Inl e \<Rightarrow> Inl e
           | Inr (order, roots) \<Rightarrow> Inr (fs @ order, source_root t (root_path r) # roots)))"

fun resolve_loop :: "nat \<Rightarrow> toml_parser \<Rightarrow> file_node \<Rightarrow> (string \<times> dependency) list \<Rightarrow> path \<Rightarrow> string list \<Rightarrow>
    (sp_error, path list \<times> path list) result option" where
  "resolve_loop n toml t [] dir resolved = Some (Inr ([], []))"
| "resolve_loop n toml t ((name, dep) # ds) dir resolved =
     (case resolve_single n toml t name dep dir resolved of
        None \<Rightarrow> None
      | Some (Inl e) \<Rightarrow> Some (Inl e)
      | Some (Inr (rs, resolved)) \<Rightarrow>
          (case collect_deps t rs of
             Inl e \<Rightarrow> Some (Inl e)
           | Inr (order, roots) \<Rightarrow>
               (case resolve_loop n toml t ds dir resolved of
                  Some (Inr (order', roots')) \<Rightarrow> Some (Inr (order @ order', roots @ roots'))
                | r \<Rightarrow> r)))"

definition own_sources :: "file_node \<Rightarrow> manifest \<Rightarrow> path \<Rightarrow> (sp_error, path list \<times> path) result" where
  "own_sources t m dir =
     (if path_exists t (dir @ [''src'']) then
        map_sum id (\<lambda>fs. (fs, dir @ [''src''])) (collect_salt_files t (dir @ [''src'']))
      else if path_exists t (join_path dir (package_entry m)) then Inr ([join_path dir (package_entry m)], dir)
      else Inl (EntryNotFound (package_entry m)))"

text \<open>The directories from the project upward; the fallback is a path of the author's machine.\<close>

fun upward :: "path \<Rightarrow> path list" where
  "upward p = (if p = [] then [[]] else p # upward (butlast p))"

declare upward.simps [simp del]

definition fallback_std :: path where
  "fallback_std = [''Users'', ''kevin'', ''projects'', ''lattice'', ''salt-front'', ''std'']"

definition find_stdlib :: "file_node \<Rightarrow> path \<Rightarrow> path option" where
  "find_stdlib t dir =
     List.find (path_exists t)
       (concat (map (\<lambda>d. [d @ [''salt-front'', ''std''], d @ [''std'']]) (upward (canonical_or_same t dir))) @ [fallback_std])"

fun retain_first :: "('a \<Rightarrow> 'b) \<Rightarrow> 'a list \<Rightarrow> 'b list \<Rightarrow> 'a list" where
  "retain_first key [] seen = []"
| "retain_first key (x # xs) seen =
     (if key x \<in> set seen then retain_first key xs seen else x # retain_first key xs (key x # seen))"

definition resolve :: "nat \<Rightarrow> toml_parser \<Rightarrow> file_node \<Rightarrow> manifest \<Rightarrow> path \<Rightarrow> (sp_error, path list \<times> path list) result option" where
  "resolve n toml t m dir =
     (case resolve_loop n toml t (dependencies m) dir [] of
        None \<Rightarrow> None
      | Some (Inl e) \<Rightarrow> Some (Inl e)
      | Some (Inr (order, roots)) \<Rightarrow>
          (case own_sources t m dir of
             Inl e \<Rightarrow> Some (Inl e)
           | Inr (own, root) \<Rightarrow>
               Some (Inr (retain_first (canonical_or_same t) (order @ own) [],
                 root # roots @ (case find_stdlib t dir of Some s \<Rightarrow> [s] | None \<Rightarrow> [])))))"

section \<open>Paths are followed consistently\<close>

lemma node_at_append:
  "node_at t (p @ q) = (case node_at t p of Some n \<Rightarrow> node_at n q | None \<Rightarrow> None)"
  by (induction t p rule: node_at.induct) (auto split: option.splits)

lemma walk_append:
  "walk t at (p @ q) = (case walk t at p of Some r \<Rightarrow> walk t r q | None \<Rightarrow> None)"
proof (induction t at p rule: walk.induct)
  case (1 t at)
  then show ?case by (cases q) auto
qed (auto split: option.splits file_node.splits)

definition plain_path :: "path \<Rightarrow> bool" where
  "plain_path p \<longleftrightarrow> (\<forall>c \<in> set p. c \<noteq> ''.'' \<and> c \<noteq> ''..'')"

lemma walk_result:
  "walk t at p = Some q \<Longrightarrow> plain_path at \<Longrightarrow> plain_path q \<and> node_at t q \<noteq> None"
proof (induction t at p rule: walk.induct)
  case (2 t at c p)
  obtain es where es: "node_at t at = Some (DirNode es)"
    using "2.prems"(1) by (auto split: option.splits file_node.splits)
  consider "c = ''.''" | "c = ''..''" | "c \<noteq> ''.''" "c \<noteq> ''..''" by blast
  then show ?case
  proof cases
    case 1
    then show ?thesis using 2 es by simp
  next
    case up: 2
    have "plain_path (butlast at)" using "2.prems"(2) by (auto simp: plain_path_def dest: in_set_butlastD)
    then show ?thesis using "2.IH"(2) [OF es] "2.prems"(1) es up by simp
  next
    case 3
    have "plain_path (at @ [c])" using "2.prems"(2) 3 by (simp add: plain_path_def)
    then show ?thesis using "2.IH"(3) [OF es] "2.prems"(1) es 3 by simp
  qed
qed (auto split: if_splits)

lemma walk_plain:
  "plain_path p \<Longrightarrow> node_at t (at @ p) \<noteq> None \<Longrightarrow> walk t at p = Some (at @ p)"
proof (induction p arbitrary: at)
  case (Cons c p)
  have "walk t (at @ [c]) p = Some (at @ c # p)"
    using Cons.IH [of "at @ [c]"] Cons.prems by (simp add: plain_path_def)
  moreover obtain es where "node_at t at = Some (DirNode es)"
  proof (cases "node_at t at")
    case (Some n)
    then show ?thesis using Cons.prems(2) that by (cases n) (simp_all add: node_at_append)
  qed (use Cons.prems(2) in \<open>simp add: node_at_append\<close>)
  ultimately show ?case using Cons.prems(1) by (simp add: plain_path_def)
qed simp

lemma canonical_extends:
  assumes "canonicalize t p = Some q"
  shows "canonicalize t (q @ e) = canonicalize t (p @ e)"
proof -
  have "plain_path q \<and> node_at t q \<noteq> None"
    using walk_result [of t "[]" p q] assms by (simp add: canonicalize_def plain_path_def)
  then have "walk t [] q = Some q" using walk_plain [of q t "[]"] by simp
  then show ?thesis using assms by (simp add: canonicalize_def walk_append)
qed

lemma canonical_same_node:
  "path_exists t p \<Longrightarrow> node_of t (canonical_or_same t p @ e) = node_of t (p @ e)"
  "path_exists t p \<Longrightarrow> path_exists t (canonical_or_same t p @ e) = path_exists t (p @ e)"
  using canonical_extends [of t p _ e] by (auto simp: path_exists_def canonical_or_same_def node_of_def)

section \<open>The order of the walk\<close>

text \<open>The dependencies that the manifest in a directory declares.\<close>

definition declared :: "toml_parser \<Rightarrow> file_node \<Rightarrow> path \<Rightarrow> string list" where
  "declared toml t root =
     (if path_exists t (root @ [''salt.toml'']) then
        (case load_manifest toml t (root @ [''salt.toml'']) of Inr m \<Rightarrow> map fst (dependencies m) | Inl _ \<Rightarrow> [])
      else [])"

fun in_order :: "(path \<Rightarrow> string list) \<Rightarrow> string set \<Rightarrow> resolved_dep list \<Rightarrow> bool" where
  "in_order dc before [] \<longleftrightarrow> True"
| "in_order dc before (r # rs) \<longleftrightarrow>
     set (dc (root_path r)) \<subseteq> before \<and> in_order dc (insert (dep_name r) before) rs"

lemma in_order_append [simp]:
  "in_order dc before (rs @ rs') \<longleftrightarrow> in_order dc before rs \<and> in_order dc (before \<union> dep_name ` set rs) rs'"
  by (induction rs arbitrary: before) auto

lemma declared_here:
  assumes "path_exists t d" "root_path r = canonical_or_same t d"
  shows "\<not> path_exists t (d @ [''salt.toml'']) \<Longrightarrow> declared toml t (root_path r) = []"
    and "path_exists t (d @ [''salt.toml'']) \<Longrightarrow> load_manifest toml t (d @ [''salt.toml'']) = Inr m \<Longrightarrow>
      declared toml t (root_path r) = map fst (dependencies m)"
  using canonical_same_node [OF assms(1), of "[''salt.toml'']"] assms(2)
  by (auto simp: declared_def load_manifest_def split: option.splits file_node.splits sum.splits if_splits)

lemma single_cases:
  assumes "resolve_single (Suc n) toml t name dep dir R = Some (Inr (rs, R'))"
  obtains (known) "name \<in> set R" "rs = []" "R' = R"
  | (new) p m rs0 where "name \<notin> set R" "dep = PathDep p" "declared toml t (root_path (last rs)) = map fst m"
      "resolve_each n toml t m (join_path dir p) (name # R) = Some (Inr (rs0, R'))" "rs = rs0 @ [last rs]" "dep_name (last rs) = name"
proof (cases "name \<in> set R")
  case False
  then obtain p where p: "dep = PathDep p" using assms by (auto split: dependency.splits)
  let ?d = "join_path dir p"
  have d: "path_exists t ?d" using assms p False by (auto simp: Let_def split: if_splits)
  show ?thesis
  proof (cases "path_exists t (?d @ [''salt.toml''])")
    case True
    then obtain m rs0 where m: "load_manifest toml t (?d @ [''salt.toml'']) = Inr m"
      "resolve_each n toml t (dependencies m) ?d (name # R) = Some (Inr (rs0, R'))"
      "rs = rs0 @ [\<lparr>dep_name = name, dep_source = ''path:'' @ p, root_path = canonical_or_same t ?d\<rparr>]"
      using assms p False d by (auto simp: Let_def split: sum.splits option.splits prod.splits)
    show ?thesis using declared_here(2) [OF d _ True m(1), of "last rs"] m False p by (intro new) simp_all
  next
    case False
    then have "rs = [\<lparr>dep_name = name, dep_source = ''path:'' @ p, root_path = canonical_or_same t ?d\<rparr>]" "R' = name # R"
      using assms p \<open>name \<notin> set R\<close> d by (auto simp: Let_def)
    then show ?thesis
      using declared_here(1) [OF d _ False, of "last rs"] p \<open>name \<notin> set R\<close> by (intro new [of p "[]" "[]"]) simp_all
  qed
qed (use assms in auto)

lemma each_cases:
  assumes "resolve_each n toml t ((name, dep) # ds) dir R = Some (Inr (rs, R'))"
  obtains rs1 R1 rs2 where "resolve_single n toml t name dep dir R = Some (Inr (rs1, R1))"
    "resolve_each n toml t ds dir R1 = Some (Inr (rs2, R'))" "rs = rs1 @ rs2"
  using assms by (auto split: sum.splits option.splits prod.splits)

declare resolve_single.simps(2) [simp del] resolve_each.simps(2) [simp del]

text \<open>
  What the walk does, without the file system and the errors: a name that is known is passed over, a new
  one is appended after everything its manifest declares.
\<close>

inductive visits :: "(path \<Rightarrow> string list) \<Rightarrow> string \<Rightarrow> string list \<Rightarrow> resolved_dep list \<Rightarrow> string list \<Rightarrow> bool"
and visits_all :: "(path \<Rightarrow> string list) \<Rightarrow> string list \<Rightarrow> string list \<Rightarrow> resolved_dep list \<Rightarrow> string list \<Rightarrow> bool"
for dc where
  visits_known: "name \<in> set R \<Longrightarrow> visits dc name R [] R"
| visits_new: "name \<notin> set R \<Longrightarrow> dep_name r = name \<Longrightarrow> visits_all dc (dc (root_path r)) (name # R) rs R' \<Longrightarrow>
    visits dc name R (rs @ [r]) R'"
| visits_none: "visits_all dc [] R [] R"
| visits_more: "visits dc name R rs R1 \<Longrightarrow> visits_all dc names R1 rs' R' \<Longrightarrow> visits_all dc (name # names) R (rs @ rs') R'"

lemma walk_visits:
  "resolve_single n toml t name dep dir R = Some (Inr (rs, R')) \<Longrightarrow> visits (declared toml t) name R rs R'"
  "resolve_each n toml t ds dir R = Some (Inr (rs, R')) \<Longrightarrow> visits_all (declared toml t) (map fst ds) R rs R'"
proof (induction n arbitrary: name dep ds dir R rs R')
  case 0
  { case 1 then show ?case by simp }
  { case 2 then show ?case by (cases ds) (auto simp: resolve_each.simps(2) intro: visits_none) }
next
  case (Suc n)
  have single: "visits (declared toml t) name R rs R'"
    if "resolve_single (Suc n) toml t name dep dir R = Some (Inr (rs, R'))" for name dep dir R rs R'
    using that
  proof (cases rule: single_cases)
    case (new p m rs0)
    then have "visits_all (declared toml t) (declared toml t (root_path (last rs))) (name # R) rs0 R'"
      using Suc.IH(2) by simp
    from visits_new [OF new(1) new(6) this] show ?thesis using new(5) by simp
  qed (simp add: visits_known)
  { case 1 then show ?case by (rule single) }
  { case 2 then show ?case
    proof (induction ds arbitrary: R rs)
      case (Cons d ds)
      obtain name dep where d: "d = (name, dep)" by (cases d)
      from Cons.prems [unfolded d] show ?case
        by (cases rule: each_cases) (auto simp: d intro: visits_more single Cons.IH)
    qed (auto intro: visits_none) }
qed

text \<open>Every name once, with all that is declared; in order, if the declarations have no cycle.\<close>

lemma visits_names:
  "visits dc name R rs R' \<Longrightarrow> set R' = set R \<union> dep_name ` set rs \<and> distinct (map dep_name rs) \<and>
     set R \<inter> dep_name ` set rs = {} \<and> name \<in> set R' \<and> (\<forall>r \<in> set rs. set (dc (root_path r)) \<subseteq> set R')"
  "visits_all dc names R rs R' \<Longrightarrow> set R' = set R \<union> dep_name ` set rs \<and> distinct (map dep_name rs) \<and>
     set R \<inter> dep_name ` set rs = {} \<and> set names \<subseteq> set R' \<and> (\<forall>r \<in> set rs. set (dc (root_path r)) \<subseteq> set R')"
proof (induction rule: visits_visits_all.inducts)
  case (visits_new name R r rs R')
  then show ?case by simp blast
next
  case (visits_more name R rs R1 names rs' R')
  then have "set R' = set R \<union> dep_name ` set (rs @ rs')" "distinct (map dep_name (rs @ rs'))" "set R1 \<subseteq> set R'"
    by auto
  moreover have "\<forall>r \<in> set (rs @ rs'). set (dc (root_path r)) \<subseteq> set R'"
    using visits_more.IH \<open>set R1 \<subseteq> set R'\<close> unfolding set_append ball_Un by (blast dest: bspec)
  ultimately show ?case using visits_more.IH by auto
qed simp_all

lemma visits_in_order:
  fixes rank :: "string \<Rightarrow> nat"
  shows "visits dc name R rs R' \<Longrightarrow> \<forall>r \<in> set rs. \<forall>d \<in> set (dc (root_path r)). rank d < rank (dep_name r) \<Longrightarrow>
      set R \<subseteq> D \<union> A \<Longrightarrow> \<forall>a \<in> A. rank name < rank a \<Longrightarrow> in_order dc D rs \<and> name \<in> D \<union> dep_name ` set rs"
    and "visits_all dc names R rs R' \<Longrightarrow> \<forall>r \<in> set rs. \<forall>d \<in> set (dc (root_path r)). rank d < rank (dep_name r) \<Longrightarrow>
      set R \<subseteq> D \<union> A \<Longrightarrow> \<forall>nm \<in> set names. \<forall>a \<in> A. rank nm < rank a \<Longrightarrow>
      in_order dc D rs \<and> set names \<subseteq> D \<union> dep_name ` set rs"
proof (induction arbitrary: D A and D A rule: visits_visits_all.inducts)
  case (visits_new name R r rs R')
  have "\<forall>nm \<in> set (dc (root_path r)). \<forall>a \<in> insert name A. rank nm < rank a"
    using visits_new.prems(1,3) visits_new.hyps(2) by (auto intro: less_trans)
  then have "in_order dc D rs \<and> set (dc (root_path r)) \<subseteq> D \<union> dep_name ` set rs"
    using visits_new.prems by (intro visits_new(4) [of D "insert name A"]) auto
  then show ?case using visits_new.hyps(2) by simp
next
  case (visits_more name R rs R1 names rs' R')
  have R1: "set R1 = set R \<union> dep_name ` set rs" using visits_names(1) [OF visits_more(1)] by blast
  have "in_order dc D rs \<and> name \<in> D \<union> dep_name ` set rs"
    using visits_more.prems by (intro visits_more(2) [of D A]) auto
  moreover have "in_order dc (D \<union> dep_name ` set rs) rs' \<and> set names \<subseteq> (D \<union> dep_name ` set rs) \<union> dep_name ` set rs'"
    using visits_more.prems R1 by (intro visits_more(4) [of _ A]) auto
  ultimately show ?case by (simp add: image_Un) blast
qed auto

lemma acyclic_rank:
  assumes "finite E" "acyclic E"
  shows "\<exists>rank :: 'a \<Rightarrow> nat. \<forall>(x, y) \<in> E. rank x < rank y"
proof (intro exI ballI)
  let ?below = "\<lambda>y. {x. (x, y) \<in> E\<^sup>+}"
  fix e
  assume "e \<in> E"
  then obtain x y where e: "e = (x, y)" "(x, y) \<in> E" by (cases e) auto
  have "?below x \<subset> ?below y" using assms(2) e(2) by (auto simp: acyclic_def intro: trancl_into_trancl)
  moreover have "finite (?below y)"
    by (rule finite_subset [of _ "fst ` (E\<^sup>+)"]) (use assms(1) in \<open>force simp: finite_trancl\<close>)+
  ultimately show "case e of (x, y) \<Rightarrow> card (?below x) < card (?below y)" using e by (simp add: psubset_card_mono)
qed

definition depends :: "(path \<Rightarrow> string list) \<Rightarrow> resolved_dep list \<Rightarrow> (string \<times> string) set" where
  "depends dc rs = (\<Union>r \<in> set rs. (\<lambda>d. (d, dep_name r)) ` set (dc (root_path r)))"

lemma visits_all_in_order:
  assumes "visits_all dc names [] rs R'" "acyclic (depends dc rs)"
  shows "in_order dc {} rs"
proof -
  have "finite (depends dc rs)" by (simp add: depends_def)
  then obtain rank :: "string \<Rightarrow> nat" where rank: "\<forall>(x, y) \<in> depends dc rs. rank x < rank y"
    using acyclic_rank assms(2) by blast
  then have "\<forall>r \<in> set rs. \<forall>d \<in> set (dc (root_path r)). rank d < rank (dep_name r)" by (force simp: depends_def)
  then show ?thesis using visits_in_order(2) [OF assms(1), of rank "{}" "{}"] by simp
qed

lemma loop_walks:
  assumes "resolve_loop n toml t ds dir R = Some (Inr (order, roots))"
  shows "\<exists>rs R'. resolve_each n toml t ds dir R = Some (Inr (rs, R')) \<and> collect_deps t rs = Inr (order, roots)"
  using assms
proof (induction ds arbitrary: R order roots)
  case (Cons d ds)
  obtain name dep where d: "d = (name, dep)" by (cases d)
  obtain rs R1 fs rts fs' rts' where s: "resolve_single n toml t name dep dir R = Some (Inr (rs, R1))"
    "collect_deps t rs = Inr (fs, rts)" "resolve_loop n toml t ds dir R1 = Some (Inr (fs', rts'))"
    "order = fs @ fs'" "roots = rts @ rts'"
    using Cons.prems by (auto simp: d split: option.splits sum.splits prod.splits)
  obtain rs' R' where r: "resolve_each n toml t ds dir R1 = Some (Inr (rs', R'))" "collect_deps t rs' = Inr (fs', rts')"
    using Cons.IH [OF s(3)] by blast
  have "collect_deps t (as @ rs') = Inr (fs @ fs', rts @ rts')" if "collect_deps t as = Inr (fs, rts)" for as fs rts
    using that r(2) by (induction as arbitrary: fs rts) (auto split: sum.splits)
  then show ?case using s r(1) by (auto simp: d resolve_each.simps(2))
qed auto

section \<open>The walk returns\<close>

function (sequential) file_texts :: "file_node \<Rightarrow> string list"
and entry_texts :: "(string \<times> file_node) list \<Rightarrow> string list" where
  "file_texts (FileNode s) = [s]"
| "file_texts (DirNode es) = entry_texts es"
| "entry_texts [] = []"
| "entry_texts ((c, n) # es) = file_texts n @ entry_texts es"
  by pat_completeness auto
termination
  by (relation "measure (\<lambda>x. case x of Inl n \<Rightarrow> size n | Inr es \<Rightarrow> size_list (size_prod (\<lambda>_. 0) size) es)") simp_all

definition all_declared :: "toml_parser \<Rightarrow> file_node \<Rightarrow> string list" where
  "all_declared toml t =
     concat (map (\<lambda>s. case toml s of Inr m \<Rightarrow> map fst (dependencies m) | Inl _ \<Rightarrow> []) (file_texts t))"

definition walk_fuel :: "toml_parser \<Rightarrow> file_node \<Rightarrow> manifest \<Rightarrow> nat" where
  "walk_fuel toml t m = Suc (length (map fst (dependencies m) @ all_declared toml t))"

lemma node_text: "node_at t p = Some (FileNode s) \<Longrightarrow> s \<in> set (file_texts t)"
proof (induction t p rule: node_at.induct)
  case (2 es c p)
  then obtain n where n: "map_of es c = Some n" "s \<in> set (file_texts n)" by (auto split: option.splits)
  have "(c, n) \<in> set es \<Longrightarrow> set (file_texts n) \<subseteq> set (entry_texts es)" by (induction es) auto
  then show ?case using n map_of_SomeD by force
qed auto

lemma loaded_declared:
  assumes "load_manifest toml t p = Inr m"
  shows "fst ` set (dependencies m) \<subseteq> set (all_declared toml t)"
proof -
  obtain s where s: "s \<in> set (file_texts t)" "toml s = Inr m"
    using assms node_text by (fastforce simp: load_manifest_def node_of_def split: option.splits file_node.splits sum.splits if_splits)
  then show ?thesis by (force simp: all_declared_def)
qed

lemma walk_returns:
  assumes "finite U" "set (all_declared toml t) \<subseteq> U"
  shows "name \<in> U \<Longrightarrow> card (U - set R) < n \<Longrightarrow> resolve_single n toml t name dep dir R \<noteq> None"
    and "fst ` set ds \<subseteq> U \<Longrightarrow> card (U - set R) < n \<Longrightarrow> resolve_each n toml t ds dir R \<noteq> None"
proof (induction n arbitrary: name dep ds dir R)
  case (Suc n)
  have single: "resolve_single (Suc n) toml t name dep dir R \<noteq> None"
    if name: "name \<in> U" "card (U - set R) < Suc n" for name dep dir R
  proof (cases "name \<in> set R")
    case False
    have "card (U - set (name # R)) < card (U - set R)"
      using assms(1) name(1) False by (intro psubset_card_mono) auto
    then have "card (U - set (name # R)) < n" using name(2) by simp
    then have each: "\<exists>r. resolve_each n toml t (dependencies m) d (name # R) = Some r"
      if "load_manifest toml t p = Inr m" for p m d
      using Suc.IH(2) loaded_declared [OF that] assms(2) by blast
    show ?thesis
    proof (cases dep)
      case (PathDep p)
      then show ?thesis using False each [of "join_path dir p @ [''salt.toml'']" _ "join_path dir p"]
        by (fastforce simp: resolve_single.simps(2) Let_def split: sum.splits option.splits)
    qed (simp_all add: resolve_single.simps(2) False)
  qed (simp add: resolve_single.simps(2))
  { case 1 then show ?case by (rule single) }
  { case 2 then show ?case
    proof (induction ds arbitrary: R)
      case (Cons d ds)
      obtain nm dp where d: "d = (nm, dp)" by (cases d)
      obtain x where x: "resolve_single (Suc n) toml t nm dp dir R = Some x"
        using single [of nm R dp dir] Cons.prems d by auto
      show ?case
      proof (cases x)
        case (Inr y)
        obtain rs R1 where y: "y = (rs, R1)" by (cases y)
        then have "set R \<subseteq> set R1" using visits_names(1) [OF walk_visits(1)] x Inr by blast
        then have "card (U - set R1) \<le> card (U - set R)" using assms(1) by (intro card_mono) auto
        then have "resolve_each (Suc n) toml t ds dir R1 \<noteq> None" using Cons by simp
        then show ?thesis using x Inr y d by (auto simp: resolve_each.simps(2) split: sum.splits)
      qed (use x d in \<open>simp add: resolve_each.simps(2)\<close>)
    qed simp }
qed simp_all

lemma loop_returns:
  assumes "finite U" "set (all_declared toml t) \<subseteq> U"
  shows "fst ` set ds \<subseteq> U \<Longrightarrow> card (U - set R) < n \<Longrightarrow> resolve_loop n toml t ds dir R \<noteq> None"
proof (induction ds arbitrary: R)
  case (Cons d ds)
  obtain nm dp where d: "d = (nm, dp)" by (cases d)
  obtain x where x: "resolve_single n toml t nm dp dir R = Some x"
    using walk_returns(1) [OF assms, of nm R n dp dir] Cons.prems d by auto
  show ?case
  proof (cases x)
    case (Inr y)
    obtain rs R1 where y: "y = (rs, R1)" by (cases y)
    then have "set R \<subseteq> set R1" using visits_names(1) [OF walk_visits(1)] x Inr by blast
    then have "card (U - set R1) \<le> card (U - set R)" using assms(1) by (intro card_mono) auto
    then have "resolve_loop n toml t ds dir R1 \<noteq> None" using Cons by simp
    then show ?thesis using x Inr y d by (auto split: sum.splits)
  qed (use x d in simp)
qed simp

lemma resolve_returns:
  assumes "walk_fuel toml t m \<le> n"
  shows "resolve_loop n toml t (dependencies m) dir [] \<noteq> None"
proof (rule loop_returns)
  let ?names = "map fst (dependencies m) @ all_declared toml t"
  show "card (set ?names - set []) < n"
    using card_length [of ?names] assms by (simp add: walk_fuel_def)
qed auto

lemma retain_first_key:
  "distinct (map key (retain_first key xs seen)) \<and> key ` set (retain_first key xs seen) = key ` set xs - set seen"
  by (induction xs arbitrary: seen) auto

section \<open>The resolver\<close>


text \<open>A project that needs \<open>a\<close> and \<open>b\<close>, where \<open>a\<close> needs \<open>b\<close> as well.\<close>

definition demo_manifest :: "(string \<times> dependency) list \<Rightarrow> manifest" where
  "demo_manifest ds = \<lparr>package_name = ''x'', package_version = ''1'', package_entry = ''src/main.salt'', dependencies = ds, build_target = None\<rparr>"

definition demo_toml :: toml_parser where
  "demo_toml s =
     (if s = ''A'' then Inr (demo_manifest [(''b'', PathDep ''../b'')])
      else if s = ''B'' then Inr (demo_manifest [(''a'', PathDep ''../a'')])
      else if s = ''leaf'' then Inr (demo_manifest []) else Inl ''?'')"

definition demo_tree :: "string \<Rightarrow> file_node" where
  "demo_tree b = DirNode
     [(''p'', DirNode [(''src'', DirNode [(''main.salt'', FileNode ''m'')])]),
      (''a'', DirNode [(''salt.toml'', FileNode ''A''), (''a.salt'', FileNode ''fa'')]),
      (''b'', DirNode [(''salt.toml'', FileNode b), (''b.salt'', FileNode ''fb''), (''notes.md'', FileNode ''n'')])]"

definition demo_deps :: "(string \<times> dependency) list" where
  "demo_deps = [(''a'', PathDep ''../a''), (''b'', PathDep ''../b'')]"

lemmas resolver_eval = demo_tree_def demo_toml_def demo_manifest_def demo_deps_def resolve_single.simps(2) resolve_each.simps(2)
  join_path_def path_exists_def canonicalize_def canonical_or_same_def node_of_def load_manifest_def
  collect_salt_files_def collect_files_def source_root_def is_salt_name_def skipped_dir_def ends_with_def Let_def

lemma demo_walk:
  "resolve_each 5 demo_toml (demo_tree ''leaf'') demo_deps [''p''] [] =
     Some (Inr ([\<lparr>dep_name = ''b'', dep_source = ''path:../b'', root_path = [''b'']\<rparr>,
       \<lparr>dep_name = ''a'', dep_source = ''path:../a'', root_path = [''a'']\<rparr>], [''b'', ''a'']))"
  by (simp add: resolver_eval numeral_eq_Suc)


section \<open>The older build tool\<close>

text \<open>
  \<open>resolve\<close> of \<open>tools/salt-build/src/resolver.rs\<close>: the sources of the declared
  dependencies, each with its own manifest and entry, and then those of the project. What the
  dependencies declare is not followed, and no directory is passed over.
\<close>

datatype build_dependency = BuildPath string | BuildVersion string

record build_manifest =
  bm_name :: string
  bm_version :: string
  bm_entry :: string
  bm_dependencies :: "(string \<times> build_dependency) list"

datatype build_error =
    NoDependencyManifest string path
  | ManifestError sp_error
  | NoDependencyEntry string path
  | NoRegistry string string
  | NoEntry string

type_synonym build_parser = "string \<Rightarrow> (string, build_manifest) result"

definition load_build_manifest :: "build_parser \<Rightarrow> file_node \<Rightarrow> path \<Rightarrow> (build_error, build_manifest) result" where
  "load_build_manifest toml t p =
     (case node_of t p of
        None \<Rightarrow> Inl (ManifestError (NoManifest p))
      | Some (DirNode _) \<Rightarrow> Inl (ManifestError (ReadFailed p))
      | Some (FileNode s) \<Rightarrow>
          (case toml s of
             Inl e \<Rightarrow> Inl (ManifestError (ParseFailed e))
           | Inr m \<Rightarrow> if bm_name m = [] then Inl (ManifestError EmptyName) else Inr m))"

fun build_deps :: "build_parser \<Rightarrow> file_node \<Rightarrow> path \<Rightarrow> (string \<times> build_dependency) list \<Rightarrow> (build_error, path list) result" where
  "build_deps toml t dir [] = Inr []"
| "build_deps toml t dir ((name, BuildPath p) # ds) =
     (let d = join_path dir p in
      if \<not> path_exists t (d @ [''salt.toml'']) then Inl (NoDependencyManifest name (d @ [''salt.toml'']))
      else
        (case load_build_manifest toml t (d @ [''salt.toml'']) of
           Inl e \<Rightarrow> Inl e
         | Inr m \<Rightarrow>
             if \<not> path_exists t (join_path d (bm_entry m)) then Inl (NoDependencyEntry name (join_path d (bm_entry m)))
             else
               (case collect_files (\<lambda>_. False) t d of
                  Inl e \<Rightarrow> Inl (ManifestError e)
                | Inr fs \<Rightarrow> map_sum id (\<lambda>rest. fs @ rest) (build_deps toml t dir ds))))"
| "build_deps toml t dir ((name, BuildVersion v) # ds) = Inl (NoRegistry name v)"

definition build_resolve :: "build_parser \<Rightarrow> file_node \<Rightarrow> build_manifest \<Rightarrow> path \<Rightarrow> (build_error, path list) result" where
  "build_resolve toml t m dir =
     (case build_deps toml t dir (bm_dependencies m) of
        Inl e \<Rightarrow> Inl e
      | Inr files \<Rightarrow>
          (let src = dir @ [''src''] in
           if path_exists t src then
             (case collect_files (\<lambda>_. False) t src of
                Inl e \<Rightarrow> Inl (ManifestError e)
              | Inr own \<Rightarrow> Inr (retain_first (canonical_or_same t) (files @ own) []))
           else if path_exists t (join_path dir (bm_entry m)) then
             Inr (retain_first (canonical_or_same t) (files @ [join_path dir (bm_entry m)]) [])
           else Inl (NoEntry (bm_entry m))))"

section \<open>What the resolvers get wrong\<close>

text \<open>A cycle of dependencies is not reported: one of the packages comes before what it declares.\<close>

lemma cycle_accepted:
  "\<exists>rs R. resolve_each 5 demo_toml (demo_tree ''B'') demo_deps [''p''] [] = Some (Inr (rs, R)) \<and>
     map dep_name rs = [''b'', ''a''] \<and> \<not> in_order (declared demo_toml (demo_tree ''B'')) {} rs"
  by (simp add: resolver_eval declared_def numeral_eq_Suc)

text \<open>
  Packages are told apart by the name alone: of two packages with one name in different directories, only
  the first that is met is used, without a message.
\<close>

lemma second_path_ignored:
  assumes "path_exists t (join_path dir p)" "\<not> path_exists t (join_path dir p @ [''salt.toml''])"
  shows "\<exists>R. resolve_each (Suc n) toml t [(x, PathDep p), (x, PathDep q)] dir [] =
    Some (Inr ([\<lparr>dep_name = x, dep_source = ''path:'' @ p, root_path = canonical_or_same t (join_path dir p)\<rparr>], R))"
  using assms by (simp add: resolve_single.simps(2) resolve_each.simps(2) Let_def)

text \<open>The older tool leaves out what a dependency needs: \<open>b\<close> is missing, although \<open>a\<close> declares it.\<close>

definition nested_tree :: file_node where
  "nested_tree = DirNode
     [(''p'', DirNode [(''src'', DirNode [(''main.salt'', FileNode ''m'')])]),
      (''a'', DirNode [(''salt.toml'', FileNode ''A''), (''src'', DirNode [(''main.salt'', FileNode ''fa'')])]),
      (''b'', DirNode [(''salt.toml'', FileNode ''leaf''), (''src'', DirNode [(''main.salt'', FileNode ''fb'')])])]"

definition nested_toml :: build_parser where
  "nested_toml s = Inr \<lparr>bm_name = ''x'', bm_version = ''1'', bm_entry = ''src/main.salt'',
     bm_dependencies = (if s = ''A'' then [(''b'', BuildPath ''../b'')] else [])\<rparr>"

lemma transitive_sources_missing:
  "build_resolve nested_toml nested_tree (\<lparr>bm_name = ''x'', bm_version = ''1'', bm_entry = ''src/main.salt'',
       bm_dependencies = [(''a'', BuildPath ''../a'')]\<rparr>) [''p''] =
     Inr [[''p'', ''..'', ''a'', ''src'', ''main.salt''], [''p'', ''src'', ''main.salt'']]"
  "\<exists>m. load_build_manifest nested_toml nested_tree [''a'', ''salt.toml''] = Inr m \<and> bm_dependencies m = [(''b'', BuildPath ''../b'')]"
  by (simp_all add: build_resolve_def load_build_manifest_def nested_tree_def nested_toml_def resolver_eval)

end
