(* ===== verification/Spec2Isabelle.thy ===== *)
theory Spec2Isabelle
  imports Comptime Demand Loop_Invariants Postconditions Salt_Layout Scope Typeck_Sound Typeck_Items Async_Resume Pulse_Live Pointer_State Ledgers Arena Proof_Hint
    Front_End Yielding_Driver Move_Check Call_Graph Yield_Points Match_Dispatch Global_Cache Package_Resolver
begin

text \<open>
  A verification library for the Salt compiler (\<open>salt-front\<close>, written in Rust), which
  translates Salt, the language of the Lattice kernel, to MLIR. The compiler parses a file, folds
  constants, lowers functions to a high-level intermediate representation (HIR), checks types, turns
  \<open>@yielding\<close> functions into state machines, checks a set of safety disciplines while
  it emits code, and expands generics on demand. The library models the parts that decide something:
  the passes and analyses between the parser and the printed MLIR. Paths below are relative to
  \<open>salt-front/src/\<close>.

  \<^bold>\<open>How the parts interact.\<close> The surface tree (\<open>Salt_Ast\<close>), after
  constant folding (\<open>Comptime\<close>), feeds two chains. The first is lowering
  (\<open>Lowering\<close>, \<open>Lower_Items\<close>), the type checker (\<open>Typeck\<close>,
  \<open>Typeck_Items\<close>), and the coroutine lowering (\<open>Async_Analysis\<close>,
  \<open>Async_Cfg\<close>, \<open>Async_Step\<close>) with the pulse verifier
  (\<open>Pulse\<close>), composed in \<open>Front_End\<close> and \<open>Yielding_Driver\<close>.
  The second is the code generator, whose passes read the surface tree directly: call graph and
  synchronous functions (\<open>Call_Graph\<close>), yield points (\<open>Yield_Points\<close>),
  liveness (\<open>Liveness\<close>), match compilation (\<open>Match_Dispatch\<close>), the
  inference of generics at calls (\<open>Generics\<close>), and the trackers the emitter threads
  through its walk (\<open>Pointer_State\<close>, \<open>Ledgers\<close>, \<open>Arena\<close>,
  \<open>Move_Check\<close>, \<open>Provenance\<close>, \<open>Global_Cache\<close>,
  \<open>Proof_Hint\<close>). Functions are emitted on demand (\<open>Specialize\<close>,
  \<open>Demand\<close>).

  \<^bold>\<open>Conventions.\<close> A struct is a record, an enum a datatype with the source's
  constructors. A machine integer is a word of its width, with the wrap-around of a release build;
  counters that start at 0 and cannot reach their bound are natural numbers, and the theory says so.
  \<open>Result\<close> is a sum (\<open>Inl\<close> the error), and a panic is \<open>None\<close>.
  A hash map that is iterated is an association list in its iteration order, and the theorems hold
  for every order; a map that is only looked up is a partial function. What is not under
  \<open>src/\<close> (the \<open>syn\<close> crate's printing, the run-time behaviour of emitted
  statements, the solver) is an argument of the definitions that use it.

  \<^bold>\<open>Types\<close> (\<open>types.rs\<close>, \<open>common/mangling.rs\<close>,
  \<open>grammar.rs\<close>). \<open>Salt_Types\<close> has the \<open>Type\<close> enum with
  mangling, substitution, the classification predicates, keys and structural equality;
  \<open>Salt_Layout\<close> sizes and alignments over the struct registry; \<open>Syn_Types\<close>
  the way from a written type to a \<open>Type\<close>. Lemmas: mangled names are read back,
  substitution eliminates generics (and where it does not descend), sizes are multiples of
  alignments, written types are read back.

  \<^bold>\<open>Generic calls\<close> (\<open>codegen/generic_resolver.rs\<close>).
  \<open>Generics\<close> has the unification of a parameter with the type of an argument and the
  phases that collect a binding for every generic of a call. Lemmas: unification of a generic type
  with an instance of it finds the instance, a call whose arguments are instances resolves to that
  substitution, and a call that resolves binds every generic.

  \<^bold>\<open>Constant folding\<close> (\<open>evaluator.rs\<close>,
  \<open>passes/comptime.rs\<close>). \<open>Comptime\<close> has the constant evaluator and the
  pass that rewrites the trees, a big-step meaning of the surface statements, and the proof that a
  folded body has the runs of the original one; the conditions on the body (which names are
  constants, which operations wrap) are those under which the pass is right, and each is shown to be
  needed by a finding.

  \<^bold>\<open>HIR\<close> (\<open>hir/ids.rs\<close>, \<open>expr.rs\<close>,
  \<open>stmt.rs\<close>, \<open>items.rs\<close>, \<open>scope.rs\<close>,
  \<open>lower.rs\<close>). \<open>Hir\<close> has the trees, \<open>Scope\<close> the scope stack,
  \<open>Lowering\<close> the lowering of bodies, \<open>Lower_Items\<close> of items and files.
  \<open>Lowering_Sound\<close> shows for every source that the scope stack is restored and every
  variable bound once before its use; \<open>Elaboration\<close> states lexical scoping as a
  relation and \<open>Lower_Items\<close> shows that the lowering refines it on the constructs it
  supports, where no \<open>for\<close> variable is mentioned outside of its loop. The constructs it
  replaces are findings.

  \<^bold>\<open>Type checker\<close> (\<open>hir/typeck.rs\<close>). \<open>Typeck_Ctx\<close> has
  the context and its operations, \<open>Typeck\<close> the checking of expressions, statements and
  blocks, \<open>Typeck_Items\<close> registration, trait compliance and monomorphization.
  \<open>Typeck_Sound\<close> relates them to a declarative typing judgment: accepted trees are well
  typed, well typed trees are accepted and left alone, checking changes types only and only extends
  the context. \<open>Front_End\<close> composes lowering and checking of a function.

  \<^bold>\<open>Coroutines\<close> (\<open>hir/async_lower.rs\<close>,
  \<open>hir/verify_pulse_bounds/mod.rs\<close>, \<open>codegen/mod.rs\<close>,
  \<open>codegen/passes/liveness.rs\<close>). \<open>Async_Analysis\<close> finds yields and
  crossing variables, \<open>Async_Cfg\<close> builds the control-flow graph,
  \<open>Async_Step\<close> emits the state struct and the step function. \<open>Lockstep\<close> is
  the interface between two suspending step functions (a locale); \<open>Async_Sim\<close>
  interprets it on source and graph and \<open>Async_Resume\<close> on graph and polled step
  function, which loses its locals at the end of every arm and poll: the polled state machine has
  the observable behaviour of the body if no block of the graph uses a local that it neither
  declares nor finds in the frame. \<open>Pulse\<close> is the cost search, which ends for every
  graph and is exact for paths to the first suspension; \<open>Pulse_Live\<close> concludes that the
  run of a verified body to its first suspension ends, and costs no more than the budget unless a
  statement does not complete. \<open>Liveness\<close> and \<open>Yielding_Driver\<close> are the
  analysis and the driver that choose the functions and the saved variables.

  \<^bold>\<open>Passes over the surface tree\<close> (\<open>codegen/passes/call_graph.rs\<close>,
  \<open>sync_verifier.rs\<close>, \<open>yield_injection.rs\<close>,
  \<open>codegen/verification/exhaustiveness.rs\<close>, \<open>codegen/stmt.rs\<close>).
  \<open>Call_Graph\<close> shows that the propagation ends with exactly the functions that lead to
  a blocking (context-requiring) one, and that the pulse and synchronous verdicts are exact about
  the calls the graph records; \<open>Yield_Points\<close> bounds the stripe factor;
  \<open>Match_Dispatch\<close> shows that the emitted chain of tests selects the first matching
  arm.

  \<^bold>\<open>Expansion on demand\<close> (\<open>codegen/type_bridge.rs\<close>,
  \<open>codegen/context.rs\<close>, \<open>codegen/mod.rs\<close>,
  \<open>codegen/collector.rs\<close>). \<open>Specialize\<close> has the requests for specialized
  functions: canonical arguments, names, the table of requests, the binding of generics, and the
  queued task. \<open>Demand\<close> has the driver: the seeds, the queue, the emission of one task
  with its guards and its context, the declarations that emission writes on the way, and the choice
  of forward declarations; what a body asks for and prints is an argument. Lemmas: a request binds
  every generic and is made once; a run that ends has a log with every function asked for, once each
  and none besides, with the text of each and the functions that are passed over; a run ends if
  finitely many names are asked for, and need not end otherwise.

  \<^bold>\<open>Proofs by the solver\<close> (\<open>hir/vc.rs\<close>,
  \<open>codegen/passes/loop_invariant.rs\<close>, \<open>codegen/expr/memory.rs\<close>,
  \<open>codegen/verification/mod.rs\<close>). The Z3 solver is not under \<open>src/\<close>: its
  answer is an argument, assumed sound where a theorem needs it. \<open>Solver_Terms\<close> has the
  terms the compiler builds with their meaning, and the stack of assertions.
  \<open>Verify_Conditions\<close> is the verification context of the HIR,
  \<open>Loop_Invariants\<close> the inference of loop bounds and their assertion,
  \<open>Contracts\<close> the translation of conditions, the check of \<open>requires\<close>
  clauses at a call and the checks at the entry of a function, \<open>Postconditions\<close> the
  check of \<open>ensures\<close> clauses at the returns under the path conditions that the emitter
  keeps. The theorems relate what is proved over the integers to the words of the machine, where
  nothing overflows; the findings show what happens where it does, and what the noted facts leave
  out.

  \<^bold>\<open>Trackers of the emitter\<close> (\<open>codegen/verification/\<close>,
  \<open>codegen/types/provenance.rs\<close>, \<open>codegen/phases/control_flow.rs\<close>).
  \<open>Snapshots\<close> is the interface of state with a stack of saved copies (a locale,
  interpreted by \<open>Scope\<close>, \<open>Pointer_State\<close> and \<open>Provenance\<close>),
  \<open>Ledgers\<close> the two leak detectors behind one contract (a locale), \<open>Arena\<close>
  the mark/reset epochs and the escape laws, \<open>Move_Check\<close> the moved values with the
  uses that are checked and those that are not, \<open>Global_Cache\<close> the cache of loaded
  globals with the meaning of the code it saves, in the branches that save and restore it and in
  those that do not, \<open>Proof_Hint\<close> the seal.

  \<^bold>\<open>Package manager\<close> (\<open>tools/sp/src/resolver.rs\<close> and
  \<open>manifest.rs\<close>, and the older \<open>tools/salt-build/src/resolver.rs\<close>,
  relative to the repository). \<open>Package_Resolver\<close> has a tree of files with the paths
  the tools follow, the manifests, the walk over the dependencies, the collection of sources, the
  build order and the search roots. Lemmas: the walk visits every declared name once, and after what
  it declares if there is no cycle; the build order has every file once.

  \<^bold>\<open>Bounds and fuel.\<close> Loops of the code are recursive functions with a
  termination proof (the propagation of the call graph, the escape traversal, the path search of the
  pulse verifier); the expansion driver, which need not end, is a partial function whose value is
  \<open>None\<close> if it does not return; a run of a program that may go on for ever is described
  by the traces of its finite prefixes (\<open>behaviour\<close> in \<open>Lockstep\<close>). Only
  the walk of the package manager has fuel, because it recurses along manifests on disk: one more
  than the number of names that the manifests declare is enough (\<open>walk_fuel\<close>), since no
  name is walked twice. Costs of the pulse verifier are 64-bit words, with the wrap-around of a
  release build.

  \<^bold>\<open>Findings.\<close> Where the code does not do what it means to, a lemma next to the
  component evaluates the model on a small program that shows it; the manifest lists them with the
  line of the code.

  \<^bold>\<open>Not modelled.\<close> The parser (\<open>grammar.rs\<close>,
  \<open>grammar/pattern.rs\<close>): it is a sequence of calls of \<open>syn\<close> parsers, which
  are not under \<open>src/\<close>. The text of the emitted MLIR
  (\<open>codegen/context.rs\<close>, \<open>intrinsics.rs\<close>, \<open>type_bridge.rs\<close>,
  \<open>emit_hir.rs\<close>, \<open>expr/\<close>, \<open>shader.rs\<close> and most of
  \<open>stmt.rs\<close>): templates whose meaning is that of MLIR; the trackers these files drive
  are modelled where their decisions are made. The verifiers of single instructions and loops, each
  a sequence of terms for the solver (\<open>slice_verifier.rs\<close>,
  \<open>ptr_bounds_verifier.rs\<close>, \<open>executor_verifier.rs\<close>,
  \<open>silicon_ingest.rs\<close>, \<open>hash_loop_verifier.rs\<close>). The drivers that run
  external tools (\<open>driver.rs\<close>, \<open>cli.rs\<close>, \<open>module_loader.rs\<close>,
  \<open>seeker.rs\<close>), the text pre-processing of \<open>lib.rs\<close>, the language server
  and the command lines of the package manager and the build tool. The kernel and the standard
  library are written in Salt.
\<close>

end
